(* ===== verification/Prelude.thy ===== *)
theory Prelude
  imports Complex_Main "HOL-Library.Multiset" "HOL-Library.AList"
begin

text \<open>
  Shared ground of the development: Rust strings as lists of Unicode code points, JSON values
  (\<^verbatim>\<open>serde_json::Value\<close> with the \<^verbatim>\<open>preserve_order\<close> feature), the JSON helpers of
  \<^verbatim>\<open>src/src/util.rs\<close>, outcomes of fallible operations (a value, an error, or a panic), the
  fixed-width integer conversions the program uses, and the list lemmas the components share.
\<close>

named_theorems engine_simps \<open>rewriting facts shared by the component proofs\<close>

section \<open>Text\<close>

text \<open>A Rust \<^verbatim>\<open>String\<close> is its sequence of Unicode scalar values.\<close>

type_synonym str = "nat list"

definition ascii :: "string \<Rightarrow> str" where
  "ascii s = map of_char s"

text \<open>
  Messages are written with a two-character spelling of the Hungarian letters:
  \<open>~a\<close> is a-acute, \<open>^o\<close> is o-diaeresis, \<open>&o\<close> is o-double-acute, \<open>~-\<close> is the em dash.
\<close>

definition accents :: "((char \<times> char) \<times> nat) list" where
  "accents =
    [((CHR ''~'', CHR ''a''), 225), ((CHR ''~'', CHR ''A''), 193),
     ((CHR ''~'', CHR ''e''), 233), ((CHR ''~'', CHR ''E''), 201),
     ((CHR ''~'', CHR ''i''), 237), ((CHR ''~'', CHR ''I''), 205),
     ((CHR ''~'', CHR ''o''), 243), ((CHR ''~'', CHR ''O''), 211),
     ((CHR ''~'', CHR ''u''), 250), ((CHR ''~'', CHR ''U''), 218),
     ((CHR ''^'', CHR ''o''), 246), ((CHR ''^'', CHR ''O''), 214),
     ((CHR ''^'', CHR ''u''), 252), ((CHR ''^'', CHR ''U''), 220),
     ((CHR ''&'', CHR ''o''), 337), ((CHR ''&'', CHR ''O''), 336),
     ((CHR ''&'', CHR ''u''), 369), ((CHR ''&'', CHR ''U''), 368),
     ((CHR ''~'', CHR ''-''), 8212)]"

fun hu :: "string \<Rightarrow> str" where
  "hu [] = []"
| "hu [c] = [of_char c]"
| "hu (c # d # cs) =
     (case map_of accents (c, d) of
        Some u \<Rightarrow> u # hu cs
      | None \<Rightarrow> of_char c # hu (d # cs))"

declare hu.simps [simp del]

lemma inj_of_char_nat: "inj (of_char :: char \<Rightarrow> nat)"
  by (metis char_of_char injI)

lemma ascii_eq_iff [simp]: "ascii s = ascii t \<longleftrightarrow> s = t"
  by (simp add: ascii_def inj_map_eq_map inj_of_char_nat)

lemma ascii_append [simp]: "ascii (s @ t) = ascii s @ ascii t"
  by (simp add: ascii_def)

text \<open>Rust's \<^verbatim>\<open>[..].join(sep)\<close> and the decimal \<^verbatim>\<open>{}\<close> formatting of integers.\<close>

fun join :: "str \<Rightarrow> str list \<Rightarrow> str" where
  "join sep [] = []"
| "join sep [w] = w"
| "join sep (w # v # ws) = w @ sep @ join sep (v # ws)"

fun show_nat :: "nat \<Rightarrow> str" where
  "show_nat n = (if n < 10 then [48 + n] else show_nat (n div 10) @ [48 + n mod 10])"

declare show_nat.simps [simp del]

definition show_int :: "int \<Rightarrow> str" where
  "show_int i = (if i < 0 then 45 # show_nat (nat (- i)) else show_nat (nat i))"

text \<open>Decimal formatting loses nothing.\<close>

fun read_nat :: "nat \<Rightarrow> str \<Rightarrow> nat" where
  "read_nat acc [] = acc"
| "read_nat acc (c # cs) = read_nat (10 * acc + (c - 48)) cs"

lemma read_nat_append: "read_nat acc (xs @ ys) = read_nat (read_nat acc xs) ys"
  by (induction xs arbitrary: acc) auto

lemma read_show_nat: "read_nat 0 (show_nat n) = n"
proof (induction n rule: show_nat.induct)
  case (1 n)
  then show ?case
    by (subst show_nat.simps) (auto simp: read_nat_append)
qed

lemma show_nat_inj [simp]: "show_nat m = show_nat n \<longleftrightarrow> m = n"
  by (metis read_show_nat)

text \<open>\<^verbatim>\<open>char::is_whitespace\<close> (the Unicode property White\_Space) and \<^verbatim>\<open>str::trim\<close>.\<close>

definition is_whitespace :: "nat \<Rightarrow> bool" where
  "is_whitespace c \<longleftrightarrow>
     9 \<le> c \<and> c \<le> 13 \<or> c = 32 \<or> c = 133 \<or> c = 160 \<or> c = 5760 \<or> 8192 \<le> c \<and> c \<le> 8202
     \<or> c = 8232 \<or> c = 8233 \<or> c = 8239 \<or> c = 8287 \<or> c = 12288"

definition trim :: "str \<Rightarrow> str" where
  "trim s = rev (dropWhile is_whitespace (rev (dropWhile is_whitespace s)))"

lemma trim_no_whitespace:
  "s \<noteq> [] \<Longrightarrow> \<not> is_whitespace (hd s) \<Longrightarrow> \<not> is_whitespace (last s) \<Longrightarrow> trim s = s"
proof -
  assume "s \<noteq> []" and h: "\<not> is_whitespace (hd s)" and l: "\<not> is_whitespace (last s)"
  then have "dropWhile is_whitespace s = s" by (cases s) auto
  moreover have "dropWhile is_whitespace (rev s) = rev s"
    using \<open>s \<noteq> []\<close> l by (cases s rule: rev_cases) auto
  ultimately show "trim s = s" by (simp add: trim_def)
qed

section \<open>Fixed-width integers\<close>

definition i64_min :: int where "i64_min = - (2 ^ 63)"
definition i64_max :: int where "i64_max = 2 ^ 63 - 1"

definition fits_i64 :: "int \<Rightarrow> bool" where
  "fits_i64 n \<longleftrightarrow> i64_min \<le> n \<and> n \<le> i64_max"

text \<open>The truncating casts \<^verbatim>\<open>as i32\<close> and \<^verbatim>\<open>as u32\<close> from a wider integer.\<close>

definition as_i32 :: "int \<Rightarrow> int" where
  "as_i32 n = (n + 2 ^ 31) mod 2 ^ 32 - 2 ^ 31"

definition as_u32 :: "int \<Rightarrow> int" where
  "as_u32 n = n mod 2 ^ 32"

definition fits_i32 :: "int \<Rightarrow> bool" where
  "fits_i32 n \<longleftrightarrow> - (2 ^ 31) \<le> n \<and> n < 2 ^ 31"

lemma as_i32_id: "fits_i32 n \<Longrightarrow> as_i32 n = n"
  by (simp add: as_i32_def fits_i32_def)

lemma as_u32_id: "0 \<le> n \<Longrightarrow> n < 2 ^ 32 \<Longrightarrow> as_u32 n = n"
  by (simp add: as_u32_def)

text \<open>Subtraction of \<^verbatim>\<open>usize\<close> values in a release build: it wraps below zero.\<close>

definition usize_sub :: "nat \<Rightarrow> nat \<Rightarrow> nat" where
  "usize_sub a b = (if b \<le> a then a - b else a + 2 ^ 64 - b)"

lemma usize_sub_le [simp]: "b \<le> a \<Longrightarrow> usize_sub a b = a - b"
  by (simp add: usize_sub_def)

section \<open>Outcomes of fallible operations\<close>

text \<open>
  \<open>Done\<close> is \<^verbatim>\<open>Ok\<close>, \<open>Fail\<close> is \<^verbatim>\<open>Err\<close>, and \<open>Panic\<close> is a Rust panic (an index out of
  range, an \<^verbatim>\<open>unwrap\<close> of \<^verbatim>\<open>None\<close>).
\<close>

datatype ('e, 'a) outcome = Done 'a | Fail 'e | Panic

fun is_done :: "('e, 'a) outcome \<Rightarrow> bool" where
  "is_done (Done _) = True"
| "is_done _ = False"

lemma is_done_iff: "is_done r \<longleftrightarrow> (\<exists>x. r = Done x)"
  by (cases r) auto

section \<open>Lists and multisets\<close>

lemma mset_take_drop: "mset (take n xs) + mset (drop n xs) = mset xs"
  by (metis append_take_drop_id mset_append)

lemma set_map_filter_eq: "set (List.map_filter f xs) = {y. \<exists>x\<in>set xs. f x = Some y}"
  by (induction xs) (auto simp: map_filter_def)

section \<open>Interfaces\<close>

text \<open>
  A JSON codec: whatever the writer makes of a proper value, the reader gives back. The players, the
  boards and the settings of a game are each saved through such a pair.
\<close>

locale json_codec =
  fixes enc :: "'a \<Rightarrow> 'j" and dec :: "'j \<Rightarrow> 'a" and proper :: "'a \<Rightarrow> bool"
  assumes dec_enc: "proper x \<Longrightarrow> dec (enc x) = x"
begin

lemma enc_inj: "proper x \<Longrightarrow> proper y \<Longrightarrow> enc x = enc y \<longleftrightarrow> x = y"
  by (metis dec_enc)

lemma map_dec_enc: "list_all proper xs \<Longrightarrow> map (\<lambda>x. dec (enc x)) xs = xs"
  by (induction xs) (simp_all add: dec_enc)

end

text \<open>
  A store of tiles (the bag): taking some out and putting some back moves them, and the number
  taken is the number asked for, or all there are.
\<close>

locale tile_store =
  fixes take_out :: "nat \<Rightarrow> 's \<Rightarrow> 'a list \<times> 's" and put_in :: "('a list \<Rightarrow> 'a list) \<Rightarrow> 'a list \<Rightarrow> 's \<Rightarrow> 's"
    and contents :: "'s \<Rightarrow> 'a multiset" and fair :: "('a list \<Rightarrow> 'a list) \<Rightarrow> bool"
  assumes take_out_moves: "mset (fst (take_out n s)) + contents (snd (take_out n s)) = contents s"
    and take_out_length: "length (fst (take_out n s)) = min n (size (contents s))"
    and put_in_moves: "fair shuf \<Longrightarrow> contents (put_in shuf ts s) = contents s + mset ts"
begin

text \<open>Taking \<open>n\<close> and putting \<open>n\<close> back keeps the size of the store.\<close>

lemma swap_size:
  assumes "fair shuf" "length ts = n" "n \<le> size (contents s)"
  shows "size (contents (put_in shuf ts (snd (take_out n s)))) = size (contents s)"
proof -
  have "size (mset (fst (take_out n s))) + size (contents (snd (take_out n s))) = size (contents s)"
    by (metis take_out_moves size_union)
  then show ?thesis using assms take_out_length [of n s] by (simp add: put_in_moves)
qed

lemma swap_contents:
  assumes "fair shuf"
  shows "contents (put_in shuf ts (snd (take_out n s))) + mset (fst (take_out n s)) = contents s + mset ts"
proof -
  have "contents (put_in shuf ts (snd (take_out n s))) + mset (fst (take_out n s))
      = (mset (fst (take_out n s)) + contents (snd (take_out n s))) + mset ts"
    by (simp add: put_in_moves [OF assms] ac_simps)
  then show ?thesis by (simp only: take_out_moves)
qed

end

text \<open>
  A source of word verdicts, used by the board (all words of a placement at once, with the wrong ones)
  and by the search of the bots (the valid ones among many words).
\<close>

locale word_oracle =
  fixes verdict :: "str list \<Rightarrow> bool \<times> str list" and valid_of :: "str list \<Rightarrow> str set" and word_ok :: "str \<Rightarrow> bool"
  assumes verdict_ok: "fst (verdict ws) \<longleftrightarrow> (\<forall>w\<in>set ws. word_ok w)"
    and verdict_wrong: "set (snd (verdict ws)) \<subseteq> {w \<in> set ws. \<not> word_ok w}"
    and valid_of_ok: "valid_of ws = {w \<in> set ws. word_ok w}"
begin

lemma verdict_by_valid: "fst (verdict ws) \<longleftrightarrow> set ws \<subseteq> valid_of ws"
  by (auto simp: verdict_ok valid_of_ok)

text \<open>Words found valid among many others are valid on their own.\<close>

lemma verdict_subset: "set vs \<subseteq> valid_of ws \<Longrightarrow> fst (verdict vs)"
  by (auto simp: verdict_ok valid_of_ok)

lemma valid_of_append: "valid_of (vs @ ws) = valid_of vs \<union> valid_of ws"
  by (auto simp: valid_of_ok)

end

text \<open>Runs of a step relation, and the states they reach.\<close>

inductive steps :: "('s \<Rightarrow> 'e \<Rightarrow> 's \<Rightarrow> bool) \<Rightarrow> 's \<Rightarrow> 'e list \<Rightarrow> 's \<Rightarrow> bool" for step where
  run_nil: "steps step s [] s"
| run_snoc: "steps step s evs s' \<Longrightarrow> step s' ev s'' \<Longrightarrow> steps step s (evs @ [ev]) s''"

locale invariant_system =
  fixes step :: "'s \<Rightarrow> 'e \<Rightarrow> 's \<Rightarrow> bool" and inv :: "'s \<Rightarrow> bool"
  assumes inv_step: "step s ev s' \<Longrightarrow> inv s \<Longrightarrow> inv s'"
begin

lemma inv_run: "steps step s evs s' \<Longrightarrow> inv s \<Longrightarrow> inv s'"
  by (induction rule: steps.induct) (auto intro: inv_step)

end

text \<open>A quantity that some events keep and the others only lower.\<close>

locale measured_system = invariant_system step inv
  for step :: "'s \<Rightarrow> 'e \<Rightarrow> 's \<Rightarrow> bool" and inv :: "'s \<Rightarrow> bool" +
  fixes amount :: "'s \<Rightarrow> 'a multiset" and lossy :: "'e \<Rightarrow> bool"
  assumes amount_step: "step s ev s' \<Longrightarrow> inv s \<Longrightarrow> amount s' \<subseteq># amount s"
    and amount_kept: "step s ev s' \<Longrightarrow> inv s \<Longrightarrow> \<not> lossy ev \<Longrightarrow> amount s' = amount s"
begin

lemma amount_run:
  "steps step s evs s' \<Longrightarrow> inv s \<Longrightarrow>
     amount s' \<subseteq># amount s \<and> ((\<forall>ev\<in>set evs. \<not> lossy ev) \<longrightarrow> amount s' = amount s)"
proof (induction rule: steps.induct)
  case (run_snoc s evs s' ev s'')
  then have "inv s'" using inv_run by blast
  then show ?case
    using run_snoc amount_step [of s' ev s''] amount_kept [of s' ev s''] by (auto intro: subset_mset.order_trans)
qed simp

end

end
