(* ===== verification/Json.thy ===== *)
theory Json
  imports Prelude
begin

text \<open>
  JSON values and the JSON helpers of \<^verbatim>\<open>src/src/util.rs\<close>. The crate \<^verbatim>\<open>serde_json\<close> is built with
  \<^verbatim>\<open>preserve_order\<close>, so an object is the list of its members in insertion order; a number is an
  integer in the range of \<^verbatim>\<open>i64\<close> or \<^verbatim>\<open>u64\<close>, or a float.
\<close>

datatype json =
    JNull
  | JBool bool
  | JInt int
  | JFloat real
  | JStr str
  | JArr "json list"
  | JObj "(str \<times> json) list"

text \<open>\<^verbatim>\<open>Value::get\<close> with a string key, and the \<^verbatim>\<open>as_*\<close> accessors.\<close>

fun jget :: "json \<Rightarrow> str \<Rightarrow> json option" where
  "jget (JObj kvs) k = map_of kvs k"
| "jget _ _ = None"

fun as_str :: "json \<Rightarrow> str option" where
  "as_str (JStr s) = Some s"
| "as_str _ = None"

fun as_array :: "json \<Rightarrow> json list option" where
  "as_array (JArr xs) = Some xs"
| "as_array _ = None"

fun as_object :: "json \<Rightarrow> (str \<times> json) list option" where
  "as_object (JObj kvs) = Some kvs"
| "as_object _ = None"

fun is_null :: "json \<Rightarrow> bool" where
  "is_null JNull = True"
| "is_null _ = False"

text \<open>\<^verbatim>\<open>Number::as_i64\<close>, \<^verbatim>\<open>as_f64\<close>, and the saturating cast \<^verbatim>\<open>f64 as i64\<close>.\<close>

fun as_i64 :: "json \<Rightarrow> int option" where
  "as_i64 (JInt n) = (if fits_i64 n then Some n else None)"
| "as_i64 _ = None"

fun as_f64 :: "json \<Rightarrow> real option" where
  "as_f64 (JInt n) = Some (real_of_int n)"
| "as_f64 (JFloat r) = Some r"
| "as_f64 _ = None"

definition trunc :: "real \<Rightarrow> int" where
  "trunc r = (if 0 \<le> r then \<lfloor>r\<rfloor> else \<lceil>r\<rceil>)"

definition f64_as_i64 :: "real \<Rightarrow> int" where
  "f64_as_i64 r = max i64_min (min i64_max (trunc r))"

text \<open>\<^verbatim>\<open>str::parse::<i64>\<close>: an optional sign, then at least one digit, within the range.\<close>

definition is_digit :: "nat \<Rightarrow> bool" where
  "is_digit c \<longleftrightarrow> 48 \<le> c \<and> c \<le> 57"

definition parse_i64 :: "str \<Rightarrow> int option" where
  "parse_i64 s =
     (let neg = (case s of c # _ \<Rightarrow> c = 45 | [] \<Rightarrow> False);
          digits = (case s of c # cs \<Rightarrow> if c = 45 \<or> c = 43 then cs else s | [] \<Rightarrow> []);
          n = (if neg then - int (read_nat 0 digits) else int (read_nat 0 digits))
      in if digits \<noteq> [] \<and> list_all is_digit digits \<and> fits_i64 n then Some n else None)"

section \<open>\<^verbatim>\<open>util.rs\<close>\<close>

fun as_int :: "json \<Rightarrow> int option" where
  "as_int (JInt n) =
     (case as_i64 (JInt n) of Some i \<Rightarrow> Some i | None \<Rightarrow> Some (f64_as_i64 (real_of_int n)))"
| "as_int (JFloat r) = (if of_int (trunc r) = r then Some (f64_as_i64 r) else None)"
| "as_int _ = None"

fun strict_int :: "json \<Rightarrow> int option" where
  "strict_int (JInt n) = as_i64 (JInt n)"
| "strict_int _ = None"

fun py_int :: "json \<Rightarrow> int option" where
  "py_int (JInt n) =
     (case as_i64 (JInt n) of Some i \<Rightarrow> Some i | None \<Rightarrow> Some (f64_as_i64 (real_of_int n)))"
| "py_int (JFloat r) = Some (f64_as_i64 r)"
| "py_int (JBool b) = Some (if b then 1 else 0)"
| "py_int (JStr s) = parse_i64 (trim s)"
| "py_int _ = None"

fun truthy :: "json \<Rightarrow> bool" where
  "truthy JNull = False"
| "truthy (JBool b) = b"
| "truthy (JInt n) = (n \<noteq> 0)"
| "truthy (JFloat r) = (r \<noteq> 0)"
| "truthy (JStr s) = (s \<noteq> [])"
| "truthy (JArr xs) = (xs \<noteq> [])"
| "truthy (JObj kvs) = (kvs \<noteq> [])"

definition field :: "json \<Rightarrow> str \<Rightarrow> json" where
  "field v k = (case jget v k of Some x \<Rightarrow> x | None \<Rightarrow> JNull)"

lemma py_int_JInt [simp]: "fits_i64 n \<Longrightarrow> py_int (JInt n) = Some n"
  by simp

lemma f64_as_i64_range: "fits_i64 (f64_as_i64 r)"
  by (simp add: f64_as_i64_def fits_i64_def i64_min_def i64_max_def)

text \<open>Whatever JSON value arrives, an accepted integer fits an \<^verbatim>\<open>i64\<close>.\<close>

lemma py_int_range: "py_int v = Some n \<Longrightarrow> fits_i64 n"
proof (cases v)
  case (JBool b)
  assume "py_int v = Some n"
  with JBool show ?thesis
    by (cases b) (auto simp: fits_i64_def i64_min_def i64_max_def)
qed (auto simp: parse_i64_def Let_def f64_as_i64_range split: if_splits)

lemma show_nat_digits: "list_all is_digit (show_nat n)" "show_nat n \<noteq> []"
proof (induction n rule: show_nat.induct)
  case (1 n)
  {
    case 1
    with \<open>\<not> n < 10 \<Longrightarrow> list_all is_digit (show_nat (n div 10))\<close> show ?case
      by (subst show_nat.simps) (auto simp: is_digit_def)
  next
    case 2
    show ?case by (subst show_nat.simps) auto
  }
qed

lemma show_nat_hd: "hd (show_nat n) \<noteq> 45 \<and> hd (show_nat n) \<noteq> 43"
proof -
  from show_nat_digits [of n] have "is_digit (hd (show_nat n))"
    by (cases "show_nat n") auto
  then show ?thesis by (auto simp: is_digit_def)
qed

text \<open>Formatting an integer and parsing it back is the identity on \<^verbatim>\<open>i64\<close>.\<close>

lemma parse_show_int: "fits_i64 n \<Longrightarrow> parse_i64 (show_int n) = Some n"
proof (cases "n < 0")
  case True
  moreover assume "fits_i64 n"
  ultimately show ?thesis
    by (simp add: parse_i64_def show_int_def show_nat_digits read_show_nat)
next
  case False
  moreover assume "fits_i64 n"
  moreover obtain c cs where "show_nat (nat n) = c # cs" and "c \<noteq> 45" and "c \<noteq> 43"
    using show_nat_digits(2) [of "nat n"] show_nat_hd [of "nat n"]
    by (cases "show_nat (nat n)") auto
  ultimately show ?thesis
    using show_nat_digits(1) [of "nat n"] read_show_nat [of "nat n"]
    by (simp add: parse_i64_def show_int_def)
qed

end
