(* ===== verification/Tiles.thy ===== *)
theory Tiles
  imports Json
begin

text \<open>
  \<^verbatim>\<open>src/src/engine/tiles.rs\<close>: the Hungarian tile set (100 tiles, 39 kinds), the bag, and the
  decomposition of a word into tiles. A tile is its index in \<open>TILE_DISTRIBUTION\<close> (0 is the
  blank); letters are spelled by their code points (193 is A-acute, 201 E-acute, 205 I-acute,
  211 O-acute, 214 O-diaeresis, 336 O-double-acute, 218 U-acute, 220 U-diaeresis, 368
  U-double-acute).
\<close>

section \<open>The tile set\<close>

definition TILE_DISTRIBUTION :: "(str \<times> nat \<times> nat) list" where
  "TILE_DISTRIBUTION =
    [([], 0, 2), ([65], 1, 6), ([69], 1, 6), ([75], 1, 6),
     ([84], 1, 5), ([193], 1, 4), ([76], 1, 4), ([78], 1, 4),
     ([82], 1, 4), ([73], 1, 3), ([77], 1, 3), ([79], 1, 3),
     ([83], 1, 3), ([66], 2, 3), ([68], 2, 3), ([71], 2, 3),
     ([211], 2, 3), ([201], 3, 3), ([72], 3, 2), ([83, 90], 3, 2),
     ([86], 3, 2), ([70], 4, 2), ([71, 89], 4, 2), ([74], 4, 2),
     ([214], 4, 2), ([80], 4, 2), ([85], 4, 2), ([220], 4, 2),
     ([90], 4, 2), ([67], 5, 1), ([205], 5, 1), ([78, 89], 5, 1),
     ([67, 83], 7, 1), ([336], 7, 1), ([218], 7, 1), ([368], 7, 1),
     ([76, 89], 8, 1), ([90, 83], 8, 1), ([84, 89], 10, 1)]"

datatype tile = Tile (tile_index: nat)

definition BLANK :: tile where
  "BLANK = Tile 0"

text \<open>
  A Rust \<^verbatim>\<open>Tile\<close> always indexes the table; \<open>tile_ok\<close> states it, and every constructor below
  establishes it. The third branches of the three reads are never taken for such a tile.
\<close>

definition tile_ok :: "tile \<Rightarrow> bool" where
  "tile_ok t \<longleftrightarrow> tile_index t < 39"

definition entry_at :: "nat \<Rightarrow> str \<times> nat \<times> nat" where
  "entry_at i = (if i < 39 then TILE_DISTRIBUTION ! i else ([], 0, 0))"

fun position :: "('a \<Rightarrow> bool) \<Rightarrow> 'a list \<Rightarrow> nat option" where
  "position P [] = None"
| "position P (x # xs) = (if P x then Some 0 else map_option Suc (position P xs))"

definition from_str :: "str \<Rightarrow> tile option" where
  "from_str s = map_option Tile (position (\<lambda>e. fst e = s) TILE_DISTRIBUTION)"

definition letter_of :: "tile \<Rightarrow> str" where
  "letter_of t = fst (entry_at (tile_index t))"

definition tile_value :: "tile \<Rightarrow> nat" where
  "tile_value t = fst (snd (entry_at (tile_index t)))"

definition tile_is_blank :: "tile \<Rightarrow> bool" where
  "tile_is_blank t \<longleftrightarrow> tile_index t = 0"

definition VOWELS :: str where
  "VOWELS = [65, 193, 69, 201, 73, 205, 79, 211, 214, 336, 85, 218, 220, 368]"

definition is_vowel :: "tile \<Rightarrow> bool" where
  "is_vowel t = (case letter_of t of c # _ \<Rightarrow> c \<in> set VOWELS | [] \<Rightarrow> False)"

definition is_digraph :: "tile \<Rightarrow> bool" where
  "is_digraph t \<longleftrightarrow> length (letter_of t) = 2"

definition letters :: "tile list" where
  "letters = map Tile [1..<length TILE_DISTRIBUTION]"

definition letter_value :: "str \<Rightarrow> nat" where
  "letter_value s = (case from_str s of Some t \<Rightarrow> tile_value t | None \<Rightarrow> 0)"

definition forms_digraph :: "str \<Rightarrow> str \<Rightarrow> bool" where
  "forms_digraph a b =
     (if length a \<noteq> 1 \<or> length b \<noteq> 1 then False
      else (\<exists>(letter, _, _) \<in> set TILE_DISTRIBUTION. letter = a @ b \<and> length letter = 2))"

section \<open>Words into tiles\<close>

text \<open>
  \<^verbatim>\<open>str::to_uppercase\<close>, exact on every code point whose upper case is spelled with letters
  of the tile set (all of them are listed); any other code point has no tile before or after the
  conversion, so it may stay as it is.
\<close>

definition upper_table :: "(nat \<times> str) list" where
  "upper_table =
    [(223, [83, 83]), (225, [193]), (233, [201]), (237, [205]), (243, [211]), (246, [214]),
     (250, [218]), (252, [220]), (305, [73]), (337, [336]), (369, [368]), (383, [83]),
     (64256, [70, 70]), (64257, [70, 73]), (64258, [70, 76]), (64259, [70, 70, 73]),
     (64260, [70, 70, 76]), (64261, [83, 84]), (64262, [83, 84])]"

definition upper_char :: "nat \<Rightarrow> str" where
  "upper_char c =
     (if 97 \<le> c \<and> c \<le> 122 then [c - 32]
      else case map_of upper_table c of Some u \<Rightarrow> u | None \<Rightarrow> [c])"

definition to_uppercase :: "str \<Rightarrow> str" where
  "to_uppercase s = concat (map upper_char s)"

text \<open>
  The table of the dynamic program: entry \<open>i\<close> is the best decomposition of the first \<open>i\<close>
  characters, as (number of tiles, minus the score, the tiles). \<open>tok_try\<close> is the body of the
  inner loop over the piece sizes, \<open>tok_step\<close> of the outer loop.
\<close>

type_synonym tok_cell = "(int \<times> int \<times> tile list) option"

definition tok_better :: "int \<times> int \<Rightarrow> tok_cell \<Rightarrow> bool" where
  "tok_better cand old =
     (case old of None \<Rightarrow> True
      | Some (c, s, _) \<Rightarrow> fst cand < c \<or> fst cand = c \<and> snd cand < s)"

definition tok_try :: "str \<Rightarrow> nat \<Rightarrow> int \<times> int \<times> tile list \<Rightarrow> nat \<Rightarrow> tok_cell list \<Rightarrow> tok_cell list" where
  "tok_try upper i cell sz best =
     (case cell of (cnt, neg_score, parts) \<Rightarrow>
        if i + sz > length upper then best
        else case from_str (take sz (drop i upper)) of
          None \<Rightarrow> best
        | Some tile \<Rightarrow>
            if tile_is_blank tile then best
            else
              let cand = (cnt + 1, neg_score - int (tile_value tile))
              in if tok_better cand (best ! (i + sz))
                 then best[i + sz := Some (fst cand, snd cand, parts @ [tile])]
                 else best)"

definition tok_step :: "str \<Rightarrow> nat \<Rightarrow> tok_cell list \<Rightarrow> tok_cell list" where
  "tok_step upper i best =
     (case best ! i of
        None \<Rightarrow> best
      | Some cell \<Rightarrow> tok_try upper i cell 2 (tok_try upper i cell 1 best))"

definition tok_table :: "str \<Rightarrow> tok_cell list" where
  "tok_table upper =
     fold (tok_step upper) [0..<length upper]
       ((replicate (length upper + 1) None)[0 := Some (0, 0, [])])"

definition tokenize_word :: "str \<Rightarrow> tile list option" where
  "tokenize_word word =
     (let upper = to_uppercase word
      in map_option (\<lambda>(_, _, parts). parts) (tok_table upper ! length upper))"

definition word_base_score :: "str \<Rightarrow> nat option" where
  "word_base_score word = map_option (\<lambda>tokens. sum_list (map tile_value tokens)) (tokenize_word word)"

section \<open>The bag\<close>

text \<open>
  \<^verbatim>\<open>shuffle\<close> of the crate \<^verbatim>\<open>rand\<close> is the parameter \<open>shuf\<close>; where a result rests on it, it
  is assumed to permute its argument (\<open>shuffler\<close>).
\<close>

type_synonym tile_bag = "tile list"

definition shuffler :: "(tile list \<Rightarrow> tile list) \<Rightarrow> bool" where
  "shuffler shuf \<longleftrightarrow> (\<forall>xs. mset (shuf xs) = mset xs)"

definition unshuffled_bag :: "tile list" where
  "unshuffled_bag =
     concat (map (\<lambda>(i, (_, _, cnt)). replicate cnt (Tile i))
       (List.enumerate 0 TILE_DISTRIBUTION))"

definition bag_new :: "(tile list \<Rightarrow> tile list) \<Rightarrow> tile_bag" where
  "bag_new shuf = shuf unshuffled_bag"

definition draw :: "nat \<Rightarrow> tile_bag \<Rightarrow> tile list \<times> tile_bag" where
  "draw cnt bag =
     (let n = min cnt (length bag)
      in if n = 0 then ([], bag)
         else let k = length bag - n in (drop k bag, take k bag))"

definition put_back :: "(tile list \<Rightarrow> tile list) \<Rightarrow> tile list \<Rightarrow> tile_bag \<Rightarrow> tile_bag" where
  "put_back shuf ts bag = shuf (bag @ ts)"

definition remaining :: "tile_bag \<Rightarrow> nat" where
  "remaining bag = length bag"


section \<open>Facts about the tile set\<close>

lemma position_Some_iff:
  "position P xs = Some i \<longleftrightarrow> i < length xs \<and> P (xs ! i) \<and> (\<forall>j<i. \<not> P (xs ! j))"
proof (induction xs arbitrary: i)
  case Nil
  then show ?case by simp
next
  case (Cons x xs)
  show ?case
    by (cases i) (auto simp: Cons.IH All_less_Suc2)
qed

lemma position_None_iff: "position P xs = None \<longleftrightarrow> (\<forall>x\<in>set xs. \<not> P x)"
  by (induction xs) auto

lemma length_TILE_DISTRIBUTION [simp]: "length TILE_DISTRIBUTION = 39"
  by (simp add: TILE_DISTRIBUTION_def)

lemma all_tiles:
  "list_all (\<lambda>i. (length (letter_of (Tile i)) = 1 \<or> length (letter_of (Tile i)) = 2)
     \<and> from_str (letter_of (Tile i)) = Some (Tile i)) [1..<39]"
  by code_simp

lemma tile_facts:
  assumes "tile_ok t" and "\<not> tile_is_blank t"
  shows "length (letter_of t) = 1 \<or> length (letter_of t) = 2" and "from_str (letter_of t) = Some t"
proof -
  from assms have "tile_index t \<in> set [1..<39]"
    by (auto simp: tile_ok_def tile_is_blank_def)
  with all_tiles have "(length (letter_of (Tile (tile_index t))) = 1 \<or> length (letter_of (Tile (tile_index t))) = 2)
     \<and> from_str (letter_of (Tile (tile_index t))) = Some (Tile (tile_index t))"
    unfolding list_all_iff by blast
  then show "length (letter_of t) = 1 \<or> length (letter_of t) = 2" and "from_str (letter_of t) = Some t"
    by simp_all
qed

lemma from_str_Some:
  assumes "from_str s = Some t"
  shows "tile_ok t" and "letter_of t = s"
  using assms by (auto simp: from_str_def tile_ok_def letter_of_def entry_at_def position_Some_iff)

lemma letter_of_blank [simp]: "tile_is_blank t \<Longrightarrow> letter_of t = []"
  by (simp add: letter_of_def entry_at_def tile_is_blank_def TILE_DISTRIBUTION_def)

lemma from_str_blank: "from_str [] = Some BLANK"
  by (simp add: from_str_def TILE_DISTRIBUTION_def BLANK_def)

lemma from_str_iff: "from_str s = Some t \<longleftrightarrow> tile_ok t \<and> letter_of t = s"
proof
  assume "tile_ok t \<and> letter_of t = s"
  then show "from_str s = Some t"
  proof (cases "tile_is_blank t")
    case True
    then have "t = BLANK" by (cases t) (simp add: tile_is_blank_def BLANK_def)
    with True \<open>tile_ok t \<and> letter_of t = s\<close> show ?thesis
      by (simp add: from_str_blank)
  next
    case False
    with \<open>tile_ok t \<and> letter_of t = s\<close> show ?thesis using tile_facts(2) by blast
  qed
qed (auto dest: from_str_Some)

lemma letter_of_inj: "tile_ok t \<Longrightarrow> tile_ok u \<Longrightarrow> letter_of t = letter_of u \<longleftrightarrow> t = u"
  by (metis from_str_iff option.inject)

lemma set_letters: "set letters = {t. tile_ok t \<and> \<not> tile_is_blank t}"
proof -
  have "t \<in> set letters" if "tile_ok t" "\<not> tile_is_blank t" for t
    using that by (cases t) (auto simp: letters_def tile_ok_def tile_is_blank_def)
  then show ?thesis
    by (auto simp: letters_def tile_ok_def tile_is_blank_def)
qed

text \<open>The bag holds 100 tiles, and the whole set sums to the printed counts.\<close>

lemma length_unshuffled_bag: "length unshuffled_bag = 100"
  by code_simp

lemma unshuffled_bag_ok: "t \<in> set unshuffled_bag \<Longrightarrow> tile_ok t"
  by (auto simp: unshuffled_bag_def tile_ok_def in_set_enumerate_eq split: prod.splits)

lemma shuffler_length: "shuffler shuf \<Longrightarrow> length (shuf xs) = length xs"
  by (metis shuffler_def size_mset)

lemma shuffler_set: "shuffler shuf \<Longrightarrow> set (shuf xs) = set xs"
  by (metis shuffler_def set_mset_mset)

lemma draw_eq: "draw cnt bag = (drop (length bag - cnt) bag, take (length bag - cnt) bag)"
  by (auto simp: draw_def Let_def min_def)

lemma draw_conserves: "mset (fst (draw cnt bag)) + mset (snd (draw cnt bag)) = mset bag"
  by (simp add: draw_eq) (metis add.commute mset_take_drop)

lemma length_draw [simp]: "length (fst (draw cnt bag)) = min cnt (length bag)"
  by (simp add: draw_eq)

lemma length_bag_draw [simp]: "length (snd (draw cnt bag)) = length bag - cnt"
  by (simp add: draw_eq)

interpretation tile_bags: tile_store draw put_back mset shuffler
  by unfold_locales (simp_all add: draw_conserves put_back_def shuffler_def)

section \<open>The decomposition is sound and optimal\<close>

text \<open>The specification: the tilings of a word, and the order that ranks them.\<close>

definition spells :: "tile list \<Rightarrow> str \<Rightarrow> bool" where
  "spells ts u \<longleftrightarrow> (\<forall>t\<in>set ts. tile_ok t \<and> \<not> tile_is_blank t) \<and> concat (map letter_of ts) = u"

definition tiling_cost :: "tile list \<Rightarrow> int \<times> int" where
  "tiling_cost ts = (int (length ts), - int (sum_list (map tile_value ts)))"

definition cost_le :: "int \<times> int \<Rightarrow> int \<times> int \<Rightarrow> bool" where
  "cost_le a b \<longleftrightarrow> fst a < fst b \<or> fst a = fst b \<and> snd a \<le> snd b"

definition last_start :: "tile list \<Rightarrow> nat \<Rightarrow> nat" where
  "last_start ts j = j - length (letter_of (last ts))"

text \<open>The tilings of the first \<open>j\<close> characters whose last tile starts before \<open>i\<close>.\<close>

definition tilings :: "str \<Rightarrow> nat \<Rightarrow> nat \<Rightarrow> tile list set" where
  "tilings u i j = {ts. spells ts (take j u) \<and> (ts = [] \<or> last_start ts j < i)}"

definition cell_best :: "tile list set \<Rightarrow> tok_cell \<Rightarrow> bool" where
  "cell_best S cell =
     (case cell of None \<Rightarrow> S = {}
      | Some (c, s, ps) \<Rightarrow> ps \<in> S \<and> (c, s) = tiling_cost ps \<and> (\<forall>ts\<in>S. cost_le (c, s) (tiling_cost ts)))"

lemma spells_snoc:
  "spells (ts @ [t]) u \<longleftrightarrow>
     (\<exists>v. u = v @ letter_of t \<and> spells ts v \<and> tile_ok t \<and> \<not> tile_is_blank t)"
  by (auto simp: spells_def)

lemma tiling_cost_snoc:
  "tiling_cost (ts @ [t]) = (fst (tiling_cost ts) + 1, snd (tiling_cost ts) - int (tile_value t))"
  by (simp add: tiling_cost_def)

lemma cost_le_trans: "cost_le a b \<Longrightarrow> cost_le b c \<Longrightarrow> cost_le a c"
  by (auto simp: cost_le_def)

lemma cost_le_snoc: "cost_le (c, s) (tiling_cost ts) \<Longrightarrow> cost_le (c + 1, s - int (tile_value t)) (tiling_cost (ts @ [t]))"
  by (auto simp: cost_le_def tiling_cost_snoc)

definition extend :: "str \<Rightarrow> nat \<Rightarrow> nat \<Rightarrow> tile list set \<Rightarrow> tile list set" where
  "extend u i sz T =
     (if i + sz \<le> length u then
       {ts @ [t] | ts t. ts \<in> T \<and> tile_ok t \<and> \<not> tile_is_blank t \<and> letter_of t = take sz (drop i u)}
      else {})"

lemma length_tok_try [simp]: "length (tok_try u i cell sz best) = length best"
  by (cases cell) (auto simp: tok_try_def Let_def split: option.splits)

lemma tok_try_best:
  assumes T: "cell_best T (Some cell)" and S: "cell_best S (best ! (i + sz))"
    and len: "length best = Suc (length u)"
  shows "i + sz \<le> length u \<Longrightarrow> cell_best (S \<union> extend u i sz T) (tok_try u i cell sz best ! (i + sz))"
    and "j \<noteq> i + sz \<Longrightarrow> tok_try u i cell sz best ! j = best ! j"
proof -
  obtain c s ps where cell: "cell = (c, s, ps)" by (cases cell) auto
  from T have ps: "ps \<in> T" and cost: "(c, s) = tiling_cost ps" and min: "\<forall>ts\<in>T. cost_le (c, s) (tiling_cost ts)"
    by (auto simp: cell_best_def cell)
  show "j \<noteq> i + sz \<Longrightarrow> tok_try u i cell sz best ! j = best ! j"
    by (auto simp: tok_try_def cell Let_def split: option.splits)
  show "cell_best (S \<union> extend u i sz T) (tok_try u i cell sz best ! (i + sz))" if le: "i + sz \<le> length u"
  proof (cases "\<exists>t. from_str (take sz (drop i u)) = Some t \<and> \<not> tile_is_blank t")
    case False
    then have "extend u i sz T = {}" by (auto simp: extend_def from_str_iff)
    moreover from False have "tok_try u i cell sz best = best"
      by (auto simp: tok_try_def cell Let_def split: option.splits)
    ultimately show ?thesis using S by simp
  next
    case True
    then obtain t where t: "from_str (take sz (drop i u)) = Some t" and nb: "\<not> tile_is_blank t" by auto
    define cand where "cand = (c + 1, s - int (tile_value t))"
    have ext: "extend u i sz T = {ts @ [t] | ts. ts \<in> T}"
      using t nb le by (auto simp: extend_def from_str_iff) (metis letter_of_inj)
    have cand_cost: "cand = tiling_cost (ps @ [t])"
      using cost [symmetric] by (simp add: cand_def tiling_cost_snoc)
    have cand_min: "cost_le cand (tiling_cost ts)" if "ts \<in> extend u i sz T" for ts
    proof -
      from that ext obtain ts' where "ts' \<in> T" and "ts = ts' @ [t]" by auto
      with min show ?thesis unfolding cand_def by (auto intro: cost_le_snoc)
    qed
    have new: "tok_try u i cell sz best ! (i + sz) =
        (if tok_better cand (best ! (i + sz)) then Some (fst cand, snd cand, ps @ [t]) else best ! (i + sz))"
      using le t nb len by (simp add: tok_try_def cell Let_def cand_def)
    have mem: "ps @ [t] \<in> extend u i sz T" using ext ps by auto
    show ?thesis
    proof (cases "best ! (i + sz)")
      case None
      with S have "S = {}" by (simp add: cell_best_def)
      with None new mem cand_cost cand_min show ?thesis
        by (simp add: cell_best_def tok_better_def)
    next
      case (Some old)
      obtain c' s' ps' where old: "old = (c', s', ps')" by (cases old) auto
      from S Some old have o: "ps' \<in> S" "(c', s') = tiling_cost ps'" "\<forall>ts\<in>S. cost_le (c', s') (tiling_cost ts)"
        by (auto simp: cell_best_def)
      show ?thesis
      proof (cases "tok_better cand (best ! (i + sz))")
        case True
        with Some old have "cost_le cand (c', s')" by (auto simp: tok_better_def cost_le_def)
        then have "\<forall>ts\<in>S. cost_le cand (tiling_cost ts)" using o(3) by (blast intro: cost_le_trans)
        with True new mem cand_cost cand_min show ?thesis by (auto simp: cell_best_def)
      next
        case False
        with Some old have "cost_le (c', s') cand" by (auto simp: tok_better_def cost_le_def)
        then have "\<forall>ts\<in>extend u i sz T. cost_le (c', s') (tiling_cost ts)"
          using cand_min by (blast intro: cost_le_trans)
        with False new Some old o show ?thesis by (auto simp: cell_best_def)
      qed
    qed
  qed
qed

text \<open>Processing index \<open>i\<close> adds exactly the tilings whose last tile starts at \<open>i\<close>.\<close>

lemma tilings_Suc:
  assumes "i < length u" and "j \<le> length u"
  shows "tilings u (Suc i) j = tilings u i j \<union>
    (if j = i + 1 \<or> j = i + 2 then extend u i (j - i) (tilings u i i) else {})"
proof -
  have full: "tilings u i i = {ts. spells ts (take i u)}"
  proof -
    have "last_start ts i < i" if sp: "spells ts (take i u)" and "ts \<noteq> []" for ts
    proof -
      from \<open>ts \<noteq> []\<close> obtain ts' t where ts: "ts = ts' @ [t]" by (cases ts rule: rev_cases) auto
      with sp obtain v where v: "take i u = v @ letter_of t" and ok: "tile_ok t" "\<not> tile_is_blank t"
        by (auto simp: spells_snoc)
      then have "length (letter_of t) \<le> i" by (metis length_append length_take min.cobounded2 add_leD2)
      with tile_facts(1) [OF ok] show ?thesis by (auto simp: last_start_def ts)
    qed
    then show ?thesis by (auto simp: tilings_def)
  qed
  have "ts \<in> tilings u (Suc i) j \<longleftrightarrow> ts \<in> tilings u i j \<union>
      (if j = i + 1 \<or> j = i + 2 then extend u i (j - i) (tilings u i i) else {})" for ts
  proof (cases ts rule: rev_cases)
    case Nil
    then show ?thesis by (auto simp: tilings_def extend_def)
  next
    case (snoc ts' t)
    have split: "take j u = v @ letter_of t \<and> j - length (letter_of t) = i \<longleftrightarrow>
        v = take i u \<and> letter_of t = take (j - i) (drop i u) \<and> i + length (letter_of t) = j"
      if "length (letter_of t) = 1 \<or> length (letter_of t) = 2" for v
    proof
      assume l: "take j u = v @ letter_of t \<and> j - length (letter_of t) = i"
      then have "j = length v + length (letter_of t)"
        using assms by (metis length_append length_take min.absorb2)
      with l have v: "length v = i" and j: "i + length (letter_of t) = j" by auto
      from l have "v = take (length v) (take j u)" and "letter_of t = drop (length v) (take j u)"
        by simp_all
      with v j show "v = take i u \<and> letter_of t = take (j - i) (drop i u) \<and> i + length (letter_of t) = j"
        by (simp add: drop_take)
    next
      assume "v = take i u \<and> letter_of t = take (j - i) (drop i u) \<and> i + length (letter_of t) = j"
      then show "take j u = v @ letter_of t \<and> j - length (letter_of t) = i"
        by (metis add_diff_cancel_left' add_diff_cancel_right' take_add)
    qed
    show ?thesis
    proof (cases "tile_ok t \<and> \<not> tile_is_blank t")
      case False
      then show ?thesis using snoc by (auto simp: tilings_def extend_def spells_snoc)
    next
      case True
      then have len: "length (letter_of t) = 1 \<or> length (letter_of t) = 2" using tile_facts(1) by blast
      have "ts \<in> tilings u (Suc i) j \<longleftrightarrow> ts \<in> tilings u i j \<or>
          (\<exists>v. take j u = v @ letter_of t \<and> spells ts' v \<and> j - length (letter_of t) = i)"
        using True snoc by (auto simp: tilings_def spells_snoc last_start_def less_Suc_eq)
      also have "(\<exists>v. take j u = v @ letter_of t \<and> spells ts' v \<and> j - length (letter_of t) = i) \<longleftrightarrow>
          spells ts' (take i u) \<and> letter_of t = take (j - i) (drop i u) \<and> i + length (letter_of t) = j"
        using split [OF len] by metis
      also have "\<dots> \<longleftrightarrow> (j = i + 1 \<or> j = i + 2) \<and> ts \<in> extend u i (j - i) (tilings u i i)"
      proof -
        have "ts \<in> extend u i (j - i) (tilings u i i) \<longleftrightarrow>
            i + (j - i) \<le> length u \<and> spells ts' (take i u) \<and> letter_of t = take (j - i) (drop i u)"
          using True snoc full by (auto simp: extend_def)
        moreover have "i + length (letter_of t) = j" if "letter_of t = take (j - i) (drop i u)" "j = i + 1 \<or> j = i + 2"
          using that assms by auto
        ultimately show ?thesis using len assms by (metis add_diff_cancel_left')
      qed
      finally show ?thesis by auto
    qed
  qed
  then show ?thesis by blast
qed

lemma tok_step_best:
  assumes i: "i < length u" and len: "length best = Suc (length u)"
    and best: "\<forall>j\<le>length u. cell_best (tilings u i j) (best ! j)"
  shows "length (tok_step u i best) = Suc (length u)"
    and "\<forall>j\<le>length u. cell_best (tilings u (Suc i) j) (tok_step u i best ! j)"
proof -
  show "length (tok_step u i best) = Suc (length u)"
    using len by (auto simp: tok_step_def split: option.splits)
  show "\<forall>j\<le>length u. cell_best (tilings u (Suc i) j) (tok_step u i best ! j)"
  proof (intro allI impI)
    fix j assume j: "j \<le> length u"
    show "cell_best (tilings u (Suc i) j) (tok_step u i best ! j)"
    proof (cases "best ! i")
      case None
      with best i have "tilings u i i = {}" by (auto simp: cell_best_def dest: spec [of _ i])
      then have "tilings u (Suc i) j = tilings u i j"
        using tilings_Suc [OF i j] by (auto simp: extend_def)
      then show ?thesis using None best j by (simp add: tok_step_def)
    next
      case (Some cell)
      define b1 where "b1 = tok_try u i cell 1 best"
      have T: "cell_best (tilings u i i) (Some cell)"
        using best i Some by (metis less_imp_le)
      have b1len: "length b1 = Suc (length u)" by (simp add: b1_def len)
      have step: "tok_step u i best = tok_try u i cell 2 b1"
        using Some by (simp add: tok_step_def b1_def)
      have b1: "b1 ! (i + 1) = tok_try u i cell 1 best ! (i + 1)" "\<And>k. k \<noteq> i + 1 \<Longrightarrow> b1 ! k = best ! k"
        using tok_try_best(2) [OF T best [rule_format, of "i + 1"] len] i by (simp_all add: b1_def)
      show ?thesis
      proof (cases "i + 2 \<le> length u")
        case True
        have S2: "cell_best (tilings u i (i + 2)) (b1 ! (i + 2))" using best True b1(2) by simp
        note r2 = tok_try_best [OF T S2 b1len]
        show ?thesis
        proof (cases "j = i + 2")
          case True
          then show ?thesis using r2(1) j tilings_Suc [OF i j] step by simp
        next
          case False
          note ne2 = this
          with r2(2) step have eq: "tok_step u i best ! j = b1 ! j" by simp
          show ?thesis
          proof (cases "j = i + 1")
            case True
            then show ?thesis
              using eq b1(1) tok_try_best(1) [OF T best [rule_format, of "i + 1"] len] j tilings_Suc [OF i j] by simp
          next
            case False
            then show ?thesis using eq ne2 b1(2) best j tilings_Suc [OF i j] by simp
          qed
        qed
      next
        case False
        then have eq: "tok_step u i best = b1"
          unfolding step by (cases cell) (simp add: tok_try_def)
        show ?thesis
        proof (cases "j = i + 1")
          case True
          then show ?thesis
            using eq b1(1) tok_try_best(1) [OF T best [rule_format, of "i + 1"] len] j tilings_Suc [OF i j] by simp
        next
          case ne: False
          from False j have "j \<noteq> i + 2" by auto
          then show ?thesis using ne eq b1(2) best j tilings_Suc [OF i j] by simp
        qed
      qed
    qed
  qed
qed

lemma tok_fold_best:
  assumes "k \<le> length u"
  shows "length (fold (tok_step u) [0..<k] ((replicate (length u + 1) None)[0 := Some (0, 0, [])])) = Suc (length u) \<and>
    (\<forall>j\<le>length u. cell_best (tilings u k j)
      (fold (tok_step u) [0..<k] ((replicate (length u + 1) None)[0 := Some (0, 0, [])]) ! j))"
  using assms
proof (induction k)
  case 0
  have "tilings u 0 j = (if j = 0 then {[]} else {})" if "j \<le> length u" for j
    using that by (auto simp: tilings_def spells_def)
  then show ?case
    by (auto simp: cell_best_def tiling_cost_def cost_le_def nth_list_update)
next
  case (Suc k)
  then show ?case by (simp add: tok_step_best)
qed

lemma tilings_full: "tilings u (length u) (length u) = {ts. spells ts u}"
proof -
  have "last_start ts (length u) < length u" if sp: "spells ts u" and "ts \<noteq> []" for ts
  proof -
    from \<open>ts \<noteq> []\<close> obtain ts' t where ts: "ts = ts' @ [t]" by (cases ts rule: rev_cases) auto
    with sp obtain v where "u = v @ letter_of t" and ok: "tile_ok t" "\<not> tile_is_blank t"
      by (auto simp: spells_snoc)
    with tile_facts(1) [OF ok] show ?thesis by (auto simp: last_start_def ts)
  qed
  then show ?thesis by (auto simp: tilings_def)
qed

lemma tokenize_cell: "cell_best {ts. spells ts u} (tok_table u ! length u)"
  using tok_fold_best [of "length u" u, OF order_refl, THEN conjunct2, rule_format, of "length u", OF order_refl]
  unfolding tok_table_def tilings_full .

lemma tokenize_None_iff: "tokenize_word w = None \<longleftrightarrow> (\<forall>ts. \<not> spells ts (to_uppercase w))"
  using tokenize_cell [of "to_uppercase w"]
  by (auto simp: tokenize_word_def Let_def cell_best_def split: option.splits)

lemma tokenize_Some:
  assumes "tokenize_word w = Some ts"
  shows "spells ts (to_uppercase w)"
    and "\<And>us. spells us (to_uppercase w) \<Longrightarrow> cost_le (tiling_cost ts) (tiling_cost us)"
  using assms tokenize_cell [of "to_uppercase w"]
  by (auto simp: tokenize_word_def Let_def cell_best_def split: option.splits prod.splits)

end
