(* ===== verification/Board.thy ===== *)
theory Board
  imports Tiles "HOL-Library.Monad_Syntax"
begin

text \<open>
  \<^verbatim>\<open>src/src/engine/board.rs\<close>: the 15 by 15 board, the premium squares, the validation of a
  placement (phases in the order of the code, every error message a constructor of
  \<open>place_error\<close>), the scoring of the formed words and the JSON snapshot. A read of an empty cell
  where the code unwraps, a panic, is \<open>None\<close> here; a later theory shows that it never happens
  on a well-formed board.
\<close>

section \<open>Premium squares\<close>

definition BOARD_SIZE :: nat where "BOARD_SIZE = 15"
definition CENTER :: nat where "CENTER = 7"

datatype premium = PNone | Dl | Tl | Dw | Tw | Star

definition PREMIUM_QUARTER :: "(nat \<times> nat \<times> premium) list" where
  "PREMIUM_QUARTER =
    [(0, 0, Tw), (0, 3, Dl), (0, 7, Tw), (1, 1, Dw), (1, 5, Tl), (2, 2, Dw), (2, 6, Dl),
     (3, 0, Dl), (3, 3, Dw), (3, 7, Dl), (4, 4, Dw), (5, 1, Tl), (5, 5, Tl), (6, 2, Dl),
     (6, 6, Dl), (7, 0, Tw), (7, 3, Dl), (7, 7, Star)]"

text \<open>The 15 by 15 array, all \<open>PNone\<close>, with the four mirror images of each entry written.\<close>

definition premium_map :: "premium list list" where
  "premium_map =
     fold (\<lambda>(r, c, kind) m.
         fold (\<lambda>(rr, cc) m. m[rr := (m ! rr)[cc := kind]])
           [(r, c), (r, 14 - c), (14 - r, c), (14 - r, 14 - c)] m)
       PREMIUM_QUARTER (replicate 15 (replicate 15 PNone))"

definition premium_at :: "nat \<Rightarrow> nat \<Rightarrow> premium" where
  "premium_at row col =
     (if row < BOARD_SIZE \<and> col < BOARD_SIZE then premium_map ! row ! col else PNone)"

section \<open>Cells, placed tiles, formed words, the board\<close>

datatype cell = Cell (cell_letter: tile) (cell_blank: bool)

datatype placed = Placed (p_row: int) (p_col: int) (p_letter: tile) (p_blank: bool)

definition placed_to_json :: "placed \<Rightarrow> json" where
  "placed_to_json p =
     JObj [(ascii ''row'', JInt (p_row p)), (ascii ''col'', JInt (p_col p)),
           (ascii ''letter'', JStr (letter_of (p_letter p))),
           (ascii ''is_blank'', JBool (p_blank p))]"

definition hand_tile :: "placed \<Rightarrow> tile" where
  "hand_tile p = (if p_blank p then BLANK else p_letter p)"

datatype formed_word =
  FormedWord (fw_word: str) (fw_positions: "(nat \<times> nat) list") (fw_score: nat)

text \<open>
  The cell array as a function of row and column; a board of the program has cells at rows and
  columns below 15 only (\<open>board_ok\<close>).
\<close>

record board =
  cells :: "nat \<Rightarrow> nat \<Rightarrow> cell option"
  board_is_empty :: bool

definition board_new :: board where
  "board_new = \<lparr>cells = (\<lambda>_ _. None), board_is_empty = True\<rparr>"

definition board_get :: "board \<Rightarrow> int \<Rightarrow> int \<Rightarrow> cell option" where
  "board_get b row col =
     (if 0 \<le> row \<and> row < int BOARD_SIZE \<and> 0 \<le> col \<and> col < int BOARD_SIZE
      then cells b (nat row) (nat col) else None)"

definition put_cell :: "nat \<Rightarrow> nat \<Rightarrow> cell \<Rightarrow> board \<Rightarrow> board" where
  "put_cell r c x b = b\<lparr>cells := (cells b)(r := (cells b r)(c := Some x))\<rparr>"

definition board_set :: "nat \<Rightarrow> nat \<Rightarrow> tile \<Rightarrow> bool \<Rightarrow> board \<Rightarrow> board" where
  "board_set row col letter is_blank b = put_cell row col (Cell letter is_blank) b"

definition has_letter :: "board \<Rightarrow> int \<Rightarrow> int \<Rightarrow> bool" where
  "has_letter b row col \<longleftrightarrow> board_get b row col \<noteq> None"

section \<open>The JSON snapshot\<close>

definition cell_to_json :: "cell option \<Rightarrow> json" where
  "cell_to_json x =
     (case x of None \<Rightarrow> JNull
      | Some c \<Rightarrow> JObj [(ascii ''letter'', JStr (letter_of (cell_letter c))),
                        (ascii ''is_blank'', JBool (cell_blank c))])"

definition board_to_json :: "board \<Rightarrow> json" where
  "board_to_json b =
     JArr (map (\<lambda>r. JArr (map (\<lambda>c. cell_to_json (cells b r c)) [0..<BOARD_SIZE])) [0..<BOARD_SIZE])"

definition cell_from_json :: "json \<Rightarrow> cell option" where
  "cell_from_json v =
     (if is_null v then None
      else case (jget v (ascii ''letter'') \<bind> as_str) \<bind> from_str of
        None \<Rightarrow> None
      | Some letter \<Rightarrow>
          Some (Cell letter (case jget v (ascii ''is_blank'') of Some x \<Rightarrow> truthy x | None \<Rightarrow> False)))"

definition load_cell :: "nat \<Rightarrow> nat \<times> json \<Rightarrow> board \<Rightarrow> board" where
  "load_cell r cv b =
     (case cell_from_json (snd cv) of
        None \<Rightarrow> b
      | Some x \<Rightarrow> (put_cell r (fst cv) x b)\<lparr>board_is_empty := False\<rparr>)"

definition load_row :: "nat \<times> json \<Rightarrow> board \<Rightarrow> board" where
  "load_row rv b =
     (case as_array (snd rv) of
        None \<Rightarrow> b
      | Some row \<Rightarrow> fold (load_cell (fst rv)) (List.enumerate 0 (take BOARD_SIZE row)) b)"

definition board_from_json :: "json \<Rightarrow> board" where
  "board_from_json v =
     (case as_array v of
        None \<Rightarrow> board_new
      | Some rows \<Rightarrow> fold load_row (List.enumerate 0 (take BOARD_SIZE rows)) board_new)"

section \<open>Reading words off the board\<close>

definition line_at :: "board \<Rightarrow> nat \<Rightarrow> bool \<Rightarrow> nat \<Rightarrow> cell option" where
  "line_at b fixed horizontal i = (if horizontal then cells b fixed i else cells b i fixed)"

text \<open>The two loops of \<^verbatim>\<open>find_word_bounds\<close>.\<close>

fun extend_start :: "(nat \<Rightarrow> cell option) \<Rightarrow> nat \<Rightarrow> nat" where
  "extend_start sq 0 = 0"
| "extend_start sq (Suc s) = (if sq s \<noteq> None then extend_start sq s else Suc s)"

function extend_end :: "(nat \<Rightarrow> cell option) \<Rightarrow> nat \<Rightarrow> nat" where
  "extend_end sq e = (if e < BOARD_SIZE - 1 \<and> sq (e + 1) \<noteq> None then extend_end sq (e + 1) else e)"
  by pat_completeness auto
termination by (relation "measure (\<lambda>(sq, e). BOARD_SIZE - e)") auto

declare extend_end.simps [simp del]

definition find_word_bounds :: "board \<Rightarrow> nat \<Rightarrow> nat \<Rightarrow> nat \<Rightarrow> bool \<Rightarrow> nat \<times> nat" where
  "find_word_bounds b fixed start end' horizontal =
     (extend_start (line_at b fixed horizontal) start, extend_end (line_at b fixed horizontal) end')"

definition line_pos :: "nat \<Rightarrow> bool \<Rightarrow> nat \<Rightarrow> nat \<times> nat" where
  "line_pos fixed horizontal i = (if horizontal then (fixed, i) else (i, fixed))"

text \<open>
  One step of the scoring loop: the accumulator is (word, positions, letter score, word
  multiplier). An empty cell is the \<^verbatim>\<open>expect\<close> of the code failing.
\<close>

type_synonym word_acc = "str \<times> (nat \<times> nat) list \<times> nat \<times> nat"

definition extract_step ::
  "board \<Rightarrow> (nat \<Rightarrow> nat \<Rightarrow> bool) \<Rightarrow> nat \<times> nat \<Rightarrow> word_acc \<Rightarrow> word_acc option" where
  "extract_step b new_positions rc acc =
     (case acc of (word, positions, letter_score, word_multiplier) \<Rightarrow>
      (case cells b (fst rc) (snd rc) of
         None \<Rightarrow> None
       | Some cell \<Rightarrow>
           let v = (if cell_blank cell then 0 else tile_value (cell_letter cell));
               prem = (if new_positions (fst rc) (snd rc) then premium_at (fst rc) (snd rc) else PNone);
               v' = (case prem of Dl \<Rightarrow> v * 2 | Tl \<Rightarrow> v * 3 | _ \<Rightarrow> v);
               m' = (case prem of Dw \<Rightarrow> word_multiplier * 2 | Star \<Rightarrow> word_multiplier * 2
                     | Tw \<Rightarrow> word_multiplier * 3 | _ \<Rightarrow> word_multiplier)
           in Some (word @ letter_of (cell_letter cell), positions @ [rc], letter_score + v', m')))"

fun extract_loop ::
  "board \<Rightarrow> (nat \<Rightarrow> nat \<Rightarrow> bool) \<Rightarrow> (nat \<times> nat) list \<Rightarrow> word_acc \<Rightarrow> word_acc option" where
  "extract_loop b new_positions [] acc = Some acc"
| "extract_loop b new_positions (rc # rcs) acc =
     extract_step b new_positions rc acc \<bind> extract_loop b new_positions rcs"

definition extract_word ::
  "board \<Rightarrow> nat \<Rightarrow> nat \<Rightarrow> nat \<Rightarrow> bool \<Rightarrow> (nat \<Rightarrow> nat \<Rightarrow> bool) \<Rightarrow> formed_word option" where
  "extract_word b fixed start end' horizontal new_positions =
     map_option (\<lambda>(word, positions, letter_score, word_multiplier).
         FormedWord word positions (letter_score * word_multiplier))
       (extract_loop b new_positions (map (line_pos fixed horizontal) [start..<Suc end']) ([], [], 0, 1))"

section \<open>The phases of validation\<close>

text \<open>The messages of \<^verbatim>\<open>board.rs\<close>, one constructor each, in the order of the code.\<close>

datatype place_error =
    OutOfBoard int int
  | Occupied int int
  | DuplicateSquare int int
  | NotAligned
  | CenterNotCovered
  | FirstWordTooShort
  | NotContiguous
  | NotConnected
  | NoWordFormed
  | SplitDigraph str
  | InvalidWords "str list"
  | NoTiles
  | TileNotConnected

type_synonym mask = "nat \<Rightarrow> nat \<Rightarrow> bool"

fun validate_positions_from :: "board \<Rightarrow> (int \<times> int) list \<Rightarrow> placed list \<Rightarrow> place_error option" where
  "validate_positions_from b seen [] = None"
| "validate_positions_from b seen (p # ps) =
     (if \<not> (0 \<le> p_row p \<and> p_row p < int BOARD_SIZE) \<or> \<not> (0 \<le> p_col p \<and> p_col p < int BOARD_SIZE)
      then Some (OutOfBoard (p_row p) (p_col p))
      else if cells b (nat (p_row p)) (nat (p_col p)) \<noteq> None
      then Some (Occupied (p_row p) (p_col p))
      else if (p_row p, p_col p) \<in> set seen
      then Some (DuplicateSquare (p_row p) (p_col p))
      else validate_positions_from b ((p_row p, p_col p) # seen) ps)"

definition validate_positions :: "board \<Rightarrow> placed list \<Rightarrow> place_error option" where
  "validate_positions b placed = validate_positions_from b [] placed"

definition validate_alignment :: "(nat \<times> nat) list \<Rightarrow> place_error + bool" where
  "validate_alignment positions =
     (let rows = remdups (map fst positions); cols = remdups (map snd positions)
      in if length rows > 1 \<and> length cols > 1 then Inl NotAligned
         else Inr (length rows = 1 \<or> length positions = 1))"

definition determine_direction_single :: "board \<Rightarrow> int \<Rightarrow> int \<Rightarrow> bool \<times> bool" where
  "determine_direction_single b r c =
     (let has_h = has_letter b r (c - 1) \<or> has_letter b r (c + 1);
          has_v = has_letter b (r - 1) c \<or> has_letter b (r + 1) c
      in if \<not> board_is_empty b \<and> \<not> has_h \<and> \<not> has_v then (True, False)
         else (has_h \<or> \<not> has_v, True))"

definition get_main_bounds :: "(nat \<times> nat) list \<Rightarrow> bool \<Rightarrow> nat \<times> nat \<times> nat" where
  "get_main_bounds positions horizontal =
     (if horizontal then
        let rows = remdups (map fst positions);
            fixed = (if length rows = 1 then hd rows else fst (hd positions))
        in (fixed, Min (set (map snd positions)), Max (set (map snd positions)))
      else
        let cols = remdups (map snd positions);
            fixed = (if length cols = 1 then hd cols else snd (hd positions))
        in (fixed, Min (set (map fst positions)), Max (set (map fst positions))))"

definition check_continuity :: "board \<Rightarrow> nat \<Rightarrow> nat \<Rightarrow> nat \<Rightarrow> bool \<Rightarrow> bool" where
  "check_continuity b fixed start end' horizontal =
     list_all (\<lambda>i. line_at b fixed horizontal i \<noteq> None) [start..<Suc end']"

definition check_adjacency :: "board \<Rightarrow> (nat \<times> nat) list \<Rightarrow> mask \<Rightarrow> bool" where
  "check_adjacency b positions new_positions =
     list_ex (\<lambda>(r, c).
       list_ex (\<lambda>(dr, dc).
           let nr = int r + dr; nc = int c + dc
           in (0 \<le> nr \<and> nr < int BOARD_SIZE \<and> 0 \<le> nc \<and> nc < int BOARD_SIZE)
              \<and> \<not> new_positions (nat nr) (nat nc) \<and> has_letter b nr nc)
         [(-1, 0), (1, 0), (0, -1), (0, 1)])
       positions"

text \<open>
  The cross word of one placed square: none where its bounds do not extend past the square
  itself. \<^verbatim>\<open>collect_words\<close> pushes the main word first, then these in the order of the squares.
\<close>

definition cross_word :: "board \<Rightarrow> mask \<Rightarrow> bool \<Rightarrow> nat \<times> nat \<Rightarrow> formed_word list option" where
  "cross_word b new_positions horizontal rc =
     (case rc of (r, c) \<Rightarrow>
       if horizontal then
         (case find_word_bounds b c r r False of (cs, ce) \<Rightarrow>
            if ce > cs then map_option (\<lambda>w. [w]) (extract_word b c cs ce False new_positions) else Some [])
       else
         (case find_word_bounds b r c c True of (cs, ce) \<Rightarrow>
            if ce > cs then map_option (\<lambda>w. [w]) (extract_word b r cs ce True new_positions) else Some []))"

fun cross_words :: "board \<Rightarrow> mask \<Rightarrow> bool \<Rightarrow> (nat \<times> nat) list \<Rightarrow> formed_word list option" where
  "cross_words b new_positions horizontal [] = Some []"
| "cross_words b new_positions horizontal (rc # rcs) =
     do { ws \<leftarrow> cross_word b new_positions horizontal rc;
          rest \<leftarrow> cross_words b new_positions horizontal rcs;
          Some (ws @ rest) }"

definition collect_words ::
  "board \<Rightarrow> (nat \<times> nat) list \<Rightarrow> mask \<Rightarrow> bool \<Rightarrow> nat \<Rightarrow> nat \<Rightarrow> nat \<Rightarrow> formed_word list option" where
  "collect_words b positions new_positions horizontal fixed start end' =
     do { main \<leftarrow> (if end' > start
            then map_option (\<lambda>w. [w]) (extract_word b fixed start end' horizontal new_positions)
            else Some []);
          crosses \<leftarrow> cross_words b new_positions horizontal positions;
          Some (main @ crosses) }"

text \<open>
  The first two neighbouring squares of a word, at least one of them new, whose letters spell a
  digraph: the outer \<open>None\<close> is the panic of an unwrapped empty cell.
\<close>

fun split_digraph_in :: "board \<Rightarrow> mask \<Rightarrow> (nat \<times> nat) list \<Rightarrow> str option option" where
  "split_digraph_in b new_positions (p # q # rest) =
     (if \<not> new_positions (fst p) (snd p) \<and> \<not> new_positions (fst q) (snd q)
      then split_digraph_in b new_positions (q # rest)
      else case (cells b (fst p) (snd p), cells b (fst q) (snd q)) of
        (Some x, Some y) \<Rightarrow>
          let first = letter_of (cell_letter x); second = letter_of (cell_letter y)
          in if forms_digraph first second then Some (Some (first @ second))
             else split_digraph_in b new_positions (q # rest)
      | _ \<Rightarrow> None)"
| "split_digraph_in b new_positions _ = Some None"

fun find_split_digraph :: "board \<Rightarrow> formed_word list \<Rightarrow> mask \<Rightarrow> str option option" where
  "find_split_digraph b [] new_positions = Some None"
| "find_split_digraph b (w # ws) new_positions =
     (case split_digraph_in b new_positions (fw_positions w) of
        None \<Rightarrow> None
      | Some (Some d) \<Rightarrow> Some (Some d)
      | Some None \<Rightarrow> find_split_digraph b ws new_positions)"

definition validate_first_move :: "placed list \<Rightarrow> mask \<Rightarrow> place_error option" where
  "validate_first_move placed new_positions =
     (if \<not> new_positions CENTER CENTER then Some CenterNotCovered
      else if length placed < 2 then Some FirstWordTooShort
      else None)"

text \<open>
  \<open>check_words\<close> is \<^verbatim>\<open>dictionary::check_words\<close>: whether all words are valid, and the invalid
  ones. The result is \<open>None\<close> on a panic, otherwise an error or the formed words.
\<close>

type_synonym word_checker = "str list \<Rightarrow> bool \<times> str list"

definition validate_words ::
  "word_checker \<Rightarrow> board \<Rightarrow> (nat \<times> nat) list \<Rightarrow> mask \<Rightarrow> bool \<Rightarrow> bool
    \<Rightarrow> (place_error + formed_word list) option" where
  "validate_words check_words b positions new_positions horizontal skip_dictionary =
     (case get_main_bounds positions horizontal of (fixed, start0, end0) \<Rightarrow>
      case find_word_bounds b fixed start0 end0 horizontal of (start, end') \<Rightarrow>
      if \<not> check_continuity b fixed start end' horizontal then Some (Inl NotContiguous)
      else if \<not> board_is_empty b \<and> \<not> check_adjacency b positions new_positions
      then Some (Inl NotConnected)
      else do {
        formed \<leftarrow> collect_words b positions new_positions horizontal fixed start end';
        if formed = [] then Some (Inl NoWordFormed)
        else do {
          split \<leftarrow> find_split_digraph b formed new_positions;
          (case split of
             Some digraph \<Rightarrow> Some (Inl (SplitDigraph digraph))
           | None \<Rightarrow>
               if skip_dictionary then Some (Inr formed)
               else case check_words (map fw_word formed) of (all_valid, invalid) \<Rightarrow>
                 if all_valid then Some (Inr formed) else Some (Inl (InvalidWords invalid))) } })"

definition square_of :: "placed \<Rightarrow> nat \<times> nat" where
  "square_of p = (nat (p_row p), nat (p_col p))"

definition mask_of :: "(nat \<times> nat) list \<Rightarrow> mask" where
  "mask_of positions r c \<longleftrightarrow> (r, c) \<in> set positions"

definition lay_tile :: "placed \<Rightarrow> board \<Rightarrow> board" where
  "lay_tile p b = put_cell (nat (p_row p)) (nat (p_col p)) (Cell (p_letter p) (p_blank p)) b"

definition lay_tiles :: "placed list \<Rightarrow> board \<Rightarrow> board" where
  "lay_tiles placed b = fold lay_tile placed b"

definition validate_placement ::
  "word_checker \<Rightarrow> board \<Rightarrow> placed list \<Rightarrow> bool \<Rightarrow> (place_error + formed_word list) option" where
  "validate_placement check_words b placed skip_dictionary =
     (if placed = [] then Some (Inl NoTiles)
      else case validate_positions b placed of
        Some e \<Rightarrow> Some (Inl e)
      | None \<Rightarrow>
        let positions = map square_of placed; new_positions = mask_of positions
        in case validate_alignment positions of
          Inl e \<Rightarrow> Some (Inl e)
        | Inr aligned \<Rightarrow>
          let temp = lay_tiles placed b
          in case (if board_is_empty b then validate_first_move placed new_positions else None) of
            Some e \<Rightarrow> Some (Inl e)
          | None \<Rightarrow>
            if length placed = 1 then
              (case determine_direction_single temp (p_row (hd placed)) (p_col (hd placed)) of
                 (horizontal, has_neighbor) \<Rightarrow>
                   if \<not> board_is_empty b \<and> \<not> has_neighbor then Some (Inl TileNotConnected)
                   else validate_words check_words temp positions new_positions horizontal skip_dictionary)
            else validate_words check_words temp positions new_positions aligned skip_dictionary)"

definition apply_placement :: "placed list \<Rightarrow> board \<Rightarrow> board" where
  "apply_placement placed b = (lay_tiles placed b)\<lparr>board_is_empty := False\<rparr>"

end
