(* ===== verification/Player.thy ===== *)
theory Player
  imports Board
begin

text \<open>
  The strength setting of a bot (the first part of \<^verbatim>\<open>src/src/robot/ai.rs\<close>) and
  \<^verbatim>\<open>src/src/engine/player.rs\<close>: the state of a player and its JSON forms.
\<close>

section \<open>Difficulty\<close>

definition MIN_LEVEL :: nat where "MIN_LEVEL = 1"
definition MAX_LEVEL :: nat where "MAX_LEVEL = 10"
definition DEFAULT_LEVEL :: nat where "DEFAULT_LEVEL = 6"

datatype difficulty = Level nat | Auto

fun difficulty_to_json :: "difficulty \<Rightarrow> json" where
  "difficulty_to_json (Level n) = JInt (int n)"
| "difficulty_to_json Auto = JStr (ascii ''auto'')"

fun difficulty_level :: "difficulty \<Rightarrow> nat option" where
  "difficulty_level (Level n) = Some n"
| "difficulty_level Auto = None"

text \<open>
  \<^verbatim>\<open>to_lowercase\<close> where the result is only compared with ASCII words: exact on every code
  point whose lower case is ASCII (8490 is the Kelvin sign).
\<close>

definition lower_ascii :: "str \<Rightarrow> str" where
  "lower_ascii s = map (\<lambda>c. if 65 \<le> c \<and> c \<le> 90 then c + 32 else if c = 8490 then 107 else c) s"

definition legacy_level :: "str \<Rightarrow> nat option" where
  "legacy_level s =
     (if s = ascii ''easy'' then Some 3
      else if s = ascii ''medium'' then Some 6
      else if s = ascii ''hard'' then Some 10
      else None)"

text \<open>\<^verbatim>\<open>str::parse::<u8>\<close>.\<close>

definition parse_u8 :: "str \<Rightarrow> nat option" where
  "parse_u8 s =
     (let digits = (case s of c # cs \<Rightarrow> if c = 43 then cs else s | [] \<Rightarrow> [])
      in if digits \<noteq> [] \<and> list_all is_digit digits \<and> read_nat 0 digits < 256
         then Some (read_nat 0 digits) else None)"

fun parse_level :: "json \<Rightarrow> nat option" where
  "parse_level (JInt n) =
     (case as_int (JInt n) of
        Some i \<Rightarrow> if int MIN_LEVEL \<le> i \<and> i \<le> int MAX_LEVEL then Some (nat i) else None
      | None \<Rightarrow> None)"
| "parse_level (JFloat r) =
     (case as_int (JFloat r) of
        Some i \<Rightarrow> if int MIN_LEVEL \<le> i \<and> i \<le> int MAX_LEVEL then Some (nat i) else None
      | None \<Rightarrow> None)"
| "parse_level (JStr s) =
     (let lowered = lower_ascii (trim s)
      in case legacy_level lowered of
           Some n \<Rightarrow> Some n
         | None \<Rightarrow>
             (case parse_u8 lowered of
                Some n \<Rightarrow> if MIN_LEVEL \<le> n \<and> n \<le> MAX_LEVEL \<and> show_nat n = lowered then Some n else None
              | None \<Rightarrow> None))"
| "parse_level _ = None"

definition normalize_level :: "json \<Rightarrow> nat" where
  "normalize_level v = (case parse_level v of Some n \<Rightarrow> n | None \<Rightarrow> DEFAULT_LEVEL)"

definition parse_difficulty :: "json \<Rightarrow> difficulty option" where
  "parse_difficulty v =
     (case v of
        JStr s \<Rightarrow>
          (let lowered = lower_ascii (trim s)
           in if lowered = ascii ''auto'' \<or> lowered = ascii ''adaptive'' then Some Auto
              else map_option Level (parse_level v))
      | _ \<Rightarrow> map_option Level (parse_level v))"

definition normalize_difficulty :: "json \<Rightarrow> difficulty" where
  "normalize_difficulty v =
     (case parse_difficulty v of Some d \<Rightarrow> d | None \<Rightarrow> Level DEFAULT_LEVEL)"

definition difficulty_ok :: "difficulty \<Rightarrow> bool" where
  "difficulty_ok d = (case d of Level n \<Rightarrow> MIN_LEVEL \<le> n \<and> n \<le> MAX_LEVEL | Auto \<Rightarrow> True)"

section \<open>Players\<close>

record player =
  player_id :: str
  player_name :: str
  hand :: "tile list"
  score :: int
  skip_next_turn :: bool
  disconnected :: bool
  timeouts :: nat
  resigned :: bool
  is_bot :: bool
  difficulty :: "difficulty option"

definition player_new :: "str \<Rightarrow> str \<Rightarrow> player" where
  "player_new pid nm =
     \<lparr>player_id = pid, player_name = nm, hand = [], score = 0, skip_next_turn = False,
      disconnected = False, timeouts = 0, resigned = False, is_bot = False, difficulty = None\<rparr>"

definition player_new_bot :: "str \<Rightarrow> str \<Rightarrow> json \<Rightarrow> player" where
  "player_new_bot pid nm diff =
     (player_new pid nm)\<lparr>is_bot := True, difficulty := Some (normalize_difficulty diff)\<rparr>"

definition tiles_to_json :: "tile list \<Rightarrow> json" where
  "tiles_to_json ts = JArr (map (\<lambda>t. JStr (letter_of t)) ts)"

definition hand_json :: "player \<Rightarrow> json" where
  "hand_json p = JArr (map (\<lambda>t. JStr (letter_of t)) (hand p))"

definition difficulty_json :: "player \<Rightarrow> json" where
  "difficulty_json p = (case difficulty p of Some d \<Rightarrow> difficulty_to_json d | None \<Rightarrow> JNull)"

definition player_to_json :: "player \<Rightarrow> bool \<Rightarrow> json" where
  "player_to_json p reveal_hand =
     JObj ([(ascii ''id'', JStr (player_id p)), (ascii ''name'', JStr (player_name p)),
            (ascii ''score'', JInt (score p)), (ascii ''hand_count'', JInt (int (length (hand p)))),
            (ascii ''skip_next_turn'', JBool (skip_next_turn p)),
            (ascii ''disconnected'', JBool (disconnected p)), (ascii ''resigned'', JBool (resigned p)),
            (ascii ''is_bot'', JBool (is_bot p)), (ascii ''difficulty'', difficulty_json p)]
           @ (if reveal_hand then [(ascii ''hand'', hand_json p)] else []))"

definition tiles_from_json :: "json \<Rightarrow> tile list" where
  "tiles_from_json v =
     (case as_array v of
        Some xs \<Rightarrow> List.map_filter (\<lambda>x. as_str x \<bind> from_str) xs
      | None \<Rightarrow> [])"

section \<open>Round trips\<close>

lemma from_str_letter_of [simp]: "tile_ok t \<Longrightarrow> from_str (letter_of t) = Some t"
  by (simp add: from_str_iff)

lemma tiles_json_roundtrip:
  "list_all tile_ok ts \<Longrightarrow> tiles_from_json (tiles_to_json ts) = ts"
  by (induction ts) (auto simp: tiles_from_json_def tiles_to_json_def map_filter_def)

lemma tiles_from_json_ok: "list_all tile_ok (tiles_from_json v)"
proof -
  have "tile_ok t" if "as_str x \<bind> from_str = Some t" for x t
    using that by (cases "as_str x") (auto simp: from_str_iff)
  then show ?thesis
    by (auto simp: tiles_from_json_def map_filter_def list_all_iff split: option.split)
qed

lemma fits_i64_small: "0 \<le> n \<Longrightarrow> n \<le> 10 \<Longrightarrow> fits_i64 n"
  by (simp add: fits_i64_def i64_min_def i64_max_def)

lemma lower_trim_auto: "lower_ascii (trim (ascii ''auto'')) = ascii ''auto''"
  by (simp add: ascii_def trim_def lower_ascii_def is_whitespace_def)

lemma difficulty_json_roundtrip:
  "difficulty_ok d \<Longrightarrow> normalize_difficulty (difficulty_to_json d) = d"
  by (cases d)
    (auto simp: normalize_difficulty_def parse_difficulty_def difficulty_ok_def fits_i64_small
      MIN_LEVEL_def MAX_LEVEL_def lower_trim_auto split: option.split)

lemma parse_level_range: "parse_level v = Some n \<Longrightarrow> MIN_LEVEL \<le> n \<and> n \<le> MAX_LEVEL"
  by (cases v)
    (auto simp: Let_def MIN_LEVEL_def MAX_LEVEL_def legacy_level_def split: if_splits option.splits)

lemma difficulty_ok_parse_level: "map_option Level (parse_level v) = Some d \<Longrightarrow> difficulty_ok d"
  by (auto simp: difficulty_ok_def simp del: parse_level.simps dest: parse_level_range)

lemma parse_difficulty_ok: "parse_difficulty v = Some d \<Longrightarrow> difficulty_ok d"
  unfolding parse_difficulty_def Let_def
  by (cases v)
    (auto simp: difficulty_ok_def simp del: parse_level.simps dest!: parse_level_range split: if_splits)

lemma normalize_difficulty_ok: "difficulty_ok (normalize_difficulty v)"
proof (cases "parse_difficulty v")
  case None
  then show ?thesis
    by (simp add: normalize_difficulty_def difficulty_ok_def MIN_LEVEL_def MAX_LEVEL_def DEFAULT_LEVEL_def)
next
  case (Some d)
  then show ?thesis by (simp add: normalize_difficulty_def parse_difficulty_ok)
qed

interpretation tiles_codec: json_codec tiles_to_json tiles_from_json "list_all tile_ok"
  by unfold_locales (rule tiles_json_roundtrip)

interpretation difficulty_codec: json_codec difficulty_to_json normalize_difficulty difficulty_ok
  by unfold_locales (rule difficulty_json_roundtrip)

end
