(* ===== verification/Challenge.thy ===== *)
theory Challenge
  imports Player
begin

text \<open>
  \<^verbatim>\<open>src/src/engine/challenge.rs\<close>: the vote on a pending placement. The votes are a hash map
  from connection ids; as an association list the JSON view can list them.
\<close>

datatype vote = Accept | Reject

fun vote_as_str :: "vote \<Rightarrow> str" where
  "vote_as_str Accept = ascii ''accept''"
| "vote_as_str Reject = ascii ''reject''"

record challenge =
  tiles_placed :: "placed list"
  formed_words :: "formed_word list"
  word_strs :: "str list"
  ch_score :: int
  player_idx :: nat
  removed_from_hand :: "tile list"
  votes :: "(str \<times> vote) list"
  expires_at :: real

definition challenge_new ::
  "real \<Rightarrow> placed list \<Rightarrow> formed_word list \<Rightarrow> str list \<Rightarrow> int \<Rightarrow> nat \<Rightarrow> tile list \<Rightarrow> challenge" where
  "challenge_new now placed formed strs sc idx removed =
     \<lparr>tiles_placed = placed, formed_words = formed, word_strs = strs, ch_score = sc,
      player_idx = idx, removed_from_hand = removed, votes = [], expires_at = now + 30\<rparr>"

definition add_vote :: "str \<Rightarrow> vote \<Rightarrow> challenge \<Rightarrow> challenge" where
  "add_vote pid v c = c\<lparr>votes := AList.update pid v (votes c)\<rparr>"

definition all_voted :: "str set \<Rightarrow> challenge \<Rightarrow> bool" where
  "all_voted voter_ids c \<longleftrightarrow> (\<forall>pid\<in>voter_ids. map_of (votes c) pid \<noteq> None)"

definition resolve_votes :: "str set \<Rightarrow> challenge \<Rightarrow> bool" where
  "resolve_votes voter_ids c =
     (let total = card voter_ids
      in if total = 0 then True
         else card (Set.filter (\<lambda>pid. map_of (votes c) pid \<noteq> Some Reject) voter_ids) * 2 \<ge> total)"

definition update_player_sid :: "str \<Rightarrow> str \<Rightarrow> challenge \<Rightarrow> challenge" where
  "update_player_sid old_id new_id c =
     (case map_of (votes c) old_id of
        None \<Rightarrow> c
      | Some v \<Rightarrow> c\<lparr>votes := AList.update new_id v (AList.delete old_id (votes c))\<rparr>)"

text \<open>The client's view; \<open>None\<close> is the panic of an index out of range.\<close>

definition challenge_to_state :: "player list \<Rightarrow> challenge \<Rightarrow> json option" where
  "challenge_to_state players c =
     (if player_idx c < length players then
        let placer = players ! player_idx c
        in Some (JObj
          [(ascii ''player_id'', JStr (player_id placer)),
           (ascii ''player_name'', JStr (player_name placer)),
           (ascii ''words'', JArr (map JStr (word_strs c))),
           (ascii ''score'', JInt (ch_score c)),
           (ascii ''tiles'', JArr (map placed_to_json (tiles_placed c))),
           (ascii ''votes'', JObj (map (\<lambda>(k, v). (k, JStr (vote_as_str v))) (votes c))),
           (ascii ''player_count'', JInt (int (length players))),
           (ascii ''expires_at'', JFloat (expires_at c))])
      else None)"

section \<open>What a vote decides\<close>

definition rejections :: "str set \<Rightarrow> challenge \<Rightarrow> nat" where
  "rejections voter_ids c = card {pid \<in> voter_ids. map_of (votes c) pid = Some Reject}"

text \<open>The word falls exactly when more than half of the voters reject it.\<close>

lemma resolve_votes_iff:
  assumes "finite V"
  shows "resolve_votes V c \<longleftrightarrow> 2 * rejections V c \<le> card V"
proof -
  let ?A = "{pid \<in> V. map_of (votes c) pid \<noteq> Some Reject}" and ?R = "{pid \<in> V. map_of (votes c) pid = Some Reject}"
  have "card ?A + card ?R = card (?A \<union> ?R)"
    using assms by (subst card_Un_disjoint) auto
  moreover have "?A \<union> ?R = V" by auto
  ultimately have "card ?A + card ?R = card V" by simp
  then show ?thesis
    by (auto simp: resolve_votes_def rejections_def Let_def)
qed

lemma votes_add_vote [simp]: "map_of (votes (add_vote pid v c)) = (map_of (votes c))(pid \<mapsto> v)"
  by (simp add: add_vote_def update_conv')

lemma votes_update_player_sid:
  "map_of (votes c) old_id = Some v \<Longrightarrow>
   map_of (votes (update_player_sid old_id new_id c)) = (map_of (votes c))(old_id := None, new_id \<mapsto> v)"
  by (simp add: update_player_sid_def update_conv' delete_conv')

end
