(* ===== verification/BoardProps.thy ===== *)
theory BoardProps
  imports Board
begin

text \<open>
  What the board promises: word bounds are maximal runs, the score is the premium-weighted sum,
  validation never panics and accepts exactly the placements that the declarative rules
  (\<open>legal_geometry\<close>, \<open>no_split\<close>, the dictionary) allow, and the formed words are the maximal runs
  of at least two letters through the placed squares.
\<close>

section \<open>Word bounds are maximal runs\<close>

lemma extend_start_le: "extend_start sq s \<le> s"
  by (induction sq s rule: extend_start.induct) auto

lemma extend_start_occupied: "extend_start sq s \<le> i \<Longrightarrow> i < s \<Longrightarrow> sq i \<noteq> None"
  by (induction sq s rule: extend_start.induct) (auto simp: less_Suc_eq split: if_splits)

lemma extend_start_stop: "extend_start sq s = Suc k \<Longrightarrow> sq k = None"
  by (induction sq s rule: extend_start.induct) (auto split: if_splits)

lemma extend_end_ge: "e \<le> extend_end sq e"
proof (induction sq e rule: extend_end.induct)
  case (1 sq e)
  then show ?case by (subst extend_end.simps) auto
qed

lemma extend_end_le: "e < BOARD_SIZE \<Longrightarrow> extend_end sq e < BOARD_SIZE"
proof (induction sq e rule: extend_end.induct)
  case (1 sq e)
  then show ?case by (subst extend_end.simps) (auto simp: BOARD_SIZE_def)
qed

lemma extend_end_occupied: "e < i \<Longrightarrow> i \<le> extend_end sq e \<Longrightarrow> sq i \<noteq> None"
proof (induction sq e rule: extend_end.induct)
  case (1 sq e)
  show ?case
  proof (cases "e < BOARD_SIZE - 1 \<and> sq (e + 1) \<noteq> None")
    case True
    then have "extend_end sq e = extend_end sq (e + 1)" by (subst extend_end.simps) simp
    with True 1 show ?thesis by (cases "i = e + 1") auto
  next
    case False
    then have "extend_end sq e = e" by (subst extend_end.simps) auto
    with 1 show ?thesis by simp
  qed
qed

lemma extend_end_stop: "e < BOARD_SIZE \<Longrightarrow> extend_end sq e + 1 < BOARD_SIZE \<Longrightarrow> sq (extend_end sq e + 1) = None"
proof (induction sq e rule: extend_end.induct)
  case (1 sq e)
  show ?case
  proof (cases "e < BOARD_SIZE - 1 \<and> sq (e + 1) \<noteq> None")
    case True
    then have "extend_end sq e = extend_end sq (e + 1)" by (subst extend_end.simps) simp
    with True 1 show ?thesis by auto
  next
    case False
    then have "extend_end sq e = e" by (subst extend_end.simps) auto
    with False 1 show ?thesis by auto
  qed
qed

text \<open>From any square of an occupied stretch the loops reach the same ends.\<close>

lemma extend_start_same:
  "a \<le> i \<Longrightarrow> \<forall>j. a \<le> j \<and> j < i \<longrightarrow> sq j \<noteq> None \<Longrightarrow> extend_start sq i = extend_start sq a"
proof (induction i)
  case 0
  then show ?case by simp
next
  case (Suc i)
  show ?case
  proof (cases "a = Suc i")
    case False
    with Suc.prems have "a \<le> i" and "sq i \<noteq> None" by auto
    with Suc show ?thesis by auto
  qed simp
qed

lemma extend_end_same:
  "i \<le> e \<Longrightarrow> e < BOARD_SIZE \<Longrightarrow> \<forall>j. i < j \<and> j \<le> e \<longrightarrow> sq j \<noteq> None \<Longrightarrow> extend_end sq i = extend_end sq e"
proof (induction "e - i" arbitrary: i)
  case 0
  then show ?case by simp
next
  case (Suc n)
  from Suc.hyps(2) have lt: "i < e" by simp
  with Suc.prems have "i < BOARD_SIZE - 1 \<and> sq (i + 1) \<noteq> None" by auto
  then have "extend_end sq i = extend_end sq (i + 1)" by (subst extend_end.simps) simp
  also have "\<dots> = extend_end sq e"
    by (rule Suc.hyps(1)) (use Suc.hyps(2) Suc.prems lt in auto)
  finally show ?case .
qed

text \<open>The maximal run through a square, as the list of its squares.\<close>

definition fixed_of :: "bool \<Rightarrow> nat \<times> nat \<Rightarrow> nat" where
  "fixed_of horizontal rc = (if horizontal then fst rc else snd rc)"

definition moving_of :: "bool \<Rightarrow> nat \<times> nat \<Rightarrow> nat" where
  "moving_of horizontal rc = (if horizontal then snd rc else fst rc)"

definition run_bounds :: "board \<Rightarrow> bool \<Rightarrow> nat \<times> nat \<Rightarrow> nat \<times> nat" where
  "run_bounds b horizontal rc =
     find_word_bounds b (fixed_of horizontal rc) (moving_of horizontal rc) (moving_of horizontal rc) horizontal"

definition run :: "board \<Rightarrow> bool \<Rightarrow> nat \<times> nat \<Rightarrow> (nat \<times> nat) list" where
  "run b horizontal rc =
     map (line_pos (fixed_of horizontal rc) horizontal)
       [fst (run_bounds b horizontal rc)..<Suc (snd (run_bounds b horizontal rc))]"

definition occupied :: "board \<Rightarrow> nat \<times> nat \<Rightarrow> bool" where
  "occupied b rc \<longleftrightarrow> cells b (fst rc) (snd rc) \<noteq> None"

lemma line_at_line_pos: "line_at b fixed h i = cells b (fst (line_pos fixed h i)) (snd (line_pos fixed h i))"
  by (simp add: line_at_def line_pos_def)

lemma occupied_line_pos: "occupied b (line_pos fixed h i) \<longleftrightarrow> line_at b fixed h i \<noteq> None"
  by (simp add: occupied_def line_at_line_pos)

lemma line_pos_fixed_moving [simp]: "line_pos (fixed_of h rc) h (moving_of h rc) = rc"
  by (simp add: line_pos_def fixed_of_def moving_of_def)

lemma fixed_moving_line_pos [simp]:
  "fixed_of h (line_pos f h i) = f" "moving_of h (line_pos f h i) = i"
  by (simp_all add: line_pos_def fixed_of_def moving_of_def)

lemma run_occupied: "occupied b rc \<Longrightarrow> \<forall>q\<in>set (run b h rc). occupied b q"
proof
  fix q assume o: "occupied b rc" and q: "q \<in> set (run b h rc)"
  define sq where "sq = line_at b (fixed_of h rc) h"
  from q obtain i where i: "q = line_pos (fixed_of h rc) h i"
    and lo: "extend_start sq (moving_of h rc) \<le> i" and hi: "i \<le> extend_end sq (moving_of h rc)"
    by (auto simp: run_def run_bounds_def find_word_bounds_def sq_def)
  have "sq i \<noteq> None"
  proof (cases i "moving_of h rc" rule: linorder_cases)
    case less
    then show ?thesis using extend_start_occupied lo by blast
  next
    case equal
    with o show ?thesis
      by (metis line_pos_fixed_moving occupied_line_pos sq_def)
  next
    case greater
    then show ?thesis using extend_end_occupied hi by blast
  qed
  then show "occupied b q" by (simp add: i occupied_line_pos sq_def)
qed

lemma rc_in_run: "rc \<in> set (run b h rc)"
proof -
  define sq where "sq = line_at b (fixed_of h rc) h"
  have "extend_start sq (moving_of h rc) \<le> moving_of h rc" "moving_of h rc \<le> extend_end sq (moving_of h rc)"
    by (rule extend_start_le extend_end_ge)+
  then have "moving_of h rc \<in> set [extend_start sq (moving_of h rc)..<Suc (extend_end sq (moving_of h rc))]"
    by (simp only: set_upt atLeastLessThan_iff less_Suc_eq_le)
  then have "line_pos (fixed_of h rc) h (moving_of h rc) \<in> set (run b h rc)"
    unfolding run_def run_bounds_def find_word_bounds_def sq_def fst_conv snd_conv set_map by (rule imageI)
  then show ?thesis by simp
qed

lemma run_distinct: "distinct (run b h rc)"
  by (auto simp: run_def distinct_map inj_on_def line_pos_def split: if_splits)

section \<open>Scoring\<close>

text \<open>
  The reference: letter values with the letter premiums of the new squares, summed, times the
  product of the word premiums of the new squares.
\<close>

definition square_prem :: "mask \<Rightarrow> nat \<times> nat \<Rightarrow> premium" where
  "square_prem m rc = (if m (fst rc) (snd rc) then premium_at (fst rc) (snd rc) else PNone)"

definition letter_mult :: "premium \<Rightarrow> nat" where
  "letter_mult p = (case p of Dl \<Rightarrow> 2 | Tl \<Rightarrow> 3 | _ \<Rightarrow> 1)"

definition word_mult :: "premium \<Rightarrow> nat" where
  "word_mult p = (case p of Dw \<Rightarrow> 2 | Star \<Rightarrow> 2 | Tw \<Rightarrow> 3 | _ \<Rightarrow> 1)"

definition cell_value :: "cell option \<Rightarrow> nat" where
  "cell_value x = (case x of None \<Rightarrow> 0 | Some c \<Rightarrow> if cell_blank c then 0 else tile_value (cell_letter c))"

definition cell_text :: "cell option \<Rightarrow> str" where
  "cell_text x = (case x of None \<Rightarrow> [] | Some c \<Rightarrow> letter_of (cell_letter c))"

definition ref_word :: "board \<Rightarrow> mask \<Rightarrow> (nat \<times> nat) list \<Rightarrow> formed_word" where
  "ref_word b m rcs =
     FormedWord (concat (map (\<lambda>rc. cell_text (cells b (fst rc) (snd rc))) rcs)) rcs
       ((\<Sum>rc\<leftarrow>rcs. cell_value (cells b (fst rc) (snd rc)) * letter_mult (square_prem m rc))
        * prod_list (map (\<lambda>rc. word_mult (square_prem m rc)) rcs))"

lemma fw_positions_ref_word [simp]: "fw_positions (ref_word b m rcs) = rcs"
  by (simp add: ref_word_def)

lemma extract_step_occupied:
  assumes "occupied b rc"
  shows "extract_step b m rc (w, ps, l, k) =
    Some (w @ cell_text (cells b (fst rc) (snd rc)), ps @ [rc],
      l + cell_value (cells b (fst rc) (snd rc)) * letter_mult (square_prem m rc), k * word_mult (square_prem m rc))"
proof -
  from assms obtain x where "cells b (fst rc) (snd rc) = Some x" by (auto simp: occupied_def)
  then show ?thesis
    by (simp add: extract_step_def cell_text_def cell_value_def letter_mult_def word_mult_def square_prem_def
        Let_def split: premium.split)
qed

lemma extract_loop_occupied:
  "\<forall>rc\<in>set rcs. occupied b rc \<Longrightarrow>
   extract_loop b m rcs (w, ps, l, k) =
    Some (w @ concat (map (\<lambda>rc. cell_text (cells b (fst rc) (snd rc))) rcs), ps @ rcs,
      l + (\<Sum>rc\<leftarrow>rcs. cell_value (cells b (fst rc) (snd rc)) * letter_mult (square_prem m rc)),
      k * prod_list (map (\<lambda>rc. word_mult (square_prem m rc)) rcs))"
  by (induction rcs arbitrary: w ps l k) (simp_all add: extract_step_occupied mult.assoc)

lemma extract_loop_panics:
  "\<exists>rc\<in>set rcs. \<not> occupied b rc \<Longrightarrow> extract_loop b m rcs acc = None"
proof (induction rcs arbitrary: acc)
  case (Cons rc rcs)
  show ?case
  proof (cases "occupied b rc")
    case True
    with Cons have "extract_loop b m rcs acc' = None" for acc' by auto
    then show ?thesis by (cases "extract_step b m rc acc") auto
  next
    case False
    then show ?thesis by (cases acc) (simp add: extract_step_def occupied_def)
  qed
qed simp

lemma extract_word_occupied:
  assumes "\<forall>i. s \<le> i \<and> i \<le> e \<longrightarrow> line_at b f h i \<noteq> None"
  shows "extract_word b f s e h m = Some (ref_word b m (map (line_pos f h) [s..<Suc e]))"
  using assms
  by (simp add: extract_word_def extract_loop_occupied occupied_line_pos ref_word_def del: upt_Suc)

section \<open>Laying tiles\<close>

definition on_board :: "placed \<Rightarrow> bool" where
  "on_board p \<longleftrightarrow> 0 \<le> p_row p \<and> p_row p < int BOARD_SIZE \<and> 0 \<le> p_col p \<and> p_col p < int BOARD_SIZE"

lemma cells_put_cell: "cells (put_cell r c x b) r' c' = (if r' = r \<and> c' = c then Some x else cells b r' c')"
  by (simp add: put_cell_def)

lemma board_is_empty_put_cell [simp]: "board_is_empty (put_cell r c x b) = board_is_empty b"
  by (simp add: put_cell_def)

lemma lay_tiles_Nil [simp]: "lay_tiles [] b = b"
  by (simp add: lay_tiles_def)

lemma lay_tiles_Cons [simp]: "lay_tiles (p # ps) b = lay_tiles ps (lay_tile p b)"
  by (simp add: lay_tiles_def)

lemma cells_lay_tile:
  "cells (lay_tile p b) r c = (if (r, c) = square_of p then Some (Cell (p_letter p) (p_blank p)) else cells b r c)"
  by (auto simp: lay_tile_def cells_put_cell square_of_def)

lemma cells_lay_tiles_other:
  "(r, c) \<notin> square_of ` set ps \<Longrightarrow> cells (lay_tiles ps b) r c = cells b r c"
  by (induction ps arbitrary: b) (auto simp: cells_lay_tile)

lemma cells_lay_tiles_in:
  "(r, c) \<in> square_of ` set ps \<Longrightarrow>
   \<exists>p\<in>set ps. square_of p = (r, c) \<and> cells (lay_tiles ps b) r c = Some (Cell (p_letter p) (p_blank p))"
proof (induction ps arbitrary: b)
  case (Cons p ps)
  show ?case
  proof (cases "(r, c) \<in> square_of ` set ps")
    case True
    with Cons.IH [of "lay_tile p b"] show ?thesis by auto
  next
    case False
    with Cons.prems have "square_of p = (r, c)" by auto
    with False show ?thesis by (auto simp: cells_lay_tiles_other cells_lay_tile)
  qed
qed simp

lemma board_is_empty_lay_tiles [simp]: "board_is_empty (lay_tiles ps b) = board_is_empty b"
  by (induction ps arbitrary: b) (auto simp: lay_tile_def)

lemma occupied_lay_tiles: "occupied (lay_tiles ps b) rc \<longleftrightarrow> rc \<in> square_of ` set ps \<or> occupied b rc"
proof (cases rc)
  case (Pair r c)
  show ?thesis
  proof (cases "rc \<in> square_of ` set ps")
    case True
    with Pair cells_lay_tiles_in [of r c ps b] show ?thesis by (auto simp: occupied_def)
  next
    case False
    with Pair cells_lay_tiles_other [of r c ps b] show ?thesis by (auto simp: occupied_def)
  qed
qed

section \<open>The phases of validation\<close>

lemma validate_positions_from_None:
  "validate_positions_from b seen ps = None \<longleftrightarrow>
     (\<forall>p\<in>set ps. on_board p \<and> \<not> occupied b (square_of p) \<and> (p_row p, p_col p) \<notin> set seen)
     \<and> distinct (map (\<lambda>p. (p_row p, p_col p)) ps)"
proof (induction ps arbitrary: seen)
  case Nil
  then show ?case by simp
next
  case (Cons p ps)
  show ?case
    by (auto simp: Cons.IH on_board_def occupied_def square_of_def image_iff)
qed

lemma validate_positions_None:
  "validate_positions b ps = None \<longleftrightarrow>
     (\<forall>p\<in>set ps. on_board p \<and> \<not> occupied b (square_of p)) \<and> distinct (map square_of ps)"
proof -
  have "distinct (map (\<lambda>p. (p_row p, p_col p)) ps) \<longleftrightarrow> distinct (map square_of ps)"
    if "\<forall>p\<in>set ps. on_board p"
    using that by (auto simp: distinct_map inj_on_def on_board_def square_of_def eq_nat_nat_iff)
  then show ?thesis by (auto simp: validate_positions_def validate_positions_from_None)
qed

definition aligned :: "bool \<Rightarrow> (nat \<times> nat) list \<Rightarrow> bool" where
  "aligned horizontal ps \<longleftrightarrow> (\<forall>p\<in>set ps. \<forall>q\<in>set ps. fixed_of horizontal p = fixed_of horizontal q)"

lemma alignedD: "aligned h ps \<Longrightarrow> p \<in> set ps \<Longrightarrow> q \<in> set ps \<Longrightarrow> fixed_of h p = fixed_of h q"
  unfolding aligned_def by blast

lemma length_remdups_le_1: "length (remdups xs) \<le> 1 \<longleftrightarrow> (\<forall>x\<in>set xs. \<forall>y\<in>set xs. x = y)"
proof -
  have "length (remdups xs) = card (set xs)" by (simp add: length_remdups_card_conv)
  then show ?thesis
    by (metis One_nat_def card_le_Suc0_iff_eq finite_set)
qed

lemma length_remdups_eq_1:
  "xs \<noteq> [] \<Longrightarrow> length (remdups xs) = 1 \<longleftrightarrow> (\<forall>x\<in>set xs. \<forall>y\<in>set xs. x = y)"
  using length_remdups_le_1 [of xs]
  by (metis One_nat_def Suc_leI le_antisym length_greater_0_conv order_refl remdups_eq_nil_iff)

lemma length_remdups_fst_1: "xs \<noteq> [] \<Longrightarrow> length (remdups (map fst xs)) = 1 \<longleftrightarrow> aligned True xs"
  by (subst length_remdups_eq_1) (auto simp: aligned_def fixed_of_def)

lemma length_remdups_snd_1: "xs \<noteq> [] \<Longrightarrow> length (remdups (map snd xs)) = 1 \<longleftrightarrow> aligned False xs"
  by (subst length_remdups_eq_1) (auto simp: aligned_def fixed_of_def)

lemma aligned_single: "length xs = 1 \<Longrightarrow> aligned h xs"
  by (cases xs) (auto simp: aligned_def)

lemma validate_alignment_Inr:
  assumes "xs \<noteq> []"
  shows "validate_alignment xs = (if aligned True xs \<or> aligned False xs then Inr (aligned True xs) else Inl NotAligned)"
proof -
  have gt: "1 < length (remdups ys) \<longleftrightarrow> length (remdups ys) \<noteq> 1" if "ys \<noteq> []" for ys :: "nat list"
    using that by (metis One_nat_def length_greater_0_conv less_one linorder_neqE_nat remdups_eq_nil_iff not_less0)
  show ?thesis
    using assms
    by (auto simp: validate_alignment_def Let_def gt length_remdups_fst_1 length_remdups_snd_1
        simp del: One_nat_def dest: aligned_single)
qed

lemma get_main_bounds_aligned:
  assumes "ps \<noteq> []" and "aligned h ps"
  shows "get_main_bounds ps h =
    (fixed_of h (hd ps), Min (moving_of h ` set ps), Max (moving_of h ` set ps))"
proof -
  have hd_remdups: "hd (remdups xs) = hd xs" if "length (remdups xs) = 1" for xs :: "nat list"
  proof -
    from that obtain x where x: "remdups xs = [x]" by (metis One_nat_def length_0_conv length_Suc_conv)
    then have "set xs = {x}" by (metis list.set(1) list.simps(15) set_remdups)
    moreover from this have "hd xs \<in> set xs" by (intro hd_in_set) auto
    ultimately show ?thesis using x by simp
  qed
  show ?thesis
  proof (cases h)
    case True
    with assms have "aligned True ps" by (cases h) auto
    with assms(1) have one: "length (remdups (map fst ps)) = 1" by (rule length_remdups_fst_1 [THEN iffD2])
    then show ?thesis using True assms(1) hd_remdups [OF one]
      by (simp add: get_main_bounds_def Let_def fixed_of_def moving_of_def hd_map)
  next
    case False
    with assms have "aligned False ps" by (cases h) auto
    with assms(1) have one: "length (remdups (map snd ps)) = 1" by (rule length_remdups_snd_1 [THEN iffD2])
    then show ?thesis using False assms(1) hd_remdups [OF one]
      by (simp add: get_main_bounds_def Let_def fixed_of_def moving_of_def hd_map)
  qed
qed

section \<open>Contiguity and the main run\<close>

definition contiguous :: "board \<Rightarrow> bool \<Rightarrow> (nat \<times> nat) list \<Rightarrow> bool" where
  "contiguous b horizontal ps \<longleftrightarrow>
     (\<forall>p\<in>set ps. \<forall>q\<in>set ps. \<forall>i. moving_of horizontal p \<le> i \<and> i \<le> moving_of horizontal q \<longrightarrow>
        occupied b (line_pos (fixed_of horizontal p) horizontal i))"

lemma contiguous_line:
  assumes "ps \<noteq> []" and "aligned h ps"
  shows "contiguous b h ps \<longleftrightarrow>
    (\<forall>i. Min (moving_of h ` set ps) \<le> i \<and> i \<le> Max (moving_of h ` set ps) \<longrightarrow> line_at b (fixed_of h (hd ps)) h i \<noteq> None)"
    (is "_ \<longleftrightarrow> (\<forall>i. ?lo \<le> i \<and> i \<le> ?hi \<longrightarrow> _)")
proof
  have fin: "finite (moving_of h ` set ps)" and ne: "moving_of h ` set ps \<noteq> {}" using assms by auto
  have fx: "fixed_of h p = fixed_of h (hd ps)" if "p \<in> set ps" for p
    using assms that by (intro alignedD) auto
  {
    assume c: "contiguous b h ps"
    obtain p q where "p \<in> set ps" "?lo = moving_of h p" "q \<in> set ps" "?hi = moving_of h q"
      using Min_in [OF fin ne] Max_in [OF fin ne] by auto
    with c fx show "\<forall>i. ?lo \<le> i \<and> i \<le> ?hi \<longrightarrow> line_at b (fixed_of h (hd ps)) h i \<noteq> None"
      unfolding contiguous_def occupied_line_pos by metis
  next
    assume l: "\<forall>i. ?lo \<le> i \<and> i \<le> ?hi \<longrightarrow> line_at b (fixed_of h (hd ps)) h i \<noteq> None"
    show "contiguous b h ps"
      unfolding contiguous_def occupied_line_pos
    proof (intro ballI allI impI)
      fix p q i assume p: "p \<in> set ps" and q: "q \<in> set ps" and i: "moving_of h p \<le> i \<and> i \<le> moving_of h q"
      from p q fin have "?lo \<le> moving_of h p" "moving_of h q \<le> ?hi" by simp_all
      with i have "?lo \<le> i" "i \<le> ?hi" by linarith+
      with l have "line_at b (fixed_of h (hd ps)) h i \<noteq> None" by blast
      then show "line_at b (fixed_of h p) h i \<noteq> None" by (simp only: fx [OF p] not_False_eq_True)
    qed
  }
qed

lemma check_continuity_iff:
  "check_continuity b f s e h \<longleftrightarrow> (\<forall>i. s \<le> i \<and> i \<le> e \<longrightarrow> line_at b f h i \<noteq> None)"
  by (auto simp: check_continuity_def list_all_iff less_Suc_eq_le simp del: upt_Suc)

text \<open>Extending the bounds does not change whether the stretch is occupied.\<close>

lemma continuity_extended:
  assumes "s \<le> e"
  shows "(\<forall>i. extend_start sq s \<le> i \<and> i \<le> extend_end sq e \<longrightarrow> sq i \<noteq> None) \<longleftrightarrow>
    (\<forall>i. s \<le> i \<and> i \<le> e \<longrightarrow> sq i \<noteq> None)"
proof
  assume l: "\<forall>i. extend_start sq s \<le> i \<and> i \<le> extend_end sq e \<longrightarrow> sq i \<noteq> None"
  show "\<forall>i. s \<le> i \<and> i \<le> e \<longrightarrow> sq i \<noteq> None"
    using l extend_start_le [of sq s] extend_end_ge [of e sq] by (meson le_trans)
next
  assume l: "\<forall>i. s \<le> i \<and> i \<le> e \<longrightarrow> sq i \<noteq> None"
  show "\<forall>i. extend_start sq s \<le> i \<and> i \<le> extend_end sq e \<longrightarrow> sq i \<noteq> None"
  proof (intro allI impI)
    fix i assume i: "extend_start sq s \<le> i \<and> i \<le> extend_end sq e"
    consider "i < s" | "s \<le> i" "i \<le> e" | "e < i" by linarith
    then show "sq i \<noteq> None"
    proof cases
      case 1 then show ?thesis using i extend_start_occupied by blast
    next
      case 2 then show ?thesis using l by blast
    next
      case 3 then show ?thesis using i extend_end_occupied by blast
    qed
  qed
qed

lemma Min_le_Max: "finite A \<Longrightarrow> A \<noteq> {} \<Longrightarrow> Min A \<le> Max (A :: nat set)"
  by (metis Max_ge Min_in)

text \<open>Every square of a contiguous placement lies on the same main run.\<close>

lemma main_bounds_run:
  assumes ps: "ps \<noteq> []" "aligned h ps" "contiguous b h ps" and p: "p \<in> set ps"
    and small: "\<forall>p\<in>set ps. moving_of h p < BOARD_SIZE"
  shows "run_bounds b h p = find_word_bounds b (fixed_of h (hd ps)) (Min (moving_of h ` set ps)) (Max (moving_of h ` set ps)) h"
proof -
  let ?lo = "Min (moving_of h ` set ps)" and ?hi = "Max (moving_of h ` set ps)"
  define sq where "sq = line_at b (fixed_of h (hd ps)) h"
  have fx: "fixed_of h p = fixed_of h (hd ps)" using ps p by (intro alignedD) auto
  have l: "\<forall>i. ?lo \<le> i \<and> i \<le> ?hi \<longrightarrow> sq i \<noteq> None"
    using contiguous_line [OF ps(1,2)] ps(3) by (simp add: sq_def)
  have lo: "?lo \<le> moving_of h p" and hi: "moving_of h p \<le> ?hi" using p by auto
  have "?hi < BOARD_SIZE" using small ps(1) by (subst Max_less_iff) auto
  moreover have "extend_start sq (moving_of h p) = extend_start sq ?lo"
    by (rule extend_start_same [OF lo]) (use l lo hi in auto)
  moreover have "extend_end sq (moving_of h p) = extend_end sq ?hi"
    by (rule extend_end_same [OF hi]) (use l lo hi \<open>?hi < BOARD_SIZE\<close> in auto)
  ultimately show ?thesis
    by (simp add: run_bounds_def find_word_bounds_def fx sq_def)
qed

lemma run_same:
  assumes "ps \<noteq> []" "aligned h ps" "contiguous b h ps" "\<forall>p\<in>set ps. moving_of h p < BOARD_SIZE"
    and "p \<in> set ps" "q \<in> set ps"
  shows "run b h p = run b h q"
proof -
  have "fixed_of h p = fixed_of h q" using assms by (intro alignedD)
  then show ?thesis
    unfolding run_def main_bounds_run [OF assms(1,2,3) assms(5) assms(4)]
      main_bounds_run [OF assms(1,2,3) assms(6) assms(4)] by simp
qed

lemma all_pairs_Cons2:
  "(\<forall>i. Suc i < length (p # q # rest) \<longrightarrow> P ((p # q # rest) ! i) ((p # q # rest) ! Suc i)) \<longleftrightarrow>
    P p q \<and> (\<forall>i. Suc i < length (q # rest) \<longrightarrow> P ((q # rest) ! i) ((q # rest) ! Suc i))"
proof (intro iffI conjI allI impI)
  assume l: "\<forall>i. Suc i < length (p # q # rest) \<longrightarrow> P ((p # q # rest) ! i) ((p # q # rest) ! Suc i)"
  show "P p q" using l [rule_format, of 0] by simp
  fix i assume "Suc i < length (q # rest)"
  then show "P ((q # rest) ! i) ((q # rest) ! Suc i)" using l [rule_format, of "Suc i"] by simp
next
  fix i assume r: "P p q \<and> (\<forall>i. Suc i < length (q # rest) \<longrightarrow> P ((q # rest) ! i) ((q # rest) ! Suc i))"
    and i: "Suc i < length (p # q # rest)"
  then show "P ((p # q # rest) ! i) ((p # q # rest) ! Suc i)" by (cases i) auto
qed

section \<open>The formed words\<close>

text \<open>The words of a placement: the main run if it has two letters, then the cross runs that have.\<close>

definition run_word :: "board \<Rightarrow> mask \<Rightarrow> bool \<Rightarrow> nat \<times> nat \<Rightarrow> formed_word list" where
  "run_word b m h p = (if 1 < length (run b h p) then [ref_word b m (run b h p)] else [])"

definition words_of :: "board \<Rightarrow> mask \<Rightarrow> bool \<Rightarrow> (nat \<times> nat) list \<Rightarrow> formed_word list" where
  "words_of b m h ps = run_word b m h (hd ps) @ concat (map (run_word b m (\<not> h)) ps)"

lemma length_run: "length (run b h p) = Suc (snd (run_bounds b h p)) - fst (run_bounds b h p)"
  by (simp add: run_def del: upt_Suc)

lemma run_bounds_le: "fst (run_bounds b h p) \<le> snd (run_bounds b h p)"
  unfolding run_bounds_def find_word_bounds_def fst_conv snd_conv
  by (meson extend_end_ge extend_start_le le_trans)

lemma extract_run:
  assumes "occupied b p"
  shows "extract_word b (fixed_of h p) (fst (run_bounds b h p)) (snd (run_bounds b h p)) h m =
    Some (ref_word b m (run b h p))"
  unfolding run_def
proof (rule extract_word_occupied, intro allI impI)
  fix i assume i: "fst (run_bounds b h p) \<le> i \<and> i \<le> snd (run_bounds b h p)"
  then have "line_pos (fixed_of h p) h i \<in> set (run b h p)"
    by (simp add: run_def less_Suc_eq_le del: upt_Suc)
  with run_occupied [OF assms, of h] show "line_at b (fixed_of h p) h i \<noteq> None"
    by (metis occupied_line_pos)
qed

lemma cross_word_eq:
  assumes "occupied b p"
  shows "cross_word b m h p = Some (run_word b m (\<not> h) p)"
proof -
  have bounds: "(snd (run_bounds b (\<not> h) p) > fst (run_bounds b (\<not> h) p)) \<longleftrightarrow> 1 < length (run b (\<not> h) p)"
    using run_bounds_le [of b "\<not> h" p] by (auto simp: length_run)
  obtain r c where p: "p = (r, c)" by (cases p)
  have "find_word_bounds b c r r False = run_bounds b False p" "find_word_bounds b r c c True = run_bounds b True p"
    by (simp_all add: run_bounds_def p fixed_of_def moving_of_def)
  then show ?thesis
    using bounds extract_run [OF assms, of "\<not> h" m]
    by (cases h) (auto simp: cross_word_def p run_word_def fixed_of_def split: prod.splits)
qed

lemma cross_words_eq:
  "\<forall>p\<in>set ps. occupied b p \<Longrightarrow> cross_words b m h ps = Some (concat (map (run_word b m (\<not> h)) ps))"
  by (induction ps) (simp_all add: cross_word_eq)

lemma collect_words_eq:
  assumes ps: "ps \<noteq> []" "aligned h ps" "contiguous b h ps" and occ: "\<forall>p\<in>set ps. occupied b p"
    and small: "\<forall>p\<in>set ps. moving_of h p < BOARD_SIZE"
    and bounds: "find_word_bounds b (fixed_of h (hd ps)) (Min (moving_of h ` set ps)) (Max (moving_of h ` set ps)) h = (s, e)"
  shows "collect_words b ps m h (fixed_of h (hd ps)) s e = Some (words_of b m h ps)"
proof -
  have rb: "run_bounds b h (hd ps) = (s, e)"
    using main_bounds_run [OF ps _ small, of "hd ps"] bounds ps(1) by simp
  then have "s < e \<longleftrightarrow> 1 < length (run b h (hd ps))"
    using run_bounds_le [of b h "hd ps"] by (auto simp: length_run)
  moreover have "extract_word b (fixed_of h (hd ps)) s e h m = Some (ref_word b m (run b h (hd ps)))"
    using extract_run [of b "hd ps" h m] occ ps(1) rb by simp
  ultimately show ?thesis
    by (simp add: collect_words_def cross_words_eq [OF occ] words_of_def run_word_def)
qed

text \<open>Every square of a formed word is occupied, so no unwrap of the digraph search fails.\<close>

lemma words_of_mem:
  assumes "ps \<noteq> []" and "w \<in> set (words_of b m h ps)"
  shows "\<exists>h'. \<exists>p\<in>set ps. w \<in> set (run_word b m h' p)"
proof (cases "w \<in> set (run_word b m h (hd ps))")
  case True
  then show ?thesis using hd_in_set [OF assms(1)] by blast
next
  case False
  with assms(2) show ?thesis unfolding words_of_def by auto
qed

lemma words_of_occupied:
  assumes "ps \<noteq> []" and "\<forall>p\<in>set ps. occupied b p" and "w \<in> set (words_of b m h ps)"
  shows "\<forall>q\<in>set (fw_positions w). occupied b q"
proof -
  from words_of_mem [OF assms(1,3)] assms(2) obtain p h'
    where "occupied b p" and "w \<in> set (run_word b m h' p)" by blast
  then have "occupied b p" and "fw_positions w = run b h' p"
    by (auto simp: run_word_def split: if_splits)
  then show ?thesis by (simp add: run_occupied)
qed

section \<open>Split digraphs\<close>

definition splits_at :: "board \<Rightarrow> mask \<Rightarrow> nat \<times> nat \<Rightarrow> nat \<times> nat \<Rightarrow> bool" where
  "splits_at b m p q \<longleftrightarrow> (m (fst p) (snd p) \<or> m (fst q) (snd q))
     \<and> forms_digraph (cell_text (cells b (fst p) (snd p))) (cell_text (cells b (fst q) (snd q)))"

definition no_split :: "board \<Rightarrow> mask \<Rightarrow> formed_word list \<Rightarrow> bool" where
  "no_split b m ws \<longleftrightarrow>
     (\<forall>w\<in>set ws. \<forall>i. Suc i < length (fw_positions w) \<longrightarrow>
        \<not> splits_at b m (fw_positions w ! i) (fw_positions w ! Suc i))"

lemma split_digraph_in_occupied:
  "\<forall>q\<in>set qs. occupied b q \<Longrightarrow> \<exists>d. split_digraph_in b m qs = Some d \<and>
     (d = None \<longleftrightarrow> (\<forall>i. Suc i < length qs \<longrightarrow> \<not> splits_at b m (qs ! i) (qs ! Suc i)))"
proof (induction b m qs rule: split_digraph_in.induct)
  case (1 b m p q rest)
  from 1(3) obtain x y where x: "cells b (fst p) (snd p) = Some x" and y: "cells b (fst q) (snd q) = Some y"
    by (auto simp: occupied_def)
  have all: "(\<forall>i. Suc i < length (p # q # rest) \<longrightarrow> \<not> splits_at b m ((p # q # rest) ! i) ((p # q # rest) ! Suc i)) \<longleftrightarrow>
    \<not> splits_at b m p q \<and> (\<forall>i. Suc i < length (q # rest) \<longrightarrow> \<not> splits_at b m ((q # rest) ! i) ((q # rest) ! Suc i))"
    by (rule all_pairs_Cons2)
  show ?case
  proof (cases "splits_at b m p q")
    case True
    then show ?thesis using x y all by (auto simp: splits_at_def cell_text_def)
  next
    case False
    moreover from 1(3) have "\<forall>q\<in>set (q # rest). occupied b q" by simp
    ultimately show ?thesis using 1(1,2) x y unfolding all
      by (auto simp: splits_at_def cell_text_def Let_def)
  qed
qed auto

lemma find_split_digraph_occupied:
  "\<forall>w\<in>set ws. \<forall>q\<in>set (fw_positions w). occupied b q \<Longrightarrow>
   \<exists>d. find_split_digraph b ws m = Some d \<and> (d = None \<longleftrightarrow> no_split b m ws)"
proof (induction ws)
  case Nil
  then show ?case by (simp add: no_split_def)
next
  case (Cons w ws)
  then obtain d where d: "split_digraph_in b m (fw_positions w) = Some d"
    "d = None \<longleftrightarrow> (\<forall>i. Suc i < length (fw_positions w) \<longrightarrow> \<not> splits_at b m (fw_positions w ! i) (fw_positions w ! Suc i))"
    using split_digraph_in_occupied [of "fw_positions w" b m] by auto
  from Cons obtain e where e: "find_split_digraph b ws m = Some e" "e = None \<longleftrightarrow> no_split b m ws" by auto
  show ?case
  proof (cases d)
    case None
    with d e show ?thesis by (auto simp: no_split_def)
  next
    case (Some x)
    with d have "\<not> no_split b m (w # ws)" by (auto simp: no_split_def)
    with Some d(1) show ?thesis by simp
  qed
qed

section \<open>Adjacency\<close>

definition adjacent :: "nat \<times> nat \<Rightarrow> nat \<times> nat \<Rightarrow> bool" where
  "adjacent p q \<longleftrightarrow>
     fst p = fst q \<and> (snd p = Suc (snd q) \<or> snd q = Suc (snd p))
     \<or> snd p = snd q \<and> (fst p = Suc (fst q) \<or> fst q = Suc (fst p))"

definition touches :: "board \<Rightarrow> nat \<times> nat \<Rightarrow> bool" where
  "touches b p \<longleftrightarrow> (\<exists>q. adjacent p q \<and> fst q < BOARD_SIZE \<and> snd q < BOARD_SIZE \<and> occupied b q)"

lemma has_letter_occupied:
  "has_letter b r c \<longleftrightarrow> 0 \<le> r \<and> r < int BOARD_SIZE \<and> 0 \<le> c \<and> c < int BOARD_SIZE \<and> occupied b (nat r, nat c)"
  by (auto simp: has_letter_def board_get_def occupied_def)

lemma adjacent_cases:
  "(\<exists>q. adjacent (r, c) q \<and> P q) \<longleftrightarrow>
     P (Suc r, c) \<or> P (r, Suc c) \<or> (0 < r \<and> P (r - 1, c)) \<or> (0 < c \<and> P (r, c - 1))"
proof -
  have "adjacent (r, c) q \<longleftrightarrow> q = (Suc r, c) \<or> q = (r, Suc c) \<or> (0 < r \<and> q = (r - 1, c)) \<or> (0 < c \<and> q = (r, c - 1))" for q
    by (cases q) (auto simp: adjacent_def)
  then show ?thesis by auto
qed

lemma has_letter_steps:
  "has_letter b (int r + 1) (int c) \<longleftrightarrow> Suc r < BOARD_SIZE \<and> c < BOARD_SIZE \<and> occupied b (Suc r, c)"
  "has_letter b (int r) (int c + 1) \<longleftrightarrow> r < BOARD_SIZE \<and> Suc c < BOARD_SIZE \<and> occupied b (r, Suc c)"
  "r < BOARD_SIZE \<Longrightarrow> has_letter b (int r - 1) (int c) \<longleftrightarrow> 0 < r \<and> c < BOARD_SIZE \<and> occupied b (r - 1, c)"
  "c < BOARD_SIZE \<Longrightarrow> has_letter b (int r) (int c - 1) \<longleftrightarrow> r < BOARD_SIZE \<and> 0 < c \<and> occupied b (r, c - 1)"
proof -
  have n: "nat (int i - 1) = i - 1" "nat (int i + 1) = Suc i" for i by simp_all
  show "has_letter b (int r + 1) (int c) \<longleftrightarrow> Suc r < BOARD_SIZE \<and> c < BOARD_SIZE \<and> occupied b (Suc r, c)"
    unfolding has_letter_occupied n nat_int by linarith
  show "has_letter b (int r) (int c + 1) \<longleftrightarrow> r < BOARD_SIZE \<and> Suc c < BOARD_SIZE \<and> occupied b (r, Suc c)"
    unfolding has_letter_occupied n nat_int by linarith
  show "has_letter b (int r - 1) (int c) \<longleftrightarrow> 0 < r \<and> c < BOARD_SIZE \<and> occupied b (r - 1, c)" if "r < BOARD_SIZE"
    using that unfolding has_letter_occupied n nat_int by linarith
  show "has_letter b (int r) (int c - 1) \<longleftrightarrow> r < BOARD_SIZE \<and> 0 < c \<and> occupied b (r, c - 1)" if "c < BOARD_SIZE"
    using that unfolding has_letter_occupied n nat_int by linarith
qed

lemma touches_iff:
  assumes "r < BOARD_SIZE" "c < BOARD_SIZE"
  shows "(\<exists>q. adjacent (r, c) q \<and> fst q < BOARD_SIZE \<and> snd q < BOARD_SIZE \<and> P q \<and> occupied b q) \<longleftrightarrow>
    P (Suc r, c) \<and> has_letter b (int r + 1) (int c) \<or> P (r, Suc c) \<and> has_letter b (int r) (int c + 1)
    \<or> P (r - 1, c) \<and> has_letter b (int r - 1) (int c) \<or> P (r, c - 1) \<and> has_letter b (int r) (int c - 1)"
  unfolding adjacent_cases has_letter_steps(1,2) has_letter_steps(3) [OF assms(1)] has_letter_steps(4) [OF assms(2)]
  using assms by (simp only: fst_conv snd_conv) (metis less_imp_diff_less)

lemma check_adjacency_iff:
  assumes "\<forall>p\<in>set ps. fst p < BOARD_SIZE \<and> snd p < BOARD_SIZE"
  shows "check_adjacency b ps m \<longleftrightarrow>
    (\<exists>p\<in>set ps. \<exists>q. adjacent p q \<and> fst q < BOARD_SIZE \<and> snd q < BOARD_SIZE \<and> \<not> m (fst q) (snd q) \<and> occupied b q)"
proof -
  have drop_range: "(0 \<le> nr \<and> nr < int BOARD_SIZE \<and> 0 \<le> nc \<and> nc < int BOARD_SIZE)
      \<and> \<not> m (nat nr) (nat nc) \<and> has_letter b nr nc \<longleftrightarrow> \<not> m (nat nr) (nat nc) \<and> has_letter b nr nc" for nr nc
    by (auto simp: has_letter_occupied)
  have one: "list_ex (\<lambda>(dr, dc).
           let nr = int r + dr; nc = int c + dc
           in (0 \<le> nr \<and> nr < int BOARD_SIZE \<and> 0 \<le> nc \<and> nc < int BOARD_SIZE)
              \<and> \<not> m (nat nr) (nat nc) \<and> has_letter b nr nc)
         [(-1, 0), (1, 0), (0, -1), (0, 1)] \<longleftrightarrow>
     (\<exists>q. adjacent (r, c) q \<and> fst q < BOARD_SIZE \<and> snd q < BOARD_SIZE \<and> \<not> m (fst q) (snd q) \<and> occupied b q)"
    if "r < BOARD_SIZE" "c < BOARD_SIZE" for r c
  proof -
    have n: "nat (int i - 1) = i - 1" "nat (int i + 1) = Suc i" for i by simp_all
    show ?thesis
      unfolding touches_iff [OF that, of "\<lambda>q. \<not> m (fst q) (snd q)"] list_ex_Cons_iff list_ex_Nil_iff case_prod_conv Let_def drop_range
      by (simp add: n) blast
  qed
  show ?thesis
    unfolding check_adjacency_def list_ex_iff [of _ ps]
  proof (rule bex_cong [OF refl])
    fix p assume "p \<in> set ps"
    with assms have "fst p < BOARD_SIZE" "snd p < BOARD_SIZE" by auto
    from one [OF this] show "(case p of (r, c) \<Rightarrow> list_ex (\<lambda>(dr, dc).
           let nr = int r + dr; nc = int c + dc
           in (0 \<le> nr \<and> nr < int BOARD_SIZE \<and> 0 \<le> nc \<and> nc < int BOARD_SIZE)
              \<and> \<not> m (nat nr) (nat nc) \<and> has_letter b nr nc)
         [(-1, 0), (1, 0), (0, -1), (0, 1)]) \<longleftrightarrow>
      (\<exists>q. adjacent p q \<and> fst q < BOARD_SIZE \<and> snd q < BOARD_SIZE \<and> \<not> m (fst q) (snd q) \<and> occupied b q)"
      unfolding prod.collapse case_prod_unfold .
  qed
qed

lemma adjacent_run:
  assumes "adjacent p q" "fst q < BOARD_SIZE" "snd q < BOARD_SIZE" "occupied b q"
  shows "\<exists>h. q \<in> set (run b h p)"
proof -
  define h where "h \<longleftrightarrow> fst p = fst q"
  have fx: "fixed_of h q = fixed_of h p" and mv: "moving_of h p = Suc (moving_of h q) \<or> moving_of h q = Suc (moving_of h p)"
    using assms(1) by (auto simp: adjacent_def h_def fixed_of_def moving_of_def)
  define sq where "sq = line_at b (fixed_of h p) h"
  have sq: "sq (moving_of h q) \<noteq> None"
    using assms(4) fx by (metis line_pos_fixed_moving occupied_line_pos sq_def)
  have small: "moving_of h q < BOARD_SIZE" using assms by (simp add: moving_of_def)
  have "extend_start sq (moving_of h p) \<le> moving_of h q \<and> moving_of h q \<le> extend_end sq (moving_of h p)"
    using mv
  proof
    assume s: "moving_of h p = Suc (moving_of h q)"
    then have "extend_start sq (moving_of h p) = extend_start sq (moving_of h q)" using sq by simp
    then show ?thesis using extend_start_le [of sq "moving_of h q"] extend_end_ge [of "moving_of h p" sq] s by auto
  next
    assume s: "moving_of h q = Suc (moving_of h p)"
    then have "extend_end sq (moving_of h p) = extend_end sq (moving_of h q)"
      using sq small by (subst extend_end.simps) auto
    then show ?thesis using extend_end_ge [of "moving_of h q" sq] extend_start_le [of sq "moving_of h p"] s by auto
  qed
  then have "moving_of h q \<in> set [fst (run_bounds b h p)..<Suc (snd (run_bounds b h p))]"
    by (simp only: run_bounds_def find_word_bounds_def sq_def fst_conv snd_conv set_upt atLeastLessThan_iff less_Suc_eq_le)
  then have "line_pos (fixed_of h p) h (moving_of h q) \<in> set (run b h p)"
    unfolding run_def set_map by (rule imageI)
  then show ?thesis by (metis fx line_pos_fixed_moving)
qed

lemma touching_run:
  assumes "touches b p"
  shows "\<exists>h. 1 < length (run b h p)"
proof -
  from assms obtain q h where q: "adjacent p q" "q \<in> set (run b h p)"
    using adjacent_run unfolding touches_def by blast
  then have "p \<noteq> q" by (auto simp: adjacent_def)
  moreover have "card {p, q} \<le> card (set (run b h p))"
    by (rule card_mono) (use q(2) rc_in_run in auto)
  ultimately have "2 \<le> card (set (run b h p))" by simp
  then show ?thesis by (metis One_nat_def Suc_1 Suc_le_eq distinct_card run_distinct)
qed

section \<open>Validation accepts exactly the legal placements\<close>

definition squares_of :: "placed list \<Rightarrow> (nat \<times> nat) list" where
  "squares_of ps = map square_of ps"

text \<open>The direction of the main word: the common row, or, for one tile, the neighbours decide.\<close>

definition main_direction :: "board \<Rightarrow> placed list \<Rightarrow> bool" where
  "main_direction b ps =
     (if length ps = 1 then fst (determine_direction_single (lay_tiles ps b) (p_row (hd ps)) (p_col (hd ps)))
      else aligned True (squares_of ps))"

definition placement_words :: "board \<Rightarrow> placed list \<Rightarrow> formed_word list" where
  "placement_words b ps =
     words_of (lay_tiles ps b) (mask_of (squares_of ps)) (main_direction b ps) (squares_of ps)"

definition legal_geometry :: "board \<Rightarrow> placed list \<Rightarrow> bool" where
  "legal_geometry b ps \<longleftrightarrow>
     ps \<noteq> []
     \<and> (\<forall>p\<in>set ps. on_board p \<and> \<not> occupied b (square_of p))
     \<and> distinct (squares_of ps)
     \<and> (\<exists>h. aligned h (squares_of ps) \<and> contiguous (lay_tiles ps b) h (squares_of ps))
     \<and> (if board_is_empty b then (CENTER, CENTER) \<in> set (squares_of ps) \<and> 2 \<le> length ps
        else \<exists>p\<in>set (squares_of ps). touches b p)"

lemma squares_of_small:
  "\<forall>p\<in>set ps. on_board p \<Longrightarrow> \<forall>q\<in>set (squares_of ps). fst q < BOARD_SIZE \<and> snd q < BOARD_SIZE"
  by (auto simp: squares_of_def square_of_def on_board_def)

lemma contiguous_single:
  assumes "length ps = 1" and "\<forall>p\<in>set ps. occupied b p"
  shows "contiguous b h ps"
  using assms by (cases ps) (auto simp: contiguous_def dest!: le_antisym)

text \<open>
  With two tiles in a row and in a column at once there is only one square, so a placement of
  at least two distinct squares has one direction.
\<close>

lemma aligned_both:
  assumes "aligned True ps" "aligned False ps" "distinct ps"
  shows "length ps \<le> 1"
proof (rule ccontr)
  assume "\<not> length ps \<le> 1"
  then obtain p q rest where ps: "ps = p # q # rest"
    by (cases ps; cases "tl ps") auto
  then have "fst p = fst q" "snd p = snd q"
    using alignedD [OF assms(1), of p q] alignedD [OF assms(2), of p q] by (auto simp: fixed_of_def)
  with ps assms(3) show False by (auto simp: prod_eq_iff)
qed

lemma words_of_nonempty:
  assumes "ps \<noteq> []" "\<forall>p\<in>set ps. occupied b p" "aligned h ps" "contiguous b h ps"
    and "\<forall>p\<in>set ps. fst p < BOARD_SIZE \<and> snd p < BOARD_SIZE"
    and "2 \<le> length ps \<and> distinct ps \<or> (\<exists>p\<in>set ps. touches b p)"
  shows "words_of b m h ps \<noteq> []"
proof -
  have small: "\<forall>p\<in>set ps. moving_of h p < BOARD_SIZE" using assms(5) by (auto simp: moving_of_def)
  have long: "words_of b m h ps \<noteq> []" if "p \<in> set ps" "1 < length (run b h' p)" for p h'
  proof (cases "h' = h")
    case True
    then have "run b h' p = run b h (hd ps)"
      using run_same [OF assms(1,3,4) small that(1) hd_in_set [OF assms(1)]] by simp
    then show ?thesis using that(2) by (simp add: words_of_def run_word_def)
  next
    case False
    then have "run_word b m (\<not> h) p \<noteq> []" using that(2) by (cases h; cases h') (auto simp: run_word_def)
    then show ?thesis using that(1) by (auto simp: words_of_def)
  qed
  from assms(6) show ?thesis
  proof
    assume "2 \<le> length ps \<and> distinct ps"
    then obtain p q rest where "ps = p # q # rest" and "distinct (p # q # rest)"
      by (cases ps; cases "tl ps") auto
    then have p: "p \<in> set ps" and q: "q \<in> set ps" and ne: "p \<noteq> q" by auto
    have "p \<in> set (run b h p)" "q \<in> set (run b h p)"
      using rc_in_run run_same [OF assms(1,3,4) small p q] by (metis, metis)
    then have "card {p, q} \<le> card (set (run b h p))" by (intro card_mono) auto
    with ne have "1 < card (set (run b h p))" by simp
    then have "1 < length (run b h p)" using distinct_card [OF run_distinct, of b h p] by simp
    with p show ?thesis by (rule long)
  next
    assume "\<exists>p\<in>set ps. touches b p"
    then show ?thesis using touching_run long by blast
  qed
qed

text \<open>The verdict of \<^verbatim>\<open>validate_words\<close> on the board with the tiles laid.\<close>

lemma validate_words_eq:
  assumes ps: "ps \<noteq> []" "aligned h ps" and occ: "\<forall>p\<in>set ps. occupied b p"
    and small: "\<forall>p\<in>set ps. fst p < BOARD_SIZE \<and> snd p < BOARD_SIZE"
  shows "\<not> contiguous b h ps \<Longrightarrow> validate_words chk b ps m h skip = Some (Inl NotContiguous)"
    and "contiguous b h ps \<Longrightarrow> \<not> board_is_empty b \<Longrightarrow> \<not> check_adjacency b ps m \<Longrightarrow>
      validate_words chk b ps m h skip = Some (Inl NotConnected)"
    and "contiguous b h ps \<Longrightarrow> board_is_empty b \<or> check_adjacency b ps m \<Longrightarrow> words_of b m h ps = [] \<Longrightarrow>
      validate_words chk b ps m h skip = Some (Inl NoWordFormed)"
    and "contiguous b h ps \<Longrightarrow> board_is_empty b \<or> check_adjacency b ps m \<Longrightarrow> words_of b m h ps \<noteq> [] \<Longrightarrow>
      \<not> no_split b m (words_of b m h ps) \<Longrightarrow> \<exists>d. validate_words chk b ps m h skip = Some (Inl (SplitDigraph d))"
    and "contiguous b h ps \<Longrightarrow> board_is_empty b \<or> check_adjacency b ps m \<Longrightarrow> words_of b m h ps \<noteq> [] \<Longrightarrow>
      no_split b m (words_of b m h ps) \<Longrightarrow>
      validate_words chk b ps m h skip =
        Some (if skip \<or> fst (chk (map fw_word (words_of b m h ps))) then Inr (words_of b m h ps)
              else Inl (InvalidWords (snd (chk (map fw_word (words_of b m h ps))))))"
proof -
  let ?lo = "Min (moving_of h ` set ps)" and ?hi = "Max (moving_of h ` set ps)"
  obtain s e where se: "find_word_bounds b (fixed_of h (hd ps)) ?lo ?hi h = (s, e)"
    by (cases "find_word_bounds b (fixed_of h (hd ps)) ?lo ?hi h")
  have ne: "finite (moving_of h ` set ps)" "moving_of h ` set ps \<noteq> {}" using ps by auto
  have cont: "check_continuity b (fixed_of h (hd ps)) s e h \<longleftrightarrow> contiguous b h ps"
    using se continuity_extended [OF Min_le_Max [OF ne], of "line_at b (fixed_of h (hd ps)) h"]
    unfolding check_continuity_iff contiguous_line [OF ps] find_word_bounds_def by auto
  have small': "\<forall>p\<in>set ps. moving_of h p < BOARD_SIZE" using small by (auto simp: moving_of_def)
  have formed: "contiguous b h ps \<Longrightarrow> collect_words b ps m h (fixed_of h (hd ps)) s e = Some (words_of b m h ps)"
    using collect_words_eq [OF ps _ occ small' se] .
  obtain d where d: "find_split_digraph b (words_of b m h ps) m = Some d" "d = None \<longleftrightarrow> no_split b m (words_of b m h ps)"
    using find_split_digraph_occupied [of "words_of b m h ps" b m] words_of_occupied [OF ps(1) occ] by blast
  note unf = validate_words_def get_main_bounds_aligned [OF ps] se cont prod.case
  show "\<not> contiguous b h ps \<Longrightarrow> validate_words chk b ps m h skip = Some (Inl NotContiguous)"
    by (simp add: unf)
  show "contiguous b h ps \<Longrightarrow> \<not> board_is_empty b \<Longrightarrow> \<not> check_adjacency b ps m \<Longrightarrow>
      validate_words chk b ps m h skip = Some (Inl NotConnected)"
    by (simp add: unf)
  show "contiguous b h ps \<Longrightarrow> board_is_empty b \<or> check_adjacency b ps m \<Longrightarrow> words_of b m h ps = [] \<Longrightarrow>
      validate_words chk b ps m h skip = Some (Inl NoWordFormed)"
    by (auto simp: unf formed)
  show "contiguous b h ps \<Longrightarrow> board_is_empty b \<or> check_adjacency b ps m \<Longrightarrow> words_of b m h ps \<noteq> [] \<Longrightarrow>
      \<not> no_split b m (words_of b m h ps) \<Longrightarrow> \<exists>d. validate_words chk b ps m h skip = Some (Inl (SplitDigraph d))"
    using d by (auto simp: unf formed)
  show "contiguous b h ps \<Longrightarrow> board_is_empty b \<or> check_adjacency b ps m \<Longrightarrow> words_of b m h ps \<noteq> [] \<Longrightarrow>
      no_split b m (words_of b m h ps) \<Longrightarrow>
      validate_words chk b ps m h skip =
        Some (if skip \<or> fst (chk (map fw_word (words_of b m h ps))) then Inr (words_of b m h ps)
              else Inl (InvalidWords (snd (chk (map fw_word (words_of b m h ps))))))"
    using d by (auto simp: unf formed split: prod.split)
qed

lemma adjacency_laid:
  assumes on: "\<forall>p\<in>set ps. on_board p \<and> \<not> occupied b (square_of p)"
  shows "check_adjacency (lay_tiles ps b) (squares_of ps) (mask_of (squares_of ps)) \<longleftrightarrow>
    (\<exists>p\<in>set (squares_of ps). touches b p)"
proof -
  have "\<not> mask_of (squares_of ps) (fst q) (snd q) \<and> occupied (lay_tiles ps b) q \<longleftrightarrow> occupied b q" for q
    using on by (auto simp: mask_of_def occupied_lay_tiles squares_of_def)
  moreover have "\<forall>q\<in>set (squares_of ps). fst q < BOARD_SIZE \<and> snd q < BOARD_SIZE"
    using on by (intro squares_of_small) blast
  ultimately show ?thesis
    unfolding touches_def by (simp add: check_adjacency_iff)
qed

lemma direction_single:
  assumes "on_board p" "\<not> occupied b (square_of p)"
  shows "snd (determine_direction_single (lay_tiles [p] b) (p_row p) (p_col p)) \<longleftrightarrow>
    board_is_empty b \<or> touches b (square_of p)"
proof -
  obtain r c where sq: "square_of p = (r, c)" by (cases "square_of p")
  then have rc: "p_row p = int r" "p_col p = int c" "r < BOARD_SIZE" "c < BOARD_SIZE"
    using assms(1) by (auto simp: square_of_def on_board_def)
  have laid: "occupied (lay_tiles [p] b) q \<longleftrightarrow> q = (r, c) \<or> occupied b q" for q
    by (auto simp: occupied_lay_tiles sq simp del: lay_tiles_Cons)
  have t: "touches b (r, c) \<longleftrightarrow> has_letter b (int r + 1) (int c) \<or> has_letter b (int r) (int c + 1)
      \<or> has_letter b (int r - 1) (int c) \<or> has_letter b (int r) (int c - 1)"
    using touches_iff [OF rc(3,4), of "\<lambda>_. True" b] by (simp add: touches_def)
  have "has_letter (lay_tiles [p] b) (int r + 1) (int c) = has_letter b (int r + 1) (int c)"
       "has_letter (lay_tiles [p] b) (int r) (int c + 1) = has_letter b (int r) (int c + 1)"
       "has_letter (lay_tiles [p] b) (int r - 1) (int c) = has_letter b (int r - 1) (int c)"
       "has_letter (lay_tiles [p] b) (int r) (int c - 1) = has_letter b (int r) (int c - 1)"
    unfolding has_letter_steps(1,2) has_letter_steps(3) [OF rc(3)] has_letter_steps(4) [OF rc(4)] laid by auto
  then show ?thesis
    unfolding determine_direction_single_def Let_def rc sq t
    by (auto simp del: lay_tiles_Cons)
qed

lemma legal_direction:
  assumes "ps \<noteq> []" and on: "\<forall>p\<in>set ps. on_board p \<and> \<not> occupied b (square_of p)"
    and "distinct (squares_of ps)"
  shows "(\<exists>h. aligned h (squares_of ps) \<and> contiguous (lay_tiles ps b) h (squares_of ps)) \<longleftrightarrow>
    aligned (main_direction b ps) (squares_of ps) \<and> contiguous (lay_tiles ps b) (main_direction b ps) (squares_of ps)"
proof (cases "length ps = 1")
  case True
  then have one: "length (squares_of ps) = 1" by (simp add: squares_of_def)
  have "\<forall>q\<in>set (squares_of ps). occupied (lay_tiles ps b) q"
    by (auto simp: occupied_lay_tiles squares_of_def)
  then show ?thesis using aligned_single [OF one] contiguous_single [OF one] by blast
next
  case False
  with assms(1) have "\<not> length (squares_of ps) \<le> 1" by (cases ps) (auto simp: squares_of_def)
  then have "\<not> (aligned True (squares_of ps) \<and> aligned False (squares_of ps))"
    using aligned_both assms(3) by blast
  then have "aligned h (squares_of ps) \<Longrightarrow> h = main_direction b ps" for h
    using False by (cases h) (auto simp: main_direction_def)
  then show ?thesis by blast
qed

lemma validate_placement_reduce:
  assumes ps: "ps \<noteq> []" and on: "\<forall>p\<in>set ps. on_board p \<and> \<not> occupied b (square_of p)"
    and dist: "distinct (squares_of ps)"
    and al: "\<exists>h. aligned h (squares_of ps)"
    and start: "if board_is_empty b then (CENTER, CENTER) \<in> set (squares_of ps) \<and> 2 \<le> length ps
        else length ps = 1 \<longrightarrow> touches b (square_of (hd ps))"
  shows "validate_placement chk b ps skip =
    validate_words chk (lay_tiles ps b) (squares_of ps) (mask_of (squares_of ps)) (main_direction b ps) skip"
proof -
  have vp: "validate_positions b ps = None"
    using on dist by (simp add: validate_positions_None squares_of_def)
  have ne: "squares_of ps \<noteq> []" using ps by (simp add: squares_of_def)
  have "aligned True (squares_of ps) \<or> aligned False (squares_of ps)" using al by (metis (full_types))
  then have va: "validate_alignment (squares_of ps) = Inr (aligned True (squares_of ps))"
    by (simp add: validate_alignment_Inr [OF ne])
  have first: "board_is_empty b \<Longrightarrow> validate_first_move ps (mask_of (squares_of ps)) = None"
    using start by (simp add: validate_first_move_def mask_of_def)
  show ?thesis
  proof (cases "length ps = 1")
    case True
    then obtain p where p: "ps = [p]" by (cases ps) auto
    have "snd (determine_direction_single (lay_tiles [p] b) (p_row p) (p_col p)) \<longleftrightarrow>
        board_is_empty b \<or> touches b (square_of p)"
      using direction_single on p by auto
    then have nb: "board_is_empty b \<or> snd (determine_direction_single (lay_tiles ps b) (p_row (hd ps)) (p_col (hd ps)))"
      using start p True by (auto split: if_splits)
    show ?thesis
      unfolding validate_placement_def
      using vp va first nb ps True
      by (auto simp: squares_of_def [symmetric] main_direction_def Let_def
          simp del: lay_tiles_Cons split: prod.splits)
  next
    case False
    then show ?thesis
      unfolding validate_placement_def
      using ps vp va first
      by (auto simp: squares_of_def [symmetric] main_direction_def Let_def)
  qed
qed

text \<open>Otherwise an earlier phase has reported its error.\<close>

lemma validate_placement_early:
  assumes "\<not> (ps \<noteq> [] \<and> (\<forall>p\<in>set ps. on_board p \<and> \<not> occupied b (square_of p)) \<and> distinct (squares_of ps)
    \<and> (\<exists>h. aligned h (squares_of ps))
    \<and> (if board_is_empty b then (CENTER, CENTER) \<in> set (squares_of ps) \<and> 2 \<le> length ps
        else length ps = 1 \<longrightarrow> touches b (square_of (hd ps))))"
  shows "\<exists>e. validate_placement chk b ps skip = Some (Inl e)"
proof (cases "ps = [] \<or> validate_positions b ps \<noteq> None")
  case True
  then show ?thesis by (auto simp: validate_placement_def)
next
  case False
  then have ps: "ps \<noteq> []" and on: "\<forall>p\<in>set ps. on_board p \<and> \<not> occupied b (square_of p)" and dist: "distinct (squares_of ps)"
    and vp: "validate_positions b ps = None"
    by (auto simp: validate_positions_None squares_of_def)
  have ne: "squares_of ps \<noteq> []" using ps by (simp add: squares_of_def)
  show ?thesis
  proof (cases "\<exists>h. aligned h (squares_of ps)")
    case no: False
    then have "validate_alignment (squares_of ps) = Inl NotAligned"
      by (simp add: validate_alignment_Inr [OF ne])
    then show ?thesis using ps vp by (simp add: validate_placement_def squares_of_def [symmetric] Let_def)
  next
    case True
    then have "aligned True (squares_of ps) \<or> aligned False (squares_of ps)" by (metis (full_types))
    then have va: "validate_alignment (squares_of ps) = Inr (aligned True (squares_of ps))"
      by (simp add: validate_alignment_Inr [OF ne])
    show ?thesis
    proof (cases "board_is_empty b")
      case empty: True
      with assms ps on dist True have "\<exists>e. validate_first_move ps (mask_of (squares_of ps)) = Some e"
        by (auto simp: validate_first_move_def mask_of_def)
      then show ?thesis using ps vp va empty
        by (auto simp: validate_placement_def squares_of_def [symmetric] Let_def)
    next
      case notempty: False
      with assms ps on dist True have len: "length ps = 1" and nt: "\<not> touches b (square_of (hd ps))" by auto
      then obtain p where p: "ps = [p]" by (cases ps) auto
      have "\<not> snd (determine_direction_single (lay_tiles ps b) (p_row (hd ps)) (p_col (hd ps)))"
        using direction_single [of p b] on p nt notempty by simp
      then show ?thesis using len ps vp va notempty
        by (auto simp: validate_placement_def squares_of_def [symmetric] Let_def simp del: lay_tiles_Cons split: prod.splits)
    qed
  qed
qed

lemma validate_placement_verdict:
  "(legal_geometry b ps \<longrightarrow>
      placement_words b ps \<noteq> [] \<and>
      (if no_split (lay_tiles ps b) (mask_of (squares_of ps)) (placement_words b ps) then
        validate_placement chk b ps skip =
         Some (if skip \<or> fst (chk (map fw_word (placement_words b ps))) then Inr (placement_words b ps)
               else Inl (InvalidWords (snd (chk (map fw_word (placement_words b ps))))))
       else \<exists>d. validate_placement chk b ps skip = Some (Inl (SplitDigraph d)))) \<and>
   (\<not> legal_geometry b ps \<longrightarrow> (\<exists>e. validate_placement chk b ps skip = Some (Inl e)))"
proof (cases "ps \<noteq> [] \<and> (\<forall>p\<in>set ps. on_board p \<and> \<not> occupied b (square_of p)) \<and> distinct (squares_of ps)
    \<and> (\<exists>h. aligned h (squares_of ps))
    \<and> (if board_is_empty b then (CENTER, CENTER) \<in> set (squares_of ps) \<and> 2 \<le> length ps
        else length ps = 1 \<longrightarrow> touches b (square_of (hd ps)))")
  case False
  have "\<not> legal_geometry b ps"
  proof
    assume l: "legal_geometry b ps"
    moreover have "length ps = 1 \<longrightarrow> (\<exists>p\<in>set (squares_of ps). touches b p) \<longrightarrow> touches b (square_of (hd ps))"
      by (cases ps) (auto simp: squares_of_def)
    ultimately show False using False unfolding legal_geometry_def by (cases "board_is_empty b") auto
  qed
  with validate_placement_early [OF False] show ?thesis by blast
next
  case True
  then have ps: "ps \<noteq> []" and on: "\<forall>p\<in>set ps. on_board p \<and> \<not> occupied b (square_of p)"
    and dist: "distinct (squares_of ps)" and al: "\<exists>h. aligned h (squares_of ps)"
    and start: "if board_is_empty b then (CENTER, CENTER) \<in> set (squares_of ps) \<and> 2 \<le> length ps
        else length ps = 1 \<longrightarrow> touches b (square_of (hd ps))" by blast+
  let ?T = "lay_tiles ps b" and ?S = "squares_of ps" and ?m = "mask_of (squares_of ps)" and ?d = "main_direction b ps"
  have ne: "?S \<noteq> []" using ps by (simp add: squares_of_def)
  have occ: "\<forall>q\<in>set ?S. occupied ?T q" by (auto simp: occupied_lay_tiles squares_of_def)
  have small: "\<forall>q\<in>set ?S. fst q < BOARD_SIZE \<and> snd q < BOARD_SIZE" using on squares_of_small by blast
  have dir: "aligned ?d ?S"
  proof (cases "length ps = 1")
    case True
    then show ?thesis by (intro aligned_single) (simp add: squares_of_def)
  next
    case False
    with al show ?thesis by (cases "aligned True ?S") (auto simp: main_direction_def, metis (full_types))
  qed
  note red = validate_placement_reduce [OF ps on dist al start]
  note eqs = validate_words_eq [OF ne dir occ small]
  have legal: "legal_geometry b ps \<longleftrightarrow> contiguous ?T ?d ?S \<and> (board_is_empty b \<or> (\<exists>p\<in>set ?S. touches b p))"
    unfolding legal_geometry_def legal_direction [OF ps on dist] using ps on dist dir start by auto
  show ?thesis
  proof (cases "legal_geometry b ps")
    case True
    then have c: "contiguous ?T ?d ?S" and adj: "board_is_empty ?T \<or> check_adjacency ?T ?S ?m"
      using legal adjacency_laid [OF on] by auto
    have "2 \<le> length ?S \<and> distinct ?S \<or> (\<exists>p\<in>set ?S. touches ?T p)"
    proof (cases "board_is_empty b")
      case True
      with start dist show ?thesis by (simp add: squares_of_def)
    next
      case False
      with True legal have "\<exists>p\<in>set ?S. touches b p" by blast
      then show ?thesis unfolding touches_def occupied_lay_tiles by blast
    qed
    from words_of_nonempty [OF ne occ dir c small this]
    have w: "placement_words b ps \<noteq> []" by (simp add: placement_words_def)
    show ?thesis using True w eqs(4) [OF c adj] eqs(5) [OF c adj] unfolding red placement_words_def by auto
  next
    case False
    have adj: "check_adjacency ?T ?S ?m \<longleftrightarrow> (\<exists>p\<in>set ?S. touches b p)" by (rule adjacency_laid [OF on])
    have "\<exists>e. validate_words chk ?T ?S ?m ?d skip = Some (Inl e)"
    proof (cases "contiguous ?T ?d ?S")
      case True
      with False legal adj have "\<not> board_is_empty ?T" "\<not> check_adjacency ?T ?S ?m" by auto
      then show ?thesis using eqs(2) True by blast
    next
      case no: False
      then show ?thesis using eqs(1) by blast
    qed
    with False show ?thesis unfolding red by blast
  qed
qed

section \<open>The formed words are the maximal runs through the new squares\<close>

lemma words_of_positions:
  assumes "ps \<noteq> []" "aligned h ps" "contiguous b h ps"
    and "\<forall>p\<in>set ps. fst p < BOARD_SIZE \<and> snd p < BOARD_SIZE"
  shows "fw_positions ` set (words_of b m h ps) = {run b h' p | h' p. p \<in> set ps \<and> 1 < length (run b h' p)}"
proof -
  have small: "\<forall>p\<in>set ps. moving_of h p < BOARD_SIZE" using assms(4) by (auto simp: moving_of_def)
  have main: "run b h p = run b h (hd ps)" if "p \<in> set ps" for p
    using run_same [OF assms(1-3) small that hd_in_set [OF assms(1)]] .
  have words: "fw_positions ` set (run_word b m h' p) = (if 1 < length (run b h' p) then {run b h' p} else {})" for h' p
    by (simp add: run_word_def)
  have "fw_positions ` set (words_of b m h ps) =
      fw_positions ` set (run_word b m h (hd ps)) \<union> (\<Union>p\<in>set ps. fw_positions ` set (run_word b m (\<not> h) p))"
    by (auto simp: words_of_def)
  also have "fw_positions ` set (run_word b m h (hd ps)) = (\<Union>p\<in>set ps. fw_positions ` set (run_word b m h p))"
  proof (rule UN_constant_eq [OF hd_in_set [OF assms(1)], symmetric], rule ballI)
    fix p assume "p \<in> set ps"
    then have "run b h p = run b h (hd ps)" by (rule main)
    then show "fw_positions ` set (run_word b m h p) = fw_positions ` set (run_word b m h (hd ps))"
      by (simp only: words)
  qed
  finally have "fw_positions ` set (words_of b m h ps) =
      (\<Union>p\<in>set ps. fw_positions ` set (run_word b m h p)) \<union> (\<Union>p\<in>set ps. fw_positions ` set (run_word b m (\<not> h) p))" .
  also have "\<dots> = {run b h' p | h' p. p \<in> set ps \<and> 1 < length (run b h' p)}"
  proof (rule set_eqI)
    fix rs
    have both: "(\<exists>h'. P h') \<longleftrightarrow> P h \<or> P (\<not> h)" for P :: "bool \<Rightarrow> bool"
      by (cases h) (auto simp: ex_bool_eq)
    have "rs \<in> {run b h' p | h' p. p \<in> set ps \<and> 1 < length (run b h' p)} \<longleftrightarrow>
        (\<exists>h'. \<exists>p\<in>set ps. rs = run b h' p \<and> 1 < length (run b h' p))" by blast
    also have "\<dots> \<longleftrightarrow> (\<exists>p\<in>set ps. rs = run b h p \<and> 1 < length (run b h p))
        \<or> (\<exists>p\<in>set ps. rs = run b (\<not> h) p \<and> 1 < length (run b (\<not> h) p))" by (rule both)
    finally show "rs \<in> (\<Union>p\<in>set ps. fw_positions ` set (run_word b m h p))
          \<union> (\<Union>p\<in>set ps. fw_positions ` set (run_word b m (\<not> h) p)) \<longleftrightarrow>
        rs \<in> {run b h' p | h' p. p \<in> set ps \<and> 1 < length (run b h' p)}"
      unfolding words by (simp only: Un_iff UN_iff) (auto split: if_splits)
  qed
  finally show ?thesis .
qed

lemma words_of_ref:
  "w \<in> set (words_of b m h ps) \<Longrightarrow> w = ref_word b m (fw_positions w)"
  by (auto simp: words_of_def run_word_def split: if_splits)

lemma legal_placement_facts:
  assumes "legal_geometry b ps"
  shows "squares_of ps \<noteq> []" "aligned (main_direction b ps) (squares_of ps)"
    "contiguous (lay_tiles ps b) (main_direction b ps) (squares_of ps)"
    "\<forall>p\<in>set (squares_of ps). fst p < BOARD_SIZE \<and> snd p < BOARD_SIZE"
  using assms legal_direction [of ps b] squares_of_small [of ps]
  unfolding legal_geometry_def by (auto simp: squares_of_def)

section \<open>Well-formed boards and their snapshots\<close>

definition board_ok :: "board \<Rightarrow> bool" where
  "board_ok b \<longleftrightarrow>
     (\<forall>r c. cells b r c \<noteq> None \<longrightarrow> r < BOARD_SIZE \<and> c < BOARD_SIZE)
     \<and> (\<forall>r c x. cells b r c = Some x \<longrightarrow> tile_ok (cell_letter x))
     \<and> (board_is_empty b \<longleftrightarrow> (\<forall>r c. cells b r c = None))"

lemma board_ok_new: "board_ok board_new"
  by (simp add: board_ok_def board_new_def)

lemma cells_apply_placement: "cells (apply_placement ps b) = cells (lay_tiles ps b)"
  by (simp add: apply_placement_def)

lemma board_ok_apply:
  assumes "board_ok b" "ps \<noteq> []" "\<forall>p\<in>set ps. on_board p" "\<forall>p\<in>set ps. tile_ok (p_letter p)"
  shows "board_ok (apply_placement ps b)"
proof -
  have small: "\<forall>q\<in>square_of ` set ps. fst q < BOARD_SIZE \<and> snd q < BOARD_SIZE"
    using squares_of_small [OF assms(3)] by (simp add: squares_of_def)
  have cell: "(r, c) \<in> square_of ` set ps \<and> (\<exists>p\<in>set ps. cells (lay_tiles ps b) r c = Some (Cell (p_letter p) (p_blank p)))
      \<or> cells (lay_tiles ps b) r c = cells b r c" for r c
    using cells_lay_tiles_in [of r c ps b] cells_lay_tiles_other [of r c ps b] by blast
  obtain p where "p \<in> set ps" using assms(2) by (cases ps) auto
  then have "occupied (lay_tiles ps b) (square_of p)" by (auto simp: occupied_lay_tiles)
  then have ne: "\<not> (\<forall>r c. cells (lay_tiles ps b) r c = None)" by (auto simp: occupied_def)
  have range: "r < BOARD_SIZE \<and> c < BOARD_SIZE" if "cells (lay_tiles ps b) r c \<noteq> None" for r c
    using cell [of r c]
  proof
    assume "(r, c) \<in> square_of ` set ps \<and> (\<exists>p\<in>set ps. cells (lay_tiles ps b) r c = Some (Cell (p_letter p) (p_blank p)))"
    with small have "fst (r, c) < BOARD_SIZE \<and> snd (r, c) < BOARD_SIZE" by blast
    then show ?thesis by simp
  next
    assume "cells (lay_tiles ps b) r c = cells b r c"
    with that assms(1) show ?thesis unfolding board_ok_def by metis
  qed
  have tiles: "tile_ok (cell_letter x)" if "cells (lay_tiles ps b) r c = Some x" for r c x
    using cell [of r c] that assms(1,4) unfolding board_ok_def by (metis cell.sel(1) option.inject)
  show ?thesis
    using ne range tiles by (auto simp: board_ok_def apply_placement_def)
qed

lemma cell_json_roundtrip:
  "(case x of Some c \<Rightarrow> tile_ok (cell_letter c) | None \<Rightarrow> True) \<Longrightarrow> cell_from_json (cell_to_json x) = x"
  by (cases x) (auto simp: cell_from_json_def cell_to_json_def from_str_iff [THEN iffD2])

lemma load_row_cells:
  assumes "\<forall>c<m. cell_from_json (g c) = f c"
  shows "cells (fold (load_cell r) (map (\<lambda>c. (c, g c)) [0..<m]) b) r' c' =
      (if r' = r \<and> c' < m \<and> f c' \<noteq> None then f c' else cells b r' c')"
    and "board_is_empty (fold (load_cell r) (map (\<lambda>c. (c, g c)) [0..<m]) b) \<longleftrightarrow>
      board_is_empty b \<and> (\<forall>c<m. f c = None)"
proof -
  have "(\<forall>r' c'. cells (fold (load_cell r) (map (\<lambda>c. (c, g c)) [0..<m]) b) r' c' =
      (if r' = r \<and> c' < m \<and> f c' \<noteq> None then f c' else cells b r' c')) \<and>
    (board_is_empty (fold (load_cell r) (map (\<lambda>c. (c, g c)) [0..<m]) b) \<longleftrightarrow>
      board_is_empty b \<and> (\<forall>c<m. f c = None))"
    using assms
  proof (induction m)
    case (Suc m)
    then show ?case
      by (auto simp: load_cell_def cells_put_cell less_Suc_eq split: option.splits)
  qed simp
  then show "cells (fold (load_cell r) (map (\<lambda>c. (c, g c)) [0..<m]) b) r' c' =
      (if r' = r \<and> c' < m \<and> f c' \<noteq> None then f c' else cells b r' c')"
    and "board_is_empty (fold (load_cell r) (map (\<lambda>c. (c, g c)) [0..<m]) b) \<longleftrightarrow>
      board_is_empty b \<and> (\<forall>c<m. f c = None)"
    by blast+
qed

lemma load_rows_cells:
  assumes "\<forall>r c. cell_from_json (cell_to_json (f r c)) = f r c"
  shows "(\<forall>r' c'. cells (fold load_row (map (\<lambda>r. (r, JArr (map (\<lambda>c. cell_to_json (f r c)) [0..<15]))) [0..<n]) b) r' c' =
      (if r' < n \<and> c' < 15 \<and> f r' c' \<noteq> None then f r' c' else cells b r' c')) \<and>
    (board_is_empty (fold load_row (map (\<lambda>r. (r, JArr (map (\<lambda>c. cell_to_json (f r c)) [0..<15]))) [0..<n]) b) \<longleftrightarrow>
      board_is_empty b \<and> (\<forall>r<n. \<forall>c<15. f r c = None))"
proof (induction n)
  case (Suc n)
  have take15: "take BOARD_SIZE (map (\<lambda>c. cell_to_json (f r c)) [0..<15]) = map (\<lambda>c. cell_to_json (f r c)) [0..<15]" for r
    by (simp add: BOARD_SIZE_def del: upt.simps)
  have row: "load_row (r, JArr (map (\<lambda>c. cell_to_json (f r c)) [0..<15])) b =
      fold (load_cell r) (map (\<lambda>c. (c, cell_to_json (f r c))) [0..<15]) b" for r b
    by (simp add: load_row_def take15 enumerate_map_upt del: upt.simps)
  have cf: "\<forall>c<15. cell_from_json (cell_to_json (f n c)) = f n c" using assms by blast
  let ?b = "fold load_row (map (\<lambda>r. (r, JArr (map (\<lambda>c. cell_to_json (f r c)) [0..<15]))) [0..<n]) b"
  have step: "fold load_row (map (\<lambda>r. (r, JArr (map (\<lambda>c. cell_to_json (f r c)) [0..<15]))) [0..<Suc n]) b =
      fold (load_cell n) (map (\<lambda>c. (c, cell_to_json (f n c))) [0..<15]) ?b"
    unfolding upt_Suc_append [OF le0] map_append fold_append o_apply list.map fold_simps row by simp
  show ?case
    unfolding step load_row_cells [OF cf] using Suc.IH by (auto simp: less_Suc_eq)
qed simp

lemma board_json_roundtrip:
  assumes "board_ok b"
  shows "board_from_json (board_to_json b) = b"
proof -
  have cf: "\<forall>r c. cell_from_json (cell_to_json (cells b r c)) = cells b r c"
  proof (intro allI cell_json_roundtrip)
    fix r c show "case cells b r c of Some c \<Rightarrow> tile_ok (cell_letter c) | None \<Rightarrow> True"
      using assms by (auto simp: board_ok_def split: option.split)
  qed
  define rows where "rows = map (\<lambda>r. JArr (map (\<lambda>c. cell_to_json (cells b r c)) [0..<15])) [0..<15]"
  have "board_to_json b = JArr rows" by (simp add: board_to_json_def rows_def BOARD_SIZE_def del: upt.simps)
  moreover have "take BOARD_SIZE rows = rows" by (simp add: rows_def BOARD_SIZE_def del: upt.simps)
  ultimately have eq: "board_from_json (board_to_json b) =
      fold load_row (map (\<lambda>r. (r, JArr (map (\<lambda>c. cell_to_json (cells b r c)) [0..<15]))) [0..<15]) board_new"
    by (simp add: board_from_json_def rows_def enumerate_map_upt del: upt.simps)
  have out: "cells b r c = None" if "\<not> (r < 15 \<and> c < 15)" for r c
    using assms that by (auto simp: board_ok_def BOARD_SIZE_def)
  have flag: "board_is_empty b \<longleftrightarrow> (\<forall>r c. cells b r c = None)" using assms by (simp add: board_ok_def)
  note load = load_rows_cells [OF cf, of 15 board_new]
  have "cells (board_from_json (board_to_json b)) r c = cells b r c" for r c
    unfolding eq load [THEN conjunct1, rule_format] using out [of r c] by (auto simp: board_new_def)
  then have "cells (board_from_json (board_to_json b)) = cells b" by blast
  moreover have "board_is_empty (board_from_json (board_to_json b)) = board_is_empty b"
  proof -
    have "(\<forall>r<15. \<forall>c<15. cells b r c = None) \<longleftrightarrow> (\<forall>r c. cells b r c = None)" using out by metis
    then show ?thesis unfolding eq load [THEN conjunct2] flag by (simp add: board_new_def)
  qed
  ultimately show ?thesis by simp
qed

section \<open>The premium layout\<close>

text \<open>The table the initialisation computes, square by square.\<close>

lemma premium_map_eq:
  "premium_map =
    [[Tw, PNone, PNone, Dl, PNone, PNone, PNone, Tw, PNone, PNone, PNone, Dl, PNone, PNone, Tw],
     [PNone, Dw, PNone, PNone, PNone, Tl, PNone, PNone, PNone, Tl, PNone, PNone, PNone, Dw, PNone],
     [PNone, PNone, Dw, PNone, PNone, PNone, Dl, PNone, Dl, PNone, PNone, PNone, Dw, PNone, PNone],
     [Dl, PNone, PNone, Dw, PNone, PNone, PNone, Dl, PNone, PNone, PNone, Dw, PNone, PNone, Dl],
     [PNone, PNone, PNone, PNone, Dw, PNone, PNone, PNone, PNone, PNone, Dw, PNone, PNone, PNone, PNone],
     [PNone, Tl, PNone, PNone, PNone, Tl, PNone, PNone, PNone, Tl, PNone, PNone, PNone, Tl, PNone],
     [PNone, PNone, Dl, PNone, PNone, PNone, Dl, PNone, Dl, PNone, PNone, PNone, Dl, PNone, PNone],
     [Tw, PNone, PNone, Dl, PNone, PNone, PNone, Star, PNone, PNone, PNone, Dl, PNone, PNone, Tw],
     [PNone, PNone, Dl, PNone, PNone, PNone, Dl, PNone, Dl, PNone, PNone, PNone, Dl, PNone, PNone],
     [PNone, Tl, PNone, PNone, PNone, Tl, PNone, PNone, PNone, Tl, PNone, PNone, PNone, Tl, PNone],
     [PNone, PNone, PNone, PNone, Dw, PNone, PNone, PNone, PNone, PNone, Dw, PNone, PNone, PNone, PNone],
     [Dl, PNone, PNone, Dw, PNone, PNone, PNone, Dl, PNone, PNone, PNone, Dw, PNone, PNone, Dl],
     [PNone, PNone, Dw, PNone, PNone, PNone, Dl, PNone, Dl, PNone, PNone, PNone, Dw, PNone, PNone],
     [PNone, Dw, PNone, PNone, PNone, Tl, PNone, PNone, PNone, Tl, PNone, PNone, PNone, Dw, PNone],
     [Tw, PNone, PNone, Dl, PNone, PNone, PNone, Tw, PNone, PNone, PNone, Dl, PNone, PNone, Tw]]"
  by (simp add: premium_map_def PREMIUM_QUARTER_def eval_nat_numeral)

lemma premium_map_palindrome: "rev premium_map = premium_map" "\<forall>row\<in>set premium_map. rev row = row \<and> length row = 15"
  by (simp_all add: premium_map_eq)

lemma length_premium_map: "length premium_map = 15"
  by (simp add: premium_map_eq)

lemma palindrome_nth: "rev xs = xs \<Longrightarrow> i < length xs \<Longrightarrow> xs ! (length xs - Suc i) = xs ! i"
  by (metis rev_nth)

lemma premium_symmetric:
  assumes "r < BOARD_SIZE" "c < BOARD_SIZE"
  shows "premium_at (14 - r) c = premium_at r c" "premium_at r (14 - c) = premium_at r c"
proof -
  have r: "r < length premium_map" using assms by (simp add: length_premium_map BOARD_SIZE_def)
  from palindrome_nth [OF premium_map_palindrome(1) r] have "premium_map ! (14 - r) = premium_map ! r"
    by (simp add: length_premium_map)
  moreover have "rev (premium_map ! r) = premium_map ! r" "length (premium_map ! r) = 15"
    using premium_map_palindrome(2) nth_mem [OF r] by blast+
  then have "premium_map ! r ! (14 - c) = premium_map ! r ! c"
    using palindrome_nth [of "premium_map ! r" c] assms by (simp add: BOARD_SIZE_def)
  ultimately show "premium_at (14 - r) c = premium_at r c" "premium_at r (14 - c) = premium_at r c"
    using assms by (auto simp: premium_at_def BOARD_SIZE_def)
qed

interpretation board_codec: json_codec board_to_json board_from_json board_ok
  by unfold_locales (rule board_json_roundtrip)

end
