(* ===== verification/GameState.thy ===== *)
theory GameState
  imports Challenge BoardProps "HOL-Library.Product_Lexorder"
begin

text \<open>
  The state of \<^verbatim>\<open>src/src/engine/game.rs\<close> and the operations that seat the players, hand out
  hints and bots, start the game and pass the turn on. The clock (\<^verbatim>\<open>util::now\<close>), the shuffle and
  the dictionary are the fields of an \<open>env\<close>, the argument of every operation that uses them.
\<close>

section \<open>The state\<close>

record env =
  shuffle_fn :: "tile list \<Rightarrow> tile list"
  now_secs :: real
  check_fn :: word_checker

definition HAND_SIZE :: nat where "HAND_SIZE = 7"
definition BONUS_ALL_TILES :: nat where "BONUS_ALL_TILES = 50"
definition SCORELESS_TURNS_LIMIT :: nat where "SCORELESS_TURNS_LIMIT = 6"
definition MAX_TIMEOUTS :: nat where "MAX_TIMEOUTS = 3"
definition ALLOWED_HINT_LIMITS :: "int list" where "ALLOWED_HINT_LIMITS = [0, 1, 3, 5, 10]"
definition DEFAULT_HINT_LIMIT :: int where "DEFAULT_HINT_LIMIT = 3"

datatype vote_result = Recorded | Accepted | Rejected

fun vote_result_as_str :: "vote_result \<Rightarrow> str" where
  "vote_result_as_str Recorded = ascii ''vote_recorded''"
| "vote_result_as_str Accepted = ascii ''vote_accepted''"
| "vote_result_as_str Rejected = ascii ''vote_rejected''"

record move_log_entry =
  move_number :: int
  ml_player :: str
  action_type :: str
  details :: json
  ml_board :: board

text \<open>\<^verbatim>\<open>MoveLog::from_stored\<close>; the argument \<open>parse\<close> is \<^verbatim>\<open>serde_json::from_str\<close>.\<close>

definition move_log_from_stored ::
  "(str \<Rightarrow> json option) \<Rightarrow> int \<Rightarrow> str \<Rightarrow> str \<Rightarrow> str option \<Rightarrow> str option \<Rightarrow> move_log_entry" where
  "move_log_from_stored parse num pname action details_json snapshot_json =
     \<lparr>move_number = num, ml_player = pname, action_type = action,
      details = (case details_json \<bind> parse of
                   Some v \<Rightarrow> (case as_object v of Some _ \<Rightarrow> v | None \<Rightarrow> JObj [])
                 | None \<Rightarrow> JObj []),
      ml_board = (case snapshot_json \<bind> parse of Some v \<Rightarrow> board_from_json v | None \<Rightarrow> board_new)\<rparr>"

definition entry_score :: "move_log_entry \<Rightarrow> int" where
  "entry_score m =
     (case jget (details m) (ascii ''score'') \<bind> as_i64 of Some n \<Rightarrow> n | None \<Rightarrow> 0)"

record puzzle =
  puzzle_date :: str
  puzzle_score :: "int option"

record game =
  game_id :: str
  players :: "player list"
  board :: board
  bag :: tile_bag
  current_player_idx :: nat
  started :: bool
  finished :: bool
  winners :: "player list"
  puzzle :: "puzzle option"
  async_mode :: bool
  turn_hours :: int
  turn_deadline :: "real option"
  scoreless_turns :: nat
  turn_number :: int
  last_action :: "str option"
  challenge_mode :: bool
  turn_time_limit :: int
  hint_limit :: int
  hints_used :: int
  pending_challenge :: "challenge option"
  move_log :: "move_log_entry list"
  last_action_info :: "json option"
  rejected_placements :: "placed list set"
  bot_seq :: nat

text \<open>The derived order of \<^verbatim>\<open>Placed\<close>: row, column, letter, blank flag.\<close>

instantiation tile :: linorder
begin
definition less_eq_tile :: "tile \<Rightarrow> tile \<Rightarrow> bool" where
  "less_eq_tile s t \<longleftrightarrow> tile_index s \<le> tile_index t"
definition less_tile :: "tile \<Rightarrow> tile \<Rightarrow> bool" where
  "less_tile s t \<longleftrightarrow> tile_index s < tile_index t"
instance by standard (auto simp: less_eq_tile_def less_tile_def intro: tile.expand)
end

definition placed_tuple :: "placed \<Rightarrow> int \<times> int \<times> tile \<times> bool" where
  "placed_tuple p = (p_row p, p_col p, p_letter p, p_blank p)"

lemma placed_tuple_inj: "placed_tuple p = placed_tuple q \<Longrightarrow> p = q"
  by (cases p; cases q) (simp add: placed_tuple_def)

instantiation placed :: linorder
begin
definition less_eq_placed :: "placed \<Rightarrow> placed \<Rightarrow> bool" where
  "less_eq_placed p q \<longleftrightarrow> placed_tuple p \<le> placed_tuple q"
definition less_placed :: "placed \<Rightarrow> placed \<Rightarrow> bool" where
  "less_placed p q \<longleftrightarrow> placed_tuple p < placed_tuple q"
instance
  by standard (auto simp: less_eq_placed_def less_placed_def less_le_not_le intro: placed_tuple_inj)
end

definition placement_key :: "placed list \<Rightarrow> placed list" where
  "placement_key ps = sort ps"

lemma placement_key_eq_iff: "placement_key ps = placement_key qs \<longleftrightarrow> mset ps = mset qs"
  by (metis mset_sort placement_key_def properties_for_sort sorted_sort)

section \<open>Errors\<close>

datatype game_error =
    AlreadyJoined | MaxFourPlayers | AlreadyStarted | NeedOnePlayer | NoBlankTile
  | NoLetterTile str | GameOver | WaitForChallenge | NotYourTurn | PlacementError place_error
  | NoPending | OwnAccept | OwnReject | MayNotVote | AlreadyVoted | NotParticipant
  | OnlyPlacer | VotesCast | PuzzleNoExchange | BagTooSmall | BagTooSmallForCount
  | SelectOne | DuplicateIndex | InvalidIndex | PuzzleNoPass | NotStarted
  | MissingGameId | MissingPlayerId | MissingPlayerName

text \<open>The messages of the code, in the spelling of \<open>hu\<close>.\<close>

definition quoted :: "str \<Rightarrow> str" where
  "quoted s = [39] @ s @ [39]"

fun place_error_text :: "place_error \<Rightarrow> str" where
  "place_error_text (OutOfBoard r c) =
     ascii ''A ('' @ show_int r @ ascii '','' @ show_int c @ hu '') poz~ici~o a t~abl~an k~iv^ul van.''"
| "place_error_text (Occupied r c) =
     ascii ''A ('' @ show_int r @ ascii '','' @ show_int c @ hu '') mez&o m~ar foglalt.''"
| "place_error_text (DuplicateSquare r c) =
     ascii ''A ('' @ show_int r @ ascii '','' @ show_int c @ hu '') mez&ore t^obb zseton ker^ult.''"
| "place_error_text NotAligned = hu ''A bet&uknek egy sorban vagy egy oszlopban kell lenni^uk.''"
| "place_error_text CenterNotCovered =
     hu ''Az els&o sz~onak a k^oz~eps&o mez&ot (csillagot) kell fednie.''"
| "place_error_text FirstWordTooShort = hu ''Az els&o sz~onak legal~abb 2 bet&ub&ol kell ~allnia.''"
| "place_error_text NotContiguous = hu ''A bet&uknek folytonos sort kell alkotniuk.''"
| "place_error_text NotConnected = hu ''A sz~onak csatlakoznia kell megl~ev&o bet&ukh^oz.''"
| "place_error_text NoWordFormed = hu ''Legal~abb egy sz~ot kell alkotni.''"
| "place_error_text (SplitDigraph d) =
     hu ''K~etjegy&u bet&u ('' @ d @ hu '') csak a saj~at zsetonj~aval rakhat~o ki, '' @ take 1 d
       @ ascii '' + '' @ take 1 (drop 1 d) @ hu '' k^ul^on zsetonnal nem.''"
| "place_error_text (InvalidWords ws) = hu ''~Erv~enytelen sz~o(k): '' @ join (ascii '', '') ws"
| "place_error_text NoTiles = hu ''Legal~abb egy zsetont le kell rakni.''"
| "place_error_text TileNotConnected = hu ''A bet&unek csatlakoznia kell megl~ev&o sz~ohoz.''"

fun game_error_text :: "game_error \<Rightarrow> str" where
  "game_error_text AlreadyJoined = hu ''Ez a j~at~ekos m~ar csatlakozott.''"
| "game_error_text MaxFourPlayers = hu ''Maximum 4 j~at~ekos lehet.''"
| "game_error_text AlreadyStarted = hu ''A j~at~ek m~ar elkezd&od^ott.''"
| "game_error_text NeedOnePlayer = hu ''Legal~abb 1 j~at~ekos kell.''"
| "game_error_text NoBlankTile = hu ''Nincs ^ures zsetonod.''"
| "game_error_text (NoLetterTile l) = ascii ''Nincs '' @ quoted l @ hu '' bet&ud.''"
| "game_error_text GameOver = hu ''A j~at~ek v~eget ~ert.''"
| "game_error_text WaitForChallenge = hu ''V~arj a megt~amad~asi f~azis v~eg~eig.''"
| "game_error_text NotYourTurn = hu ''Nem te k^ovetkezel.''"
| "game_error_text (PlacementError err) = place_error_text err"
| "game_error_text NoPending = hu ''Nincs f^ugg&o lerak~as.''"
| "game_error_text OwnAccept = hu ''Saj~at lerak~asodat nem fogadhatod el.''"
| "game_error_text OwnReject = hu ''Saj~at lerak~asodat nem utas~ithatod el.''"
| "game_error_text MayNotVote = hu ''Nem szavazhatsz.''"
| "game_error_text AlreadyVoted = hu ''M~ar szavazt~al.''"
| "game_error_text NotParticipant = hu ''Nem vagy a j~at~ek r~esztvev&oje.''"
| "game_error_text OnlyPlacer = hu ''Csak a lerak~o vonhatja vissza a lerak~as~at.''"
| "game_error_text VotesCast = hu ''M~ar szavaztak, a lerak~as m~ar nem vonhat~o vissza.''"
| "game_error_text PuzzleNoExchange = hu ''A napi feladv~anyban nem lehet cser~elni.''"
| "game_error_text BagTooSmall = hu ''Nincs el~eg zseton a zs~akban a cser~ehez (minimum 7 kell).''"
| "game_error_text BagTooSmallForCount = hu ''Nincs el~eg zseton a zs~akban a cser~ehez.''"
| "game_error_text SelectOne = hu ''Legal~abb egy zsetont ki kell v~alasztani.''"
| "game_error_text DuplicateIndex = hu ''Duplik~alt zseton index.''"
| "game_error_text InvalidIndex = hu ''~Erv~enytelen zseton index.''"
| "game_error_text PuzzleNoPass = hu ''A napi feladv~anyban nem lehet passzolni.''"
| "game_error_text NotStarted = hu ''A j~at~ek m~eg nem indult el.''"
| "game_error_text MissingGameId = hu ''hi~anyz~o j~at~ekazonos~it~o''"
| "game_error_text MissingPlayerId = hu ''hi~anyz~o j~at~ekosazonos~it~o''"
| "game_error_text MissingPlayerName = hu ''hi~anyz~o j~at~ekosn~ev''"

section \<open>Updating one player, the last action\<close>

definition upd_player :: "nat \<Rightarrow> (player \<Rightarrow> player) \<Rightarrow> game \<Rightarrow> game" where
  "upd_player i f g = g\<lparr>players := (players g)[i := f (players g ! i)]\<rparr>"

definition set_last_action :: "str \<Rightarrow> json \<Rightarrow> game \<Rightarrow> game" where
  "set_last_action txt info g =
     g\<lparr>last_action := Some txt,
       last_action_info := (case info of JObj [] \<Rightarrow> None | JNull \<Rightarrow> None | _ \<Rightarrow> Some info)\<rparr>"

section \<open>Seats, bots and hints\<close>

definition game_new :: "env \<Rightarrow> str \<Rightarrow> bool \<Rightarrow> int \<Rightarrow> int \<Rightarrow> game" where
  "game_new e gid chal limit hints =
     \<lparr>game_id = gid, players = [], board = board_new, bag = bag_new (shuffle_fn e),
      current_player_idx = 0, started = False, finished = False, winners = [], puzzle = None,
      async_mode = False, turn_hours = 0, turn_deadline = None, scoreless_turns = 0,
      turn_number = 0, last_action = None, challenge_mode = chal, turn_time_limit = limit,
      hint_limit = (if hints \<in> set ALLOWED_HINT_LIMITS then hints else DEFAULT_HINT_LIMIT),
      hints_used = 0, pending_challenge = None, move_log = [], last_action_info = None,
      rejected_placements = {}, bot_seq = 0\<rparr>"

definition with_defaults :: "env \<Rightarrow> str \<Rightarrow> game" where
  "with_defaults e gid = game_new e gid False 0 DEFAULT_HINT_LIMIT"

type_synonym 'a reply = "(game_error, 'a) outcome \<times> game"

definition add_player :: "str \<Rightarrow> str \<Rightarrow> game \<Rightarrow> str reply" where
  "add_player pid nm g =
     (if \<exists>p\<in>set (players g). player_id p = pid then (Fail AlreadyJoined, g)
      else if 4 \<le> length (players g) then (Fail MaxFourPlayers, g)
      else if started g then (Fail AlreadyStarted, g)
      else (Done (hu ''Csatlakoz~as sikeres.''), g\<lparr>players := players g @ [player_new pid nm]\<rparr>))"

definition bot_id :: "str \<Rightarrow> nat \<Rightarrow> str" where
  "bot_id gid n = ascii ''bot-'' @ gid @ ascii ''-'' @ show_nat n"

lemma bot_id_inj [simp]: "bot_id gid m = bot_id gid n \<longleftrightarrow> m = n"
  by (simp add: bot_id_def)

text \<open>The search for a free identifier ends, since a taken one belongs to one of the players.\<close>

function fresh_bot_seq :: "str \<Rightarrow> player list \<Rightarrow> nat \<Rightarrow> nat" where
  "fresh_bot_seq gid ps n =
     (if \<exists>p\<in>set ps. player_id p = bot_id gid n then fresh_bot_seq gid ps (Suc n) else n)"
  by auto
termination
proof (relation "measure (\<lambda>(gid, ps, n). card {m. n \<le> m \<and> bot_id gid m \<in> player_id ` set ps})")
  fix gid ps n
  let ?A = "{m. n \<le> m \<and> bot_id gid m \<in> player_id ` set ps}"
  assume "\<exists>p\<in>set ps. player_id p = bot_id gid n"
  then have mem: "n \<in> ?A" by force
  have "finite (bot_id gid -` (player_id ` set ps))"
    by (rule finite_vimageI) (simp_all add: inj_def)
  then have fin: "finite ?A" by (rule rev_finite_subset) auto
  have sub: "{m. Suc n \<le> m \<and> bot_id gid m \<in> player_id ` set ps} = ?A - {n}" by auto
  show "((gid, ps, Suc n), gid, ps, n)
      \<in> measure (\<lambda>(gid, ps, n). card {m. n \<le> m \<and> bot_id gid m \<in> player_id ` set ps})"
    unfolding in_measure case_prod_conv sub using fin mem by (rule card_Diff1_less)
qed simp

declare fresh_bot_seq.simps [simp del]

definition add_bot :: "str \<Rightarrow> json \<Rightarrow> game \<Rightarrow> str reply" where
  "add_bot nm diff g =
     (if 4 \<le> length (players g) then (Fail MaxFourPlayers, g)
      else if started g then (Fail AlreadyStarted, g)
      else let n = fresh_bot_seq (game_id g) (players g) (bot_seq g + 1)
           in (Done (hu ''Robot hozz~aadva.''),
               g\<lparr>bot_seq := n, players := players g @ [player_new_bot (bot_id (game_id g) n) nm diff]\<rparr>))"

definition winner :: "game \<Rightarrow> player option" where
  "winner g = (case winners g of [w] \<Rightarrow> Some w | _ \<Rightarrow> None)"

definition hints_left :: "game \<Rightarrow> int" where
  "hints_left g = max (hint_limit g - hints_used g) 0"

definition use_hint :: "game \<Rightarrow> bool \<times> game" where
  "use_hint g =
     (if hints_left g \<le> 0 then (False, g) else (True, g\<lparr>hints_used := hints_used g + 1\<rparr>))"

definition human_players :: "game \<Rightarrow> player list" where
  "human_players g = filter (\<lambda>p. \<not> is_bot p) (players g)"

definition has_connected_human :: "game \<Rightarrow> bool" where
  "has_connected_human g \<longleftrightarrow> (\<exists>p\<in>set (players g). \<not> is_bot p \<and> \<not> disconnected p)"

definition find_player :: "str \<Rightarrow> game \<Rightarrow> player option" where
  "find_player pid g = List.find (\<lambda>p. player_id p = pid) (players g)"

definition current_player :: "game \<Rightarrow> player option" where
  "current_player g =
     (if current_player_idx g < length (players g) then Some (players g ! current_player_idx g) else None)"

section \<open>Statistics of the recent turns\<close>

text \<open>
  \<^verbatim>\<open>recent_stats\<close> collects the scores in a hash map from the wanted names; here the wanted
  names, without repetition, are the list of its keys. Floats are reals.
\<close>

definition turn_score :: "move_log_entry \<Rightarrow> real option" where
  "turn_score m =
     (if action_type m \<in> {ascii ''place'', ascii ''challenge_accept''} then Some (real_of_int (entry_score m))
      else if action_type m \<in> {ascii ''exchange'', ascii ''pass''} then Some 0
      else None)"

definition scores_of :: "move_log_entry list \<Rightarrow> str \<Rightarrow> real list" where
  "scores_of entries nm = List.map_filter turn_score (filter (\<lambda>m. ml_player m = nm) entries)"

definition average :: "real list \<Rightarrow> real" where
  "average xs = sum_list xs / real (length xs)"

definition last_n :: "nat \<Rightarrow> 'a list \<Rightarrow> 'a list" where
  "last_n n xs = drop (length xs - n) xs"

definition recent_stats :: "str list \<Rightarrow> nat \<Rightarrow> game \<Rightarrow> real option \<times> nat" where
  "recent_stats names window g =
     (let recents = filter (\<lambda>xs. xs \<noteq> [])
            (map (\<lambda>nm. last_n window (scores_of (move_log g) nm)) (remdups names));
          averages = map average recents
      in (if averages = [] then None else Some (average averages),
          fold max (map length recents) 0))"

section \<open>Turns\<close>

definition reset_deadline :: "env \<Rightarrow> game \<Rightarrow> game" where
  "reset_deadline e g =
     g\<lparr>turn_deadline :=
        (if async_mode g \<and> turn_hours g \<noteq> 0 then Some (now_secs e + real_of_int (turn_hours g * 3600)) else None)\<rparr>"

text \<open>The loop of \<^verbatim>\<open>next_turn\<close>: at most one step per player.\<close>

fun next_turn_loop :: "nat \<Rightarrow> game \<Rightarrow> game" where
  "next_turn_loop 0 g = g"
| "next_turn_loop (Suc n) g =
     (let idx = (current_player_idx g + 1) mod length (players g);
          g' = g\<lparr>current_player_idx := idx\<rparr>;
          p = players g ! idx
      in if disconnected p \<and> \<not> async_mode g then
           (if \<exists>q\<in>set (players g). \<not> disconnected q then next_turn_loop n g' else g')
         else if skip_next_turn p then
           next_turn_loop n
             (set_last_action (player_name p @ hu '' kihagy egy k^ort (sikertelen megt~amad~as)'')
               (JObj [(ascii ''type'', JStr (ascii ''skip'')), (ascii ''player'', JStr (player_name p))])
               (upd_player idx (skip_next_turn_update (\<lambda>_. False)) g'))
         else g')"

definition next_turn :: "env \<Rightarrow> game \<Rightarrow> game" where
  "next_turn e g =
     reset_deadline e (let g' = next_turn_loop (length (players g)) g in g'\<lparr>turn_number := turn_number g' + 1\<rparr>)"

definition skip_disconnected_current :: "env \<Rightarrow> game \<Rightarrow> bool \<times> game" where
  "skip_disconnected_current e g =
     (if \<not> started g \<or> finished g \<or> pending_challenge g \<noteq> None \<or> async_mode g then (False, g)
      else case current_player g of
        None \<Rightarrow> (False, g)
      | Some current \<Rightarrow>
          if \<not> disconnected current then (False, g)
          else if \<forall>p\<in>set (players g). disconnected p then (False, g)
          else (True, next_turn e g))"

text \<open>Every player draws a full rack, in seating order.\<close>

fun deal :: "player list \<Rightarrow> tile_bag \<Rightarrow> player list \<times> tile_bag" where
  "deal [] b = ([], b)"
| "deal (p # ps) b =
     (case draw HAND_SIZE b of (ts, b1) \<Rightarrow>
      case deal ps b1 of (ps', b2) \<Rightarrow> (p\<lparr>hand := ts\<rparr> # ps', b2))"

definition start_game :: "env \<Rightarrow> game \<Rightarrow> str reply" where
  "start_game e g =
     (if players g = [] then (Fail NeedOnePlayer, g)
      else if started g then (Fail AlreadyStarted, g)
      else case deal (players g) (bag g) of (ps, b) \<Rightarrow>
        (Done (hu ''A j~at~ek elkezd&od^ott!''),
         reset_deadline e (g\<lparr>started := True, players := ps, bag := b\<rparr>)))"

section \<open>Connections\<close>

definition first_index :: "str \<Rightarrow> game \<Rightarrow> nat option" where
  "first_index pid g = position (\<lambda>p. player_id p = pid) (players g)"

definition mark_disconnected :: "str \<Rightarrow> game \<Rightarrow> bool \<times> game" where
  "mark_disconnected pid g =
     (case first_index pid g of
        None \<Rightarrow> (False, g)
      | Some i \<Rightarrow> (True, upd_player i (disconnected_update (\<lambda>_. True)) g))"

definition reconnect :: "str \<Rightarrow> player \<Rightarrow> player" where
  "reconnect new_id p = p\<lparr>player_id := new_id, disconnected := False\<rparr>"

definition replace_player_sid :: "str \<Rightarrow> str \<Rightarrow> game \<Rightarrow> bool \<times> game" where
  "replace_player_sid old_id new_id g =
     (case first_index old_id g of
        None \<Rightarrow> (False, g)
      | Some i \<Rightarrow>
          (True, (upd_player i (reconnect new_id) g)
             \<lparr>pending_challenge := map_option (update_player_sid old_id new_id) (pending_challenge g),
              winners := map (\<lambda>w. if player_id w = old_id then reconnect new_id w else w) (winners g)\<rparr>))"

definition remove_at :: "nat \<Rightarrow> 'a list \<Rightarrow> 'a list" where
  "remove_at i xs = take i xs @ drop (Suc i) xs"

text \<open>The reply tells whether the turn has to be passed on by the caller.\<close>

definition remove_player :: "str \<Rightarrow> game \<Rightarrow> bool \<times> game" where
  "remove_player pid g =
     (case first_index pid g of
        None \<Rightarrow> (False, g)
      | Some removed_idx \<Rightarrow>
          let pending = (case pending_challenge g of
                           Some pc \<Rightarrow> if player_idx pc = removed_idx then None else Some pc
                         | None \<Rightarrow> None);
              was_current = (removed_idx = current_player_idx g);
              ps = remove_at removed_idx (players g);
              g1 = g\<lparr>pending_challenge := pending, players := ps\<rparr>
          in if ps = [] then (False, g1\<lparr>current_player_idx := 0\<rparr>)
             else
               let cur = (if removed_idx < current_player_idx g then current_player_idx g - 1
                          else if was_current \<and> length ps \<le> current_player_idx g then 0
                          else current_player_idx g);
                   pending' = map_option (\<lambda>pc. if removed_idx < player_idx pc
                                then pc\<lparr>player_idx := player_idx pc - 1\<rparr> else pc) pending
               in (was_current \<and> started g \<and> \<not> finished g,
                   g1\<lparr>current_player_idx := cur, pending_challenge := pending'\<rparr>))"

end
