(* ===== verification/GamePlay.thy ===== *)
theory GamePlay
  imports GameState
begin

text \<open>
  The moves of \<^verbatim>\<open>src/src/engine/game.rs\<close>: placing tiles, the vote on a pending placement,
  exchanging, passing, time-outs, resigning, the interventions of an administrator, and the final
  accounting. A fallible operation returns its outcome with the new state; a \<open>Panic\<close> stands for
  an index out of range at the place where the code indexes. Scores are \<^verbatim>\<open>i32\<close> in the code
  and unbounded here.
\<close>

section \<open>The end of the game\<close>

definition hand_value :: "player \<Rightarrow> int" where
  "hand_value p = sum_list (map (\<lambda>t. int (tile_value t)) (hand p))"

definition max_score :: "player list \<Rightarrow> int option" where
  "max_score ps = (if ps = [] then None else Some (Max (score ` set ps)))"

definition deduct_hand :: "player \<Rightarrow> player" where
  "deduct_hand p = p\<lparr>score := score p - hand_value p\<rparr>"

definition announce_winners :: "int \<Rightarrow> game \<Rightarrow> game" where
  "announce_winners top_score g =
     (case winners g of
        [w] \<Rightarrow>
          set_last_action
            (hu ''J~at~ek v~ege! Gy&oztes: '' @ player_name w @ ascii '' ('' @ show_int top_score @ ascii '' pont)'')
            (JObj [(ascii ''type'', JStr (ascii ''game_over'')), (ascii ''player'', JStr (player_name w)),
                   (ascii ''score'', JInt top_score)]) g
      | ws \<Rightarrow>
          set_last_action
            (hu ''J~at~ek v~ege! D^ontetlen: '' @ join (ascii '', '') (map player_name ws)
               @ ascii '' ('' @ show_int top_score @ ascii '' pont)'')
            (JObj [(ascii ''type'', JStr (ascii ''game_over_draw'')),
                   (ascii ''players'', JArr (map (JStr \<circ> player_name) ws)),
                   (ascii ''score'', JInt top_score)]) g)"

definition end_game :: "nat option \<Rightarrow> game \<Rightarrow> game" where
  "end_game finisher g =
     (let remaining_total = sum_list (map hand_value (players g));
          ps = map deduct_hand (players g);
          ps' = (case finisher of
                   None \<Rightarrow> ps
                 | Some i \<Rightarrow> ps[i := (ps ! i)\<lparr>score := score (ps ! i) + remaining_total\<rparr>]);
          top_score = (case max_score ps' of Some m \<Rightarrow> m | None \<Rightarrow> 0)
      in announce_winners top_score
           (g\<lparr>finished := True, pending_challenge := None, players := ps',
              winners := filter (\<lambda>p. score p = top_score) ps'\<rparr>))"

definition register_scoreless_turn :: "game \<Rightarrow> bool \<times> game" where
  "register_scoreless_turn g =
     (let g' = g\<lparr>scoreless_turns := scoreless_turns g + 1\<rparr>
      in if SCORELESS_TURNS_LIMIT \<le> scoreless_turns g' then (True, end_game None g') else (False, g'))"

section \<open>The move log\<close>

definition words_json :: "str list \<Rightarrow> json" where
  "words_json ws = JArr (map JStr ws)"

definition move_details ::
  "placed list option \<Rightarrow> formed_word list option \<Rightarrow> int \<Rightarrow> tile list option \<Rightarrow> json" where
  "move_details tiles formed sc rack =
     JObj ((case rack of Some r \<Rightarrow> [(ascii ''rack'', tiles_to_json r)] | None \<Rightarrow> [])
         @ (case tiles of
              Some ts \<Rightarrow> if ts = [] then [] else [(ascii ''tiles'', JArr (map placed_to_json ts))]
            | None \<Rightarrow> [])
         @ (case formed of
              Some ws \<Rightarrow> if ws = [] then [] else [(ascii ''words'', words_json (map fw_word ws))]
            | None \<Rightarrow> [])
         @ [(ascii ''score'', JInt sc)])"

definition record_move ::
  "str \<Rightarrow> str \<Rightarrow> placed list option \<Rightarrow> formed_word list option \<Rightarrow> int \<Rightarrow> tile list option \<Rightarrow> game \<Rightarrow> game" where
  "record_move pname action tiles formed sc rack g =
     g\<lparr>move_log := move_log g @
        [\<lparr>move_number = int (length (move_log g)) + 1, ml_player = pname, action_type = action,
          details = move_details tiles formed sc rack, ml_board = board g\<rparr>]\<rparr>"

section \<open>Placing tiles\<close>

fun validate_hand :: "tile list \<Rightarrow> placed list \<Rightarrow> game_error option" where
  "validate_hand h [] = None"
| "validate_hand h (p # ps) =
     (case position (\<lambda>t. t = hand_tile p) h of
        Some i \<Rightarrow> validate_hand (remove_at i h) ps
      | None \<Rightarrow> Some (if p_blank p then NoBlankTile else NoLetterTile (letter_of (p_letter p))))"

text \<open>The remaining hand and the removed tiles.\<close>

fun remove_tiles_from_hand :: "tile list \<Rightarrow> placed list \<Rightarrow> tile list \<times> tile list" where
  "remove_tiles_from_hand h [] = (h, [])"
| "remove_tiles_from_hand h (p # ps) =
     (let target = hand_tile p;
          h' = (case position (\<lambda>t. t = target) h of Some i \<Rightarrow> remove_at i h | None \<Rightarrow> h)
      in case remove_tiles_from_hand h' ps of (h'', removed) \<Rightarrow> (h'', target # removed))"

definition finish_puzzle :: "nat \<Rightarrow> int \<Rightarrow> str list \<Rightarrow> game \<Rightarrow> game" where
  "finish_puzzle i sc ws g =
     (let nm = player_name (players g ! i)
      in set_last_action
           (nm @ ascii '': '' @ join (ascii '', '') ws @ ascii '' ('' @ show_int sc @ ascii '' pont)'')
           (JObj [(ascii ''type'', JStr (ascii ''puzzle'')), (ascii ''player'', JStr nm),
                  (ascii ''words'', words_json ws), (ascii ''score'', JInt sc)])
           (g\<lparr>finished := True, winners := [players g ! i],
              puzzle := map_option (\<lambda>pz. pz\<lparr>puzzle_score := Some sc\<rparr>) (puzzle g)\<rparr>))"

text \<open>Refilling a hand: \<^verbatim>\<open>draw(HAND_SIZE - hand.len())\<close>.\<close>

definition refill :: "nat \<Rightarrow> game \<Rightarrow> game" where
  "refill i g =
     (case draw (usize_sub HAND_SIZE (length (hand (players g ! i)))) (bag g) of
        (ts, b) \<Rightarrow> (upd_player i (\<lambda>p. p\<lparr>hand := hand p @ ts\<rparr>) g)\<lparr>bag := b\<rparr>)"

definition announce_place :: "str \<Rightarrow> str list \<Rightarrow> int \<Rightarrow> game \<Rightarrow> game" where
  "announce_place nm ws sc g =
     set_last_action
       (nm @ ascii '': '' @ join (ascii '', '') ws @ ascii '' ('' @ show_int sc @ ascii '' pont)'')
       (JObj [(ascii ''type'', JStr (ascii ''place'')), (ascii ''player'', JStr nm),
              (ascii ''words'', words_json ws), (ascii ''score'', JInt sc)]) g"

definition finalize_placement ::
  "env \<Rightarrow> placed list \<Rightarrow> int \<Rightarrow> str list \<Rightarrow> formed_word list \<Rightarrow> game \<Rightarrow> game" where
  "finalize_placement e tiles total_score ws formed g =
     (let idx = current_player_idx g;
          rack = hand (players g ! idx);
          g1 = g\<lparr>board := apply_placement tiles (board g), rejected_placements := {}\<rparr>;
          g2 = upd_player idx (\<lambda>p. p\<lparr>score := score p + total_score,
                  hand := fst (remove_tiles_from_hand (hand p) tiles)\<rparr>) g1;
          g3 = upd_player idx (timeouts_update (\<lambda>_. 0)) ((refill idx g2)\<lparr>scoreless_turns := 0\<rparr>);
          nm = player_name (players g3 ! idx);
          g4 = record_move nm (ascii ''place'') (Some tiles) (Some formed) total_score (Some rack)
                 (announce_place nm ws total_score g3)
      in if puzzle g4 \<noteq> None then finish_puzzle idx total_score ws g4
         else if hand (players g4 ! idx) = [] \<and> bag g4 = [] then end_game (Some idx) g4
         else next_turn e g4)"

definition challenge_applies :: "nat \<Rightarrow> game \<Rightarrow> bool" where
  "challenge_applies placer_idx g \<longleftrightarrow>
     challenge_mode g \<and> (\<exists>(i, p)\<in>set (List.enumerate 0 (players g)). i \<noteq> placer_idx \<and> \<not> is_bot p)"

definition lerakas_total :: "formed_word list \<Rightarrow> nat \<Rightarrow> int" where
  "lerakas_total formed tile_count =
     sum_list (map (\<lambda>w. int (fw_score w)) formed) + (if tile_count = HAND_SIZE then int BONUS_ALL_TILES else 0)"

definition placement_refused :: "str \<Rightarrow> placed list \<Rightarrow> game \<Rightarrow> game_error option" where
  "placement_refused pid tiles g =
     (if finished g then Some GameOver
      else if pending_challenge g \<noteq> None then Some WaitForChallenge
      else case current_player g of
        None \<Rightarrow> Some NotYourTurn
      | Some p \<Rightarrow> if player_id p \<noteq> pid then Some NotYourTurn else validate_hand (hand p) tiles)"

definition place_tiles :: "env \<Rightarrow> str \<Rightarrow> placed list \<Rightarrow> game \<Rightarrow> (str \<times> int) reply" where
  "place_tiles e pid tiles g =
     (case placement_refused pid tiles g of
        Some err \<Rightarrow> (Fail err, g)
      | None \<Rightarrow>
          let idx = current_player_idx g; challenge_active = challenge_applies idx g
          in case validate_placement (check_fn e) (board g) tiles challenge_active of
            None \<Rightarrow> (Panic, g)
          | Some (Inl err) \<Rightarrow> (Fail (PlacementError err), g)
          | Some (Inr formed) \<Rightarrow>
              let total_score = lerakas_total formed (length tiles);
                  ws = map fw_word formed;
                  words = join (ascii '', '') ws
              in if challenge_active then
                   (case remove_tiles_from_hand (hand (players g ! idx)) tiles of
                      (h, removed) \<Rightarrow>
                        let g1 = (upd_player idx (hand_update (\<lambda>_. h)) g)
                              \<lparr>pending_challenge := Some (challenge_new (now_secs e) tiles formed ws total_score idx removed)\<rparr>;
                            nm = player_name (players g1 ! idx)
                        in (Done (ascii ''Szavak: '' @ words @ hu '' ~- szavaz~asra v~ar!'', total_score),
                            set_last_action
                              (nm @ ascii '': '' @ words @ ascii '' ('' @ show_int total_score @ hu '' pont) ~- szavaz~asra v~ar'')
                              (JObj [(ascii ''type'', JStr (ascii ''pending'')), (ascii ''player'', JStr nm),
                                     (ascii ''words'', words_json ws), (ascii ''score'', JInt total_score)]) g1))
                 else (Done (ascii ''Szavak: '' @ words, total_score), finalize_placement e tiles total_score ws formed g))"

section \<open>The live preview\<close>

text \<open>The messages of \<open>place_error\<close> and of the hand check, as the preview shows them.\<close>

definition preview_reply :: "bool \<Rightarrow> int \<Rightarrow> json list \<Rightarrow> json \<Rightarrow> json" where
  "preview_reply valid sc ws msg =
     JObj [(ascii ''valid'', JBool valid), (ascii ''score'', JInt sc), (ascii ''words'', JArr ws),
           (ascii ''message'', msg)]"

definition preview_placement ::
  "env \<Rightarrow> str \<Rightarrow> placed list \<Rightarrow> game \<Rightarrow> json option" where
  "preview_placement e pid tiles g =
     (let empty = (\<lambda>msg. Some (preview_reply False 0 [] (JStr msg)))
      in if finished g \<or> \<not> started g \<or> pending_challenge g \<noteq> None then empty []
         else case current_player g of
           None \<Rightarrow> empty []
         | Some p \<Rightarrow>
             if player_id p \<noteq> pid then empty []
             else case validate_hand (hand p) tiles of
               Some err \<Rightarrow> empty (game_error_text err)
             | None \<Rightarrow>
                 (case validate_placement (check_fn e) (board g) tiles
                         (challenge_applies (current_player_idx g) g) of
                    None \<Rightarrow> None
                  | Some (Inl err) \<Rightarrow> empty (game_error_text (PlacementError err))
                  | Some (Inr formed) \<Rightarrow>
                      Some (preview_reply True (lerakas_total formed (length tiles))
                        (map (\<lambda>w. JObj [(ascii ''word'', JStr (fw_word w)),
                                        (ascii ''score'', JInt (int (fw_score w)))]) formed)
                        (JStr []))))"

section \<open>The vote\<close>

text \<open>A pending placement names an existing player; otherwise the code panics on indexing.\<close>

definition placer_exists :: "game \<Rightarrow> bool" where
  "placer_exists g \<longleftrightarrow>
     (case pending_challenge g of None \<Rightarrow> True | Some pc \<Rightarrow> player_idx pc < length (players g))"

definition voter_ids :: "game \<Rightarrow> str set" where
  "voter_ids g =
     (case pending_challenge g of
        None \<Rightarrow> {}
      | Some pc \<Rightarrow>
          set (map player_id (filter (\<lambda>p. player_id p \<noteq> player_id (players g ! player_idx pc) \<and> \<not> is_bot p)
                 (players g))))"

definition finalize_accept :: "env \<Rightarrow> game \<Rightarrow> game" where
  "finalize_accept e g =
     (case pending_challenge g of
        None \<Rightarrow> g
      | Some pc \<Rightarrow>
          let idx = player_idx pc;
              rack = hand (players g ! idx) @ removed_from_hand pc;
              g1 = g\<lparr>pending_challenge := None, board := apply_placement (tiles_placed pc) (board g),
                     rejected_placements := {}\<rparr>;
              g2 = upd_player idx (\<lambda>p. p\<lparr>score := score p + ch_score pc\<rparr>) g1;
              g3 = (refill idx g2)\<lparr>scoreless_turns := 0\<rparr>;
              nm = player_name (players g3 ! idx);
              g4 = record_move nm (ascii ''challenge_accept'') (Some (tiles_placed pc))
                     (Some (formed_words pc)) (ch_score pc) (Some rack)
                     (announce_place nm (word_strs pc) (ch_score pc) g3)
          in if hand (players g4 ! idx) = [] \<and> bag g4 = [] then end_game (Some idx) g4
             else next_turn e g4)"

text \<open>The placed tiles go back to the hand of the placer, whose turn it stays.\<close>

definition return_tiles :: "challenge \<Rightarrow> game \<Rightarrow> game" where
  "return_tiles pc g =
     (upd_player (player_idx pc) (\<lambda>p. p\<lparr>hand := hand p @ removed_from_hand pc\<rparr>) g)
       \<lparr>pending_challenge := None\<rparr>"

definition finalize_reject :: "env \<Rightarrow> game \<Rightarrow> game" where
  "finalize_reject e g =
     (case pending_challenge g of
        None \<Rightarrow> g
      | Some pc \<Rightarrow>
          let idx = player_idx pc;
              g1 = (return_tiles pc g)\<lparr>rejected_placements :=
                      insert (placement_key (tiles_placed pc)) (rejected_placements g)\<rparr>;
              nm = player_name (players g1 ! idx);
              g2 = set_last_action
                     (nm @ hu '' szavai elutas~itva: '' @ join (ascii '', '') (word_strs pc)
                        @ hu ''. Bet&uk visszav~eve, ~ujra &o k^ovetkezik.'')
                     (JObj [(ascii ''type'', JStr (ascii ''rejected'')), (ascii ''player'', JStr nm),
                            (ascii ''words'', words_json (word_strs pc))]) g1;
              g3 = record_move nm (ascii ''challenge_reject'') None None 0 None g2
          in case register_scoreless_turn g3 of
               (True, g4) \<Rightarrow> g4
             | (False, g4) \<Rightarrow> if disconnected (players g4 ! idx) then next_turn e g4 else g4)"

definition resolve_and_finalize :: "env \<Rightarrow> game \<Rightarrow> vote_result \<times> game" where
  "resolve_and_finalize e g =
     (if (case pending_challenge g of Some pc \<Rightarrow> resolve_votes (voter_ids g) pc | None \<Rightarrow> True)
      then (Accepted, finalize_accept e g) else (Rejected, finalize_reject e g))"

definition make_vote_message :: "vote_result \<Rightarrow> str" where
  "make_vote_message r =
     (if r = Accepted then hu ''A szavak elfogadva szavaz~assal.'' else hu ''A szavak elutas~itva szavaz~assal!'')"

definition vote_refused :: "str \<Rightarrow> vote \<Rightarrow> challenge \<Rightarrow> game \<Rightarrow> game_error option" where
  "vote_refused pid v pc g =
     (if player_id (players g ! player_idx pc) = pid then Some (if v = Accept then OwnAccept else OwnReject)
      else if pid \<notin> voter_ids g then Some MayNotVote
      else if map_of (votes pc) pid \<noteq> None then Some AlreadyVoted
      else if find_player pid g = None then Some NotParticipant
      else None)"

definition cast_vote :: "env \<Rightarrow> str \<Rightarrow> vote \<Rightarrow> game \<Rightarrow> (vote_result \<times> str) reply" where
  "cast_vote e pid v g =
     (case pending_challenge g of
        None \<Rightarrow> (Fail NoPending, g)
      | Some pc \<Rightarrow>
          if \<not> placer_exists g then (Panic, g)
          else case vote_refused pid v pc g of
            Some err \<Rightarrow> (Fail err, g)
          | None \<Rightarrow>
              let nm = (case find_player pid g of Some p \<Rightarrow> player_name p | None \<Rightarrow> []);
                  pc' = add_vote pid v pc;
                  g1 = g\<lparr>pending_challenge := Some pc'\<rparr>
              in if all_voted (voter_ids g) pc' then
                   (case resolve_and_finalize e g1 of (r, g2) \<Rightarrow> (Done (r, make_vote_message r), g2))
                 else
                   let txt = nm @ (if v = Accept then ascii '' elfogadta.'' else hu '' elutas~itotta.'')
                   in (Done (Recorded, txt),
                       set_last_action txt
                         (JObj [(ascii ''type'', JStr (ascii ''vote'')), (ascii ''player'', JStr nm),
                                (ascii ''vote'', JStr (vote_as_str v))]) g1))"

definition accept_pending_by_player :: "env \<Rightarrow> str \<Rightarrow> game \<Rightarrow> (vote_result \<times> str) reply" where
  "accept_pending_by_player e pid g = cast_vote e pid Accept g"

definition reject_pending_by_player :: "env \<Rightarrow> str \<Rightarrow> game \<Rightarrow> (vote_result \<times> str) reply" where
  "reject_pending_by_player e pid g = cast_vote e pid Reject g"

definition withdraw_pending :: "str \<Rightarrow> game \<Rightarrow> str reply" where
  "withdraw_pending pid g =
     (case pending_challenge g of
        None \<Rightarrow> (Fail NoPending, g)
      | Some pc \<Rightarrow>
          if \<not> placer_exists g then (Panic, g)
          else if player_id (players g ! player_idx pc) \<noteq> pid then (Fail OnlyPlacer, g)
          else if votes pc \<noteq> [] then (Fail VotesCast, g)
          else
            let g1 = return_tiles pc g; nm = player_name (players g1 ! player_idx pc)
            in (Done (hu ''Lerak~as visszavonva.''),
                set_last_action (nm @ hu '' visszavonta a lerak~as~at.'')
                  (JObj [(ascii ''type'', JStr (ascii ''withdrawn'')), (ascii ''player'', JStr nm),
                         (ascii ''words'', words_json (word_strs pc))]) g1))"

definition accept_pending :: "env \<Rightarrow> game \<Rightarrow> (vote_result \<times> str) reply" where
  "accept_pending e g =
     (if pending_challenge g = None then (Fail NoPending, g)
      else if \<not> placer_exists g then (Panic, g)
      else case resolve_and_finalize e g of (r, g') \<Rightarrow>
        (Done (r, if r = Accepted then hu ''Szavak elfogadva (id&ot~ull~ep~es).''
                  else hu ''Szavak elutas~itva (id&ot~ull~ep~es).''), g'))"

section \<open>Exchanging, passing, resigning\<close>

definition exchange_refused :: "str \<Rightarrow> int list \<Rightarrow> game \<Rightarrow> game_error option" where
  "exchange_refused pid idxs g =
     (if finished g then Some GameOver
      else if pending_challenge g \<noteq> None then Some WaitForChallenge
      else if puzzle g \<noteq> None then Some PuzzleNoExchange
      else case current_player g of
        None \<Rightarrow> Some NotYourTurn
      | Some p \<Rightarrow>
          if player_id p \<noteq> pid then Some NotYourTurn
          else if remaining (bag g) < 7 then Some BagTooSmall
          else if remaining (bag g) < length idxs then Some BagTooSmallForCount
          else if idxs = [] then Some SelectOne
          else if card (set idxs) \<noteq> length idxs then Some DuplicateIndex
          else if \<exists>i\<in>set idxs. i < 0 \<or> length (hand p) \<le> nat i then Some InvalidIndex
          else None)"

text \<open>The indices of the hand in falling order, and the hand without them.\<close>

definition sorted_desc :: "int list \<Rightarrow> nat list" where
  "sorted_desc idxs = rev (sort (map nat idxs))"

definition exchange_tiles :: "env \<Rightarrow> str \<Rightarrow> int list \<Rightarrow> game \<Rightarrow> str reply" where
  "exchange_tiles e pid idxs g =
     (case exchange_refused pid idxs g of
        Some err \<Rightarrow> (Fail err, g)
      | None \<Rightarrow>
          let idx = current_player_idx g;
              rack = hand (players g ! idx);
              desc = sorted_desc idxs;
              to_exchange = map ((!) rack) desc;
              kept = fold remove_at desc rack
          in case draw (length to_exchange) (bag g) of
            (new_tiles, b) \<Rightarrow>
              let g1 = (upd_player idx (hand_update (\<lambda>_. kept @ new_tiles)) g)
                         \<lparr>bag := put_back (shuffle_fn e) to_exchange b\<rparr>;
                  nm = player_name (players g1 ! idx);
                  cnt = length to_exchange;
                  g2 = set_last_action (nm @ hu '' cser~elt '' @ show_nat cnt @ hu '' zsetont'')
                         (JObj [(ascii ''type'', JStr (ascii ''exchange'')), (ascii ''player'', JStr nm),
                                (ascii ''count'', JInt (int cnt))]) g1;
                  g3 = record_move nm (ascii ''exchange'') None None 0 (Some rack)
                         (upd_player idx (timeouts_update (\<lambda>_. 0)) g2)
              in (Done (show_nat cnt @ hu '' zseton kicser~elve.''),
                  case register_scoreless_turn g3 of
                    (True, g4) \<Rightarrow> g4
                  | (False, g4) \<Rightarrow> next_turn e g4))"

definition pass_refused :: "str \<Rightarrow> game \<Rightarrow> game_error option" where
  "pass_refused pid g =
     (if finished g then Some GameOver
      else if pending_challenge g \<noteq> None then Some WaitForChallenge
      else if puzzle g \<noteq> None then Some PuzzleNoPass
      else case current_player g of
        None \<Rightarrow> Some NotYourTurn
      | Some p \<Rightarrow> if player_id p \<noteq> pid then Some NotYourTurn else None)"

definition pass_turn :: "env \<Rightarrow> str \<Rightarrow> bool \<Rightarrow> game \<Rightarrow> str reply" where
  "pass_turn e pid timeout g =
     (case pass_refused pid g of
        Some err \<Rightarrow> (Fail err, g)
      | None \<Rightarrow>
          let idx = current_player_idx g;
              nm = player_name (players g ! idx);
              g1 = (if timeout then
                      set_last_action (nm @ hu '' nem l~epett id&oben (passz)'')
                        (JObj [(ascii ''type'', JStr (ascii ''timeout'')), (ascii ''player'', JStr nm)])
                        (upd_player idx (timeouts_update (\<lambda>n. n + 1)) g)
                    else
                      set_last_action (nm @ ascii '' passzolt'')
                        (JObj [(ascii ''type'', JStr (ascii ''pass'')), (ascii ''player'', JStr nm)])
                        (upd_player idx (timeouts_update (\<lambda>_. 0)) g));
              g2 = record_move nm (ascii ''pass'') None None 0 (Some (hand (players g1 ! idx))) g1
          in (Done (ascii ''Passz.''),
              case register_scoreless_turn g2 of
                (True, g3) \<Rightarrow> g3
              | (False, g3) \<Rightarrow> next_turn e g3))"

definition resign :: "str \<Rightarrow> game \<Rightarrow> str reply" where
  "resign pid g =
     (if \<not> started g then (Fail NotStarted, g)
      else if finished g then (Fail GameOver, g)
      else case first_index pid g of
        None \<Rightarrow> (Fail NotParticipant, g)
      | Some idx \<Rightarrow>
          let g1 = end_game None ((upd_player idx (resigned_update (\<lambda>_. True)) g)\<lparr>pending_challenge := None\<rparr>);
              g2 = (case max_score (filter (\<lambda>p. \<not> resigned p) (players g1)) of
                      None \<Rightarrow> g1
                    | Some best \<Rightarrow>
                        g1\<lparr>winners := filter (\<lambda>p. \<not> resigned p \<and> score p = best) (players g1)\<rparr>);
              nm = player_name (players g2 ! idx)
          in (Done (hu ''A j~at~ek feladva.''),
              set_last_action (nm @ hu '' feladta a j~at~ekot.'')
                (JObj [(ascii ''type'', JStr (ascii ''resigned'')), (ascii ''player'', JStr nm)]) g2))"

definition expire_turn :: "env \<Rightarrow> game \<Rightarrow> bool \<times> game" where
  "expire_turn e g =
     (if \<not> async_mode g \<or> \<not> started g \<or> finished g \<or> pending_challenge g \<noteq> None then (False, g)
      else case current_player g of
        None \<Rightarrow> (False, g)
      | Some p \<Rightarrow>
          (case pass_turn e (player_id p) True g of
             (r, g1) \<Rightarrow>
               if is_done r \<and> \<not> finished g1 then
                 let tos = (case find_player (player_id p) g1 of Some q \<Rightarrow> timeouts q | None \<Rightarrow> 0)
                 in (True, if MAX_TIMEOUTS \<le> tos then snd (resign (player_id p) g1) else g1)
               else (is_done r, g1)))"

section \<open>Interventions of an administrator\<close>

definition force_resolve_pending :: "env \<Rightarrow> bool \<Rightarrow> game \<Rightarrow> (vote_result \<times> str) reply" where
  "force_resolve_pending e accept g =
     (if pending_challenge g = None then (Fail NoPending, g)
      else if \<not> placer_exists g then (Panic, g)
      else if accept then (Done (Accepted, make_vote_message Accepted), finalize_accept e g)
      else (Done (Rejected, make_vote_message Rejected), finalize_reject e g))"

definition force_end :: "game \<Rightarrow> bool reply" where
  "force_end g =
     (if \<not> started g \<or> finished g then (Done False, g)
      else if \<not> placer_exists g then (Panic, g)
      else (Done True,
            end_game None (case pending_challenge g of None \<Rightarrow> g | Some pc \<Rightarrow> return_tiles pc g)))"

end
