(* ===== verification/GameInv.thy ===== *)
theory GameInv
  imports GamePlay
begin

text \<open>
  The invariant of a game and its preservation by every operation of \<open>GameState\<close> and
  \<open>GamePlay\<close>, the conservation of the tiles, and the reachable states of a game.
\<close>

section \<open>What the small steps leave alone\<close>

lemmas text_step_defs = set_last_action_def record_move_def announce_place_def reset_deadline_def

lemma announce_winners_eq: "\<exists>a i. announce_winners t g = set_last_action a i g"
proof (cases "winners g")
  case Nil
  then show ?thesis unfolding announce_winners_def by (simp only: list.case) blast
next
  case (Cons w ws)
  then show ?thesis unfolding announce_winners_def by (cases ws; simp only: list.case) blast+
qed

lemma announce_winners_fields [simp]:
  "game_id (announce_winners t g) = game_id g" "players (announce_winners t g) = players g"
  "board (announce_winners t g) = board g" "bag (announce_winners t g) = bag g"
  "current_player_idx (announce_winners t g) = current_player_idx g"
  "started (announce_winners t g) = started g" "finished (announce_winners t g) = finished g"
  "winners (announce_winners t g) = winners g" "puzzle (announce_winners t g) = puzzle g"
  "async_mode (announce_winners t g) = async_mode g"
  "scoreless_turns (announce_winners t g) = scoreless_turns g"
  "turn_number (announce_winners t g) = turn_number g"
  "challenge_mode (announce_winners t g) = challenge_mode g"
  "pending_challenge (announce_winners t g) = pending_challenge g"
  "move_log (announce_winners t g) = move_log g"
  "hints_used (announce_winners t g) = hints_used g" "hint_limit (announce_winners t g) = hint_limit g"
  "turn_hours (announce_winners t g) = turn_hours g" "turn_deadline (announce_winners t g) = turn_deadline g"
  using announce_winners_eq [of t g] by (auto simp: set_last_action_def)

text \<open>Passing the turn on changes the seat to move, the skip flags and the texts only.\<close>

definition unflag :: "player list \<Rightarrow> player list" where
  "unflag ps = map (skip_next_turn_update (\<lambda>_. False)) ps"

lemma unflag_update:
  "i < length ps \<Longrightarrow> unflag (ps[i := skip_next_turn_update (\<lambda>_. b) (ps ! i)]) = unflag ps"
  by (auto simp: unflag_def list_eq_iff_nth_eq nth_list_update)

definition turned :: "game \<Rightarrow> game \<Rightarrow> bool" where
  "turned g g' \<longleftrightarrow>
     (\<exists>c ps a i. g' = g\<lparr>current_player_idx := c, players := ps, last_action := a, last_action_info := i\<rparr>
        \<and> unflag ps = unflag (players g))"

lemma turned_seat [intro]: "turned g (g\<lparr>current_player_idx := c\<rparr>)"
  unfolding turned_def
  by (rule exI [of _ c], rule exI [of _ "players g"], rule exI [of _ "last_action g"],
      rule exI [of _ "last_action_info g"]) simp

lemma turned_trans: "turned g g' \<Longrightarrow> turned g' g'' \<Longrightarrow> turned g g''"
  unfolding turned_def by force

lemma turned_skip [intro]:
  "i < length (players g) \<Longrightarrow>
   turned g (set_last_action a j (upd_player i (skip_next_turn_update (\<lambda>_. False)) (g\<lparr>current_player_idx := c\<rparr>)))"
  unfolding turned_def set_last_action_def upd_player_def by (fastforce simp: unflag_update)

lemma turned_length: "turned g g' \<Longrightarrow> length (players g') = length (players g)"
  unfolding turned_def unflag_def using map_eq_imp_length_eq by fastforce

lemma turned_loop:
  "players g \<noteq> [] \<Longrightarrow> turned g (next_turn_loop n g) \<and> (n = 0 \<or> current_player_idx (next_turn_loop n g) < length (players g))"
proof (induction n arbitrary: g)
  case 0
  show ?case using turned_seat [of g "current_player_idx g"] by simp
next
  case (Suc n)
  let ?i = "(current_player_idx g + 1) mod length (players g)"
  have i: "?i < length (players g)" using Suc.prems by simp
  have cont: "turned g (next_turn_loop n g') \<and> current_player_idx (next_turn_loop n g') < length (players g)"
    if "turned g g'" "current_player_idx g' = ?i" for g'
  proof -
    have "players g' \<noteq> []" using turned_length [OF that(1)] Suc.prems by auto
    from Suc.IH [OF this] show ?thesis
      using that i turned_trans [OF that(1)] turned_length [OF that(1)] by (cases n) auto
  qed
  have skip: "turned g (next_turn_loop n (set_last_action a j (upd_player ?i (skip_next_turn_update (\<lambda>_. False)) (g\<lparr>current_player_idx := ?i\<rparr>))))
     \<and> current_player_idx (next_turn_loop n (set_last_action a j (upd_player ?i (skip_next_turn_update (\<lambda>_. False)) (g\<lparr>current_player_idx := ?i\<rparr>))))
        < length (players g)" for a j
    by (rule cont [OF turned_skip [OF i]]) (simp add: set_last_action_def upd_player_def)
  have seat: "turned g (next_turn_loop n (g\<lparr>current_player_idx := ?i\<rparr>))
     \<and> current_player_idx (next_turn_loop n (g\<lparr>current_player_idx := ?i\<rparr>)) < length (players g)"
    by (rule cont [OF turned_seat]) simp
  show ?case
    unfolding next_turn_loop.simps(2) Let_def using skip seat i turned_seat by (auto split: if_splits)
qed
lemma unflag_map:
  "unflag ps = unflag qs \<Longrightarrow> (\<And>p b. f (skip_next_turn_update (\<lambda>_. b) p) = f p) \<Longrightarrow> map f ps = map f qs"
proof -
  assume "unflag ps = unflag qs" and f: "\<And>p b. f (skip_next_turn_update (\<lambda>_. b) p) = f p"
  then have "map f (unflag ps) = map f (unflag qs)" by simp
  then show ?thesis by (simp add: unflag_def f comp_def)
qed

lemma next_turn_turned:
  "\<exists>g'. turned g g' \<and> next_turn e g = reset_deadline e (g'\<lparr>turn_number := turn_number g + 1\<rparr>)"
proof (cases "players g = []")
  case True
  then show ?thesis using turned_seat [of g "current_player_idx g"] by (auto simp: next_turn_def)
next
  case False
  then have "turned g (next_turn_loop (length (players g)) g)" using turned_loop by blast
  moreover have "turn_number (next_turn_loop (length (players g)) g) = turn_number g"
    using calculation by (auto simp: turned_def)
  ultimately show ?thesis
    by (intro exI [of _ "next_turn_loop (length (players g)) g"]) (simp add: next_turn_def Let_def)
qed

lemma next_turn_fields [simp]:
  "game_id (next_turn e g) = game_id g" "board (next_turn e g) = board g" "bag (next_turn e g) = bag g"
  "started (next_turn e g) = started g" "finished (next_turn e g) = finished g"
  "winners (next_turn e g) = winners g" "puzzle (next_turn e g) = puzzle g"
  "async_mode (next_turn e g) = async_mode g" "scoreless_turns (next_turn e g) = scoreless_turns g"
  "turn_number (next_turn e g) = turn_number g + 1" "challenge_mode (next_turn e g) = challenge_mode g"
  "pending_challenge (next_turn e g) = pending_challenge g" "move_log (next_turn e g) = move_log g"
  "hints_used (next_turn e g) = hints_used g" "hint_limit (next_turn e g) = hint_limit g"
  "turn_hours (next_turn e g) = turn_hours g" "rejected_placements (next_turn e g) = rejected_placements g"
  using next_turn_turned [of g e] by (auto simp: turned_def reset_deadline_def)

lemma next_turn_unflag [simp]: "unflag (players (next_turn e g)) = unflag (players g)"
  using next_turn_turned [of g e] by (auto simp: turned_def reset_deadline_def)

lemma next_turn_players [simp]:
  "map hand (players (next_turn e g)) = map hand (players g)"
  "map score (players (next_turn e g)) = map score (players g)"
  "map player_id (players (next_turn e g)) = map player_id (players g)"
  "map is_bot (players (next_turn e g)) = map is_bot (players g)"
  "map timeouts (players (next_turn e g)) = map timeouts (players g)"
  by (rule unflag_map [OF next_turn_unflag]; simp)+

lemma length_next_turn [simp]: "length (players (next_turn e g)) = length (players g)"
  by (metis length_map next_turn_players(1))

lemma next_turn_seat: "players g \<noteq> [] \<Longrightarrow> current_player_idx (next_turn e g) < length (players g)"
  using turned_loop [of g "length (players g)"] by (auto simp: next_turn_def reset_deadline_def Let_def)

lemma players_upd_player [simp]: "players (upd_player i f g) = (players g)[i := f (players g ! i)]"
  by (simp add: upd_player_def)

lemma upd_player_fields [simp]:
  "game_id (upd_player i f g) = game_id g"
  "board (upd_player i f g) = board g" "bag (upd_player i f g) = bag g"
  "current_player_idx (upd_player i f g) = current_player_idx g"
  "started (upd_player i f g) = started g" "finished (upd_player i f g) = finished g"
  "winners (upd_player i f g) = winners g" "puzzle (upd_player i f g) = puzzle g"
  "async_mode (upd_player i f g) = async_mode g"
  "scoreless_turns (upd_player i f g) = scoreless_turns g"
  "turn_number (upd_player i f g) = turn_number g" "challenge_mode (upd_player i f g) = challenge_mode g"
  "pending_challenge (upd_player i f g) = pending_challenge g" "move_log (upd_player i f g) = move_log g"
  "hints_used (upd_player i f g) = hints_used g" "hint_limit (upd_player i f g) = hint_limit g"
  by (simp_all add: upd_player_def)

section \<open>Hands\<close>

lemma remove_at_position:
  "position (\<lambda>t. t = x) xs = Some i \<Longrightarrow> remove_at i xs = remove1 x xs \<and> x \<in> set xs"
proof (induction xs arbitrary: i)
  case (Cons y ys)
  show ?case
  proof (cases "y = x")
    case True then show ?thesis using Cons.prems by (auto simp: remove_at_def)
  next
    case False
    then obtain j where "position (\<lambda>t. t = x) ys = Some j" "i = Suc j"
      using Cons.prems by (auto split: option.splits)
    then show ?thesis using Cons.IH [of j] False by (simp add: remove_at_def)
  qed
qed simp

lemma position_eq_None: "position (\<lambda>t. t = x) xs = None \<longleftrightarrow> x \<notin> set xs"
  by (auto simp: position_None_iff)

lemma remove_tiles_snd: "snd (remove_tiles_from_hand h ps) = map hand_tile ps"
  by (induction ps arbitrary: h) (auto simp: Let_def split: prod.split, metis snd_conv)

lemma remove_tiles_fst_subset: "mset (fst (remove_tiles_from_hand h ps)) \<subseteq># mset h"
proof (induction ps arbitrary: h)
  case (Cons p ps)
  let ?h = "case position (\<lambda>t. t = hand_tile p) h of Some i \<Rightarrow> remove_at i h | None \<Rightarrow> h"
  have "mset ?h \<subseteq># mset h"
    by (auto dest: remove_at_position split: option.split)
  then show ?case
    using Cons.IH [of ?h] by (auto simp: Let_def split: prod.split intro: subset_mset.order_trans)
qed simp

text \<open>The hand check passes exactly when the hand holds the placed tiles, with multiplicity.\<close>

lemma validate_hand_iff: "validate_hand h ps = None \<longleftrightarrow> mset (map hand_tile ps) \<subseteq># mset h"
proof (induction ps arbitrary: h)
  case (Cons p ps)
  show ?case
  proof (cases "position (\<lambda>t. t = hand_tile p) h")
    case None
    then have "hand_tile p \<notin> set h" by (simp add: position_eq_None)
    then have "\<not> mset (map hand_tile (p # ps)) \<subseteq># mset h"
      by (metis list.set_intros(1) list.simps(9) mset_subset_eqD set_mset_mset)
    then show ?thesis using None by simp
  next
    case (Some i)
    then show ?thesis
      using remove_at_position [OF Some] Cons.IH [of "remove_at i h"]
      by (auto simp: insert_subset_eq_iff)
  qed
qed simp

lemma remove_tiles_conserves:
  "validate_hand h ps = None \<Longrightarrow>
   mset h = mset (fst (remove_tiles_from_hand h ps)) + mset (map hand_tile ps)"
proof (induction ps arbitrary: h)
  case (Cons p ps)
  then obtain i where i: "position (\<lambda>t. t = hand_tile p) h = Some i"
    and v: "validate_hand (remove_at i h) ps = None"
    by (auto split: option.splits)
  then show ?case
    using Cons.IH [OF v] remove_at_position [OF i] by (auto simp: Let_def split: prod.split)
       (metis add_mset_remove_trivial_eq fst_conv insert_DiffM mset_remove1 set_mset_mset union_mset_add_mset_left)
qed simp
lemma legal_tiles_on_board: "legal_geometry b ps \<Longrightarrow> p \<in> set ps \<Longrightarrow> on_board p"
  by (simp add: legal_geometry_def)

section \<open>The tiles of a game\<close>

definition board_squares :: "(nat \<times> nat) set" where
  "board_squares = {..<BOARD_SIZE} \<times> {..<BOARD_SIZE}"

definition cell_tiles :: "cell option \<Rightarrow> tile multiset" where
  "cell_tiles c = (case c of None \<Rightarrow> {#} | Some x \<Rightarrow> {#if cell_blank x then BLANK else cell_letter x#})"

definition board_tiles :: "board \<Rightarrow> tile multiset" where
  "board_tiles b = (\<Sum>rc\<in>board_squares. cell_tiles (cells b (fst rc) (snd rc)))"

definition hand_tiles :: "game \<Rightarrow> tile multiset" where
  "hand_tiles g = mset (concat (map hand (players g)))"

definition pending_tiles :: "game \<Rightarrow> tile multiset" where
  "pending_tiles g =
     (case pending_challenge g of None \<Rightarrow> {#} | Some pc \<Rightarrow> mset (removed_from_hand pc))"

definition tiles_in_play :: "game \<Rightarrow> tile multiset" where
  "tiles_in_play g = board_tiles (board g) + hand_tiles g + mset (bag g) + pending_tiles g"

lemma finite_board_squares [simp]: "finite board_squares"
  by (simp add: board_squares_def)

lemma board_tiles_put:
  assumes "cells b r c = None" "r < BOARD_SIZE" "c < BOARD_SIZE"
  shows "board_tiles (put_cell r c x b) = board_tiles b + cell_tiles (Some x)"
proof -
  have mem: "(r, c) \<in> board_squares" using assms by (simp add: board_squares_def)
  have "board_tiles (put_cell r c x b)
      = cell_tiles (Some x) + (\<Sum>rc\<in>board_squares - {(r, c)}. cell_tiles (cells (put_cell r c x b) (fst rc) (snd rc)))"
    unfolding board_tiles_def by (subst sum.remove [OF _ mem]) (simp_all add: cells_put_cell)
  also have "(\<Sum>rc\<in>board_squares - {(r, c)}. cell_tiles (cells (put_cell r c x b) (fst rc) (snd rc)))
      = (\<Sum>rc\<in>board_squares - {(r, c)}. cell_tiles (cells b (fst rc) (snd rc)))"
    by (rule sum.cong) (auto simp: cells_put_cell)
  also have "\<dots> = board_tiles b"
    unfolding board_tiles_def using sum.remove [OF finite_board_squares mem, of "\<lambda>rc. cell_tiles (cells b (fst rc) (snd rc))"]
    by (simp add: assms(1)) (simp add: cell_tiles_def)
  finally show ?thesis by (simp add: add.commute)
qed

lemma board_tiles_lay:
  assumes "\<forall>p\<in>set ps. on_board p \<and> \<not> occupied b (square_of p)" "distinct (squares_of ps)"
  shows "board_tiles (lay_tiles ps b) = board_tiles b + mset (map hand_tile ps)"
  using assms
proof (induction ps arbitrary: b)
  case (Cons p ps)
  have sq: "square_of p = (nat (p_row p), nat (p_col p))" by (simp add: square_of_def)
  have free: "cells b (nat (p_row p)) (nat (p_col p)) = None"
    and small: "nat (p_row p) < BOARD_SIZE" "nat (p_col p) < BOARD_SIZE"
    using Cons.prems(1) by (auto simp: occupied_def sq on_board_def)
  have other: "\<not> occupied (lay_tile p b) (square_of q)" if "q \<in> set ps" for q
  proof -
    have "square_of q \<noteq> square_of p" using that Cons.prems(2) by (auto simp: squares_of_def dest: rev_image_eqI [of _ _ _ square_of])
    then show ?thesis
      using that Cons.prems(1) by (auto simp: occupied_def lay_tile_def cells_put_cell square_of_def)
  qed
  have "board_tiles (lay_tiles (p # ps) b) = board_tiles (lay_tile p b) + mset (map hand_tile ps)"
    using Cons.IH [of "lay_tile p b"] Cons.prems other by (simp add: squares_of_def)
  also have "board_tiles (lay_tile p b) = board_tiles b + {#hand_tile p#}"
    unfolding lay_tile_def by (subst board_tiles_put [OF free small]) (simp add: cell_tiles_def hand_tile_def)
  finally show ?case by simp
qed simp

lemma board_tiles_apply:
  "legal_geometry b ps \<Longrightarrow> board_tiles (apply_placement ps b) = board_tiles b + mset (map hand_tile ps)"
  using board_tiles_lay [of ps b] by (simp add: legal_geometry_def board_tiles_def cells_apply_placement)

lemma board_tiles_new [simp]: "board_tiles board_new = {#}"
  by (simp add: board_tiles_def board_new_def cell_tiles_def)

lemma concat_update:
  "i < length xss \<Longrightarrow> mset (concat (xss[i := ys])) + mset (xss ! i) = mset (concat xss) + mset ys"
proof (induction xss arbitrary: i)
  case (Cons xs xss)
  show ?case
  proof (cases i)
    case (Suc j)
    then show ?thesis using Cons.IH [of j] Cons.prems by (simp add: union_ac)
  qed (simp add: union_ac)
qed simp

text \<open>Changing one hand changes the tiles in the hands accordingly.\<close>

lemma hand_tiles_upd:
  assumes "i < length (players g)"
  shows "hand_tiles (upd_player i f g) + mset (hand (players g ! i)) = hand_tiles g + mset (hand (f (players g ! i)))"
  using concat_update [of i "map hand (players g)" "hand (f (players g ! i))"] assms
  by (simp add: hand_tiles_def map_update)

lemma hand_tiles_upd_same [simp]:
  "(\<And>p. hand (f p) = hand p) \<Longrightarrow> hand_tiles (upd_player i f g) = hand_tiles g"
proof (cases "i < length (players g)")
  case True
  assume "\<And>p. hand (f p) = hand p"
  with hand_tiles_upd [OF True, of f] show ?thesis by simp
qed (simp add: hand_tiles_def list_update_beyond)

lemma hand_tiles_next_turn [simp]: "hand_tiles (next_turn e g) = hand_tiles g"
  by (simp add: hand_tiles_def)

lemma tiles_in_play_next_turn [simp]: "tiles_in_play (next_turn e g) = tiles_in_play g"
  by (simp add: tiles_in_play_def pending_tiles_def)

section \<open>The invariant\<close>

definition rack_ok :: "tile list \<Rightarrow> bool" where
  "rack_ok h \<longleftrightarrow> length h \<le> HAND_SIZE \<and> list_all tile_ok h"

definition seat_ok :: "game \<Rightarrow> bool" where
  "seat_ok g \<longleftrightarrow> current_player_idx g < length (players g) \<or> players g = [] \<and> current_player_idx g = 0"

definition game_base :: "game \<Rightarrow> bool" where
  "game_base g \<longleftrightarrow>
     board_ok (board g) \<and> list_all tile_ok (bag g) \<and> list_all rack_ok (map hand (players g))
     \<and> length (players g) \<le> 4 \<and> seat_ok g
     \<and> (\<not> started g \<longrightarrow> list_all (\<lambda>h. h = []) (map hand (players g)))"

text \<open>A pending placement is the legal move of the player to move, its tiles taken from the hand.\<close>

definition pending_ok :: "game \<Rightarrow> challenge \<Rightarrow> bool" where
  "pending_ok g pc \<longleftrightarrow>
     player_idx pc = current_player_idx g \<and> player_idx pc < length (players g)
     \<and> legal_geometry (board g) (tiles_placed pc)
     \<and> list_all (\<lambda>p. tile_ok (p_letter p)) (tiles_placed pc)
     \<and> removed_from_hand pc = map hand_tile (tiles_placed pc)
     \<and> length (hand (players g ! player_idx pc)) + length (removed_from_hand pc) \<le> HAND_SIZE
     \<and> formed_words pc = placement_words (board g) (tiles_placed pc)
     \<and> word_strs pc = map fw_word (formed_words pc)
     \<and> ch_score pc = lerakas_total (formed_words pc) (length (tiles_placed pc))"

definition game_ok :: "game \<Rightarrow> bool" where
  "game_ok g \<longleftrightarrow>
     game_base g \<and> (finished g \<or> scoreless_turns g < SCORELESS_TURNS_LIMIT)
     \<and> (case pending_challenge g of None \<Rightarrow> True | Some pc \<Rightarrow> started g \<and> \<not> finished g \<and> pending_ok g pc)"

lemma game_okD: "game_ok g \<Longrightarrow> game_base g"
  by (simp add: game_ok_def)

lemma tile_ok_BLANK [simp]: "tile_ok BLANK"
  by (simp add: tile_ok_def BLANK_def)

lemma tile_ok_hand_tile: "tile_ok (p_letter p) \<Longrightarrow> tile_ok (hand_tile p)"
  by (simp add: hand_tile_def)

lemma game_ok_simple [simp]:
  "game_ok (set_last_action a i g) = game_ok g" "game_ok (record_move n act ts ws sc r g) = game_ok g"
  "game_ok (announce_place n wds sc g) = game_ok g" "game_ok (reset_deadline e g) = game_ok g"
  "game_base (set_last_action a i g) = game_base g" "game_base (record_move n act ts ws sc r g) = game_base g"
  "game_base (announce_place n wds sc g) = game_base g" "game_base (reset_deadline e g) = game_base g"
  by (simp_all add: game_ok_def game_base_def pending_ok_def seat_ok_def text_step_defs split: option.split)

lemma tiles_in_play_simple [simp]:
  "tiles_in_play (set_last_action a i g) = tiles_in_play g"
  "tiles_in_play (record_move n act ts ws sc r g) = tiles_in_play g"
  "tiles_in_play (announce_place n wds sc g) = tiles_in_play g"
  "tiles_in_play (reset_deadline e g) = tiles_in_play g"
  "tiles_in_play (announce_winners t g) = tiles_in_play g"
  by (simp_all add: tiles_in_play_def pending_tiles_def hand_tiles_def text_step_defs)

lemma seat_ok_next_turn: "seat_ok g \<Longrightarrow> seat_ok (next_turn e g)"
proof (cases "players g = []")
  case True
  assume "seat_ok g"
  with True show ?thesis by (simp add: seat_ok_def next_turn_def reset_deadline_def)
next
  case False
  then show ?thesis using next_turn_seat [of g e] by (simp add: seat_ok_def)
qed

lemma game_base_next_turn [simp]: "game_base g \<Longrightarrow> game_base (next_turn e g)"
  using seat_ok_next_turn [of g e] by (simp add: game_base_def)

lemma game_base_upd:
  "game_base g \<Longrightarrow> started g \<Longrightarrow> i < length (players g) \<Longrightarrow> rack_ok (hand (f (players g ! i)))
    \<Longrightarrow> game_base (upd_player i f g)"
  by (auto simp: game_base_def seat_ok_def list_all_length nth_list_update map_update)

lemma game_base_upd_same:
  "game_base g \<Longrightarrow> (\<And>p. hand (f p) = hand p) \<Longrightarrow> game_base (upd_player i f g)"
  by (cases "i < length (players g)")
    (auto simp: game_base_def seat_ok_def list_all_length nth_list_update map_update list_update_beyond)

lemma hand_end_game [simp]: "map hand (players (end_game fin g)) = map hand (players g)"
proof (rule nth_equalityI)
  show "length (map hand (players (end_game fin g))) = length (map hand (players g))"
    by (simp add: end_game_def Let_def split: option.split)
next
  fix i assume "i < length (map hand (players (end_game fin g)))"
  then have "i < length (players g)" by (simp add: end_game_def Let_def split: option.splits)
  then show "map hand (players (end_game fin g)) ! i = map hand (players g) ! i"
    by (cases fin; cases "fin = Some i")
      (auto simp: end_game_def Let_def deduct_hand_def)
qed

lemma length_end_game [simp]: "length (players (end_game fin g)) = length (players g)"
  by (metis hand_end_game length_map)

lemma end_game_fields [simp]:
  "finished (end_game fin g)" "pending_challenge (end_game fin g) = None"
  "board (end_game fin g) = board g" "bag (end_game fin g) = bag g" "started (end_game fin g) = started g"
  "current_player_idx (end_game fin g) = current_player_idx g" "puzzle (end_game fin g) = puzzle g"
  "move_log (end_game fin g) = move_log g" "game_id (end_game fin g) = game_id g"
  "turn_number (end_game fin g) = turn_number g" "scoreless_turns (end_game fin g) = scoreless_turns g"
  "async_mode (end_game fin g) = async_mode g" "challenge_mode (end_game fin g) = challenge_mode g"
  "turn_hours (end_game fin g) = turn_hours g"
  "hints_used (end_game fin g) = hints_used g" "hint_limit (end_game fin g) = hint_limit g"
  by (simp_all add: end_game_def Let_def)

lemma players_Nil_iff_length: "length ps = length qs \<Longrightarrow> ps = [] \<longleftrightarrow> qs = []"
  by auto

lemma game_base_end_game: "game_base g \<Longrightarrow> game_base (end_game fin g)"
  using players_Nil_iff_length [OF length_end_game [of fin g]]
  by (simp add: game_base_def seat_ok_def)

lemma game_ok_end_game: "game_base g \<Longrightarrow> game_ok (end_game fin g)"
  by (simp add: game_ok_def game_base_end_game)

lemma tiles_end_game: "tiles_in_play (end_game fin g) + pending_tiles g = tiles_in_play g"
  by (simp add: tiles_in_play_def pending_tiles_def hand_tiles_def)

section \<open>Refilling and finalising\<close>

lemma refill_eq:
  "refill i g = (let d = draw (usize_sub HAND_SIZE (length (hand (players g ! i)))) (bag g)
     in (upd_player i (\<lambda>p. p\<lparr>hand := hand p @ fst d\<rparr>) g)\<lparr>bag := snd d\<rparr>)"
  by (simp add: refill_def case_prod_beta Let_def)

lemma refill_fields [simp]:
  "board (refill i g) = board g" "started (refill i g) = started g" "finished (refill i g) = finished g"
  "current_player_idx (refill i g) = current_player_idx g" "pending_challenge (refill i g) = pending_challenge g"
  "puzzle (refill i g) = puzzle g" "length (players (refill i g)) = length (players g)"
  "scoreless_turns (refill i g) = scoreless_turns g" "move_log (refill i g) = move_log g"
  by (simp_all add: refill_eq Let_def)

lemma refill_hand:
  "i < length (players g) \<Longrightarrow> hand (players (refill i g) ! i)
     = hand (players g ! i) @ fst (draw (usize_sub HAND_SIZE (length (hand (players g ! i)))) (bag g))"
  by (simp add: refill_eq Let_def)

lemma list_all_draw: "list_all P b \<Longrightarrow> list_all P (fst (draw n b)) \<and> list_all P (snd (draw n b))"
  by (auto simp: draw_eq list_all_iff dest: in_set_dropD in_set_takeD)

lemma game_base_refill:
  assumes "game_base g" "started g" "i < length (players g)"
  shows "game_base (refill i g)"
proof -
  let ?d = "draw (usize_sub HAND_SIZE (length (hand (players g ! i)))) (bag g)"
  have rack: "rack_ok (hand (players g ! i))"
    using assms by (simp add: game_base_def list_all_length)
  have bag: "list_all tile_ok (bag g)" using assms by (simp add: game_base_def)
  have "rack_ok (hand (players g ! i) @ fst ?d)"
    using rack list_all_draw [OF bag] by (auto simp: rack_ok_def)
  then have "game_base (upd_player i (\<lambda>p. p\<lparr>hand := hand p @ fst ?d\<rparr>) g)"
    by (intro game_base_upd assms) simp
  then show ?thesis
    using list_all_draw [OF bag] by (simp add: refill_eq Let_def game_base_def seat_ok_def)
qed

lemma tiles_refill:
  assumes "i < length (players g)"
  shows "tiles_in_play (refill i g) = tiles_in_play g"
proof -
  let ?d = "draw (usize_sub HAND_SIZE (length (hand (players g ! i)))) (bag g)"
  have "hand_tiles (refill i g) = hand_tiles g + mset (fst ?d)"
    using hand_tiles_upd [OF assms, of "\<lambda>p. p\<lparr>hand := hand p @ fst ?d\<rparr>"]
    by (simp add: refill_eq Let_def hand_tiles_def)
  moreover have "mset (bag (refill i g)) + mset (fst ?d) = mset (bag g)"
    using draw_conserves [of _ "bag g"] by (simp add: refill_eq Let_def add.commute)
  ultimately show ?thesis
    by (simp add: tiles_in_play_def pending_tiles_def) (metis add.commute add.left_commute)
qed

text \<open>Handing in tiles: the hand check makes the removal exact.\<close>

lemma rack_ok_remove:
  assumes "rack_ok h" "validate_hand h ps = None"
  shows "rack_ok (fst (remove_tiles_from_hand h ps))"
    and "length (fst (remove_tiles_from_hand h ps)) + length ps = length h"
proof -
  let ?h = "fst (remove_tiles_from_hand h ps)"
  have m: "mset h = mset ?h + mset (map hand_tile ps)" by (rule remove_tiles_conserves [OF assms(2)])
  from arg_cong [OF m, of size] show len: "length ?h + length ps = length h" by simp
  from arg_cong [OF m, of set_mset] have "set ?h \<subseteq> set h" by auto
  then show "rack_ok ?h" using assms(1) len by (auto simp: rack_ok_def list_all_iff)
qed

text \<open>The common setting of the finalising operations: the tiles of \<open>ps\<close> fit the board.\<close>

definition placeable :: "game \<Rightarrow> placed list \<Rightarrow> bool" where
  "placeable g ps \<longleftrightarrow>
     legal_geometry (board g) ps \<and> list_all (\<lambda>p. tile_ok (p_letter p)) ps"

lemma placeable_board_ok:
  "board_ok (board g) \<Longrightarrow> placeable g ps \<Longrightarrow> board_ok (apply_placement ps (board g))"
  using board_ok_apply [of "board g" ps]
  by (auto simp: placeable_def legal_geometry_def list_all_iff)

lemma game_base_board:
  "game_base g \<Longrightarrow> board_ok b \<Longrightarrow> game_base (g\<lparr>board := b, rejected_placements := r\<rparr>)"
  by (simp add: game_base_def seat_ok_def)

lemma finish_puzzle_fields [simp]:
  "players (finish_puzzle i sc ws g) = players g" "board (finish_puzzle i sc ws g) = board g"
  "bag (finish_puzzle i sc ws g) = bag g" "started (finish_puzzle i sc ws g) = started g"
  "finished (finish_puzzle i sc ws g)" "current_player_idx (finish_puzzle i sc ws g) = current_player_idx g"
  "pending_challenge (finish_puzzle i sc ws g) = pending_challenge g"
  "scoreless_turns (finish_puzzle i sc ws g) = scoreless_turns g"
  "move_log (finish_puzzle i sc ws g) = move_log g"
  by (simp_all add: finish_puzzle_def set_last_action_def Let_def)

definition after_move :: "nat \<Rightarrow> env \<Rightarrow> game \<Rightarrow> game" where
  "after_move idx e g =
     (if hand (players g ! idx) = [] \<and> bag g = [] then end_game (Some idx) g else next_turn e g)"

lemma game_ok_after_move:
  assumes "game_base g" "pending_challenge g = None" "scoreless_turns g < SCORELESS_TURNS_LIMIT"
  shows "game_ok (after_move i e g)" "tiles_in_play (after_move i e g) = tiles_in_play g"
  using assms tiles_end_game [of "Some i" g] game_ok_end_game [of g "Some i"]
  by (simp_all add: after_move_def game_ok_def pending_tiles_def)

definition placed_state :: "placed list \<Rightarrow> int \<Rightarrow> game \<Rightarrow> game" where
  "placed_state tiles sc g =
     (let idx = current_player_idx g
      in upd_player idx (timeouts_update (\<lambda>_. 0))
          ((refill idx (upd_player idx (\<lambda>p. p\<lparr>score := score p + sc,
                  hand := fst (remove_tiles_from_hand (hand p) tiles)\<rparr>)
              (g\<lparr>board := apply_placement tiles (board g), rejected_placements := {}\<rparr>)))\<lparr>scoreless_turns := 0\<rparr>))"

lemma placed_state_ok:
  assumes base: "game_base g" and st: "started g" and i: "current_player_idx g < length (players g)"
    and fits: "placeable g tiles" and v: "validate_hand (hand (players g ! current_player_idx g)) tiles = None"
  shows "game_base (placed_state tiles sc g)" "tiles_in_play (placed_state tiles sc g) = tiles_in_play g"
    "pending_challenge (placed_state tiles sc g) = pending_challenge g"
    "scoreless_turns (placed_state tiles sc g) = 0"
proof -
  let ?i = "current_player_idx g"
  let ?f = "\<lambda>p. p\<lparr>score := score p + sc, hand := fst (remove_tiles_from_hand (hand p) tiles)\<rparr>"
  let ?g1 = "g\<lparr>board := apply_placement tiles (board g), rejected_placements := {}\<rparr>"
  let ?g2 = "upd_player ?i ?f ?g1"
  have rack: "rack_ok (hand (players g ! ?i))" using base i by (simp add: game_base_def list_all_length)
  have "game_base ?g1"
    using base fits by (intro game_base_board placeable_board_ok) (simp_all add: game_base_def)
  then have b2: "game_base ?g2"
    using i st rack_ok_remove(1) [OF rack v] by (intro game_base_upd) simp_all
  then have "game_base (refill ?i ?g2)" using st i by (intro game_base_refill) simp_all
  then have "game_base ((refill ?i ?g2)\<lparr>scoreless_turns := 0\<rparr>)" by (simp add: game_base_def seat_ok_def)
  then show "game_base (placed_state tiles sc g)"
    unfolding placed_state_def Let_def by (rule game_base_upd_same) simp
  have "hand_tiles ?g2 + mset (map hand_tile tiles) = hand_tiles g"
    using hand_tiles_upd [of ?i ?g1 ?f] i remove_tiles_conserves [OF v]
    by (simp add: hand_tiles_def union_assoc [symmetric])
  moreover have "board_tiles (apply_placement tiles (board g)) = board_tiles (board g) + mset (map hand_tile tiles)"
    using fits by (intro board_tiles_apply) (simp add: placeable_def)
  ultimately have "tiles_in_play ?g2 = tiles_in_play g"
    by (simp add: tiles_in_play_def pending_tiles_def union_ac)
  then have r: "tiles_in_play (refill ?i ?g2) = tiles_in_play g"
    using tiles_refill [of ?i ?g2] i by simp
  show "tiles_in_play (placed_state tiles sc g) = tiles_in_play g"
    unfolding placed_state_def Let_def r [symmetric] by (simp add: tiles_in_play_def pending_tiles_def hand_tiles_def [of "_\<lparr>scoreless_turns := _\<rparr>"] hand_tiles_def [of "refill _ _"])
qed (simp_all add: placed_state_def Let_def)

section \<open>Placing tiles\<close>

lemma finalize_placement_eq:
  "\<exists>n act ts ws' r t. finalize_placement e tiles sc ws formed g
     = (let g4 = record_move n act ts ws' r t (announce_place n ws sc (placed_state tiles sc g))
        in if puzzle g4 \<noteq> None then finish_puzzle (current_player_idx g) sc ws g4
           else after_move (current_player_idx g) e g4)"
  unfolding finalize_placement_def placed_state_def after_move_def Let_def by blast

lemma game_ok_finalize_placement:
  assumes "game_base g" "started g" "pending_challenge g = None" "current_player_idx g < length (players g)"
    "placeable g tiles" "validate_hand (hand (players g ! current_player_idx g)) tiles = None"
  shows "game_ok (finalize_placement e tiles sc ws formed g)"
    "tiles_in_play (finalize_placement e tiles sc ws formed g) = tiles_in_play g"
proof -
  note ok = placed_state_ok [OF assms(1,2,4,5,6), of sc]
  obtain n act ts ws' r t where eq: "finalize_placement e tiles sc ws formed g
     = (let g4 = record_move n act ts ws' r t (announce_place n ws sc (placed_state tiles sc g))
        in if puzzle g4 \<noteq> None then finish_puzzle (current_player_idx g) sc ws g4
           else after_move (current_player_idx g) e g4)"
    using finalize_placement_eq by blast
  let ?g4 = "record_move n act ts ws' r t (announce_place n ws sc (placed_state tiles sc g))"
  have b: "game_base ?g4" using ok(1) by simp
  have p: "pending_challenge ?g4 = None" using ok(3) assms(3) by (simp add: text_step_defs)
  have s: "scoreless_turns ?g4 < SCORELESS_TURNS_LIMIT"
    using ok(4) by (simp add: text_step_defs SCORELESS_TURNS_LIMIT_def)
  have fin: "game_ok (finish_puzzle i sc ws ?g4)" "tiles_in_play (finish_puzzle i sc ws ?g4) = tiles_in_play ?g4" for i
    using b p by (simp_all add: game_ok_def game_base_def seat_ok_def tiles_in_play_def hand_tiles_def pending_tiles_def)
  show "game_ok (finalize_placement e tiles sc ws formed g)"
    unfolding eq Let_def using fin(1) game_ok_after_move(1) [OF b p s] by simp
  show "tiles_in_play (finalize_placement e tiles sc ws formed g) = tiles_in_play g"
    unfolding eq Let_def using fin(2) game_ok_after_move(2) [OF b p s] ok(2) by simp
qed

lemma current_player_Some:
  "current_player g = Some p \<longleftrightarrow> current_player_idx g < length (players g) \<and> p = players g ! current_player_idx g"
  by (auto simp: current_player_def)

lemma placement_refused_None:
  "placement_refused pid tiles g = None \<longleftrightarrow>
     \<not> finished g \<and> pending_challenge g = None \<and> current_player_idx g < length (players g)
     \<and> player_id (players g ! current_player_idx g) = pid
     \<and> validate_hand (hand (players g ! current_player_idx g)) tiles = None"
  by (auto simp: placement_refused_def current_player_def)

lemma validate_placement_legal:
  "validate_placement chk b ps skip = Some (Inr formed) \<Longrightarrow> legal_geometry b ps \<and> formed = placement_words b ps"
  using validate_placement_verdict [of b ps chk skip] by (auto split: if_splits)

lemma validate_placement_no_panic: "validate_placement chk b ps skip \<noteq> None"
  using validate_placement_verdict [of b ps chk skip] by (cases "legal_geometry b ps") (auto split: if_splits)

lemma tiles_needed_started:
  "game_base g \<Longrightarrow> i < length (players g) \<Longrightarrow> validate_hand (hand (players g ! i)) ps = None \<Longrightarrow> ps \<noteq> [] \<Longrightarrow> started g"
  by (cases ps) (auto simp: game_base_def list_all_length)

lemma place_tiles_preserves:
  assumes ok: "game_ok g" and tiles: "list_all (\<lambda>p. tile_ok (p_letter p)) tiles"
  shows "game_ok (snd (place_tiles e pid tiles g)) \<and> fst (place_tiles e pid tiles g) \<noteq> Panic
    \<and> tiles_in_play (snd (place_tiles e pid tiles g)) = tiles_in_play g"
proof (cases "placement_refused pid tiles g")
  case (Some err)
  then show ?thesis using ok by (simp add: place_tiles_def)
next
  case None
  let ?i = "current_player_idx g"
  have i: "?i < length (players g)" and pend: "pending_challenge g = None" and nf: "\<not> finished g"
    and v: "validate_hand (hand (players g ! ?i)) tiles = None"
    using None by (auto simp: placement_refused_None)
  have base: "game_base g" using ok by (rule game_okD)
  obtain r where r: "validate_placement (check_fn e) (board g) tiles (challenge_applies ?i g) = Some r"
    using validate_placement_no_panic by blast
  show ?thesis
  proof (cases r)
    case (Inl err)
    then show ?thesis using ok None r by (simp add: place_tiles_def Let_def)
  next
    case (Inr formed)
    with r have legal: "legal_geometry (board g) tiles" and formed: "formed = placement_words (board g) tiles"
      using validate_placement_legal by blast+
    have fits: "placeable g tiles" using legal tiles by (simp add: placeable_def)
    have st: "started g" using tiles_needed_started [OF base i v] legal by (simp add: legal_geometry_def)
    have sc: "scoreless_turns g < SCORELESS_TURNS_LIMIT" using ok nf by (simp add: game_ok_def)
    have rack: "rack_ok (hand (players g ! ?i))" using base i by (simp add: game_base_def list_all_length)
    let ?rm = "remove_tiles_from_hand (hand (players g ! ?i)) tiles"
    let ?total = "lerakas_total formed (length tiles)" and ?ws = "map fw_word formed"
    let ?pc = "challenge_new (now_secs e) tiles formed ?ws ?total ?i (snd ?rm)"
    let ?g0 = "upd_player ?i (hand_update (\<lambda>_. fst ?rm)) g"
    let ?g1 = "?g0\<lparr>pending_challenge := Some ?pc\<rparr>"
    have b0: "game_base ?g0" using base st i rack_ok_remove(1) [OF rack v] by (intro game_base_upd) simp_all
    have len: "length (fst ?rm) + length tiles \<le> HAND_SIZE"
      using rack_ok_remove(2) [OF rack v] rack by (simp add: rack_ok_def)
    have "pending_ok ?g1 ?pc"
      using legal tiles i len formed by (simp add: pending_ok_def challenge_new_def remove_tiles_snd)
    then have g1: "game_ok ?g1"
      using b0 sc st nf by (simp add: game_ok_def game_base_def seat_ok_def)
    have "hand_tiles ?g0 + mset (map hand_tile tiles) = hand_tiles g"
      using hand_tiles_upd [OF i, of "hand_update (\<lambda>_. fst ?rm)"] remove_tiles_conserves [OF v]
      by (simp add: union_assoc [symmetric])
    then have t1: "tiles_in_play ?g1 = tiles_in_play g"
      using pend by (simp add: tiles_in_play_def pending_tiles_def challenge_new_def remove_tiles_snd hand_tiles_def union_ac)
    note fp = game_ok_finalize_placement [OF base st pend i fits v]
    show ?thesis
      using None r Inr g1 t1 fp by (auto simp: place_tiles_def Let_def case_prod_beta)
  qed
qed

section \<open>Resolving a pending placement\<close>

lemma text_step_fields [simp]:
  "players (set_last_action a i g) = players g" "board (set_last_action a i g) = board g"
  "bag (set_last_action a i g) = bag g" "started (set_last_action a i g) = started g"
  "finished (set_last_action a i g) = finished g"
  "current_player_idx (set_last_action a i g) = current_player_idx g"
  "pending_challenge (set_last_action a i g) = pending_challenge g"
  "puzzle (set_last_action a i g) = puzzle g" "scoreless_turns (set_last_action a i g) = scoreless_turns g"
  "turn_number (set_last_action a i g) = turn_number g" "async_mode (set_last_action a i g) = async_mode g"
  "winners (set_last_action a i g) = winners g" "challenge_mode (set_last_action a i g) = challenge_mode g"
  "rejected_placements (set_last_action a i g) = rejected_placements g"
  "players (record_move n act ts ws sc r g) = players g" "board (record_move n act ts ws sc r g) = board g"
  "bag (record_move n act ts ws sc r g) = bag g" "started (record_move n act ts ws sc r g) = started g"
  "finished (record_move n act ts ws sc r g) = finished g"
  "current_player_idx (record_move n act ts ws sc r g) = current_player_idx g"
  "pending_challenge (record_move n act ts ws sc r g) = pending_challenge g"
  "puzzle (record_move n act ts ws sc r g) = puzzle g"
  "scoreless_turns (record_move n act ts ws sc r g) = scoreless_turns g"
  "turn_number (record_move n act ts ws sc r g) = turn_number g"
  "async_mode (record_move n act ts ws sc r g) = async_mode g"
  "winners (record_move n act ts ws sc r g) = winners g"
  "challenge_mode (record_move n act ts ws sc r g) = challenge_mode g"
  "rejected_placements (record_move n act ts ws sc r g) = rejected_placements g"
  "players (announce_place n wds sc g) = players g" "board (announce_place n wds sc g) = board g"
  "bag (announce_place n wds sc g) = bag g" "started (announce_place n wds sc g) = started g"
  "finished (announce_place n wds sc g) = finished g"
  "current_player_idx (announce_place n wds sc g) = current_player_idx g"
  "pending_challenge (announce_place n wds sc g) = pending_challenge g"
  "puzzle (announce_place n wds sc g) = puzzle g"
  "scoreless_turns (announce_place n wds sc g) = scoreless_turns g"
  "turn_number (announce_place n wds sc g) = turn_number g"
  "async_mode (announce_place n wds sc g) = async_mode g" "winners (announce_place n wds sc g) = winners g"
  "challenge_mode (announce_place n wds sc g) = challenge_mode g"
  "rejected_placements (announce_place n wds sc g) = rejected_placements g"
  "players (reset_deadline e g) = players g" "board (reset_deadline e g) = board g"
  "bag (reset_deadline e g) = bag g" "started (reset_deadline e g) = started g"
  "finished (reset_deadline e g) = finished g"
  "current_player_idx (reset_deadline e g) = current_player_idx g"
  "pending_challenge (reset_deadline e g) = pending_challenge g" "puzzle (reset_deadline e g) = puzzle g"
  "scoreless_turns (reset_deadline e g) = scoreless_turns g"
  "turn_number (reset_deadline e g) = turn_number g" "async_mode (reset_deadline e g) = async_mode g"
  "winners (reset_deadline e g) = winners g" "challenge_mode (reset_deadline e g) = challenge_mode g"
  "rejected_placements (reset_deadline e g) = rejected_placements g"
  by (simp_all add: text_step_defs)

lemma game_base_other [simp]:
  "game_base (g\<lparr>pending_challenge := pc\<rparr>) = game_base g"
  "game_base (g\<lparr>rejected_placements := r\<rparr>) = game_base g" "game_base (g\<lparr>scoreless_turns := n\<rparr>) = game_base g"
  "game_base (g\<lparr>turn_number := k\<rparr>) = game_base g" "game_base (g\<lparr>hints_used := h\<rparr>) = game_base g"
  "game_base (g\<lparr>winners := ws\<rparr>) = game_base g"
  by (simp_all add: game_base_def seat_ok_def)

lemma hand_tiles_other [simp]:
  "hand_tiles (g\<lparr>pending_challenge := pc\<rparr>) = hand_tiles g" "hand_tiles (g\<lparr>board := b\<rparr>) = hand_tiles g"
  "hand_tiles (g\<lparr>rejected_placements := r\<rparr>) = hand_tiles g" "hand_tiles (g\<lparr>scoreless_turns := n\<rparr>) = hand_tiles g"
  "hand_tiles (g\<lparr>bag := bg\<rparr>) = hand_tiles g"
  by (simp_all add: hand_tiles_def)

lemma game_ok_pendingD:
  assumes "game_ok g" "pending_challenge g = Some pc"
  shows "started g" "\<not> finished g" "player_idx pc = current_player_idx g" "player_idx pc < length (players g)"
    "placeable g (tiles_placed pc)" "removed_from_hand pc = map hand_tile (tiles_placed pc)"
    "length (hand (players g ! player_idx pc)) + length (removed_from_hand pc) \<le> HAND_SIZE"
    "scoreless_turns g < SCORELESS_TURNS_LIMIT"
  using assms by (auto simp: game_ok_def pending_ok_def placeable_def)

lemma game_ok_placer_exists: "game_ok g \<Longrightarrow> placer_exists g"
  using game_ok_pendingD(4) by (auto simp: placer_exists_def split: option.split)

lemma tiles_pending:
  "pending_challenge g = Some pc \<Longrightarrow>
   tiles_in_play g = tiles_in_play (g\<lparr>pending_challenge := None\<rparr>) + mset (removed_from_hand pc)"
  by (simp add: tiles_in_play_def pending_tiles_def hand_tiles_def)

lemma finalize_accept_preserves:
  assumes ok: "game_ok g"
  shows "game_ok (finalize_accept e g) \<and> tiles_in_play (finalize_accept e g) = tiles_in_play g"
proof (cases "pending_challenge g")
  case None
  then show ?thesis using ok by (simp add: finalize_accept_def)
next
  case (Some pc)
  note pd = game_ok_pendingD [OF ok Some]
  let ?i = "player_idx pc"
  let ?g1 = "g\<lparr>pending_challenge := None, board := apply_placement (tiles_placed pc) (board g), rejected_placements := {}\<rparr>"
  let ?g2 = "upd_player ?i (\<lambda>p. p\<lparr>score := score p + ch_score pc\<rparr>) ?g1"
  let ?g3 = "(refill ?i ?g2)\<lparr>scoreless_turns := 0\<rparr>"
  have b: "game_base g" using ok by (rule game_okD)
  then have "board_ok (apply_placement (tiles_placed pc) (board g))"
    using placeable_board_ok [OF _ pd(5)] by (simp add: game_base_def)
  with b have "game_base ?g1" by (simp add: game_base_def seat_ok_def)
  then have "game_base ?g2" by (rule game_base_upd_same) simp
  then have "game_base (refill ?i ?g2)" by (rule game_base_refill) (simp_all add: pd(1,4))
  then have b3: "game_base ?g3" by (simp add: game_base_def seat_ok_def)
  have "board_tiles (apply_placement (tiles_placed pc) (board g)) = board_tiles (board g) + mset (removed_from_hand pc)"
    using pd(5,6) by (simp add: board_tiles_apply placeable_def)
  then have "tiles_in_play ?g2 = tiles_in_play g"
    using Some by (simp add: tiles_in_play_def pending_tiles_def hand_tiles_upd_same union_ac)
  then have t3: "tiles_in_play ?g3 = tiles_in_play g"
    using tiles_refill [of ?i ?g2] pd(4) by (simp add: tiles_in_play_def pending_tiles_def hand_tiles_def)
  obtain n act ts ws r t sc nm ws' where eq: "finalize_accept e g
      = after_move ?i e (record_move n act ts ws sc r (announce_place nm ws' t ?g3))"
    using Some unfolding finalize_accept_def after_move_def Let_def by (simp only: option.case)
  let ?g4 = "record_move n act ts ws sc r (announce_place nm ws' t ?g3)"
  have "game_base ?g4" "pending_challenge ?g4 = None" "scoreless_turns ?g4 < SCORELESS_TURNS_LIMIT"
    using b3 by (simp_all add: SCORELESS_TURNS_LIMIT_def)
  from game_ok_after_move [OF this, of ?i e] show ?thesis using t3 by (simp add: eq)
qed

lemma return_tiles_preserves:
  assumes ok: "game_ok g" and Some: "pending_challenge g = Some pc"
  shows "game_ok (return_tiles pc g)" "tiles_in_play (return_tiles pc g) = tiles_in_play g"
    "pending_challenge (return_tiles pc g) = None" "game_base (return_tiles pc g)"
    "length (players (return_tiles pc g)) = length (players g)"
    "scoreless_turns (return_tiles pc g) = scoreless_turns g"
proof -
  note pd = game_ok_pendingD [OF ok Some]
  let ?f = "\<lambda>p. p\<lparr>hand := hand p @ removed_from_hand pc\<rparr>"
  have b: "game_base g" using ok by (rule game_okD)
  have "rack_ok (hand (players g ! player_idx pc))" using b pd(4) by (simp add: game_base_def list_all_length)
  then have "rack_ok (hand (?f (players g ! player_idx pc)))"
    using pd(5,6,7) tile_ok_hand_tile by (auto simp: rack_ok_def placeable_def list_all_iff)
  then have "game_base (upd_player (player_idx pc) ?f g)" using b pd(1,4) by (intro game_base_upd)
  then show base: "game_base (return_tiles pc g)" by (simp add: return_tiles_def game_base_def seat_ok_def)
  then show "game_ok (return_tiles pc g)" using pd(8) by (simp add: game_ok_def return_tiles_def)
  show "tiles_in_play (return_tiles pc g) = tiles_in_play g"
    using hand_tiles_upd [OF pd(4), of ?f] Some
    by (simp add: tiles_in_play_def pending_tiles_def return_tiles_def hand_tiles_def)
qed (simp_all add: return_tiles_def)

lemma register_scoreless_preserves:
  assumes "game_base g" "pending_challenge g = None" "scoreless_turns g < SCORELESS_TURNS_LIMIT"
  shows "game_ok (snd (register_scoreless_turn g))"
    "tiles_in_play (snd (register_scoreless_turn g)) = tiles_in_play g"
    "pending_challenge (snd (register_scoreless_turn g)) = None"
    "finished (snd (register_scoreless_turn g)) \<longleftrightarrow> finished g \<or> fst (register_scoreless_turn g)"
    "length (players (snd (register_scoreless_turn g))) = length (players g)"
proof -
  let ?g = "g\<lparr>scoreless_turns := scoreless_turns g + 1\<rparr>"
  have b: "game_base ?g" using assms(1) by (simp add: game_base_def seat_ok_def)
  have t: "tiles_in_play ?g = tiles_in_play g" by (simp add: tiles_in_play_def pending_tiles_def hand_tiles_def)
  have te: "tiles_in_play (end_game None ?g) = tiles_in_play g"
    using tiles_end_game [of None ?g] assms(2) t by (simp add: pending_tiles_def)
  show "game_ok (snd (register_scoreless_turn g))"
    using game_ok_end_game [OF b, of None] b assms by (auto simp: register_scoreless_turn_def Let_def game_ok_def)
  show "tiles_in_play (snd (register_scoreless_turn g)) = tiles_in_play g"
    using te t by (simp add: register_scoreless_turn_def Let_def)
  show "pending_challenge (snd (register_scoreless_turn g)) = None"
    using assms(2) by (simp add: register_scoreless_turn_def Let_def)
  show "finished (snd (register_scoreless_turn g)) \<longleftrightarrow> finished g \<or> fst (register_scoreless_turn g)"
    by (simp add: register_scoreless_turn_def Let_def)
  show "length (players (snd (register_scoreless_turn g))) = length (players g)"
    by (simp add: register_scoreless_turn_def Let_def)
qed

lemma game_ok_next_turn:
  "game_ok g \<Longrightarrow> pending_challenge g = None \<Longrightarrow> game_ok (next_turn e g)"
  by (simp add: game_ok_def)

text \<open>A scoreless turn is counted, and the turn passes on unless the game ended.\<close>

definition scoreless_step :: "env \<Rightarrow> (game \<Rightarrow> bool) \<Rightarrow> game \<Rightarrow> game" where
  "scoreless_step e passes_on g =
     (case register_scoreless_turn g of
        (True, g') \<Rightarrow> g'
      | (False, g') \<Rightarrow> if passes_on g' then next_turn e g' else g')"

lemma scoreless_step_preserves:
  assumes "game_base g" "pending_challenge g = None" "scoreless_turns g < SCORELESS_TURNS_LIMIT"
  shows "game_ok (scoreless_step e c g)" "tiles_in_play (scoreless_step e c g) = tiles_in_play g"
proof -
  obtain b g' where r: "register_scoreless_turn g = (b, g')" by fastforce
  then show "game_ok (scoreless_step e c g)" "tiles_in_play (scoreless_step e c g) = tiles_in_play g"
    using register_scoreless_preserves [OF assms] game_ok_next_turn [of g' e]
    by (cases b; simp add: scoreless_step_def)+
qed

lemma finalize_reject_preserves:
  assumes ok: "game_ok g"
  shows "game_ok (finalize_reject e g) \<and> tiles_in_play (finalize_reject e g) = tiles_in_play g"
proof (cases "pending_challenge g")
  case None
  then show ?thesis using ok by (simp add: finalize_reject_def)
next
  case (Some pc)
  note rt = return_tiles_preserves [OF ok Some]
  let ?g1 = "\<lambda>key. (return_tiles pc g)\<lparr>rejected_placements := key\<rparr>"
  obtain key n act sc t r tx info where eq: "finalize_reject e g
      = scoreless_step e (\<lambda>g4. disconnected (players g4 ! player_idx pc))
          (record_move n act t r sc None (set_last_action tx info (?g1 key)))"
    using Some unfolding finalize_reject_def scoreless_step_def Let_def by (simp only: option.case)
  let ?g3 = "record_move n act t r sc None (set_last_action tx info (?g1 key))"
  have b: "game_base ?g3" using rt(4) by simp
  have p: "pending_challenge ?g3 = None" using rt(3) by simp
  have s: "scoreless_turns ?g3 < SCORELESS_TURNS_LIMIT"
    using game_ok_pendingD(8) [OF ok Some] rt(6) by simp
  have "tiles_in_play ?g3 = tiles_in_play (return_tiles pc g)"
    by (simp add: tiles_in_play_simple) (simp add: tiles_in_play_def pending_tiles_def hand_tiles_def)
  then show ?thesis unfolding eq using scoreless_step_preserves [OF b p s] rt(2) by simp
qed

lemma resolve_preserves:
  "game_ok g \<Longrightarrow> game_ok (snd (resolve_and_finalize e g))
     \<and> tiles_in_play (snd (resolve_and_finalize e g)) = tiles_in_play g"
  using finalize_accept_preserves [of g e] finalize_reject_preserves [of g e]
  by (simp add: resolve_and_finalize_def)

section \<open>Votes and interventions\<close>

text \<open>A step keeps the invariant and the tiles.\<close>

definition keeps :: "game \<Rightarrow> game \<Rightarrow> bool" where
  "keeps g g' \<longleftrightarrow> game_ok g' \<and> tiles_in_play g' = tiles_in_play g"

lemma keeps_refl: "game_ok g \<Longrightarrow> keeps g g"
  by (simp add: keeps_def)

lemma keeps_last_action [simp]: "keeps g (set_last_action a i g') = keeps g g'"
  by (simp add: keeps_def)

lemma pending_ok_votes: "pending_ok g (c\<lparr>votes := vs\<rparr>) = pending_ok g c"
  by (simp add: pending_ok_def)

lemma pending_ok_cong: "pending_ok (g\<lparr>pending_challenge := x\<rparr>) c = pending_ok g c"
  by (simp add: pending_ok_def)

lemma keeps_votes:
  assumes "game_ok g" "pending_challenge g = Some pc"
  shows "keeps g (g\<lparr>pending_challenge := Some (pc\<lparr>votes := vs\<rparr>)\<rparr>)"
  using assms
  by (auto simp add: keeps_def game_ok_def pending_ok_votes pending_ok_cong tiles_in_play_def pending_tiles_def)

lemma cast_vote_preserves:
  assumes ok: "game_ok g"
  shows "keeps g (snd (cast_vote e pid v g)) \<and> fst (cast_vote e pid v g) \<noteq> Panic"
proof (cases "pending_challenge g")
  case None
  then show ?thesis using ok by (simp add: cast_vote_def keeps_refl)
next
  case (Some pc)
  let ?g1 = "g\<lparr>pending_challenge := Some (add_vote pid v pc)\<rparr>"
  have k: "keeps g ?g1" unfolding add_vote_def by (rule keeps_votes [OF ok Some])
  then have "keeps g (snd (resolve_and_finalize e ?g1))"
    using resolve_preserves [of ?g1 e] by (simp add: keeps_def)
  then show ?thesis
    using Some k game_ok_placer_exists [OF ok] ok
    by (auto simp: cast_vote_def keeps_refl Let_def case_prod_beta split: option.split)
qed

lemma withdraw_preserves:
  "game_ok g \<Longrightarrow> keeps g (snd (withdraw_pending pid g)) \<and> fst (withdraw_pending pid g) \<noteq> Panic"
  using return_tiles_preserves [of g] game_ok_placer_exists [of g]
  by (auto simp: withdraw_pending_def keeps_def Let_def split: option.split)

lemma accept_pending_preserves:
  "game_ok g \<Longrightarrow> keeps g (snd (accept_pending e g)) \<and> fst (accept_pending e g) \<noteq> Panic"
  using resolve_preserves [of g e] game_ok_placer_exists [of g]
  by (auto simp: accept_pending_def keeps_def case_prod_beta)

lemma force_resolve_preserves:
  "game_ok g \<Longrightarrow> keeps g (snd (force_resolve_pending e b g)) \<and> fst (force_resolve_pending e b g) \<noteq> Panic"
  using finalize_accept_preserves [of g e] finalize_reject_preserves [of g e] game_ok_placer_exists [of g]
  by (auto simp: force_resolve_pending_def keeps_def)

lemma keeps_end_game:
  "game_base g \<Longrightarrow> pending_challenge g = None \<Longrightarrow> keeps g (end_game fin g)"
  using tiles_end_game [of fin g] by (simp add: keeps_def game_ok_end_game pending_tiles_def)

lemma force_end_preserves:
  assumes ok: "game_ok g"
  shows "keeps g (snd (force_end g)) \<and> fst (force_end g) \<noteq> Panic"
proof (cases "pending_challenge g")
  case None
  then show ?thesis
    using keeps_end_game [of g None] ok game_ok_placer_exists [OF ok]
    by (auto simp: force_end_def keeps_refl dest: game_okD)
next
  case (Some pc)
  note rt = return_tiles_preserves [OF ok Some]
  have "keeps g (end_game None (return_tiles pc g))"
    using keeps_end_game [OF rt(4,3), of None] rt(2) by (simp add: keeps_def)
  then show ?thesis using Some ok game_ok_placer_exists [OF ok] by (simp add: force_end_def keeps_refl)
qed

section \<open>Exchanging and passing\<close>

lemma length_remove_at: "i < length xs \<Longrightarrow> length (remove_at i xs) = length xs - 1"
  by (simp add: remove_at_def)

lemma mset_remove_at: "i < length xs \<Longrightarrow> mset (remove_at i xs) + {#xs ! i#} = mset xs"
proof -
  assume "i < length xs"
  then have "mset (take i xs @ xs ! i # drop (Suc i) xs) = mset xs" by (simp add: id_take_nth_drop [symmetric])
  then show ?thesis by (simp add: remove_at_def)
qed

lemma nth_remove_at_less: "j < i \<Longrightarrow> i < length xs \<Longrightarrow> remove_at i xs ! j = xs ! j"
  by (simp add: remove_at_def nth_append)

text \<open>Removing at falling indices takes exactly the named tiles out.\<close>

lemma fold_remove_at:
  "sorted_wrt (>) is \<Longrightarrow> \<forall>i\<in>set is. i < length xs \<Longrightarrow>
   mset (fold remove_at is xs) + mset (map ((!) xs) is) = mset xs"
proof (induction "is" arbitrary: xs)
  case (Cons i "is")
  then have i: "i < length xs" and lt: "\<forall>j\<in>set is. j < i" by auto
  have "\<forall>j\<in>set is. j < length (remove_at i xs)" using lt i by (auto simp: length_remove_at)
  then have "mset (fold remove_at is (remove_at i xs)) + mset (map ((!) (remove_at i xs)) is) = mset (remove_at i xs)"
    using Cons by simp
  moreover have "map ((!) (remove_at i xs)) is = map ((!) xs) is"
    using lt i by (auto simp: nth_remove_at_less)
  ultimately show ?case using mset_remove_at [OF i] by (metis fold_simps(2) list.simps(9) mset.simps(2) union_mset_add_mset_right add_mset_add_single)
qed simp

lemma sorted_desc_strict: "distinct idxs \<Longrightarrow> \<forall>i\<in>set idxs. 0 \<le> i \<Longrightarrow> sorted_wrt (>) (sorted_desc idxs)"
proof -
  assume d: "distinct idxs" and nn: "\<forall>i\<in>set idxs. 0 \<le> i"
  then have "inj_on nat (set idxs)" by (metis inj_onI nat_eq_iff)
  with d have "distinct (map nat idxs)" by (simp add: distinct_map)
  then have "sorted_wrt (<) (sort (map nat idxs))" by (simp add: strict_sorted_iff)
  then show ?thesis by (simp add: sorted_desc_def sorted_wrt_rev)
qed

lemma exchange_refused_None:
  "exchange_refused pid idxs g = None \<longleftrightarrow>
     \<not> finished g \<and> pending_challenge g = None \<and> puzzle g = None
     \<and> current_player_idx g < length (players g) \<and> player_id (players g ! current_player_idx g) = pid
     \<and> 7 \<le> length (bag g) \<and> length idxs \<le> length (bag g) \<and> idxs \<noteq> [] \<and> distinct idxs
     \<and> (\<forall>i\<in>set idxs. 0 \<le> i \<and> nat i < length (hand (players g ! current_player_idx g)))"
proof -
  have "(\<exists>i\<in>set idxs. i < 0 \<or> n \<le> nat i) \<longleftrightarrow> \<not> (\<forall>i\<in>set idxs. 0 \<le> i \<and> nat i < n)" for n
    by (meson not_le)
  moreover have "card (set idxs) = length idxs \<longleftrightarrow> distinct idxs" using card_distinct distinct_card by blast
  ultimately show ?thesis by (auto simp: exchange_refused_def current_player_def remaining_def not_less not_le)
qed

lemma list_all_mset: "mset xs \<subseteq># mset ys \<Longrightarrow> list_all P ys \<Longrightarrow> list_all P xs"
  using set_mset_mono [of "mset xs" "mset ys"] by (auto simp: list_all_iff)

lemma draw_shuffle_ok:
  "shuffler sh \<Longrightarrow> list_all tile_ok b \<Longrightarrow> list_all tile_ok ts
    \<Longrightarrow> list_all tile_ok (put_back sh ts (snd (draw n b)))"
  using list_all_draw [of tile_ok b n] by (auto simp: put_back_def list_all_iff shuffler_set)

lemma list_all_nth_map: "list_all P xs \<Longrightarrow> \<forall>i\<in>set is. i < length xs \<Longrightarrow> list_all P (map ((!) xs) is)"
  by (auto simp: list_all_iff)

lemma tiles_upd_same [simp]:
  "(\<And>p. hand (f p) = hand p) \<Longrightarrow> tiles_in_play (upd_player i f g) = tiles_in_play g"
  by (simp add: tiles_in_play_def pending_tiles_def)

lemma mset_swap:
  fixes a :: "'a multiset"
  assumes "a + x = b + y" "c + y = d + x"
  shows "a + c = b + d"
proof -
  have "(a + c) + (x + y) = (a + x) + (c + y)" by (simp add: ac_simps)
  also have "\<dots> = (b + d) + (x + y)" unfolding assms by (simp add: ac_simps)
  finally show ?thesis by simp
qed

lemma scoreless_step_eq:
  "(case register_scoreless_turn g of (True, g') \<Rightarrow> g' | (False, g') \<Rightarrow> next_turn e g')
     = scoreless_step e (\<lambda>_. True) g"
  by (simp add: scoreless_step_def split: prod.split bool.split)

lemma exchange_preserves:
  assumes ok: "game_ok g" and sh: "shuffler (shuffle_fn e)"
  shows "keeps g (snd (exchange_tiles e pid idxs g)) \<and> fst (exchange_tiles e pid idxs g) \<noteq> Panic"
proof (cases "exchange_refused pid idxs g")
  case (Some err)
  then show ?thesis using ok by (simp add: exchange_tiles_def keeps_refl)
next
  case None
  note ex = None [unfolded exchange_refused_None]
  let ?i = "current_player_idx g" and ?desc = "sorted_desc idxs"
  let ?rack = "hand (players g ! ?i)"
  let ?out = "map ((!) ?rack) ?desc" and ?kept = "fold remove_at ?desc ?rack"
  let ?d = "draw (length ?out) (bag g)"
  let ?g1 = "(upd_player ?i (hand_update (\<lambda>_. ?kept @ fst ?d)) g)
      \<lparr>bag := put_back (shuffle_fn e) ?out (snd ?d)\<rparr>"
  have i: "?i < length (players g)" and nf: "\<not> finished g" and pend: "pending_challenge g = None"
    using ex by auto
  have base: "game_base g" using ok by (rule game_okD)
  have rack: "rack_ok ?rack" using base i by (simp add: game_base_def list_all_length)
  have bag: "list_all tile_ok (bag g)" using base by (simp add: game_base_def)
  have desc: "\<forall>j\<in>set ?desc. j < length ?rack" using ex by (auto simp: sorted_desc_def)
  have lendesc: "length ?desc = length idxs" by (simp add: sorted_desc_def)
  have m: "mset ?kept + mset ?out = mset ?rack"
    using ex by (intro fold_remove_at sorted_desc_strict desc) auto
  have len: "length ?kept + length idxs = length ?rack"
    using arg_cong [OF m, of size] lendesc by simp
  have out: "list_all tile_ok ?out" using rack desc by (intro list_all_nth_map) (simp_all add: rack_ok_def)
  have kept: "list_all tile_ok ?kept"
    using m rack by (intro list_all_mset [of ?kept ?rack]) (simp_all add: rack_ok_def, metis mset_subset_eq_add_left)
  have st: "started g"
    using ex base i by (cases idxs) (auto simp: game_base_def list_all_length)
  have "rack_ok (?kept @ fst ?d)"
    using kept list_all_draw [OF bag] rack len lendesc by (auto simp: rack_ok_def)
  then have "game_base (upd_player ?i (hand_update (\<lambda>_. ?kept @ fst ?d)) g)"
    using base st i by (intro game_base_upd) simp_all
  then have b1: "game_base ?g1"
    using draw_shuffle_ok [OF sh bag out] by (simp add: game_base_def seat_ok_def)
  have "hand_tiles ?g1 + mset ?rack = hand_tiles g + (mset ?kept + mset (fst ?d))"
    using hand_tiles_upd [OF i, of "hand_update (\<lambda>_. ?kept @ fst ?d)"] by simp
  then have h: "hand_tiles ?g1 + mset ?out = hand_tiles g + mset (fst ?d)"
    unfolding m [symmetric] by (simp add: union_ac)
  have "mset (bag ?g1) + mset (fst ?d) = mset (bag g) + mset ?out"
    using tile_bags.swap_contents [OF sh] by simp
  with h have "hand_tiles ?g1 + mset (bag ?g1) = hand_tiles g + mset (bag g)"
    by (rule mset_swap)
  then have t1: "tiles_in_play ?g1 = tiles_in_play g"
    by (simp add: tiles_in_play_def pending_tiles_def)
  obtain n act ts ws sc r tx info where eq: "snd (exchange_tiles e pid idxs g)
      = scoreless_step e (\<lambda>_. True)
          (record_move n act ts ws sc r (upd_player ?i (timeouts_update (\<lambda>_. 0)) (set_last_action tx info ?g1)))"
    "fst (exchange_tiles e pid idxs g) \<noteq> Panic"
    using None unfolding exchange_tiles_def Let_def case_prod_beta scoreless_step_eq [unfolded case_prod_beta]
    by (simp only: option.case snd_conv fst_conv outcome.distinct simp_thms)
  let ?g3 = "record_move n act ts ws sc r (upd_player ?i (timeouts_update (\<lambda>_. 0)) (set_last_action tx info ?g1))"
  have "game_base ?g3" using b1 game_base_upd_same [of "set_last_action tx info ?g1" "timeouts_update (\<lambda>_. 0)" ?i] by simp
  moreover have "tiles_in_play ?g3 = tiles_in_play g"
    using t1 by simp
  moreover have "pending_challenge ?g3 = None" "scoreless_turns ?g3 < SCORELESS_TURNS_LIMIT"
    using pend ok nf by (simp_all add: game_ok_def)
  ultimately show ?thesis
    using eq scoreless_step_preserves [of ?g3 e] by (simp add: keeps_def)
qed

lemma pass_refused_None:
  "pass_refused pid g = None \<longleftrightarrow>
     \<not> finished g \<and> pending_challenge g = None \<and> puzzle g = None
     \<and> current_player_idx g < length (players g) \<and> player_id (players g ! current_player_idx g) = pid"
  by (auto simp: pass_refused_def current_player_def)

lemma pass_preserves:
  assumes ok: "game_ok g"
  shows "keeps g (snd (pass_turn e pid t g)) \<and> fst (pass_turn e pid t g) \<noteq> Panic"
proof (cases "pass_refused pid g")
  case (Some err)
  then show ?thesis using ok by (simp add: pass_turn_def keeps_refl)
next
  case None
  note ps = None [unfolded pass_refused_None]
  let ?i = "current_player_idx g"
  obtain f n act ts ws sc r tx info where f: "\<And>p. hand (f p) = hand p"
    and eq: "snd (pass_turn e pid t g) = scoreless_step e (\<lambda>_. True)
        (record_move n act ts ws sc r (set_last_action tx info (upd_player ?i f g)))"
    and np: "fst (pass_turn e pid t g) \<noteq> Panic"
  proof (cases t)
    case True
    show thesis
      by (rule that [of "timeouts_update (\<lambda>n. n + 1)"])
        (simp, use None True in \<open>simp only: pass_turn_def Let_def scoreless_step_eq option.case snd_conv if_True\<close>,
         use None in \<open>simp add: pass_turn_def Let_def\<close>)
  next
    case False
    show thesis
      by (rule that [of "timeouts_update (\<lambda>_. 0)"])
        (simp, use None False in \<open>simp only: pass_turn_def Let_def scoreless_step_eq option.case snd_conv if_False\<close>,
         use None in \<open>simp add: pass_turn_def Let_def\<close>)
  qed
  let ?g3 = "record_move n act ts ws sc r (set_last_action tx info (upd_player ?i f g))"
  have "game_base ?g3" using game_base_upd_same [OF game_okD [OF ok], of f ?i] f by simp
  moreover have "pending_challenge ?g3 = None" "scoreless_turns ?g3 < SCORELESS_TURNS_LIMIT"
    using ps ok by (simp_all add: game_ok_def)
  moreover have "tiles_in_play ?g3 = tiles_in_play g"
    using f by simp
  ultimately show ?thesis
    using eq np scoreless_step_preserves [of ?g3 e] by (simp add: keeps_def)
qed

text \<open>Resigning forgets a pending placement: its tiles leave the game.\<close>

lemma resign_preserves:
  assumes ok: "game_ok g"
  shows "game_ok (snd (resign pid g)) \<and> fst (resign pid g) \<noteq> Panic
    \<and> (tiles_in_play (snd (resign pid g)) = tiles_in_play g
       \<or> is_done (fst (resign pid g)) \<and> tiles_in_play (snd (resign pid g)) + pending_tiles g = tiles_in_play g)"
proof (cases "\<not> started g \<or> finished g \<or> first_index pid g = None")
  case True
  then show ?thesis using ok by (auto simp: resign_def)
next
  case False
  then obtain i where i: "first_index pid g = Some i" by auto
  let ?g0 = "(upd_player i (resigned_update (\<lambda>_. True)) g)\<lparr>pending_challenge := None\<rparr>"
  let ?g1 = "end_game None ?g0"
  have b: "game_base ?g0" using game_base_upd_same [OF game_okD [OF ok], of "resigned_update (\<lambda>_. True)" i] by simp
  have t0: "tiles_in_play ?g0 + pending_tiles g = tiles_in_play g"
    by (simp add: tiles_in_play_def pending_tiles_def)
  have t1: "tiles_in_play ?g1 = tiles_in_play ?g0"
    using tiles_end_game [of None ?g0] by (simp add: pending_tiles_def)
  obtain ws tx info where eq: "snd (resign pid g) = set_last_action tx info (?g1\<lparr>winners := ws\<rparr>)"
  proof (cases "max_score (filter (\<lambda>p. \<not> resigned p) (players ?g1))")
    case None
    show thesis
      by (rule that [of _ _ "winners ?g1"])
        (use False i None in \<open>simp add: resign_def Let_def del: end_game_fields\<close>)
  next
    case (Some best)
    show thesis
      by (rule that) (use False i Some in \<open>simp add: resign_def Let_def\<close>)
  qed
  have "game_ok (?g1\<lparr>winners := ws\<rparr>)" using game_ok_end_game [OF b, of None] by (simp add: game_ok_def)
  moreover have "tiles_in_play (?g1\<lparr>winners := ws\<rparr>) = tiles_in_play ?g1"
    by (simp add: tiles_in_play_def pending_tiles_def hand_tiles_def)
  ultimately show ?thesis
    using False i t0 t1 eq by (simp add: resign_def Let_def)
qed

lemma pass_turn_pending:
  "pending_challenge g = None \<Longrightarrow> pending_challenge (snd (pass_turn e pid t g)) = None"
  by (simp add: pass_turn_def Let_def register_scoreless_turn_def split: option.split prod.split)

lemma expire_preserves:
  assumes ok: "game_ok g"
  shows "keeps g (snd (expire_turn e g))"
proof (cases "\<not> async_mode g \<or> \<not> started g \<or> finished g \<or> pending_challenge g \<noteq> None \<or> current_player g = None")
  case True
  then show ?thesis using ok by (auto simp: expire_turn_def keeps_refl)
next
  case False
  then obtain p where p: "current_player g = Some p" by auto
  obtain r g1 where pt: "pass_turn e (player_id p) True g = (r, g1)" by fastforce
  have k1: "keeps g g1" using pass_preserves [OF ok, of e "player_id p" True] pt by simp
  then have "game_ok g1" by (simp add: keeps_def)
  have pend: "pending_tiles g1 = {#}" if "is_done r" "\<not> finished g1"
  proof -
    have "pass_refused (player_id p) g = None"
      using that pt by (auto simp: pass_turn_def split: option.splits)
    then have "pending_challenge g1 = None"
      using pt pass_turn_pending [of g e "player_id p" True] by (simp add: pass_refused_None)
    then show ?thesis by (simp add: pending_tiles_def)
  qed
  have "keeps g (snd (resign (player_id p) g1))" if "is_done r" "\<not> finished g1"
    using resign_preserves [OF \<open>game_ok g1\<close>, of "player_id p"] pend [OF that] k1
    by (auto simp: keeps_def)
  then show ?thesis
    using False p pt k1 by (auto simp: expire_turn_def Let_def)
qed

section \<open>Seats\<close>

lemma keeps_skip_disconnected: "game_ok g \<Longrightarrow> keeps g (snd (skip_disconnected_current e g))"
  using game_ok_next_turn [of g e]
  by (auto simp: skip_disconnected_current_def keeps_def split: option.split)

lemma keeps_upd_same:
  "game_ok g \<Longrightarrow> (\<And>p. hand (f p) = hand p) \<Longrightarrow> keeps g (upd_player i f g)"
  using game_base_upd_same [of g f i]
  by (cases "i < length (players g)")
    (auto simp: keeps_def game_ok_def pending_ok_def nth_list_update list_update_beyond split: option.split)

lemma keeps_mark_disconnected: "game_ok g \<Longrightarrow> keeps g (snd (mark_disconnected pid g))"
  by (auto simp: mark_disconnected_def keeps_refl intro!: keeps_upd_same split: option.split)

lemma pending_ok_update_sid: "pending_ok g (update_player_sid a b c) = pending_ok g c"
  by (simp add: update_player_sid_def pending_ok_votes split: option.split)

lemma removed_update_sid [simp]: "removed_from_hand (update_player_sid a b c) = removed_from_hand c"
  by (simp add: update_player_sid_def split: option.split)

lemma keeps_replace_sid: "game_ok g \<Longrightarrow> keeps g (snd (replace_player_sid a b g))"
proof (cases "first_index a g")
  case (Some i)
  assume ok: "game_ok g"
  let ?g1 = "upd_player i (reconnect b) g"
  have "keeps g ?g1" using ok by (rule keeps_upd_same) (simp add: reconnect_def)
  then have k: "game_ok ?g1" "tiles_in_play ?g1 = tiles_in_play g" by (auto simp: keeps_def)
  let ?g2 = "?g1\<lparr>pending_challenge := map_option (update_player_sid a b) (pending_challenge g),
              winners := map (\<lambda>w. if player_id w = a then reconnect b w else w) (winners g)\<rparr>"
  have "pending_ok ?g2 c = pending_ok ?g1 c" for c by (simp add: pending_ok_def)
  then have "game_ok ?g2"
    using k(1) by (auto simp: game_ok_def pending_ok_update_sid split: option.splits)
  moreover have "tiles_in_play ?g2 = tiles_in_play g"
    using k(2) by (simp add: tiles_in_play_def pending_tiles_def hand_tiles_def split: option.splits)
  ultimately show ?thesis using Some by (simp add: replace_player_sid_def keeps_def)
qed (simp add: replace_player_sid_def keeps_refl)

lemma keeps_new_seat:
  assumes "game_ok g" "\<not> started g" "length (players g) < 4" "hand p = []"
  shows "keeps g (g\<lparr>bot_seq := n, players := players g @ [p]\<rparr>)"
  using assms
  by (auto simp: keeps_def game_ok_def game_base_def seat_ok_def rack_ok_def tiles_in_play_def
      hand_tiles_def pending_tiles_def split: option.splits)

lemma keeps_add_player: "game_ok g \<Longrightarrow> keeps g (snd (add_player pid nm g)) \<and> fst (add_player pid nm g) \<noteq> Panic"
  using keeps_new_seat [of g "player_new pid nm" "bot_seq g"]
  by (auto simp: add_player_def keeps_refl player_new_def)

lemma keeps_add_bot: "game_ok g \<Longrightarrow> keeps g (snd (add_bot nm d g)) \<and> fst (add_bot nm d g) \<noteq> Panic"
  using keeps_new_seat [of g "player_new_bot (bot_id (game_id g) (fresh_bot_seq (game_id g) (players g) (bot_seq g + 1))) nm d"]
  by (auto simp: add_bot_def keeps_refl player_new_bot_def player_new_def Let_def)

lemma keeps_use_hint: "game_ok g \<Longrightarrow> keeps g (snd (use_hint g))"
  by (auto simp: use_hint_def keeps_def game_ok_def pending_ok_def tiles_in_play_def pending_tiles_def
      hand_tiles_def split: option.splits)

text \<open>Dealing hands out of the bag.\<close>

lemma deal_facts:
  assumes "deal ps b = (ps', b')" "list_all (\<lambda>h. h = []) (map hand ps)" "list_all tile_ok b"
  shows "length ps' = length ps \<and> list_all rack_ok (map hand ps') \<and> list_all tile_ok b'
    \<and> mset (concat (map hand ps')) + mset b' = mset b
    \<and> map (hand_update (\<lambda>_. [])) ps' = map (hand_update (\<lambda>_. [])) ps
    \<and> length b' = length b - HAND_SIZE * length ps
    \<and> (HAND_SIZE * length ps \<le> length b \<longrightarrow> list_all (\<lambda>h. length h = HAND_SIZE) (map hand ps'))"
  using assms
proof (induction ps arbitrary: b ps' b')
  case (Cons p ps)
  obtain ts b1 where d: "draw HAND_SIZE b = (ts, b1)" by fastforce
  obtain qs b2 where q: "deal ps b1 = (qs, b2)" by fastforce
  have eq: "ps' = p\<lparr>hand := ts\<rparr> # qs" "b' = b2" using Cons.prems d q by auto
  have ok: "list_all tile_ok ts" "list_all tile_ok b1"
    using list_all_draw [OF Cons.prems(3), of HAND_SIZE] d by auto
  have len: "length ts = min HAND_SIZE (length b)" "length b1 = length b - HAND_SIZE"
    using length_draw [of HAND_SIZE b] length_bag_draw [of HAND_SIZE b] d by auto
  have m: "mset ts + mset b1 = mset b" using draw_conserves [of HAND_SIZE b] d by simp
  have emp: "list_all (\<lambda>h. h = []) (map hand ps)" using Cons.prems(2) by simp
  note IH = Cons.IH [OF q emp ok(2)]
  have "mset (concat (map hand ps')) + mset b' = mset b"
    using IH m eq by (simp add: union_assoc)
  then show ?case using IH eq ok len by (auto simp: rack_ok_def)
qed simp

lemma start_preserves:
  assumes ok: "game_ok g"
  shows "keeps g (snd (start_game e g)) \<and> fst (start_game e g) \<noteq> Panic"
proof (cases "players g = [] \<or> started g")
  case True
  then show ?thesis using ok by (auto simp: start_game_def keeps_refl)
next
  case False
  obtain ps b where d: "deal (players g) (bag g) = (ps, b)" by fastforce
  have base: "game_base g" using ok by (rule game_okD)
  have pend: "pending_challenge g = None" using ok False by (auto simp: game_ok_def split: option.splits)
  have f: "length ps = length (players g)" "list_all rack_ok (map hand ps)" "list_all tile_ok b"
    "mset (concat (map hand ps)) + mset b = mset (bag g)"
    using deal_facts [OF d] base False by (auto simp: game_base_def)
  have empty: "concat (map hand (players g)) = []"
    using base False by (simp add: game_base_def list_all_iff)
  let ?g1 = "g\<lparr>started := True, players := ps, bag := b\<rparr>"
  have "game_ok ?g1"
    using base f pend ok False players_Nil_iff_length [OF f(1)]
    by (simp add: game_ok_def game_base_def seat_ok_def)
  moreover have "tiles_in_play ?g1 = tiles_in_play g"
    using f(4) empty pend by (simp add: tiles_in_play_def hand_tiles_def pending_tiles_def union_assoc)
  ultimately show ?thesis using False d by (simp add: start_game_def keeps_def)
qed

lemma nth_remove_at: "j < length xs - 1 \<Longrightarrow> remove_at i xs ! j = (if j < i then xs ! j else xs ! Suc j)"
  by (auto simp: remove_at_def nth_append min_def)

lemma list_all_remove_at: "list_all P xs \<Longrightarrow> list_all P (remove_at i xs)"
  by (auto simp: remove_at_def list_all_iff dest: in_set_takeD in_set_dropD)

lemma map_remove_at: "map f (remove_at i xs) = remove_at i (map f xs)"
  by (simp add: remove_at_def take_map drop_map)

lemma mset_concat_remove_at:
  "i < length xss \<Longrightarrow> mset (concat (remove_at i xss)) + mset (xss ! i) = mset (concat xss)"
proof -
  assume i: "i < length xss"
  have "concat xss = concat (take i xss @ xss ! i # drop (Suc i) xss)"
    using i by (simp only: id_take_nth_drop [symmetric])
  then show ?thesis by (simp add: remove_at_def union_ac)
qed

lemma first_index_Some: "first_index pid g = Some i \<Longrightarrow> i < length (players g) \<and> player_id (players g ! i) = pid"
  by (simp add: first_index_def position_Some_iff)

text \<open>A player who leaves takes the hand out of the game.\<close>

lemma remove_preserves:
  assumes ok: "game_ok g"
  shows "game_ok (snd (remove_player pid g)) \<and> tiles_in_play (snd (remove_player pid g)) \<subseteq># tiles_in_play g"
proof (cases "first_index pid g")
  case None
  then show ?thesis using ok by (simp add: remove_player_def)
next
  case (Some i)
  then have i: "i < length (players g)" by (simp add: first_index_Some)
  have base: "game_base g" using ok by (rule game_okD)
  let ?ps = "remove_at i (players g)"
  let ?cur = "if i < current_player_idx g then current_player_idx g - 1
      else if i = current_player_idx g \<and> length ?ps \<le> current_player_idx g then 0 else current_player_idx g"
  have len: "length ?ps = length (players g) - 1" using i by (rule length_remove_at)
  define pend where "pend = (case pending_challenge g of Some pc \<Rightarrow> if player_idx pc = i then None else Some pc | None \<Rightarrow> None)"
  define pend' where "pend' = map_option (\<lambda>pc. if i < player_idx pc then pc\<lparr>player_idx := player_idx pc - 1\<rparr> else pc) pend"
  let ?g' = "if ?ps = [] then g\<lparr>pending_challenge := pend, players := ?ps, current_player_idx := 0\<rparr>
      else g\<lparr>pending_challenge := pend', players := ?ps, current_player_idx := ?cur\<rparr>"
  have eq: "snd (remove_player pid g) = ?g'"
    using Some by (simp add: remove_player_def Let_def pend_def pend'_def)
  have seat: "?ps = [] \<or> ?cur < length ?ps" using base i len by (auto simp: game_base_def seat_ok_def)
  have b': "game_base ?g'"
    using base seat len by (auto simp: game_base_def seat_ok_def map_remove_at list_all_remove_at)
  have single: "pend = None" if "?ps = []"
  proof -
    have "length (players g) = 1" using that len i by (cases "length (players g)") auto
    then show ?thesis
      using i ok by (auto simp: pend_def game_ok_def pending_ok_def split: option.splits)
  qed
  have pok: "case pend' of None \<Rightarrow> True | Some pc \<Rightarrow> started g \<and> \<not> finished g \<and> pending_ok ?g' pc" if "?ps \<noteq> []"
  proof (cases pend)
    case None
    then show ?thesis by (simp add: pend'_def)
  next
    case (Some pc)
    then have pc: "pending_challenge g = Some pc" "player_idx pc \<noteq> i"
      by (auto simp: pend_def split: option.splits if_splits)
    then have "pending_ok g pc" "started g" "\<not> finished g" using ok by (auto simp: game_ok_def)
    then show ?thesis
      using that Some pc(2) len i by (auto simp: pend'_def pending_ok_def nth_remove_at)
  qed
  have "game_ok ?g'"
  proof (cases "?ps = []")
    case True
    then show ?thesis using b' single ok by (simp add: game_ok_def)
  next
    case False
    then have e: "pending_challenge ?g' = pend'" "finished ?g' = finished g" "started ?g' = started g"
      "scoreless_turns ?g' = scoreless_turns g" by simp_all
    show ?thesis using b' pok [OF False] ok unfolding game_ok_def e by blast
  qed
  moreover have "tiles_in_play ?g' \<subseteq># tiles_in_play g"
  proof -
    have h: "hand_tiles ?g' \<subseteq># hand_tiles g"
      using mset_concat_remove_at [of i "map hand (players g)"] i
      by (auto simp: hand_tiles_def map_remove_at) (metis mset_subset_eq_add_left)+
    have p: "pending_tiles ?g' \<subseteq># pending_tiles g"
      using single by (auto simp: pending_tiles_def pend_def pend'_def split: option.splits)
    have "board ?g' = board g" "bag ?g' = bag g" by simp_all
    then show ?thesis using h p by (simp only: tiles_in_play_def subset_mset.add_mono subset_mset.order_refl)
  qed
  ultimately show ?thesis unfolding eq by blast
qed

end
