(* ===== verification/GameRuns.thy ===== *)
theory GameRuns
  imports GameInv
begin

text \<open>
  The game as a transition system: the successful operations are the steps, a run is a list of
  events. Every state of a run satisfies the invariant, no operation of such a state panics, and
  the tiles are conserved but for the players who leave or resign.
\<close>

section \<open>Events and runs\<close>

datatype game_event =
    Join str str | AddBot str json | UseHint | Drop str | Rejoin str str | Leave str | Start
  | SkipAway | Place str "placed list" | Vote str vote | Withdraw str | Timeout
  | Exchange str "int list" | Pass str bool | Resign str | Expire | ForceResolve bool | ForceEnd

text \<open>
  A successful operation as a step. A placed letter is one of the tiles (the type \<^verbatim>\<open>Tile\<close> has no
  other values), and the shuffle is a permutation.
\<close>

inductive game_step :: "game \<Rightarrow> game_event \<Rightarrow> game \<Rightarrow> bool" where
  join: "add_player pid nm g = (Done r, g') \<Longrightarrow> game_step g (Join pid nm) g'"
| add_bot: "add_bot nm d g = (Done r, g') \<Longrightarrow> game_step g (AddBot nm d) g'"
| use_hint: "use_hint g = (True, g') \<Longrightarrow> game_step g UseHint g'"
| drop: "mark_disconnected pid g = (True, g') \<Longrightarrow> game_step g (Drop pid) g'"
| rejoin: "replace_player_sid a b g = (True, g') \<Longrightarrow> game_step g (Rejoin a b) g'"
| leave: "remove_player pid g = (b, g') \<Longrightarrow> game_step g (Leave pid) g'"
| start: "start_game e g = (Done r, g') \<Longrightarrow> game_step g Start g'"
| skip_away: "skip_disconnected_current e g = (True, g') \<Longrightarrow> game_step g SkipAway g'"
| place: "list_all (\<lambda>p. tile_ok (p_letter p)) tiles \<Longrightarrow> place_tiles e pid tiles g = (Done r2, g')
     \<Longrightarrow> game_step g (Place pid tiles) g'"
| vote: "cast_vote e pid v g = (Done r3, g') \<Longrightarrow> game_step g (Vote pid v) g'"
| withdraw: "withdraw_pending pid g = (Done r, g') \<Longrightarrow> game_step g (Withdraw pid) g'"
| timeout: "accept_pending e g = (Done r3, g') \<Longrightarrow> game_step g Timeout g'"
| exchange: "shuffler (shuffle_fn e) \<Longrightarrow> exchange_tiles e pid idxs g = (Done r, g')
     \<Longrightarrow> game_step g (Exchange pid idxs) g'"
| pass: "pass_turn e pid t g = (Done r, g') \<Longrightarrow> game_step g (Pass pid t) g'"
| resign: "resign pid g = (Done r, g') \<Longrightarrow> game_step g (Resign pid) g'"
| expire: "expire_turn e g = (True, g') \<Longrightarrow> game_step g Expire g'"
| force_resolve: "force_resolve_pending e b g = (Done r3, g') \<Longrightarrow> game_step g (ForceResolve b) g'"
| force_end: "force_end g = (Done True, g') \<Longrightarrow> game_step g ForceEnd g'"

inductive_cases leave_stepE: "game_step g (Leave pid) g'"
inductive_cases resign_stepE: "game_step g (Resign pid) g'"
inductive_simps game_step_simps:
  "game_step g (Join pid nm) g'" "game_step g (Pass pid t) g'" "game_step g (Place pid tiles) g'"
  "game_step g (Resign pid) g'" "game_step g Start g'"

abbreviation game_run :: "game \<Rightarrow> game_event list \<Rightarrow> game \<Rightarrow> bool" where
  "game_run \<equiv> steps game_step"

lemma game_run_nil: "game_run g [] g"
  by (rule steps.run_nil)

lemma game_run_snoc: "game_run g evs g' \<Longrightarrow> game_step g' ev g'' \<Longrightarrow> game_run g (evs @ [ev]) g''"
  by (rule steps.run_snoc [where step = game_step])

text \<open>Two events take tiles out of the game.\<close>

fun takes_tiles :: "game_event \<Rightarrow> bool" where
  "takes_tiles (Leave _) = True"
| "takes_tiles (Resign _) = True"
| "takes_tiles _ = False"

lemma keeps_snd: "keeps g (snd r) \<and> Q \<Longrightarrow> r = (x, g') \<Longrightarrow> keeps g g'"
  by simp

lemma game_step_preserves:
  assumes "game_step g ev g'" "game_ok g"
  shows "game_ok g'" "tiles_in_play g' \<subseteq># tiles_in_play g"
    "\<not> takes_tiles ev \<Longrightarrow> tiles_in_play g' = tiles_in_play g"
proof -
  have "keeps g g' \<or> takes_tiles ev \<and> game_ok g' \<and> tiles_in_play g' \<subseteq># tiles_in_play g"
    using assms
  proof (induction rule: game_step.cases)
    case (join pid nm g r g') then show ?case using keeps_add_player [of g pid nm] by simp
  next case (add_bot nm d g r g') then show ?case using keeps_add_bot [of g nm d] by simp
  next case (use_hint g g') then show ?case using keeps_use_hint [of g] by simp
  next case (drop pid g g') then show ?case using keeps_mark_disconnected [of g pid] by simp
  next case (rejoin a b g g') then show ?case using keeps_replace_sid [of g a b] by simp
  next case (leave pid g b g') then show ?case using remove_preserves [of g pid] by simp
  next case (start e g r g') then show ?case using start_preserves [of g e] by simp
  next case (skip_away e g g') then show ?case using keeps_skip_disconnected [of g e] by simp
  next case (place tiles e pid g r2 g') then show ?case using place_tiles_preserves [of g tiles e pid] by (simp add: keeps_def)
  next case (vote e pid v g r3 g') then show ?case using cast_vote_preserves [of g e pid v] by simp
  next case (withdraw pid g r g') then show ?case using withdraw_preserves [of g pid] by simp
  next case (timeout e g r3 g') then show ?case using accept_pending_preserves [of g e] by simp
  next case (exchange e pid idxs g r g') then show ?case using exchange_preserves [of g e pid idxs] by simp
  next case (pass e pid t g r g') then show ?case using pass_preserves [of g e pid t] by simp
  next
    case (resign pid g r g')
    then show ?case using resign_preserves [of g pid] by (auto simp: keeps_def) (metis mset_subset_eq_add_left)
  next case (expire e g g') then show ?case using expire_preserves [of g e] by simp
  next case (force_resolve e b g r3 g') then show ?case using force_resolve_preserves [of g e b] by simp
  next case (force_end g g') then show ?case using force_end_preserves [of g] by simp
  qed
  then show "game_ok g'" "tiles_in_play g' \<subseteq># tiles_in_play g"
    "\<not> takes_tiles ev \<Longrightarrow> tiles_in_play g' = tiles_in_play g" by (auto simp: keeps_def)
qed

interpretation runs: measured_system game_step game_ok tiles_in_play takes_tiles
  by unfold_locales (auto dest: game_step_preserves)

lemma game_run_preserves:
  "game_run g evs g' \<Longrightarrow> game_ok g \<Longrightarrow> game_ok g' \<and> tiles_in_play g' \<subseteq># tiles_in_play g
    \<and> ((\<forall>ev\<in>set evs. \<not> takes_tiles ev) \<longrightarrow> tiles_in_play g' = tiles_in_play g)"
  using runs.inv_run runs.amount_run by blast

lemma unshuffled_all_ok: "list_all tile_ok unshuffled_bag"
  using unshuffled_bag_ok by (simp add: list_all_iff)

lemma game_new_ok:
  assumes "shuffler (shuffle_fn e)"
  shows "game_ok (game_new e gid c l h)" "tiles_in_play (game_new e gid c l h) = mset unshuffled_bag"
  using assms unshuffled_all_ok
  by (simp_all add: game_new_def game_ok_def game_base_def seat_ok_def board_ok_new bag_new_def
      shuffler_def SCORELESS_TURNS_LIMIT_def tiles_in_play_def hand_tiles_def pending_tiles_def list_all_iff shuffler_set)
end
