(* ===== verification/GameProps.thy ===== *)
theory GameProps
  imports GameRuns
begin

text \<open>
  What the operations of a game do: reachable states, the verdict and the effect of a placement,
  the vote, exchanges, the turn order, the end of a game, and a few consequences of the order of
  the guards in the code.
\<close>

section \<open>Reachable games\<close>

text \<open>A concrete clock, shuffle and dictionary for the examples: nothing is shuffled, every word is valid.\<close>

definition plain_env :: env where
  "plain_env = \<lparr>shuffle_fn = (\<lambda>ts. ts), now_secs = 0, check_fn = (\<lambda>ws. (True, []))\<rparr>"

lemma plain_shuffler [simp]: "shuffler (shuffle_fn plain_env)"
  by (simp add: plain_env_def shuffler_def)

lemma two_joined_run:
  "game_run (game_new e gid c l h) [Join [97] [65], Join [98] [66]]
     (game_new e gid c l h\<lparr>players := [player_new [97] [65], player_new [98] [66]]\<rparr>)"
proof -
  have "game_step (game_new e gid c l h) (Join [97] [65]) (game_new e gid c l h\<lparr>players := [player_new [97] [65]]\<rparr>)"
    by (rule game_step.join) (simp add: add_player_def game_new_def)
  from game_run_snoc [OF game_run_nil this]
  have first: "game_run (game_new e gid c l h) [Join [97] [65]] (game_new e gid c l h\<lparr>players := [player_new [97] [65]]\<rparr>)"
    by simp
  have "game_step (game_new e gid c l h\<lparr>players := [player_new [97] [65]]\<rparr>) (Join [98] [66])
      (game_new e gid c l h\<lparr>players := [player_new [97] [65], player_new [98] [66]]\<rparr>)"
    by (rule game_step.join) (simp add: add_player_def game_new_def player_new_def)
  from game_run_snoc [OF first this] show ?thesis by simp
qed

text \<open>
  C1. In every state a new game reaches, by any sequence of successful operations, the invariant
  holds: no rack exceeds seven tiles, the seat to move exists, there are at most four players,
  six scoreless turns have ended the game, and a pending placement is a legal move of the seat
  to move.
\<close>

theorem reachable_games_ok:
  assumes "shuffler (shuffle_fn e)" "game_run (game_new e gid chal limit hints) evs g"
  shows "game_ok g \<and> length (players g) \<le> 4
    \<and> (\<forall>p\<in>set (players g). length (hand p) \<le> HAND_SIZE)
    \<and> (players g \<noteq> [] \<longrightarrow> current_player_idx g < length (players g))
    \<and> (SCORELESS_TURNS_LIMIT \<le> scoreless_turns g \<longrightarrow> finished g)
    \<and> (finished g \<longrightarrow> pending_challenge g = None)"
proof -
  have "game_ok g"
    using game_run_preserves [OF assms(2)] game_new_ok(1) [OF assms(1)] by blast
  then show ?thesis
    by (auto simp: game_ok_def game_base_def seat_ok_def rack_ok_def list_all_iff split: option.splits)
qed

theorem reachable_games_ok_witness:
  "game_ok (game_new plain_env [49] True 0 3\<lparr>players := [player_new [97] [65], player_new [98] [66]]\<rparr>)"
  using reachable_games_ok [OF plain_shuffler two_joined_run] by blast

text \<open>
  C2. Tiles are neither made nor lost: in every state a new game reaches without a player leaving
  or resigning, the board, the hands, the bag and a pending placement hold together exactly the
  hundred tiles of the set; in any run they never hold more.
\<close>

theorem tiles_conserved:
  assumes "shuffler (shuffle_fn e)" "game_run (game_new e gid chal limit hints) evs g"
  shows "tiles_in_play g \<subseteq># mset unshuffled_bag
    \<and> ((\<forall>ev\<in>set evs. \<not> takes_tiles ev) \<longrightarrow> tiles_in_play g = mset unshuffled_bag)"
  using game_run_preserves [OF assms(2)] game_new_ok [OF assms(1)] by metis

theorem tiles_conserved_witness:
  "tiles_in_play (game_new plain_env [49] True 0 3\<lparr>players := [player_new [97] [65], player_new [98] [66]]\<rparr>)
     = mset unshuffled_bag"
  using tiles_conserved [OF plain_shuffler two_joined_run] by simp



section \<open>Placing tiles\<close>

text \<open>What a placement must satisfy, apart from the dictionary.\<close>

definition may_place :: "str \<Rightarrow> placed list \<Rightarrow> game \<Rightarrow> bool" where
  "may_place pid tiles g \<longleftrightarrow>
     \<not> finished g \<and> pending_challenge g = None
     \<and> current_player_idx g < length (players g)
     \<and> player_id (players g ! current_player_idx g) = pid
     \<and> mset (map hand_tile tiles) \<subseteq># mset (hand (players g ! current_player_idx g))
     \<and> legal_geometry (board g) tiles
     \<and> no_split (lay_tiles tiles (board g)) (mask_of (squares_of tiles)) (placement_words (board g) tiles)"

definition words_accepted :: "env \<Rightarrow> placed list \<Rightarrow> game \<Rightarrow> bool" where
  "words_accepted e tiles g \<longleftrightarrow>
     challenge_applies (current_player_idx g) g \<or> fst (check_fn e (map fw_word (placement_words (board g) tiles)))"

definition placement_total :: "placed list \<Rightarrow> game \<Rightarrow> int" where
  "placement_total tiles g = lerakas_total (placement_words (board g) tiles) (length tiles)"

lemma may_place_refused:
  "may_place pid tiles g \<longleftrightarrow> placement_refused pid tiles g = None \<and> legal_geometry (board g) tiles
     \<and> no_split (lay_tiles tiles (board g)) (mask_of (squares_of tiles)) (placement_words (board g) tiles)"
  by (auto simp: may_place_def placement_refused_None validate_hand_iff)

lemma validate_placement_accepts:
  "legal_geometry b ps \<Longrightarrow> no_split (lay_tiles ps b) (mask_of (squares_of ps)) (placement_words b ps)
    \<Longrightarrow> skip \<or> fst (chk (map fw_word (placement_words b ps)))
    \<Longrightarrow> validate_placement chk b ps skip = Some (Inr (placement_words b ps))"
  using validate_placement_verdict [of b ps chk skip] by auto

lemma validate_placement_rejects:
  "\<not> (legal_geometry b ps \<and> no_split (lay_tiles ps b) (mask_of (squares_of ps)) (placement_words b ps)
      \<and> (skip \<or> fst (chk (map fw_word (placement_words b ps)))))
    \<Longrightarrow> \<exists>err. validate_placement chk b ps skip = Some (Inl err)"
  using validate_placement_verdict [of b ps chk skip] by (auto split: if_splits)

definition place_message :: "placed list \<Rightarrow> game \<Rightarrow> str" where
  "place_message tiles g =
     ascii ''Szavak: '' @ join (ascii '', '') (map fw_word (placement_words (board g) tiles))
       @ (if challenge_applies (current_player_idx g) g then hu '' ~- szavaz~asra v~ar!'' else [])"

lemma place_tiles_Done:
  assumes "may_place pid tiles g" "words_accepted e tiles g"
  shows "fst (place_tiles e pid tiles g) = Done (place_message tiles g, placement_total tiles g)"
    "\<not> challenge_applies (current_player_idx g) g \<Longrightarrow>
     snd (place_tiles e pid tiles g) = finalize_placement e tiles (placement_total tiles g)
       (map fw_word (placement_words (board g) tiles)) (placement_words (board g) tiles) g"
  using assms validate_placement_accepts [of "board g" tiles "challenge_applies (current_player_idx g) g" "check_fn e"]
  by (simp_all add: may_place_refused words_accepted_def place_tiles_def placement_total_def place_message_def
      Let_def case_prod_beta)

lemma place_tiles_Fail:
  assumes "\<not> (may_place pid tiles g \<and> words_accepted e tiles g)"
  shows "\<exists>err. place_tiles e pid tiles g = (Fail err, g)"
proof (cases "placement_refused pid tiles g")
  case None
  then obtain err where "validate_placement (check_fn e) (board g) tiles (challenge_applies (current_player_idx g) g)
      = Some (Inl err)"
    using assms validate_placement_rejects [of "board g" tiles "challenge_applies (current_player_idx g) g" "check_fn e"]
    by (auto simp: may_place_refused words_accepted_def)
  then show ?thesis using None by (simp add: place_tiles_def Let_def)
qed (simp add: place_tiles_def)

text \<open>
  C4. A placement succeeds exactly when the game runs, no placement is pending, it is the player's
  turn, the hand holds the tiles, the geometry is legal (one line, no gap, touching, the centre
  first), no digraph is spelled with two tiles, and, unless a human can challenge, the dictionary
  accepts the formed words. The reply then names the words and the total; otherwise an error is
  returned and the game is unchanged.
\<close>

theorem place_tiles_verdict:
  "if may_place pid tiles g \<and> words_accepted e tiles g
   then fst (place_tiles e pid tiles g) = Done (place_message tiles g, placement_total tiles g)
   else \<exists>err. place_tiles e pid tiles g = (Fail err, g)"
  using place_tiles_Done(1) place_tiles_Fail by auto

lemma placement_words_ref:
  "w \<in> set (placement_words b ps) \<Longrightarrow>
   w = ref_word (lay_tiles ps b) (mask_of (squares_of ps)) (fw_positions w)"
  unfolding placement_words_def by (rule words_of_ref)


definition demo_tiles :: "placed list" where
  "demo_tiles = [Placed 7 7 (Tile 0) False, Placed 7 8 (Tile 24) False]"

lemma demo_legal: "legal_geometry board_new demo_tiles"
proof -
  have "case validate_placement (check_fn plain_env) board_new demo_tiles True of Some (Inr f) \<Rightarrow> f \<noteq> [] | _ \<Rightarrow> False"
    by code_simp
  then obtain f where "validate_placement (check_fn plain_env) board_new demo_tiles True = Some (Inr f)"
    by (auto split: option.splits sum.splits)
  then show ?thesis using validate_placement_legal by blast
qed


section \<open>The effect of a placement\<close>

definition kept_hand :: "placed list \<Rightarrow> game \<Rightarrow> tile list" where
  "kept_hand tiles g = fst (remove_tiles_from_hand (hand (players g ! current_player_idx g)) tiles)"

definition refill_draw :: "tile list \<Rightarrow> game \<Rightarrow> tile list \<times> tile_bag" where
  "refill_draw kept g = draw (HAND_SIZE - length kept) (bag g)"

lemma kept_hand_facts:
  assumes "game_base g" "current_player_idx g < length (players g)"
    "validate_hand (hand (players g ! current_player_idx g)) tiles = None"
  shows "length (kept_hand tiles g) \<le> HAND_SIZE"
    "mset (kept_hand tiles g) + mset (map hand_tile tiles) = mset (hand (players g ! current_player_idx g))"
proof -
  have rack: "rack_ok (hand (players g ! current_player_idx g))"
    using assms by (simp add: game_base_def list_all_length)
  show "length (kept_hand tiles g) \<le> HAND_SIZE"
    using rack_ok_remove(1) [OF rack assms(3)] by (simp add: kept_hand_def rack_ok_def)
  show "mset (kept_hand tiles g) + mset (map hand_tile tiles) = mset (hand (players g ! current_player_idx g))"
    using remove_tiles_conserves [OF assms(3)] by (simp add: kept_hand_def)
qed

lemma placed_state_players:
  assumes "current_player_idx g < length (players g)" "length (kept_hand tiles g) \<le> HAND_SIZE"
  shows "map hand (players (placed_state tiles sc g))
      = (map hand (players g))[current_player_idx g := kept_hand tiles g @ fst (refill_draw (kept_hand tiles g) g)]"
    and "map score (players (placed_state tiles sc g))
      = (map score (players g))[current_player_idx g := score (players g ! current_player_idx g) + sc]"
    and "bag (placed_state tiles sc g) = snd (refill_draw (kept_hand tiles g) g)"
    and "board (placed_state tiles sc g) = apply_placement tiles (board g)"
    and "current_player_idx (placed_state tiles sc g) = current_player_idx g"
    and "turn_number (placed_state tiles sc g) = turn_number g"
    and "puzzle (placed_state tiles sc g) = puzzle g"
    and "finished (placed_state tiles sc g) = finished g"
    and "length (players (placed_state tiles sc g)) = length (players g)"
  using assms
  by (simp_all add: placed_state_def Let_def refill_eq map_update kept_hand_def refill_draw_def)

lemma after_move_cases:
  "after_move i e g = end_game (Some i) g \<and> hand (players g ! i) = [] \<and> bag g = []
   \<or> after_move i e g = next_turn e g \<and> \<not> (hand (players g ! i) = [] \<and> bag g = [])"
  by (auto simp: after_move_def)

text \<open>
  C6. A placement the dictionary decides (no human can challenge, no daily puzzle) lays the tiles on
  the board, replaces exactly them in the hand by tiles drawn from the end of the bag, as many
  as make seven or the bag holds, and leaves every other hand alone. The game ends when the
  mover's hand and the bag are empty; otherwise the mover's score alone grows, by the total, and
  the turn number by one.
\<close>

theorem place_tiles_effect:
  assumes ok: "game_ok g" and may: "may_place pid tiles g" "words_accepted e tiles g"
    and normal: "\<not> challenge_applies (current_player_idx g) g" "puzzle g = None"
  shows "\<exists>kept drawn. mset kept + mset (map hand_tile tiles) = mset (hand (players g ! current_player_idx g))
    \<and> bag g = bag (snd (place_tiles e pid tiles g)) @ drawn
    \<and> length drawn = min (7 - length kept) (length (bag g))
    \<and> map hand (players (snd (place_tiles e pid tiles g)))
        = (map hand (players g))[current_player_idx g := kept @ drawn]
    \<and> board (snd (place_tiles e pid tiles g)) = apply_placement tiles (board g)
    \<and> scoreless_turns (snd (place_tiles e pid tiles g)) = 0
    \<and> (if kept = [] \<and> bag g = [] then finished (snd (place_tiles e pid tiles g))
       else \<not> finished (snd (place_tiles e pid tiles g))
         \<and> map score (players (snd (place_tiles e pid tiles g)))
             = (map score (players g))[current_player_idx g :=
                 score (players g ! current_player_idx g) + placement_total tiles g]
         \<and> turn_number (snd (place_tiles e pid tiles g)) = turn_number g + 1)"
proof -
  let ?i = "current_player_idx g" and ?kept = "kept_hand tiles g"
  let ?d = "refill_draw ?kept g"
  have i: "?i < length (players g)" and v: "validate_hand (hand (players g ! ?i)) tiles = None"
    and nf: "\<not> finished g" and pend: "pending_challenge g = None"
    using may(1) by (auto simp: may_place_def validate_hand_iff)
  note kf = kept_hand_facts [OF game_okD [OF ok] i v]
  note ps = placed_state_players [OF i kf(1), of "placement_total tiles g"]
  obtain n act ts ws' r t ws formed where eq: "snd (place_tiles e pid tiles g)
     = (let g4 = record_move n act ts ws' r t (announce_place n ws (placement_total tiles g) (placed_state tiles (placement_total tiles g) g))
        in if puzzle g4 \<noteq> None then finish_puzzle ?i (placement_total tiles g) ws g4 else after_move ?i e g4)"
    unfolding place_tiles_Done(2) [OF may normal(1)] using finalize_placement_eq by blast
  let ?g4 = "record_move n act ts ws' r t (announce_place n ws (placement_total tiles g) (placed_state tiles (placement_total tiles g) g))"
  have g': "snd (place_tiles e pid tiles g) = after_move ?i e ?g4"
    using eq normal(2) ps(7) by (simp add: Let_def)
  have s0: "scoreless_turns ?g4 = 0" by (simp add: placed_state_def Let_def)
  have h4: "hand (players ?g4 ! ?i) = ?kept @ fst ?d"
    using ps(1,9) i by (metis length_map nth_list_update_eq nth_map text_step_fields(15,29))
  have cond: "hand (players ?g4 ! ?i) = [] \<and> bag ?g4 = [] \<longleftrightarrow> ?kept = [] \<and> bag g = []"
    unfolding h4 using ps(3) by (auto simp: refill_draw_def draw_eq HAND_SIZE_def)
  have bag: "bag g = snd ?d @ fst ?d" by (simp add: refill_draw_def draw_eq)
  let ?F = "after_move ?i e ?g4"
  have same: "map hand (players ?F) = map hand (players ?g4)" "bag ?F = bag ?g4" "board ?F = board ?g4"
    "scoreless_turns ?F = scoreless_turns ?g4"
    by (simp_all add: after_move_def)
  have ended: "finished ?F" if "?kept = []" "bag g = []"
    using after_move_cases [of ?i e ?g4] cond that by auto
  have runs: "\<not> finished ?F \<and> map score (players ?F) = map score (players ?g4) \<and> turn_number ?F = turn_number g + 1"
    if "\<not> (?kept = [] \<and> bag g = [])"
  proof -
    have "?F = next_turn e ?g4" using after_move_cases [of ?i e ?g4] cond that by blast
    then show ?thesis using ps(6,8) nf by simp
  qed
  have len: "length (fst ?d) = min (7 - length ?kept) (length (bag g))"
    by (simp add: refill_draw_def HAND_SIZE_def)
  show ?thesis
    unfolding g'
  proof (intro exI conjI)
    show "mset ?kept + mset (map hand_tile tiles) = mset (hand (players g ! ?i))" by (fact kf(2))
    show "bag g = bag ?F @ fst ?d" using bag by (simp only: same(2) text_step_fields ps(3))
    show "length (fst ?d) = min (7 - length ?kept) (length (bag g))" by (fact len)
    show "map hand (players ?F) = (map hand (players g))[?i := ?kept @ fst ?d]"
      by (simp only: same(1) text_step_fields ps(1))
    show "board ?F = apply_placement tiles (board g)" by (simp only: same(3) text_step_fields ps(4))
    show "scoreless_turns ?F = 0" using s0 by (simp only: same(4))
    show "if ?kept = [] \<and> bag g = [] then finished ?F
      else \<not> finished ?F \<and> map score (players ?F) = (map score (players g))[?i := score (players g ! ?i) + placement_total tiles g]
        \<and> turn_number ?F = turn_number g + 1"
      using ended runs ps(2) by (simp only: text_step_fields split: if_split) blast
  qed
qed

definition demo_game :: "bool \<Rightarrow> game" where
  "demo_game chal = (game_new plain_env [49] chal 0 3)
     \<lparr>started := True, bag := [Tile 1, Tile 2],
      players := [(player_new [97] [65])\<lparr>hand := [Tile 0, Tile 3, Tile 24]\<rparr>,
                  (player_new [98] [66])\<lparr>hand := [Tile 5]\<rparr>]\<rparr>"

lemma demo_game_ok: "game_ok (demo_game chal)"
  by (simp add: demo_game_def game_new_def game_ok_def game_base_def seat_ok_def board_ok_new rack_ok_def
      tile_ok_def HAND_SIZE_def SCORELESS_TURNS_LIMIT_def player_new_def)

lemma demo_no_split:
  "no_split (lay_tiles demo_tiles board_new) (mask_of (squares_of demo_tiles)) (placement_words board_new demo_tiles)"
proof -
  have "case validate_placement (check_fn plain_env) board_new demo_tiles True of Some (Inr f) \<Rightarrow> True | _ \<Rightarrow> False"
    by code_simp
  then show ?thesis
    using validate_placement_verdict [of board_new demo_tiles "check_fn plain_env" True] demo_legal
    by (auto split: if_splits option.splits sum.splits)
qed

lemma demo_may_place: "may_place [97] demo_tiles (demo_game chal)"
  using demo_legal demo_no_split
  by (simp add: may_place_def demo_game_def game_new_def player_new_def)
    (simp add: demo_tiles_def hand_tile_def)

lemma demo_words: "words_accepted plain_env demo_tiles (demo_game chal)"
  by (simp add: words_accepted_def plain_env_def)

lemma demo_seat: "current_player_idx (demo_game chal) = 0" "puzzle (demo_game chal) = None"
  "challenge_applies 0 (demo_game chal) = chal"
  by (simp_all add: demo_game_def game_new_def challenge_applies_def player_new_def)

theorem place_tiles_effect_witness:
  "\<not> finished (snd (place_tiles plain_env [97] demo_tiles (demo_game False)))
   \<and> turn_number (snd (place_tiles plain_env [97] demo_tiles (demo_game False))) = 1"
proof -
  have "bag (demo_game False) \<noteq> []" "turn_number (demo_game False) = 0" by (simp_all add: demo_game_def game_new_def)
  moreover have normal: "\<not> challenge_applies (current_player_idx (demo_game False)) (demo_game False)"
    by (simp add: demo_seat)
  ultimately show ?thesis
    using place_tiles_effect [OF demo_game_ok demo_may_place demo_words normal demo_seat(2)]
    by (auto split: if_splits)
qed

section \<open>Placements under the vote\<close>

text \<open>
  A placement that a human can challenge only reserves the tiles: board, bag, scores and seat stay,
  the tiles leave the hand, and a pending placement with the words and the total is recorded; as
  long as nobody has voted, withdrawing it gives back the same tiles and the game goes on in the
  same state, up to the order of the hand and the texts.
\<close>

theorem challenge_and_withdraw:
  assumes ok: "game_ok g" and may: "may_place pid tiles g" and chal: "challenge_applies (current_player_idx g) g"
    and placed: "place_tiles e pid tiles g = (r1, g1)" and withdrawn: "withdraw_pending pid g1 = (r2, g2)"
  shows "board g1 = board g \<and> bag g1 = bag g \<and> map score (players g1) = map score (players g)
    \<and> current_player_idx g1 = current_player_idx g \<and> turn_number g1 = turn_number g
    \<and> (\<exists>pc. pending_challenge g1 = Some pc \<and> tiles_placed pc = tiles \<and> votes pc = []
          \<and> ch_score pc = placement_total tiles g \<and> player_idx pc = current_player_idx g)
    \<and> is_done r2 \<and> pending_challenge g2 = None
    \<and> board g2 = board g \<and> bag g2 = bag g \<and> map score (players g2) = map score (players g)
    \<and> current_player_idx g2 = current_player_idx g \<and> turn_number g2 = turn_number g
    \<and> scoreless_turns g2 = scoreless_turns g
    \<and> map (\<lambda>p. mset (hand p)) (players g2) = map (\<lambda>p. mset (hand p)) (players g)"
proof -
  let ?i = "current_player_idx g"
  have g1_def: "g1 = snd (place_tiles e pid tiles g)" and g2_def: "g2 = snd (withdraw_pending pid g1)"
    using placed withdrawn by simp_all
  have i: "?i < length (players g)" and v: "validate_hand (hand (players g ! ?i)) tiles = None"
    and pid: "player_id (players g ! ?i) = pid"
    using may by (auto simp: may_place_def validate_hand_iff)
  note kf = kept_hand_facts [OF game_okD [OF ok] i v]
  let ?rm = "remove_tiles_from_hand (hand (players g ! ?i)) tiles"
  let ?pc = "challenge_new (now_secs e) tiles (placement_words (board g) tiles)
      (map fw_word (placement_words (board g) tiles)) (placement_total tiles g) ?i (snd ?rm)"
  obtain tx info where g1: "g1 = set_last_action tx info
      ((upd_player ?i (hand_update (\<lambda>_. fst ?rm)) g)\<lparr>pending_challenge := Some ?pc\<rparr>)"
    using may chal validate_placement_accepts [of "board g" tiles True "check_fn e"]
    unfolding g1_def by (simp add: may_place_refused place_tiles_def Let_def case_prod_beta placement_total_def)
  have pc: "votes ?pc = []" "tiles_placed ?pc = tiles" "ch_score ?pc = placement_total tiles g" "player_idx ?pc = ?i"
    "removed_from_hand ?pc = map hand_tile tiles"
    by (simp_all add: challenge_new_def remove_tiles_snd)
  have p1: "pending_challenge g1 = Some ?pc" "players g1 ! ?i = hand_update (\<lambda>_. fst ?rm) (players g ! ?i)"
    "length (players g1) = length (players g)"
    using i by (simp_all add: g1)
  have w: "r2 = Done (hu ''Lerak~as visszavonva.'')"
    and g2: "\<exists>tx info. g2 = set_last_action tx info (return_tiles ?pc g1)"
    using p1 pc(1,4) pid i withdrawn
    by (auto simp: withdraw_pending_def placer_exists_def Let_def)
  have sc: "map score (players g1) = map score (players g)"
    using i by (simp add: g1 map_update) (metis list_update_id nth_map)
  have m: "map (\<lambda>p. mset (hand p)) (players g2) = map (\<lambda>p. mset (hand p)) (players g)"
    using g2 i kf(2) pc(4,5) p1(2)
    by (auto simp: return_tiles_def g1 kept_hand_def list_eq_iff_nth_eq nth_list_update)
  have sc2: "map score (players g2) = map score (players g1)"
    using g2 i pc(4) p1(3) by (auto simp: return_tiles_def list_eq_iff_nth_eq nth_list_update)
  have "pending_challenge g2 = None" "board g2 = board g" "bag g2 = bag g" "current_player_idx g2 = ?i"
    "turn_number g2 = turn_number g" "scoreless_turns g2 = scoreless_turns g"
    using g2 by (auto simp: return_tiles_def g1)
  then show ?thesis
    using m sc sc2 w p1(1) pc(1-4) by (simp add: g1)
qed

theorem challenge_and_withdraw_witness:
  "board (snd (withdraw_pending [97] (snd (place_tiles plain_env [97] demo_tiles (demo_game True))))) = board_new"
proof -
  have "challenge_applies (current_player_idx (demo_game True)) (demo_game True)" by (simp add: demo_seat)
  from challenge_and_withdraw [OF demo_game_ok demo_may_place this
      prod.collapse [symmetric, of "place_tiles plain_env [97] demo_tiles (demo_game True)"] prod.collapse [symmetric]]
  show ?thesis by (simp add: demo_game_def game_new_def)
qed

section \<open>Votes\<close>

lemma register_scoreless_eq:
  "snd (register_scoreless_turn g) =
     (if SCORELESS_TURNS_LIMIT \<le> scoreless_turns g + 1 then end_game None (g\<lparr>scoreless_turns := scoreless_turns g + 1\<rparr>)
      else g\<lparr>scoreless_turns := scoreless_turns g + 1\<rparr>)"
  by (simp add: register_scoreless_turn_def Let_def)

lemma map_update_same: "f x = f (xs ! i) \<Longrightarrow> map f (xs[i := x]) = map f xs"
proof (cases "i < length xs")
  case True
  assume "f x = f (xs ! i)"
  then have "map f (xs[i := x]) = (map f xs)[i := map f xs ! i]" using True by (simp add: map_update)
  then show ?thesis by simp
qed (simp add: list_update_beyond)

lemma rejected_end_game [simp]: "rejected_placements (end_game fin g) = rejected_placements g"
  using announce_winners_eq by (auto simp: end_game_def Let_def announce_winners_def split: list.split)

lemma scoreless_step_facts:
  "board (scoreless_step e c g) = board g" "bag (scoreless_step e c g) = bag g"
  "map hand (players (scoreless_step e c g)) = map hand (players g)"
  "scoreless_turns (scoreless_step e c g) = scoreless_turns g + 1"
  "finished (scoreless_step e c g) \<longleftrightarrow> finished g \<or> SCORELESS_TURNS_LIMIT \<le> scoreless_turns g + 1"
  "scoreless_turns g + 1 < SCORELESS_TURNS_LIMIT \<Longrightarrow>
     map score (players (scoreless_step e c g)) = map score (players g)"
  "pending_challenge g = None \<Longrightarrow> pending_challenge (scoreless_step e c g) = None"
  "rejected_placements (scoreless_step e c g) = rejected_placements g"
  by (simp_all add: scoreless_step_def register_scoreless_turn_def Let_def)

lemma return_tiles_hands:
  "player_idx pc < length (players g) \<Longrightarrow>
   map hand (players (return_tiles pc g))
     = (map hand (players g))[player_idx pc := hand (players g ! player_idx pc) @ removed_from_hand pc]"
  "map score (players (return_tiles pc g)) = map score (players g)"
  "board (return_tiles pc g) = board g" "bag (return_tiles pc g) = bag g"
  "finished (return_tiles pc g) = finished g" "started (return_tiles pc g) = started g"
  by (simp add: return_tiles_def map_update, simp_all add: return_tiles_def map_update_same)

text \<open>Rejection: the tiles come back, nothing is scored, the turn counts as scoreless.\<close>

lemma finalize_reject_effect:
  fixes e :: env
  assumes ok: "game_ok g" and Some: "pending_challenge g = Some pc"
  defines "g' \<equiv> finalize_reject e g"
  shows "board g' = board g \<and> bag g' = bag g
    \<and> map hand (players g') = (map hand (players g))[player_idx pc := hand (players g ! player_idx pc) @ removed_from_hand pc]
    \<and> scoreless_turns g' = scoreless_turns g + 1 \<and> pending_challenge g' = None
    \<and> (finished g' \<longleftrightarrow> scoreless_turns g + 1 = SCORELESS_TURNS_LIMIT)
    \<and> (finished g' \<or> map score (players g') = map score (players g))
    \<and> placement_key (tiles_placed pc) \<in> rejected_placements g'"
proof -
  note pd = game_ok_pendingD [OF ok Some]
  obtain n act sc t r tx info where eq: "g'
      = scoreless_step e (\<lambda>g4. disconnected (players g4 ! player_idx pc))
          (record_move n act t r sc None (set_last_action tx info
            ((return_tiles pc g)\<lparr>rejected_placements := insert (placement_key (tiles_placed pc)) (rejected_placements g)\<rparr>)))"
    using Some unfolding g'_def finalize_reject_def scoreless_step_def Let_def by (simp only: option.case)
  note rt = return_tiles_preserves [OF ok Some]
  note rh = return_tiles_hands [of pc g]
  have lim: "SCORELESS_TURNS_LIMIT \<le> scoreless_turns g + 1 \<longleftrightarrow> scoreless_turns g + 1 = SCORELESS_TURNS_LIMIT"
    using pd(8) by auto
  show ?thesis
    unfolding eq using rt rh(1) [OF pd(4)] rh(2-) pd(2,8) lim
    by (auto simp: scoreless_step_facts)
qed

text \<open>Acceptance: the tiles are laid, the score counted, the hand refilled.\<close>

lemma finalize_accept_effect:
  fixes e :: env
  assumes ok: "game_ok g" and Some: "pending_challenge g = Some pc"
  defines "g' \<equiv> finalize_accept e g" and "h \<equiv> hand (players g ! player_idx pc)"
  shows "board g' = apply_placement (tiles_placed pc) (board g) \<and> pending_challenge g' = None
    \<and> scoreless_turns g' = 0
    \<and> bag g = bag g' @ fst (refill_draw h g)
    \<and> map hand (players g') = (map hand (players g))[player_idx pc := h @ fst (refill_draw h g)]
    \<and> (finished g' \<longleftrightarrow> h = [] \<and> bag g = [])
    \<and> (finished g' \<or> map score (players g')
         = (map score (players g))[player_idx pc := score (players g ! player_idx pc) + ch_score pc])"
proof -
  note pd = game_ok_pendingD [OF ok Some]
  let ?i = "player_idx pc"
  let ?g2 = "upd_player ?i (\<lambda>p. p\<lparr>score := score p + ch_score pc\<rparr>)
      (g\<lparr>pending_challenge := None, board := apply_placement (tiles_placed pc) (board g), rejected_placements := {}\<rparr>)"
  let ?g3 = "(refill ?i ?g2)\<lparr>scoreless_turns := 0\<rparr>"
  obtain n act ts ws r t sc nm ws' where eq: "g'
      = after_move ?i e (record_move n act ts ws sc r (announce_place nm ws' t ?g3))"
    using Some unfolding g'_def finalize_accept_def after_move_def Let_def by (simp only: option.case)
  let ?g4 = "record_move n act ts ws sc r (announce_place nm ws' t ?g3)"
  have le: "length h \<le> HAND_SIZE" using pd(7) by (simp add: h_def)
  have h2: "hand (players ?g2 ! ?i) = h" using pd(4) by (simp add: h_def)
  have hs: "map hand (players ?g4) = (map hand (players g))[?i := h @ fst (refill_draw h g)]"
    and scs: "map score (players ?g4) = (map score (players g))[?i := score (players g ! ?i) + ch_score pc]"
    and bg: "bag ?g4 = snd (refill_draw h g)"
    using pd(4) le by (simp_all add: refill_eq refill_draw_def h_def Let_def map_update)
  have len: "length (players ?g4) = length (players g)" by simp
  have h4: "hand (players ?g4 ! ?i) = h @ fst (refill_draw h g)"
    using arg_cong [OF hs, of "\<lambda>xs. xs ! ?i"] pd(4) len by simp
  have bagg: "bag g = snd (refill_draw h g) @ fst (refill_draw h g)" by (simp add: refill_draw_def draw_eq)
  have cond: "hand (players ?g4 ! ?i) = [] \<and> bag ?g4 = [] \<longleftrightarrow> h = [] \<and> bag g = []"
    unfolding h4 bg by (subst bagg) auto
  have same: "map hand (players g') = map hand (players ?g4)" "bag g' = bag ?g4" "board g' = board ?g4"
    "scoreless_turns g' = scoreless_turns ?g4" "pending_challenge g' = None"
    unfolding eq by (simp_all add: after_move_def)
  have fin: "finished g' \<longleftrightarrow> h = [] \<and> bag g = []"
    using after_move_cases [of ?i e ?g4] cond pd(2) unfolding eq by auto
  have sc: "finished g' \<or> map score (players g') = map score (players ?g4)"
    using after_move_cases [of ?i e ?g4] unfolding eq by auto
  show ?thesis
    using same hs bg fin sc scs bagg by simp
qed

lemma finite_voter_ids [simp]: "finite (voter_ids g)"
  by (simp add: voter_ids_def split: option.split)

text \<open>The demo game with a pending placement.\<close>

lemma demo_pending:
  "\<exists>pc. pending_challenge (snd (place_tiles plain_env [97] demo_tiles (demo_game True))) = Some pc"
proof -
  have "challenge_applies (current_player_idx (demo_game True)) (demo_game True)" by (simp add: demo_seat)
  from challenge_and_withdraw [OF demo_game_ok demo_may_place this
      prod.collapse [symmetric, of "place_tiles plain_env [97] demo_tiles (demo_game True)"] prod.collapse [symmetric]]
  show ?thesis by blast
qed



text \<open>
  C8. A vote counts exactly when a placement is pending, the voter is another human player and has
  not voted yet; it settles the matter exactly when it is the last one missing.
\<close>

theorem vote_rights:
  assumes "game_ok g" "pending_challenge g = Some pc" "cast_vote e pid v g = (r, g')"
  shows "(is_done r \<longleftrightarrow> pid \<in> voter_ids g \<and> map_of (votes pc) pid = None)
    \<and> (pid \<in> voter_ids g \<longrightarrow> pid \<noteq> player_id (players g ! player_idx pc)
         \<and> (\<exists>p\<in>set (players g). player_id p = pid \<and> \<not> is_bot p))
    \<and> (is_done r \<longrightarrow>
        (pending_challenge g' = None) = (\<forall>w\<in>voter_ids g - {pid}. map_of (votes pc) w \<noteq> None))"
proof -
  have pl: "placer_exists g" using assms(1) by (rule game_ok_placer_exists)
  have voter: "pid \<in> voter_ids g \<longleftrightarrow> pid \<noteq> player_id (players g ! player_idx pc)
      \<and> (\<exists>p\<in>set (players g). player_id p = pid \<and> \<not> is_bot p)"
    using assms(2) by (auto simp: voter_ids_def)
  have found: "find_player pid g \<noteq> None" if "pid \<in> voter_ids g"
    using that voter by (auto simp: find_player_def find_None_iff)
  have refused: "vote_refused pid v pc g = None \<longleftrightarrow> pid \<in> voter_ids g \<and> map_of (votes pc) pid = None"
  proof (cases "pid \<in> voter_ids g")
    case True
    then show ?thesis using voter found by (auto simp: vote_refused_def)
  qed (simp add: vote_refused_def)
  let ?g1 = "g\<lparr>pending_challenge := Some (add_vote pid v pc)\<rparr>"
  have ok1: "game_ok ?g1"
    using keeps_votes [OF assms(1,2)] by (simp add: keeps_def add_vote_def)
  have gone: "pending_challenge (snd (resolve_and_finalize e ?g1)) = None"
    using finalize_accept_effect [OF ok1, of "add_vote pid v pc" e]
      finalize_reject_effect [OF ok1, of "add_vote pid v pc" e]
    by (simp add: resolve_and_finalize_def)
  have all: "all_voted (voter_ids g) (add_vote pid v pc) \<longleftrightarrow> (\<forall>w\<in>voter_ids g - {pid}. map_of (votes pc) w \<noteq> None)"
    by (auto simp: all_voted_def)
  have res: "r = fst (cast_vote e pid v g)" "g' = snd (cast_vote e pid v g)" using assms(3) by simp_all
  show ?thesis
  proof (cases "vote_refused pid v pc g")
    case None
    have settled: "is_done r" "(pending_challenge g' = None) = all_voted (voter_ids g) (add_vote pid v pc)"
      unfolding res using assms(2) pl None gone by (simp_all add: cast_vote_def Let_def case_prod_beta)
    show ?thesis using None refused voter settled all by blast
  next
    case (Some err)
    have "\<not> is_done r" unfolding res using assms(2) pl Some by (simp add: cast_vote_def)
    then show ?thesis using Some refused voter by auto
  qed
qed

theorem vote_rights_witness:
  "\<exists>pc :: challenge. is_done (fst (cast_vote plain_env [98] Reject (snd (place_tiles plain_env [97] demo_tiles (demo_game True)))))
     = ([98] \<in> voter_ids (snd (place_tiles plain_env [97] demo_tiles (demo_game True))) \<and> map_of (votes pc) [98] = None)"
proof -
  let ?g = "snd (place_tiles plain_env [97] demo_tiles (demo_game True))"
  have ok: "game_ok ?g"
    using place_tiles_preserves [OF demo_game_ok, of demo_tiles plain_env "[97]" True]
    by (simp add: demo_tiles_def tile_ok_def)
  obtain pc where "pending_challenge ?g = Some pc" using demo_pending by blast
  from vote_rights [OF ok this prod.collapse [symmetric], of plain_env "[98]" Reject, THEN conjunct1]
  show ?thesis by (rule exI)
qed

section \<open>Exchanging and passing\<close>

text \<open>
  An exchange is granted exactly under the conditions of the code, and then swaps the chosen
  tiles for as many drawn from the bag: the hand and the bag keep their sizes, nothing is laid or
  scored, and the turn counts as scoreless.
\<close>

theorem exchange_effect:
  assumes ok: "game_ok g" and sh: "shuffler (shuffle_fn e)" and none: "exchange_refused pid idxs g = None"
    and ex: "exchange_tiles e pid idxs g = (r, g')"
  defines "h \<equiv> hand (players g ! current_player_idx g)"
  shows "is_done r \<and> board g' = board g \<and> length (bag g') = length (bag g)
    \<and> scoreless_turns g' = scoreless_turns g + 1
    \<and> (finished g' \<longleftrightarrow> scoreless_turns g + 1 = SCORELESS_TURNS_LIMIT)
    \<and> (finished g' \<or> map score (players g') = map score (players g))
    \<and> (\<exists>kept drawn. map hand (players g') = (map hand (players g))[current_player_idx g := kept @ drawn]
         \<and> mset kept + mset (map (\<lambda>i. h ! nat i) idxs) = mset h \<and> length drawn = length idxs
         \<and> mset (bag g') + mset drawn = mset (bag g) + mset (map (\<lambda>i. h ! nat i) idxs))"
proof -
  note ex0 = none [unfolded exchange_refused_None]
  let ?i = "current_player_idx g" and ?desc = "sorted_desc idxs"
  let ?out = "map ((!) h) ?desc" and ?kept = "fold remove_at ?desc h"
  let ?d = "draw (length ?out) (bag g)"
  let ?g1 = "(upd_player ?i (hand_update (\<lambda>_. ?kept @ fst ?d)) g)\<lparr>bag := put_back (shuffle_fn e) ?out (snd ?d)\<rparr>"
  have i: "?i < length (players g)" using ex0 by auto
  have out: "mset ?out = mset (map (\<lambda>i. h ! nat i) idxs)"
    by (simp add: sorted_desc_def multiset.map_comp comp_def)
  have "mset ?kept + mset ?out = mset h"
    using ex0 by (intro fold_remove_at sorted_desc_strict) (auto simp: sorted_desc_def h_def)
  then have m: "mset ?kept + mset (map (\<lambda>i. h ! nat i) idxs) = mset h" using out by simp
  have lout: "length ?out = length idxs" by (simp add: sorted_desc_def)
  have ld: "length (fst ?d) = length idxs" using ex0 lout by (simp add: min_def)
  have bg: "mset (bag ?g1) + mset (fst ?d) = mset (bag g) + mset ?out"
    using tile_bags.swap_contents [OF sh] by simp
  have lb: "length (bag ?g1) = length (bag g)"
    using tile_bags.swap_size [OF sh, of ?out "length ?out" "bag g"] ex0 lout by simp
  obtain n act ts ws sc r0 tx info where eq: "g' = scoreless_step e (\<lambda>_. True)
        (record_move n act ts ws sc r0 (upd_player ?i (timeouts_update (\<lambda>_. 0)) (set_last_action tx info ?g1)))"
    and "is_done r"
    using ex none unfolding exchange_tiles_def Let_def case_prod_beta scoreless_step_eq [unfolded case_prod_beta] h_def
    by (simp only: option.case prod.inject) (metis is_done.simps(1))
  have lim: "SCORELESS_TURNS_LIMIT \<le> scoreless_turns g + 1 \<longleftrightarrow> scoreless_turns g + 1 = SCORELESS_TURNS_LIMIT"
    using ok ex0 by (auto simp: game_ok_def)
  have hands: "map hand (players g') = (map hand (players g))[?i := ?kept @ fst ?d]"
    unfolding eq using i by (simp add: scoreless_step_facts map_update map_update_same)
  have "board g' = board g" "bag g' = bag ?g1" "scoreless_turns g' = scoreless_turns g + 1"
    "finished g' \<longleftrightarrow> scoreless_turns g + 1 = SCORELESS_TURNS_LIMIT"
    "finished g' \<or> map score (players g') = map score (players g)"
    unfolding eq using ex0 lim by (auto simp: scoreless_step_facts map_update_same)
  note facts = this
  have "map hand (players g') = (map hand (players g))[?i := ?kept @ fst ?d]
     \<and> mset ?kept + mset (map (\<lambda>i. h ! nat i) idxs) = mset h \<and> length (fst ?d) = length idxs
     \<and> mset (bag g') + mset (fst ?d) = mset (bag g) + mset (map (\<lambda>i. h ! nat i) idxs)"
    using hands m ld bg out facts(2) by simp
  then show ?thesis using \<open>is_done r\<close> lb facts by metis
qed

theorem exchange_effect_witness:
  "is_done (fst (exchange_tiles plain_env [97] [0, 2] (demo_game False\<lparr>bag := replicate 7 (Tile 1)\<rparr>)))"
proof -
  let ?g = "demo_game False\<lparr>bag := replicate 7 (Tile 1)\<rparr>"
  have "game_ok ?g"
    by (simp add: demo_game_def game_new_def game_ok_def game_base_def seat_ok_def board_ok_new rack_ok_def
        tile_ok_def HAND_SIZE_def SCORELESS_TURNS_LIMIT_def player_new_def list_all_iff)
  moreover have "exchange_refused [97] [0, 2] ?g = None"
    by (simp add: exchange_refused_None demo_game_def game_new_def player_new_def)
  ultimately show ?thesis using exchange_effect [OF _ plain_shuffler _ prod.collapse [symmetric]] by blast
qed

section \<open>The turn order\<close>

text \<open>Seats a turn passes over: the absent ones, except in a correspondence game.\<close>

definition passed_over :: "game \<Rightarrow> nat \<Rightarrow> bool" where
  "passed_over g i \<longleftrightarrow> disconnected (players g ! i) \<and> \<not> async_mode g"

lemma next_turn_loop_first:
  assumes "k < n" "\<not> passed_over g ((current_player_idx g + 1 + k) mod length (players g))"
    "\<forall>j<k. passed_over g ((current_player_idx g + 1 + j) mod length (players g))"
    "\<forall>p\<in>set (players g). \<not> skip_next_turn p" "players g \<noteq> []"
  shows "next_turn_loop n g = g\<lparr>current_player_idx := (current_player_idx g + 1 + k) mod length (players g)\<rparr>"
  using assms
proof (induction n arbitrary: g k)
  case (Suc n)
  let ?i = "(current_player_idx g + 1) mod length (players g)"
  let ?g = "g\<lparr>current_player_idx := ?i\<rparr>"
  have i: "?i < length (players g)" using Suc.prems by simp
  show ?case
  proof (cases k)
    case 0
    then have "\<not> (disconnected (players g ! ?i) \<and> \<not> async_mode g)" "\<not> skip_next_turn (players g ! ?i)"
      using Suc.prems(2,4) i by (auto simp: passed_over_def)
    then have "next_turn_loop (Suc n) g = ?g" by (auto simp: Let_def)
    then show ?thesis using 0 by simp
  next
    case (Suc m)
    have shift: "(?i + 1 + j) mod length (players g) = (current_player_idx g + 1 + Suc j) mod length (players g)" for j
      using mod_add_left_eq [of "current_player_idx g + 1" "length (players g)" "1 + j"] by (simp add: ac_simps)
    have over: "passed_over g ?i" using Suc.prems(3) \<open>k = Suc m\<close> by (metis add_0_right zero_less_Suc)
    have ahead: "\<not> passed_over g ((current_player_idx g + 1 + k) mod length (players g))" using Suc.prems(2) .
    have "\<exists>q\<in>set (players g). \<not> disconnected q"
      using ahead over Suc.prems(5) by (auto simp: passed_over_def intro!: nth_mem bexI)
    then have "next_turn_loop (Suc n) g = next_turn_loop n ?g"
      using over by (simp add: Let_def passed_over_def)
    also have "\<dots> = ?g\<lparr>current_player_idx := (?i + 1 + m) mod length (players g)\<rparr>"
    proof -
      have "\<forall>j<m. passed_over g ((current_player_idx g + 1 + Suc j) mod length (players g))"
        using Suc.prems(3) \<open>k = Suc m\<close> by (metis Suc_less_eq)
      then have "\<forall>j<m. passed_over ?g ((current_player_idx ?g + 1 + j) mod length (players ?g))"
        using shift by (simp add: passed_over_def)
      moreover have "\<not> passed_over ?g ((current_player_idx ?g + 1 + m) mod length (players ?g))"
        using ahead shift [of m] \<open>k = Suc m\<close> by (simp add: passed_over_def)
      ultimately show ?thesis using Suc.IH [of m ?g] Suc.prems \<open>k = Suc m\<close> by simp
    qed
    finally show ?thesis using shift [of m] \<open>k = Suc m\<close> by simp
  qed
qed simp

text \<open>
  The turn passes to the first seat after the current one, in seating order, whose player is
  connected (to the next seat at all in a correspondence game), and the turn number grows by
  one; hands, scores, board and bag stay.
\<close>

theorem turn_order:
  assumes "k < length (players g)"
    "\<not> passed_over g ((current_player_idx g + 1 + k) mod length (players g))"
    "\<forall>j<k. passed_over g ((current_player_idx g + 1 + j) mod length (players g))"
    "\<forall>p\<in>set (players g). \<not> skip_next_turn p"
  shows "current_player_idx (next_turn e g) = (current_player_idx g + 1 + k) mod length (players g)
    \<and> turn_number (next_turn e g) = turn_number g + 1
    \<and> players (next_turn e g) = players g \<and> board (next_turn e g) = board g \<and> bag (next_turn e g) = bag g"
proof -
  have "players g \<noteq> []" using assms(1) by auto
  with next_turn_loop_first [OF assms] show ?thesis by (simp add: next_turn_def Let_def reset_deadline_def)
qed

theorem turn_order_witness: "current_player_idx (next_turn plain_env (demo_game False)) = 1"
  using turn_order [of 0 "demo_game False" plain_env]
  by (simp add: passed_over_def demo_game_def game_new_def player_new_def)

section \<open>The end of a game\<close>

lemma sum_list_update_add:
  "i < length xs \<Longrightarrow> sum_list (xs[i := xs ! i + (c :: int)]) = sum_list xs + c"
proof (induction xs arbitrary: i)
  case (Cons x xs)
  show ?case using Cons.IH [of "i - 1"] Cons.prems by (cases i) simp_all
qed simp

lemma end_game_scores:
  "map score (players (end_game fin g)) =
     (let base = map (\<lambda>p. score p - hand_value p) (players g)
      in case fin of None \<Rightarrow> base
         | Some i \<Rightarrow> if i < length base then base[i := base ! i + (\<Sum>p\<leftarrow>players g. hand_value p)] else base)"
proof (cases fin)
  case None
  then show ?thesis by (simp add: end_game_def deduct_hand_def Let_def comp_def)
next
  case (Some i)
  then show ?thesis
    by (cases "i < length (players g)")
      (simp_all add: end_game_def deduct_hand_def Let_def comp_def map_update list_update_beyond)
qed

lemma end_game_winners:
  "players g \<noteq> [] \<Longrightarrow>
   winners (end_game fin g) = filter (\<lambda>p. \<forall>q\<in>set (players (end_game fin g)). score q \<le> score p) (players (end_game fin g))"
proof -
  assume ne: "players g \<noteq> []"
  define ps where "ps = players (end_game fin g)"
  have "ps \<noteq> []" using ne length_end_game [of fin g] unfolding ps_def by (metis length_0_conv)
  have w: "winners (end_game fin g) = filter (\<lambda>p. score p = Max (score ` set ps)) ps"
    using \<open>ps \<noteq> []\<close> unfolding ps_def end_game_def Let_def by (simp add: max_score_def split: option.split)
  have "score p = Max (score ` set ps) \<longleftrightarrow> (\<forall>q\<in>set ps. score q \<le> score p)" if "p \<in> set ps" for p
  proof
    assume "score p = Max (score ` set ps)"
    then show "\<forall>q\<in>set ps. score q \<le> score p" by simp
  next
    assume "\<forall>q\<in>set ps. score q \<le> score p"
    then show "score p = Max (score ` set ps)" using that by (intro Max_eqI [symmetric]) auto
  qed
  then show ?thesis unfolding w ps_def [symmetric] by (auto intro: filter_cong)
qed

text \<open>
  The final accounting: everybody loses the value of the tiles in hand, and the player who went
  out, if there is one, gains the sum, so that then no points are lost; the winners are exactly
  the players with the highest final score, all of them in a draw.
\<close>

theorem end_game_accounting:
  assumes "i < length (players g)"
  shows "finished (end_game fin g)
    \<and> map hand (players (end_game fin g)) = map hand (players g)
    \<and> map score (players (end_game None g)) = map (\<lambda>p. score p - hand_value p) (players g)
    \<and> map score (players (end_game (Some i) g))
        = (map (\<lambda>p. score p - hand_value p) (players g))
            [i := score (players g ! i) - hand_value (players g ! i) + (\<Sum>p\<leftarrow>players g. hand_value p)]
    \<and> sum_list (map score (players (end_game (Some i) g))) = sum_list (map score (players g))
    \<and> winners (end_game fin g)
        = filter (\<lambda>p. \<forall>q\<in>set (players (end_game fin g)). score q \<le> score p) (players (end_game fin g))
    \<and> winners (end_game fin g) \<noteq> []"
proof -
  have ne: "players g \<noteq> []" using assms by auto
  have sums: "sum_list (map (\<lambda>p. score p - hand_value p) ps) + (\<Sum>p\<leftarrow>ps. hand_value p) = sum_list (map score ps)"
    for ps by (induction ps) auto
  have upd: "map score (players (end_game (Some i) g))
      = (map (\<lambda>p. score p - hand_value p) (players g))
          [i := (map (\<lambda>p. score p - hand_value p) (players g)) ! i + (\<Sum>p\<leftarrow>players g. hand_value p)]"
    using assms by (simp add: end_game_scores Let_def)
  have "sum_list (map score (players (end_game (Some i) g))) = sum_list (map score (players g))"
    unfolding upd using assms by (subst sum_list_update_add) (simp_all add: sums)
  moreover have "winners (end_game fin g) \<noteq> []"
  proof -
    let ?ps = "players (end_game fin g)"
    have "?ps \<noteq> []" using ne length_end_game [of fin g] by (metis length_0_conv)
    then have "Max (score ` set ?ps) \<in> score ` set ?ps" by (intro Max_in) auto
    then obtain p where p: "p \<in> set ?ps" "score p = Max (score ` set ?ps)" by force
    then have "\<forall>q\<in>set ?ps. score q \<le> score p" by simp
    then have "p \<in> set (winners (end_game fin g))" using p(1) by (simp add: end_game_winners [OF ne])
    then show ?thesis by force
  qed
  moreover have "map score (players (end_game None g)) = map (\<lambda>p. score p - hand_value p) (players g)"
    by (simp add: end_game_scores Let_def)
  ultimately show ?thesis using upd assms end_game_winners [OF ne, of fin] by simp
qed

theorem end_game_accounting_witness:
  "sum_list (map score (players (end_game (Some 1) (demo_game False)))) = 0
   \<and> winners (end_game None (demo_game False)) \<noteq> []"
proof -
  have "1 < length (players (demo_game False))" "map score (players (demo_game False)) = [0, 0]"
    by (simp_all add: demo_game_def player_new_def)
  moreover from end_game_accounting [OF this(1)]
  have "sum_list (map score (players (end_game (Some 1) (demo_game False)))) = sum_list (map score (players (demo_game False)))"
    "winners (end_game None (demo_game False)) \<noteq> []" by blast+
  ultimately show ?thesis by simp
qed

text \<open>
  A finished game is frozen: placing, voting, withdrawing, exchanging, passing, resigning, the
  time-outs and the interventions are all refused and leave the game as it is.
\<close>

theorem finished_game_is_frozen:
  assumes "game_ok g" "finished g"
  shows "place_tiles e pid tiles g = (Fail GameOver, g) \<and> exchange_tiles e pid idxs g = (Fail GameOver, g)
    \<and> pass_turn e pid t g = (Fail GameOver, g) \<and> cast_vote e pid v g = (Fail NoPending, g)
    \<and> withdraw_pending pid g = (Fail NoPending, g) \<and> accept_pending e g = (Fail NoPending, g)
    \<and> (\<exists>err. resign pid g = (Fail err, g)) \<and> expire_turn e g = (False, g)
    \<and> force_resolve_pending e b g = (Fail NoPending, g) \<and> force_end g = (Done False, g)
    \<and> skip_disconnected_current e g = (False, g)"
proof -
  have "pending_challenge g = None" using assms by (auto simp: game_ok_def split: option.splits)
  then show ?thesis
    using assms(2)
    by (simp add: place_tiles_def placement_refused_def exchange_tiles_def exchange_refused_def pass_turn_def
        pass_refused_def cast_vote_def withdraw_pending_def accept_pending_def resign_def expire_turn_def
        force_resolve_pending_def force_end_def skip_disconnected_current_def)
qed

theorem finished_game_is_frozen_witness:
  "pass_turn plain_env [97] False (end_game None (demo_game False)) = (Fail GameOver, end_game None (demo_game False))"
  using finished_game_is_frozen [OF game_ok_end_game [OF game_okD [OF demo_game_ok]], of None False plain_env "[97]"] by simp

section \<open>Resigning\<close>

lemma max_score_Some:
  "max_score ps = Some m \<Longrightarrow> p \<in> set ps \<Longrightarrow> score p = m \<longleftrightarrow> (\<forall>q\<in>set ps. score q \<le> score p)"
proof
  assume "max_score ps = Some m" "p \<in> set ps" "score p = m"
  then have "score p = Max (score ` set ps)" by (simp add: max_score_def split: if_splits)
  then show "\<forall>q\<in>set ps. score q \<le> score p" by simp
next
  assume m: "max_score ps = Some m" and p: "p \<in> set ps" and "\<forall>q\<in>set ps. score q \<le> score p"
  then show "score p = m" by (auto simp: max_score_def split: if_splits intro!: Max_eqI [symmetric])
qed

lemma resign_Done:
  assumes "resign pid g = (Done msg, g')"
  shows "started g" "\<not> finished g"
    "\<exists>i g1 tx info. first_index pid g = Some i
      \<and> g1 = end_game None ((upd_player i (resigned_update (\<lambda>_. True)) g)\<lparr>pending_challenge := None\<rparr>)
      \<and> g' = set_last_action tx info (g1\<lparr>winners := (case max_score (filter (\<lambda>p. \<not> resigned p) (players g1)) of
             None \<Rightarrow> winners g1 | Some best \<Rightarrow> filter (\<lambda>p. \<not> resigned p \<and> score p = best) (players g1))\<rparr>)"
proof -
  show "started g" "\<not> finished g" using assms by (auto simp: resign_def split: if_splits)
  then obtain i where i: "first_index pid g = Some i" using assms by (auto simp: resign_def split: option.splits)
  have self: "g1\<lparr>winners := winners g1\<rparr> = g1" for g1 :: game by simp
  show "\<exists>i g1 tx info. first_index pid g = Some i
      \<and> g1 = end_game None ((upd_player i (resigned_update (\<lambda>_. True)) g)\<lparr>pending_challenge := None\<rparr>)
      \<and> g' = set_last_action tx info (g1\<lparr>winners := (case max_score (filter (\<lambda>p. \<not> resigned p) (players g1)) of
             None \<Rightarrow> winners g1 | Some best \<Rightarrow> filter (\<lambda>p. \<not> resigned p \<and> score p = best) (players g1))\<rparr>)"
    using assms i \<open>started g\<close> \<open>\<not> finished g\<close>
    by (cases "max_score (filter (\<lambda>p. \<not> resigned p) (players (end_game None
          ((upd_player i (resigned_update (\<lambda>_. True)) g)\<lparr>pending_challenge := None\<rparr>))))")
      (auto simp: resign_def Let_def self)
qed

lemma resigned_end_game [simp]: "map resigned (players (end_game None g)) = map resigned (players g)"
  by (simp add: end_game_def Let_def deduct_hand_def comp_def)

text \<open>
  Who resigns ends the game and cannot win: the winners are the best of the players who have
  not resigned, whenever there is one.
\<close>

theorem resign_excludes_from_winning:
  assumes "resign pid g = (Done msg, g')"
  shows "finished g' \<and> (\<exists>i. first_index pid g = Some i \<and> resigned (players g' ! i))
    \<and> ((\<exists>p\<in>set (players g'). \<not> resigned p) \<longrightarrow>
        winners g' = filter (\<lambda>p. \<not> resigned p \<and> (\<forall>q\<in>set (players g'). resigned q \<or> score q \<le> score p)) (players g')
        \<and> winners g' \<noteq> [])"
proof -
  obtain i g1 tx info where i: "first_index pid g = Some i"
    and g1: "g1 = end_game None ((upd_player i (resigned_update (\<lambda>_. True)) g)\<lparr>pending_challenge := None\<rparr>)"
    and g': "g' = set_last_action tx info (g1\<lparr>winners := (case max_score (filter (\<lambda>p. \<not> resigned p) (players g1)) of
             None \<Rightarrow> winners g1 | Some best \<Rightarrow> filter (\<lambda>p. \<not> resigned p \<and> score p = best) (players g1))\<rparr>)"
    using resign_Done(3) [OF assms] by blast
  have len: "i < length (players g)" using first_index_Some [OF i] by simp
  have "map resigned (players g1) ! i" unfolding g1 resigned_end_game using len by simp
  moreover have "i < length (players g1)" using len by (simp add: g1)
  ultimately have res: "resigned (players g' ! i)" by (simp add: g')
  have ps: "players g' = players g1" by (simp add: g')
  let ?qs = "filter (\<lambda>p. \<not> resigned p) (players g1)"
  have win: "winners g' = filter (\<lambda>p. \<not> resigned p \<and> (\<forall>q\<in>set (players g1). resigned q \<or> score q \<le> score p)) (players g1)
      \<and> winners g' \<noteq> []" if "\<exists>p\<in>set (players g1). \<not> resigned p"
  proof -
    have ne: "?qs \<noteq> []" using that by (auto simp: filter_empty_conv)
    then obtain best where best: "max_score ?qs = Some best" by (simp add: max_score_def)
    then have w: "winners g' = filter (\<lambda>p. \<not> resigned p \<and> score p = best) (players g1)" by (simp add: g')
    have "set ?qs \<noteq> {}" using ne by (simp only: set_empty simp_thms)
    then have "Max (score ` set ?qs) \<in> score ` set ?qs" by (intro Max_in) auto
    moreover have "best = Max (score ` set ?qs)" using best by (simp add: max_score_def split: if_splits)
    ultimately have "best \<in> score ` set ?qs" by simp
    then have "winners g' \<noteq> []" unfolding w by (auto simp: filter_empty_conv)
    moreover have "winners g' = filter (\<lambda>p. \<not> resigned p \<and> (\<forall>q\<in>set (players g1). resigned q \<or> score q \<le> score p)) (players g1)"
      unfolding w using max_score_Some [OF best] by (intro filter_cong) auto
    ultimately show ?thesis by blast
  qed
  have "finished g'" by (simp add: g' g1)
  then show ?thesis unfolding ps using win res [unfolded ps] i by blast
qed

theorem resign_excludes_from_winning_witness:
  "finished (snd (resign [97] (demo_game False))) \<and> resigned (players (snd (resign [97] (demo_game False))) ! 0)"
proof -
  have first: "first_index [97] (demo_game False) = Some 0"
    by (simp add: first_index_def demo_game_def player_new_def)
  moreover have "resign [97] (demo_game False)
      = (Done (hu ''A j~at~ek feladva.''), snd (resign [97] (demo_game False)))"
    using first by (simp add: resign_def Let_def) (simp add: demo_game_def game_new_def)
  ultimately show ?thesis using resign_excludes_from_winning by fastforce
qed

text \<open>
  Resigning while a placement waits for votes forgets its tiles: they are in no hand, bag or
  square afterwards, and the placer is spared their value. When an administrator ends the same
  game, the tiles go back to the hand first and are deducted.
\<close>

theorem resign_loses_pending_tiles:
  assumes ok: "game_ok g" and pend: "pending_challenge g = Some pc" and res: "resign pid g = (Done msg, g')"
  shows "tiles_in_play g' + mset (removed_from_hand pc) = tiles_in_play g
    \<and> removed_from_hand pc \<noteq> []
    \<and> score (players g' ! player_idx pc)
        = score (players (snd (force_end g)) ! player_idx pc)
          + sum_list (map (\<lambda>t. int (tile_value t)) (removed_from_hand pc))"
proof -
  note pd = game_ok_pendingD [OF ok pend]
  let ?k = "player_idx pc"
  obtain i g1 tx info ws where i: "first_index pid g = Some i"
    and g1: "g1 = end_game None ((upd_player i (resigned_update (\<lambda>_. True)) g)\<lparr>pending_challenge := None\<rparr>)"
    and g': "g' = set_last_action tx info (g1\<lparr>winners := ws\<rparr>)"
    using resign_Done(3) [OF res] by blast
  let ?g0 = "(upd_player i (resigned_update (\<lambda>_. True)) g)\<lparr>pending_challenge := None\<rparr>"
  have "tiles_in_play g' = tiles_in_play ?g0"
    using tiles_end_game [of None ?g0]
    by (simp add: g' g1 tiles_in_play_def pending_tiles_def hand_tiles_def)
  moreover have "tiles_in_play ?g0 + mset (removed_from_hand pc) = tiles_in_play g"
    using pend by (simp add: tiles_in_play_def pending_tiles_def)
  ultimately have tiles: "tiles_in_play g' + mset (removed_from_hand pc) = tiles_in_play g" by simp
  have ne: "removed_from_hand pc \<noteq> []"
    using pd(5,6) by (simp add: placeable_def legal_geometry_def)
  have same: "score (players ?g0 ! ?k) = score (players g ! ?k)" "hand (players ?g0 ! ?k) = hand (players g ! ?k)"
    using pd(4) by (cases "i = ?k"; simp)+
  have "map score (players g1) ! ?k = score (players ?g0 ! ?k) - hand_value (players ?g0 ! ?k)"
    unfolding g1 end_game_scores using pd(4) by (simp add: Let_def)
  then have s1: "score (players g' ! ?k) = score (players g ! ?k) - hand_value (players g ! ?k)"
    using same pd(4) by (simp add: g' g1 hand_value_def)
  have "map score (players (end_game None (return_tiles pc g))) ! ?k
      = score (players (return_tiles pc g) ! ?k) - hand_value (players (return_tiles pc g) ! ?k)"
    unfolding end_game_scores using pd(4) by (simp add: Let_def return_tiles_def)
  then have s2: "score (players (snd (force_end g)) ! ?k)
      = score (players g ! ?k) - hand_value (players g ! ?k) - sum_list (map (\<lambda>t. int (tile_value t)) (removed_from_hand pc))"
    using pd(1,2,4) pend game_ok_placer_exists [OF ok]
    by (simp add: force_end_def return_tiles_def hand_value_def)
  show ?thesis using tiles ne s1 s2 by simp
qed

theorem resign_loses_pending_tiles_witness:
  "\<exists>g g' lost. tiles_in_play g' + mset lost = tiles_in_play g \<and> lost \<noteq> [] \<and> g' = snd (resign [98] g)"
proof -
  let ?g = "snd (place_tiles plain_env [97] demo_tiles (demo_game True))"
  have ok: "game_ok ?g"
    using place_tiles_preserves [OF demo_game_ok, of demo_tiles plain_env "[97]" True]
    by (simp add: demo_tiles_def tile_ok_def)
  obtain pc where pc: "pending_challenge ?g = Some pc" using demo_pending by blast
  note pd = game_ok_pendingD [OF ok pc]
  have "first_index [98] ?g = Some 1"
  proof -
    have "validate_placement (check_fn plain_env) (board (demo_game True)) demo_tiles True
        = Some (Inr (placement_words board_new demo_tiles))"
      using validate_placement_accepts [OF demo_legal demo_no_split] by (simp add: demo_game_def game_new_def)
    then have "map player_id (players ?g) = [[97], [98]]"
      using demo_may_place [of True]
      by (simp add: may_place_refused place_tiles_def Let_def demo_seat case_prod_beta)
        (simp add: demo_game_def game_new_def player_new_def)
    then show ?thesis by (auto simp: first_index_def map_eq_Cons_conv)
  qed
  then have "\<exists>msg. resign [98] ?g = (Done msg, snd (resign [98] ?g))"
    using pd(1,2) by (simp add: resign_def Let_def)
  then show ?thesis using resign_loses_pending_tiles [OF ok pc] by blast
qed

section \<open>Starting\<close>

text \<open>
  Starting a waiting game with a full bag deals seven tiles to every player and keeps the rest in
  the bag; seats, names and scores stay.
\<close>

theorem start_deals_seven:
  assumes "game_ok g" "\<not> started g" "players g \<noteq> []" "length (bag g) = 100" "start_game e g = (r, g')"
  shows "is_done r \<and> started g' \<and> list_all (\<lambda>p. length (hand p) = 7) (players g')
    \<and> length (bag g') = 100 - 7 * length (players g)
    \<and> map (hand_update (\<lambda>_. [])) (players g') = map (hand_update (\<lambda>_. [])) (players g)
    \<and> tiles_in_play g' = tiles_in_play g"
proof -
  obtain ps b where d: "deal (players g) (bag g) = (ps, b)" by fastforce
  have base: "game_base g" using assms(1) by (rule game_okD)
  have l: "length (players g) \<le> 4" using base by (simp add: game_base_def)
  have "list_all (\<lambda>h. h = []) (map hand (players g))" "list_all tile_ok (bag g)"
    using base assms(2) by (auto simp: game_base_def)
  note f = deal_facts [OF d this]
  have "HAND_SIZE * length (players g) \<le> length (bag g)" using l assms(4) by (simp add: HAND_SIZE_def)
  then have "list_all (\<lambda>p. length (hand p) = 7) ps" using f by (simp add: list_all_iff HAND_SIZE_def)
  moreover have "r = Done (hu ''A j~at~ek elkezd&od^ott!'')" "g' = reset_deadline e (g\<lparr>started := True, players := ps, bag := b\<rparr>)"
    using assms(2,3,5) d by (simp_all add: start_game_def)
  moreover have "tiles_in_play g' = tiles_in_play g"
    using start_preserves [OF assms(1), of e] assms(5) by (simp add: keeps_def)
  ultimately show ?thesis using f assms(4) by (simp add: HAND_SIZE_def reset_deadline_def)
qed

theorem start_deals_seven_witness:
  "list_all (\<lambda>p. length (hand p) = 7)
     (players (snd (start_game plain_env (snd (add_player [97] [65] (game_new plain_env [49] False 0 3))))))"
proof -
  let ?g = "snd (add_player [97] [65] (game_new plain_env [49] False 0 3))"
  have "game_ok ?g" using keeps_add_player [OF game_new_ok(1) [OF plain_shuffler]] by (simp add: keeps_def)
  moreover have "\<not> started ?g" "players ?g \<noteq> []" "length (bag ?g) = 100"
    by (simp_all add: add_player_def game_new_def plain_env_def bag_new_def length_unshuffled_bag)
  ultimately show ?thesis using start_deals_seven [OF _ _ _ _ prod.collapse [symmetric]] by blast
qed

section \<open>Passing\<close>

lemma pass_turn_step:
  assumes "pass_refused pid g = None"
  shows "\<exists>f n act ts ws sc r tx info. (\<forall>p. hand (f p) = hand p \<and> score (f p) = score p \<and> player_id (f p) = player_id p)
     \<and> (\<forall>p. timeouts (f p) = (if t then timeouts p + 1 else 0))
     \<and> pass_turn e pid t g = (Done (ascii ''Passz.''), scoreless_step e (\<lambda>_. True)
        (record_move n act ts ws sc r (set_last_action tx info (upd_player (current_player_idx g) f g))))"
proof (cases t)
  case True
  then show ?thesis
    using assms
    by (intro exI [of _ "timeouts_update (\<lambda>n. n + 1)"] exI conjI)
      (simp, simp, simp only: pass_turn_def Let_def scoreless_step_eq option.case if_True)
next
  case False
  then show ?thesis
    using assms
    by (intro exI [of _ "timeouts_update (\<lambda>_. 0)"] exI conjI)
      (simp, simp, simp only: pass_turn_def Let_def scoreless_step_eq option.case if_False)
qed

lemma scoreless_step_more:
  "started (scoreless_step e c g) = started g" "puzzle (scoreless_step e c g) = puzzle g"
  "async_mode (scoreless_step e c g) = async_mode g"
  by (simp_all add: scoreless_step_def register_scoreless_turn_def Let_def)

lemma end_game_map:
  assumes "\<And>p h. f (score_update h p) = f p"
  shows "map f (players (end_game fin g)) = map f (players g)"
proof (rule nth_equalityI)
  show "length (map f (players (end_game fin g))) = length (map f (players g))" by simp
next
  fix i assume "i < length (map f (players (end_game fin g)))"
  then have "i < length (players g)" by simp
  then show "map f (players (end_game fin g)) ! i = map f (players g) ! i"
    using assms by (cases fin; cases "fin = Some i") (auto simp: end_game_def Let_def deduct_hand_def)
qed

lemma end_game_projections [simp]:
  "map player_id (players (end_game fin g)) = map player_id (players g)"
  "map timeouts (players (end_game fin g)) = map timeouts (players g)"
  by (rule end_game_map; simp)+

lemma pass_turn_facts:
  fixes e :: env and t :: bool
  assumes ok: "game_ok g" and none: "pass_refused pid g = None"
  defines "g' \<equiv> snd (pass_turn e pid t g)"
  shows "fst (pass_turn e pid t g) = Done (ascii ''Passz.'') \<and> board g' = board g \<and> bag g' = bag g
      \<and> map hand (players g') = map hand (players g)
      \<and> scoreless_turns g' = scoreless_turns g + 1
      \<and> (finished g' \<longleftrightarrow> scoreless_turns g + 1 = SCORELESS_TURNS_LIMIT)
      \<and> (finished g' \<or> map score (players g') = map score (players g))
      \<and> map timeouts (players g') = (map timeouts (players g))
          [current_player_idx g := if t then timeouts (players g ! current_player_idx g) + 1 else 0]
      \<and> started g' = started g \<and> puzzle g' = puzzle g
      \<and> map player_id (players g') = map player_id (players g)"
proof -
  note ps = none [unfolded pass_refused_None]
  obtain f n act ts ws sc r0 tx info where f: "\<forall>p. hand (f p) = hand p \<and> score (f p) = score p \<and> player_id (f p) = player_id p"
    and tf: "\<forall>p. timeouts (f p) = (if t then timeouts p + 1 else 0)"
    and eq: "pass_turn e pid t g = (Done (ascii ''Passz.''), scoreless_step e (\<lambda>_. True)
        (record_move n act ts ws sc r0 (set_last_action tx info (upd_player (current_player_idx g) f g))))"
    using pass_turn_step [OF none, of t e] by blast
  let ?g3 = "record_move n act ts ws sc r0 (set_last_action tx info (upd_player (current_player_idx g) f g))"
  have g': "g' = scoreless_step e (\<lambda>_. True) ?g3" using eq by (simp add: g'_def)
  have lim: "SCORELESS_TURNS_LIMIT \<le> scoreless_turns g + 1 \<longleftrightarrow> scoreless_turns g + 1 = SCORELESS_TURNS_LIMIT"
    using ok ps by (auto simp: game_ok_def)
  have hands: "map hand (players g') = map hand (players g)"
    unfolding g' using f by (simp add: scoreless_step_facts map_update_same)
  have tos: "map timeouts (players g') = (map timeouts (players g))
      [current_player_idx g := if t then timeouts (players g ! current_player_idx g) + 1 else 0]"
    unfolding g' using tf by (simp add: scoreless_step_def register_scoreless_turn_def Let_def map_update)
  have ids: "map player_id (players g') = map player_id (players g)"
    unfolding g' using f by (simp add: scoreless_step_def register_scoreless_turn_def Let_def map_update_same)
  have "board g' = board g" "bag g' = bag g" "scoreless_turns g' = scoreless_turns g + 1"
    "finished g' \<longleftrightarrow> scoreless_turns g + 1 = SCORELESS_TURNS_LIMIT" "started g' = started g" "puzzle g' = puzzle g"
    unfolding g' using ps lim by (simp_all add: scoreless_step_facts scoreless_step_more)
  moreover have "finished g' \<or> map score (players g') = map score (players g)"
    unfolding g' using f ps lim by (cases "scoreless_turns g + 1 < SCORELESS_TURNS_LIMIT") (auto simp: scoreless_step_facts map_update_same)
  ultimately show ?thesis using eq hands tos ids by simp
qed

text \<open>
  Passing is granted to the player to move whenever the game has no pending placement, is no daily
  puzzle and is not finished; it changes no tile, board or bag, and the sixth scoreless turn in a
  row ends the game.
\<close>

theorem pass_effect:
  assumes ok: "game_ok g" and pass: "pass_turn e pid t g = (r, g')"
  shows "if pass_refused pid g = None
    then r = Done (ascii ''Passz.'') \<and> board g' = board g \<and> bag g' = bag g
      \<and> map hand (players g') = map hand (players g)
      \<and> scoreless_turns g' = scoreless_turns g + 1
      \<and> (finished g' \<longleftrightarrow> scoreless_turns g + 1 = SCORELESS_TURNS_LIMIT)
      \<and> (finished g' \<or> map score (players g') = map score (players g))
      \<and> map timeouts (players g') = (map timeouts (players g))
          [current_player_idx g := if t then timeouts (players g ! current_player_idx g) + 1 else 0]
    else g' = g \<and> (\<exists>err. r = Fail err)"
proof (cases "pass_refused pid g")
  case None
  show ?thesis
    unfolding if_P [OF None] using pass_turn_facts [OF ok None, of e t, unfolded pass fst_conv snd_conv] by blast
next
  case (Some err)
  then show ?thesis using pass by (auto simp: pass_turn_def)
qed

theorem pass_effect_witness:
  "scoreless_turns (snd (pass_turn plain_env [97] False (demo_game False))) = 1"
proof -
  have "pass_refused [97] (demo_game False) = None" "scoreless_turns (demo_game False) = 0"
    by (simp_all add: pass_refused_None demo_game_def game_new_def player_new_def)
  moreover note pass_effect [OF demo_game_ok prod.collapse [symmetric, of "pass_turn plain_env [97] False (demo_game False)"]]
  ultimately show ?thesis by simp
qed

text \<open>Passing in a room whose game has not been started.\<close>

lemma waiting_passes:
  assumes sh: "shuffler (shuffle_fn e)" and k: "k \<le> 6"
  shows "\<exists>g. game_run (game_new e gid False 0 3) (Join pid nm # replicate k (Pass pid False)) g
    \<and> \<not> started g \<and> puzzle g = None \<and> scoreless_turns g = k \<and> (finished g \<longleftrightarrow> k = 6)
    \<and> map player_id (players g) = [pid]"
  using k
proof (induction k)
  case 0
  let ?g = "game_new e gid False 0 3\<lparr>players := [player_new pid nm]\<rparr>"
  have "game_step (game_new e gid False 0 3) (Join pid nm) ?g"
    by (rule game_step.join) (simp add: add_player_def game_new_def)
  from game_run_snoc [OF game_run_nil this] have "game_run (game_new e gid False 0 3) [Join pid nm] ?g" by simp
  moreover have "\<not> started ?g" "puzzle ?g = None" "scoreless_turns ?g = 0" "\<not> finished ?g" "map player_id (players ?g) = [pid]"
    by (simp_all add: game_new_def player_new_def)
  ultimately show ?case by (intro exI [of _ ?g]) simp
next
  case (Suc k)
  then obtain g where run: "game_run (game_new e gid False 0 3) (Join pid nm # replicate k (Pass pid False)) g"
    and g: "\<not> started g" "puzzle g = None" "scoreless_turns g = k" "finished g \<longleftrightarrow> k = 6" "map player_id (players g) = [pid]"
    by force
  have ok: "game_ok g" using game_run_preserves [OF run] game_new_ok(1) [OF sh] by blast
  have len: "length (players g) = 1" using arg_cong [OF g(5), of length] by simp
  then have cur: "current_player_idx g = 0" using ok by (auto simp: game_ok_def game_base_def seat_ok_def)
  have pend: "pending_challenge g = None" using ok g(1) by (auto simp: game_ok_def split: option.splits)
  have "player_id (players g ! 0) = pid" using g(5) len by (metis length_greater_0_conv list.map_disc_iff list.size(3) nth_Cons_0 nth_map zero_neq_one)
  then have none: "pass_refused pid g = None"
    using g(2,4) Suc.prems pend cur len by (simp add: pass_refused_None)
  let ?g' = "snd (pass_turn e pid False g)"
  have pf: "fst (pass_turn e pid False g) = Done (ascii ''Passz.'')" "scoreless_turns ?g' = Suc k"
    "finished ?g' \<longleftrightarrow> Suc k = 6" "\<not> started ?g'" "puzzle ?g' = None" "map player_id (players ?g') = [pid]"
    using pass_turn_facts [OF ok none, of e False] g by (simp_all add: SCORELESS_TURNS_LIMIT_def)
  have "game_step g (Pass pid False) ?g'"
    using pf(1) by (intro game_step.pass [of e pid False g "ascii ''Passz.''"]) (simp add: prod_eq_iff)
  from game_run_snoc [OF run this] have "game_run (game_new e gid False 0 3) (Join pid nm # replicate (Suc k) (Pass pid False)) ?g'"
    by (simp add: replicate_append_same)
  then show ?case using pf(2-6) by (intro exI [of _ ?g'] conjI)
qed

text \<open>
  Passing does not ask whether the game was started: in a waiting room six passes finish the game,
  after which it can still be started, and the tiles are dealt into a finished game.
\<close>

theorem waiting_game_can_be_finished:
  assumes "shuffler (shuffle_fn e)"
  shows "\<exists>g. game_run (game_new e gid False 0 3) (Join pid nm # replicate 6 (Pass pid False)) g
    \<and> \<not> started g \<and> finished g \<and> is_done (fst (start_game e g))
    \<and> finished (snd (start_game e g)) \<and> started (snd (start_game e g))"
proof -
  obtain g where g: "game_run (game_new e gid False 0 3) (Join pid nm # replicate 6 (Pass pid False)) g"
    "\<not> started g" "finished g" "map player_id (players g) = [pid]"
    using waiting_passes [OF assms, of 6 gid pid nm] by auto
  then have "players g \<noteq> []" by auto
  then have "is_done (fst (start_game e g)) \<and> finished (snd (start_game e g)) \<and> started (snd (start_game e g))"
    using g(2,3) by (simp add: start_game_def split: prod.split)
  then show ?thesis using g by blast
qed

theorem waiting_game_can_be_finished_witness:
  "\<exists>g. finished g \<and> \<not> started g \<and> is_done (fst (start_game plain_env g))"
  using waiting_game_can_be_finished [OF plain_shuffler] by blast

section \<open>Correspondence games\<close>

lemma find_player_nth:
  assumes "i < length (players g)" "distinct (map player_id (players g))"
  shows "find_player (player_id (players g ! i)) g = Some (players g ! i)"
  unfolding find_player_def find_Some_iff
  using assms by (intro exI [of _ i]) (auto simp: distinct_conv_nth)

text \<open>
  When the deadline of a correspondence turn has passed, the player to move passes; the game goes
  on unless this was the sixth scoreless turn, or the player's third missed deadline in a row, by
  which the player resigns.
\<close>

theorem expired_turn_passes_or_resigns:
  assumes ok: "game_ok g" and run: "async_mode g" "started g" "\<not> finished g" "pending_challenge g = None" "puzzle g = None"
    and cur: "current_player g = Some p" and ids: "distinct (map player_id (players g))"
    and ex: "expire_turn e g = (b, g')"
  shows "b \<and> map hand (players g') = map hand (players g) \<and> scoreless_turns g' = scoreless_turns g + 1
    \<and> (finished g' \<longleftrightarrow> scoreless_turns g + 1 = SCORELESS_TURNS_LIMIT \<or> MAX_TIMEOUTS \<le> timeouts p + 1)"
proof -
  let ?i = "current_player_idx g"
  have i: "?i < length (players g)" and p: "p = players g ! ?i" using cur by (auto simp: current_player_Some)
  have none: "pass_refused (player_id p) g = None" using run i p by (simp add: pass_refused_None)
  define g1 where "g1 = snd (pass_turn e (player_id p) True g)"
  note pf = pass_turn_facts [OF ok none, of e True, folded g1_def]
  have pt: "pass_turn e (player_id p) True g = (Done (ascii ''Passz.''), g1)"
    using pf by (simp add: prod_eq_iff g1_def)
  have len: "length (players g1) = length (players g)" using pf by (metis length_map)
  have ids1: "distinct (map player_id (players g1))" using ids pf by simp
  have "player_id (players g1 ! ?i) = player_id p" using pf i len p by (metis nth_map)
  then have found: "find_player (player_id p) g1 = Some (players g1 ! ?i)"
    using find_player_nth [of ?i g1] i len ids1 by simp
  have "map timeouts (players g1) ! ?i = timeouts p + 1" using pf i p by simp
  then have tos: "timeouts (players g1 ! ?i) = timeouts p + 1" using i len by simp
  have idx: "first_index (player_id p) g1 \<noteq> None"
    using found by (auto simp: first_index_def position_None_iff find_player_def find_Some_iff)
  have st: "started g1" using pf run by simp
  show ?thesis
  proof (cases "finished g1 \<or> \<not> MAX_TIMEOUTS \<le> timeouts p + 1")
    case True
    then have "expire_turn e g = (True, g1)"
      using run cur pt found tos by (auto simp: expire_turn_def Let_def)
    moreover have "finished g1 \<longleftrightarrow> scoreless_turns g + 1 = SCORELESS_TURNS_LIMIT" using pf by blast
    ultimately show ?thesis using ex True pf by auto
  next
    case False
    then have eq: "expire_turn e g = (True, snd (resign (player_id p) g1))"
      using run cur pt found tos by (auto simp: expire_turn_def Let_def)
    obtain msg g2 where rs: "resign (player_id p) g1 = (Done msg, g2)"
      using st False idx by (auto simp: resign_def Let_def split: option.splits)
    obtain i0 g3 tx info ws where g2: "g2 = set_last_action tx info (g3\<lparr>winners := ws\<rparr>)"
      and g3: "g3 = end_game None ((upd_player i0 (resigned_update (\<lambda>_. True)) g1)\<lparr>pending_challenge := None\<rparr>)"
      using resign_Done(3) [OF rs] by blast
    have "finished g2" "map hand (players g2) = map hand (players g1)" "scoreless_turns g2 = scoreless_turns g1"
      by (simp_all add: g2 g3 map_update_same)
    then show ?thesis using ex eq rs pf False by simp
  qed
qed

theorem expired_turn_passes_or_resigns_witness:
  "finished (snd (expire_turn plain_env (demo_game False\<lparr>async_mode := True,
      players := [(player_new [97] [65])\<lparr>timeouts := 2\<rparr>, player_new [98] [66]]\<rparr>)))"
proof -
  let ?g = "demo_game False\<lparr>async_mode := True,
      players := [(player_new [97] [65])\<lparr>timeouts := 2\<rparr>, player_new [98] [66]]\<rparr>"
  have "game_ok ?g"
    by (simp add: demo_game_def game_new_def game_ok_def game_base_def seat_ok_def board_ok_new rack_ok_def
        tile_ok_def HAND_SIZE_def SCORELESS_TURNS_LIMIT_def player_new_def)
  moreover have "async_mode ?g" "started ?g" "\<not> finished ?g" "pending_challenge ?g = None" "puzzle ?g = None"
    "distinct (map player_id (players ?g))" "current_player ?g = Some ((player_new [97] [65])\<lparr>timeouts := 2\<rparr>)"
    by (simp_all add: demo_game_def game_new_def player_new_def current_player_def)
  ultimately show ?thesis
    using expired_turn_passes_or_resigns [OF _ _ _ _ _ _ _ _ prod.collapse [symmetric], of ?g _ plain_env]
    by (simp add: MAX_TIMEOUTS_def)
qed

section \<open>Seats\<close>

lemma fresh_bot_seq_free: "\<forall>p\<in>set ps. player_id p \<noteq> bot_id gid (fresh_bot_seq gid ps n)"
  by (induction gid ps n rule: fresh_bot_seq.induct) (subst fresh_bot_seq.simps, auto)

text \<open>
  No two seats get the same identifier: joining refuses a taken one, and a bot gets the next
  identifier that is free, so that every seat is found by its own.
\<close>

theorem seats_stay_distinct:
  assumes "distinct (map player_id (players g))"
  shows "distinct (map player_id (players (snd (add_player pid nm g))))
    \<and> distinct (map player_id (players (snd (add_bot bnm d g))))
    \<and> (is_done (fst (add_bot bnm d g)) \<longleftrightarrow> length (players g) < 4 \<and> \<not> started g)
    \<and> (is_done (fst (add_player pid nm g)) \<longleftrightarrow>
         pid \<notin> set (map player_id (players g)) \<and> length (players g) < 4 \<and> \<not> started g)"
  using assms fresh_bot_seq_free [of "players g" "game_id g" "bot_seq g + 1"]
  by (auto simp: add_player_def add_bot_def player_new_def player_new_bot_def Let_def)

theorem seats_stay_distinct_witness:
  "distinct (map player_id (players (snd (add_bot [82] JNull
     (game_new plain_env [49] False 0 3\<lparr>players := [player_new (bot_id [49] 1) [65]]\<rparr>)))))"
  using seats_stay_distinct [of "game_new plain_env [49] False 0 3\<lparr>players := [player_new (bot_id [49] 1) [65]]\<rparr>"]
  by (simp add: game_new_def)

end
