(* ===== verification/GameSave.thy ===== *)
theory GameSave
  imports GameProps
begin

text \<open>
  The saved form of a game (\<^verbatim>\<open>to_save_dict\<close>, \<^verbatim>\<open>from_save_dict\<close>) and the views sent to the
  clients (\<^verbatim>\<open>history\<close>, \<^verbatim>\<open>get_state\<close>, \<^verbatim>\<open>get_spectator_state\<close>) of \<^verbatim>\<open>src/src/engine/game.rs\<close>.
\<close>

section \<open>Saving\<close>

fun opt_json :: "('a \<Rightarrow> json) \<Rightarrow> 'a option \<Rightarrow> json" where
  "opt_json f None = JNull"
| "opt_json f (Some x) = f x"

definition save_player :: "player \<Rightarrow> tile list \<Rightarrow> json" where
  "save_player p h =
     JObj [(ascii ''id'', JStr (player_id p)), (ascii ''name'', JStr (player_name p)),
           (ascii ''hand'', tiles_to_json h), (ascii ''score'', JInt (score p)),
           (ascii ''skip_next_turn'', JBool (skip_next_turn p)),
           (ascii ''disconnected'', JBool (disconnected p)), (ascii ''timeouts'', JInt (int (timeouts p))),
           (ascii ''resigned'', JBool (resigned p)), (ascii ''is_bot'', JBool (is_bot p)),
           (ascii ''difficulty'', difficulty_json p)]"

text \<open>A pending placement is not saved: its tiles are written into the placer's hand.\<close>

definition save_hand :: "game \<Rightarrow> nat \<Rightarrow> player \<Rightarrow> tile list" where
  "save_hand g i p =
     (case pending_challenge g of
        Some pc \<Rightarrow> if i = player_idx pc then hand p @ removed_from_hand pc else hand p
      | None \<Rightarrow> hand p)"

definition save_last_action :: "game \<Rightarrow> str option \<times> json option" where
  "save_last_action g =
     (case pending_challenge g of
        Some pc \<Rightarrow>
          let placer = players g ! player_idx pc
          in (Some (player_name placer @ hu '' lerak~asa a ment~es miatt visszavonva.''),
              Some (JObj [(ascii ''type'', JStr (ascii ''save_revert'')),
                          (ascii ''player'', JStr (player_name placer))]))
      | None \<Rightarrow> (last_action g, last_action_info g))"

definition to_save_dict :: "game \<Rightarrow> json option" where
  "to_save_dict g =
     (if \<not> placer_exists g then None
      else Some (JObj
        [(ascii ''id'', JStr (game_id g)),
         (ascii ''challenge_mode'', JBool (challenge_mode g)),
         (ascii ''turn_time_limit'', JInt (turn_time_limit g)),
         (ascii ''hint_limit'', JInt (hint_limit g)),
         (ascii ''hints_used'', JInt (hints_used g)),
         (ascii ''started'', JBool (started g)),
         (ascii ''finished'', JBool (finished g)),
         (ascii ''current_player_idx'', JInt (int (current_player_idx g))),
         (ascii ''turn_number'', JInt (turn_number g)),
         (ascii ''scoreless_turns'', JInt (int (scoreless_turns g))),
         (ascii ''async_mode'', JBool (async_mode g)),
         (ascii ''turn_hours'', JInt (turn_hours g)),
         (ascii ''turn_deadline'', opt_json JFloat (turn_deadline g)),
         (ascii ''last_action'', opt_json JStr (fst (save_last_action g))),
         (ascii ''last_action_info'', opt_json (\<lambda>v. v) (snd (save_last_action g))),
         (ascii ''board'', board_to_json (board g)),
         (ascii ''board_is_empty'', JBool (board_is_empty (board g))),
         (ascii ''bag_tiles'', tiles_to_json (bag g)),
         (ascii ''players'', JArr (map (\<lambda>(i, p). save_player p (save_hand g i p)) (List.enumerate 0 (players g)))),
         (ascii ''winner_names'', JArr (map (\<lambda>p. JStr (player_name p)) (winners g)))]))"

section \<open>Restoring\<close>

definition get_int :: "json \<Rightarrow> str \<Rightarrow> int \<Rightarrow> int" where
  "get_int data k dflt = (case jget data k \<bind> py_int of Some n \<Rightarrow> n | None \<Rightarrow> dflt)"

definition get_bool :: "json \<Rightarrow> str \<Rightarrow> bool \<Rightarrow> bool" where
  "get_bool data k dflt = (case jget data k of Some v \<Rightarrow> truthy v | None \<Rightarrow> dflt)"

definition load_player :: "json \<Rightarrow> game_error + player" where
  "load_player pd =
     (case jget pd (ascii ''id'') \<bind> as_str of
        None \<Rightarrow> Inl MissingPlayerId
      | Some pid \<Rightarrow>
          (case jget pd (ascii ''name'') \<bind> as_str of
             None \<Rightarrow> Inl MissingPlayerName
           | Some nm \<Rightarrow>
               let p = (if get_bool pd (ascii ''is_bot'') False
                        then player_new_bot pid nm (field pd (ascii ''difficulty''))
                        else player_new pid nm)
               in Inr (p\<lparr>hand := tiles_from_json (field pd (ascii ''hand'')),
                         score := as_i32 (get_int pd (ascii ''score'') 0),
                         skip_next_turn := get_bool pd (ascii ''skip_next_turn'') False,
                         timeouts := nat (as_u32 (max (get_int pd (ascii ''timeouts'') 0) 0)),
                         resigned := get_bool pd (ascii ''resigned'') False,
                         disconnected := (if is_bot p then False else get_bool pd (ascii ''disconnected'') False)\<rparr>)))"

fun load_players :: "json list \<Rightarrow> game_error + player list" where
  "load_players [] = Inr []"
| "load_players (pd # pds) =
     (case load_player pd of
        Inl err \<Rightarrow> Inl err
      | Inr p \<Rightarrow> (case load_players pds of Inl err \<Rightarrow> Inl err | Inr ps \<Rightarrow> Inr (p # ps)))"

definition load_winner_names :: "json \<Rightarrow> str list" where
  "load_winner_names data =
     (case jget data (ascii ''winner_names'') of
        Some (JArr names) \<Rightarrow> List.map_filter as_str names
      | _ \<Rightarrow>
          (case jget data (ascii ''winner_name'') \<bind> as_str of
             Some nm \<Rightarrow> if nm = [] then [] else [nm]
           | None \<Rightarrow> []))"

definition from_save_dict :: "env \<Rightarrow> json \<Rightarrow> game_error + game" where
  "from_save_dict e data =
     (case jget data (ascii ''id'') \<bind> as_str of
        None \<Rightarrow> Inl MissingGameId
      | Some gid \<Rightarrow>
          let g0 = game_new e gid (get_bool data (ascii ''challenge_mode'') False)
                     (get_int data (ascii ''turn_time_limit'') 0) (get_int data (ascii ''hint_limit'') DEFAULT_HINT_LIMIT);
              players_data = (case jget data (ascii ''players'') \<bind> as_array of Some a \<Rightarrow> a | None \<Rightarrow> []);
              legacy_passes = (if players_data = [] then 0
                               else Max (set (map (\<lambda>pd. get_int pd (ascii ''consecutive_passes'') 0) players_data)));
              b = (case jget data (ascii ''board'') of Some v \<Rightarrow> board_from_json v | None \<Rightarrow> board_new)
          in case load_players players_data of
               Inl err \<Rightarrow> Inl err
             | Inr ps \<Rightarrow> Inr (g0
                 \<lparr>hints_used := max (get_int data (ascii ''hints_used'') 0) 0,
                  started := get_bool data (ascii ''started'') False,
                  finished := get_bool data (ascii ''finished'') False,
                  current_player_idx := nat (max (get_int data (ascii ''current_player_idx'') 0) 0),
                  turn_number := get_int data (ascii ''turn_number'') 0,
                  scoreless_turns := nat (as_u32 (max (get_int data (ascii ''scoreless_turns'') legacy_passes) 0)),
                  async_mode := get_bool data (ascii ''async_mode'') False,
                  turn_hours := get_int data (ascii ''turn_hours'') 0,
                  turn_deadline := jget data (ascii ''turn_deadline'') \<bind> as_f64,
                  last_action := jget data (ascii ''last_action'') \<bind> as_str,
                  last_action_info := (case jget data (ascii ''last_action_info'') of
                      Some v \<Rightarrow> if is_null v then None else Some v | None \<Rightarrow> None),
                  board := b\<lparr>board_is_empty := get_bool data (ascii ''board_is_empty'') True\<rparr>,
                  bag := tiles_from_json (field data (ascii ''bag_tiles'')),
                  players := ps,
                  winners := filter (\<lambda>p. player_name p \<in> set (load_winner_names data)) ps\<rparr>))"

section \<open>The round trip\<close>

text \<open>What the code keeps to, so that the saved numbers are read back unchanged.\<close>

definition player_savable :: "player \<Rightarrow> bool" where
  "player_savable p \<longleftrightarrow>
     fits_i32 (score p) \<and> timeouts p < 2 ^ 31
     \<and> (if is_bot p then (\<exists>d. difficulty p = Some d \<and> difficulty_ok d) \<and> \<not> disconnected p
        else difficulty p = None)"

definition game_savable :: "game \<Rightarrow> bool" where
  "game_savable g \<longleftrightarrow>
     list_all player_savable (players g) \<and> hint_limit g \<in> set ALLOWED_HINT_LIMITS
     \<and> 0 \<le> hints_used g \<and> fits_i64 (hints_used g) \<and> fits_i64 (turn_time_limit g)
     \<and> fits_i64 (turn_number g) \<and> fits_i64 (turn_hours g) \<and> scoreless_turns g < 2 ^ 31
     \<and> last_action_info g \<noteq> Some JNull"

lemma fits_i64_nat: "n < 2 ^ 31 \<Longrightarrow> fits_i64 (int n)"
  by (simp add: fits_i64_def i64_min_def i64_max_def)

lemma as_u32_nat: "n < 2 ^ 31 \<Longrightarrow> nat (as_u32 (int n)) = n"
  by (simp add: as_u32_id)

lemma fits_i32_i64: "fits_i32 n \<Longrightarrow> fits_i64 n"
  by (simp add: fits_i32_def fits_i64_def i64_min_def i64_max_def)

lemmas json_lookup = get_int_def get_bool_def field_def

lemma load_save_player:
  assumes "player_savable p" "list_all tile_ok h"
  shows "load_player (save_player p h) = Inr (p\<lparr>hand := h\<rparr>)"
proof (cases "is_bot p")
  case True
  with assms obtain d where d: "difficulty p = Some d" "difficulty_ok d" by (auto simp: player_savable_def)
  show ?thesis
    using assms True d
    by (cases p) (simp add: load_player_def save_player_def json_lookup player_savable_def fits_i32_i64 as_i32_id
        fits_i64_nat as_u32_nat tiles_json_roundtrip player_new_bot_def player_new_def difficulty_json_def
        difficulty_json_roundtrip)
next
  case False
  with assms show ?thesis
    by (cases p) (simp add: load_player_def save_player_def json_lookup player_savable_def fits_i32_i64 as_i32_id
        fits_i64_nat as_u32_nat tiles_json_roundtrip player_new_def)
qed

lemma load_players_map:
  "\<forall>x\<in>set xs. load_player (f x) = Inr (h x) \<Longrightarrow> load_players (map f xs) = Inr (map h xs)"
  by (induction xs) auto

text \<open>
  The state that is saved: a pending placement is taken back, its placer named in the last action;
  the daily puzzle, the move log, the rejected placements and the bot counter are not saved, and
  the winners are found again by name.
\<close>

definition saved_view :: "game \<Rightarrow> game" where
  "saved_view g =
     (let g' = (case pending_challenge g of None \<Rightarrow> g | Some pc \<Rightarrow> return_tiles pc g)
      in g'\<lparr>last_action := fst (save_last_action g), last_action_info := snd (save_last_action g),
            puzzle := None, move_log := [], rejected_placements := {}, bot_seq := 0,
            winners := filter (\<lambda>p. player_name p \<in> player_name ` set (winners g)) (players g')\<rparr>)"

lemma save_last_action_not_null: "last_action_info g \<noteq> Some JNull \<Longrightarrow> snd (save_last_action g) \<noteq> Some JNull"
  by (simp add: save_last_action_def Let_def split: option.split)

lemma opt_json_str [simp]: "as_str (opt_json JStr x) = x"
  by (cases x) simp_all

lemma opt_json_float [simp]: "as_f64 (opt_json JFloat x) = x"
  by (cases x) simp_all

lemma opt_json_id: "x \<noteq> Some JNull \<Longrightarrow> (if is_null (opt_json (\<lambda>v. v) x) then None else Some (opt_json (\<lambda>v. v) x)) = x"
  by (cases x) (auto elim: is_null.elims)

lemma saved_players:
  assumes ok: "game_ok g" and sv: "game_savable g"
  shows "load_players (map (\<lambda>(i, p). save_player p (save_hand g i p)) (List.enumerate 0 (players g)))
    = Inr (players (saved_view g))"
proof -
  let ?h = "\<lambda>(i, p). p\<lparr>hand := save_hand g i p\<rparr>"
  have rok: "list_all tile_ok (save_hand g i (players g ! i))" if "i < length (players g)" for i
  proof -
    have "list_all tile_ok (hand (players g ! i))"
      using ok that by (simp add: game_ok_def game_base_def list_all_length rack_ok_def)
    moreover have "list_all tile_ok (removed_from_hand pc)" if "pending_challenge g = Some pc" for pc
      using game_ok_pendingD(5,6) [OF ok that] tile_ok_hand_tile by (auto simp: placeable_def list_all_iff)
    ultimately show ?thesis by (auto simp: save_hand_def split: option.split)
  qed
  have "\<forall>x\<in>set (List.enumerate 0 (players g)).
      load_player (case x of (i, p) \<Rightarrow> save_player p (save_hand g i p)) = Inr (?h x)"
    using sv rok by (auto simp: in_set_enumerate_eq game_savable_def list_all_iff intro!: load_save_player)
  then have "load_players (map (\<lambda>(i, p). save_player p (save_hand g i p)) (List.enumerate 0 (players g)))
      = Inr (map ?h (List.enumerate 0 (players g)))" by (rule load_players_map)
  moreover have "map ?h (List.enumerate 0 (players g)) = players (saved_view g)"
  proof (rule nth_equalityI)
    show "length (map ?h (List.enumerate 0 (players g))) = length (players (saved_view g))"
      by (simp add: saved_view_def Let_def return_tiles_def split: option.split)
    fix i assume "i < length (map ?h (List.enumerate 0 (players g)))"
    then have i: "i < length (players g)" by simp
    show "map ?h (List.enumerate 0 (players g)) ! i = players (saved_view g) ! i"
      using i by (cases "pending_challenge g")
        (auto simp: saved_view_def Let_def return_tiles_def save_hand_def nth_enumerate_eq nth_list_update)
  qed
  ultimately show ?thesis by simp
qed

text \<open>
  C9. Saving a game and restoring it gives back the same game, with a pending placement taken back:
  the same board, bag, hands, scores, seat to move, counters, settings and winners.
\<close>

theorem save_restore_roundtrip:
  assumes ok: "game_ok g" and sv: "game_savable g"
    and idx: "int (current_player_idx g) \<le> i64_max"
  shows "\<exists>v. to_save_dict g = Some v \<and> from_save_dict e v = Inr (saved_view g)"
proof -
  have pl: "placer_exists g" using ok by (rule game_ok_placer_exists)
  have board: "board_from_json (board_to_json (board g)) = board g"
    using ok by (intro board_codec.dec_enc) (simp add: game_ok_def game_base_def)
  have bag: "tiles_from_json (tiles_to_json (bag g)) = bag g"
    using ok by (intro tiles_codec.dec_enc) (simp add: game_ok_def game_base_def)
  have names: "List.map_filter as_str (map (\<lambda>p. JStr (player_name p)) ws) = map player_name ws" for ws
    by (induction ws) (simp_all add: map_filter_def)
  have cur: "fits_i64 (int (current_player_idx g))" using idx by (simp add: fits_i64_def i64_min_def)
  have sc: "fits_i64 (int (scoreless_turns g))" "nat (as_u32 (int (scoreless_turns g))) = scoreless_turns g"
    using sv by (simp_all add: game_savable_def fits_i64_nat as_u32_nat)
  have hint: "fits_i64 (hint_limit g)"
    using sv by (auto simp: game_savable_def ALLOWED_HINT_LIMITS_def fits_i64_def i64_min_def i64_max_def)
  have info: "(if is_null (opt_json (\<lambda>v. v) (snd (save_last_action g))) then None
      else Some (opt_json (\<lambda>v. v) (snd (save_last_action g)))) = snd (save_last_action g)"
    using sv by (intro opt_json_id save_last_action_not_null) (simp add: game_savable_def)
  let ?v = "the (to_save_dict g)"
  have v: "to_save_dict g = Some ?v" using pl by (simp add: to_save_dict_def)
  have fields: "board (saved_view g) = board g" "bag (saved_view g) = bag g" "game_id (saved_view g) = game_id g"
    "winners (saved_view g) = filter (\<lambda>p. player_name p \<in> player_name ` set (winners g)) (players (saved_view g))"
    by (auto simp: saved_view_def Let_def return_tiles_def split: option.split)
  have "from_save_dict e ?v = Inr (saved_view g)"
    using pl sv saved_players [OF ok sv]
    by (simp add: to_save_dict_def from_save_dict_def json_lookup game_savable_def board bag names cur sc hint
        info load_winner_names_def)
      (simp add: saved_view_def Let_def game_new_def return_tiles_def upd_player_def split: option.split)
  then show ?thesis using v by blast
qed

theorem save_restore_roundtrip_witness:
  "\<exists>v. to_save_dict (demo_game True) = Some v \<and> from_save_dict plain_env v = Inr (saved_view (demo_game True))"
  by (rule save_restore_roundtrip [OF demo_game_ok])
    (simp_all add: game_savable_def player_savable_def demo_game_def game_new_def player_new_def
      ALLOWED_HINT_LIMITS_def fits_i32_def fits_i64_def i64_min_def i64_max_def)

end
