(* ===== verification/GameView.thy ===== *)
theory GameView
  imports GameSave
begin

text \<open>
  What a client sees of a game (\<^verbatim>\<open>history\<close>, \<^verbatim>\<open>shared_state\<close>, \<^verbatim>\<open>get_state\<close>,
  \<^verbatim>\<open>get_all_states\<close>, \<^verbatim>\<open>get_spectator_state\<close> of \<^verbatim>\<open>src/src/engine/game.rs\<close>), and that nobody
  sees the tiles of the others or of the bag.
\<close>

section \<open>The views\<close>

definition move_tiles_json :: "json \<Rightarrow> json list" where
  "move_tiles_json d =
     (case jget d (ascii ''tiles'') \<bind> as_array of
        Some a \<Rightarrow> map (\<lambda>t. JObj [(ascii ''row'', field t (ascii ''row'')), (ascii ''col'', field t (ascii ''col''))]) a
      | None \<Rightarrow> [])"

definition or_else :: "json option \<Rightarrow> json \<Rightarrow> json" where
  "or_else x d = (case x of Some v \<Rightarrow> v | None \<Rightarrow> d)"

definition history_entry :: "move_log_entry \<Rightarrow> (str \<times> json) list" where
  "history_entry m =
     [(ascii ''n'', JInt (move_number m)), (ascii ''player'', JStr (ml_player m)),
      (ascii ''type'', JStr (action_type m)),
      (ascii ''words'', or_else (jget (details m) (ascii ''words'')) (JArr [])),
      (ascii ''score'', or_else (jget (details m) (ascii ''score'')) (JInt 0)),
      (ascii ''tiles'', JArr (move_tiles_json (details m)))]"

definition history :: "game \<Rightarrow> json list" where
  "history g = map (\<lambda>m. JObj (history_entry m)) (move_log g)"

definition last_move_tiles :: "json list \<Rightarrow> json" where
  "last_move_tiles hist =
     (if hist = [] then JArr []
      else if as_str (field (last hist) (ascii ''type'')) \<in> {Some (ascii ''place''), Some (ascii ''challenge_accept'')}
      then field (last hist) (ascii ''tiles'')
      else JArr [])"

text \<open>A history entry without its squares (the last member, so the order of the others stays).\<close>

fun without_key :: "str \<Rightarrow> json \<Rightarrow> json" where
  "without_key k (JObj kvs) = JObj (filter (\<lambda>kv. fst kv \<noteq> k) kvs)"
| "without_key k v = v"

definition live_winner :: "game \<Rightarrow> player \<Rightarrow> player" where
  "live_winner g w =
     (case List.find (\<lambda>p. player_name p = player_name w) (players g) of Some p \<Rightarrow> p | None \<Rightarrow> w)"

definition pending_json :: "game \<Rightarrow> json option" where
  "pending_json g =
     (case pending_challenge g of None \<Rightarrow> Some JNull | Some pc \<Rightarrow> challenge_to_state (players g) pc)"

definition shared_state :: "game \<Rightarrow> (str \<times> json) list option" where
  "shared_state g =
     (let ws = map (live_winner g) (winners g) in
      map_option (\<lambda>pending.
        [(ascii ''game_id'', JStr (game_id g)), (ascii ''started'', JBool (started g)),
         (ascii ''finished'', JBool (finished g)), (ascii ''board'', board_to_json (board g)),
         (ascii ''current_player'', opt_json (\<lambda>p. JStr (player_id p)) (current_player g)),
         (ascii ''current_player_name'', opt_json (\<lambda>p. JStr (player_name p)) (current_player g)),
         (ascii ''turn_number'', JInt (turn_number g)),
         (ascii ''tiles_remaining'', JInt (int (remaining (bag g)))),
         (ascii ''last_action'', opt_json JStr (last_action g)),
         (ascii ''last_action_info'', opt_json (\<lambda>v. v) (last_action_info g)),
         (ascii ''last_move_tiles'', last_move_tiles (history g)),
         (ascii ''history'', JArr (map (without_key (ascii ''tiles'')) (history g))),
         (ascii ''winner'', (case ws of [w] \<Rightarrow> player_to_json w False | _ \<Rightarrow> JNull)),
         (ascii ''winners'', JArr (map (\<lambda>w. player_to_json w False) ws)),
         (ascii ''puzzle'', opt_json (\<lambda>pz. JObj [(ascii ''date'', JStr (puzzle_date pz)),
              (ascii ''score'', opt_json JInt (puzzle_score pz))]) (puzzle g)),
         (ascii ''challenge_mode'', JBool (challenge_mode g)),
         (ascii ''turn_time_limit'', JInt (turn_time_limit g)),
         (ascii ''async_mode'', JBool (async_mode g)), (ascii ''turn_hours'', JInt (turn_hours g)),
         (ascii ''turn_deadline'', opt_json JFloat (turn_deadline g)),
         (ascii ''hint_limit'', JInt (hint_limit g)), (ascii ''hints_left'', JInt (hints_left g)),
         (ascii ''pending_challenge'', pending)]) (pending_json g))"

definition state_from_shared :: "game \<Rightarrow> (str \<times> json) list \<Rightarrow> str option \<Rightarrow> json" where
  "state_from_shared g shared viewer =
     JObj (shared @ [(ascii ''players'',
       JArr (map (\<lambda>p. player_to_json p (Some (player_id p) = viewer)) (players g)))])"

definition get_state :: "str option \<Rightarrow> game \<Rightarrow> json option" where
  "get_state viewer g = map_option (\<lambda>shared. state_from_shared g shared viewer) (shared_state g)"

definition get_all_states :: "game \<Rightarrow> (str \<times> json) list option" where
  "get_all_states g =
     map_option (\<lambda>shared. map (\<lambda>p. (player_id p, state_from_shared g shared (Some (player_id p))))
         (filter (\<lambda>p. \<not> is_bot p) (players g))) (shared_state g)"

definition get_spectator_state :: "game \<Rightarrow> json option" where
  "get_spectator_state g =
     map_option (\<lambda>v. case v of JObj kvs \<Rightarrow> JObj (kvs @ [(ascii ''spectator'', JBool True)]) | _ \<Rightarrow> v)
       (get_state None g)"

section \<open>Nobody sees hidden tiles\<close>

text \<open>
  The game with everything hidden from \<open>viewer\<close> overwritten: the tiles of the other hands and of
  the bag, of the winners' snapshots and of the reserved placement, the racks in the log.
\<close>

definition hide_hand :: "player \<Rightarrow> player" where
  "hide_hand p = p\<lparr>hand := replicate (length (hand p)) BLANK\<rparr>"

definition mask_player :: "str option \<Rightarrow> player \<Rightarrow> player" where
  "mask_player viewer p = (if Some (player_id p) = viewer then p else hide_hand p)"

definition masked :: "str option \<Rightarrow> game \<Rightarrow> game" where
  "masked viewer g =
     g\<lparr>players := map (mask_player viewer) (players g), bag := replicate (length (bag g)) BLANK,
       winners := map hide_hand (winners g), rejected_placements := {},
       pending_challenge := map_option (\<lambda>pc. pc\<lparr>removed_from_hand := []\<rparr>) (pending_challenge g),
       move_log := map (\<lambda>m. m\<lparr>details := without_key (ascii ''rack'') (details m)\<rparr>) (move_log g)\<rparr>"

lemma mask_player_simps [simp]:
  "player_id (mask_player v p) = player_id p" "player_name (mask_player v p) = player_name p"
  "is_bot (mask_player v p) = is_bot p" "player_to_json (mask_player v p) False = player_to_json p False"
  "player_to_json (hide_hand p) False = player_to_json p False" "player_name (hide_hand p) = player_name p"
  by (simp_all add: mask_player_def hide_hand_def player_to_json_def difficulty_json_def)

lemma mask_player_own: "player_to_json (mask_player v p) (Some (player_id p) = v) = player_to_json p (Some (player_id p) = v)"
  by (simp add: mask_player_def)

lemma jget_without_key: "k \<noteq> k' \<Longrightarrow> jget (without_key k v) k' = jget v k'"
proof (cases v)
  case (JObj kvs)
  assume "k \<noteq> k'"
  then have "map_of (filter (\<lambda>kv. fst kv \<noteq> k) kvs) k' = map_of kvs k'" by (induction kvs) auto
  then show ?thesis using JObj by simp
qed simp_all

lemma history_masked [simp]: "history (masked v g) = history g"
  by (simp add: history_def masked_def history_entry_def move_tiles_json_def jget_without_key comp_def)

lemma find_map: "List.find P (map f xs) = map_option f (List.find (\<lambda>x. P (f x)) xs)"
  by (induction xs) auto

lemma live_winner_masked:
  "player_to_json (live_winner (masked v g) (hide_hand w)) False = player_to_json (live_winner g w) False"
  by (simp add: live_winner_def masked_def find_map split: option.split)

lemma current_player_masked: "current_player (masked v g) = map_option (mask_player v) (current_player g)"
  by (simp add: current_player_def masked_def)

lemma opt_json_map [simp]: "opt_json f (map_option h x) = opt_json (\<lambda>y. f (h y)) x"
  by (cases x) simp_all

lemma pending_json_masked: "pending_json (masked v g) = pending_json g"
  by (simp add: pending_json_def masked_def challenge_to_state_def Let_def split: option.split)

lemma shared_state_masked: "shared_state (masked v g) = shared_state g"
proof -
  have ws: "map (\<lambda>w. player_to_json w False) (map (live_winner (masked v g)) (winners (masked v g)))
      = map (\<lambda>w. player_to_json w False) (map (live_winner g) (winners g))"
    by (simp add: masked_def [of v g, THEN arg_cong, of winners] live_winner_masked)
  have one: "(case map (live_winner (masked v g)) (winners (masked v g)) of [w] \<Rightarrow> player_to_json w False | _ \<Rightarrow> JNull)
      = (case map (live_winner g) (winners g) of [w] \<Rightarrow> player_to_json w False | _ \<Rightarrow> JNull)"
    using ws by (auto simp: map_eq_Cons_conv Cons_eq_map_conv split: list.split)
  show ?thesis
    unfolding shared_state_def Let_def ws one pending_json_masked history_masked current_player_masked opt_json_map
    by (simp add: masked_def remaining_def hints_left_def)
qed

text \<open>
  C10. The view of a player is the same whatever the hidden tiles are: overwriting the other hands, the
  bag, the racks in the move log, the winners' snapshots and the reserved tiles of a pending
  placement changes nothing in it; likewise for a spectator, from whom every hand is hidden.
\<close>

theorem views_hide_tiles:
  "get_state viewer (masked viewer g) = get_state viewer g
   \<and> get_spectator_state (masked None g) = get_spectator_state g"
proof -
  have "get_state v (masked v g) = get_state v g" for v
    unfolding get_state_def shared_state_masked
    by (simp add: state_from_shared_def masked_def comp_def mask_player_own)
  then show ?thesis by (simp add: get_spectator_state_def)
qed

end
