(* ===== verification/CoreProps.thy ===== *)
theory CoreProps
  imports GameView
begin

text \<open>
  The promises of the parts below a game: the decomposition of a word into tiles, the bag, the
  snapshots of a board, the strength setting of a bot and the outcome of a vote.
\<close>

lemma identity_shuffler: "shuffler (\<lambda>ts. ts)"
  by (simp add: shuffler_def)

text \<open>
  C18. The decomposition of a word fails exactly when no sequence of letter tiles spells its upper
  case, and otherwise returns a spelling that no other spelling beats: it has the fewest tiles and,
  among those, the highest value. The dynamic program over prefixes therefore equals the search
  over all sequences of tiles.
\<close>

theorem tokenize_word_optimal:
  "case tokenize_word w of
     None \<Rightarrow> \<nexists>ts. spells ts (to_uppercase w)
   | Some ts \<Rightarrow> spells ts (to_uppercase w)
       \<and> (\<forall>us. spells us (to_uppercase w) \<longrightarrow> cost_le (tiling_cost ts) (tiling_cost us))"
  using tokenize_None_iff [of w] tokenize_Some [of w] by (auto split: option.split)

theorem tokenize_word_optimal_witness:
  "tokenize_word [115, 122] = Some [Tile 19] \<and> cost_le (tiling_cost [Tile 19]) (tiling_cost [Tile 12, Tile 28])"
proof -
  have t: "tokenize_word [115, 122] = Some [Tile 19]" by code_simp
  have s: "spells [Tile 12, Tile 28] (to_uppercase [115, 122])" by code_simp
  show ?thesis using tokenize_word_optimal [of "[115, 122]"] t s by simp
qed

text \<open>
  A new bag holds the hundred tiles of the set, each letter as often as the table says. Drawing
  never takes more than there is, the drawn tiles and the rest are the old bag, and tiles put back
  are all there again.
\<close>

theorem bag_keeps_the_set:
  assumes "shuffler shuf"
  shows "remaining (bag_new shuf) = 100
    \<and> (\<forall>i<length TILE_DISTRIBUTION.
         count (mset (bag_new shuf)) (Tile i) = snd (snd (TILE_DISTRIBUTION ! i)))
    \<and> length (fst (draw n b)) = min n (remaining b)
    \<and> snd (draw n b) @ fst (draw n b) = b
    \<and> mset (put_back shuf ts b) = mset b + mset ts"
proof -
  have new: "mset (bag_new shuf) = mset unshuffled_bag"
    using assms by (simp add: bag_new_def shuffler_def)
  have len: "remaining (bag_new shuf) = 100"
    using assms by (simp add: remaining_def bag_new_def shuffler_length length_unshuffled_bag)
  have "list_all (\<lambda>i. count (mset unshuffled_bag) (Tile i) = snd (snd (TILE_DISTRIBUTION ! i)))
      [0..<length TILE_DISTRIBUTION]"
    by code_simp
  then have counts: "\<forall>i<length TILE_DISTRIBUTION. count (mset (bag_new shuf)) (Tile i) = snd (snd (TILE_DISTRIBUTION ! i))"
    unfolding new by (simp add: list_all_iff)
  have "length (fst (draw n b)) = min n (remaining b)" "snd (draw n b) @ fst (draw n b) = b"
    by (simp_all add: draw_eq remaining_def)
  then show ?thesis
    using len counts assms by (simp add: put_back_def shuffler_def)
qed

theorem bag_keeps_the_set_witness:
  "remaining (bag_new (\<lambda>ts. ts)) = 100"
  using bag_keeps_the_set [OF identity_shuffler, of 0 "[]" "[]"] by (simp add: draw_eq)

text \<open>
  The snapshot of a board is faithful: reading back what was written gives the same board, with
  its blanks and its empty flag, and two boards with the same snapshot are equal.
\<close>

theorem board_snapshot_faithful:
  assumes "board_ok b" "board_ok b'"
  shows "board_from_json (board_to_json b) = b
    \<and> (board_to_json b = board_to_json b' \<longleftrightarrow> b = b')"
  using board_codec.dec_enc [OF assms(1)] board_codec.enc_inj [OF assms] by blast

theorem board_snapshot_faithful_witness:
  "board_from_json (board_to_json (apply_placement demo_tiles board_new)) = apply_placement demo_tiles board_new"
proof -
  have "board_ok (apply_placement demo_tiles board_new)"
    by (rule board_ok_apply) (simp_all add: board_ok_new demo_tiles_def on_board_def BOARD_SIZE_def tile_ok_def)
  then show ?thesis using board_snapshot_faithful board_ok_new by blast
qed

text \<open>
  C19. Whatever a client sends as the strength of a bot, the setting kept is \<open>auto\<close> or a level between
  1 and 10, and storing a valid setting and reading it back gives the same setting.
\<close>

theorem difficulty_setting_valid:
  "difficulty_ok (normalize_difficulty v)
   \<and> normalize_difficulty (difficulty_to_json (normalize_difficulty v)) = normalize_difficulty v
   \<and> 1 \<le> normalize_level v \<and> normalize_level v \<le> 10"
proof -
  have "1 \<le> normalize_level v \<and> normalize_level v \<le> 10"
    using parse_level_range [of v]
    by (auto simp: normalize_level_def DEFAULT_LEVEL_def MIN_LEVEL_def MAX_LEVEL_def simp del: parse_level.simps split: option.split)
  then show ?thesis using normalize_difficulty_ok difficulty_codec.dec_enc by blast
qed

text \<open>
  A vote turns a placement down exactly when more than half of the voters rejected it; a voter who
  has not voted counts as accepting.
\<close>

theorem vote_needs_majority_to_reject:
  assumes "finite V"
  shows "resolve_votes V c \<longleftrightarrow> 2 * card {pid \<in> V. map_of (votes c) pid = Some Reject} \<le> card V"
  using resolve_votes_iff [OF assms, of c] by (simp add: rejections_def)

theorem vote_needs_majority_to_reject_witness:
  "resolve_votes {[97], [98]} \<lparr>tiles_placed = [], formed_words = [], word_strs = [], ch_score = 0, player_idx = 0,
     removed_from_hand = [], votes = [([97], Reject)], expires_at = 0\<rparr>"
proof -
  have "{pid \<in> {[97], [98]}. map_of [([97], Reject)] pid = Some Reject} = {[97::nat]}" by auto
  then show ?thesis by (subst vote_needs_majority_to_reject) simp_all
qed

end
