(* ===== verification/GameEnds.thy ===== *)
theory GameEnds
  imports GameProps
begin

text \<open>
  Every game ends: what an operation does to the move log, the board and the count of the scoreless turns,
  a bound for the number of recorded turns over every run, and a way to the end from every state.
\<close>

section \<open>Recorded turns\<close>

text \<open>A step that records nothing, and one that records a turn: with new tiles on the board, or scoreless.\<close>

definition tiles_laid :: "game \<Rightarrow> nat" where
  "tiles_laid g = size (board_tiles (board g))"

definition quiet :: "game \<Rightarrow> game \<Rightarrow> bool" where
  "quiet g g' \<longleftrightarrow> move_log g' = move_log g \<and> board g' = board g \<and> scoreless_turns g' = scoreless_turns g
     \<and> (finished g \<longrightarrow> finished g')"

definition recorded :: "game \<Rightarrow> game \<Rightarrow> bool" where
  "recorded g g' \<longleftrightarrow> \<not> finished g \<and> length (move_log g') = length (move_log g) + 1
     \<and> (finished g' \<or> scoreless_turns g' = scoreless_turns g + 1 \<and> tiles_laid g' = tiles_laid g
          \<or> scoreless_turns g' = 0 \<and> tiles_laid g < tiles_laid g')"

lemma quiet_refl [simp]: "quiet g g"
  by (simp add: quiet_def)

lemma quiet_trans: "quiet g g1 \<Longrightarrow> quiet g1 g2 \<Longrightarrow> quiet g g2"
  by (simp add: quiet_def)

lemma recorded_quiet: "recorded g g1 \<Longrightarrow> quiet g1 g2 \<Longrightarrow> recorded g g2"
  by (auto simp: quiet_def recorded_def tiles_laid_def)

lemma quiet_recorded: "quiet g g1 \<Longrightarrow> recorded g1 g2 \<Longrightarrow> recorded g g2"
  by (auto simp: quiet_def recorded_def tiles_laid_def)

text \<open>The operations, from the common forms of their results.\<close>

lemma scoreless_recorded:
  assumes "\<not> finished g" "board g1 = board g" "scoreless_turns g1 = scoreless_turns g" "move_log g1 = move_log g"
  shows "recorded g (scoreless_step e c (record_move n act ts ws sc r g1))"
proof -
  have "move_log (scoreless_step e c x) = move_log x" for x
    by (simp add: scoreless_step_def register_scoreless_turn_def Let_def)
  then show ?thesis
    using assms by (simp add: recorded_def scoreless_step_facts tiles_laid_def record_move_def)
qed

lemma laid_recorded:
  assumes "\<not> finished g" "legal_geometry (board g) tiles" "board g1 = apply_placement tiles (board g)"
    "scoreless_turns g1 = 0" "move_log g1 = move_log g"
  shows "recorded g (after_move i e (record_move n act ts ws sc r g1))"
    "recorded g (finish_puzzle i t wds (record_move n act ts ws sc r g1))"
proof -
  have "tiles \<noteq> []" using assms(2) by (simp add: legal_geometry_def)
  then have "size (board_tiles (board g)) < size (board_tiles (apply_placement tiles (board g)))"
    by (simp add: board_tiles_apply [OF assms(2)])
  then show "recorded g (after_move i e (record_move n act ts ws sc r g1))"
    "recorded g (finish_puzzle i t wds (record_move n act ts ws sc r g1))"
    using assms by (simp_all add: recorded_def tiles_laid_def after_move_def finish_puzzle_def record_move_def set_last_action_def Let_def)
qed

lemma place_recorded:
  assumes "game_ok g" "place_tiles e pid tiles g = (Done r, g')"
  shows "quiet g g' \<or> recorded g g'"
proof -
  let ?i = "current_player_idx g"
  have none: "placement_refused pid tiles g = None" using assms(2) by (auto simp: place_tiles_def split: option.splits)
  obtain formed where v: "validate_placement (check_fn e) (board g) tiles (challenge_applies ?i g) = Some (Inr formed)"
    using assms(2) none by (auto simp: place_tiles_def Let_def split: option.splits sum.splits)
  then have legal: "legal_geometry (board g) tiles" using validate_placement_legal by blast
  show ?thesis
  proof (cases "challenge_applies ?i g")
    case True
    then have "quiet g g'"
      using assms(2) none v by (auto simp: place_tiles_def Let_def case_prod_beta quiet_def upd_player_def set_last_action_def)
    then show ?thesis ..
  next
    case False
    obtain tot wds where "g' = finalize_placement e tiles tot wds formed g"
      using assms(2) none v False by (auto simp: place_tiles_def Let_def)
    moreover obtain n act ts ws' r t where "finalize_placement e tiles tot wds formed g
       = (let g4 = record_move n act ts ws' r t (announce_place n wds tot (placed_state tiles tot g))
          in if puzzle g4 \<noteq> None then finish_puzzle ?i tot wds g4 else after_move ?i e g4)"
      using finalize_placement_eq by blast
    moreover have "\<not> finished g" using none by (simp add: placement_refused_None)
    moreover have "board (announce_place n wds tot (placed_state tiles tot g)) = apply_placement tiles (board g)"
      "scoreless_turns (announce_place n wds tot (placed_state tiles tot g)) = 0"
      "move_log (announce_place n wds tot (placed_state tiles tot g)) = move_log g"
      by (simp_all add: placed_state_def Let_def announce_place_def set_last_action_def)
    ultimately show ?thesis using laid_recorded [OF _ legal] by (simp add: Let_def)
  qed
qed

lemma accept_recorded:
  assumes "game_ok g" "pending_challenge g = Some pc"
  shows "recorded g (finalize_accept e g)"
proof -
  note pd = game_ok_pendingD [OF assms]
  let ?i = "player_idx pc"
  let ?g1 = "g\<lparr>pending_challenge := None, board := apply_placement (tiles_placed pc) (board g), rejected_placements := {}\<rparr>"
  let ?g3 = "(refill ?i (upd_player ?i (\<lambda>p. p\<lparr>score := score p + ch_score pc\<rparr>) ?g1))\<lparr>scoreless_turns := 0\<rparr>"
  obtain n act ts ws r t sc nm ws' where eq: "finalize_accept e g
      = after_move ?i e (record_move n act ts ws sc r (announce_place nm ws' t ?g3))"
    using assms(2) unfolding finalize_accept_def after_move_def Let_def by (simp only: option.case)
  have "\<not> finished g" using assms by (simp add: game_ok_def)
  then show ?thesis
    unfolding eq by (rule laid_recorded(1) [where tiles = "tiles_placed pc"])
      (use pd(5) in \<open>simp_all add: placeable_def announce_place_def set_last_action_def\<close>)
qed

lemma reject_recorded:
  assumes "game_ok g" "pending_challenge g = Some pc"
  shows "recorded g (finalize_reject e g)"
proof -
  obtain key n act sc t r tx info where eq: "finalize_reject e g
      = scoreless_step e (\<lambda>g4. disconnected (players g4 ! player_idx pc))
          (record_move n act t r sc None (set_last_action tx info ((return_tiles pc g)\<lparr>rejected_placements := key\<rparr>)))"
    using assms(2) unfolding finalize_reject_def scoreless_step_def Let_def by (simp only: option.case)
  have "\<not> finished g" using assms by (simp add: game_ok_def)
  then show ?thesis unfolding eq
    by (rule scoreless_recorded) (simp_all add: return_tiles_def upd_player_def set_last_action_def)
qed

lemma exchange_recorded:
  assumes "exchange_tiles e pid idxs g = (Done r, g')"
  shows "recorded g g'"
proof -
  have none: "exchange_refused pid idxs g = None" using assms by (auto simp: exchange_tiles_def split: option.splits)
  obtain g1 n act ts ws sc r0 where "g' = scoreless_step e (\<lambda>_. True) (record_move n act ts ws sc r0 g1)"
    "board g1 = board g" "scoreless_turns g1 = scoreless_turns g" "move_log g1 = move_log g"
    using assms none unfolding exchange_tiles_def Let_def case_prod_beta scoreless_step_eq [unfolded case_prod_beta]
    by (auto simp: set_last_action_def upd_player_def)
  then show ?thesis using none by (simp add: exchange_refused_None scoreless_recorded)
qed

lemma pass_recorded:
  assumes "pass_turn e pid t g = (Done r, g')"
  shows "recorded g g'"
proof -
  have none: "pass_refused pid g = None" using assms by (auto simp: pass_turn_def split: option.splits)
  then obtain f n act ts ws sc r0 tx info where
    "pass_turn e pid t g = (Done (ascii ''Passz.''), scoreless_step e (\<lambda>_. True)
        (record_move n act ts ws sc r0 (set_last_action tx info (upd_player (current_player_idx g) f g))))"
    using pass_turn_step [OF none, of t e] by blast
  then show ?thesis using assms none
    by (auto simp: pass_refused_None set_last_action_def upd_player_def intro!: scoreless_recorded)
qed


lemma resolve_recorded:
  assumes "game_ok g" "pending_challenge g \<noteq> None"
  shows "recorded g (snd (resolve_and_finalize e g))"
proof -
  obtain pc where "pending_challenge g = Some pc" using assms(2) by blast
  then show ?thesis using accept_recorded reject_recorded assms(1) by (auto simp: resolve_and_finalize_def)
qed

lemma vote_recorded:
  assumes "game_ok g" "cast_vote e pid v g = (Done r, g')"
  shows "quiet g g' \<or> recorded g g'"
proof -
  obtain pc where pc: "pending_challenge g = Some pc" using assms(2) by (cases "pending_challenge g") (simp_all add: cast_vote_def)
  let ?g1 = "g\<lparr>pending_challenge := Some (add_vote pid v pc)\<rparr>"
  have q: "quiet g ?g1" by (simp add: quiet_def)
  have "game_ok ?g1" using keeps_votes [OF assms(1) pc] by (simp add: keeps_def add_vote_def)
  then have "recorded g (snd (resolve_and_finalize e ?g1))" by (intro quiet_recorded [OF q] resolve_recorded) simp_all
  moreover have "g' = snd (resolve_and_finalize e ?g1) \<or> (\<exists>a i. g' = set_last_action a i ?g1)"
    using assms(2) pc by (auto simp: cast_vote_def Let_def case_prod_beta split: if_splits option.splits)
  ultimately show ?thesis by (auto simp: quiet_def set_last_action_def)
qed

lemma resign_quiet: "quiet g (snd (resign pid g))"
  by (auto simp: resign_def quiet_def Let_def set_last_action_def upd_player_def split: option.split)

lemma expire_recorded:
  assumes "expire_turn e g = (True, g')"
  shows "recorded g g'"
proof -
  obtain p where p: "current_player g = Some p" using assms by (auto simp: expire_turn_def split: if_splits option.splits)
  obtain r g1 where r: "pass_turn e (player_id p) True g = (r, g1)" by (cases "pass_turn e (player_id p) True g")
  then have "is_done r" "g' = g1 \<or> g' = snd (resign (player_id p) g1)"
    using assms p by (auto simp: expire_turn_def Let_def split: if_splits)
  moreover from this have "recorded g g1" using r by (cases r) (auto intro: pass_recorded)
  ultimately show ?thesis using resign_quiet recorded_quiet by blast
qed

lemma game_step_recorded:
  assumes "game_step g ev g'" "game_ok g"
  shows "quiet g g' \<or> recorded g g'"
  using assms
proof (induction rule: game_step.cases)
  case (join pid nm g r g') then show ?case by (auto simp: add_player_def quiet_def split: if_splits)
next case (add_bot nm d g r g') then show ?case by (auto simp: add_bot_def quiet_def Let_def split: if_splits)
next case (use_hint g g') then show ?case by (auto simp: use_hint_def quiet_def split: if_splits)
next case (drop pid g g') then show ?case by (auto simp: mark_disconnected_def quiet_def upd_player_def split: option.splits)
next case (rejoin a b g g') then show ?case by (auto simp: replace_player_sid_def quiet_def upd_player_def split: option.splits)
next case (leave pid g b g') then show ?case by (auto simp: remove_player_def quiet_def Let_def split: option.splits if_splits)
next case (start e g r g') then show ?case by (auto simp: start_game_def quiet_def reset_deadline_def split: if_splits prod.splits)
next case (skip_away e g g') then show ?case by (auto simp: skip_disconnected_current_def quiet_def split: if_splits option.splits)
next case (place tiles e pid g r2 g') then show ?case using place_recorded by blast
next case (vote e pid v g r3 g') then show ?case using vote_recorded by blast
next
  case (withdraw pid g r g')
  then show ?case
    by (auto simp: withdraw_pending_def quiet_def Let_def set_last_action_def return_tiles_def upd_player_def
        split: option.splits if_splits)
next
  case (timeout e g r3 g')
  then have "pending_challenge g \<noteq> None" "g' = snd (resolve_and_finalize e g)"
    by (auto simp: accept_pending_def case_prod_beta split: if_splits)
  then have "recorded g g'" using resolve_recorded [of g e] timeout by simp
  then show ?case using timeout by simp
next case (exchange e pid idxs g r g') then show ?case using exchange_recorded by blast
next case (pass e pid t g r g') then show ?case using pass_recorded by blast
next case (resign pid g r g') then show ?case using resign_quiet [of g pid] by simp
next case (expire e g g') then show ?case using expire_recorded by blast
next
  case (force_resolve e b g r3 g')
  then obtain pc where "pending_challenge g = Some pc" "g' = finalize_accept e g \<or> g' = finalize_reject e g"
    by (auto simp: force_resolve_pending_def split: if_splits)
  then show ?case using accept_recorded reject_recorded force_resolve by blast
next
  case (force_end g g')
  then show ?case
    by (auto simp: force_end_def quiet_def return_tiles_def upd_player_def split: if_splits option.splits)
qed

section \<open>The bound\<close>

definition turns_left :: "game \<Rightarrow> nat" where
  "turns_left g = (if finished g then 0 else 6 * (100 - tiles_laid g) + (6 - scoreless_turns g))"

lemma turns_left_step:
  assumes "quiet g g' \<or> recorded g g'" "tiles_laid g' \<le> 100" "\<not> finished g \<Longrightarrow> scoreless_turns g < 6"
  shows "length (move_log g') + turns_left g' \<le> length (move_log g) + turns_left g"
proof (cases "finished g")
  case True
  then have "quiet g g'" using assms(1) by (auto simp: recorded_def)
  then show ?thesis using True by (simp add: quiet_def turns_left_def)
next
  case False
  then have s: "scoreless_turns g < 6" by (rule assms(3))
  show ?thesis
  proof (cases "quiet g g'")
    case True
    then show ?thesis using False by (auto simp: quiet_def turns_left_def tiles_laid_def)
  next
    case nq: False
    then have r: "recorded g g'" using assms(1) by blast
    show ?thesis
    proof (cases "finished g'")
      case True
      then show ?thesis using r False s by (simp add: recorded_def turns_left_def)
    next
      case going: False
      then have "scoreless_turns g' = scoreless_turns g + 1 \<and> tiles_laid g' = tiles_laid g
          \<or> scoreless_turns g' = 0 \<and> tiles_laid g < tiles_laid g'" "length (move_log g') = length (move_log g) + 1"
        using r by (auto simp: recorded_def)
      then show ?thesis using False going s assms(2) by (auto simp: turns_left_def)
    qed
  qed
qed

lemma tiles_laid_le: "tiles_laid g \<le> size (tiles_in_play g)"
  by (simp add: tiles_laid_def tiles_in_play_def)

lemma game_run_recorded:
  assumes "game_run g evs g'" "game_ok g" "size (tiles_in_play g) \<le> 100"
  shows "length (move_log g') + turns_left g' \<le> length (move_log g) + turns_left g"
  using assms
proof (induction rule: steps.induct)
  case (run_snoc s evs s' ev s'')
  have ok: "game_ok s'" "game_ok s''" "size (tiles_in_play s'') \<le> 100"
  proof -
    have "game_run s (evs @ [ev]) s''" using run_snoc.hyps by (rule game_run_snoc)
    then have "game_ok s'' \<and> tiles_in_play s'' \<subseteq># tiles_in_play s" using game_run_preserves run_snoc.prems(1) by blast
    then show "game_ok s''" "size (tiles_in_play s'') \<le> 100" using run_snoc.prems(2) size_mset_mono by fastforce+
    show "game_ok s'" using game_run_preserves run_snoc by blast
  qed
  have "length (move_log s'') + turns_left s'' \<le> length (move_log s') + turns_left s'"
  proof (rule turns_left_step)
    show "quiet s' s'' \<or> recorded s' s''" by (rule game_step_recorded [OF run_snoc.hyps(2) ok(1)])
    show "tiles_laid s'' \<le> 100" using ok(3) tiles_laid_le [of s''] by simp
    show "scoreless_turns s' < 6" if "\<not> finished s'" using ok(1) that by (simp add: game_ok_def SCORELESS_TURNS_LIMIT_def)
  qed
  then show ?case using run_snoc by simp
qed simp

text \<open>
  C13. Every game ends: whatever the players, the clock and the administrators do, at most 606 turns
  (placements decided by the dictionary or by a vote, exchanges, passes) are ever recorded in a
  game; every recorded turn uses up one of the turns left, which depend only on the tiles on
  the board and the scoreless turns, and a finished game has none left.
\<close>

theorem every_game_ends:
  assumes "shuffler (shuffle_fn e)" "game_run (game_new e gid chal limit hints) evs g"
  shows "length (move_log g) + turns_left g \<le> 606
    \<and> (game_step g ev g' \<longrightarrow> length (move_log g') + turns_left g' \<le> length (move_log g) + turns_left g
         \<and> (move_log g' = move_log g \<or> length (move_log g') = length (move_log g) + 1))"
proof -
  let ?n = "game_new e gid chal limit hints"
  have n: "game_ok ?n" "tiles_in_play ?n = mset unshuffled_bag" using game_new_ok [OF assms(1)] by simp_all
  have size: "size (tiles_in_play ?n) \<le> 100" unfolding n(2) size_mset by code_simp
  have "move_log ?n = []" "turns_left ?n \<le> 606" by (simp_all add: game_new_def turns_left_def)
  then have bound: "length (move_log g) + turns_left g \<le> 606"
    using game_run_recorded [OF assms(2) n(1) size] by simp
  have "length (move_log g') + turns_left g' \<le> length (move_log g) + turns_left g
      \<and> (move_log g' = move_log g \<or> length (move_log g') = length (move_log g) + 1)" if step: "game_step g ev g'"
  proof -
    have ok: "game_ok g" "tiles_in_play g \<subseteq># tiles_in_play ?n" using game_run_preserves [OF assms(2) n(1)] by simp_all
    then have s: "size (tiles_in_play g) \<le> 100" using size size_mset_mono le_trans by blast
    have "game_run g [ev] g'" using game_run_snoc [OF game_run_nil step] by simp
    then have "length (move_log g') + turns_left g' \<le> length (move_log g) + turns_left g"
      by (rule game_run_recorded [OF _ ok(1) s])
    moreover have "move_log g' = move_log g \<or> length (move_log g') = length (move_log g) + 1"
      using game_step_recorded [OF step ok(1)] by (auto simp: quiet_def recorded_def)
    ultimately show ?thesis ..
  qed
  then show ?thesis using bound by blast
qed


theorem every_game_ends_witness:
  "\<exists>g. game_run (game_new plain_env [49] False 0 3) (Join [97] [65] # replicate 6 (Pass [97] False)) g
     \<and> finished g \<and> length (move_log g) \<le> 606"
proof -
  obtain g where g: "game_run (game_new plain_env [49] False 0 3) (Join [97] [65] # replicate 6 (Pass [97] False)) g" "finished g"
    using waiting_passes [OF plain_shuffler, of 6 "[49]" "[97]" "[65]"] by blast
  have "length (move_log g) + turns_left g \<le> 606"
    using every_game_ends [OF plain_shuffler g(1)] by blast
  then show ?thesis using g by force
qed

section \<open>A way to the end\<close>

lemma steps_append: "steps step a xs b \<Longrightarrow> steps step b ys c \<Longrightarrow> steps step a (xs @ ys) c"
proof (rotate_tac, induction rule: steps.induct)
  case (run_snoc s evs s' ev s'')
  have "steps step a ((xs @ evs) @ [ev]) s''" using run_snoc by (intro steps.run_snoc) simp_all
  then show ?case by simp
qed simp

lemma pass_keeps_pending:
  assumes "pass_refused pid g = None"
  shows "pending_challenge (snd (pass_turn e pid t g)) = None"
proof -
  obtain f n act ts ws sc r0 tx info where
    eq: "pass_turn e pid t g = (Done (ascii ''Passz.''), scoreless_step e (\<lambda>_. True)
        (record_move n act ts ws sc r0 (set_last_action tx info (upd_player (current_player_idx g) f g))))"
    using pass_turn_step [OF assms, of t e] by blast
  show ?thesis
    unfolding eq snd_conv by (rule scoreless_step_facts(7)) (use assms in \<open>simp add: pass_refused_None\<close>)
qed

lemma finish_by_passing:
  assumes "game_ok g" "\<not> finished g" "pending_challenge g = None" "puzzle g = None" "players g \<noteq> []"
  shows "\<exists>evs g'. length evs \<le> 6 - scoreless_turns g \<and> (\<forall>ev\<in>set evs. \<exists>pid. ev = Pass pid False) \<and> game_run g evs g' \<and> finished g'"
  using assms
proof (induction "6 - scoreless_turns g" arbitrary: g rule: less_induct)
  case less
  let ?p = "players g ! current_player_idx g"
  have i: "current_player_idx g < length (players g)" using less.prems by (auto simp: game_ok_def game_base_def seat_ok_def)
  then have none: "pass_refused (player_id ?p) g = None" using less.prems by (simp add: pass_refused_None)
  let ?g' = "snd (pass_turn plain_env (player_id ?p) False g)"
  have pf: "fst (pass_turn plain_env (player_id ?p) False g) = Done (ascii ''Passz.'')" "scoreless_turns ?g' = scoreless_turns g + 1"
    "finished ?g' \<longleftrightarrow> scoreless_turns g + 1 = 6" "puzzle ?g' = None" "map player_id (players ?g') = map player_id (players g)"
    using pass_turn_facts [OF less.prems(1) none, of plain_env False] less.prems(4) by (simp_all add: SCORELESS_TURNS_LIMIT_def)
  have step: "game_step g (Pass (player_id ?p) False) ?g'"
    using pf(1) by (intro game_step.pass [of plain_env _ False g "ascii ''Passz.''"]) (simp add: prod_eq_iff)
  have run: "game_run g [Pass (player_id ?p) False] ?g'" using game_run_snoc [OF game_run_nil step] by simp
  have lim: "scoreless_turns g < 6" using less.prems by (simp add: game_ok_def SCORELESS_TURNS_LIMIT_def)
  show ?case
  proof (cases "finished ?g'")
    case True
    then show ?thesis using run lim by (intro exI [of _ "[Pass (player_id ?p) False]"] exI [of _ ?g']) auto
  next
    case False
    have ok: "game_ok ?g'" using game_step_preserves(1) [OF step less.prems(1)] .
    have "pending_challenge ?g' = None" using none less.prems(3) by (simp add: pass_keeps_pending)
    moreover have "players ?g' \<noteq> []" using pf(5) less.prems(5) by (metis map_is_Nil_conv)
    moreover have "6 - scoreless_turns ?g' < 6 - scoreless_turns g" using pf(2) lim by linarith
    ultimately obtain evs g'' where r: "length evs \<le> 6 - scoreless_turns ?g'" "\<forall>ev\<in>set evs. \<exists>pid. ev = Pass pid False"
      "game_run ?g' evs g''" "finished g''"
      using less.hyps [OF _ ok False _ pf(4)] by blast
    have "game_run g ([Pass (player_id ?p) False] @ evs) g''" by (rule steps_append [OF run r(3)])
    then show ?thesis using r pf(2) lim by (intro exI [of _ "[Pass (player_id ?p) False] @ evs"] exI [of _ g'']) auto
  qed
qed


lemma accept_keeps:
  "puzzle (finalize_accept e g) = puzzle g" "length (players (finalize_accept e g)) = length (players g)"
  "pending_challenge (finalize_accept e g) = None"
  by (simp_all add: finalize_accept_def Let_def announce_place_def split: option.split)

lemma reject_keeps:
  "puzzle (finalize_reject e g) = puzzle g" "length (players (finalize_reject e g)) = length (players g)"
  "pending_challenge (finalize_reject e g) = None"
  by (simp_all add: finalize_reject_def register_scoreless_turn_def return_tiles_def Let_def split: option.split)

lemma resolve_keeps:
  "puzzle (snd (resolve_and_finalize e g)) = puzzle g"
  "length (players (snd (resolve_and_finalize e g))) = length (players g)"
  "pending_challenge (snd (resolve_and_finalize e g)) = None"
  by (simp_all add: resolve_and_finalize_def accept_keeps reject_keeps)

text \<open>
  C14. No game can get stuck: from every state in which it is not over, at most seven operations that nobody
  can refuse lead to its end: the time limit of the vote that is pending, if any, and then passes of the
  players to move (a daily puzzle, which ends with its only placement, aside).
\<close>

theorem game_can_always_finish:
  assumes ok: "game_ok g" and going: "\<not> finished g" "puzzle g = None" "players g \<noteq> []"
  shows "\<exists>evs g'. length evs \<le> 7 \<and> (\<forall>ev\<in>set evs. ev = Timeout \<or> (\<exists>pid. ev = Pass pid False)) \<and> game_run g evs g' \<and> finished g'"
proof (cases "pending_challenge g")
  case None
  obtain evs g' where r: "length evs \<le> 6 - scoreless_turns g" "\<forall>ev\<in>set evs. \<exists>pid. ev = Pass pid False"
    "game_run g evs g'" "finished g'"
    using finish_by_passing [OF ok going(1) None going(2,3)] by blast
  then show ?thesis by (intro exI [of _ evs] exI [of _ g']) auto
next
  case (Some pc)
  let ?g1 = "snd (resolve_and_finalize plain_env g)"
  obtain r where "accept_pending plain_env g = (Done r, ?g1)"
    using Some game_ok_placer_exists [OF ok] by (auto simp: accept_pending_def case_prod_beta)
  then have step: "game_step g Timeout ?g1" by (rule game_step.timeout)
  then have run: "game_run g [Timeout] ?g1" using game_run_snoc [OF game_run_nil step] by simp
  have ok1: "game_ok ?g1" by (rule game_step_preserves(1) [OF step ok])
  have "length (players ?g1) \<noteq> 0" using going(3) by (simp add: resolve_keeps(2))
  then have keep: "puzzle ?g1 = None" "players ?g1 \<noteq> []" using going(2) by (simp_all add: resolve_keeps(1))
  show ?thesis
  proof (cases "finished ?g1")
    case True
    then show ?thesis using run by (intro exI [of _ "[Timeout]"] exI [of _ ?g1]) simp
  next
    case False
    obtain evs g' where r: "length evs \<le> 6 - scoreless_turns ?g1" "\<forall>ev\<in>set evs. \<exists>pid. ev = Pass pid False"
      "game_run ?g1 evs g'" "finished g'"
      using finish_by_passing [OF ok1 False resolve_keeps(3) keep] by blast
    have "game_run g ([Timeout] @ evs) g'" by (rule steps_append [OF run r(3)])
    then show ?thesis using r by (intro exI [of _ "[Timeout] @ evs"] exI [of _ g']) auto
  qed
qed

theorem game_can_always_finish_witness:
  "\<exists>evs g'. game_run (demo_game True) evs g' \<and> finished g'"
  using game_can_always_finish [OF demo_game_ok, of True] by (force simp: demo_game_def game_new_def)

end
