(* ===== verification/Vocabulary.thy ===== *)
theory Vocabulary
  imports Tiles "HOL-Library.List_Lexorder" "HOL-Library.Sublist"
begin

text \<open>
  The word list of the bots: \<^verbatim>\<open>Vocabulary\<close> of \<^verbatim>\<open>src/src/robot/ai.rs\<close>, a sorted list in one buffer
  with binary search for membership and prefixes. Offsets count characters here (bytes in the code)
  and are assumed to fit the 32 bits they are stored in.
\<close>

section \<open>The buffer\<close>

record vocabulary =
  v_data :: str
  v_offsets :: "nat list"

definition vocab_push :: "str \<Rightarrow> str \<times> nat list \<Rightarrow> str \<times> nat list" where
  "vocab_push w st = (case st of (data, offs) \<Rightarrow> (data @ w, offs @ [length data]))"

definition vocab_new :: "str list \<Rightarrow> vocabulary" where
  "vocab_new words =
     (let ws = remdups_adj (sort (map to_uppercase words)) in
      case fold vocab_push ws ([], []) of
        (data, offs) \<Rightarrow> \<lparr>v_data = data, v_offsets = offs @ [length data]\<rparr>)"

definition vocab_len :: "vocabulary \<Rightarrow> nat" where
  "vocab_len v = length (v_offsets v) - 1"

definition vocab_is_empty :: "vocabulary \<Rightarrow> bool" where
  "vocab_is_empty v \<longleftrightarrow> vocab_len v = 0"

definition vocab_word :: "vocabulary \<Rightarrow> nat \<Rightarrow> str" where
  "vocab_word v i = take (v_offsets v ! Suc i - v_offsets v ! i) (drop (v_offsets v ! i) (v_data v))"

definition vocab_iter :: "vocabulary \<Rightarrow> str list" where
  "vocab_iter v = map (vocab_word v) [0..<vocab_len v]"

section \<open>Search\<close>

function bisect :: "vocabulary \<Rightarrow> str \<Rightarrow> nat \<Rightarrow> nat \<Rightarrow> nat" where
  "bisect v key lo hi =
     (if lo < hi then
        let mid = (lo + hi) div 2
        in if vocab_word v mid < key then bisect v key (mid + 1) hi else bisect v key lo mid
      else lo)"
  by pat_completeness auto

termination
  by (relation "measure (\<lambda>(_, _, lo, hi). hi - lo)") auto

declare bisect.simps [simp del]

definition lower_bound :: "vocabulary \<Rightarrow> str \<Rightarrow> nat" where
  "lower_bound v key = bisect v key 0 (vocab_len v)"

definition has_prefix :: "vocabulary \<Rightarrow> str \<Rightarrow> bool" where
  "has_prefix v p \<longleftrightarrow>
     (let i = lower_bound v p in i < vocab_len v \<and> prefix p (vocab_word v i))"

definition vocab_contains :: "vocabulary \<Rightarrow> str \<Rightarrow> bool" where
  "vocab_contains v w \<longleftrightarrow>
     (let i = lower_bound v w in i < vocab_len v \<and> vocab_word v i = w)"

section \<open>The buffer holds the sorted words\<close>

lemma fold_vocab_push:
  "fold vocab_push ws (data, offs) =
     (data @ concat ws, offs @ map (\<lambda>i. length data + length (concat (take i ws))) [0..<length ws])"
proof (induction ws arbitrary: data offs)
  case (Cons w ws)
  have "[0..<Suc (length ws)] = 0 # map Suc [0..<length ws]" by (simp add: map_Suc_upt upt_conv_Cons del: upt_Suc)
  then show ?case by (simp add: vocab_push_def [of w "(data, offs)"] Cons.IH o_def add.assoc del: upt_Suc)
qed simp

definition buffer_of :: "str list \<Rightarrow> vocabulary" where
  "buffer_of ws = \<lparr>v_data = concat ws, v_offsets = map (\<lambda>i. length (concat (take i ws))) [0..<Suc (length ws)]\<rparr>"

lemma vocab_new_buffer: "vocab_new words = buffer_of (remdups_adj (sort (map to_uppercase words)))"
  by (simp add: vocab_new_def buffer_of_def fold_vocab_push Let_def)

lemma vocab_len_buffer [simp]: "vocab_len (buffer_of ws) = length ws"
  by (simp add: vocab_len_def buffer_of_def)

lemma vocab_word_buffer [simp]:
  assumes "i < length ws"
  shows "vocab_word (buffer_of ws) i = ws ! i"
proof -
  have s: "concat (take (Suc i) ws) = concat (take i ws) @ ws ! i"
    using assms by (simp add: take_Suc_conv_app_nth)
  have ws: "concat ws = concat (take i ws) @ ws ! i @ concat (drop (Suc i) ws)"
    by (metis s append_assoc append_take_drop_id concat_append)
  have "v_offsets (buffer_of ws) ! i = length (concat (take i ws))"
    "v_offsets (buffer_of ws) ! Suc i = length (concat (take i ws)) + length (ws ! i)"
    using assms s by (simp_all add: buffer_of_def del: upt_Suc)
  then show ?thesis by (simp add: vocab_word_def) (simp add: buffer_of_def ws)
qed

section \<open>The search finds the first word not below the key\<close>

lemma bisect_between:
  assumes "sorted ws" "lo \<le> hi" "hi \<le> length ws"
    and "\<And>i. i < lo \<Longrightarrow> ws ! i < key" "\<And>i. hi \<le> i \<Longrightarrow> i < length ws \<Longrightarrow> key \<le> ws ! i"
  shows "bisect (buffer_of ws) key lo hi \<le> length ws
    \<and> (\<forall>i<bisect (buffer_of ws) key lo hi. ws ! i < key)
    \<and> (\<forall>i<length ws. bisect (buffer_of ws) key lo hi \<le> i \<longrightarrow> key \<le> ws ! i)"
  using assms(2-)
proof (induction "buffer_of ws" key lo hi rule: bisect.induct)
  case (1 key lo hi)
  let ?mid = "(lo + hi) div 2"
  show ?case
  proof (cases "lo < hi")
    case False
    then have "bisect (buffer_of ws) key lo hi = lo" by (simp add: bisect.simps)
    then show ?thesis using 1(3-) False by auto
  next
    case True
    then have mid: "lo \<le> ?mid" "?mid < hi" "?mid < length ws" using 1(4) by auto
    show ?thesis
    proof (cases "ws ! ?mid < key")
      case below: True
      then have b: "bisect (buffer_of ws) key lo hi = bisect (buffer_of ws) key (?mid + 1) hi"
        using True mid by (subst bisect.simps) (simp add: Let_def)
      have lo: "ws ! i < key" if "i < ?mid + 1" for i
        using sorted_nth_mono [OF assms(1), of i ?mid] that mid below by (simp add: order.strict_trans1)
      show ?thesis unfolding b
        by (rule 1(1) [OF True refl]) (use below mid 1(4,6) lo in simp_all)
    next
      case above: False
      then have b: "bisect (buffer_of ws) key lo hi = bisect (buffer_of ws) key lo ?mid"
        using True mid by (subst bisect.simps) (simp add: Let_def)
      have hi: "key \<le> ws ! i" if "?mid \<le> i" "i < length ws" for i
        using sorted_nth_mono [OF assms(1), of ?mid i] that above by (meson linorder_not_less order_trans)
      show ?thesis unfolding b
        by (rule 1(2) [OF True refl]) (use above mid 1(5) hi in simp_all)
    qed
  qed
qed

lemma lower_bound_buffer:
  assumes "sorted ws"
  shows "lower_bound (buffer_of ws) key \<le> length ws"
    "i < lower_bound (buffer_of ws) key \<Longrightarrow> ws ! i < key"
    "i < length ws \<Longrightarrow> lower_bound (buffer_of ws) key \<le> i \<Longrightarrow> key \<le> ws ! i"
  using bisect_between [OF assms, of 0 "length ws" key] by (simp_all add: lower_bound_def)

lemma contains_buffer:
  assumes "sorted ws"
  shows "vocab_contains (buffer_of ws) w \<longleftrightarrow> w \<in> set ws"
proof
  assume "w \<in> set ws"
  then obtain i where i: "i < length ws" "ws ! i = w" by (auto simp: in_set_conv_nth)
  let ?b = "lower_bound (buffer_of ws) w"
  have "?b \<le> i" using lower_bound_buffer(2) [OF assms, of i w] i by (cases "i < ?b") auto
  then have le: "w \<le> ws ! ?b" "ws ! ?b \<le> w"
    using lower_bound_buffer(3) [OF assms, of ?b w] sorted_nth_mono [OF assms, of ?b i] i by auto
  then have "ws ! ?b = w" by (rule order.antisym [rotated])
  then show "vocab_contains (buffer_of ws) w" using i \<open>?b \<le> i\<close> by (simp add: vocab_contains_def Let_def)
next
  assume "vocab_contains (buffer_of ws) w"
  then have "lower_bound (buffer_of ws) w < length ws" "ws ! lower_bound (buffer_of ws) w = w"
    by (auto simp: vocab_contains_def Let_def)
  then show "w \<in> set ws" by (metis nth_mem)
qed

text \<open>In the lexicographic order, what lies between a prefix and one of its extensions extends it too.\<close>

lemma le_append: "p \<le> p @ z" for p z :: str
  by (induction p) simp_all

lemma prefix_le: "prefix p w \<Longrightarrow> p \<le> w" for p w :: str
  by (auto simp: prefix_def le_append)

lemma between_append: "p \<le> u \<Longrightarrow> u \<le> p @ z \<Longrightarrow> prefix p u" for p u z :: str
proof (induction p arbitrary: u)
  case (Cons x p)
  then show ?case by (cases u) auto
qed simp

lemma prefix_between: "p \<le> u \<Longrightarrow> u \<le> w \<Longrightarrow> prefix p w \<Longrightarrow> prefix p u" for p u w :: str
  by (auto simp: prefix_def [of p w] between_append)

lemma has_prefix_buffer:
  assumes "sorted ws"
  shows "has_prefix (buffer_of ws) p \<longleftrightarrow> (\<exists>w\<in>set ws. prefix p w)"
proof
  assume "\<exists>w\<in>set ws. prefix p w"
  then obtain i where i: "i < length ws" "prefix p (ws ! i)" by (auto simp: in_set_conv_nth)
  let ?b = "lower_bound (buffer_of ws) p"
  have "p \<le> ws ! i" by (rule prefix_le [OF i(2)])
  then have "?b \<le> i" using lower_bound_buffer(2) [OF assms, of i p] by (cases "i < ?b") auto
  then have "p \<le> ws ! ?b" "ws ! ?b \<le> ws ! i"
    using lower_bound_buffer(3) [OF assms, of ?b p] sorted_nth_mono [OF assms] i by auto
  then have "prefix p (ws ! ?b)" using i(2) by (rule prefix_between)
  then show "has_prefix (buffer_of ws) p" using i \<open>?b \<le> i\<close> by (simp add: has_prefix_def Let_def)
qed (auto simp: has_prefix_def Let_def)

lemma distinct_remdups_adj_sorted: "sorted xs \<Longrightarrow> distinct (remdups_adj xs)" for xs :: "str list"
proof (induction xs rule: remdups_adj.induct)
  case (3 x y xs)
  then show ?case by (cases "x = y") (auto dest: order.antisym)
qed simp_all

lemma sorted_vocab: "sorted (remdups_adj (sort xs))" for xs :: "str list"
  by (simp add: sorted_remdups_adj)

text \<open>
  C40. The vocabulary answers like the set of its words, whatever their order and case: a text is
  contained exactly when it is the upper case of one of the words, and is a prefix exactly when one
  of them starts with it. The binary search over the buffer is equal to searching the whole set.
\<close>

theorem vocabulary_is_the_word_set:
  "(vocab_contains (vocab_new words) w \<longleftrightarrow> w \<in> to_uppercase ` set words)
   \<and> (has_prefix (vocab_new words) p \<longleftrightarrow> (\<exists>u\<in>to_uppercase ` set words. prefix p u))
   \<and> set (vocab_iter (vocab_new words)) = to_uppercase ` set words
   \<and> distinct (vocab_iter (vocab_new words))"
proof -
  let ?ws = "remdups_adj (sort (map to_uppercase words))"
  have ws: "set ?ws = to_uppercase ` set words" by simp
  have "vocab_iter (vocab_new words) = map (\<lambda>i. ?ws ! i) [0..<length ?ws]"
    unfolding vocab_iter_def vocab_new_buffer vocab_len_buffer by (rule map_cong) simp_all
  then have iter: "vocab_iter (vocab_new words) = ?ws" by (simp add: map_nth)
  have "distinct ?ws" by (simp add: distinct_remdups_adj_sorted)
  then show ?thesis
    unfolding iter using contains_buffer [OF sorted_vocab] has_prefix_buffer [OF sorted_vocab]
    by (simp add: vocab_new_buffer)
qed

end
