(* ===== verification/BotSearch.thy ===== *)
theory BotSearch
  imports GameState Vocabulary "HOL-Library.Word"
begin

text \<open>
  The move search of the bots (\<^verbatim>\<open>src/src/robot/ai.rs\<close>): the cross-word masks, the anchors, the
  extension of prefixes to the right and to the left, and \<^verbatim>\<open>generate_moves\<close>. The clock is the
  argument \<open>late\<close>: whether the deadline has passed when the given tick is reached. The bulk check
  of the dictionary (\<^verbatim>\<open>filter_valid\<close>) is an argument too.
\<close>

unbundle bit_operations_syntax

section \<open>Moves, grids and contexts\<close>

record bot_move =
  m_tiles :: "placed list"
  m_words :: "str list"
  m_score :: int
  m_equity :: real

definition move_tiles_to_json :: "bot_move \<Rightarrow> json" where
  "move_tiles_to_json mv = JArr (map placed_to_json (m_tiles mv))"

type_synonym grid = "nat \<Rightarrow> nat \<Rightarrow> tile option"

type_synonym contexts = "((nat \<times> nat) \<times> (str \<times> str)) list"

type_synonym allowed = "((nat \<times> nat) \<times> 64 word) list"

text \<open>The letters right above and right below a square of a column, from top to bottom.\<close>

fun run_above :: "(nat \<Rightarrow> tile option) \<Rightarrow> nat \<Rightarrow> str" where
  "run_above column 0 = []"
| "run_above column (Suc r) =
     (case column r of Some t \<Rightarrow> run_above column r @ letter_of t | None \<Rightarrow> [])"

function run_below :: "(nat \<Rightarrow> tile option) \<Rightarrow> nat \<Rightarrow> str" where
  "run_below column r =
     (if r < BOARD_SIZE
      then (case column r of Some t \<Rightarrow> letter_of t @ run_below column (Suc r) | None \<Rightarrow> [])
      else [])"
  by pat_completeness auto

termination
  by (relation "measure (\<lambda>(_, r). BOARD_SIZE - r)") auto

declare run_below.simps [simp del]

text \<open>The squares of the board, row by row.\<close>

definition all_squares :: "(nat \<times> nat) list" where
  "all_squares = concat (map (\<lambda>r. map (Pair r) [0..<BOARD_SIZE]) [0..<BOARD_SIZE])"

definition contexts_of :: "grid \<Rightarrow> contexts" where
  "contexts_of g =
     List.map_filter (\<lambda>(r, c).
         if g r c \<noteq> None then None
         else
           let up = run_above (\<lambda>i. g i c) r; down = run_below (\<lambda>i. g i c) (Suc r)
           in if up \<noteq> [] \<or> down \<noteq> [] then Some ((r, c), (up, down)) else None)
       all_squares"

definition tile_bit :: "tile \<Rightarrow> 64 word" where
  "tile_bit t = push_bit (tile_index t) 1"

section \<open>The letters allowed by the cross words\<close>

type_synonym cross_entry = "(nat \<times> nat) \<times> tile \<times> str"

definition cross_entries :: "contexts \<Rightarrow> tile list \<Rightarrow> cross_entry list" where
  "cross_entries ctx ls =
     concat (map (\<lambda>(sq, (up, down)). map (\<lambda>l. (sq, l, up @ letter_of l @ down)) ls) ctx)"

definition mark_allowed :: "(str \<Rightarrow> bool) \<Rightarrow> cross_entry list \<Rightarrow> allowed \<Rightarrow> allowed" where
  "mark_allowed ok es masks =
     fold (\<lambda>(sq, l, w) m. if ok w then AList.map_default sq 0 (\<lambda>bits. bits OR tile_bit l) m else m) es masks"

definition allowed_letters ::
  "(str list \<Rightarrow> str set) \<Rightarrow> contexts \<times> contexts \<Rightarrow> tile list \<Rightarrow> vocabulary \<Rightarrow> allowed \<times> allowed" where
  "allowed_letters filter_valid ctxs ls vocab =
     (case ctxs of (ctx0, ctx1) \<Rightarrow>
        let es0 = cross_entries ctx0 ls; es1 = cross_entries ctx1 ls;
            unknown = filter (\<lambda>w. \<not> vocab_contains vocab w) (map (\<lambda>(_, _, w). w) (es0 @ es1));
            valid_unknown = (if unknown = [] then {} else filter_valid unknown);
            ok = (\<lambda>w. vocab_contains vocab w \<or> w \<in> valid_unknown);
            zero = map (\<lambda>(sq, _). (sq, 0))
        in (mark_allowed ok es0 (zero ctx0), mark_allowed ok es1 (zero ctx1)))"

section \<open>Anchors\<close>

definition has_neighbour :: "grid \<Rightarrow> nat \<Rightarrow> nat \<Rightarrow> bool" where
  "has_neighbour g r c \<longleftrightarrow>
     0 < r \<and> g (r - 1) c \<noteq> None \<or> Suc r < BOARD_SIZE \<and> g (Suc r) c \<noteq> None
     \<or> 0 < c \<and> g r (c - 1) \<noteq> None \<or> Suc c < BOARD_SIZE \<and> g r (Suc c) \<noteq> None"

definition anchors :: "grid \<Rightarrow> bool \<Rightarrow> (nat \<times> nat) list" where
  "anchors g empty_board =
     (if empty_board then [(CENTER, CENTER)]
      else filter (\<lambda>(r, c). g r c = None \<and> has_neighbour g r c) all_squares)"

section \<open>The search\<close>

record found =
  f_index :: "(placed list \<times> nat) list"
  f_list :: "placed list list"

record search_state =
  ticks :: nat
  s_found :: found

record searcher =
  s_vocab :: vocabulary
  s_allowed :: allowed
  s_transposed :: bool
  s_late :: "nat \<Rightarrow> bool"
  s_row :: "nat \<Rightarrow> tile option"
  s_r :: nat
  s_anchor :: nat
  s_rack_types :: "tile list"

text \<open>A result of the search: whether it may go on (otherwise it is out of time), and the state.\<close>

type_synonym search_result = "bool \<times> search_state"

definition tick :: "searcher \<Rightarrow> search_state \<Rightarrow> search_result" where
  "tick cf st =
     (let n = ticks st + 1
      in (\<not> (n mod 512 = 0 \<and> s_late cf n), st\<lparr>ticks := n\<rparr>))"

text \<open>A loop whose body may stop the whole search.\<close>

fun each :: "('a \<Rightarrow> 's \<Rightarrow> bool \<times> 's) \<Rightarrow> 'a list \<Rightarrow> 's \<Rightarrow> bool \<times> 's" where
  "each f [] s = (True, s)"
| "each f (x # xs) s = (case f x s of (go, s') \<Rightarrow> if go then each f xs s' else (False, s'))"

lemma each_cong [fundef_cong]:
  "xs = ys \<Longrightarrow> (\<And>x s. x \<in> set ys \<Longrightarrow> f x s = g x s) \<Longrightarrow> s = t \<Longrightarrow> each f xs s = each g ys t"
proof (induction xs arbitrary: ys s t)
  case (Cons x xs)
  then show ?case by (cases "g x t") auto
qed simp

definition and_then :: "bool \<times> 's \<Rightarrow> ('s \<Rightarrow> bool \<times> 's) \<Rightarrow> bool \<times> 's" where
  "and_then res k = (case res of (go, s) \<Rightarrow> if go then k s else (False, s))"

lemma and_then_cong [fundef_cong]:
  "res = res' \<Longrightarrow> (\<And>s. res' = (True, s) \<Longrightarrow> k s = k' s) \<Longrightarrow> and_then res k = and_then res' k'"
  by (cases res') (auto simp: and_then_def)

type_synonym laid = "nat \<times> tile \<times> bool"

definition laid_tile :: "searcher \<Rightarrow> laid \<Rightarrow> placed" where
  "laid_tile cf p =
     (case p of (col, letter, blank) \<Rightarrow>
        if s_transposed cf then Placed (int col) (int (s_r cf)) letter blank
        else Placed (int (s_r cf)) (int col) letter blank)"

definition record_found :: "searcher \<Rightarrow> laid list \<Rightarrow> search_state \<Rightarrow> search_state" where
  "record_found cf placed st =
     (let tiles = map (laid_tile cf) placed; key = sort tiles; fd = s_found st in
      if map_of (f_index fd) key \<noteq> None then st
      else st\<lparr>s_found := fd\<lparr>f_index := (key, length (f_list fd)) # f_index fd, f_list := f_list fd @ [tiles]\<rparr>\<rparr>)"

definition letter_allowed :: "searcher \<Rightarrow> nat \<Rightarrow> tile \<Rightarrow> bool" where
  "letter_allowed cf col letter \<longleftrightarrow>
     (case map_of (s_allowed cf) (s_r cf, col) of Some bits \<Rightarrow> bits AND tile_bit letter \<noteq> 0 | None \<Rightarrow> True)"

function extend_right ::
  "searcher \<Rightarrow> nat \<Rightarrow> laid list \<Rightarrow> nat \<Rightarrow> nat list \<Rightarrow> str \<Rightarrow> search_state \<Rightarrow> search_result" where
  "extend_right cf col placed free_blanks counts pre st =
     and_then (tick cf st) (\<lambda>st.
       if BOARD_SIZE \<le> col \<or> s_row cf col = None then
         let st1 = (if s_anchor cf < col \<and> 2 \<le> length pre \<and> vocab_contains (s_vocab cf) pre
                    then record_found cf placed st else st)
         in if BOARD_SIZE \<le> col then (True, st1)
            else
              and_then (each (\<lambda>letter s.
                  if counts ! tile_index letter = 0 \<or> \<not> letter_allowed cf col letter
                     \<or> \<not> has_prefix (s_vocab cf) (pre @ letter_of letter)
                  then (True, s)
                  else extend_right cf (Suc col) (placed @ [(col, letter, False)]) free_blanks
                         (counts[tile_index letter := counts ! tile_index letter - 1]) (pre @ letter_of letter) s)
                (s_rack_types cf) st1) (\<lambda>st2.
              if 0 < free_blanks then
                each (\<lambda>letter s.
                  if \<not> letter_allowed cf col letter \<or> \<not> has_prefix (s_vocab cf) (pre @ letter_of letter)
                  then (True, s)
                  else extend_right cf (Suc col) (placed @ [(col, letter, True)]) (free_blanks - 1) counts
                         (pre @ letter_of letter) s)
                  letters st2
              else (True, st2))
       else
         let pre' = pre @ letter_of (the (s_row cf col))
         in if has_prefix (s_vocab cf) pre' then extend_right cf (Suc col) placed free_blanks counts pre' st
            else (True, st))"
  by pat_completeness auto

termination
  by (relation "measure (\<lambda>(_, col, _). BOARD_SIZE - col)") auto

declare extend_right.simps [simp del]

function left_part ::
  "searcher \<Rightarrow> (tile \<times> bool) list \<Rightarrow> nat \<Rightarrow> nat \<Rightarrow> nat list \<Rightarrow> str \<Rightarrow> search_state \<Rightarrow> search_result" where
  "left_part cf left limit free_blanks counts pre st =
     and_then (tick cf st) (\<lambda>st.
     let placed = map (\<lambda>(i, (letter, blank)). (s_anchor cf - length left + i, letter, blank)) (List.enumerate 0 left)
     in and_then (extend_right cf (s_anchor cf) placed free_blanks counts pre st) (\<lambda>st1.
        if limit \<le> length left then (True, st1)
        else
          and_then (each (\<lambda>letter s.
              if counts ! tile_index letter = 0 \<or> \<not> has_prefix (s_vocab cf) (pre @ letter_of letter) then (True, s)
              else left_part cf (left @ [(letter, False)]) limit free_blanks
                     (counts[tile_index letter := counts ! tile_index letter - 1]) (pre @ letter_of letter) s)
            (s_rack_types cf) st1) (\<lambda>st2.
          if 0 < free_blanks then
            each (\<lambda>letter s.
              if \<not> has_prefix (s_vocab cf) (pre @ letter_of letter) then (True, s)
              else left_part cf (left @ [(letter, True)]) limit (free_blanks - 1) counts (pre @ letter_of letter) s)
              letters st2
          else (True, st2))))"
  by pat_completeness auto

termination
  by (relation "measure (\<lambda>(_, left, limit, _). limit - length left)") auto

declare left_part.simps [simp del]

section \<open>One direction\<close>

text \<open>The letters right before the anchor, and the empty squares that are no anchors before it.\<close>

fun run_start :: "(nat \<Rightarrow> tile option) \<Rightarrow> nat \<Rightarrow> nat" where
  "run_start row 0 = 0"
| "run_start row (Suc i) = (if row i \<noteq> None then run_start row i else Suc i)"

fun left_limit :: "(nat \<Rightarrow> tile option) \<Rightarrow> (nat \<Rightarrow> bool) \<Rightarrow> nat \<Rightarrow> nat \<Rightarrow> nat" where
  "left_limit row is_anchor limit 0 = limit"
| "left_limit row is_anchor limit (Suc cc) =
     (if row cc = None \<and> \<not> is_anchor cc \<and> limit < HAND_SIZE - 1
      then left_limit row is_anchor (limit + 1) cc else limit)"

definition search_anchor ::
  "grid \<Rightarrow> allowed \<Rightarrow> (nat \<times> nat) list \<Rightarrow> nat list \<Rightarrow> nat \<Rightarrow> vocabulary \<Rightarrow> (nat \<Rightarrow> bool) \<Rightarrow> bool
     \<Rightarrow> nat \<times> nat \<Rightarrow> search_state \<Rightarrow> search_result" where
  "search_anchor g masks anchor_list counts blanks vocab late transposed ra st =
     (case ra of (r, anchor) \<Rightarrow>
        let cf = \<lparr>s_vocab = vocab, s_allowed = masks, s_transposed = transposed, s_late = late, s_row = g r, s_r = r,
                  s_anchor = anchor, s_rack_types = map Tile (filter (\<lambda>i. 0 < counts ! i) [1..<39])\<rparr>;
            start = run_start (g r) anchor
        in if start < anchor then
             extend_right cf anchor [] blanks counts
               (concat (map (\<lambda>c. letter_of (the (g r c))) [start..<anchor])) st
           else
             left_part cf [] (left_limit (g r) (\<lambda>cc. (r, cc) \<in> set anchor_list) 0 anchor) blanks counts [] st)"

definition search ::
  "grid \<Rightarrow> allowed \<Rightarrow> (nat \<times> nat) list \<Rightarrow> nat list \<Rightarrow> nat \<Rightarrow> vocabulary \<Rightarrow> (nat \<Rightarrow> bool) \<Rightarrow> bool
     \<Rightarrow> search_state \<Rightarrow> search_result" where
  "search g masks anchor_list counts blanks vocab late transposed st =
     each (search_anchor g masks anchor_list counts blanks vocab late transposed) anchor_list st"

section \<open>All moves\<close>

definition rack_counts :: "tile list \<Rightarrow> nat list" where
  "rack_counts rack = map (\<lambda>i. if i = 0 then 0 else length (filter (\<lambda>t. tile_index t = i) rack)) [0..<39]"

definition rack_blanks :: "bool \<Rightarrow> tile list \<Rightarrow> nat" where
  "rack_blanks allow_blanks rack = (if allow_blanks then length (filter tile_is_blank rack) else 0)"

definition grid_of :: "board \<Rightarrow> grid" where
  "grid_of b r c = (if r < BOARD_SIZE \<and> c < BOARD_SIZE then map_option cell_letter (cells b r c) else None)"

definition found_tiles ::
  "(str list \<Rightarrow> str set) \<Rightarrow> (nat \<Rightarrow> bool) \<Rightarrow> board \<Rightarrow> tile list \<Rightarrow> vocabulary \<Rightarrow> bool \<Rightarrow> placed list list" where
  "found_tiles filter_valid late b rack vocab allow_blanks =
     (let counts = rack_counts rack; blanks = rack_blanks allow_blanks rack;
          g = grid_of b; tg = (\<lambda>c r. g r c);
          ls = (if 0 < blanks then letters else map Tile (filter (\<lambda>i. 0 < counts ! i) [1..<39]));
          masks = allowed_letters filter_valid (contexts_of g, contexts_of tg) ls vocab;
          st0 = \<lparr>ticks = 0, s_found = \<lparr>f_index = [], f_list = []\<rparr>\<rparr>;
          res = and_then (search g (fst masks) (anchors g (board_is_empty b)) counts blanks vocab late False st0) (\<lambda>st.
                  if \<not> board_is_empty b
                  then search tg (snd masks) (anchors tg False) counts blanks vocab late True st
                  else (True, st))
      in f_list (s_found (snd res)))"

definition score_move :: "board \<Rightarrow> nat \<Rightarrow> placed list \<Rightarrow> bot_move option" where
  "score_move b max_tiles tiles =
     (if max_tiles < length tiles then None
      else case validate_placement (\<lambda>_. (True, [])) b tiles True of
        Some (Inr formed) \<Rightarrow>
          let sc = sum_list (map (\<lambda>w. int (fw_score w)) formed)
                   + (if length tiles = HAND_SIZE then int BONUS_ALL_TILES else 0)
          in Some \<lparr>m_tiles = tiles, m_words = map fw_word formed, m_score = sc, m_equity = real_of_int sc\<rparr>
      | _ \<Rightarrow> None)"

definition generate_moves ::
  "(str list \<Rightarrow> str set) \<Rightarrow> (nat \<Rightarrow> bool) \<Rightarrow> board \<Rightarrow> tile list \<Rightarrow> vocabulary \<Rightarrow> bool \<Rightarrow> nat \<Rightarrow> bot_move list" where
  "generate_moves filter_valid late b rack vocab allow_blanks max_tiles =
     (if list_all (\<lambda>n. n = 0) (rack_counts rack) \<and> rack_blanks allow_blanks rack = 0 then []
      else List.map_filter (score_move b max_tiles) (found_tiles filter_valid late b rack vocab allow_blanks))"

end
