(* ===== verification/SearchRow.thy ===== *)
theory SearchRow
  imports BotSearch
begin

text \<open>
  What the recursive search of one row collects: exactly the plays that spell a word of the vocabulary with
  the tiles of the rack and the letters the cross words allow. The steps of the search are combined
  by a small logic: \<open>collects late f A\<close> states that \<open>f\<close> adds placements of \<open>A\<close> only, and all of
  them unless the time runs out.
\<close>

section \<open>The placements found so far\<close>

definition found_keys :: "search_state \<Rightarrow> placed multiset set" where
  "found_keys st = mset ` set (f_list (s_found st))"

definition found_ok :: "search_state \<Rightarrow> bool" where
  "found_ok st \<longleftrightarrow>
     (\<forall>ps. map_of (f_index (s_found st)) (sort ps) \<noteq> None \<longleftrightarrow> mset ps \<in> found_keys st)
     \<and> distinct (map mset (f_list (s_found st)))"

lemma sort_eq_iff: "sort ps = sort qs \<longleftrightarrow> mset ps = mset qs" for ps qs :: "placed list"
  by (metis mset_sort properties_for_sort sorted_sort)

lemma found_keys_ticks [simp]: "found_keys (st\<lparr>ticks := n\<rparr>) = found_keys st"
  by (simp add: found_keys_def)

lemma found_ok_ticks [simp]: "found_ok (st\<lparr>ticks := n\<rparr>) = found_ok st"
  by (simp add: found_ok_def)

lemma found_keys_record:
  "found_ok st \<Longrightarrow> found_keys (record_found cf placed st) = insert (mset (map (laid_tile cf) placed)) (found_keys st)"
  by (auto simp: record_found_def Let_def found_ok_def) (auto simp: found_keys_def)

lemma found_ok_record:
  assumes "found_ok st"
  shows "found_ok (record_found cf placed st)"
proof (cases "mset (map (laid_tile cf) placed) \<in> found_keys st")
  case True
  then have "record_found cf placed st = st" using assms by (simp add: record_found_def Let_def found_ok_def)
  then show ?thesis using assms by simp
next
  case False
  let ?ps = "map (laid_tile cf) placed" and ?st = "record_found cf placed st"
  have none: "map_of (f_index (s_found st)) (sort ?ps) = None"
    using False assms unfolding found_ok_def by blast
  have keys: "found_keys ?st = insert (mset ?ps) (found_keys st)" by (rule found_keys_record [OF assms])
  have idx: "f_index (s_found ?st) = (sort ?ps, length (f_list (s_found st))) # f_index (s_found st)"
    and lst: "f_list (s_found ?st) = f_list (s_found st) @ [?ps]"
    using none by (simp_all add: record_found_def Let_def)
  have "map_of (f_index (s_found ?st)) (sort qs) \<noteq> None \<longleftrightarrow> mset qs \<in> found_keys ?st" for qs
    using assms unfolding keys idx by (simp add: found_ok_def sort_eq_iff)
  moreover have "distinct (map mset (f_list (s_found ?st)))"
    using assms False unfolding lst by (simp add: found_ok_def found_keys_def)
  ultimately show ?thesis by (simp add: found_ok_def)
qed

section \<open>Steps that collect placements\<close>

definition collects :: "(nat \<Rightarrow> bool) \<Rightarrow> (search_state \<Rightarrow> search_result) \<Rightarrow> placed multiset set \<Rightarrow> bool" where
  "collects late f A \<longleftrightarrow>
     (\<forall>st. found_ok st \<longrightarrow>
        found_ok (snd (f st)) \<and> found_keys st \<subseteq> found_keys (snd (f st))
        \<and> found_keys (snd (f st)) \<subseteq> found_keys st \<union> A
        \<and> (fst (f st) \<longrightarrow> A \<subseteq> found_keys (snd (f st)))
        \<and> ((\<forall>n. \<not> late n) \<longrightarrow> fst (f st)))"

lemma collectsD:
  assumes "collects late f A" "found_ok st" "f st = (go, st')"
  shows "found_ok st'" "found_keys st \<subseteq> found_keys st'" "found_keys st' \<subseteq> found_keys st \<union> A"
    "go \<Longrightarrow> A \<subseteq> found_keys st'" "\<forall>n. \<not> late n \<Longrightarrow> go"
  using assms(1)[unfolded collects_def, rule_format, OF assms(2)] assms(3) by auto

lemma collectsI:
  assumes "\<And>st go st'. found_ok st \<Longrightarrow> f st = (go, st') \<Longrightarrow>
      found_ok st' \<and> found_keys st \<subseteq> found_keys st' \<and> found_keys st' \<subseteq> found_keys st \<union> A
      \<and> (go \<longrightarrow> A \<subseteq> found_keys st') \<and> ((\<forall>n. \<not> late n) \<longrightarrow> go)"
  shows "collects late f A"
  unfolding collects_def using assms [OF _ prod.collapse [symmetric]] by blast

lemma collects_tick: "collects (s_late cf) (tick cf) {}"
  by (rule collectsI) (auto simp: tick_def Let_def)

lemma collects_skip [intro]: "collects late (Pair True) {}"
  by (rule collectsI) auto

lemma collects_record:
  "collects late (\<lambda>st. (True, if P then record_found cf placed st else st))
     (if P then {mset (map (laid_tile cf) placed)} else {})"
  by (rule collectsI) (auto simp: found_keys_record found_ok_record split: if_splits)

lemma collects_and_then:
  assumes f: "collects late f A" and g: "collects late g B"
  shows "collects late (\<lambda>st. and_then (f st) g) (A \<union> B)"
proof (rule collectsI)
  fix st go st' assume ok: "found_ok st" and st': "and_then (f st) g = (go, st')"
  obtain go1 st1 where f1: "f st = (go1, st1)" by (cases "f st")
  note F = collectsD [OF f ok f1]
  show "found_ok st' \<and> found_keys st \<subseteq> found_keys st' \<and> found_keys st' \<subseteq> found_keys st \<union> (A \<union> B)
      \<and> (go \<longrightarrow> A \<union> B \<subseteq> found_keys st') \<and> ((\<forall>n. \<not> late n) \<longrightarrow> go)"
  proof (cases go1)
    case True
    then have "g st1 = (go, st')" using st' f1 by (simp add: and_then_def)
    from collectsD [OF g F(1) this] F True show ?thesis by auto
  next
    case False
    then show ?thesis using st' f1 F by (auto simp: and_then_def)
  qed
qed

lemma collects_mono: "collects late f A \<Longrightarrow> A = B \<Longrightarrow> collects late f B"
  by simp

lemma each_Cons: "each F (x # xs) = (\<lambda>st. and_then (F x st) (each F xs))"
  by (rule ext) (simp add: and_then_def)

lemma each_Nil: "each F [] = Pair True"
  by (rule ext) simp

lemma collects_each:
  "(\<And>x. x \<in> set xs \<Longrightarrow> collects late (F x) (A x)) \<Longrightarrow> collects late (each F xs) (\<Union>x\<in>set xs. A x)"
proof (induction xs)
  case (Cons x xs)
  then show ?case unfolding each_Cons by (simp add: collects_and_then)
qed (auto simp: each_Nil)

lemma collects_if:
  "(P \<Longrightarrow> collects late f A) \<Longrightarrow> (\<not> P \<Longrightarrow> collects late g B) \<Longrightarrow>
     collects late (if P then f else g) (if P then A else B)"
  by simp

lemma and_then_True: "and_then (True, s) k = k s"
  by (simp add: and_then_def)

section \<open>The plays of a row\<close>

text \<open>\<open>path cf col ls pre w\<close>: from column \<open>col\<close>, with \<open>pre\<close> spelled so far, laying \<open>ls\<close> spells \<open>w\<close> up to the next gap.\<close>

inductive path :: "searcher \<Rightarrow> nat \<Rightarrow> laid list \<Rightarrow> str \<Rightarrow> str \<Rightarrow> bool" for cf where
  path_stop: "BOARD_SIZE \<le> col \<or> s_row cf col = None \<Longrightarrow> path cf col [] w w"
| path_old: "col < BOARD_SIZE \<Longrightarrow> s_row cf col = Some t \<Longrightarrow> path cf (Suc col) ls (pre @ letter_of t) w
    \<Longrightarrow> path cf col ls pre w"
| path_new: "col < BOARD_SIZE \<Longrightarrow> s_row cf col = None \<Longrightarrow> path cf (Suc col) ls (pre @ letter_of l) w
    \<Longrightarrow> path cf col ((col, l, blank) # ls) pre w"

lemma path_prefix: "path cf col ls pre w \<Longrightarrow> prefix pre w"
  by (induction rule: path.induct) (auto dest: append_prefixD)

lemma path_end: "BOARD_SIZE \<le> col \<Longrightarrow> path cf col ls pre w \<longleftrightarrow> ls = [] \<and> w = pre"
  by (auto elim: path.cases intro: path_stop)

lemma path_at_old:
  "col < BOARD_SIZE \<Longrightarrow> s_row cf col = Some t \<Longrightarrow> path cf col ls pre w \<longleftrightarrow> path cf (Suc col) ls (pre @ letter_of t) w"
  by (auto elim: path.cases intro: path_old)

lemma path_at_gap:
  "col < BOARD_SIZE \<Longrightarrow> s_row cf col = None \<Longrightarrow> path cf col ls pre w \<longleftrightarrow>
     ls = [] \<and> w = pre \<or> (\<exists>l blank ls'. ls = (col, l, blank) # ls' \<and> path cf (Suc col) ls' (pre @ letter_of l) w)"
  by (auto elim: path.cases intro: path_stop path_new)

text \<open>The tiles that the rack gives: \<open>counts\<close> of every letter, and \<open>free\<close> blanks for any letter.\<close>

fun affords :: "searcher \<Rightarrow> nat list \<Rightarrow> nat \<Rightarrow> laid list \<Rightarrow> bool" where
  "affords cf counts free [] \<longleftrightarrow> True"
| "affords cf counts free ((_, l, blank) # ls) \<longleftrightarrow>
     (if blank then l \<in> set letters \<and> 0 < free \<and> affords cf counts (free - 1) ls
      else l \<in> set (s_rack_types cf) \<and> counts ! tile_index l \<noteq> 0
        \<and> affords cf (counts[tile_index l := counts ! tile_index l - 1]) free ls)"

definition allowed_laid :: "searcher \<Rightarrow> laid list \<Rightarrow> bool" where
  "allowed_laid cf ls \<longleftrightarrow> (\<forall>(c, l, _)\<in>set ls. letter_allowed cf c l)"

lemma allowed_laid_simps [simp]:
  "allowed_laid cf []" "allowed_laid cf ((c, l, blank) # ls) \<longleftrightarrow> letter_allowed cf c l \<and> allowed_laid cf ls"
  by (auto simp: allowed_laid_def)

definition plays :: "searcher \<Rightarrow> nat \<Rightarrow> nat list \<Rightarrow> nat \<Rightarrow> str \<Rightarrow> laid list set" where
  "plays cf col counts free pre =
     {ls. \<exists>w. path cf col ls pre w \<and> 2 \<le> length w \<and> vocab_contains (s_vocab cf) w
            \<and> affords cf counts free ls \<and> allowed_laid cf ls}"

definition prefixes_ok :: "vocabulary \<Rightarrow> bool" where
  "prefixes_ok v \<longleftrightarrow> (\<forall>w p. vocab_contains v w \<longrightarrow> prefix p w \<longrightarrow> has_prefix v p)"

lemma prefixes_ok_new: "prefixes_ok (vocab_new ws)"
  unfolding prefixes_ok_def vocab_new_buffer
  by (auto simp: contains_buffer [OF sorted_vocab] has_prefix_buffer [OF sorted_vocab])

lemma plays_pruned:
  assumes "prefixes_ok (s_vocab cf)" "\<not> has_prefix (s_vocab cf) pre"
  shows "plays cf col counts free pre = {}"
  using assms path_prefix unfolding plays_def prefixes_ok_def by blast

lemma plays_end:
  assumes "BOARD_SIZE \<le> col"
  shows "plays cf col counts free pre = (if 2 \<le> length pre \<and> vocab_contains (s_vocab cf) pre then {[]} else {})"
  using path_end [OF assms] by (auto simp: plays_def)

lemma plays_old:
  assumes "col < BOARD_SIZE" "s_row cf col = Some t"
  shows "plays cf col counts free pre = plays cf (Suc col) counts free (pre @ letter_of t)"
  by (simp add: plays_def path_at_old [OF assms])

definition rack_plays :: "searcher \<Rightarrow> nat \<Rightarrow> nat list \<Rightarrow> nat \<Rightarrow> str \<Rightarrow> tile \<Rightarrow> laid list set" where
  "rack_plays cf col counts free pre l =
     (if counts ! tile_index l = 0 \<or> \<not> letter_allowed cf col l then {}
      else Cons (col, l, False) ` plays cf (Suc col) (counts[tile_index l := counts ! tile_index l - 1]) free (pre @ letter_of l))"

definition blank_plays :: "searcher \<Rightarrow> nat \<Rightarrow> nat list \<Rightarrow> nat \<Rightarrow> str \<Rightarrow> tile \<Rightarrow> laid list set" where
  "blank_plays cf col counts free pre l =
     (if \<not> letter_allowed cf col l then {}
      else Cons (col, l, True) ` plays cf (Suc col) counts (free - 1) (pre @ letter_of l))"

lemma mem_rack_plays:
  "x \<in> rack_plays cf col counts free pre l \<longleftrightarrow>
     (\<exists>ls. x = (col, l, False) # ls \<and> counts ! tile_index l \<noteq> 0 \<and> letter_allowed cf col l
        \<and> ls \<in> plays cf (Suc col) (counts[tile_index l := counts ! tile_index l - 1]) free (pre @ letter_of l))"
  by (auto simp: rack_plays_def)

lemma mem_blank_plays:
  "x \<in> blank_plays cf col counts free pre l \<longleftrightarrow>
     (\<exists>ls. x = (col, l, True) # ls \<and> letter_allowed cf col l
        \<and> ls \<in> plays cf (Suc col) counts (free - 1) (pre @ letter_of l))"
  by (auto simp: blank_plays_def)

lemma plays_gap:
  assumes "col < BOARD_SIZE" "s_row cf col = None"
  shows "plays cf col counts free pre =
    (if 2 \<le> length pre \<and> vocab_contains (s_vocab cf) pre then {[]} else {})
    \<union> (\<Union>l\<in>set (s_rack_types cf). rack_plays cf col counts free pre l)
    \<union> (if 0 < free then \<Union>l\<in>set letters. blank_plays cf col counts free pre l else {})" (is "_ = ?r")
proof (rule set_eqI)
  fix ls
  show "ls \<in> plays cf col counts free pre \<longleftrightarrow> ls \<in> ?r"
  proof (cases ls)
    case Nil
    then show ?thesis using assms
      by (auto simp: plays_def [of cf col] path_at_gap [OF assms] mem_rack_plays mem_blank_plays)
  next
    case (Cons x ls')
    obtain c l blank where x: "x = (c, l, blank)" by (cases x)
    show ?thesis unfolding Cons x
      by (cases blank) (auto simp: plays_def path_at_gap [OF assms] mem_rack_plays mem_blank_plays)
  qed
qed

text \<open>The placements of plays that follow what is laid already.\<close>

definition placements :: "searcher \<Rightarrow> laid list \<Rightarrow> laid list set \<Rightarrow> placed multiset set" where
  "placements cf placed A = (\<lambda>ls. mset (map (laid_tile cf) (placed @ ls))) ` A"

lemma placements_simps [simp]:
  "placements cf placed {} = {}"
  "placements cf placed (A \<union> B) = placements cf placed A \<union> placements cf placed B"
  "placements cf placed (\<Union>x\<in>X. F x) = (\<Union>x\<in>X. placements cf placed (F x))"
  "placements cf placed {[]} = {mset (map (laid_tile cf) placed)}"
  "placements cf placed (Cons x ` A) = placements cf (placed @ [x]) A"
  by (auto simp: placements_def image_Un image_UN image_image)

section \<open>Extending to the right\<close>

lemma if_Pair_eta: "(\<lambda>l s. if P l then (True, s) else f l s) = (\<lambda>l. if P l then Pair True else f l)"
  by (intro ext) simp

lemma extend_right_end:
  assumes "BOARD_SIZE \<le> col"
  shows "extend_right cf col placed free counts pre
    = (\<lambda>st. and_then (tick cf st) (\<lambda>st. (True,
        if s_anchor cf < col \<and> 2 \<le> length pre \<and> vocab_contains (s_vocab cf) pre then record_found cf placed st else st)))"
  using assms by (intro ext) (simp add: extend_right.simps)

lemma extend_right_old:
  assumes "col < BOARD_SIZE" "s_row cf col = Some t"
  shows "extend_right cf col placed free counts pre
    = (\<lambda>st. and_then (tick cf st)
        (if \<not> has_prefix (s_vocab cf) (pre @ letter_of t) then Pair True
         else extend_right cf (Suc col) placed free counts (pre @ letter_of t)))"
  using assms by (intro ext, subst extend_right.simps) (simp add: Let_def if_distrib [where f = "\<lambda>f. f _"] cong: if_cong)

definition rack_branch :: "searcher \<Rightarrow> nat \<Rightarrow> laid list \<Rightarrow> nat \<Rightarrow> nat list \<Rightarrow> str \<Rightarrow> tile \<Rightarrow> search_state \<Rightarrow> search_result" where
  "rack_branch cf col placed free counts pre l =
     (if counts ! tile_index l = 0 \<or> \<not> letter_allowed cf col l \<or> \<not> has_prefix (s_vocab cf) (pre @ letter_of l)
      then Pair True
      else extend_right cf (Suc col) (placed @ [(col, l, False)]) free
             (counts[tile_index l := counts ! tile_index l - 1]) (pre @ letter_of l))"

definition blank_branch :: "searcher \<Rightarrow> nat \<Rightarrow> laid list \<Rightarrow> nat \<Rightarrow> nat list \<Rightarrow> str \<Rightarrow> tile \<Rightarrow> search_state \<Rightarrow> search_result" where
  "blank_branch cf col placed free counts pre l =
     (if \<not> letter_allowed cf col l \<or> \<not> has_prefix (s_vocab cf) (pre @ letter_of l) then Pair True
      else extend_right cf (Suc col) (placed @ [(col, l, True)]) (free - 1) counts (pre @ letter_of l))"

lemma extend_right_gap:
  assumes "col < BOARD_SIZE" "s_row cf col = None"
  shows "extend_right cf col placed free counts pre
    = (\<lambda>st. and_then (tick cf st) (\<lambda>st. and_then
        (True, if s_anchor cf < col \<and> 2 \<le> length pre \<and> vocab_contains (s_vocab cf) pre then record_found cf placed st else st)
        (\<lambda>st. and_then (each (rack_branch cf col placed free counts pre) (s_rack_types cf) st)
          (if 0 < free then each (blank_branch cf col placed free counts pre) letters else Pair True))))"
  using assms
  by (intro ext, subst extend_right.simps)
    (simp add: Let_def and_then_True rack_branch_def [abs_def] blank_branch_def [abs_def] if_Pair_eta if_distrib [where f = "\<lambda>f. f _"] cong: if_cong)

lemma extend_right_collects:
  assumes v: "prefixes_ok (s_vocab cf)"
  shows "s_anchor cf < col \<or> s_anchor cf = col \<and> s_row cf col = None \<Longrightarrow> collects (s_late cf) (extend_right cf col placed free counts pre)
    (placements cf placed {ls \<in> plays cf col counts free pre. s_anchor cf < col \<or> ls \<noteq> []})"
proof (induction "BOARD_SIZE - col" arbitrary: col placed free counts pre)
  case 0
  then have "BOARD_SIZE \<le> col" by simp
  then show ?case unfolding extend_right_end [OF \<open>BOARD_SIZE \<le> col\<close>]
    by (intro collects_mono [OF collects_and_then [OF collects_tick collects_record]])
      (auto simp: plays_end placements_def)
next
  case (Suc n)
  then have col: "col < BOARD_SIZE" and n: "n = BOARD_SIZE - Suc col" by simp_all
  have IH: "collects (s_late cf) (extend_right cf (Suc col) placed' free' counts' pre')
      (placements cf placed' (plays cf (Suc col) counts' free' pre'))" for placed' free' counts' pre'
    using Suc.hyps(1) [OF n, of placed' free' counts' pre'] Suc.prems by (auto simp: less_Suc_eq)
  show ?case
  proof (cases "s_row cf col")
    case (Some t)
    have "collects (s_late cf) (if \<not> has_prefix (s_vocab cf) (pre @ letter_of t) then Pair True
         else extend_right cf (Suc col) placed free counts (pre @ letter_of t))
        (placements cf placed (plays cf col counts free pre))"
      using IH plays_pruned [OF v] by (auto simp: plays_old [OF col Some] collects_skip)
    then have "collects (s_late cf) (extend_right cf col placed free counts pre)
        ({} \<union> placements cf placed (plays cf col counts free pre))"
      unfolding extend_right_old [OF col Some] by (rule collects_and_then [OF collects_tick])
    moreover have "placements cf placed {ls \<in> plays cf col counts free pre. s_anchor cf < col \<or> ls \<noteq> []}
        = placements cf placed (plays cf col counts free pre)"
      using Suc.prems Some by simp
    ultimately show ?thesis by simp
  next
    case None
    have rack: "collects (s_late cf) (rack_branch cf col placed free counts pre l)
        (placements cf placed (rack_plays cf col counts free pre l))" for l
      using IH plays_pruned [OF v] by (auto simp: rack_branch_def rack_plays_def collects_skip)
    have blank: "collects (s_late cf) (blank_branch cf col placed free counts pre l)
        (placements cf placed (blank_plays cf col counts free pre l))" for l
      using IH plays_pruned [OF v] by (auto simp: blank_branch_def blank_plays_def collects_skip)
    have blanks: "collects (s_late cf) (if 0 < free then each (blank_branch cf col placed free counts pre) letters else Pair True)
        (if 0 < free then \<Union>l\<in>set letters. placements cf placed (blank_plays cf col counts free pre l) else {})"
      using collects_each [OF blank] by (auto simp: collects_skip)
    note all = collects_and_then [OF collects_tick
      collects_and_then [OF collects_record collects_and_then [OF collects_each [OF rack] blanks]]]
    show ?thesis unfolding extend_right_gap [OF col None]
    proof (rule collects_mono [OF all])
      have "{ls \<in> plays cf col counts free pre. s_anchor cf < col \<or> ls \<noteq> []} =
        (if s_anchor cf < col \<and> 2 \<le> length pre \<and> vocab_contains (s_vocab cf) pre then {[]} else {})
        \<union> (\<Union>l\<in>set (s_rack_types cf). rack_plays cf col counts free pre l)
        \<union> (if 0 < free then \<Union>l\<in>set letters. blank_plays cf col counts free pre l else {})"
        unfolding plays_gap [OF col None] by (auto simp: mem_rack_plays mem_blank_plays)
      then show "{} \<union> ((if s_anchor cf < col \<and> 2 \<le> length pre \<and> vocab_contains (s_vocab cf) pre
            then {mset (map (laid_tile cf) placed)} else {})
          \<union> ((\<Union>l\<in>set (s_rack_types cf). placements cf placed (rack_plays cf col counts free pre l))
            \<union> (if 0 < free then \<Union>l\<in>set letters. placements cf placed (blank_plays cf col counts free pre l) else {})))
        = placements cf placed {ls \<in> plays cf col counts free pre. s_anchor cf < col \<or> ls \<noteq> []}"
        by simp
    qed
  qed
qed

section \<open>The left part\<close>

definition place_left :: "searcher \<Rightarrow> (tile \<times> bool) list \<Rightarrow> laid list" where
  "place_left cf left = map (\<lambda>(i, (l, blank)). (s_anchor cf - length left + i, l, blank)) (List.enumerate 0 left)"

definition spell :: "(tile \<times> bool) list \<Rightarrow> str" where
  "spell ts = concat (map (\<lambda>(l, _). letter_of l) ts)"

lemma spell_simps [simp]: "spell [] = []" "spell ((l, blank) # ts) = letter_of l @ spell ts"
  by (simp_all add: spell_def)

text \<open>The plays with a left part: \<open>ts\<close> before the anchor, and \<open>ls\<close> from the anchor on.\<close>

definition left_plays ::
  "searcher \<Rightarrow> nat \<Rightarrow> nat \<Rightarrow> nat list \<Rightarrow> nat \<Rightarrow> str \<Rightarrow> ((tile \<times> bool) list \<times> laid list) set" where
  "left_plays cf k limit counts free pre =
     {(ts, ls). k + length ts \<le> limit \<and> ls \<noteq> []
        \<and> (\<exists>w. path cf (s_anchor cf) ls (pre @ spell ts) w \<and> 2 \<le> length w \<and> vocab_contains (s_vocab cf) w)
        \<and> affords cf counts free (map (Pair 0) ts @ ls) \<and> allowed_laid cf ls}"

definition left_placements ::
  "searcher \<Rightarrow> (tile \<times> bool) list \<Rightarrow> ((tile \<times> bool) list \<times> laid list) set \<Rightarrow> placed multiset set" where
  "left_placements cf left A = (\<lambda>(ts, ls). mset (map (laid_tile cf) (place_left cf (left @ ts) @ ls))) ` A"

definition longer :: "tile \<times> bool \<Rightarrow> ((tile \<times> bool) list \<times> laid list) set \<Rightarrow> ((tile \<times> bool) list \<times> laid list) set" where
  "longer x A = (\<lambda>(ts, ls). (x # ts, ls)) ` A"

lemma left_placements_simps [simp]:
  "left_placements cf left {} = {}"
  "left_placements cf left (A \<union> B) = left_placements cf left A \<union> left_placements cf left B"
  "left_placements cf left (\<Union>x\<in>X. F x) = (\<Union>x\<in>X. left_placements cf left (F x))"
  "left_placements cf left (Pair [] ` C) = placements cf (place_left cf left) C"
  "left_placements cf left (longer x A) = left_placements cf (left @ [x]) A"
  by (auto simp: left_placements_def placements_def longer_def image_Un image_UN image_image case_prod_unfold)

lemma longer_empty [simp]: "longer x {} = {}"
  by (simp add: longer_def)

lemma mem_longer: "(ts, ls) \<in> longer x A \<longleftrightarrow> (\<exists>ts'. ts = x # ts' \<and> (ts', ls) \<in> A)"
  by (auto simp: longer_def)

lemma left_plays_pruned:
  assumes "prefixes_ok (s_vocab cf)" "\<not> has_prefix (s_vocab cf) pre"
  shows "left_plays cf k limit counts free pre = {}"
proof -
  have "prefix pre w" if "path cf c ls (pre @ x) w" for c ls x w
    using path_prefix [OF that] by (rule append_prefixD)
  then show ?thesis using assms unfolding left_plays_def prefixes_ok_def by blast
qed

definition rack_left :: "searcher \<Rightarrow> nat \<Rightarrow> nat \<Rightarrow> nat list \<Rightarrow> nat \<Rightarrow> str \<Rightarrow> tile \<Rightarrow> ((tile \<times> bool) list \<times> laid list) set" where
  "rack_left cf k limit counts free pre l =
     (if counts ! tile_index l = 0 then {}
      else longer (l, False) (left_plays cf (Suc k) limit (counts[tile_index l := counts ! tile_index l - 1]) free (pre @ letter_of l)))"

definition blank_left :: "searcher \<Rightarrow> nat \<Rightarrow> nat \<Rightarrow> nat list \<Rightarrow> nat \<Rightarrow> str \<Rightarrow> tile \<Rightarrow> ((tile \<times> bool) list \<times> laid list) set" where
  "blank_left cf k limit counts free pre l =
     longer (l, True) (left_plays cf (Suc k) limit counts (free - 1) (pre @ letter_of l))"

lemma mem_rack_left:
  "(ts, ls) \<in> rack_left cf k limit counts free pre l \<longleftrightarrow>
     counts ! tile_index l \<noteq> 0 \<and> (\<exists>ts'. ts = (l, False) # ts' \<and>
       (ts', ls) \<in> left_plays cf (Suc k) limit (counts[tile_index l := counts ! tile_index l - 1]) free (pre @ letter_of l))"
  by (auto simp: rack_left_def mem_longer)

lemma mem_blank_left:
  "(ts, ls) \<in> blank_left cf k limit counts free pre l \<longleftrightarrow>
     (\<exists>ts'. ts = (l, True) # ts' \<and> (ts', ls) \<in> left_plays cf (Suc k) limit counts (free - 1) (pre @ letter_of l))"
  by (auto simp: blank_left_def mem_longer)

lemma mem_left_plays_Nil:
  assumes "k \<le> limit"
  shows "([], ls) \<in> left_plays cf k limit counts free pre \<longleftrightarrow> ls \<in> plays cf (s_anchor cf) counts free pre \<and> ls \<noteq> []"
  using assms by (auto simp: left_plays_def plays_def)

lemma left_plays_split:
  assumes "k \<le> limit"
  shows "left_plays cf k limit counts free pre =
    Pair [] ` {ls \<in> plays cf (s_anchor cf) counts free pre. ls \<noteq> []}
    \<union> (if limit \<le> k then {} else (\<Union>l\<in>set (s_rack_types cf). rack_left cf k limit counts free pre l)
         \<union> (if 0 < free then \<Union>l\<in>set letters. blank_left cf k limit counts free pre l else {}))" (is "_ = ?r")
proof (rule set_eqI)
  fix x :: "(tile \<times> bool) list \<times> laid list"
  obtain ts ls where x: "x = (ts, ls)" by (cases x)
  show "x \<in> left_plays cf k limit counts free pre \<longleftrightarrow> x \<in> ?r"
  proof (cases ts)
    case Nil
    then show ?thesis using mem_left_plays_Nil [OF assms] by (auto simp: x mem_rack_left mem_blank_left)
  next
    case (Cons y ts')
    obtain l blank where y: "y = (l, blank)" by (cases y)
    show ?thesis unfolding x Cons y
      by (cases blank) (auto simp: left_plays_def mem_rack_left mem_blank_left)
  qed
qed

definition rack_left_branch ::
  "searcher \<Rightarrow> (tile \<times> bool) list \<Rightarrow> nat \<Rightarrow> nat \<Rightarrow> nat list \<Rightarrow> str \<Rightarrow> tile \<Rightarrow> search_state \<Rightarrow> search_result" where
  "rack_left_branch cf left limit free counts pre l =
     (if counts ! tile_index l = 0 \<or> \<not> has_prefix (s_vocab cf) (pre @ letter_of l) then Pair True
      else left_part cf (left @ [(l, False)]) limit free
             (counts[tile_index l := counts ! tile_index l - 1]) (pre @ letter_of l))"

definition blank_left_branch ::
  "searcher \<Rightarrow> (tile \<times> bool) list \<Rightarrow> nat \<Rightarrow> nat \<Rightarrow> nat list \<Rightarrow> str \<Rightarrow> tile \<Rightarrow> search_state \<Rightarrow> search_result" where
  "blank_left_branch cf left limit free counts pre l =
     (if \<not> has_prefix (s_vocab cf) (pre @ letter_of l) then Pair True
      else left_part cf (left @ [(l, True)]) limit (free - 1) counts (pre @ letter_of l))"

lemma left_part_eq:
  "left_part cf left limit free counts pre
    = (\<lambda>st. and_then (tick cf st) (\<lambda>st. and_then (extend_right cf (s_anchor cf) (place_left cf left) free counts pre st)
        (if limit \<le> length left then Pair True
         else (\<lambda>st. and_then (each (rack_left_branch cf left limit free counts pre) (s_rack_types cf) st)
           (if 0 < free then each (blank_left_branch cf left limit free counts pre) letters else Pair True)))))"
  by (intro ext, subst left_part.simps)
    (simp add: Let_def place_left_def rack_left_branch_def [abs_def] blank_left_branch_def [abs_def] if_Pair_eta
      if_distrib [where f = "\<lambda>f. f _"] cong: if_cong)

lemma left_part_collects:
  assumes v: "prefixes_ok (s_vocab cf)" and gap: "s_row cf (s_anchor cf) = None"
  shows "length left \<le> limit \<Longrightarrow> collects (s_late cf) (left_part cf left limit free counts pre)
    (left_placements cf left (left_plays cf (length left) limit counts free pre))"
proof (induction "limit - length left" arbitrary: left free counts pre rule: less_induct)
  case less
  have right: "collects (s_late cf) (extend_right cf (s_anchor cf) (place_left cf left) free counts pre)
      (placements cf (place_left cf left) {ls \<in> plays cf (s_anchor cf) counts free pre. ls \<noteq> []})"
    using extend_right_collects [OF v, of "s_anchor cf"] gap by simp
  show ?case
  proof (cases "limit \<le> length left")
    case True
    have "collects (s_late cf) (left_part cf left limit free counts pre)
        ({} \<union> (placements cf (place_left cf left) {ls \<in> plays cf (s_anchor cf) counts free pre. ls \<noteq> []} \<union> {}))"
      unfolding left_part_eq if_P [OF True]
      by (intro collects_and_then collects_tick right collects_skip)
    then show ?thesis unfolding left_plays_split [OF less.prems] by (simp add: True)
  next
    case False
    then have shorter: "limit - Suc (length left) < limit - length left" "Suc (length left) \<le> limit" by simp_all
    have IH: "collects (s_late cf) (left_part cf (left @ [x]) limit free' counts' pre')
        (left_placements cf (left @ [x]) (left_plays cf (Suc (length left)) limit counts' free' pre'))"
      for x free' counts' pre'
      using less.hyps [of "left @ [x]" free' counts' pre'] shorter by simp
    have rack: "collects (s_late cf) (rack_left_branch cf left limit free counts pre l)
        (left_placements cf left (rack_left cf (length left) limit counts free pre l))" for l
      using IH left_plays_pruned [OF v] by (auto simp: rack_left_branch_def rack_left_def collects_skip)
    have blank: "collects (s_late cf) (blank_left_branch cf left limit free counts pre l)
        (left_placements cf left (blank_left cf (length left) limit counts free pre l))" for l
      using IH left_plays_pruned [OF v] by (auto simp: blank_left_branch_def blank_left_def collects_skip)
    have blanks: "collects (s_late cf) (if 0 < free then each (blank_left_branch cf left limit free counts pre) letters else Pair True)
        (if 0 < free then \<Union>l\<in>set letters. left_placements cf left (blank_left cf (length left) limit counts free pre l) else {})"
      using collects_each [OF blank] by (auto simp: collects_skip)
    note all = collects_and_then [OF collects_tick collects_and_then [OF right
      collects_and_then [OF collects_each [OF rack] blanks]]]
    show ?thesis unfolding left_part_eq if_not_P [OF False]
      by (rule collects_mono [OF all]) (simp add: left_plays_split [OF less.prems] False)
  qed
qed

end
