(* ===== verification/SearchLine.thy ===== *)
theory SearchLine
  imports SearchRow
begin

text \<open>
  The plays of a row in closed form: a play is a strictly increasing list of laid tiles without a gap, and
  its word is the text of the maximal run. The anchors split every play in one way: the part
  before its first anchor lies directly before it.
\<close>

section \<open>The row with the tiles laid\<close>

definition full_row :: "(nat \<Rightarrow> tile option) \<Rightarrow> laid list \<Rightarrow> nat \<Rightarrow> tile option" where
  "full_row row ls i = (case map_of (map (\<lambda>(c, l, _). (c, l)) ls) i of Some l \<Rightarrow> Some l | None \<Rightarrow> row i)"

definition columns :: "laid list \<Rightarrow> nat set" where
  "columns ls = fst ` set ls"

lemma columns_simps [simp]:
  "columns [] = {}" "columns ((c, x) # ls) = insert c (columns ls)" "columns (ls @ ls') = columns ls \<union> columns ls'"
  by (auto simp: columns_def)

definition gapless :: "(nat \<Rightarrow> tile option) \<Rightarrow> nat set \<Rightarrow> bool" where
  "gapless fr C \<longleftrightarrow> (\<forall>c\<in>C. \<forall>d\<in>C. \<forall>i. c \<le> i \<and> i \<le> d \<longrightarrow> fr i \<noteq> None)"

definition increasing :: "laid list \<Rightarrow> bool" where
  "increasing ls \<longleftrightarrow> sorted_wrt (<) (map fst ls)"

lemma increasing_simps [simp]:
  "increasing []" "increasing ((c, x) # ls) \<longleftrightarrow> (\<forall>d\<in>columns ls. c < d) \<and> increasing ls"
  by (auto simp: increasing_def columns_def)

lemma increasing_append:
  "increasing (ls @ ls') \<longleftrightarrow> increasing ls \<and> increasing ls' \<and> (\<forall>c\<in>columns ls. \<forall>d\<in>columns ls'. c < d)"
  by (auto simp: increasing_def columns_def sorted_wrt_append)

lemma full_row_Nil [simp]: "full_row row [] = row"
  by (rule ext) (simp add: full_row_def)

lemma full_row_out: "i \<notin> columns ls \<Longrightarrow> full_row row ls i = row i"
  by (induction ls) (auto simp: full_row_def)

lemma full_row_in: "i \<in> columns ls \<Longrightarrow> full_row row ls i \<noteq> None"
  by (induction ls) (auto simp: full_row_def split: option.splits)

lemma full_row_None_iff: "full_row row ls i = None \<longleftrightarrow> i \<notin> columns ls \<and> row i = None"
  by (metis full_row_in full_row_out)

lemma full_row_Cons: "full_row row ((c, l, blank) # ls) i = (if i = c then Some l else full_row row ls i)"
  by (simp add: full_row_def)

lemma full_row_append: "full_row row (ls @ ls') = full_row (full_row row ls') ls"
  by (rule ext) (simp add: full_row_def map_add_def split: option.split)

lemma run_below_cong: "(\<And>i. c \<le> i \<Longrightarrow> f i = g i) \<Longrightarrow> run_below f c = run_below g c"
proof (induction "BOARD_SIZE - c" arbitrary: c)
  case 0
  then show ?case by (simp add: run_below.simps)
next
  case (Suc n)
  have "run_below f (Suc c) = run_below g (Suc c)" using Suc by auto
  then show ?case using Suc.prems [of c] by (subst (1 2) run_below.simps) (simp split: option.split)
qed

lemma run_above_cong: "(\<And>i. i < c \<Longrightarrow> f i = g i) \<Longrightarrow> run_above f c = run_above g c"
  by (induction c) (auto split: option.split)

lemma run_below_None: "f c = None \<Longrightarrow> run_below f c = []"
  by (simp add: run_below.simps)

lemma run_below_Some: "c < BOARD_SIZE \<Longrightarrow> f c = Some t \<Longrightarrow> run_below f c = letter_of t @ run_below f (Suc c)"
  by (simp add: run_below.simps)

lemma path_iff:
  "col \<le> BOARD_SIZE \<Longrightarrow> path cf col ls pre w \<longleftrightarrow>
     increasing ls \<and> (\<forall>c\<in>columns ls. col \<le> c \<and> c < BOARD_SIZE \<and> s_row cf c = None)
     \<and> (\<forall>c\<in>columns ls. \<forall>i. col \<le> i \<and> i \<le> c \<longrightarrow> full_row (s_row cf) ls i \<noteq> None)
     \<and> w = pre @ run_below (full_row (s_row cf) ls) col"
proof (induction "BOARD_SIZE - col" arbitrary: col ls pre)
  case 0
  then have c: "col = BOARD_SIZE" by simp
  have "ls = []" if "\<forall>c\<in>columns ls. BOARD_SIZE \<le> c \<and> c < BOARD_SIZE" using that by (cases ls) auto
  then show ?case unfolding c by (auto simp: path_end run_below.simps)
next
  case (Suc n)
  then have col: "col < BOARD_SIZE" and n: "n = BOARD_SIZE - Suc col" "Suc col \<le> BOARD_SIZE" by simp_all
  note IH = Suc.hyps(1) [OF n]
  show ?case
  proof (cases "s_row cf col")
    case (Some t)
    have cols: "(\<forall>c\<in>columns ls. Suc col \<le> c \<and> c < BOARD_SIZE \<and> s_row cf c = None)
        \<longleftrightarrow> (\<forall>c\<in>columns ls. col \<le> c \<and> c < BOARD_SIZE \<and> s_row cf c = None)"
    proof -
      have "Suc col \<le> c" if "col \<le> c" "s_row cf c = None" for c
        using that Some by (cases "c = col") simp_all
      then show ?thesis using Suc_leD by blast
    qed
    have below: "run_below (full_row (s_row cf) ls) col = letter_of t @ run_below (full_row (s_row cf) ls) (Suc col)"
      if "col \<notin> columns ls"
      using col Some that by (simp add: run_below_Some full_row_out)
    have out: "col \<notin> columns ls" if "\<forall>c\<in>columns ls. col \<le> c \<and> c < BOARD_SIZE \<and> s_row cf c = None"
      using that Some by auto
    have gaps: "(\<forall>c\<in>columns ls. \<forall>i. Suc col \<le> i \<and> i \<le> c \<longrightarrow> full_row (s_row cf) ls i \<noteq> None)
        \<longleftrightarrow> (\<forall>c\<in>columns ls. \<forall>i. col \<le> i \<and> i \<le> c \<longrightarrow> full_row (s_row cf) ls i \<noteq> None)"
    proof -
      have "full_row (s_row cf) ls col \<noteq> None" using Some by (simp add: full_row_None_iff)
      then have "full_row (s_row cf) ls i \<noteq> None"
        if "\<forall>i. Suc col \<le> i \<and> i \<le> c \<longrightarrow> full_row (s_row cf) ls i \<noteq> None" "col \<le> i" "i \<le> c" for c i
        using that by (cases "i = col") (simp_all add: Suc_le_eq)
      moreover have "Suc col \<le> i \<and> i \<le> c \<Longrightarrow> col \<le> i \<and> i \<le> c" for i c :: nat by simp
      ultimately show ?thesis by (intro ball_cong refl iffI allI impI) blast+
    qed
    show ?thesis unfolding path_at_old [OF col Some] IH cols gaps using below out by auto
  next
    case None
    show ?thesis
    proof (cases ls)
      case Nil
      then show ?thesis by (simp add: path_at_gap [OF col None] run_below_None None)
    next
      case (Cons x ls')
      obtain c l blank where x: "x = (c, l, blank)" by (cases x)
      have here: "c = col" if "\<forall>d\<in>columns ls'. c < d" "\<forall>d\<in>columns ls. col \<le> d"
        "\<forall>d\<in>columns ls. \<forall>i. col \<le> i \<and> i \<le> d \<longrightarrow> full_row (s_row cf) ls i \<noteq> None"
      proof -
        have "full_row (s_row cf) ls col \<noteq> None" using that(2,3) by (auto simp: Cons x)
        then have "col \<in> columns ls" using None by (simp add: full_row_None_iff)
        then show ?thesis using that(1,2) by (auto simp: Cons x)
      qed
      have below: "run_below (full_row (s_row cf) ls) col = letter_of l @ run_below (full_row (s_row cf) ls') (Suc col)" if "c = col"
      proof -
        have "run_below (full_row (s_row cf) ls) (Suc col) = run_below (full_row (s_row cf) ls') (Suc col)"
          by (rule run_below_cong) (simp add: Cons x full_row_Cons that)
        then show ?thesis using col that by (simp add: run_below_Some Cons x full_row_Cons)
      qed
      show ?thesis unfolding path_at_gap [OF col None] IH
      proof
        assume "ls = [] \<and> w = pre \<or> (\<exists>l blank ls'. ls = (col, l, blank) # ls' \<and>
          increasing ls' \<and> (\<forall>c\<in>columns ls'. Suc col \<le> c \<and> c < BOARD_SIZE \<and> s_row cf c = None)
          \<and> (\<forall>c\<in>columns ls'. \<forall>i. Suc col \<le> i \<and> i \<le> c \<longrightarrow> full_row (s_row cf) ls' i \<noteq> None)
          \<and> w = (pre @ letter_of l) @ run_below (full_row (s_row cf) ls') (Suc col))"
        then show "increasing ls \<and> (\<forall>c\<in>columns ls. col \<le> c \<and> c < BOARD_SIZE \<and> s_row cf c = None)
          \<and> (\<forall>c\<in>columns ls. \<forall>i. col \<le> i \<and> i \<le> c \<longrightarrow> full_row (s_row cf) ls i \<noteq> None)
          \<and> w = pre @ run_below (full_row (s_row cf) ls) col"
          using below col None by (auto simp: Cons x full_row_Cons Suc_le_eq)
      next
        assume r: "increasing ls \<and> (\<forall>c\<in>columns ls. col \<le> c \<and> c < BOARD_SIZE \<and> s_row cf c = None)
          \<and> (\<forall>c\<in>columns ls. \<forall>i. col \<le> i \<and> i \<le> c \<longrightarrow> full_row (s_row cf) ls i \<noteq> None)
          \<and> w = pre @ run_below (full_row (s_row cf) ls) col"
        have c: "c = col" by (rule here) (use r in \<open>auto simp: Cons x\<close>)
        have "full_row (s_row cf) ls' i \<noteq> None" if "d \<in> columns ls'" "Suc col \<le> i" "i \<le> d" for d i
        proof -
          have "full_row (s_row cf) ls i \<noteq> None" using r that by (simp add: Cons x)
          then show ?thesis using that(2) by (simp add: Cons x c full_row_Cons)
        qed
        then show "ls = [] \<and> w = pre \<or> (\<exists>l blank ls'. ls = (col, l, blank) # ls' \<and>
          increasing ls' \<and> (\<forall>c\<in>columns ls'. Suc col \<le> c \<and> c < BOARD_SIZE \<and> s_row cf c = None)
          \<and> (\<forall>c\<in>columns ls'. \<forall>i. Suc col \<le> i \<and> i \<le> c \<longrightarrow> full_row (s_row cf) ls' i \<noteq> None)
          \<and> w = (pre @ letter_of l) @ run_below (full_row (s_row cf) ls') (Suc col))"
          using r below [OF c] by (auto simp: Cons x c Suc_le_eq)
      qed
    qed
  qed
qed

section \<open>The plays of a line and their first anchor\<close>

definition anchored_row :: "(nat \<Rightarrow> tile option) \<Rightarrow> (nat \<Rightarrow> bool) \<Rightarrow> bool" where
  "anchored_row row anch \<longleftrightarrow>
     (\<forall>c. row c = None \<and> c < BOARD_SIZE \<and> \<not> anch c \<longrightarrow> row (Suc c) = None \<and> (\<forall>d. c = Suc d \<longrightarrow> row d = None))"

definition line_word :: "(nat \<Rightarrow> tile option) \<Rightarrow> laid list \<Rightarrow> nat \<Rightarrow> str" where
  "line_word row lay a = run_above (full_row row lay) a @ run_below (full_row row lay) a"

definition line_plays :: "searcher \<Rightarrow> (nat \<Rightarrow> bool) \<Rightarrow> nat list \<Rightarrow> nat \<Rightarrow> laid list set" where
  "line_plays cf anch counts free =
     {lay. increasing lay \<and> (\<forall>c\<in>columns lay. c < BOARD_SIZE \<and> s_row cf c = None)
        \<and> s_anchor cf \<in> columns lay \<and> (\<forall>c\<in>columns lay. c < s_anchor cf \<longrightarrow> \<not> anch c)
        \<and> gapless (full_row (s_row cf) lay) (columns lay)
        \<and> 2 \<le> length (line_word (s_row cf) lay (s_anchor cf))
        \<and> vocab_contains (s_vocab cf) (line_word (s_row cf) lay (s_anchor cf))
        \<and> affords cf counts free lay
        \<and> (\<forall>(c, l, _)\<in>set lay. s_anchor cf \<le> c \<longrightarrow> letter_allowed cf c l)}"

definition anchor_plays :: "searcher \<Rightarrow> (nat \<Rightarrow> bool) \<Rightarrow> nat list \<Rightarrow> nat \<Rightarrow> laid list set" where
  "anchor_plays cf anch counts free =
     (let a = s_anchor cf; start = run_start (s_row cf) a in
      if start < a
      then {ls \<in> plays cf a counts free (concat (map (\<lambda>c. letter_of (the (s_row cf c))) [start..<a])). ls \<noteq> []}
      else (\<lambda>(ts, ls). place_left cf ts @ ls) ` left_plays cf 0 (left_limit (s_row cf) anch 0 a) counts free [])"

lemma run_start_le: "run_start row a \<le> a"
  by (induction a) auto

lemma run_start_less: "run_start row a < a \<longleftrightarrow> (\<exists>d. a = Suc d \<and> row d \<noteq> None)"
  using run_start_le [of row] by (cases a) (auto simp: less_Suc_eq_le)

lemma run_above_start: "run_above row a = concat (map (\<lambda>c. letter_of (the (row c))) [run_start row a..<a])"
  using run_start_le [of row] by (induction a) (auto split: option.split)

lemma affords_columns: "map snd ls = map snd ls' \<Longrightarrow> affords cf counts free ls = affords cf counts free ls'"
proof (induction cf counts free ls arbitrary: ls' rule: affords.induct)
  case (1 cf counts free)
  then show ?case by simp
next
  case (2 cf counts free c l blank ls)
  then obtain c' ls'' where ls': "ls' = (c', l, blank) # ls''" "map snd ls = map snd ls''" by auto
  show ?case using 2(1) [OF _ ls'(2)] 2(2) [OF _ ls'(2)] by (simp add: ls'(1))
qed

text \<open>Before the first anchor the tiles follow each other without letters between them.\<close>

lemma before_anchor:
  assumes "anchored_row row anch" "\<forall>c\<in>columns lay. c < BOARD_SIZE \<and> row c = None" "a \<in> columns lay"
    and "\<forall>c\<in>columns lay. c < a \<longrightarrow> \<not> anch c" "gapless (full_row row lay) (columns lay)"
    and "c \<in> columns lay" "c \<le> i" "i < a"
  shows "i \<in> columns lay"
  using assms(7,8)
proof (induction i rule: dec_induct)
  case (step i)
  then have i: "i \<in> columns lay" and "i < a" by simp_all
  have "row (Suc i) = None"
    using assms(1,2,4) i \<open>i < a\<close> unfolding anchored_row_def by blast
  moreover have "full_row row lay (Suc i) \<noteq> None"
    using assms(3,5) i step.prems unfolding gapless_def by (metis le_SucI less_or_eq_imp_le order_refl)
  ultimately show ?case by (simp add: full_row_None_iff)
qed (rule assms(6))

lemma anchor_in:
  assumes "row a = None" "ls \<noteq> []" "\<forall>c\<in>columns ls. a \<le> c"
    and "\<forall>c\<in>columns ls. \<forall>i. a \<le> i \<and> i \<le> c \<longrightarrow> full_row row ls i \<noteq> None"
  shows "a \<in> columns ls"
proof -
  have "columns ls \<noteq> {}" using assms(2) by (simp add: columns_def)
  then obtain c where "c \<in> columns ls" by blast
  then have "full_row row ls a \<noteq> None" using assms(3,4) by blast
  then show ?thesis using assms(1) by (simp add: full_row_None_iff)
qed

lemma gapless_from:
  assumes "a \<in> C" "\<forall>c\<in>C. a \<le> c"
  shows "gapless fr C \<longleftrightarrow> (\<forall>c\<in>C. \<forall>i. a \<le> i \<and> i \<le> c \<longrightarrow> fr i \<noteq> None)"
  using assms unfolding gapless_def by (meson order_trans)

lemma fixed_left_plays:
  assumes anch: "anchored_row (s_row cf) anch" and a: "s_anchor cf < BOARD_SIZE" "s_row cf (s_anchor cf) = None"
    and old: "run_start (s_row cf) (s_anchor cf) < s_anchor cf"
  shows "anchor_plays cf anch counts free = line_plays cf anch counts free"
proof (rule set_eqI)
  fix ls
  let ?a = "s_anchor cf" and ?fr = "full_row (s_row cf) ls"
  let ?pre = "concat (map (\<lambda>c. letter_of (the (s_row cf c))) [run_start (s_row cf) (s_anchor cf)..<s_anchor cf])"
  have pre: "?pre = run_above ?fr ?a" if "\<forall>c\<in>columns ls. ?a \<le> c"
    unfolding run_above_start [symmetric]
    by (rule run_above_cong) (use that in \<open>auto simp: full_row_out not_le [symmetric]\<close>)
  obtain d where d: "?a = Suc d" "s_row cf d \<noteq> None" using old by (auto simp: run_start_less)
  have from_a: "?a \<le> c" if "ls \<in> line_plays cf anch counts free" "c \<in> columns ls" for c
  proof (rule ccontr)
    assume "\<not> ?a \<le> c"
    then have "d \<in> columns ls"
      using before_anchor [OF anch, of ls ?a c d] that d(1) by (auto simp: line_plays_def)
    then show False using that(1) d(2) by (auto simp: line_plays_def)
  qed
  have all: "(\<forall>(c, l, blank)\<in>set ls. ?a \<le> c \<longrightarrow> letter_allowed cf c l) \<longleftrightarrow> allowed_laid cf ls" if "\<forall>c\<in>columns ls. ?a \<le> c"
    using that by (fastforce simp: allowed_laid_def columns_def)
  have path: "ls \<in> anchor_plays cf anch counts free \<longleftrightarrow> ls \<noteq> [] \<and> increasing ls
      \<and> (\<forall>c\<in>columns ls. ?a \<le> c \<and> c < BOARD_SIZE \<and> s_row cf c = None)
      \<and> (\<forall>c\<in>columns ls. \<forall>i. ?a \<le> i \<and> i \<le> c \<longrightarrow> ?fr i \<noteq> None)
      \<and> 2 \<le> length (?pre @ run_below ?fr ?a) \<and> vocab_contains (s_vocab cf) (?pre @ run_below ?fr ?a)
      \<and> affords cf counts free ls \<and> allowed_laid cf ls"
    using a(1) old by (auto simp: anchor_plays_def Let_def plays_def path_iff)
  show "ls \<in> anchor_plays cf anch counts free \<longleftrightarrow> ls \<in> line_plays cf anch counts free"
  proof
    assume l: "ls \<in> anchor_plays cf anch counts free"
    then have from_a: "\<forall>c\<in>columns ls. ?a \<le> c" unfolding path by blast
    have in_a: "?a \<in> columns ls" using anchor_in [of "s_row cf" ?a ls] l a(2) unfolding path by blast
    have "\<forall>c\<in>columns ls. c < ?a \<longrightarrow> \<not> anch c" using from_a by (simp add: not_less [symmetric])
    then show "ls \<in> line_plays cf anch counts free"
      using l in_a unfolding path pre [OF from_a] line_plays_def line_word_def mem_Collect_eq
        gapless_from [OF in_a from_a] all [OF from_a] by blast
  next
    assume r: "ls \<in> line_plays cf anch counts free"
    then have ge: "\<forall>c\<in>columns ls. ?a \<le> c" using from_a by blast
    have in_a: "?a \<in> columns ls" using r by (simp add: line_plays_def)
    show "ls \<in> anchor_plays cf anch counts free"
      using r ge in_a unfolding path pre [OF ge] line_plays_def line_word_def mem_Collect_eq
        gapless_from [OF in_a ge] all [OF ge] by force
  qed
qed

text \<open>The left part in closed form: consecutive columns right before the anchor.\<close>

lemma place_left_enumerate: "place_left cf ts = List.enumerate (s_anchor cf - length ts) ts"
  by (rule nth_equalityI) (simp_all add: place_left_def nth_enumerate_eq case_prod_unfold)

lemma columns_enumerate: "columns (List.enumerate k ts) = {k..<k + length ts}"
  by (simp add: columns_def set_map [symmetric] map_fst_enumerate del: set_map)

lemma increasing_enumerate: "increasing (List.enumerate k ts)"
  by (simp add: increasing_def map_fst_enumerate)

lemma snd_enumerate: "map snd (List.enumerate k ts) = ts"
  by (rule nth_equalityI) (simp_all add: nth_enumerate_eq)

lemma run_above_enumerate:
  "run_above (full_row row (List.enumerate k ts)) (k + length ts) = run_above row k @ spell ts"
proof (induction ts arbitrary: row rule: rev_induct)
  case Nil
  then show ?case by simp
next
  case (snoc x ts)
  obtain l blank where x: "x = (l, blank)" by (cases x)
  let ?m = "k + length ts"
  let ?row = "full_row row [(?m, l, blank)]"
  have full: "full_row row (List.enumerate k (ts @ [(l, blank)])) = full_row ?row (List.enumerate k ts)"
    by (simp add: enumerate_append_eq full_row_append)
  have "full_row ?row (List.enumerate k ts) ?m = Some l"
    by (simp add: full_row_out columns_enumerate full_row_Cons)
  moreover have "run_above ?row k = run_above row k"
    by (rule run_above_cong) (simp add: full_row_Cons)
  ultimately show ?case
    by (simp add: full snoc.IH spell_def x)
qed

lemma run_above_place_left:
  assumes "length ts \<le> s_anchor cf" "\<forall>c\<in>columns ls. s_anchor cf \<le> c"
  shows "run_above (full_row row (place_left cf ts @ ls)) (s_anchor cf) = run_above row (s_anchor cf - length ts) @ spell ts"
proof -
  have "run_above (full_row row (place_left cf ts @ ls)) (s_anchor cf)
      = run_above (full_row row (List.enumerate (s_anchor cf - length ts) ts)) (s_anchor cf - length ts + length ts)"
    unfolding place_left_enumerate full_row_append le_add_diff_inverse2 [OF assms(1)]
  proof (rule run_above_cong)
    fix i assume "i < s_anchor cf"
    then have "full_row row ls i = row i" using assms(2) by (intro full_row_out) auto
    then show "full_row (full_row row ls) (List.enumerate (s_anchor cf - length ts) ts) i
        = full_row row (List.enumerate (s_anchor cf - length ts) ts) i"
      by (simp add: full_row_def [of "full_row row ls"] full_row_def [of row "List.enumerate _ _"] split: option.split)
  qed
  then show ?thesis using run_above_enumerate by simp
qed

lemma left_limit_free:
  "n \<le> left_limit row anch n a \<and> left_limit row anch n a - n \<le> a
   \<and> (\<forall>c. a - (left_limit row anch n a - n) \<le> c \<and> c < a \<longrightarrow> row c = None \<and> \<not> anch c)"
proof (induction a arbitrary: n)
  case (Suc cc)
  show ?case
  proof (cases "row cc = None \<and> \<not> anch cc \<and> n < HAND_SIZE - 1")
    case True
    let ?L = "left_limit row anch (n + 1) cc"
    have L: "left_limit row anch n (Suc cc) = ?L" using True by simp
    have "row c = None \<and> \<not> anch c" if "Suc cc - (?L - n) \<le> c" "c < Suc cc" for c
    proof (cases "c = cc")
      case False
      then have "cc - (?L - (n + 1)) \<le> c" "c < cc" using that by linarith+
      then show ?thesis using Suc.IH [of "n + 1"] by blast
    qed (use True in simp)
    moreover have "n \<le> ?L \<and> ?L - n \<le> Suc cc" using Suc.IH [of "n + 1"] by linarith
    ultimately show ?thesis unfolding L by blast
  next
    case False
    then have "left_limit row anch n (Suc cc) = n" by auto
    then show ?thesis by (simp only: diff_self_eq_0) auto
  qed
qed simp

lemma left_limit_ge:
  "m \<le> a \<Longrightarrow> \<forall>c. a - m \<le> c \<and> c < a \<longrightarrow> row c = None \<and> \<not> anch c \<Longrightarrow> n + m \<le> HAND_SIZE - 1
     \<Longrightarrow> n + m \<le> left_limit row anch n a"
proof (induction a arbitrary: n m)
  case (Suc cc)
  note prems = Suc.prems and IH = Suc.IH
  show ?case
  proof (cases m)
    case (Suc m')
    have "row cc = None \<and> \<not> anch cc" using prems(2) [rule_format, of cc] Suc by simp
    moreover have "(n + 1) + m' \<le> left_limit row anch (n + 1) cc"
    proof (rule IH)
      show "\<forall>c. cc - m' \<le> c \<and> c < cc \<longrightarrow> row c = None \<and> \<not> anch c"
      proof (intro allI impI)
        fix c assume "cc - m' \<le> c \<and> c < cc"
        then have "Suc cc - m \<le> c \<and> c < Suc cc" using Suc by simp
        then show "row c = None \<and> \<not> anch c" using prems(2) by blast
      qed
      show "m' \<le> cc" "n + 1 + m' \<le> HAND_SIZE - 1" using prems(1,3) Suc by simp_all
    qed
    ultimately show ?thesis using prems(3) Suc by simp
  next
    case 0
    have "n \<le> left_limit row anch n (Suc cc)" by (rule left_limit_free [THEN conjunct1])
    then show ?thesis unfolding 0 by (simp only: add_0_right)
  qed
qed simp

lemma increasing_interval:
  assumes "increasing ls" "columns ls = {m..<a}"
  shows "ls = List.enumerate m (map snd ls)" "m \<le> a \<Longrightarrow> length ls = a - m"
proof -
  have "sorted (map fst ls)" "distinct (map fst ls)"
    using assms(1) by (auto simp: increasing_def strict_sorted_iff)
  moreover have "set (map fst ls) = set [m..<a]" using assms(2) by (simp add: columns_def)
  ultimately have f: "map fst ls = [m..<a]" by (intro sorted_distinct_set_unique) simp_all
  from arg_cong [OF f, of length] have len: "length ls = a - m" by simp
  then show "m \<le> a \<Longrightarrow> length ls = a - m" .
  show "ls = List.enumerate m (map snd ls)"
  proof (cases "m \<le> a")
    case True
    then show ?thesis
      by (metis add.commute enumerate_eq_zip f le_add_diff_inverse2 len length_map zip_map_fst_snd)
  next
    case False
    then show ?thesis using len by simp
  qed
qed

lemma increasing_split:
  "increasing lay \<Longrightarrow> filter (\<lambda>x. fst x < a) lay @ filter (\<lambda>x. \<not> fst x < a) lay = lay"
proof (induction lay)
  case (Cons x lay)
  obtain c y where x: "x = (c, y)" by (cases x)
  have "filter (\<lambda>x. fst x < a) lay = []" if "\<not> c < a"
    using Cons.prems that by (auto simp: x filter_empty_conv columns_def)
  then show ?case using Cons by (auto simp: x)
qed simp

lemma increasing_filter: "increasing lay \<Longrightarrow> increasing (filter P lay)"
  by (simp add: increasing_def sorted_wrt_filter sorted_wrt_map)

lemma mem_anchor_plays_left:
  assumes "\<not> run_start (s_row cf) (s_anchor cf) < s_anchor cf" "s_anchor cf < BOARD_SIZE"
  shows "lay \<in> anchor_plays cf anch counts free \<longleftrightarrow>
    (\<exists>ts ls. lay = place_left cf ts @ ls \<and> length ts \<le> left_limit (s_row cf) anch 0 (s_anchor cf) \<and> ls \<noteq> []
       \<and> increasing ls \<and> (\<forall>c\<in>columns ls. s_anchor cf \<le> c \<and> c < BOARD_SIZE \<and> s_row cf c = None)
       \<and> (\<forall>c\<in>columns ls. \<forall>i. s_anchor cf \<le> i \<and> i \<le> c \<longrightarrow> full_row (s_row cf) ls i \<noteq> None)
       \<and> 2 \<le> length (spell ts @ run_below (full_row (s_row cf) ls) (s_anchor cf))
       \<and> vocab_contains (s_vocab cf) (spell ts @ run_below (full_row (s_row cf) ls) (s_anchor cf))
       \<and> affords cf counts free lay \<and> allowed_laid cf ls)"
proof -
  have aff: "affords cf counts free (map (Pair 0) ts @ ls) = affords cf counts free (place_left cf ts @ ls)" for ts ls
    by (rule affords_columns) (simp add: place_left_enumerate snd_enumerate o_def)
  show ?thesis
    unfolding anchor_plays_def Let_def if_not_P [OF assms(1)] left_plays_def path_iff [OF less_imp_le [OF assms(2)]] aff
    by (auto simp: image_iff)
qed

lemma run_above_gap: "\<forall>d. k = Suc d \<longrightarrow> row d = None \<Longrightarrow> run_above row k = []"
  by (cases k) auto

lemma full_row_right:
  assumes "\<forall>c\<in>columns E. c < i"
  shows "full_row row (E @ ls) i = full_row row ls i"
  unfolding full_row_append by (rule full_row_out) (use assms in auto)

lemma free_left_word:
  assumes anch: "anchored_row (s_row cf) anch" and a: "s_anchor cf < BOARD_SIZE"
    and free: "\<not> run_start (s_row cf) (s_anchor cf) < s_anchor cf"
    and ts: "length ts \<le> s_anchor cf" "\<forall>c. s_anchor cf - length ts \<le> c \<and> c < s_anchor cf \<longrightarrow> s_row cf c = None \<and> \<not> anch c"
    and ls: "\<forall>c\<in>columns ls. s_anchor cf \<le> c"
  shows "line_word (s_row cf) (place_left cf ts @ ls) (s_anchor cf) = spell ts @ run_below (full_row (s_row cf) ls) (s_anchor cf)"
proof -
  let ?a = "s_anchor cf" and ?k = "s_anchor cf - length ts"
  have "s_row cf d = None" if d: "?k = Suc d" for d
  proof (cases "ts = []")
    case True
    then show ?thesis using free d by (auto simp: run_start_less)
  next
    case False
    then have "?k < ?a" using d by (cases ts) auto
    then have "s_row cf ?k = None \<and> \<not> anch ?k" "?k < BOARD_SIZE" using ts(2) a by auto
    then show ?thesis using anch d unfolding anchored_row_def by blast
  qed
  then have "run_above (s_row cf) ?k = []" by (intro run_above_gap) blast
  moreover have "run_below (full_row (s_row cf) (place_left cf ts @ ls)) ?a = run_below (full_row (s_row cf) ls) ?a"
    by (rule run_below_cong, rule full_row_right) (use ts(1) in \<open>simp add: place_left_enumerate columns_enumerate\<close>)
  ultimately show ?thesis by (simp add: line_word_def run_above_place_left [OF ts(1) ls])
qed

lemma free_left_plays_sub:
  assumes anch: "anchored_row (s_row cf) anch" and a: "s_anchor cf < BOARD_SIZE" "s_row cf (s_anchor cf) = None"
    and free: "\<not> run_start (s_row cf) (s_anchor cf) < s_anchor cf"
    and lay: "lay \<in> anchor_plays cf anch counts fb"
  shows "lay \<in> line_plays cf anch counts fb"
proof -
  let ?a = "s_anchor cf"
  obtain ts ls where l: "lay = place_left cf ts @ ls" "length ts \<le> left_limit (s_row cf) anch 0 ?a" "ls \<noteq> []" "increasing ls"
    and cols: "\<forall>c\<in>columns ls. ?a \<le> c \<and> c < BOARD_SIZE \<and> s_row cf c = None"
    and gap: "\<forall>c\<in>columns ls. \<forall>i. ?a \<le> i \<and> i \<le> c \<longrightarrow> full_row (s_row cf) ls i \<noteq> None"
    and w: "2 \<le> length (spell ts @ run_below (full_row (s_row cf) ls) ?a)"
      "vocab_contains (s_vocab cf) (spell ts @ run_below (full_row (s_row cf) ls) ?a)"
    and aff: "affords cf counts fb lay" "allowed_laid cf ls"
    using lay unfolding mem_anchor_plays_left [OF free a(1)] by blast
  have ge: "\<forall>c\<in>columns ls. ?a \<le> c" using cols by blast
  have k: "length ts \<le> ?a" and sq: "\<forall>c. ?a - length ts \<le> c \<and> c < ?a \<longrightarrow> s_row cf c = None \<and> \<not> anch c"
    using left_limit_free [of 0 "s_row cf" anch ?a] l(2) by (simp, auto)
  have pl: "columns (place_left cf ts) = {?a - length ts..<?a}"
    using k by (simp add: place_left_enumerate columns_enumerate)
  have in_a: "?a \<in> columns ls" using anchor_in [of "s_row cf" ?a ls] a(2) l(3) ge gap by blast
  have inc: "increasing lay"
    using l(4) ge unfolding l(1) increasing_append pl by (auto simp: place_left_enumerate increasing_enumerate)
  have cells: "\<forall>c\<in>columns lay. c < BOARD_SIZE \<and> s_row cf c = None"
    using cols sq a(1) unfolding l(1) by (auto simp: pl)
  have before: "\<forall>c\<in>columns lay. c < ?a \<longrightarrow> \<not> anch c" using ge sq unfolding l(1) by (auto simp: pl not_less [symmetric])
  have gl: "gapless (full_row (s_row cf) lay) (columns lay)"
    unfolding gapless_def
  proof (intro ballI allI impI)
    fix c d i assume c: "c \<in> columns lay" and d: "d \<in> columns lay" and i: "c \<le> i \<and> i \<le> d"
    show "full_row (s_row cf) lay i \<noteq> None"
    proof (cases "i < ?a")
      case True
      then have "c \<in> columns (place_left cf ts)" using c i ge unfolding l(1) by (auto simp: not_less [symmetric])
      then have "i \<in> columns lay" using i True unfolding l(1) by (simp add: pl)
      then show ?thesis by (rule full_row_in)
    next
      case False
      then have "d \<in> columns ls" using d i unfolding l(1) by (auto simp: pl)
      then have "full_row (s_row cf) ls i \<noteq> None" using gap False i by simp
      then show ?thesis unfolding l(1) by (auto simp: full_row_None_iff)
    qed
  qed
  have word: "line_word (s_row cf) lay ?a = spell ts @ run_below (full_row (s_row cf) ls) ?a"
    unfolding l(1) by (rule free_left_word [OF anch a(1) free k sq ge])
  have "letter_allowed cf c x" if "(c, x, blank) \<in> set lay" "?a \<le> c" for c x blank
  proof -
    have "c \<notin> columns (place_left cf ts)" using that(2) by (simp add: pl)
    then have "(c, x, blank) \<in> set ls" using that(1) unfolding l(1) by (force simp: columns_def)
    then show ?thesis using aff(2) unfolding allowed_laid_def by auto
  qed
  moreover have "?a \<in> columns lay" using in_a by (simp add: l(1))
  ultimately show ?thesis
    using inc cells before gl w aff(1) unfolding line_plays_def mem_Collect_eq word by blast
qed

lemma free_left_plays_sup:
  assumes anch: "anchored_row (s_row cf) anch" and a: "s_anchor cf < BOARD_SIZE"
    and free: "\<not> run_start (s_row cf) (s_anchor cf) < s_anchor cf"
    and lay: "lay \<in> line_plays cf anch counts fb" "length lay \<le> HAND_SIZE"
  shows "lay \<in> anchor_plays cf anch counts fb"
proof -
  let ?a = "s_anchor cf"
  define E where "E = filter (\<lambda>x. fst x < s_anchor cf) lay"
  define ls where "ls = filter (\<lambda>x. \<not> fst x < s_anchor cf) lay"
  have inc: "increasing lay" and cells: "\<forall>c\<in>columns lay. c < BOARD_SIZE \<and> s_row cf c = None"
    and in_a: "?a \<in> columns lay" and before: "\<forall>c\<in>columns lay. c < ?a \<longrightarrow> \<not> anch c"
    and gl: "gapless (full_row (s_row cf) lay) (columns lay)"
    and w: "2 \<le> length (line_word (s_row cf) lay ?a)" "vocab_contains (s_vocab cf) (line_word (s_row cf) lay ?a)"
    and aff: "affords cf counts fb lay" and allowed: "\<forall>(c, l, blank)\<in>set lay. ?a \<le> c \<longrightarrow> letter_allowed cf c l"
    using lay(1) by (auto simp: line_plays_def)
  have split: "lay = E @ ls" unfolding E_def ls_def by (rule increasing_split [OF inc, symmetric])
  have cE: "columns E = {c \<in> columns lay. c < ?a}" and cls: "columns ls = {c \<in> columns lay. ?a \<le> c}"
    by (auto simp: E_def ls_def columns_def)
  obtain m where m: "columns E = {m..<?a}" "m \<le> ?a"
  proof (cases "E = []")
    case True
    then show ?thesis using that [of ?a] by simp
  next
    case False
    then obtain c x E' where E: "E = (c, x) # E'" by (cases E) auto
    have incE: "increasing E" unfolding E_def by (rule increasing_filter [OF inc])
    have c: "c \<in> columns lay" "c < ?a" using cE E by auto
    have "i \<in> columns lay" if "c \<le> i" "i < ?a" for i
      by (rule before_anchor [OF anch cells in_a before gl c(1) that])
    moreover have "c \<le> d" if "d \<in> columns E" for d using incE that by (auto simp: E intro: less_imp_le)
    ultimately have "columns E = {c..<?a}" using cE by auto
    then show ?thesis using that [of c] c(2) by simp
  qed
  have "increasing E" unfolding E_def by (rule increasing_filter [OF inc])
  then have E: "E = List.enumerate m (map snd E)" and lenE: "length E = ?a - m"
    using increasing_interval [OF _ m(1)] m(2) by simp_all
  let ?ts = "map snd E"
  have k: "length ?ts \<le> ?a" "?a - length ?ts = m" using lenE m(2) by simp_all
  have pl: "place_left cf ?ts = E" using E unfolding place_left_enumerate k(2) by simp
  have sq: "\<forall>c. ?a - length ?ts \<le> c \<and> c < ?a \<longrightarrow> s_row cf c = None \<and> \<not> anch c"
    unfolding k(2) using m(1) cE cells before by (auto simp: set_eq_iff)
  have ge: "\<forall>c\<in>columns ls. ?a \<le> c" using cls by simp
  have ne: "ls \<noteq> []" using in_a cls by auto
  then have "length ?ts \<le> HAND_SIZE - 1" using lay(2) by (cases ls) (simp_all add: split)
  then have lim: "length ?ts \<le> left_limit (s_row cf) anch 0 ?a"
    using left_limit_ge [OF k(1) sq, of 0] by simp
  have gap: "full_row (s_row cf) ls i \<noteq> None" if "c \<in> columns ls" "?a \<le> i" "i \<le> c" for c i
  proof -
    have "full_row (s_row cf) lay i \<noteq> None" using gl in_a that cls unfolding gapless_def by blast
    moreover have "i \<notin> columns E" using that(2) m(1) by simp
    ultimately show ?thesis by (simp add: split full_row_None_iff)
  qed
  have word: "line_word (s_row cf) lay ?a = spell ?ts @ run_below (full_row (s_row cf) ls) ?a"
    using free_left_word [OF anch a free k(1) sq ge] by (simp add: pl split [symmetric])
  have "increasing ls" "\<forall>c\<in>columns ls. ?a \<le> c \<and> c < BOARD_SIZE \<and> s_row cf c = None" "allowed_laid cf ls"
    using increasing_filter [OF inc] cells cls allowed by (auto simp: ls_def allowed_laid_def)
  then show ?thesis
    unfolding mem_anchor_plays_left [OF free a]
    using w aff gap ne lim by (intro exI [of _ ?ts] exI [of _ ls]) (simp add: word pl split [symmetric])
qed

end
