(* ===== verification/SearchBoard.thy ===== *)
theory SearchBoard
  imports SearchLine BoardProps
begin

text \<open>
  The move search on the board: the anchors and masks of both directions, and the declarative rule of
  what is found: legal placements with the tiles of the rack whose main word is in the vocabulary and whose
  cross words are valid.
\<close>

section \<open>The search over all anchors\<close>

definition anchor_searcher ::
  "grid \<Rightarrow> allowed \<Rightarrow> nat list \<Rightarrow> vocabulary \<Rightarrow> (nat \<Rightarrow> bool) \<Rightarrow> bool \<Rightarrow> nat \<times> nat \<Rightarrow> searcher" where
  "anchor_searcher g masks counts vocab late transposed ra =
     \<lparr>s_vocab = vocab, s_allowed = masks, s_transposed = transposed, s_late = late, s_row = g (fst ra), s_r = fst ra,
      s_anchor = snd ra, s_rack_types = map Tile (filter (\<lambda>i. 0 < counts ! i) [1..<39])\<rparr>"

lemma anchor_searcher_simps [simp]:
  "s_vocab (anchor_searcher g masks counts vocab late tr ra) = vocab"
  "s_allowed (anchor_searcher g masks counts vocab late tr ra) = masks"
  "s_transposed (anchor_searcher g masks counts vocab late tr ra) = tr"
  "s_late (anchor_searcher g masks counts vocab late tr ra) = late"
  "s_row (anchor_searcher g masks counts vocab late tr ra) = g (fst ra)"
  "s_r (anchor_searcher g masks counts vocab late tr ra) = fst ra"
  "s_anchor (anchor_searcher g masks counts vocab late tr ra) = snd ra"
  "s_rack_types (anchor_searcher g masks counts vocab late tr ra) = map Tile (filter (\<lambda>i. 0 < counts ! i) [1..<39])"
  by (simp_all add: anchor_searcher_def)

definition line_placements :: "searcher \<Rightarrow> laid list set \<Rightarrow> placed multiset set" where
  "line_placements cf A = (\<lambda>lay. mset (map (laid_tile cf) lay)) ` A"

lemma search_anchor_collects:
  assumes v: "prefixes_ok vocab" and gap: "g (fst ra) (snd ra) = None"
  shows "collects late (search_anchor g masks al counts blanks vocab late tr ra)
    (line_placements (anchor_searcher g masks counts vocab late tr ra)
      (anchor_plays (anchor_searcher g masks counts vocab late tr ra) (\<lambda>c. (fst ra, c) \<in> set al) counts blanks))"
proof -
  obtain r a where ra: "ra = (r, a)" by (cases ra)
  let ?cf = "anchor_searcher g masks counts vocab late tr ra"
  let ?pre = "concat (map (\<lambda>c. letter_of (the (g r c))) [run_start (g r) a..<a])"
  have cf: "prefixes_ok (s_vocab ?cf)" "s_row ?cf (s_anchor ?cf) = None" using v gap by simp_all
  show ?thesis
  proof (cases "run_start (g r) a < a")
    case True
    have "search_anchor g masks al counts blanks vocab late tr ra = extend_right ?cf a [] blanks counts ?pre"
      by (rule ext) (simp add: search_anchor_def ra anchor_searcher_def Let_def True)
    moreover have "line_placements ?cf (anchor_plays ?cf (\<lambda>c. (fst ra, c) \<in> set al) counts blanks)
        = placements ?cf [] {ls \<in> plays ?cf a counts blanks ?pre. ls \<noteq> []}"
      using True by (simp add: anchor_plays_def ra line_placements_def placements_def Let_def)
    ultimately show ?thesis
      using extend_right_collects [OF cf(1), of a "[]" blanks counts ?pre] cf(2) by (simp add: ra)
  next
    case False
    let ?L = "left_limit (g r) (\<lambda>c. (r, c) \<in> set al) 0 a"
    have "search_anchor g masks al counts blanks vocab late tr ra = left_part ?cf [] ?L blanks counts []"
      by (rule ext) (simp add: search_anchor_def ra anchor_searcher_def Let_def False)
    moreover have "line_placements ?cf (anchor_plays ?cf (\<lambda>c. (fst ra, c) \<in> set al) counts blanks)
        = left_placements ?cf [] (left_plays ?cf 0 ?L counts blanks [])"
      using False by (simp add: anchor_plays_def ra line_placements_def left_placements_def Let_def image_image case_prod_unfold)
    ultimately show ?thesis
      using left_part_collects [OF cf, of "[]" ?L blanks counts "[]"] by simp
  qed
qed

lemma search_collects:
  assumes "prefixes_ok vocab" "\<forall>(r, a)\<in>set al. g r a = None"
  shows "collects late (search g masks al counts blanks vocab late tr)
    (\<Union>ra\<in>set al. line_placements (anchor_searcher g masks counts vocab late tr ra)
      (anchor_plays (anchor_searcher g masks counts vocab late tr ra) (\<lambda>c. (fst ra, c) \<in> set al) counts blanks))"
proof -
  have "search g masks al counts blanks vocab late tr = each (search_anchor g masks al counts blanks vocab late tr) al"
    by (rule ext) (simp add: search_def)
  moreover have "g (fst ra) (snd ra) = None" if "ra \<in> set al" for ra using assms(2) that by (cases ra) auto
  ultimately show ?thesis
    by (simp only:) (intro collects_each search_anchor_collects assms(1), blast)
qed

section \<open>The two directions of a board\<close>

definition line_row :: "board \<Rightarrow> bool \<Rightarrow> grid" where
  "line_row b h r c = (if r < BOARD_SIZE \<and> c < BOARD_SIZE then map_option cell_letter (line_at b r h c) else None)"

lemma grid_of_rows: "grid_of b = line_row b True" "(\<lambda>c r. grid_of b r c) = line_row b False"
  by (intro ext; auto simp: grid_of_def line_row_def line_at_def)+

lemma line_row_turn: "line_row b h i c = line_row b (\<not> h) c i"
  by (auto simp: line_row_def line_at_def)

text \<open>Letters on the board are never blanks without a letter.\<close>

definition lettered :: "board \<Rightarrow> bool" where
  "lettered b \<longleftrightarrow> board_ok b \<and> (\<forall>r c x. cells b r c = Some x \<longrightarrow> cell_letter x \<in> set letters)"

lemma letter_nonempty: "t \<in> set letters \<Longrightarrow> letter_of t \<noteq> []"
  using tile_facts(1) [of t] by (auto simp: set_letters)

lemma line_at_bound: "board_ok b \<Longrightarrow> line_at b f h i \<noteq> None \<Longrightarrow> f < BOARD_SIZE \<and> i < BOARD_SIZE"
  by (cases h) (auto simp: board_ok_def line_at_def)

lemma line_row_eq: "board_ok b \<Longrightarrow> line_row b h r c = map_option cell_letter (line_at b r h c)"
  using line_at_bound [of b r h c] by (cases "line_at b r h c") (auto simp: line_row_def)

lemma line_row_letter: "lettered b \<Longrightarrow> line_row b h r c = Some t \<Longrightarrow> t \<in> set letters"
  by (cases h) (auto simp: lettered_def line_row_def line_at_def split: if_splits)

section \<open>The text of a run\<close>

definition run_text :: "board \<Rightarrow> bool \<Rightarrow> nat \<times> nat \<Rightarrow> str" where
  "run_text b h q = concat (map (\<lambda>rc. cell_text (cells b (fst rc) (snd rc))) (run b h q))"

definition letter_row :: "(nat \<Rightarrow> cell option) \<Rightarrow> nat \<Rightarrow> tile option" where
  "letter_row sq i = map_option cell_letter (sq i)"

lemma run_above_text:
  "run_above (letter_row sq) c = concat (map (\<lambda>i. cell_text (sq i)) [extend_start sq c..<c])"
  using extend_start_le [of sq] by (induction c) (auto simp: letter_row_def cell_text_def split: option.split)

lemma run_below_text:
  assumes "c < BOARD_SIZE" "sq c \<noteq> None"
  shows "run_below (letter_row sq) c = concat (map (\<lambda>i. cell_text (sq i)) [c..<Suc (extend_end sq c)])"
  using assms
proof (induction "BOARD_SIZE - c" arbitrary: c)
  case (Suc n)
  then obtain x where x: "sq c = Some x" by auto
  have head: "run_below (letter_row sq) c = cell_text (sq c) @ run_below (letter_row sq) (Suc c)"
    using Suc.prems(1) x by (simp add: run_below_Some letter_row_def cell_text_def)
  show ?case
  proof (cases "c < BOARD_SIZE - 1 \<and> sq (c + 1) \<noteq> None")
    case True
    then have e: "extend_end sq c = extend_end sq (Suc c)" by (subst extend_end.simps) simp
    have "Suc c \<le> extend_end sq (Suc c)" by (rule extend_end_ge)
    then have u: "[c..<Suc (extend_end sq c)] = c # [Suc c..<Suc (extend_end sq (Suc c))]"
      unfolding e by (simp add: upt_conv_Cons del: upt_Suc)
    have "run_below (letter_row sq) (Suc c) = concat (map (\<lambda>i. cell_text (sq i)) [Suc c..<Suc (extend_end sq (Suc c))])"
      by (rule Suc.hyps(1)) (use Suc True in auto)
    then show ?thesis unfolding head u by simp
  next
    case False
    then have e: "extend_end sq c = c" by (subst extend_end.simps) auto
    have "run_below (letter_row sq) (Suc c) = []"
      using False Suc.prems(1) by (subst run_below.simps) (auto simp: letter_row_def)
    then show ?thesis unfolding head e by simp
  qed
qed simp

lemma run_text_line:
  assumes "c < BOARD_SIZE" "line_at b r h c \<noteq> None"
  shows "run_text b h (line_pos r h c) = run_above (letter_row (line_at b r h)) c @ run_below (letter_row (line_at b r h)) c"
proof -
  let ?sq = "line_at b r h"
  have u: "[extend_start ?sq c..<Suc (extend_end ?sq c)] = [extend_start ?sq c..<c] @ [c..<Suc (extend_end ?sq c)]"
    using extend_start_le [of ?sq c] extend_end_ge [of c ?sq]
      upt_add_eq_append [of "extend_start ?sq c" c "Suc (extend_end ?sq c) - c"] by (simp del: upt_Suc)
  show ?thesis
    unfolding run_text_def run_def run_bounds_def find_word_bounds_def fst_conv snd_conv fixed_moving_line_pos u
      run_above_text run_below_text [of c ?sq, OF assms]
    by (simp add: line_at_line_pos o_def del: upt_Suc)
qed

lemma run_above_Nil: "\<forall>i t. R i = Some t \<longrightarrow> letter_of t \<noteq> [] \<Longrightarrow> run_above R c = [] \<longleftrightarrow> (\<forall>d. c = Suc d \<longrightarrow> R d = None)"
  by (cases c) (auto split: option.split)

lemma run_below_Nil:
  "\<forall>i t. R i = Some t \<longrightarrow> letter_of t \<noteq> [] \<Longrightarrow> run_below R c = [] \<longleftrightarrow> (c < BOARD_SIZE \<longrightarrow> R c = None)"
  by (subst run_below.simps) (auto split: option.split)

lemma length_run_line:
  assumes "c < BOARD_SIZE"
  shows "1 < length (run b h (line_pos r h c)) \<longleftrightarrow>
    (\<exists>d. c = Suc d \<and> line_at b r h d \<noteq> None) \<or> Suc c < BOARD_SIZE \<and> line_at b r h (Suc c) \<noteq> None"
proof -
  let ?sq = "line_at b r h"
  have len: "length (run b h (line_pos r h c)) = Suc (extend_end ?sq c) - extend_start ?sq c"
    by (simp add: run_def run_bounds_def find_word_bounds_def del: upt_Suc)
  have s: "extend_start ?sq c < c \<longleftrightarrow> (\<exists>d. c = Suc d \<and> ?sq d \<noteq> None)"
    using extend_start_le [of ?sq] by (cases c) (auto simp: less_Suc_eq_le)
  have e: "c < extend_end ?sq c \<longleftrightarrow> Suc c < BOARD_SIZE \<and> ?sq (Suc c) \<noteq> None"
    using extend_end_ge [of "Suc c" ?sq] assms by (subst extend_end.simps) (auto simp: less_diff_conv)
  show ?thesis unfolding len s [symmetric] e [symmetric]
    using extend_start_le [of ?sq c] extend_end_ge [of c ?sq] by linarith
qed

section \<open>The masks of the cross words\<close>

lemma all_squares_set: "(r, c) \<in> set all_squares \<longleftrightarrow> r < BOARD_SIZE \<and> c < BOARD_SIZE"
  by (auto simp: all_squares_def image_iff)

lemma distinct_all_squares: "distinct all_squares"
  by (simp add: all_squares_def BOARD_SIZE_def upt_rec)

lemma contexts_of_mem:
  "((r, c), (up, down)) \<in> set (contexts_of g) \<longleftrightarrow>
     r < BOARD_SIZE \<and> c < BOARD_SIZE \<and> g r c = None \<and> up = run_above (\<lambda>i. g i c) r \<and> down = run_below (\<lambda>i. g i c) (Suc r)
     \<and> (up \<noteq> [] \<or> down \<noteq> [])"
  unfolding contexts_of_def set_map_filter_eq mem_Collect_eq
  by (rule iffI, force simp: all_squares_set Let_def split: if_splits)
    (rule bexI [of _ "(r, c)"], auto simp: all_squares_set Let_def)

lemma bit_tile_bit: "bits AND tile_bit l \<noteq> 0 \<longleftrightarrow> bit bits (tile_index l)"
  by (simp add: tile_bit_def bit_iff_and_push_bit_not_eq_0)

lemma bit_or_tile_bit:
  "tile_index l < 64 \<Longrightarrow> bit (bits OR tile_bit l') (tile_index l) \<longleftrightarrow> bit bits (tile_index l) \<or> tile_index l' = tile_index l"
  by (auto simp: tile_bit_def bit_or_iff bit_exp_iff push_bit_of_1)

lemma map_of_map_default:
  "map_of (AList.map_default k v f m) k' = (if k' = k then Some (case map_of m k of None \<Rightarrow> v | Some x \<Rightarrow> f x) else map_of m k')"
  by (induction m) (auto split: option.split)

lemma mark_allowed_Cons:
  "mark_allowed ok ((sq, l, w) # es) m
     = mark_allowed ok es (if ok w then AList.map_default sq 0 (\<lambda>bits. bits OR tile_bit l) m else m)"
  by (simp add: mark_allowed_def)

lemma mark_allowed_None:
  "sq \<notin> fst ` set es \<Longrightarrow> map_of (mark_allowed ok es m) sq = map_of m sq"
proof (induction es arbitrary: m)
  case (Cons e es)
  then show ?case by (cases e) (simp add: mark_allowed_Cons map_of_map_default)
qed (simp add: mark_allowed_def)

lemma mark_allowed_Some:
  "map_of m sq = Some b0 \<Longrightarrow> tile_index l < 64 \<Longrightarrow>
     \<exists>bits. map_of (mark_allowed ok es m) sq = Some bits \<and>
       (bits AND tile_bit l \<noteq> 0 \<longleftrightarrow> b0 AND tile_bit l \<noteq> 0 \<or> (\<exists>l' w. (sq, l', w) \<in> set es \<and> ok w \<and> tile_index l' = tile_index l))"
proof (induction es arbitrary: m b0)
  case (Cons e es)
  obtain sq' l' w where e: "e = (sq', l', w)" by (cases e)
  show ?case
  proof (cases "ok w \<and> sq' = sq")
    case True
    then have "map_of (AList.map_default sq' 0 (\<lambda>bits. bits OR tile_bit l') m) sq = Some (b0 OR tile_bit l')"
      using Cons.prems(1) by (simp add: map_of_map_default)
    from Cons.IH [OF this Cons.prems(2)] True show ?thesis
      unfolding e mark_allowed_Cons bit_tile_bit bit_or_tile_bit [OF Cons.prems(2)] by auto
  next
    case False
    then have "map_of (if ok w then AList.map_default sq' 0 (\<lambda>bits. bits OR tile_bit l') m else m) sq = Some b0"
      using Cons.prems(1) by (auto simp: map_of_map_default)
    moreover have "(\<exists>l' w. (sq, l', w) \<in> set (e # es) \<and> ok w \<and> tile_index l' = tile_index l)
        \<longleftrightarrow> (\<exists>l' w. (sq, l', w) \<in> set es \<and> ok w \<and> tile_index l' = tile_index l)"
      using False unfolding e by auto
    ultimately show ?thesis
      using Cons.IH [OF _ Cons.prems(2)] unfolding e mark_allowed_Cons by simp
  qed
qed (simp add: mark_allowed_def)

lemma cross_entries_mem:
  "(sq, l, w) \<in> set (cross_entries ctx ls) \<longleftrightarrow>
     (\<exists>up down. (sq, (up, down)) \<in> set ctx \<and> l \<in> set ls \<and> w = up @ letter_of l @ down)"
proof (induction ctx)
  case (Cons x ctx)
  obtain sq' up' down' where x: "x = (sq', (up', down'))" by (cases x) auto
  have "cross_entries (x # ctx) ls = map (\<lambda>l. (sq', l, up' @ letter_of l @ down')) ls @ cross_entries ctx ls"
    by (simp add: cross_entries_def x)
  then show ?case using Cons by (auto simp: x)
qed (simp add: cross_entries_def)

text \<open>The letters the masks allow on an empty square, for the letters they were made for.\<close>

definition cross_ok :: "(str \<Rightarrow> bool) \<Rightarrow> grid \<Rightarrow> nat \<Rightarrow> nat \<Rightarrow> tile \<Rightarrow> bool" where
  "cross_ok ok g r c l \<longleftrightarrow>
     (let up = run_above (\<lambda>i. g i c) r; down = run_below (\<lambda>i. g i c) (Suc r)
      in up \<noteq> [] \<or> down \<noteq> [] \<longrightarrow> ok (up @ letter_of l @ down))"

lemma masks_iff:
  assumes "r < BOARD_SIZE" "c < BOARD_SIZE" "g r c = None" and l: "l \<in> set ls" "set ls \<subseteq> set letters"
    and masks: "s_allowed cf = mark_allowed ok (cross_entries (contexts_of g) ls) (map (\<lambda>(sq, _). (sq, 0)) (contexts_of g))"
    and r: "s_r cf = r"
  shows "letter_allowed cf c l \<longleftrightarrow> cross_ok ok g r c l"
proof -
  let ?ctx = "contexts_of g" and ?es = "cross_entries (contexts_of g) ls"
  let ?up = "run_above (\<lambda>i. g i c) r" and ?down = "run_below (\<lambda>i. g i c) (Suc r)"
  have idx: "tile_index l < 64" using l by (auto simp: set_letters tile_ok_def)
  have same: "l' = l" if "tile_index l' = tile_index l" for l' using that by (cases l; cases l') simp
  have es: "((r, c), l', w) \<in> set ?es \<longleftrightarrow> l' \<in> set ls \<and> ((r, c), (?up, ?down)) \<in> set ?ctx \<and> w = ?up @ letter_of l' @ ?down"
    for l' w
  proof -
    have "((r, c), l', w) \<in> set ?es \<longleftrightarrow> (\<exists>up down. ((r, c), (up, down)) \<in> set ?ctx \<and> l' \<in> set ls \<and> w = up @ letter_of l' @ down)"
      by (rule cross_entries_mem)
    then show ?thesis unfolding contexts_of_mem by blast
  qed
  show ?thesis
  proof (cases "?up \<noteq> [] \<or> ?down \<noteq> []")
    case True
    then have mem: "((r, c), (?up, ?down)) \<in> set ?ctx" using assms by (simp add: contexts_of_mem)
    have "(r, c) \<in> fst ` set (map (\<lambda>(sq, _). (sq, 0 :: 64 word)) ?ctx)" using mem by force
    then have "\<exists>x. map_of (map (\<lambda>(sq, _). (sq, 0 :: 64 word)) ?ctx) (r, c) = Some x"
      by (metis map_of_eq_None_iff not_None_eq)
    moreover have "x = 0" if "map_of (map (\<lambda>(sq, _). (sq, 0 :: 64 word)) ?ctx) (r, c) = Some x" for x
      using map_of_SomeD [OF that] by auto
    ultimately have "map_of (map (\<lambda>(sq, _). (sq, 0 :: 64 word)) ?ctx) (r, c) = Some 0" by blast
    from mark_allowed_Some [OF this idx, of ok ?es] show ?thesis
      using True mem l(1) unfolding letter_allowed_def r masks cross_ok_def Let_def es by (auto dest: same)
  next
    case False
    then have none: "((r, c), x) \<notin> set ?ctx" for x by (cases x) (auto simp: contexts_of_mem)
    have "(r, c) \<notin> fst ` set ?es" using none by (auto simp: cross_entries_def)
    moreover have "map_of (map (\<lambda>(sq, _). (sq, 0 :: 64 word)) ?ctx) (r, c) = None"
      using none by (auto simp: map_of_eq_None_iff)
    ultimately show ?thesis
      using False unfolding letter_allowed_def r masks cross_ok_def Let_def by (simp add: mark_allowed_None)
  qed
qed

section \<open>Laying a line\<close>

definition laid_at :: "bool \<Rightarrow> nat \<Rightarrow> laid \<Rightarrow> placed" where
  "laid_at h r x = (case x of (c, l, blank) \<Rightarrow>
     if h then Placed (int r) (int c) l blank else Placed (int c) (int r) l blank)"

lemma laid_tile_at: "laid_tile cf = laid_at (\<not> s_transposed cf) (s_r cf)"
  by (rule ext) (simp add: laid_tile_def laid_at_def split: prod.split)

lemma laid_at_simps [simp]:
  "square_of (laid_at h r x) = line_pos r h (fst x)" "p_letter (laid_at h r x) = fst (snd x)"
  "p_blank (laid_at h r x) = snd (snd x)" "on_board (laid_at h r x) \<longleftrightarrow> r < BOARD_SIZE \<and> fst x < BOARD_SIZE"
  by (auto simp: laid_at_def square_of_def line_pos_def on_board_def split: prod.split)

lemma line_pos_eq_iff: "line_pos r h c = line_pos r h d \<longleftrightarrow> c = d"
  by (simp add: line_pos_def)

lemma squares_laid: "squares_of (map (laid_at h r) lay) = map (line_pos r h) (map fst lay)"
  by (simp add: squares_of_def)

lemma set_squares_laid: "set (squares_of (map (laid_at h r) lay)) = line_pos r h ` columns lay"
  by (simp add: squares_laid columns_def image_image)

lemma distinct_squares_laid: "increasing lay \<Longrightarrow> distinct (squares_of (map (laid_at h r) lay))"
  by (auto simp: squares_laid increasing_def strict_sorted_iff distinct_map inj_on_def line_pos_eq_iff)

lemma lay_tiles_perm:
  assumes "set ps = set qs" "distinct (squares_of ps)" "distinct (squares_of qs)"
  shows "lay_tiles ps b = lay_tiles qs b"
proof (rule board.equality)
  show "cells (lay_tiles ps b) = cells (lay_tiles qs b)"
  proof (intro ext)
    fix r c
    show "cells (lay_tiles ps b) r c = cells (lay_tiles qs b) r c"
    proof (cases "(r, c) \<in> square_of ` set ps")
      case True
      obtain p where p: "p \<in> set ps" "square_of p = (r, c)" "cells (lay_tiles ps b) r c = Some (Cell (p_letter p) (p_blank p))"
        using cells_lay_tiles_in [OF True] by blast
      obtain q where q: "q \<in> set qs" "square_of q = (r, c)" "cells (lay_tiles qs b) r c = Some (Cell (p_letter q) (p_blank q))"
        using cells_lay_tiles_in [of r c qs] True assms(1) by auto
      have "inj_on square_of (set ps)" using assms(2) by (simp add: squares_of_def distinct_map)
      moreover have "square_of p = square_of q" using p(2) q(2) by simp
      ultimately have "p = q" using p(1) q(1) unfolding assms(1) by (rule inj_onD)
      then show ?thesis using p(3) q(3) by simp
    next
      case False
      then show ?thesis using assms(1) by (simp add: cells_lay_tiles_other)
    qed
  qed
qed simp_all

lemma increasing_unique:
  "increasing lay \<Longrightarrow> (c, x) \<in> set lay \<Longrightarrow> (c, y) \<in> set lay \<Longrightarrow> x = y"
proof (induction lay)
  case (Cons z lay)
  then show ?case by (cases z) (auto simp: columns_def dest: bspec)
qed simp

lemma full_row_mem: "increasing lay \<Longrightarrow> (c, l, blank) \<in> set lay \<Longrightarrow> full_row row lay c = Some l"
proof (induction lay)
  case (Cons z lay)
  then show ?case by (cases z) (auto simp: columns_def full_row_Cons dest: bspec)
qed simp

text \<open>The cells of the line, and of the lines that cross it, once the play is laid.\<close>

lemma line_at_laid_in:
  assumes "increasing lay" "(c, l, blank) \<in> set lay"
  shows "line_at (lay_tiles (map (laid_at h r) lay) b) r h c = Some (Cell l blank)"
proof -
  have "(fst (line_pos r h c), snd (line_pos r h c)) \<in> square_of ` set (map (laid_at h r) lay)" using assms(2) by force
  from cells_lay_tiles_in [OF this, of b] obtain p where p: "p \<in> set (map (laid_at h r) lay)" "square_of p = line_pos r h c"
    "line_at (lay_tiles (map (laid_at h r) lay) b) r h c = Some (Cell (p_letter p) (p_blank p))"
    unfolding line_at_line_pos prod.collapse by blast
  then obtain y where y: "(c, y) \<in> set lay" "p = laid_at h r (c, y)" by (auto simp: line_pos_eq_iff)
  have "y = (l, blank)" by (rule increasing_unique [OF assms(1) y(1) assms(2)])
  then show ?thesis using p(3) y(2) by simp
qed

lemma line_at_laid_out:
  "c \<notin> columns lay \<Longrightarrow> line_at (lay_tiles (map (laid_at h r) lay) b) r h c = line_at b r h c"
  unfolding line_at_line_pos
  by (rule cells_lay_tiles_other) (force simp: columns_def line_pos_eq_iff)

lemma line_at_laid_other:
  "i \<noteq> r \<Longrightarrow> line_at (lay_tiles (map (laid_at h r) lay) b) i h c = line_at b i h c"
  unfolding line_at_line_pos
  by (rule cells_lay_tiles_other) (auto simp: line_pos_def)

lemma line_at_turn: "line_at b c (\<not> h) r = line_at b r h c"
  by (simp add: line_at_def)

lemma letter_row_laid:
  assumes "lettered b" "increasing lay"
  shows "letter_row (line_at (lay_tiles (map (laid_at h r) lay) b) r h) = full_row (line_row b h r) lay"
proof (rule ext)
  fix c
  show "letter_row (line_at (lay_tiles (map (laid_at h r) lay) b) r h) c = full_row (line_row b h r) lay c"
  proof (cases "c \<in> columns lay")
    case True
    then obtain l blank where "(c, l, blank) \<in> set lay" by (auto simp: columns_def)
    then show ?thesis by (simp add: letter_row_def line_at_laid_in [OF assms(2)] full_row_mem [OF assms(2)])
  next
    case False
    then show ?thesis using assms(1)
      by (simp add: letter_row_def line_at_laid_out full_row_out line_row_eq lettered_def)
  qed
qed

lemma letter_row_crossing:
  assumes "lettered b" "increasing lay" "(c, l, blank) \<in> set lay"
  shows "letter_row (line_at (lay_tiles (map (laid_at h r) lay) b) c (\<not> h)) i = (if i = r then Some l else line_row b h i c)"
  using assms line_at_laid_in [OF assms(2,3)]
  by (simp add: letter_row_def line_at_turn line_at_laid_other line_row_eq lettered_def)

lemma occupied_line_row: "board_ok b \<Longrightarrow> occupied b (line_pos r h c) \<longleftrightarrow> line_row b h r c \<noteq> None"
  by (simp add: occupied_line_pos line_row_eq)

lemma contiguous_laid:
  assumes "lettered b" "increasing lay"
  shows "contiguous (lay_tiles (map (laid_at h r) lay) b) h (squares_of (map (laid_at h r) lay))
    \<longleftrightarrow> gapless (full_row (line_row b h r) lay) (columns lay)"
proof -
  have "occupied (lay_tiles (map (laid_at h r) lay) b) (line_pos r h i) \<longleftrightarrow> full_row (line_row b h r) lay i \<noteq> None" for i
    unfolding letter_row_laid [OF assms, symmetric] by (simp add: occupied_line_pos letter_row_def)
  then show ?thesis unfolding contiguous_def gapless_def set_squares_laid by simp
qed

lemma aligned_laid: "aligned h (squares_of (map (laid_at h r) lay))"
  by (simp add: aligned_def set_squares_laid)

lemma main_text_laid:
  assumes "lettered b" "increasing lay" "c \<in> columns lay" "c < BOARD_SIZE"
  shows "run_text (lay_tiles (map (laid_at h r) lay) b) h (line_pos r h c) = line_word (line_row b h r) lay c"
proof -
  have "full_row (line_row b h r) lay c \<noteq> None" using assms(3) by (rule full_row_in)
  then have "line_at (lay_tiles (map (laid_at h r) lay) b) r h c \<noteq> None"
    unfolding letter_row_laid [OF assms(1,2), symmetric] by (simp add: letter_row_def)
  from run_text_line [OF assms(4) this] show ?thesis
    unfolding letter_row_laid [OF assms(1,2)] line_word_def .
qed

lemma cross_laid:
  assumes b: "lettered b" and lay: "increasing lay" "(c, l, blank) \<in> set lay" and r: "r < BOARD_SIZE"
  shows "(1 < length (run (lay_tiles (map (laid_at h r) lay) b) (\<not> h) (line_pos r h c))
      \<longrightarrow> ok (run_text (lay_tiles (map (laid_at h r) lay) b) (\<not> h) (line_pos r h c)))
    \<longleftrightarrow> cross_ok ok (line_row b h) r c l"
proof -
  let ?B = "lay_tiles (map (laid_at h r) lay) b"
  let ?R = "letter_row (line_at ?B c (\<not> h))" and ?G = "\<lambda>i. line_row b h i c"
  have R: "?R i = (if i = r then Some l else ?G i)" for i by (rule letter_row_crossing [OF b lay])
  have pos: "line_pos r h c = line_pos c (\<not> h) r" by (simp add: line_pos_def)
  have up: "run_above ?R r = run_above ?G r" by (rule run_above_cong) (simp add: R)
  have down: "run_below ?R r = letter_of l @ run_below ?G (Suc r)"
  proof -
    have "run_below ?R (Suc r) = run_below ?G (Suc r)" by (rule run_below_cong) (simp add: R)
    then show ?thesis using run_below_Some [OF r, of ?R l] by (simp add: R)
  qed
  have at: "line_at ?B c (\<not> h) r \<noteq> None" using R [of r] by (auto simp: letter_row_def)
  have ne: "\<forall>i t. ?G i = Some t \<longrightarrow> letter_of t \<noteq> []" using line_row_letter [OF b] letter_nonempty by blast
  have at': "line_at ?B c (\<not> h) i \<noteq> None \<longleftrightarrow> ?G i \<noteq> None" if "i \<noteq> r" for i
    using R [of i] that by (metis letter_row_def option.map_disc_iff)
  have "1 < length (run ?B (\<not> h) (line_pos r h c)) \<longleftrightarrow> run_above ?G r \<noteq> [] \<or> run_below ?G (Suc r) \<noteq> []"
  proof (cases r)
    case 0
    then show ?thesis
      unfolding pos length_run_line [OF r] run_above_Nil [OF ne] run_below_Nil [OF ne] using at' [of "Suc r"] by simp
  next
    case (Suc d)
    then show ?thesis
      unfolding pos length_run_line [OF r] run_above_Nil [OF ne] run_below_Nil [OF ne]
      using at' [of "Suc r"] at' [of d] by auto
  qed
  moreover have "run_text ?B (\<not> h) (line_pos r h c) = run_above ?G r @ letter_of l @ run_below ?G (Suc r)"
    unfolding pos run_text_line [OF r at] up down ..
  ultimately show ?thesis by (simp add: cross_ok_def Let_def)
qed

end
