(* ===== verification/BotChoice.thy ===== *)
theory BotChoice
  imports BotSearch GamePlay "HOL-Library.Stream" "HOL-Library.Product_Lexorder"
begin

text \<open>
  How a bot decides (\<^verbatim>\<open>src/src/robot/ai.rs\<close>, with \<^verbatim>\<open>bot_level\<close> of \<^verbatim>\<open>src/src/engine/game.rs\<close>): the strength of
  an adaptive bot, the rating of the moves, the choice of a move or of tiles to exchange. Floats
  are reals. The random generator is the stream of the numbers it will give, each in [0, 1); every
  operation that draws returns the rest.
\<close>

type_synonym rng = "real stream"

definition rng_ok :: "rng \<Rightarrow> bool" where
  "rng_ok rng \<longleftrightarrow> (\<forall>x\<in>sset rng. 0 \<le> x \<and> x < 1)"

section \<open>The strength of an adaptive bot\<close>

definition ADAPT_WINDOW :: nat where "ADAPT_WINDOW = 6"
definition ADAPT_START_LEVEL :: real where "ADAPT_START_LEVEL = 5"

definition LEVEL_STRENGTH :: "real list" where
  "LEVEL_STRENGTH = [4.3, 6.1, 7.4, 10.1, 12.7, 15.7, 18.4, 21.2, 24.6, 27.0]"

text \<open>The loop over neighbouring strengths; \<open>i\<close> is the level of the first of them.\<close>

fun between_levels :: "real \<Rightarrow> nat \<Rightarrow> real list \<Rightarrow> real" where
  "between_levels avg i (a # b # rest) =
     (if avg \<le> b then real i + (avg - a) / (b - a) else between_levels avg (Suc i) (b # rest))"
| "between_levels avg i _ = real MAX_LEVEL"

definition level_for_average :: "real \<Rightarrow> real" where
  "level_for_average avg =
     (if avg \<le> hd LEVEL_STRENGTH then real MIN_LEVEL
      else if last LEVEL_STRENGTH \<le> avg then real MAX_LEVEL
      else between_levels avg 1 LEVEL_STRENGTH)"

definition adaptive_target :: "real option \<Rightarrow> nat \<Rightarrow> real" where
  "adaptive_target avg turns =
     (case avg of
        Some av \<Rightarrow>
          if 0 < turns then
            let weight = real (min turns ADAPT_WINDOW) / real ADAPT_WINDOW
            in ADAPT_START_LEVEL * (1 - weight) + level_for_average av * weight
          else ADAPT_START_LEVEL
      | None \<Rightarrow> ADAPT_START_LEVEL)"

definition adaptive_level :: "real option \<Rightarrow> nat \<Rightarrow> rng \<Rightarrow> nat \<times> rng" where
  "adaptive_level avg turns rng =
     (let target = adaptive_target avg turns; low = floor target;
          level = (if shd rng < target - real_of_int low then low + 1 else low)
      in (nat (min (max level (int MIN_LEVEL)) (int MAX_LEVEL)), stl rng))"

definition bot_level :: "player \<Rightarrow> rng \<Rightarrow> str list option \<Rightarrow> game \<Rightarrow> nat \<times> rng" where
  "bot_level robot rng reference_names g =
     (case difficulty robot of
        Some (Level n) \<Rightarrow> (n, rng)
      | Some Auto \<Rightarrow>
          let names = (case reference_names of Some ns \<Rightarrow> ns | None \<Rightarrow> map player_name (human_players g))
          in case recent_stats names ADAPT_WINDOW g of (avg, turns) \<Rightarrow> adaptive_level avg turns rng
      | None \<Rightarrow> (DEFAULT_LEVEL, rng))"

section \<open>Rating the moves\<close>

definition round_ties_even :: "real \<Rightarrow> real" where
  "round_ties_even x =
     (let f = floor x; d = x - real_of_int f
      in real_of_int (if d < 1 / 2 then f else if 1 / 2 < d then f + 1 else if even f then f else f + 1))"

definition leave_value :: "tile list \<Rightarrow> real" where
  "leave_value leave =
     (if leave = [] then 0
      else
        let kinds = remdups leave; vowels = length (filter (\<lambda>t. \<not> tile_is_blank t \<and> is_vowel t) leave);
            consonants = length (filter (\<lambda>t. \<not> tile_is_blank t \<and> \<not> is_vowel t) leave)
        in 12 * real (count_list leave BLANK)
           + (\<Sum>t\<leftarrow>kinds. (if \<not> tile_is_blank t \<and> 1 < count_list leave t then - (2.5 * real (count_list leave t - 1)) else 0)
                + (if \<not> tile_is_blank t \<and> 7 \<le> tile_value t then - real (count_list leave t) else 0))
           - 1.5 * \<bar>real vowels - round_ties_even (0.42 * real (vowels + consonants))\<bar>)"

definition remaining_after :: "tile list \<Rightarrow> bot_move \<Rightarrow> tile list" where
  "remaining_after rack mv = fold (\<lambda>p left. remove1 (hand_tile p) left) (m_tiles mv) rack"

definition rate :: "bot_move list \<Rightarrow> tile list \<Rightarrow> nat \<Rightarrow> bot_move list" where
  "rate moves rack bag_remaining =
     map (\<lambda>mv. let leave = remaining_after rack mv in
         mv\<lparr>m_equity := real_of_int (m_score mv)
              + (if bag_remaining = 0 then - ((\<Sum>t\<leftarrow>leave. real (tile_value t)) * 0.8) else leave_value leave)\<rparr>)
       moves"

definition BATCH :: nat where "BATCH = 8"

definition take_valid :: "str set \<Rightarrow> nat \<Rightarrow> bot_move \<Rightarrow> bot_move list \<Rightarrow> bot_move list" where
  "take_valid valid wanted mv chosen =
     (if length chosen < wanted \<and> list_all (\<lambda>w. w \<in> valid) (m_words mv) then chosen @ [mv] else chosen)"

function valid_batches ::
  "(str list \<Rightarrow> str set) \<Rightarrow> nat \<Rightarrow> bot_move list \<Rightarrow> bot_move list \<Rightarrow> bot_move list" where
  "valid_batches filter_valid wanted candidates chosen =
     (if candidates = [] then chosen
      else
        let chunk = take BATCH candidates; valid = filter_valid (concat (map m_words chunk));
            chosen' = fold (take_valid valid wanted) chunk chosen
        in if wanted \<le> length chosen' then chosen'
           else valid_batches filter_valid wanted (drop BATCH candidates) chosen')"
  by pat_completeness auto

termination
  by (relation "measure (\<lambda>(_, _, cands, _). length cands)") (auto simp: BATCH_def)

declare valid_batches.simps [simp del]

definition first_valid :: "(str list \<Rightarrow> str set) \<Rightarrow> bot_move list \<Rightarrow> nat \<Rightarrow> bot_move list" where
  "first_valid filter_valid candidates wanted = valid_batches filter_valid wanted candidates []"

section \<open>The order of the candidates\<close>

record profile =
  mu :: "real option"
  sigma :: "real option"
  pass_p :: real

definition profile_of :: "nat \<Rightarrow> profile" where
  "profile_of level =
     (if level = 1 then \<lparr>mu = Some 2, sigma = None, pass_p = 0.15\<rparr>
      else if level = 2 then \<lparr>mu = Some 5, sigma = None, pass_p = 0\<rparr>
      else if level = 3 then \<lparr>mu = Some 8, sigma = None, pass_p = 0\<rparr>
      else if level = 4 then \<lparr>mu = Some 12, sigma = None, pass_p = 0\<rparr>
      else if level = 5 then \<lparr>mu = Some 16, sigma = None, pass_p = 0\<rparr>
      else if level = 6 then \<lparr>mu = Some 20, sigma = None, pass_p = 0\<rparr>
      else if level = 7 then \<lparr>mu = Some 26, sigma = None, pass_p = 0\<rparr>
      else if level = 8 then \<lparr>mu = None, sigma = Some 8, pass_p = 0\<rparr>
      else if level = 9 then \<lparr>mu = None, sigma = Some 4, pass_p = 0\<rparr>
      else \<lparr>mu = None, sigma = Some 0, pass_p = 0\<rparr>)"

definition TARGET_CV :: real where "TARGET_CV = 0.5"

definition gauss :: "rng \<Rightarrow> real \<Rightarrow> real \<Rightarrow> real \<times> rng" where
  "gauss rng m s =
     (let u1 = 1 - shd rng; u2 = shd (stl rng)
      in (m + s * sqrt (- 2 * ln u1) * cos (2 * pi * u2), stl (stl rng)))"

definition uses_equity :: "nat \<Rightarrow> bool" where
  "uses_equity level \<longleftrightarrow> sigma (profile_of level) \<noteq> None"

text \<open>A key for every move, drawn in the order of the moves.\<close>

fun draw_keys :: "(bot_move \<Rightarrow> rng \<Rightarrow> (real \<times> real) \<times> rng) \<Rightarrow> bot_move list \<Rightarrow> rng \<Rightarrow> ((real \<times> real) \<times> bot_move) list \<times> rng" where
  "draw_keys key [] rng = ([], rng)"
| "draw_keys key (mv # mvs) rng =
     (case key mv rng of (k, rng1) \<Rightarrow>
      case draw_keys key mvs rng1 of (ks, rng2) \<Rightarrow> ((k, mv) # ks, rng2))"

definition ordered_candidates :: "bot_move list \<Rightarrow> nat \<Rightarrow> rng \<Rightarrow> bot_move list \<times> rng" where
  "ordered_candidates moves level rng =
     (let p = profile_of level;
          keyed =
            (case mu p of
               Some m \<Rightarrow>
                 (case gauss rng (- TARGET_CV * TARGET_CV / 2) TARGET_CV of (z, rng1) \<Rightarrow>
                    let target = m * exp z
                    in draw_keys (\<lambda>mv r. ((\<bar>real_of_int (m_score mv) - target\<bar>, shd r), stl r)) moves rng1)
             | None \<Rightarrow>
                 let s = (case sigma p of Some s \<Rightarrow> s | None \<Rightarrow> 0)
                 in if s \<noteq> 0
                    then draw_keys (\<lambda>mv r. case gauss r 0 s of (z, r') \<Rightarrow> ((- (m_equity mv + z), 0), r')) moves rng
                    else draw_keys (\<lambda>mv r. ((- m_equity mv, shd r), stl r)) moves rng)
      in (map snd (sort_key fst (fst keyed)), snd keyed))"

section \<open>Exchanging\<close>

definition keep_worth :: "tile \<Rightarrow> int" where
  "keep_worth t =
     (if tile_is_blank t then 100
      else (if tile_value t \<le> 1 then 6 else if tile_value t \<le> 3 then 3 else 0) + (if is_vowel t then 2 else 0))"

text \<open>The indices to keep: at most three, of different tiles, the best first.\<close>

fun keep_indices :: "tile list \<Rightarrow> nat list \<Rightarrow> nat list \<Rightarrow> nat list" where
  "keep_indices rack [] keep = keep"
| "keep_indices rack (i # is) keep =
     (if 3 \<le> length keep then keep
      else if rack ! i \<notin> (!) rack ` set keep then keep_indices rack is (keep @ [i])
      else keep_indices rack is keep)"

definition choose_exchange :: "tile list \<Rightarrow> rng \<Rightarrow> nat list \<times> rng" where
  "choose_exchange rack rng =
     (let n = length rack;
          order = sort_key (\<lambda>i. (- keep_worth (rack ! i), snth rng i)) [0..<n];
          keep = keep_indices rack order [];
          exchange = filter (\<lambda>i. i \<notin> set keep) [0..<n]
      in (if exchange = [] then [0] else exchange, sdrop n rng))"

section \<open>The decision\<close>

datatype action = Place "placed list" "str list" int | Exchange "nat list" | Pass

definition exchange_or_pass :: "tile list \<Rightarrow> nat \<Rightarrow> rng \<Rightarrow> action \<times> rng" where
  "exchange_or_pass rack bag_remaining rng =
     (if HAND_SIZE \<le> bag_remaining
      then (case choose_exchange rack rng of (is, rng1) \<Rightarrow> (Exchange is, rng1))
      else (Pass, rng))"

definition choose_action ::
  "(str list \<Rightarrow> str set) \<Rightarrow> (nat \<Rightarrow> bool) \<Rightarrow> board \<Rightarrow> tile list \<Rightarrow> nat \<Rightarrow> nat \<Rightarrow> rng \<Rightarrow> vocabulary
     \<Rightarrow> placed list set option \<Rightarrow> action \<times> rng" where
  "choose_action filter_valid late b rack level0 bag_remaining rng vocab avoid =
     (let level = min (max level0 MIN_LEVEL) MAX_LEVEL; p = pass_p (profile_of level);
          stuck = (0 < p \<and> shd rng < p); rng1 = (if 0 < p then stl rng else rng)
      in if stuck then exchange_or_pass rack bag_remaining rng1
         else
           let moves = generate_moves filter_valid late b rack vocab True HAND_SIZE;
               kept = (case avoid of Some av \<Rightarrow> filter (\<lambda>mv. placement_key (m_tiles mv) \<notin> av) moves | None \<Rightarrow> moves);
               rated = (if uses_equity level then rate kept rack bag_remaining else kept)
           in case ordered_candidates rated level rng1 of (candidates, rng2) \<Rightarrow>
                (case first_valid filter_valid candidates 1 of
                   mv # _ \<Rightarrow> (Place (m_tiles mv) (m_words mv) (m_score mv), rng2)
                 | [] \<Rightarrow> exchange_or_pass rack bag_remaining rng2))"

definition best_moves ::
  "(str list \<Rightarrow> str set) \<Rightarrow> (nat \<Rightarrow> bool) \<Rightarrow> board \<Rightarrow> tile list \<Rightarrow> nat \<Rightarrow> vocabulary \<Rightarrow> bot_move list" where
  "best_moves filter_valid late b rack wanted vocab =
     first_valid filter_valid
       (sort_key (\<lambda>mv. - m_score mv) (generate_moves filter_valid late b rack vocab True HAND_SIZE)) wanted"

definition tile_total :: nat where
  "tile_total = (\<Sum>(_, _, c)\<leftarrow>TILE_DISTRIBUTION. c)"

end
