(* ===== verification/SearchMoves.thy ===== *)
theory SearchMoves
  imports SearchBoard BotChoice
begin

text \<open>
  What the whole move search finds: exactly the legal placements with the tiles of the rack whose main word
  is in the vocabulary and whose cross words are valid, each once.
\<close>

section \<open>The rack\<close>

definition rack_tiles :: "bool \<Rightarrow> tile list \<Rightarrow> tile list" where
  "rack_tiles allow_blanks rack = (if allow_blanks then rack else filter (\<lambda>t. \<not> tile_is_blank t) rack)"

definition laid_hand :: "laid \<Rightarrow> tile" where
  "laid_hand x = (if snd (snd x) then BLANK else fst (snd x))"

lemma hand_tile_laid [simp]: "hand_tile (laid_at h r x) = laid_hand x"
  by (simp add: hand_tile_def laid_hand_def)

lemma letter_index: "l \<in> set letters \<longleftrightarrow> 0 < tile_index l \<and> tile_index l < 39"
  by (auto simp: set_letters tile_ok_def tile_is_blank_def)

lemma affords_letters: "affords cf counts free ls \<Longrightarrow> set (s_rack_types cf) \<subseteq> set letters \<Longrightarrow> \<forall>(c, l, blank)\<in>set ls. l \<in> set letters"
  by (induction cf counts free ls rule: affords.induct) (auto split: if_splits)

lemma affords_mset:
  "length counts = 39 \<Longrightarrow> \<forall>l\<in>set letters. counts ! tile_index l = count M l \<Longrightarrow> count M BLANK = free
    \<Longrightarrow> \<forall>l\<in>set letters. count M l \<noteq> 0 \<longrightarrow> l \<in> set (s_rack_types cf)
    \<Longrightarrow> \<forall>(c, l, blank)\<in>set ls. l \<in> set letters
    \<Longrightarrow> affords cf counts free ls \<longleftrightarrow> mset (map laid_hand ls) \<subseteq># M"
proof (induction ls arbitrary: counts free M)
  case (Cons x ls)
  obtain c l blank where x: "x = (c, l, blank)" by (cases x)
  have l: "l \<in> set letters" "l \<noteq> BLANK" "tile_index l < 39"
    using Cons.prems(5) by (auto simp: x letter_index BLANK_def)
  have ls: "\<forall>(c, l, blank)\<in>set ls. l \<in> set letters" using Cons.prems(5) by simp
  have noblank: "BLANK \<notin> set letters" by (simp add: letter_index BLANK_def)
  have types: "\<forall>k\<in>set letters. count (M - {#t#}) k \<noteq> 0 \<longrightarrow> k \<in> set (s_rack_types cf)" for t
    using Cons.prems(4) by (metis count_diff diff_0_eq_0)
  have sub: "mset (map laid_hand (x # ls)) \<subseteq># M \<longleftrightarrow> laid_hand x \<in># M \<and> mset (map laid_hand ls) \<subseteq># M - {#laid_hand x#}"
    by (simp add: insert_subset_eq_iff)
  show ?case
  proof (cases blank)
    case True
    have "affords cf counts (free - 1) ls \<longleftrightarrow> mset (map laid_hand ls) \<subseteq># M - {#BLANK#}"
      by (rule Cons.IH [OF Cons.prems(1) _ _ types ls]) (use Cons.prems(2,3) noblank in auto)
    moreover have "BLANK \<in># M \<longleftrightarrow> 0 < free" using Cons.prems(3) by (simp add: count_greater_zero_iff [symmetric])
    ultimately show ?thesis unfolding sub using l(1) True by (auto simp: x laid_hand_def)
  next
    case False
    let ?c = "counts[tile_index l := counts ! tile_index l - 1]"
    have "?c ! tile_index k = count (M - {#l#}) k" if "k \<in> set letters" for k
    proof (cases "k = l")
      case True
      then show ?thesis using Cons.prems(1,2) l by simp
    next
      case False
      then have "tile_index k \<noteq> tile_index l" by (cases k; cases l) simp
      then show ?thesis using Cons.prems(2) that False by simp
    qed
    then have "affords cf ?c free ls \<longleftrightarrow> mset (map laid_hand ls) \<subseteq># M - {#l#}"
      by (intro Cons.IH [OF _ _ _ types ls]) (use Cons.prems(1,3) l(2) in auto)
    moreover have "l \<in># M \<longleftrightarrow> counts ! tile_index l \<noteq> 0" using Cons.prems(2) l(1) by simp
    moreover have "l \<in># M \<longrightarrow> l \<in> set (s_rack_types cf)" using Cons.prems(4) l(1) by simp
    ultimately show ?thesis unfolding sub using False by (auto simp: x laid_hand_def)
  qed
qed simp

lemma count_index: "length (filter (\<lambda>t. tile_index t = i) rack) = count (mset rack) (Tile i)"
proof (induction rack)
  case (Cons t rack)
  then show ?case by (cases t) auto
qed simp

lemma rack_counts_count: "l \<in> set letters \<Longrightarrow> rack_counts rack ! tile_index l = count (mset (rack_tiles ab rack)) l"
proof -
  assume l: "l \<in> set letters"
  then have i: "tile_index l < 39" "tile_index l \<noteq> 0" by (auto simp: letter_index)
  then have "rack_counts rack ! tile_index l = length (filter (\<lambda>t. tile_index t = tile_index l) rack)"
    unfolding rack_counts_def by (subst nth_map) (simp_all del: upt_Suc)
  also have "\<dots> = count (mset rack) l" using count_index [of "tile_index l" rack] by simp
  also have "\<dots> = count (mset (rack_tiles ab rack)) l" using i(2) by (simp add: rack_tiles_def tile_is_blank_def)
  finally show ?thesis .
qed

lemma rack_blanks_count: "rack_blanks ab rack = count (mset (rack_tiles ab rack)) BLANK"
proof -
  have "length (filter tile_is_blank rack) = count (mset rack) BLANK"
    using count_index [of 0 rack] by (simp add: tile_is_blank_def [abs_def] BLANK_def)
  then show ?thesis by (simp add: rack_blanks_def rack_tiles_def tile_is_blank_def BLANK_def)
qed

lemma rack_types_set:
  "set (map Tile (filter (\<lambda>i. 0 < rack_counts rack ! i) [1..<39])) = {l \<in> set letters. 0 < count (mset (rack_tiles ab rack)) l}"
proof (rule set_eqI)
  fix l
  obtain i where i: "l = Tile i" by (cases l)
  have "i \<in> set [1..<39] \<longleftrightarrow> l \<in> set letters" by (auto simp: letter_index i)
  then show "l \<in> set (map Tile (filter (\<lambda>i. 0 < rack_counts rack ! i) [1..<39]))
      \<longleftrightarrow> l \<in> {l \<in> set letters. 0 < count (mset (rack_tiles ab rack)) l}"
    using rack_counts_count [of l rack ab] by (auto simp: i simp del: set_upt)
qed

section \<open>Anchors\<close>

lemma anchors_mem:
  "(r, c) \<in> set (anchors g e) \<longleftrightarrow>
     (if e then r = CENTER \<and> c = CENTER
      else r < BOARD_SIZE \<and> c < BOARD_SIZE \<and> g r c = None \<and> has_neighbour g r c)"
  by (auto simp: anchors_def all_squares_set)

lemma has_neighbour_touches:
  assumes b: "board_ok b" and rc: "r < BOARD_SIZE" "c < BOARD_SIZE"
  shows "has_neighbour (line_row b h) r c \<longleftrightarrow> touches b (line_pos r h c)"
proof -
  have occ: "x < BOARD_SIZE \<and> y < BOARD_SIZE \<and> occupied b (x, y) \<longleftrightarrow> line_row b True x y \<noteq> None"
    "x < BOARD_SIZE \<and> y < BOARD_SIZE \<and> occupied b (x, y) \<longleftrightarrow> line_row b False y x \<noteq> None" for x y
    by (auto simp: line_row_def occupied_def line_at_def)
  have "touches b (line_pos r h c) \<longleftrightarrow> line_row b h (Suc r) c \<noteq> None \<or> line_row b h r (Suc c) \<noteq> None
      \<or> 0 < r \<and> line_row b h (r - 1) c \<noteq> None \<or> 0 < c \<and> line_row b h r (c - 1) \<noteq> None"
  proof (cases h)
    case True
    then have h: "h = True" by simp
    show ?thesis
      unfolding touches_def h line_pos_def if_True
        adjacent_cases [where P = "\<lambda>q. fst q < BOARD_SIZE \<and> snd q < BOARD_SIZE \<and> occupied b q"] fst_conv snd_conv occ(1) by blast
  next
    case False
    then have h: "h = False" by simp
    show ?thesis
      unfolding touches_def h line_pos_def if_False
        adjacent_cases [where P = "\<lambda>q. fst q < BOARD_SIZE \<and> snd q < BOARD_SIZE \<and> occupied b q"] fst_conv snd_conv occ(2) by blast
  qed
  moreover have "line_row b h x y \<noteq> None \<Longrightarrow> x < BOARD_SIZE \<and> y < BOARD_SIZE" for x y
    by (auto simp: line_row_def split: if_splits)
  ultimately show ?thesis unfolding has_neighbour_def by blast
qed

definition direction_anchors :: "board \<Rightarrow> bool \<Rightarrow> (nat \<times> nat) list" where
  "direction_anchors b h = anchors (line_row b h) (board_is_empty b)"

lemma empty_row: "board_ok b \<Longrightarrow> board_is_empty b \<Longrightarrow> line_row b h r c = None"
  by (simp add: board_ok_def line_row_def line_at_def)

lemma CENTER_less: "CENTER < BOARD_SIZE"
  by (simp add: CENTER_def BOARD_SIZE_def)

lemma anchors_free:
  assumes "board_ok b" "(r, c) \<in> set (direction_anchors b h)"
  shows "r < BOARD_SIZE" "c < BOARD_SIZE" "line_row b h r c = None"
  using assms empty_row [OF assms(1)] CENTER_less by (auto simp: direction_anchors_def anchors_mem split: if_splits)

lemma anchored_line:
  assumes b: "board_ok b" and r: "r < BOARD_SIZE"
  shows "anchored_row (line_row b h r) (\<lambda>c. (r, c) \<in> set (direction_anchors b h))"
  unfolding anchored_row_def
proof (intro allI impI, elim conjE)
  fix c assume c: "line_row b h r c = None" "c < BOARD_SIZE" "(r, c) \<notin> set (direction_anchors b h)"
  show "line_row b h r (Suc c) = None \<and> (\<forall>d. c = Suc d \<longrightarrow> line_row b h r d = None)"
  proof (cases "board_is_empty b")
    case True
    then show ?thesis by (simp add: empty_row [OF b])
  next
    case False
    then have n: "\<not> has_neighbour (line_row b h) r c" using c r by (simp add: direction_anchors_def anchors_mem)
    have "line_row b h r (Suc c) = None"
    proof (cases "Suc c < BOARD_SIZE")
      case True
      then show ?thesis using n by (auto simp: has_neighbour_def)
    qed (simp add: line_row_def)
    then show ?thesis using n by (auto simp: has_neighbour_def)
  qed
qed

section \<open>What one direction finds\<close>

text \<open>
  The declarative rule of a direction: the placements along it, on free squares in one line without a
  gap, over the centre of an empty board or next to a letter, with tiles of the rack, whose
  main run spells a word of the vocabulary and whose cross runs are valid.
\<close>

definition searchable :: "board \<Rightarrow> tile list \<Rightarrow> (str \<Rightarrow> bool) \<Rightarrow> (str \<Rightarrow> bool) \<Rightarrow> bool \<Rightarrow> placed list \<Rightarrow> bool" where
  "searchable b rack main ok h ps \<longleftrightarrow>
     ps \<noteq> [] \<and> (\<forall>p\<in>set ps. on_board p \<and> \<not> occupied b (square_of p) \<and> p_letter p \<in> set letters)
     \<and> distinct (squares_of ps) \<and> aligned h (squares_of ps) \<and> contiguous (lay_tiles ps b) h (squares_of ps)
     \<and> (if board_is_empty b then (CENTER, CENTER) \<in> set (squares_of ps) else \<exists>q\<in>set (squares_of ps). touches b q)
     \<and> mset (map hand_tile ps) \<subseteq># mset rack
     \<and> (\<forall>q\<in>set (squares_of ps).
          2 \<le> length (run_text (lay_tiles ps b) h q) \<and> main (run_text (lay_tiles ps b) h q)
          \<and> (1 < length (run (lay_tiles ps b) (\<not> h) q) \<longrightarrow> ok (run_text (lay_tiles ps b) (\<not> h) q)))"

definition play_ok :: "board \<Rightarrow> tile list \<Rightarrow> (str \<Rightarrow> bool) \<Rightarrow> (str \<Rightarrow> bool) \<Rightarrow> bool \<Rightarrow> nat \<Rightarrow> laid list \<Rightarrow> bool" where
  "play_ok b rack main ok h r lay \<longleftrightarrow>
     r < BOARD_SIZE \<and> increasing lay \<and> lay \<noteq> []
     \<and> (\<forall>c\<in>columns lay. c < BOARD_SIZE \<and> line_row b h r c = None)
     \<and> (\<forall>(c, l, blank)\<in>set lay. l \<in> set letters \<and> cross_ok ok (line_row b h) r c l)
     \<and> gapless (full_row (line_row b h r) lay) (columns lay)
     \<and> (\<exists>c\<in>columns lay. (r, c) \<in> set (direction_anchors b h))
     \<and> mset (map laid_hand lay) \<subseteq># mset rack
     \<and> (\<forall>c\<in>columns lay. 2 \<le> length (line_word (line_row b h r) lay c) \<and> main (line_word (line_row b h r) lay c))"

lemma columns_mem: "c \<in> columns lay \<longleftrightarrow> (\<exists>l blank. (c, l, blank) \<in> set lay)"
  by (force simp: columns_def)

lemma anchor_square:
  assumes "board_ok b" "r < BOARD_SIZE" "c < BOARD_SIZE" "line_row b h r c = None"
  shows "(r, c) \<in> set (direction_anchors b h) \<longleftrightarrow>
    (if board_is_empty b then line_pos r h c = (CENTER, CENTER) else touches b (line_pos r h c))"
proof (cases "board_is_empty b")
  case True
  then show ?thesis by (auto simp: direction_anchors_def anchors_mem line_pos_def)
next
  case False
  then show ?thesis using assms by (simp add: direction_anchors_def anchors_mem has_neighbour_touches)
qed

lemma searchable_laid:
  assumes b: "lettered b" and inc: "increasing lay" and r: "r < BOARD_SIZE"
  shows "searchable b rack main ok h (map (laid_at h r) lay) \<longleftrightarrow> play_ok b rack main ok h r lay"
proof (cases "lay \<noteq> [] \<and> (\<forall>c\<in>columns lay. c < BOARD_SIZE \<and> line_row b h r c = None)")
  case False
  have "\<exists>p\<in>set (map (laid_at h r) lay). \<not> (on_board p \<and> \<not> occupied b (square_of p))" if "lay \<noteq> []"
  proof -
    have "\<exists>c\<in>columns lay. \<not> (c < BOARD_SIZE \<and> line_row b h r c = None)" using False that by blast
    then obtain x where "x \<in> set lay" "\<not> (fst x < BOARD_SIZE \<and> line_row b h r (fst x) = None)" by (auto simp: columns_def)
    then show ?thesis using b by (auto simp: occupied_line_row lettered_def intro!: bexI [of _ x])
  qed
  then show ?thesis using False unfolding searchable_def play_ok_def by blast
next
  case True
  let ?ps = "map (laid_at h r) lay"
  have ok: "board_ok b" using b by (simp add: lettered_def)
  have cell: "on_board p \<and> \<not> occupied b (square_of p)" if "p \<in> set ?ps" for p
    using that True r ok by (auto simp: occupied_line_row columns_def)
  have lets: "(\<forall>p\<in>set ?ps. p_letter p \<in> set letters) \<longleftrightarrow> (\<forall>(c, l, blank)\<in>set lay. l \<in> set letters)" by auto
  have anchor: "(if board_is_empty b then (CENTER, CENTER) \<in> set (squares_of ?ps) else \<exists>q\<in>set (squares_of ?ps). touches b q)
      \<longleftrightarrow> (\<exists>c\<in>columns lay. (r, c) \<in> set (direction_anchors b h))"
    using True anchor_square [OF ok r]
    by (cases "board_is_empty b") (auto simp: set_squares_laid image_iff eq_commute [of "(CENTER, CENTER)"])
  have hand: "mset (map hand_tile ?ps) = mset (map laid_hand lay)" by (simp add: multiset.map_comp o_def)
  have words: "(\<forall>q\<in>set (squares_of ?ps). 2 \<le> length (run_text (lay_tiles ?ps b) h q) \<and> main (run_text (lay_tiles ?ps b) h q)
      \<and> (1 < length (run (lay_tiles ?ps b) (\<not> h) q) \<longrightarrow> ok (run_text (lay_tiles ?ps b) (\<not> h) q)))
    \<longleftrightarrow> (\<forall>(c, l, blank)\<in>set lay. cross_ok ok (line_row b h) r c l)
      \<and> (\<forall>c\<in>columns lay. 2 \<le> length (line_word (line_row b h r) lay c) \<and> main (line_word (line_row b h r) lay c))"
    for ok
  proof -
    have "(2 \<le> length (run_text (lay_tiles ?ps b) h (line_pos r h c)) \<and> main (run_text (lay_tiles ?ps b) h (line_pos r h c))
        \<and> (1 < length (run (lay_tiles ?ps b) (\<not> h) (line_pos r h c)) \<longrightarrow> ok (run_text (lay_tiles ?ps b) (\<not> h) (line_pos r h c))))
      \<longleftrightarrow> cross_ok ok (line_row b h) r c l \<and> 2 \<le> length (line_word (line_row b h r) lay c) \<and> main (line_word (line_row b h r) lay c)"
      if "(c, l, blank) \<in> set lay" for c l blank
    proof -
      have c: "c \<in> columns lay" using that columns_mem by blast
      then have "run_text (lay_tiles ?ps b) h (line_pos r h c) = line_word (line_row b h r) lay c"
        using main_text_laid [OF b inc] True by blast
      then show ?thesis using cross_laid [OF b inc that r, of h ok] by (simp add: conj_ac)
    qed
    then show ?thesis unfolding set_squares_laid by (fastforce simp: columns_mem)
  qed
  show ?thesis
    unfolding searchable_def play_ok_def contiguous_laid [OF b inc] anchor hand words
    using True cell inc r distinct_squares_laid [OF inc] aligned_laid lets by (auto 0 3)
qed

lemma searchable_perm:
  assumes "mset ps = mset qs"
  shows "searchable b rack main ok h ps \<longleftrightarrow> searchable b rack main ok h qs"
proof -
  have set: "set ps = set qs" using assms by (rule mset_eq_setD)
  have dist: "distinct (squares_of ps) = distinct (squares_of qs)"
    unfolding squares_of_def by (rule mset_eq_imp_distinct_iff) (simp add: assms)
  have sq: "set (squares_of ps) = set (squares_of qs)" by (simp add: squares_of_def set)
  have ne: "ps = [] \<longleftrightarrow> qs = []" using set by auto
  have hand: "mset (map hand_tile ps) = mset (map hand_tile qs)" by (simp add: assms)
  show ?thesis
  proof (cases "distinct (squares_of qs)")
    case True
    then have lay: "lay_tiles ps b = lay_tiles qs b" using lay_tiles_perm [OF set] dist by blast
    show ?thesis unfolding searchable_def aligned_def contiguous_def lay sq set dist ne hand ..
  next
    case False
    then show ?thesis by (simp add: searchable_def dist)
  qed
qed

text \<open>Every placement along a line is a play of that line.\<close>

lemma placement_as_play:
  assumes "ps \<noteq> []" "\<forall>p\<in>set ps. on_board p" "distinct (squares_of ps)" "aligned h (squares_of ps)"
  obtains r lay where "r < BOARD_SIZE" "increasing lay" "mset (map (laid_at h r) lay) = mset ps"
proof -
  define r where "r = fixed_of h (square_of (hd ps))"
  define f where "f = (\<lambda>p. (moving_of h (square_of p), p_letter p, p_blank p))"
  define lay where "lay = sort_key fst (map f ps)"
  have hd: "hd ps \<in> set ps" using assms(1) by simp
  have fixed: "fixed_of h (square_of p) = r" if "p \<in> set ps" for p
    unfolding r_def using alignedD [OF assms(4)] that hd by (auto simp: squares_of_def)
  have undo: "laid_at h r (f p) = p" if "p \<in> set ps" for p
    using fixed [OF that] assms(2) that
    by (cases p) (auto simp: laid_at_def f_def fixed_of_def moving_of_def square_of_def on_board_def split: if_splits)
  have "r < BOARD_SIZE"
    using assms(2) hd by (auto simp: r_def fixed_of_def square_of_def on_board_def)
  moreover have "increasing lay"
  proof -
    have "inj_on (moving_of h \<circ> square_of) (set ps)"
    proof (rule inj_onI)
      fix p q assume p: "p \<in> set ps" and q: "q \<in> set ps" and eq: "(moving_of h \<circ> square_of) p = (moving_of h \<circ> square_of) q"
      then have "square_of p = square_of q"
        using fixed [OF p] fixed [OF q] by (metis comp_apply line_pos_fixed_moving)
      then show "p = q" using assms(3) p q by (auto simp: squares_of_def distinct_map dest: inj_onD)
    qed
    moreover have "distinct ps" using assms(3) by (simp add: squares_of_def distinct_map)
    ultimately have "distinct (map fst (map f ps))" by (simp add: distinct_map f_def o_def)
    moreover have "mset (map fst lay) = mset (map fst (map f ps))"
      by (simp add: lay_def multiset.map_comp)
    ultimately have "distinct (map fst lay)" using mset_eq_imp_distinct_iff by blast
    then show ?thesis by (simp add: increasing_def strict_sorted_iff lay_def)
  qed
  moreover have "mset (map (laid_at h r) lay) = mset ps"
  proof -
    have "mset (map (laid_at h r) lay) = mset (map (laid_at h r) (map f ps))"
      by (simp add: lay_def multiset.map_comp)
    also have "map (laid_at h r) (map f ps) = ps" using undo by (simp add: map_idI)
    finally show ?thesis .
  qed
  ultimately show thesis by (rule that)
qed

lemma line_word_same:
  assumes "lettered b" "increasing lay" "r < BOARD_SIZE" "\<forall>c\<in>columns lay. c < BOARD_SIZE"
    and "gapless (full_row (line_row b h r) lay) (columns lay)" "c \<in> columns lay" "d \<in> columns lay"
  shows "line_word (line_row b h r) lay c = line_word (line_row b h r) lay d"
proof -
  let ?ps = "map (laid_at h r) lay"
  have "run (lay_tiles ?ps b) h (line_pos r h c) = run (lay_tiles ?ps b) h (line_pos r h d)"
  proof (rule run_same [of "squares_of ?ps"])
    show "contiguous (lay_tiles ?ps b) h (squares_of ?ps)" using assms(5) contiguous_laid [OF assms(1,2)] by blast
    show "squares_of ?ps \<noteq> []" using assms(6) by (auto simp: squares_of_def)
    show "\<forall>p\<in>set (squares_of ?ps). moving_of h p < BOARD_SIZE" using assms(4) by (simp add: set_squares_laid)
  qed (simp_all add: aligned_laid set_squares_laid assms(6,7))
  then have "run_text (lay_tiles ?ps b) h (line_pos r h c) = run_text (lay_tiles ?ps b) h (line_pos r h d)"
    by (simp only: run_text_def)
  then show ?thesis using main_text_laid [OF assms(1,2)] assms(4,6,7) by simp
qed

lemma cross_ok_lonely:
  assumes "board_ok b" "r < BOARD_SIZE" "c < BOARD_SIZE" "line_row b h r c = None" "(r, c) \<notin> set (direction_anchors b h)"
  shows "cross_ok ok (line_row b h) r c l"
proof -
  have "(\<forall>d. r = Suc d \<longrightarrow> line_row b h d c = None) \<and> (Suc r < BOARD_SIZE \<longrightarrow> line_row b h (Suc r) c = None)"
  proof (cases "board_is_empty b")
    case True
    then show ?thesis by (simp add: empty_row [OF assms(1)])
  next
    case False
    then have "\<not> has_neighbour (line_row b h) r c" using assms by (simp add: direction_anchors_def anchors_mem)
    then show ?thesis unfolding has_neighbour_def by auto
  qed
  then have "run_above (\<lambda>i. line_row b h i c) r = []" "run_below (\<lambda>i. line_row b h i c) (Suc r) = []"
    by (auto intro: run_above_gap simp: run_below.simps)
  then show ?thesis by (simp add: cross_ok_def)
qed

lemma line_play_ok:
  fixes ab :: bool and rack :: "tile list" and masks :: allowed and vocab :: vocabulary and late :: "nat \<Rightarrow> bool"
  assumes b: "lettered b" and a: "(r, a) \<in> set (direction_anchors b h)"
    and ls: "ls = (if 0 < rack_blanks ab rack then letters else map Tile (filter (\<lambda>i. 0 < rack_counts rack ! i) [1..<39]))"
    and masks: "masks = mark_allowed ok (cross_entries (contexts_of (line_row b h)) ls)
      (map (\<lambda>(sq, _). (sq, 0)) (contexts_of (line_row b h)))"
  defines "cf \<equiv> anchor_searcher (line_row b h) masks (rack_counts rack) vocab late (\<not> h) (r, a)"
  shows "lay \<in> line_plays cf (\<lambda>c. (r, c) \<in> set (direction_anchors b h)) (rack_counts rack) (rack_blanks ab rack)
    \<longleftrightarrow> play_ok b (rack_tiles ab rack) (vocab_contains vocab) ok h r lay \<and> a \<in> columns lay
       \<and> (\<forall>c\<in>columns lay. c < a \<longrightarrow> (r, c) \<notin> set (direction_anchors b h))" (is "?l \<longleftrightarrow> ?r")
proof -
  let ?A = "set (direction_anchors b h)"
  let ?M = "mset (rack_tiles ab rack)"
  have ok: "board_ok b" using b by (simp add: lettered_def)
  note free = anchors_free [OF ok a]
  have types: "set (s_rack_types cf) = {l \<in> set letters. 0 < count ?M l}" unfolding cf_def anchor_searcher_simps by (rule rack_types_set)
  have ls_letters: "set ls \<subseteq> set letters" using rack_types_set [of rack ab] by (auto simp: ls)
  have simps: "s_row cf = line_row b h r" "s_anchor cf = a" "s_vocab cf = vocab" "s_r cf = r" "s_allowed cf = masks"
    by (simp_all add: cf_def)
  have aff: "affords cf (rack_counts rack) (rack_blanks ab rack) lay \<longleftrightarrow> mset (map laid_hand lay) \<subseteq># ?M"
    if "\<forall>(c, l, blank)\<in>set lay. l \<in> set letters"
  proof (rule affords_mset [OF _ _ _ _ that])
    show "\<forall>l\<in>set letters. rack_counts rack ! tile_index l = count ?M l" using rack_counts_count by blast
    show "\<forall>l\<in>set letters. count ?M l \<noteq> 0 \<longrightarrow> l \<in> set (s_rack_types cf)" unfolding types by simp
  qed (simp_all add: rack_counts_def rack_blanks_count [symmetric])
  have aff_letters: "\<forall>(c, l, blank)\<in>set lay. l \<in> set letters"
    if "affords cf (rack_counts rack) (rack_blanks ab rack) lay"
    by (rule affords_letters [OF that]) (simp add: types)
  have in_ls: "l \<in> set ls" if "(c, l, blank) \<in> set lay" "l \<in> set letters" "mset (map laid_hand lay) \<subseteq># ?M" for c l blank
  proof -
    have "laid_hand (c, l, blank) \<in># mset (map laid_hand lay)"
      using imageI [OF that(1), of laid_hand] by simp
    then have "laid_hand (c, l, blank) \<in># ?M" by (rule mset_subset_eqD [OF that(3)])
    then have "blank \<longrightarrow> 0 < rack_blanks ab rack" "\<not> blank \<longrightarrow> 0 < count ?M l"
      by (auto simp: laid_hand_def rack_blanks_count [of ab rack])
    then show ?thesis using that(2) rack_types_set [of rack ab] by (auto simp: ls)
  qed
  show ?thesis
  proof (cases "increasing lay \<and> (\<forall>c\<in>columns lay. c < BOARD_SIZE \<and> line_row b h r c = None) \<and> a \<in> columns lay
      \<and> (\<forall>c\<in>columns lay. c < a \<longrightarrow> (r, c) \<notin> ?A) \<and> gapless (full_row (line_row b h r) lay) (columns lay)
      \<and> (\<forall>(c, l, blank)\<in>set lay. l \<in> set letters) \<and> mset (map laid_hand lay) \<subseteq># ?M")
    case False
    have lets: "\<forall>(c, l, blank)\<in>set lay. l \<in> set letters" "mset (map laid_hand lay) \<subseteq># ?M" if ?l
    proof -
      have "affords cf (rack_counts rack) (rack_blanks ab rack) lay" using that by (simp add: line_plays_def)
      from aff_letters [OF this] aff [OF aff_letters [OF this]] this
      show "\<forall>(c, l, blank)\<in>set lay. l \<in> set letters" "mset (map laid_hand lay) \<subseteq># ?M" by blast+
    qed
    have "\<not> ?l" using False lets unfolding line_plays_def simps mem_Collect_eq by blast
    moreover have "\<not> ?r" using False unfolding play_ok_def by (auto simp: case_prod_unfold)
    ultimately show ?thesis by simp
  next
    case True
    have word: "(\<forall>c\<in>columns lay. P (line_word (line_row b h r) lay c)) \<longleftrightarrow> P (line_word (line_row b h r) lay a)" for P
      using line_word_same [OF b _ free(1), of lay h _ a] True by metis
    have cross: "(\<forall>(c, l, blank)\<in>set lay. cross_ok ok (line_row b h) r c l)
        \<longleftrightarrow> (\<forall>(c, l, blank)\<in>set lay. a \<le> c \<longrightarrow> letter_allowed cf c l)"
    proof -
      have "cross_ok ok (line_row b h) r c l \<longleftrightarrow> (a \<le> c \<longrightarrow> letter_allowed cf c l)" if m: "(c, l, blank) \<in> set lay" for c l blank
      proof -
        have c: "c \<in> columns lay" using m columns_mem by blast
        then have sq: "c < BOARD_SIZE" "line_row b h r c = None" using True by blast+
        show ?thesis
        proof (cases "a \<le> c")
          case le: True
          have "l \<in> set ls" by (rule in_ls [OF m]) (use True m in auto)
          from masks_iff [where g = "line_row b h" and cf = cf and ok = ok, OF free(1) sq this ls_letters] show ?thesis using le masks by (simp add: simps)
        next
          case False
          then have "(r, c) \<notin> ?A" using True c by simp
          from cross_ok_lonely [OF ok free(1) sq this] show ?thesis using False by simp
        qed
      qed
      then show ?thesis by (fastforce)
    qed
    show ?thesis
      using True cross word [of "\<lambda>w. 2 \<le> length w \<and> vocab_contains vocab w"] aff a free(1)
      unfolding line_plays_def play_ok_def simps mem_Collect_eq by (auto simp: case_prod_unfold)
  qed
qed

section \<open>All moves\<close>

lemma direction_placements:
  fixes ab :: bool and rack :: "tile list" and masks :: allowed and vocab :: vocabulary and late :: "nat \<Rightarrow> bool"
  assumes b: "lettered b"
    and small: "length rack \<le> HAND_SIZE"
    and ls: "ls = (if 0 < rack_blanks ab rack then letters else map Tile (filter (\<lambda>i. 0 < rack_counts rack ! i) [1..<39]))"
    and masks: "masks = mark_allowed ok (cross_entries (contexts_of (line_row b h)) ls)
      (map (\<lambda>(sq, _). (sq, 0)) (contexts_of (line_row b h)))"
  shows "(\<Union>ra\<in>set (direction_anchors b h).
      line_placements (anchor_searcher (line_row b h) masks (rack_counts rack) vocab late (\<not> h) ra)
        (anchor_plays (anchor_searcher (line_row b h) masks (rack_counts rack) vocab late (\<not> h) ra)
          (\<lambda>c. (fst ra, c) \<in> set (direction_anchors b h)) (rack_counts rack) (rack_blanks ab rack)))
    = mset ` {ps. searchable b (rack_tiles ab rack) (vocab_contains vocab) ok h ps}" (is "?l = ?r")
proof -
  let ?A = "direction_anchors b h"
  let ?cf = "\<lambda>ra. anchor_searcher (line_row b h) masks (rack_counts rack) vocab late (\<not> h) ra"
  let ?play = "play_ok b (rack_tiles ab rack) (vocab_contains vocab) ok h"
  have ok: "board_ok b" using b by (simp add: lettered_def)
  note iff = line_play_ok [OF b _ ls masks, where vocab = vocab and late = late]
  have short: "length lay \<le> HAND_SIZE" if "?play r lay" for r lay
  proof -
    have "size (mset (map laid_hand lay)) \<le> size (mset (rack_tiles ab rack))"
      using that by (intro size_mset_mono) (simp add: play_ok_def)
    moreover have "length (rack_tiles ab rack) \<le> length rack" by (simp add: rack_tiles_def)
    ultimately show ?thesis using small by simp
  qed
  have same: "anchor_plays (?cf (r, a)) (\<lambda>c. (r, c) \<in> set ?A) (rack_counts rack) (rack_blanks ab rack)
      = line_plays (?cf (r, a)) (\<lambda>c. (r, c) \<in> set ?A) (rack_counts rack) (rack_blanks ab rack)"
    if "(r, a) \<in> set ?A" for r a
  proof -
    note free = anchors_free [OF ok that]
    have anch: "anchored_row (s_row (?cf (r, a))) (\<lambda>c. (r, c) \<in> set ?A)"
      using anchored_line [OF ok free(1)] by simp
    have at: "s_anchor (?cf (r, a)) < BOARD_SIZE" "s_row (?cf (r, a)) (s_anchor (?cf (r, a))) = None"
      using free by simp_all
    show ?thesis
    proof (cases "run_start (s_row (?cf (r, a))) (s_anchor (?cf (r, a))) < s_anchor (?cf (r, a))")
      case True
      then show ?thesis by (rule fixed_left_plays [OF anch at])
    next
      case False
      show ?thesis
        using free_left_plays_sub [OF anch at False] free_left_plays_sup [OF anch at(1) False] iff [OF that] short by blast
    qed
  qed
  have "?l = {mset (map (laid_at h r) lay) | r lay. ?play r lay}"
  proof (intro subset_antisym subsetI)
    fix x assume "x \<in> ?l"
    then obtain r a where a: "(r, a) \<in> set ?A"
      and x: "x \<in> line_placements (?cf (r, a)) (line_plays (?cf (r, a)) (\<lambda>c. (r, c) \<in> set ?A) (rack_counts rack) (rack_blanks ab rack))"
      using same by fastforce
    then obtain lay where "?play r lay" "x = mset (map (laid_at h r) lay)"
      using iff [OF a] by (auto simp: line_placements_def laid_tile_at)
    then show "x \<in> {mset (map (laid_at h r) lay) | r lay. ?play r lay}" by blast
  next
    fix x assume "x \<in> {mset (map (laid_at h r) lay) | r lay. ?play r lay}"
    then obtain r lay where play: "?play r lay" and x: "x = mset (map (laid_at h r) lay)" by blast
    define a where "a = Min {c \<in> columns lay. (r, c) \<in> set ?A}"
    have fin: "finite {c \<in> columns lay. (r, c) \<in> set ?A}" "{c \<in> columns lay. (r, c) \<in> set ?A} \<noteq> {}"
      using play by (auto simp: play_ok_def columns_def)
    have a: "a \<in> columns lay" "(r, a) \<in> set ?A" using Min_in [OF fin] by (auto simp: a_def)
    have "\<forall>c\<in>columns lay. c < a \<longrightarrow> (r, c) \<notin> set ?A"
      using Min_le [OF fin(1)] by (auto simp: a_def not_less [symmetric])
    then have "lay \<in> line_plays (?cf (r, a)) (\<lambda>c. (r, c) \<in> set ?A) (rack_counts rack) (rack_blanks ab rack)"
      using iff [OF a(2)] play a(1) by blast
    then have "x \<in> line_placements (?cf (r, a)) (anchor_plays (?cf (r, a)) (\<lambda>c. (r, c) \<in> set ?A) (rack_counts rack) (rack_blanks ab rack))"
      unfolding same [OF a(2)] by (auto simp: line_placements_def laid_tile_at x)
    then show "x \<in> ?l" using a(2) by force
  qed
  also have "\<dots> = ?r"
  proof (intro subset_antisym subsetI)
    fix x assume "x \<in> {mset (map (laid_at h r) lay) | r lay. ?play r lay}"
    then obtain r lay where play: "?play r lay" and x: "x = mset (map (laid_at h r) lay)" by blast
    then have "increasing lay" "r < BOARD_SIZE" by (auto simp: play_ok_def)
    from searchable_laid [OF b this] play show "x \<in> ?r" unfolding x by blast
  next
    fix x assume "x \<in> ?r"
    then obtain ps where ps: "searchable b (rack_tiles ab rack) (vocab_contains vocab) ok h ps" and x: "x = mset ps" by blast
    obtain r lay where lay: "r < BOARD_SIZE" "increasing lay" "mset (map (laid_at h r) lay) = mset ps"
      using placement_as_play [of ps h] ps by (auto simp: searchable_def)
    have "?play r lay" using ps searchable_laid [OF b lay(2,1)] searchable_perm [OF lay(3)] by blast
    then show "x \<in> {mset (map (laid_at h r) lay) | r lay. ?play r lay}" unfolding x lay(3) [symmetric] by blast
  qed
  finally show ?thesis .
qed

lemma mark_allowed_cong:
  "(\<And>sq l w. (sq, l, w) \<in> set es \<Longrightarrow> ok w = ok' w) \<Longrightarrow> mark_allowed ok es m = mark_allowed ok' es m"
proof (induction es arbitrary: m)
  case (Cons e es)
  obtain sq l w where e: "e = (sq, l, w)" by (cases e)
  have "ok w = ok' w" using Cons.prems [of sq l w] by (simp add: e)
  moreover have "mark_allowed ok es m' = mark_allowed ok' es m'" for m'
    using Cons.prems by (intro Cons.IH) (meson list.set_intros(2))
  ultimately show ?case by (simp add: e mark_allowed_Cons)
qed (simp add: mark_allowed_def)

lemma known_or_valid:
  "w \<in> set ws \<Longrightarrow> (P w \<or> w \<in> (if filter (\<lambda>w. \<not> P w) ws = [] then {} else {w \<in> set (filter (\<lambda>w. \<not> P w) ws). Q w}))
     \<longleftrightarrow> P w \<or> Q w"
  by (auto simp: filter_empty_conv)

lemma allowed_letters_masks:
  "allowed_letters (\<lambda>ws. {w \<in> set ws. valid w}) (ctx0, ctx1) ls vocab =
     (mark_allowed (\<lambda>w. vocab_contains vocab w \<or> valid w) (cross_entries ctx0 ls) (map (\<lambda>(sq, _). (sq, 0)) ctx0),
      mark_allowed (\<lambda>w. vocab_contains vocab w \<or> valid w) (cross_entries ctx1 ls) (map (\<lambda>(sq, _). (sq, 0)) ctx1))"
proof -
  let ?es0 = "cross_entries ctx0 ls" and ?es1 = "cross_entries ctx1 ls"
  let ?unknown = "filter (\<lambda>w. \<not> vocab_contains vocab w) (map (\<lambda>(_, _, w). w) (?es0 @ ?es1))"
  let ?valid = "if ?unknown = [] then {} else {w \<in> set ?unknown. valid w}"
  have *: "w \<in> set (map (\<lambda>(_, _, w). w) (?es0 @ ?es1)) \<Longrightarrow> (vocab_contains vocab w \<or> w \<in> ?valid) = (vocab_contains vocab w \<or> valid w)" for w
    by (rule known_or_valid)
  have word: "w \<in> set (map (\<lambda>(_, _, w). w) (?es0 @ ?es1))" if "(sq, l, w) \<in> set ?es0 \<union> set ?es1" for sq l w
    using imageI [OF that, of "\<lambda>(_, _, w). w"] by (simp add: image_Un)
  show ?thesis
    unfolding allowed_letters_def Let_def prod.case prod.inject
    by (intro conjI mark_allowed_cong * word) auto
qed

lemma line_rows_turned: "(\<lambda>c r. line_row b True r c) = line_row b False"
  by (intro ext) (simp add: line_row_turn [of b True])

definition found_placements ::
  "board \<Rightarrow> tile list \<Rightarrow> vocabulary \<Rightarrow> (str \<Rightarrow> bool) \<Rightarrow> placed multiset set" where
  "found_placements b rack vocab valid =
     mset ` {ps. \<exists>h. (board_is_empty b \<longrightarrow> h) \<and> searchable b rack (vocab_contains vocab) (\<lambda>w. vocab_contains vocab w \<or> valid w) h ps}"

lemma found_tiles_spec:
  fixes ab :: bool and late :: "nat \<Rightarrow> bool" and valid :: "str \<Rightarrow> bool"
  assumes b: "lettered b" and v: "prefixes_ok vocab" and small: "length rack \<le> HAND_SIZE"
  defines "found \<equiv> found_tiles (\<lambda>ws. {w \<in> set ws. valid w}) late b rack vocab ab"
  shows "mset ` set found \<subseteq> found_placements b (rack_tiles ab rack) vocab valid"
    and "\<forall>n. \<not> late n \<Longrightarrow> mset ` set found = found_placements b (rack_tiles ab rack) vocab valid"
    and "distinct (map mset found)"
proof -
  have okb: "board_ok b" using b by (simp add: lettered_def)
  let ?ok = "\<lambda>w. vocab_contains vocab w \<or> valid w"
  define ls where "ls = (if 0 < rack_blanks ab rack then letters else map Tile (filter (\<lambda>i. 0 < rack_counts rack ! i) [1..<39]))"
  define masks where "masks h = mark_allowed ?ok (cross_entries (contexts_of (line_row b h)) ls)
      (map (\<lambda>(sq, _). (sq, 0)) (contexts_of (line_row b h)))" for h
  define srch where "srch h = search (line_row b h) (masks h) (direction_anchors b h) (rack_counts rack) (rack_blanks ab rack) vocab late (\<not> h)" for h
  define S where "S h = mset ` {ps. searchable b (rack_tiles ab rack) (vocab_contains vocab) ?ok h ps}" for h
  define st0 where "st0 = \<lparr>ticks = 0, s_found = \<lparr>f_index = [], f_list = []\<rparr>\<rparr>"
  define final where "final = and_then (srch True st0) (if board_is_empty b then Pair True else srch False)"
  have col: "collects late (srch h) (S h)" for h
    using search_collects [OF v, of "direction_anchors b h" "line_row b h" late "masks h" "rack_counts rack" "rack_blanks ab rack" "\<not> h"]
      anchors_free(3) [OF okb]
      direction_placements [OF b small ls_def masks_def [of h], of vocab late]
    unfolding srch_def S_def by auto
  have "collects late (if board_is_empty b then Pair True else srch False) (if board_is_empty b then {} else S False)"
    using col by (auto simp: collects_skip)
  from collects_and_then [OF col [of True] this]
  have all: "collects late (\<lambda>st. and_then (srch True st) (if board_is_empty b then Pair True else srch False))
      (found_placements b (rack_tiles ab rack) vocab valid)"
    by (rule collects_mono) (auto simp: S_def found_placements_def ex_bool_eq image_iff)
  have start: "found_ok st0" "found_keys st0 = {}" by (simp_all add: st0_def found_ok_def found_keys_def)
  have found: "found = f_list (s_found (snd final))"
    unfolding found_def found_tiles_def Let_def grid_of_rows(1) line_rows_turned allowed_letters_masks fst_conv snd_conv final_def srch_def masks_def ls_def
      direction_anchors_def st0_def
    by (cases "board_is_empty b") (simp_all add: and_then_def case_prod_unfold)
  note F = collectsD [OF all start(1), of "fst final" "snd final"]
  have final: "and_then (srch True st0) (if board_is_empty b then Pair True else srch False) = (fst final, snd final)"
    by (simp add: final_def)
  have keys: "found_keys (snd final) = mset ` set found" by (simp add: found_keys_def found)
  show "mset ` set found \<subseteq> found_placements b (rack_tiles ab rack) vocab valid"
    using F(3) [OF final] start(2) keys by simp
  show "\<forall>n. \<not> late n \<Longrightarrow> mset ` set found = found_placements b (rack_tiles ab rack) vocab valid"
    using F(3,4,5) [OF final] start(2) keys by auto
  show "distinct (map mset found)"
    using F(1) [OF final] by (simp add: found_ok_def found)
qed

end
