(* ===== verification/AffixRules.thy ===== *)
theory AffixRules
  imports Tiles "HOL-Library.Word" "HOL-Library.Sublist"
begin

text \<open>
  The first half of \<^verbatim>\<open>src/src/words/affix.rs\<close>: byte-level text helpers, the conditions of the affix
  rules (simple regular expressions), the rules themselves and the risk of a derivation. Bytes are
  numbers below 256; flags are bytes.
\<close>

unbundle bit_operations_syntax

section \<open>Bytes\<close>

type_synonym bytes = "nat list"

fun split_by :: "('a \<Rightarrow> bool) \<Rightarrow> 'a list \<Rightarrow> 'a list list" where
  "split_by P [] = [[]]"
| "split_by P (x # xs) =
     (if P x then [] # split_by P xs
      else case split_by P xs of [] \<Rightarrow> [[x]] | ys # yss \<Rightarrow> (x # ys) # yss)"

definition trim_by :: "('a \<Rightarrow> bool) \<Rightarrow> 'a list \<Rightarrow> 'a list" where
  "trim_by P xs = rev (dropWhile P (rev (dropWhile P xs)))"

definition is_ws :: "nat \<Rightarrow> bool" where
  "is_ws b \<longleftrightarrow> b = 32 \<or> 9 \<le> b \<and> b \<le> 13"

definition trim_ws :: "bytes \<Rightarrow> bytes" where
  "trim_ws text = trim_by is_ws text"

definition trim_chars :: "bytes \<Rightarrow> bytes \<Rightarrow> bytes" where
  "trim_chars text chars = trim_by (\<lambda>b. b \<in> set chars) text"

function split_runs :: "('a \<Rightarrow> bool) \<Rightarrow> 'a list \<Rightarrow> 'a list list" where
  "split_runs P xs =
     (let rest = dropWhile (\<lambda>x. \<not> P x) xs
      in if rest = [] then [takeWhile (\<lambda>x. \<not> P x) xs]
         else takeWhile (\<lambda>x. \<not> P x) xs # split_runs P (dropWhile P rest))"
  by pat_completeness auto

termination
proof (relation "measure (\<lambda>(_, xs). length xs)")
  fix P :: "'a \<Rightarrow> bool" and xs rest
  assume rest: "rest = dropWhile (\<lambda>x. \<not> P x) xs" "rest \<noteq> []"
  then have "P (hd rest)" using hd_dropWhile by force
  then have "length (dropWhile P rest) < length rest"
    using rest(2) by (cases rest) (auto simp: length_dropWhile_le less_Suc_eq_le)
  also have "length rest \<le> length xs" using rest(1) by (simp add: length_dropWhile_le)
  finally show "((P, dropWhile P rest), (P, xs)) \<in> measure (\<lambda>(_, xs). length xs)" by simp
qed simp

declare split_runs.simps [simp del]

definition split_ws :: "bytes \<Rightarrow> bytes list" where
  "split_ws line =
     split_runs (\<lambda>b. b = 32 \<or> b = 9) (trim_by (\<lambda>b. b = 32 \<or> b = 9 \<or> b = 13) line)"

definition split_ascii_ws :: "bytes \<Rightarrow> bytes list" where
  "split_ascii_ws text = filter (\<lambda>t. t \<noteq> []) (split_by is_ws text)"

definition contains_subslice :: "bytes \<Rightarrow> bytes \<Rightarrow> bool" where
  "contains_subslice haystack needle \<longleftrightarrow> needle = [] \<or> sublist needle haystack"

definition is_digits :: "bytes \<Rightarrow> bool" where
  "is_digits token \<longleftrightarrow> token \<noteq> [] \<and> list_all is_digit token"

definition parse_usize :: "bytes \<Rightarrow> nat option" where
  "parse_usize token =
     (let digits = (case token of c # cs \<Rightarrow> if c = 43 then cs else token | [] \<Rightarrow> [])
      in if is_digits digits \<and> read_nat 0 digits < 2 ^ 64 then Some (read_nat 0 digits) else None)"

text \<open>
  \<^verbatim>\<open>String::from_utf8_lossy\<close>: every maximal ill-formed prefix of a sequence becomes one U+FFFD.
  \<open>utf8_second\<close> is the range of the second byte after a given first byte, with the number of bytes.
\<close>

definition utf8_second :: "nat \<Rightarrow> (nat \<times> nat \<times> nat) option" where
  "utf8_second b =
     (if 194 \<le> b \<and> b \<le> 223 then Some (2, 128, 191)
      else if b = 224 then Some (3, 160, 191)
      else if b = 237 then Some (3, 128, 159)
      else if 225 \<le> b \<and> b \<le> 239 then Some (3, 128, 191)
      else if b = 240 then Some (4, 144, 191)
      else if 241 \<le> b \<and> b \<le> 243 then Some (4, 128, 191)
      else if b = 244 then Some (4, 128, 143)
      else None)"

definition utf8_cont :: "nat \<Rightarrow> bool" where
  "utf8_cont b \<longleftrightarrow> 128 \<le> b \<and> b \<le> 191"

text \<open>The next character and how many bytes after the first it takes.\<close>

fun utf8_step :: "nat \<Rightarrow> bytes \<Rightarrow> nat \<times> nat" where
  "utf8_step b bs =
     (if b < 128 then (b, 0)
      else case utf8_second b of
        None \<Rightarrow> (65533, 0)
      | Some (len, lo, hi) \<Rightarrow>
          (case bs of
             b2 # bs' \<Rightarrow>
               if \<not> (lo \<le> b2 \<and> b2 \<le> hi) then (65533, 0)
               else if len = 2 then ((b mod 32) * 64 + b2 mod 64, 1)
               else (case bs' of
                  b3 # bs'' \<Rightarrow>
                    if \<not> utf8_cont b3 then (65533, 1)
                    else if len = 3 then ((b mod 16) * 4096 + (b2 mod 64) * 64 + b3 mod 64, 2)
                    else (case bs'' of
                       b4 # _ \<Rightarrow>
                         if \<not> utf8_cont b4 then (65533, 2)
                         else ((b mod 8) * 262144 + (b2 mod 64) * 4096 + (b3 mod 64) * 64 + b4 mod 64, 3)
                     | [] \<Rightarrow> (65533, 2))
                | [] \<Rightarrow> (65533, 1))
           | [] \<Rightarrow> (65533, 0)))"

declare utf8_step.simps [simp del]

function lossy :: "bytes \<Rightarrow> str" where
  "lossy [] = []"
| "lossy (b # bs) = fst (utf8_step b bs) # lossy (drop (snd (utf8_step b bs)) bs)"
  by pat_completeness auto

termination
  by (relation "measure length") auto

section \<open>Conditions\<close>

datatype class_item = ClassChar nat | ClassRange nat nat

datatype cond_elem = AnyChar | Lit nat | CharClass bool "class_item list"

fun item_matches :: "class_item \<Rightarrow> nat \<Rightarrow> bool" where
  "item_matches (ClassChar x) c \<longleftrightarrow> x = c"
| "item_matches (ClassRange a b) c \<longleftrightarrow> a \<le> c \<and> c \<le> b"

fun elem_matches :: "cond_elem \<Rightarrow> nat \<Rightarrow> bool" where
  "elem_matches AnyChar c \<longleftrightarrow> c \<noteq> 10"
| "elem_matches (Lit l) c \<longleftrightarrow> l = c"
| "elem_matches (CharClass negated items) c \<longleftrightarrow> list_ex (\<lambda>item. item_matches item c) items \<noteq> negated"

text \<open>The inside of a class, up to the closing bracket; a bracket in the first place is a member.\<close>

function parse_class :: "bool \<Rightarrow> str \<Rightarrow> (class_item list \<times> str) option" where
  "parse_class first [] = None"
| "parse_class first (ch # rest) =
     (if ch = 93 \<and> \<not> first then Some ([], rest)
      else case rest of
        d # b # rest' \<Rightarrow>
          if d = 45 \<and> b \<noteq> 93 then
            if b < ch then None
            else map_option (\<lambda>(items, r). (ClassRange ch b # items, r)) (parse_class False rest')
          else map_option (\<lambda>(items, r). (ClassChar ch # items, r)) (parse_class False rest)
      | _ \<Rightarrow> map_option (\<lambda>(items, r). (ClassChar ch # items, r)) (parse_class False rest))"
  by pat_completeness auto

termination
  by (relation "measure (\<lambda>(_, s). length s)") auto

lemma parse_class_shorter:
  "parse_class first s = Some (items, r) \<Longrightarrow> length r < length s"
proof (induction first s arbitrary: items r rule: parse_class.induct)
  case (2 first ch rest)
  then show ?case
    by (auto simp del: parse_class.simps(2) simp: parse_class.simps(2) [of first ch rest]
        split: if_splits list.splits) fastforce+
qed simp

type_synonym cond = "cond_elem list"

function parse_cond :: "str \<Rightarrow> cond option" where
  "parse_cond [] = Some []"
| "parse_cond (c # cs) =
     (if c = 91 then
        (let negated = (cs \<noteq> [] \<and> hd cs = 94)
         in case parse_class True (if negated then tl cs else cs) of
              None \<Rightarrow> None
            | Some (items, rest) \<Rightarrow> map_option (\<lambda>es. CharClass negated items # es) (parse_cond rest))
      else map_option (\<lambda>es. (if c = 46 then AnyChar else Lit c) # es) (parse_cond cs))"
  by pat_completeness auto

termination
proof (relation "measure length")
  fix c cs negated x items rest
  assume "negated = (cs \<noteq> [] \<and> hd cs = 94)" "parse_class True (if negated then tl cs else cs) = Some x" "(items, rest) = x"
  then have "length rest < length (if negated then tl cs else cs)" using parse_class_shorter by metis
  then show "(rest, c # cs) \<in> measure length" by (auto split: if_splits)
qed auto

definition matches_end :: "cond \<Rightarrow> str \<Rightarrow> bool" where
  "matches_end elems w =
     (let chars = take (length elems) (rev w)
      in if length chars < length elems then False
         else list_all (\<lambda>(e, c). elem_matches e c) (zip (rev elems) chars))"

definition matches_start :: "cond \<Rightarrow> str \<Rightarrow> bool" where
  "matches_start elems w =
     (let chars = take (length elems) w
      in if length chars < length elems then False
         else list_all (\<lambda>(e, c). elem_matches e c) (zip elems chars))"

section \<open>Rules\<close>

datatype derived = DNoun | DAdj | DOther

fun derived_as_str :: "derived \<Rightarrow> str" where
  "derived_as_str DNoun = ascii ''noun''"
| "derived_as_str DAdj = ascii ''adj''"
| "derived_as_str DOther = ascii ''other''"

definition RISK_FAMILIAR :: "8 word" where "RISK_FAMILIAR = 1"
definition RISK_ESSIVE :: "8 word" where "RISK_ESSIVE = 2"
definition RISK_POSS :: "8 word" where "RISK_POSS = 4"
definition RISK_DERIVED :: "8 word" where "RISK_DERIVED = 8"
definition RISK_DERIVATION :: "8 word" where "RISK_DERIVATION = 16"
definition RISK_ALWAYS :: "8 word" where
  "RISK_ALWAYS = RISK_FAMILIAR OR RISK_DERIVED OR RISK_DERIVATION"

definition RISK_NAMES :: "(8 word \<times> str) list" where
  "RISK_NAMES =
    [(RISK_FAMILIAR, ascii ''familiar''), (RISK_ESSIVE, ascii ''essive''), (RISK_POSS, ascii ''possessive''),
     (RISK_DERIVED, ascii ''derived''), (RISK_DERIVATION, ascii ''derivation'')]"

definition KIND_ADJ :: "8 word" where "KIND_ADJ = 1"
definition KIND_FOREIGN :: "8 word" where "KIND_FOREIGN = 2"

definition RISKY_DERIVATIONS :: "bytes list" where
  "RISKY_DERIVATIONS = [ascii ''ds:n'' @ [195, 169] @ ascii ''_MRS_'']"
definition ADJ_LIKE_DERIVATIONS :: "bytes list" where
  "ADJ_LIKE_DERIVATIONS = [ascii ''ds:s_OCCUPATION_'']"
definition NOUN_LIKE_DERIVATIONS :: "bytes list" where
  "NOUN_LIKE_DERIVATIONS =
    [ascii ''ds:'' @ [195, 147] @ ascii ''_PRESPART_'', ascii ''ds:And'' @ [195, 147] @ ascii ''_FUTPART_'']"

definition derived_by :: "derived option \<Rightarrow> bytes \<Rightarrow> derived option" where
  "derived_by old token =
     (if list_ex (\<lambda>p. prefix p token) ADJ_LIKE_DERIVATIONS then Some DAdj
      else if list_ex (\<lambda>p. prefix p token) NOUN_LIKE_DERIVATIONS then Some DNoun
      else if prefix (ascii ''ds:'') token then
        Some (if suffix (ascii ''_noun'') token then DNoun
              else if suffix (ascii ''_adj'') token then DAdj else DOther)
      else if prefix (ascii ''is:'') token \<and> (suffix (ascii ''_adj'') token \<or> suffix (ascii ''_vrb'') token) then
        Some (if suffix (ascii ''_adj'') token then DAdj else DOther)
      else old)"

definition rule_risk :: "bytes \<Rightarrow> 8 word \<times> derived option" where
  "rule_risk morph =
     (if morph = [] then (0, None)
      else
        let tokens = split_ascii_ws morph;
            derived = foldl derived_by None tokens;
            r1 = (if list_ex (\<lambda>t. prefix (ascii ''is:'') t \<and> contains_subslice t (ascii ''_FAMILIAR'')) tokens
                  then RISK_FAMILIAR else 0);
            r2 = (if list_ex (\<lambda>t. t = ascii ''is:ESS'') tokens
                  then (case derived of Some DNoun \<Rightarrow> r1 OR RISK_DERIVED | None \<Rightarrow> r1 OR RISK_ESSIVE | _ \<Rightarrow> r1)
                  else r1);
            r3 = (if list_ex (\<lambda>t. list_ex (\<lambda>p. prefix p t) RISKY_DERIVATIONS) tokens
                  then r2 OR RISK_DERIVATION else r2);
            r4 = (if list_ex (\<lambda>t. prefix (ascii ''is:POSS'') t) tokens
                  then (case derived of Some DAdj \<Rightarrow> r3 OR RISK_DERIVED | None \<Rightarrow> r3 OR RISK_POSS | _ \<Rightarrow> r3)
                  else r3)
        in (r4, derived))"

record affix_rule =
  r_flag :: nat
  r_cross :: bool
  r_strip :: str
  r_add :: str
  r_cont :: "bytes option"
  r_cond :: "cond option"
  r_need_affix :: bool
  r_only_in_compound :: bool
  r_risk :: "8 word"
  r_derived :: "derived option"

definition cont_has :: "affix_rule \<Rightarrow> nat \<Rightarrow> bool" where
  "cont_has r flag \<longleftrightarrow> (case r_cont r of Some c \<Rightarrow> flag \<in> set c | None \<Rightarrow> False)"

definition cond_ok_suffix :: "affix_rule \<Rightarrow> str \<Rightarrow> bool" where
  "cond_ok_suffix r stem \<longleftrightarrow> (case r_cond r of Some c \<Rightarrow> matches_end c stem | None \<Rightarrow> True)"

definition cond_ok_prefix :: "affix_rule \<Rightarrow> str \<Rightarrow> bool" where
  "cond_ok_prefix r stem \<longleftrightarrow> (case r_cond r of Some c \<Rightarrow> matches_start c stem | None \<Rightarrow> True)"

definition has_bit :: "8 word \<Rightarrow> 8 word \<Rightarrow> bool" where
  "has_bit m b \<longleftrightarrow> m AND b \<noteq> 0"

definition is_risky :: "8 word \<Rightarrow> affix_rule \<Rightarrow> affix_rule option \<Rightarrow> bool" where
  "is_risky kind rule outer =
     (let adj = has_bit kind KIND_ADJ in
      if has_bit (r_risk rule) RISK_ALWAYS then True
      else if has_bit (r_risk rule) RISK_POSS \<and> adj \<or> has_bit (r_risk rule) RISK_ESSIVE \<and> \<not> adj then True
      else case outer of
        None \<Rightarrow> False
      | Some out \<Rightarrow>
          if has_bit (r_risk out) RISK_ALWAYS then True
          else
            let inner_adj = (r_derived rule = Some DAdj \<or> r_derived rule = None \<and> adj)
            in has_bit (r_risk out) RISK_POSS \<and> inner_adj \<or> has_bit (r_risk out) RISK_ESSIVE \<and> \<not> inner_adj)"

record dict_entry =
  e_flags :: bytes
  e_kind :: "8 word"

definition has_pos :: "bytes \<Rightarrow> bytes \<Rightarrow> bool" where
  "has_pos morph p \<longleftrightarrow>
     list_ex (\<lambda>t. length t = length p + 3 \<and> prefix (ascii ''po:'') t \<and> drop 3 t = p) (split_ascii_ws morph)"

definition entry_kind :: "bytes \<Rightarrow> bytes \<Rightarrow> 8 word" where
  "entry_kind word morph =
     (let k1 = (if has_pos morph (ascii ''adj'') then KIND_ADJ else 0);
          needle = ascii ''al:'' @ word @ [45]
      in if contains_subslice morph needle \<and> has_pos morph (ascii ''noun'') then k1 OR KIND_FOREIGN else k1)"

end
