(* ===== verification/AffixLoad.thy ===== *)
theory AffixLoad
  imports AffixRules
begin

text \<open>
  Reading the \<^verbatim>\<open>.aff\<close> and \<^verbatim>\<open>.dic\<close> files: \<^verbatim>\<open>Loader\<close>, \<^verbatim>\<open>AffixChecker::from_bytes\<close>,
  \<^verbatim>\<open>load_aff\<close>, \<^verbatim>\<open>add_rule\<close>, \<^verbatim>\<open>load_dic\<close> and \<^verbatim>\<open>load_attested\<close> of \<^verbatim>\<open>src/src/words/affix.rs\<close>.
  The hash maps are association lists with one entry per key.
\<close>

section \<open>The tables\<close>

record affix_checker =
  needaffix :: "nat option"
  onlyincompound :: "nat option"
  forbidden :: "nat option"
  prefixes :: "(str \<times> affix_rule list) list"
  suffixes :: "(str \<times> affix_rule list) list"
  cont_flags :: "nat set"
  entries :: "(str \<times> dict_entry list) list"
  attested :: "str set option"

record loader =
  aliases :: "bytes list"
  aliases_defined :: bool
  morph_aliases :: "bytes list"
  morph_aliases_defined :: bool

text \<open>\<^verbatim>\<open>entry(key).or_default().push(v)\<close>.\<close>

definition push_entry :: "'k \<Rightarrow> 'v \<Rightarrow> ('k \<times> 'v list) list \<Rightarrow> ('k \<times> 'v list) list" where
  "push_entry k v m = AList.map_default k [v] (\<lambda>vs. vs @ [v]) m"

definition loader_alias :: "loader \<Rightarrow> bytes \<Rightarrow> bytes option" where
  "loader_alias ld token =
     (if token = [] then None
      else if aliases_defined ld \<and> is_digits token then
        (case parse_usize token of
           None \<Rightarrow> None
         | Some index \<Rightarrow>
             if 0 < index \<and> index < length (aliases ld) then Some (aliases ld ! index) else None)
      else Some token)"

definition loader_morph :: "loader \<Rightarrow> bytes \<Rightarrow> bytes" where
  "loader_morph ld fld =
     (let f = trim_ws fld in
      if f = [] then []
      else if morph_aliases_defined ld \<and> is_digits f then
        (case parse_usize f of
           Some index \<Rightarrow>
             if 0 < index \<and> index < length (morph_aliases ld) then morph_aliases ld ! index else []
         | None \<Rightarrow> [])
      else f)"

section \<open>Rules\<close>

text \<open>The bytes before and after the first separator.\<close>

definition cut_at :: "nat \<Rightarrow> bytes \<Rightarrow> bytes \<times> bytes" where
  "cut_at b xs = (takeWhile (\<lambda>x. x \<noteq> b) xs, drop 1 (dropWhile (\<lambda>x. x \<noteq> b) xs))"

fun join_bytes :: "bytes list \<Rightarrow> bytes" where
  "join_bytes [] = []"
| "join_bytes [p] = p"
| "join_bytes (p # q # ps) = p @ [32] @ join_bytes (q # ps)"

definition zero_empty :: "str \<Rightarrow> str" where
  "zero_empty s = (if s = ascii ''0'' then [] else s)"

definition flag_in :: "bytes option \<Rightarrow> nat option \<Rightarrow> bool" where
  "flag_in c f = (case (c, f) of (Some c', Some f') \<Rightarrow> f' \<in> set c' | _ \<Rightarrow> False)"

definition rule_cond :: "bytes list \<Rightarrow> cond option option" where
  "rule_cond parts =
     (let condition = (if 4 < length parts then lossy (parts ! 4) else ascii ''.'')
      in if condition \<noteq> ascii ''.''
         then (case parse_cond condition of Some c \<Rightarrow> Some (Some c) | None \<Rightarrow> None)
         else Some None)"

definition add_rule ::
  "bool \<Rightarrow> nat \<Rightarrow> bool \<Rightarrow> bytes list \<Rightarrow> loader \<Rightarrow> affix_checker \<Rightarrow> affix_checker" where
  "add_rule is_prefix flag cross parts ld chk =
     (case rule_cond parts of
        None \<Rightarrow> chk
      | Some cnd \<Rightarrow>
          let strip = zero_empty (lossy (parts ! 2));
              add = zero_empty (lossy (fst (cut_at 47 (parts ! 3))));
              cont_field = snd (cut_at 47 (parts ! 3));
              cont = (case (if cont_field = [] then None else loader_alias ld cont_field) of
                        Some c \<Rightarrow> if c = [] then None else Some c | None \<Rightarrow> None);
              risk = (if is_prefix then (0, None)
                      else rule_risk (loader_morph ld (join_bytes (drop 5 parts))));
              rule = \<lparr>r_flag = flag, r_cross = cross, r_strip = strip, r_add = add, r_cont = cont,
                      r_cond = cnd, r_need_affix = flag_in cont (needaffix chk),
                      r_only_in_compound = flag_in cont (onlyincompound chk),
                      r_risk = fst risk, r_derived = snd risk\<rparr>;
              chk1 = chk\<lparr>cont_flags := cont_flags chk \<union> (case cont of Some c \<Rightarrow> set c | None \<Rightarrow> {})\<rparr>
          in if is_prefix then chk1\<lparr>prefixes := push_entry add rule (prefixes chk1)\<rparr>
             else chk1\<lparr>suffixes := push_entry add rule (suffixes chk1)\<rparr>)"

section \<open>The affix file\<close>

text \<open>The state of the first pass: the two header flags, the loader, the checker, the collected rules.\<close>

record aff_pass =
  header_seen :: bool
  morph_header_seen :: bool
  the_loader :: loader
  the_checker :: affix_checker
  the_rules :: "(bool \<times> bytes list) list"

definition first_byte :: "bytes list \<Rightarrow> nat option" where
  "first_byte parts =
     (case drop 1 parts of (c # _) # _ \<Rightarrow> Some c | _ \<Rightarrow> None)"

definition aff_line :: "bytes \<Rightarrow> aff_pass \<Rightarrow> aff_pass" where
  "aff_line line st =
     (if line = [] \<or> hd line = 35 then st
      else
        let parts = split_ws line; key = hd parts in
        if key = ascii ''AF'' then
          (if \<not> header_seen st then st\<lparr>header_seen := True\<rparr>
           else st\<lparr>the_loader := (the_loader st)
                  \<lparr>aliases := aliases (the_loader st) @ [if 1 < length parts then parts ! 1 else []]\<rparr>\<rparr>)
        else if key = ascii ''AM'' then
          (if \<not> morph_header_seen st then st\<lparr>morph_header_seen := True\<rparr>
           else st\<lparr>the_loader := (the_loader st)
                  \<lparr>morph_aliases := morph_aliases (the_loader st) @ [trim_ws (drop 2 (trim_chars line [32, 9, 13]))]\<rparr>\<rparr>)
        else if key = ascii ''NEEDAFFIX'' then
          st\<lparr>the_checker := (the_checker st)\<lparr>needaffix := first_byte parts\<rparr>\<rparr>
        else if key = ascii ''ONLYROOT'' \<and> needaffix (the_checker st) = None then
          st\<lparr>the_checker := (the_checker st)\<lparr>needaffix := first_byte parts\<rparr>\<rparr>
        else if key = ascii ''ONLYINCOMPOUND'' then
          st\<lparr>the_checker := (the_checker st)\<lparr>onlyincompound := first_byte parts\<rparr>\<rparr>
        else if key = ascii ''FORBIDDENWORD'' then
          st\<lparr>the_checker := (the_checker st)\<lparr>forbidden := first_byte parts\<rparr>\<rparr>
        else if key = ascii ''PFX'' then st\<lparr>the_rules := the_rules st @ [(True, parts)]\<rparr>
        else if key = ascii ''SFX'' then st\<lparr>the_rules := the_rules st @ [(False, parts)]\<rparr>
        else st)"

text \<open>The second pass: headers of rule groups set the cross flag, the other lines are rules.\<close>

type_synonym cross_table = "(nat \<times> bool) list"

definition is_header :: "bytes list \<Rightarrow> bool" where
  "is_header parts \<longleftrightarrow>
     length parts = 4 \<and> (parts ! 2 = ascii ''Y'' \<or> parts ! 2 = ascii ''N'') \<and> is_digits (parts ! 3)"

definition rule_line ::
  "loader \<Rightarrow> bool \<times> bytes list \<Rightarrow> cross_table \<times> cross_table \<times> affix_checker
     \<Rightarrow> cross_table \<times> cross_table \<times> affix_checker" where
  "rule_line ld rl st =
     (case (rl, st) of ((is_prefix, parts), (pfx, sfx, chk)) \<Rightarrow>
        case first_byte parts of
          None \<Rightarrow> st
        | Some flag \<Rightarrow>
            if is_header parts then
              (if is_prefix then (AList.update flag (parts ! 2 = ascii ''Y'') pfx, sfx, chk)
               else (pfx, AList.update flag (parts ! 2 = ascii ''Y'') sfx, chk))
            else if length parts < 4 then st
            else
              let cross = (case map_of (if is_prefix then pfx else sfx) flag of Some b \<Rightarrow> b | None \<Rightarrow> False)
              in (pfx, sfx, add_rule is_prefix flag cross parts ld chk))"

definition load_aff :: "bytes list \<Rightarrow> loader \<Rightarrow> affix_checker \<Rightarrow> loader \<times> affix_checker" where
  "load_aff lines ld chk =
     (let st = fold aff_line lines
            \<lparr>header_seen = False, morph_header_seen = False, the_loader = ld, the_checker = chk, the_rules = []\<rparr>
      in (the_loader st,
          snd (snd (fold (rule_line (the_loader st)) (the_rules st) ([], [], the_checker st)))))"

section \<open>The word list\<close>

definition dic_entry :: "loader \<Rightarrow> bytes \<Rightarrow> affix_checker \<Rightarrow> affix_checker" where
  "dic_entry ld raw chk =
     (let line = rev (dropWhile (\<lambda>b. b = 13 \<or> b = 10) (rev raw)) in
      if line = [] then chk
      else
        let entry = fst (cut_at 9 line); morph_field = snd (cut_at 9 line);
            word = fst (cut_at 47 entry); flags0 = snd (cut_at 47 entry)
        in if 32 \<in> set word then chk
           else
             let flags = fst (cut_at 32 flags0);
                 flag_set = (if flags = [] then []
                             else case loader_alias ld flags of Some fs \<Rightarrow> fs | None \<Rightarrow> []);
                 kind = (if morph_field = [] then 0 else entry_kind word (loader_morph ld morph_field))
             in chk\<lparr>entries := push_entry (lossy word) \<lparr>e_flags = flag_set, e_kind = kind\<rparr> (entries chk)\<rparr>)"

definition load_dic :: "bytes \<Rightarrow> loader \<Rightarrow> affix_checker \<Rightarrow> affix_checker" where
  "load_dic dic ld chk =
     (let lines = split_by (\<lambda>b. b = 10) dic
      in fold (dic_entry ld) (if is_digits (trim_ws (hd lines)) then tl lines else lines) chk)"

definition from_bytes :: "bytes \<Rightarrow> bytes \<Rightarrow> str set option \<Rightarrow> affix_checker" where
  "from_bytes aff dic att =
     (let lines = split_by (\<lambda>b. b = 10) aff;
          ld = \<lparr>aliases = [[]], aliases_defined = list_ex (prefix (ascii ''AF '')) lines,
                morph_aliases = [[]], morph_aliases_defined = list_ex (prefix (ascii ''AM '')) lines\<rparr>;
          chk = \<lparr>needaffix = None, onlyincompound = None, forbidden = None, prefixes = [], suffixes = [],
                 cont_flags = {}, entries = [], attested = att\<rparr>
      in case load_aff lines ld chk of (ld', chk') \<Rightarrow> load_dic dic ld' chk')"

section \<open>The list of attested words\<close>

text \<open>
  \<^verbatim>\<open>str::to_lowercase\<close>: the ASCII letters and the capitals of the blocks Latin-1 Supplement and
  Latin Extended-A (the only ones a Hungarian word list holds); other scripts stay as they are.
\<close>

definition lower_char :: "nat \<Rightarrow> str" where
  "lower_char c =
     (if 65 \<le> c \<and> c \<le> 90 then [c + 32]
      else if 192 \<le> c \<and> c \<le> 222 \<and> c \<noteq> 215 then [c + 32]
      else if c = 304 then [105, 775]
      else if c = 376 then [255]
      else if 256 \<le> c \<and> c \<le> 310 \<and> even c \<or> 313 \<le> c \<and> c \<le> 327 \<and> odd c
           \<or> 330 \<le> c \<and> c \<le> 374 \<and> even c \<or> 377 \<le> c \<and> c \<le> 381 \<and> odd c then [c + 1]
      else [c])"

definition to_lowercase :: "str \<Rightarrow> str" where
  "to_lowercase s = concat (map lower_char s)"

text \<open>\<^verbatim>\<open>str::lines\<close>: split at line feeds, each with the return before it; no final empty line.\<close>

definition chomp_cr :: "str \<Rightarrow> str" where
  "chomp_cr l = (if l \<noteq> [] \<and> last l = 13 then butlast l else l)"

definition text_lines :: "str \<Rightarrow> str list" where
  "text_lines s =
     (let ls = split_by (\<lambda>c. c = 10) s
      in map chomp_cr (butlast ls) @ (if last ls = [] then [] else [last ls]))"

definition attested_of :: "bytes \<Rightarrow> str set" where
  "attested_of file =
     set (map to_lowercase
       (filter (\<lambda>w. w \<noteq> [] \<and> hd w \<noteq> 35) (map trim (text_lines (lossy file)))))"

end
