(* ===== verification/AffixCheck.thy ===== *)
theory AffixCheck
  imports AffixLoad "HOL-Library.List_Lexorder"
begin

text \<open>
  Looking words up: the search for a stem and its affixes, the explanation of a word and the
  generation of inflected forms, of \<^verbatim>\<open>src/src/words/affix.rs\<close>.
\<close>

definition MAX_AFFIX_LEN :: nat where "MAX_AFFIX_LEN = 40"

section \<open>Entries\<close>

definition has_entry :: "affix_checker \<Rightarrow> str \<Rightarrow> bool" where
  "has_entry chk w \<longleftrightarrow> map_of (entries chk) w \<noteq> None"

definition entry_count :: "affix_checker \<Rightarrow> nat" where
  "entry_count chk = length (entries chk)"

definition entry_words :: "affix_checker \<Rightarrow> str list" where
  "entry_words chk = map fst (entries chk)"

definition flagged :: "nat option \<Rightarrow> dict_entry \<Rightarrow> bool" where
  "flagged f e \<longleftrightarrow> (case f of Some b \<Rightarrow> b \<in> set (e_flags e) | None \<Rightarrow> False)"

definition usable :: "affix_checker \<Rightarrow> dict_entry \<Rightarrow> bool" where
  "usable chk e \<longleftrightarrow>
     \<not> has_bit (e_kind e) KIND_FOREIGN \<and> \<not> flagged (forbidden chk) e \<and> \<not> flagged (onlyincompound chk) e"

definition entries_of :: "affix_checker \<Rightarrow> str \<Rightarrow> dict_entry list" where
  "entries_of chk w = (case map_of (entries chk) w of Some es \<Rightarrow> es | None \<Rightarrow> [])"

definition usable_entries :: "affix_checker \<Rightarrow> str \<Rightarrow> dict_entry list" where
  "usable_entries chk w = filter (usable chk) (entries_of chk w)"

definition is_forbidden :: "affix_checker \<Rightarrow> str \<Rightarrow> bool" where
  "is_forbidden chk w \<longleftrightarrow> list_ex (flagged (forbidden chk)) (entries_of chk w)"

definition has_stem :: "affix_checker \<Rightarrow> str \<Rightarrow> bool" where
  "has_stem chk w \<longleftrightarrow>
     \<not> is_forbidden chk w \<and> list_ex (\<lambda>e. \<not> flagged (needaffix chk) e) (usable_entries chk w)"

section \<open>One and two suffixes, a prefix\<close>

text \<open>
  The part of the test that an entry has to pass for a rule, the crossed prefix and the outer
  suffix; \<open>opt_ok\<close> is Rust's \<^verbatim>\<open>is_some_and\<close>.
\<close>

definition opt_ok :: "('a \<Rightarrow> bool) \<Rightarrow> 'a option \<Rightarrow> bool" where
  "opt_ok P x \<longleftrightarrow> (case x of Some y \<Rightarrow> P y | None \<Rightarrow> False)"

definition entry_takes ::
  "dict_entry \<Rightarrow> affix_rule \<Rightarrow> affix_rule option \<Rightarrow> nat option \<Rightarrow> bool" where
  "entry_takes e rule pfx outer_flag \<longleftrightarrow>
     \<not> (r_flag rule \<notin> set (e_flags e) \<and> \<not> opt_ok (\<lambda>p. cont_has p (r_flag rule)) pfx)
     \<and> \<not> opt_ok (\<lambda>p. r_flag p \<notin> set (e_flags e) \<and> \<not> cont_has rule (r_flag p)) pfx
     \<and> \<not> opt_ok (\<lambda>f. \<not> cont_has rule f) outer_flag"

definition stem_ok ::
  "affix_checker \<Rightarrow> str \<Rightarrow> affix_rule \<Rightarrow> affix_rule option \<Rightarrow> nat option \<Rightarrow> affix_rule option \<Rightarrow> bool \<Rightarrow> bool" where
  "stem_ok chk stem rule pfx outer_flag outer_rule allow_risky \<longleftrightarrow>
     list_ex (\<lambda>e. entry_takes e rule pfx outer_flag \<and> (allow_risky \<or> \<not> is_risky (e_kind e) rule outer_rule))
       (usable_entries chk stem)"

definition suffix_candidates :: "affix_checker \<Rightarrow> str \<Rightarrow> (str \<times> affix_rule list) list" where
  "suffix_candidates chk w =
     List.map_filter (\<lambda>k. map_option (Pair (drop (length w - k) w)) (map_of (suffixes chk) (drop (length w - k) w)))
       [0..<Suc (min (length w - 1) MAX_AFFIX_LEN)]"

definition prefix_candidates :: "affix_checker \<Rightarrow> str \<Rightarrow> (str \<times> affix_rule list) list" where
  "prefix_candidates chk w =
     List.map_filter (\<lambda>k. map_option (Pair (take k w)) (map_of (prefixes chk) (take k w)))
       [0..<Suc (min (length w - 1) MAX_AFFIX_LEN)]"

text \<open>The word without the affix, with what the rule had stripped.\<close>

definition unsuffix :: "str \<Rightarrow> str \<Rightarrow> affix_rule \<Rightarrow> str" where
  "unsuffix w add rule = take (length w - length add) w @ r_strip rule"

definition unprefix :: "str \<Rightarrow> str \<Rightarrow> affix_rule \<Rightarrow> str" where
  "unprefix w add rule = r_strip rule @ drop (length add) w"

text \<open>The guards of the loop of \<^verbatim>\<open>suffix_check\<close> (and of \<^verbatim>\<open>suffix_hits\<close>), before the stem is looked up.\<close>

definition suffix_applies :: "affix_rule option \<Rightarrow> nat option \<Rightarrow> affix_rule \<Rightarrow> bool" where
  "suffix_applies pfx outer_flag rule \<longleftrightarrow>
     \<not> (outer_flag \<noteq> None \<and> r_cont rule = None)
     \<and> \<not> r_only_in_compound rule
     \<and> \<not> (outer_flag = None \<and> r_need_affix rule \<and> \<not> opt_ok (\<lambda>p. \<not> r_need_affix p) pfx)
     \<and> \<not> opt_ok (\<lambda>p. \<not> (r_cross rule \<and> r_cross p)) pfx"

definition suffix_check ::
  "affix_checker \<Rightarrow> str \<Rightarrow> affix_rule option \<Rightarrow> nat option \<Rightarrow> affix_rule option \<Rightarrow> bool \<Rightarrow> bool" where
  "suffix_check chk w pfx outer_flag outer_rule allow_risky \<longleftrightarrow>
     list_ex (\<lambda>(add, rules).
         list_ex (\<lambda>rule. suffix_applies pfx outer_flag rule
             \<and> cond_ok_suffix rule (unsuffix w add rule)
             \<and> stem_ok chk (unsuffix w add rule) rule pfx outer_flag outer_rule allow_risky) rules)
       (suffix_candidates chk w)"

definition outer_applies :: "affix_checker \<Rightarrow> affix_rule option \<Rightarrow> affix_rule \<Rightarrow> bool" where
  "outer_applies chk pfx rule \<longleftrightarrow>
     r_flag rule \<in> cont_flags chk \<and> \<not> r_only_in_compound rule
     \<and> \<not> opt_ok (\<lambda>p. \<not> (r_cross rule \<and> r_cross p)) pfx"

definition inner_prefix :: "affix_rule option \<Rightarrow> affix_rule \<Rightarrow> affix_rule option" where
  "inner_prefix pfx rule =
     (case pfx of Some p \<Rightarrow> if \<not> cont_has rule (r_flag p) then Some p else None | None \<Rightarrow> None)"

definition suffix_check_two :: "affix_checker \<Rightarrow> str \<Rightarrow> affix_rule option \<Rightarrow> bool \<Rightarrow> bool" where
  "suffix_check_two chk w pfx allow_risky \<longleftrightarrow>
     list_ex (\<lambda>(add, rules).
         list_ex (\<lambda>rule. outer_applies chk pfx rule
             \<and> cond_ok_suffix rule (unsuffix w add rule)
             \<and> suffix_check chk (unsuffix w add rule) (inner_prefix pfx rule) (Some (r_flag rule)) (Some rule) allow_risky)
           rules)
       (suffix_candidates chk w)"

definition prefix_check :: "affix_checker \<Rightarrow> str \<Rightarrow> bool \<Rightarrow> bool \<Rightarrow> bool" where
  "prefix_check chk w two_suffixes allow_risky \<longleftrightarrow>
     list_ex (\<lambda>(add, rules).
         list_ex (\<lambda>rule. \<not> r_only_in_compound rule
             \<and> cond_ok_prefix rule (unprefix w add rule)
             \<and> (if \<not> two_suffixes
                then list_ex (\<lambda>e. r_flag rule \<in> set (e_flags e)) (usable_entries chk (unprefix w add rule))
                  \<or> r_cross rule \<and> suffix_check chk (unprefix w add rule) (Some rule) None None allow_risky
                else r_cross rule \<and> suffix_check_two chk (unprefix w add rule) (Some rule) allow_risky))
           rules)
       (prefix_candidates chk w)"

section \<open>The verdicts\<close>

definition compute :: "affix_checker \<Rightarrow> str \<Rightarrow> bool \<Rightarrow> bool" where
  "compute chk w allow_risky \<longleftrightarrow>
     (if is_forbidden chk w then False
      else if has_stem chk w then True
      else if prefix_check chk w False allow_risky then True
      else if suffix_check chk w None None None allow_risky then True
      else if suffix_check_two chk w None allow_risky then True
      else prefix_check chk w True allow_risky)"

definition risky_allowed :: "affix_checker \<Rightarrow> str \<Rightarrow> bool" where
  "risky_allowed chk w \<longleftrightarrow> (case attested chk of Some a \<Rightarrow> w \<in> a | None \<Rightarrow> True)"

definition check_word :: "affix_checker \<Rightarrow> str \<Rightarrow> bool" where
  "check_word chk w \<longleftrightarrow> compute chk w (risky_allowed chk w)"

definition needs_attestation :: "affix_checker \<Rightarrow> str \<Rightarrow> bool" where
  "needs_attestation chk w \<longleftrightarrow> \<not> compute chk w False \<and> compute chk w True"

definition valid_without_risky :: "affix_checker \<Rightarrow> str \<Rightarrow> bool" where
  "valid_without_risky chk w \<longleftrightarrow> compute chk w False"

definition is_attested :: "affix_checker \<Rightarrow> str \<Rightarrow> bool" where
  "is_attested chk w \<longleftrightarrow> (case attested chk of Some a \<Rightarrow> w \<in> a | None \<Rightarrow> False)"

definition has_attested_list :: "affix_checker \<Rightarrow> bool" where
  "has_attested_list chk \<longleftrightarrow> attested chk \<noteq> None"

section \<open>Explanations\<close>

record explanation =
  x_stem :: str
  x_prefix :: "str option"
  x_suffixes :: "str list"
  x_risky :: bool
  x_risk :: "str list"
  x_adjective :: bool
  x_derived :: "str option"

definition matching_kind ::
  "affix_checker \<Rightarrow> str \<Rightarrow> affix_rule \<Rightarrow> affix_rule option \<Rightarrow> nat option \<Rightarrow> 8 word option" where
  "matching_kind chk stem rule pfx outer_flag =
     map_option e_kind (List.find (\<lambda>e. entry_takes e rule pfx outer_flag) (usable_entries chk stem))"

definition suffix_hits ::
  "affix_checker \<Rightarrow> str \<Rightarrow> affix_rule option \<Rightarrow> nat option \<Rightarrow> (affix_rule \<times> str \<times> 8 word) list" where
  "suffix_hits chk w pfx outer_flag =
     concat (map (\<lambda>(add, rules).
         List.map_filter (\<lambda>rule.
             if suffix_applies pfx outer_flag rule \<and> cond_ok_suffix rule (unsuffix w add rule)
             then map_option (\<lambda>kind. (rule, unsuffix w add rule, kind))
                    (matching_kind chk (unsuffix w add rule) rule pfx outer_flag)
             else None) rules)
       (suffix_candidates chk w))"

definition risk_names :: "affix_rule option \<Rightarrow> str list" where
  "risk_names rule =
     (case rule of
        Some r \<Rightarrow> map snd (filter (\<lambda>(b, _). has_bit (r_risk r) b) RISK_NAMES)
      | None \<Rightarrow> [])"

definition make_explanation ::
  "str \<Rightarrow> str option \<Rightarrow> str list \<Rightarrow> affix_rule option \<Rightarrow> 8 word \<Rightarrow> affix_rule option \<Rightarrow> explanation" where
  "make_explanation stem pfx sfxs rule kind outer =
     \<lparr>x_stem = stem, x_prefix = pfx, x_suffixes = sfxs,
      x_risky = opt_ok (\<lambda>r. is_risky kind r outer) rule,
      x_risk = remdups_adj (sort (risk_names rule @ risk_names outer)),
      x_adjective = has_bit kind KIND_ADJ,
      x_derived = (case rule of Some r \<Rightarrow> map_option derived_as_str (r_derived r) | None \<Rightarrow> None)\<rparr>"

definition add_explanation :: "nat \<Rightarrow> explanation \<Rightarrow> explanation list \<Rightarrow> explanation list" where
  "add_explanation limit x found =
     (if limit \<le> length found then found else if x \<in> set found then found else found @ [x])"

text \<open>The candidates in the order in which the code offers them.\<close>

definition explain_prefix :: "affix_checker \<Rightarrow> str \<Rightarrow> str \<Rightarrow> affix_rule \<Rightarrow> explanation list" where
  "explain_prefix chk w add prule =
     (let stem = unprefix w add prule in
      if r_only_in_compound prule \<or> \<not> cond_ok_prefix prule stem then []
      else
        (case List.find (\<lambda>e. r_flag prule \<in> set (e_flags e)) (usable_entries chk stem) of
           Some e \<Rightarrow> [make_explanation stem (Some add) [] (Some prule) (e_kind e) None]
         | None \<Rightarrow> [])
        @ (if r_cross prule
           then map (\<lambda>(srule, sstem, kind). make_explanation sstem (Some add) [r_add srule] (Some srule) kind None)
                  (suffix_hits chk stem (Some prule) None)
           else []))"

definition explain_outer :: "affix_checker \<Rightarrow> str \<Rightarrow> str \<Rightarrow> affix_rule \<Rightarrow> explanation list" where
  "explain_outer chk w add orule =
     (let inner = unsuffix w add orule in
      if \<not> outer_applies chk None orule \<or> \<not> cond_ok_suffix orule inner then []
      else map (\<lambda>(irule, stem, kind).
                  make_explanation stem None [r_add irule, r_add orule] (Some irule) kind (Some orule))
             (suffix_hits chk inner None (Some (r_flag orule))))"

definition explain_candidates :: "affix_checker \<Rightarrow> str \<Rightarrow> explanation list" where
  "explain_candidates chk w =
     (if has_stem chk w then [make_explanation w None [] None 0 None] else [])
     @ concat (map (\<lambda>(add, rules). concat (map (explain_prefix chk w add) rules)) (prefix_candidates chk w))
     @ map (\<lambda>(srule, stem, kind). make_explanation stem None [r_add srule] (Some srule) kind None)
         (suffix_hits chk w None None)
     @ concat (map (\<lambda>(add, rules). concat (map (explain_outer chk w add) rules)) (suffix_candidates chk w))"

definition explain :: "affix_checker \<Rightarrow> str \<Rightarrow> nat \<Rightarrow> explanation list" where
  "explain chk w limit = fold (add_explanation limit) (explain_candidates chk w) []"

section \<open>Inflected forms\<close>

definition wanted_rule :: "str set \<Rightarrow> affix_rule \<Rightarrow> bool" where
  "wanted_rule adds rule \<longleftrightarrow>
     \<not> r_need_affix rule \<and> \<not> r_only_in_compound rule
     \<and> (r_add rule \<in> adds
        \<or> (case r_add rule of
             first # rest \<Rightarrow>
               (r_strip rule = ascii ''a'' \<or> r_strip rule = ascii ''e'') \<and> (first = 225 \<or> first = 233) \<and> rest \<in> adds
           | [] \<Rightarrow> False))"

definition all_suffix_rules :: "affix_checker \<Rightarrow> affix_rule list" where
  "all_suffix_rules chk = concat (map snd (suffixes chk))"

definition inflect :: "affix_checker \<Rightarrow> nat \<Rightarrow> bool \<Rightarrow> str \<Rightarrow> dict_entry \<Rightarrow> affix_rule \<Rightarrow> str option" where
  "inflect chk max_len risky stem e rule =
     (if r_strip rule \<noteq> [] \<and> \<not> suffix (r_strip rule) stem then None
      else if \<not> cond_ok_suffix rule stem then None
      else
        let form = take (length stem - length (r_strip rule)) stem @ r_add rule in
        if form = stem \<or> max_len < length form \<or> has_entry chk form then None
        else if is_risky (e_kind e) rule None \<and> \<not> (risky \<and> risky_allowed chk form) then None
        else Some form)"

definition inflected_forms :: "affix_checker \<Rightarrow> str list \<Rightarrow> str set \<Rightarrow> nat \<Rightarrow> bool \<Rightarrow> str set" where
  "inflected_forms chk stems adds max_len risky =
     set (concat (map (\<lambda>stem. concat (map (\<lambda>e. concat (map (\<lambda>flag.
           List.map_filter (inflect chk max_len risky stem e)
             (filter (\<lambda>r. wanted_rule adds r \<and> r_flag r = flag) (all_suffix_rules chk)))
         (e_flags e))) (usable_entries chk stem))) stems))"

end
