(* ===== verification/AffixProps.thy ===== *)
theory AffixProps
  imports AffixCheck
begin

text \<open>
  What the word checker recognises: the words its affix rules derive from the entries of the word
  list. The declarative side applies rules to stems; the code strips affixes off words.
\<close>

section \<open>The rule tables are indexed by what a rule adds\<close>

definition table_ok :: "(str \<times> affix_rule list) list \<Rightarrow> bool" where
  "table_ok m \<longleftrightarrow> distinct (map fst m) \<and> (\<forall>(k, rs)\<in>set m. \<forall>r\<in>set rs. r_add r = k)"

lemma keys_map_default: "fst ` set (AList.map_default k v f m) = insert k (fst ` set m)"
  by (induction m) auto

lemma distinct_map_default: "distinct (map fst m) \<Longrightarrow> distinct (map fst (AList.map_default k v f m))"
  by (induction m) (auto simp: keys_map_default)

lemma set_map_default:
  "distinct (map fst m) \<Longrightarrow> (k', vs) \<in> set (AList.map_default k v f m) \<Longrightarrow>
     (k', vs) \<in> set m \<or> k' = k \<and> (vs = v \<or> (\<exists>us. (k, us) \<in> set m \<and> vs = f us))"
  by (induction m) (auto split: if_splits)

lemma table_ok_push:
  assumes "table_ok m" "r_add r = k"
  shows "table_ok (push_entry k r m)"
proof -
  have d: "distinct (map fst m)" and a: "\<And>k' rs r'. (k', rs) \<in> set m \<Longrightarrow> r' \<in> set rs \<Longrightarrow> r_add r' = k'"
    using assms(1) by (auto simp: table_ok_def)
  have "r_add r' = k'" if "(k', vs) \<in> set (push_entry k r m)" "r' \<in> set vs" for k' vs r'
    using set_map_default [OF d that(1) [unfolded push_entry_def]] that(2) assms(2) a by auto
  then show ?thesis using distinct_map_default [OF d] by (auto simp: table_ok_def push_entry_def)
qed

lemma rules_push:
  "set (concat (map snd (push_entry k r m))) = insert r (set (concat (map snd m)))"
  unfolding push_entry_def by (induction m) auto

definition tables_ok :: "affix_checker \<Rightarrow> bool" where
  "tables_ok chk \<longleftrightarrow> table_ok (prefixes chk) \<and> table_ok (suffixes chk)"

lemma tables_ok_add_rule: "tables_ok chk \<Longrightarrow> tables_ok (add_rule p f c parts ld chk)"
  by (auto simp: tables_ok_def add_rule_def Let_def intro!: table_ok_push split: option.split)

lemma fold_keeps: "(\<And>x s. x \<in> set xs \<Longrightarrow> P s \<Longrightarrow> P (f x s)) \<Longrightarrow> P s \<Longrightarrow> P (fold f xs s)"
  by (induction xs arbitrary: s) auto

lemma tables_ok_aff_line: "tables_ok (the_checker st) \<Longrightarrow> tables_ok (the_checker (aff_line l st))"
  by (simp add: aff_line_def Let_def tables_ok_def)

lemma tables_ok_rule_line: "tables_ok (snd (snd st)) \<Longrightarrow> tables_ok (snd (snd (rule_line ld rl st)))"
  by (auto simp: rule_line_def Let_def tables_ok_add_rule split: prod.split option.split)

lemma tables_ok_load_aff:
  assumes "tables_ok chk"
  shows "tables_ok (snd (load_aff ls ld chk))"
proof -
  define st where "st = fold aff_line ls
    \<lparr>header_seen = False, morph_header_seen = False, the_loader = ld, the_checker = chk, the_rules = []\<rparr>"
  have "tables_ok (the_checker st)"
    unfolding st_def by (rule fold_keeps [where P = "\<lambda>st. tables_ok (the_checker st)"])
      (simp_all add: tables_ok_aff_line assms)
  then have "tables_ok (snd (snd (fold (rule_line (the_loader st)) (the_rules st) ([], [], the_checker st))))"
    by (intro fold_keeps [where P = "\<lambda>st. tables_ok (snd (snd st))"]) (simp_all add: tables_ok_rule_line)
  then show ?thesis by (simp add: load_aff_def st_def Let_def)
qed

lemma tables_ok_dic_entry: "tables_ok chk \<Longrightarrow> tables_ok (dic_entry ld l chk)"
  by (simp add: dic_entry_def Let_def tables_ok_def)

lemma tables_ok_load_dic: "tables_ok chk \<Longrightarrow> tables_ok (load_dic dic ld chk)"
  unfolding load_dic_def Let_def by (rule fold_keeps [where P = tables_ok]) (simp_all add: tables_ok_dic_entry)

lemma tables_ok_from_bytes: "tables_ok (from_bytes aff dic att)"
  unfolding from_bytes_def Let_def case_prod_unfold
  by (intro tables_ok_load_dic tables_ok_load_aff) (simp add: tables_ok_def table_ok_def)

definition all_prefix_rules :: "affix_checker \<Rightarrow> affix_rule list" where
  "all_prefix_rules chk = concat (map snd (prefixes chk))"

text \<open>The length of what is cut off: at most forty characters, and never the whole word.\<close>

definition cut_ok :: "str \<Rightarrow> affix_rule \<Rightarrow> bool" where
  "cut_ok w r \<longleftrightarrow> length (r_add r) \<le> min (length w - 1) MAX_AFFIX_LEN"

lemma table_lookup:
  assumes "table_ok m"
  shows "(\<exists>rs. map_of m k = Some rs \<and> r \<in> set rs) \<longleftrightarrow> r \<in> set (concat (map snd m)) \<and> r_add r = k"
proof
  assume "\<exists>rs. map_of m k = Some rs \<and> r \<in> set rs"
  then obtain rs where "(k, rs) \<in> set m" "r \<in> set rs" by (auto dest: map_of_SomeD)
  then show "r \<in> set (concat (map snd m)) \<and> r_add r = k" using assms by (force simp: table_ok_def)
next
  assume r: "r \<in> set (concat (map snd m)) \<and> r_add r = k"
  then obtain k' rs where m: "(k', rs) \<in> set m" "r \<in> set rs" by auto
  then have "k' = k" using assms r by (auto simp: table_ok_def)
  then have "map_of m k = Some rs" using m(1) assms by (simp add: table_ok_def)
  then show "\<exists>rs. map_of m k = Some rs \<and> r \<in> set rs" using m(2) by blast
qed

lemma set_map_filter_pair:
  "set (List.map_filter (\<lambda>k. map_option (Pair (g k)) (m (g k))) [0..<Suc n])
     = {(g k, rs) | k rs. k \<le> n \<and> m (g k) = Some rs}"
  by (auto simp: set_map_filter_eq less_Suc_eq_le simp del: upt_Suc)

lemma table_Ex:
  assumes "table_ok m"
  shows "(\<exists>rs. map_of m k = Some rs \<and> (\<exists>r\<in>set rs. P k r))
    \<longleftrightarrow> (\<exists>r\<in>set (concat (map snd m)). r_add r = k \<and> P (r_add r) r)"
proof -
  have "(\<exists>rs. map_of m k = Some rs \<and> (\<exists>r\<in>set rs. P k r))
      \<longleftrightarrow> (\<exists>r. (\<exists>rs. map_of m k = Some rs \<and> r \<in> set rs) \<and> P k r)" by blast
  also have "\<dots> \<longleftrightarrow> (\<exists>r\<in>set (concat (map snd m)). r_add r = k \<and> P (r_add r) r)"
    unfolding table_lookup [OF assms] Bex_def by (rule iff_exI) (auto simp del: set_concat)
  finally show ?thesis .
qed

text \<open>The candidates, seen as the rules whose affix the word carries.\<close>

lemma suffix_candidates_iff:
  assumes "tables_ok chk"
  shows "(\<exists>(add, rs)\<in>set (suffix_candidates chk w). \<exists>r\<in>set rs. P add r) \<longleftrightarrow>
    (\<exists>r\<in>set (all_suffix_rules chk). suffix (r_add r) w \<and> cut_ok w r \<and> P (r_add r) r)" (is "?l = ?r")
proof -
  have tab: "table_ok (suffixes chk)" using assms by (simp add: tables_ok_def)
  have "?l \<longleftrightarrow> (\<exists>k\<le>min (length w - 1) MAX_AFFIX_LEN.
      \<exists>rs. map_of (suffixes chk) (drop (length w - k) w) = Some rs \<and> (\<exists>r\<in>set rs. P (drop (length w - k) w) r))"
    unfolding suffix_candidates_def set_map_filter_pair [where g = "\<lambda>k. drop (length w - k) w" and m = "map_of (suffixes chk)"]
    by blast
  also have "\<dots> \<longleftrightarrow> (\<exists>k\<le>min (length w - 1) MAX_AFFIX_LEN.
      \<exists>r\<in>set (all_suffix_rules chk). r_add r = drop (length w - k) w \<and> P (r_add r) r)"
    unfolding all_suffix_rules_def table_Ex [OF tab] ..
  also have "\<dots> \<longleftrightarrow> ?r"
  proof
    assume "\<exists>k\<le>min (length w - 1) MAX_AFFIX_LEN.
      \<exists>r\<in>set (all_suffix_rules chk). r_add r = drop (length w - k) w \<and> P (r_add r) r"
    then obtain k r where "k \<le> min (length w - 1) MAX_AFFIX_LEN" "r \<in> set (all_suffix_rules chk)"
      "r_add r = drop (length w - k) w" "P (r_add r) r" by blast
    then show ?r by (intro bexI [of _ r]) (auto simp: cut_ok_def suffix_drop)
  next
    assume ?r
    then obtain r where r: "r \<in> set (all_suffix_rules chk)" "suffix (r_add r) w" "cut_ok w r" "P (r_add r) r" by blast
    then have "r_add r = drop (length w - length (r_add r)) w" by (auto simp: suffix_def)
    then show "\<exists>k\<le>min (length w - 1) MAX_AFFIX_LEN.
      \<exists>r\<in>set (all_suffix_rules chk). r_add r = drop (length w - k) w \<and> P (r_add r) r"
      using r by (auto simp: cut_ok_def)
  qed
  finally show ?thesis .
qed

lemma prefix_candidates_iff:
  assumes "tables_ok chk"
  shows "(\<exists>(add, rs)\<in>set (prefix_candidates chk w). \<exists>r\<in>set rs. P add r) \<longleftrightarrow>
    (\<exists>r\<in>set (all_prefix_rules chk). prefix (r_add r) w \<and> cut_ok w r \<and> P (r_add r) r)" (is "?l = ?r")
proof -
  have tab: "table_ok (prefixes chk)" using assms by (simp add: tables_ok_def)
  have "?l \<longleftrightarrow> (\<exists>k\<le>min (length w - 1) MAX_AFFIX_LEN.
      \<exists>rs. map_of (prefixes chk) (take k w) = Some rs \<and> (\<exists>r\<in>set rs. P (take k w) r))"
    unfolding prefix_candidates_def set_map_filter_pair [where g = "\<lambda>k. take k w" and m = "map_of (prefixes chk)"]
    by blast
  also have "\<dots> \<longleftrightarrow> (\<exists>k\<le>min (length w - 1) MAX_AFFIX_LEN.
      \<exists>r\<in>set (all_prefix_rules chk). r_add r = take k w \<and> P (r_add r) r)"
    unfolding all_prefix_rules_def table_Ex [OF tab] ..
  also have "\<dots> \<longleftrightarrow> ?r"
  proof
    assume "\<exists>k\<le>min (length w - 1) MAX_AFFIX_LEN.
      \<exists>r\<in>set (all_prefix_rules chk). r_add r = take k w \<and> P (r_add r) r"
    then obtain k r where "k \<le> min (length w - 1) MAX_AFFIX_LEN" "r \<in> set (all_prefix_rules chk)"
      "r_add r = take k w" "P (r_add r) r" by blast
    then show ?r by (intro bexI [of _ r]) (auto simp: cut_ok_def take_is_prefix)
  next
    assume ?r
    then obtain r where r: "r \<in> set (all_prefix_rules chk)" "prefix (r_add r) w" "cut_ok w r" "P (r_add r) r" by blast
    then have "r_add r = take (length (r_add r)) w" by (auto simp: prefix_def)
    then show "\<exists>k\<le>min (length w - 1) MAX_AFFIX_LEN.
      \<exists>r\<in>set (all_prefix_rules chk). r_add r = take k w \<and> P (r_add r) r"
      using r by (auto simp: cut_ok_def)
  qed
  finally show ?thesis .
qed


section \<open>The words a dictionary derives\<close>

text \<open>Applying a rule to a stem: the condition, the stripped part and the added part.\<close>

definition suffixed :: "affix_rule \<Rightarrow> str \<Rightarrow> str \<Rightarrow> bool" where
  "suffixed r stem form \<longleftrightarrow>
     (\<exists>base. stem = base @ r_strip r \<and> form = base @ r_add r) \<and> cut_ok form r \<and> cond_ok_suffix r stem"

definition prefixed :: "affix_rule \<Rightarrow> str \<Rightarrow> str \<Rightarrow> bool" where
  "prefixed r stem form \<longleftrightarrow>
     (\<exists>base. stem = r_strip r @ base \<and> form = r_add r @ base) \<and> cut_ok form r \<and> cond_ok_prefix r stem"

lemma suffixed_iff:
  "suffixed r stem form \<longleftrightarrow>
     suffix (r_add r) form \<and> cut_ok form r \<and> stem = unsuffix form (r_add r) r \<and> cond_ok_suffix r stem"
  by (auto simp: suffixed_def suffix_def unsuffix_def)

lemma prefixed_iff:
  "prefixed r stem form \<longleftrightarrow>
     prefix (r_add r) form \<and> cut_ok form r \<and> stem = unprefix form (r_add r) r \<and> cond_ok_prefix r stem"
  by (auto simp: prefixed_def prefix_def unprefix_def)

text \<open>
  One suffix on an entry that takes it, possibly crossed with a prefix and possibly below a second
  suffix; then two suffixes, and the six ways a word is built.
\<close>

definition one_suffix ::
  "affix_checker \<Rightarrow> bool \<Rightarrow> affix_rule option \<Rightarrow> affix_rule option \<Rightarrow> str \<Rightarrow> bool" where
  "one_suffix chk allow pfx outer form \<longleftrightarrow>
     (\<exists>stem e r. e \<in> set (usable_entries chk stem) \<and> r \<in> set (all_suffix_rules chk) \<and> suffixed r stem form
        \<and> suffix_applies pfx (map_option r_flag outer) r \<and> entry_takes e r pfx (map_option r_flag outer)
        \<and> (allow \<or> \<not> is_risky (e_kind e) r outer))"

definition two_suffixes :: "affix_checker \<Rightarrow> bool \<Rightarrow> affix_rule option \<Rightarrow> str \<Rightarrow> bool" where
  "two_suffixes chk allow pfx form \<longleftrightarrow>
     (\<exists>mid o'. o' \<in> set (all_suffix_rules chk) \<and> suffixed o' mid form \<and> outer_applies chk pfx o'
        \<and> one_suffix chk allow (inner_prefix pfx o') (Some o') mid)"

inductive word_form :: "affix_checker \<Rightarrow> bool \<Rightarrow> str \<Rightarrow> bool" for chk allow where
  entry: "e \<in> set (usable_entries chk w) \<Longrightarrow> \<not> flagged (needaffix chk) e \<Longrightarrow> word_form chk allow w"
| suffixed_entry: "one_suffix chk allow None None w \<Longrightarrow> word_form chk allow w"
| twice_suffixed_entry: "two_suffixes chk allow None w \<Longrightarrow> word_form chk allow w"
| prefixed_entry: "e \<in> set (usable_entries chk stem) \<Longrightarrow> p \<in> set (all_prefix_rules chk) \<Longrightarrow> prefixed p stem w
     \<Longrightarrow> \<not> r_only_in_compound p \<Longrightarrow> r_flag p \<in> set (e_flags e) \<Longrightarrow> word_form chk allow w"
| prefixed_suffixed: "p \<in> set (all_prefix_rules chk) \<Longrightarrow> prefixed p mid w \<Longrightarrow> \<not> r_only_in_compound p
     \<Longrightarrow> r_cross p \<Longrightarrow> one_suffix chk allow (Some p) None mid \<Longrightarrow> word_form chk allow w"
| prefixed_twice_suffixed: "p \<in> set (all_prefix_rules chk) \<Longrightarrow> prefixed p mid w \<Longrightarrow> \<not> r_only_in_compound p
     \<Longrightarrow> r_cross p \<Longrightarrow> two_suffixes chk allow (Some p) mid \<Longrightarrow> word_form chk allow w"

lemma suffix_check_iff:
  assumes "tables_ok chk"
  shows "suffix_check chk w pfx (map_option r_flag outer) outer allow \<longleftrightarrow> one_suffix chk allow pfx outer w"
proof -
  have "suffix_check chk w pfx (map_option r_flag outer) outer allow \<longleftrightarrow>
      (\<exists>(add, rs)\<in>set (suffix_candidates chk w). \<exists>r\<in>set rs. suffix_applies pfx (map_option r_flag outer) r
         \<and> cond_ok_suffix r (unsuffix w add r)
         \<and> stem_ok chk (unsuffix w add r) r pfx (map_option r_flag outer) outer allow)"
    by (simp add: suffix_check_def list_ex_iff)
  also have "\<dots> \<longleftrightarrow> one_suffix chk allow pfx outer w"
    unfolding suffix_candidates_iff [OF assms] one_suffix_def suffixed_iff stem_ok_def list_ex_iff by blast
  finally show ?thesis .
qed

lemma suffix_check_two_iff:
  assumes "tables_ok chk"
  shows "suffix_check_two chk w pfx allow \<longleftrightarrow> two_suffixes chk allow pfx w"
proof -
  have "suffix_check_two chk w pfx allow \<longleftrightarrow>
      (\<exists>(add, rs)\<in>set (suffix_candidates chk w). \<exists>r\<in>set rs. outer_applies chk pfx r
         \<and> cond_ok_suffix r (unsuffix w add r)
         \<and> suffix_check chk (unsuffix w add r) (inner_prefix pfx r) (map_option r_flag (Some r)) (Some r) allow)"
    by (simp add: suffix_check_two_def list_ex_iff)
  also have "\<dots> \<longleftrightarrow> two_suffixes chk allow pfx w"
    unfolding suffix_candidates_iff [OF assms] two_suffixes_def suffixed_iff suffix_check_iff [OF assms] by blast
  finally show ?thesis .
qed

lemma prefix_check_iff:
  assumes "tables_ok chk"
  shows "prefix_check chk w two allow \<longleftrightarrow>
    (\<exists>p stem. p \<in> set (all_prefix_rules chk) \<and> prefixed p stem w \<and> \<not> r_only_in_compound p
       \<and> (if two then r_cross p \<and> two_suffixes chk allow (Some p) stem
          else (\<exists>e\<in>set (usable_entries chk stem). r_flag p \<in> set (e_flags e))
            \<or> r_cross p \<and> one_suffix chk allow (Some p) None stem))"
proof -
  have "prefix_check chk w two allow \<longleftrightarrow>
      (\<exists>(add, rs)\<in>set (prefix_candidates chk w). \<exists>p\<in>set rs. \<not> r_only_in_compound p
         \<and> cond_ok_prefix p (unprefix w add p)
         \<and> (if two then r_cross p \<and> suffix_check_two chk (unprefix w add p) (Some p) allow
            else (\<exists>e\<in>set (usable_entries chk (unprefix w add p)). r_flag p \<in> set (e_flags e))
              \<or> r_cross p \<and> suffix_check chk (unprefix w add p) (Some p) (map_option r_flag (None :: affix_rule option)) None allow))"
    by (cases two) (simp_all add: prefix_check_def list_ex_iff)
  also have "\<dots> \<longleftrightarrow> (\<exists>p stem. p \<in> set (all_prefix_rules chk) \<and> prefixed p stem w \<and> \<not> r_only_in_compound p
       \<and> (if two then r_cross p \<and> two_suffixes chk allow (Some p) stem
          else (\<exists>e\<in>set (usable_entries chk stem). r_flag p \<in> set (e_flags e))
            \<or> r_cross p \<and> one_suffix chk allow (Some p) None stem))"
    unfolding prefix_candidates_iff [OF assms] prefixed_iff suffix_check_iff [OF assms] suffix_check_two_iff [OF assms]
    by blast
  finally show ?thesis .
qed

lemma compute_iff:
  assumes "tables_ok chk"
  shows "compute chk w allow \<longleftrightarrow> \<not> is_forbidden chk w \<and> word_form chk allow w"
proof -
  have "compute chk w allow \<longleftrightarrow> \<not> is_forbidden chk w \<and>
      ((\<exists>e\<in>set (usable_entries chk w). \<not> flagged (needaffix chk) e) \<or> prefix_check chk w False allow
       \<or> one_suffix chk allow None None w \<or> two_suffixes chk allow None w \<or> prefix_check chk w True allow)"
    using suffix_check_iff [OF assms, of w None None] suffix_check_two_iff [OF assms, of w None]
    by (auto simp: compute_def has_stem_def list_ex_iff)
  also have "\<dots> \<longleftrightarrow> \<not> is_forbidden chk w \<and> word_form chk allow w"
    unfolding prefix_check_iff [OF assms] word_form.simps by (simp only: if_True if_False simp_thms) blast
  finally show ?thesis .
qed


section \<open>The verdicts\<close>

lemma one_suffix_mono: "one_suffix chk False pfx outer w \<Longrightarrow> one_suffix chk True pfx outer w"
  unfolding one_suffix_def by blast

lemma two_suffixes_mono: "two_suffixes chk False pfx w \<Longrightarrow> two_suffixes chk True pfx w"
  unfolding two_suffixes_def using one_suffix_mono by blast

lemma word_form_mono: "word_form chk False w \<Longrightarrow> word_form chk True w"
  by (induction rule: word_form.induct)
    (auto intro: word_form.intros one_suffix_mono two_suffixes_mono)

lemma compute_mono: "tables_ok chk \<Longrightarrow> compute chk w False \<Longrightarrow> compute chk w True"
  using word_form_mono by (auto simp: compute_iff)

text \<open>
  C17. The checker built from any affix file and word list accepts exactly the words its rules derive:
  a word that no entry forbids and that is an entry, or an entry with one or two suffixes, a
  prefix, or a prefix crossed with one or two suffixes, each rule applied under its condition.
  The derivations whose meaning is doubtful count only for words of the list of used words.
\<close>

theorem check_accepts_derived_words:
  "check_word (from_bytes aff dic att) w \<longleftrightarrow>
     \<not> is_forbidden (from_bytes aff dic att) w
     \<and> word_form (from_bytes aff dic att) (risky_allowed (from_bytes aff dic att) w) w"
  unfolding check_word_def by (rule compute_iff [OF tables_ok_from_bytes])

text \<open>
  The list of used words only decides about doubtful words: a word is accepted exactly when it is
  valid without doubtful derivations, or needs the list and is on it (or no list is loaded). So
  a longer list never makes the checker reject a word, and without a list nothing needs it.
\<close>

theorem attestation_decides_doubtful_words:
  "check_word (from_bytes aff dic att) w \<longleftrightarrow>
     valid_without_risky (from_bytes aff dic att) w
     \<or> needs_attestation (from_bytes aff dic att) w \<and> risky_allowed (from_bytes aff dic att) w"
  using compute_mono [OF tables_ok_from_bytes, of aff dic att w]
  unfolding check_word_def valid_without_risky_def needs_attestation_def
  by (cases "risky_allowed (from_bytes aff dic att) w") auto

section \<open>Inflected forms\<close>

lemma suffixed_inflect:
  assumes "inflect chk n risky stem e r = Some form" "stem \<noteq> r_strip r" "length (r_add r) \<le> MAX_AFFIX_LEN"
  shows "suffixed r stem form"
proof -
  define base where "base = take (length stem - length (r_strip r)) stem"
  have strip: "suffix (r_strip r) stem" and cnd: "cond_ok_suffix r stem"
    and form: "form = base @ r_add r"
    using assms(1) by (auto simp: inflect_def Let_def base_def split: if_splits)
  have stem: "stem = base @ r_strip r" using strip by (auto simp: base_def suffix_def)
  then have "base \<noteq> []" using assms(2) by auto
  then have "cut_ok form r" using assms(3) form unfolding cut_ok_def by (cases base) auto
  then show ?thesis using stem form cnd unfolding suffixed_def by blast
qed

lemma one_suffix_inflect:
  assumes "inflect chk n risky stem e r = Some form" "e \<in> set (usable_entries chk stem)" "r \<in> set (all_suffix_rules chk)"
    "wanted_rule adds r" "r_flag r \<in> set (e_flags e)" "stem \<noteq> r_strip r" "length (r_add r) \<le> MAX_AFFIX_LEN"
  shows "one_suffix chk (risky \<and> risky_allowed chk form) None None form"
proof -
  have "suffixed r stem form" by (rule suffixed_inflect [OF assms(1,6,7)])
  moreover have "suffix_applies None None r" using assms(4) by (simp add: suffix_applies_def wanted_rule_def opt_ok_def)
  moreover have "entry_takes e r None None" using assms(5) by (simp add: entry_takes_def opt_ok_def)
  moreover have "risky \<and> risky_allowed chk form \<or> \<not> is_risky (e_kind e) r None"
    using assms(1) by (auto simp: inflect_def Let_def split: if_splits)
  ultimately show ?thesis using assms(2,3) unfolding one_suffix_def by auto
qed

lemma not_forbidden_new: "\<not> has_entry chk w \<Longrightarrow> \<not> is_forbidden chk w"
  by (simp add: has_entry_def is_forbidden_def entries_of_def)

lemma word_form_inflect:
  assumes "tables_ok chk" "form \<in> inflected_forms chk stems adds n risky"
    and "\<forall>r\<in>set (all_suffix_rules chk). length (r_add r) \<le> MAX_AFFIX_LEN \<and> r_strip r \<notin> set stems"
  shows "compute chk form (risky \<and> risky_allowed chk form)" "length form \<le> n" "form \<notin> set stems \<or> \<not> has_entry chk form"
proof -
  obtain stem e flag r where stem: "stem \<in> set stems" and e: "e \<in> set (usable_entries chk stem)"
    and flag: "flag \<in> set (e_flags e)" and r: "r \<in> set (all_suffix_rules chk)" "wanted_rule adds r" "r_flag r = flag"
    and form: "inflect chk n risky stem e r = Some form"
    using assms(2) by (auto simp: inflected_forms_def set_map_filter_eq)
  have "one_suffix chk (risky \<and> risky_allowed chk form) None None form"
    using one_suffix_inflect [OF form e r(1,2)] flag r(3) stem assms(3) r(1) by blast
  moreover have facts: "\<not> has_entry chk form" "length form \<le> n"
    using form by (auto simp: inflect_def Let_def split: if_splits)
  ultimately show "compute chk form (risky \<and> risky_allowed chk form)" "length form \<le> n" "form \<notin> set stems \<or> \<not> has_entry chk form"
    using not_forbidden_new by (auto simp: compute_iff [OF assms(1)] intro: word_form.suffixed_entry)
qed


text \<open>
  The inflected forms the checker generates for the vocabulary of the bots are words it accepts, not
  longer than asked for and not entries themselves, provided that no rule adds more than forty
  characters and no rule strips a whole stem; without the doubtful forms, they are valid whatever
  the list of used words says.
\<close>

theorem inflected_forms_accepted:
  assumes "form \<in> inflected_forms (from_bytes aff dic att) stems adds n risky"
    and "\<forall>r\<in>set (all_suffix_rules (from_bytes aff dic att)). length (r_add r) \<le> MAX_AFFIX_LEN \<and> r_strip r \<notin> set stems"
  shows "check_word (from_bytes aff dic att) form \<and> length form \<le> n
    \<and> (\<not> risky \<longrightarrow> valid_without_risky (from_bytes aff dic att) form)"
proof -
  note facts = word_form_inflect [OF tables_ok_from_bytes assms]
  show ?thesis
    using facts(1,2) compute_mono [OF tables_ok_from_bytes, of aff dic att form]
    by (cases risky; cases "risky_allowed (from_bytes aff dic att) form")
      (simp_all add: check_word_def valid_without_risky_def)
qed

text \<open>A small dictionary for the examples: the entries \<open>alma/A\<close> and \<open>kert/A\<close>, and the suffix \<open>-ok\<close> after a consonant.\<close>

definition demo_aff :: bytes where
  "demo_aff = ascii ''SFX A Y 1'' @ [10] @ ascii ''SFX A 0 ok [^a]''"

definition demo_dic :: bytes where
  "demo_dic = ascii ''2'' @ [10] @ ascii ''alma/A'' @ [10] @ ascii ''kert/A''"

theorem inflected_forms_accepted_witness:
  "check_word (from_bytes demo_aff demo_dic None) (ascii ''kertok'')"
proof -
  have "ascii ''kertok'' \<in> inflected_forms (from_bytes demo_aff demo_dic None) [ascii ''alma'', ascii ''kert''] {ascii ''ok''} 12 False"
    by code_simp
  moreover have "\<forall>r\<in>set (all_suffix_rules (from_bytes demo_aff demo_dic None)).
      length (r_add r) \<le> MAX_AFFIX_LEN \<and> r_strip r \<notin> set [ascii ''alma'', ascii ''kert'']"
    by code_simp
  ultimately show ?thesis by (rule inflected_forms_accepted [THEN conjunct1])
qed

section \<open>Explanations\<close>

lemma find_SomeD: "List.find P xs = Some x \<Longrightarrow> x \<in> set xs \<and> P x"
  by (induction xs) (auto split: if_splits)

lemma suffix_hits_sound:
  assumes tab: "tables_ok chk" and hit: "(r, stem, kind) \<in> set (suffix_hits chk w pfx (map_option r_flag outer))"
  shows "one_suffix chk (is_risky kind r outer) pfx outer w"
proof -
  obtain add rs where cand: "(add, rs) \<in> set (suffix_candidates chk w)" "r \<in> set rs"
    and r: "suffix_applies pfx (map_option r_flag outer) r" "cond_ok_suffix r (unsuffix w add r)"
    and kind: "matching_kind chk (unsuffix w add r) r pfx (map_option r_flag outer) = Some kind"
    using hit by (auto simp: suffix_hits_def set_map_filter_eq split: if_splits)
  obtain e where e: "e \<in> set (usable_entries chk (unsuffix w add r))" "entry_takes e r pfx (map_option r_flag outer)"
    "kind = e_kind e"
    using kind by (auto simp: matching_kind_def dest!: find_SomeD)
  have "\<exists>(add, rs)\<in>set (suffix_candidates chk w). \<exists>r'\<in>set rs. r' = r \<and>
      (\<exists>e\<in>set (usable_entries chk (unsuffix w add r)). entry_takes e r pfx (map_option r_flag outer) \<and> kind = e_kind e)
      \<and> cond_ok_suffix r (unsuffix w add r)"
    using cand e r(2) by blast
  then show ?thesis
    unfolding suffix_candidates_iff [OF tab] one_suffix_def suffixed_iff using r(1) by blast
qed

lemma suffix_hits_complete:
  assumes tab: "tables_ok chk" and one: "one_suffix chk True pfx outer w"
  shows "suffix_hits chk w pfx (map_option r_flag outer) \<noteq> []"
proof -
  have "\<exists>r\<in>set (all_suffix_rules chk). suffix (r_add r) w \<and> cut_ok w r \<and>
      (suffix_applies pfx (map_option r_flag outer) r \<and> cond_ok_suffix r (unsuffix w (r_add r) r)
        \<and> (\<exists>e\<in>set (usable_entries chk (unsuffix w (r_add r) r)). entry_takes e r pfx (map_option r_flag outer)))"
    using one unfolding one_suffix_def suffixed_iff by blast
  then have "\<exists>(add, rs)\<in>set (suffix_candidates chk w). \<exists>r\<in>set rs.
      suffix_applies pfx (map_option r_flag outer) r \<and> cond_ok_suffix r (unsuffix w add r)
        \<and> (\<exists>e\<in>set (usable_entries chk (unsuffix w add r)). entry_takes e r pfx (map_option r_flag outer))"
    unfolding suffix_candidates_iff [OF tab] .
  then obtain add rs r where c: "(add, rs) \<in> set (suffix_candidates chk w)" "r \<in> set rs"
    and r: "suffix_applies pfx (map_option r_flag outer) r \<and> cond_ok_suffix r (unsuffix w add r)"
    and e: "\<exists>e\<in>set (usable_entries chk (unsuffix w add r)). entry_takes e r pfx (map_option r_flag outer)" by blast
  from e obtain kind where "matching_kind chk (unsuffix w add r) r pfx (map_option r_flag outer) = Some kind"
    by (fastforce simp: matching_kind_def find_None_iff)
  then have "(r, unsuffix w add r, kind) \<in> set (suffix_hits chk w pfx (map_option r_flag outer))"
    using c r unfolding suffix_hits_def set_concat set_map
    by (intro UN_I [of "List.map_filter (\<lambda>rule. if suffix_applies pfx (map_option r_flag outer) rule \<and> cond_ok_suffix rule (unsuffix w add rule)
             then map_option (\<lambda>kind. (rule, unsuffix w add rule, kind))
                    (matching_kind chk (unsuffix w add rule) rule pfx (map_option r_flag outer))
             else None) rs"] imageI image_eqI [of _ _ "(add, rs)"]) (auto simp: set_map_filter_eq)
  then show ?thesis by auto
qed

lemma set_add_explanation: "set (add_explanation limit x found) \<subseteq> insert x (set found)"
  by (simp add: add_explanation_def subset_insertI)

lemma set_fold_add_explanation:
  "set (fold (add_explanation limit) xs found) \<subseteq> set xs \<union> set found"
proof (induction xs arbitrary: found)
  case (Cons x xs)
  have "set (fold (add_explanation limit) xs (add_explanation limit x found)) \<subseteq> set xs \<union> insert x (set found)"
    by (rule order_trans [OF Cons.IH Un_mono [OF order_refl set_add_explanation]])
  then show ?case by auto
qed simp

lemma length_fold_add_explanation:
  "length found \<le> limit \<Longrightarrow> length (fold (add_explanation limit) xs found) \<le> limit"
  by (induction xs arbitrary: found) (simp_all add: add_explanation_def)

lemma distinct_fold_add_explanation:
  "distinct found \<Longrightarrow> distinct (fold (add_explanation limit) xs found)"
  by (induction xs arbitrary: found) (simp_all add: add_explanation_def)

lemma fold_add_explanation_Nil:
  "fold (add_explanation limit) xs found = [] \<longleftrightarrow> found = [] \<and> (limit = 0 \<or> xs = [])"
proof (induction xs arbitrary: found)
  case (Cons x xs)
  have "add_explanation limit x found = [] \<longleftrightarrow> found = [] \<and> limit = 0" by (auto simp: add_explanation_def)
  then show ?case by (auto simp: Cons.IH)
qed simp

lemma explain_prefix_sound:
  assumes tab: "tables_ok chk" and p: "p \<in> set (all_prefix_rules chk)" "prefix (r_add p) w" "cut_ok w p"
    and x: "x \<in> set (explain_prefix chk w (r_add p) p)"
  shows "word_form chk (x_risky x) w"
proof -
  let ?stem = "unprefix w (r_add p) p"
  have ok: "\<not> r_only_in_compound p" "prefixed p ?stem w"
    using x p by (auto simp: explain_prefix_def prefixed_iff Let_def split: if_splits)
  consider (bare) e where "e \<in> set (usable_entries chk ?stem)" "r_flag p \<in> set (e_flags e)"
    | (crossed) r stem kind where "r_cross p" "(r, stem, kind) \<in> set (suffix_hits chk ?stem (Some p) None)"
        "x = make_explanation stem (Some (r_add p)) [r_add r] (Some r) kind None"
    using x by (auto simp: explain_prefix_def Let_def split: if_splits option.splits dest!: find_SomeD find_SomeD [OF sym])
  then show ?thesis
  proof cases
    case bare
    then show ?thesis using p(1) ok by (blast intro: word_form.prefixed_entry)
  next
    case crossed
    then have "one_suffix chk (x_risky x) (Some p) None ?stem"
      using suffix_hits_sound [OF tab, of r stem kind ?stem "Some p" None] by (simp add: make_explanation_def opt_ok_def)
    then show ?thesis using p(1) ok crossed(1) by (blast intro: word_form.prefixed_suffixed)
  qed
qed

lemma explain_outer_sound:
  assumes tab: "tables_ok chk" and o': "o' \<in> set (all_suffix_rules chk)" "suffix (r_add o') w" "cut_ok w o'"
    and x: "x \<in> set (explain_outer chk w (r_add o') o')"
  shows "word_form chk (x_risky x) w"
proof -
  let ?mid = "unsuffix w (r_add o') o'"
  have ok: "outer_applies chk None o'" "suffixed o' ?mid w"
    using x o' by (auto simp: explain_outer_def suffixed_iff Let_def split: if_splits)
  obtain r stem kind where r: "(r, stem, kind) \<in> set (suffix_hits chk ?mid None (Some (r_flag o')))"
    and xr: "x = make_explanation stem None [r_add r, r_add o'] (Some r) kind (Some o')"
    using x by (auto simp: explain_outer_def Let_def split: if_splits)
  have "one_suffix chk (x_risky x) None (Some o') ?mid"
    using suffix_hits_sound [OF tab, of r stem kind ?mid None "Some o'"] r by (simp add: xr make_explanation_def opt_ok_def)
  then have "two_suffixes chk (x_risky x) None w"
    using ok o'(1) unfolding two_suffixes_def by (auto simp: inner_prefix_def)
  then show ?thesis by (rule word_form.twice_suffixed_entry)
qed

lemma explain_candidates_sound:
  assumes tab: "tables_ok chk" and x: "x \<in> set (explain_candidates chk w)"
  shows "word_form chk (x_risky x) w"
proof -
  consider (stem) "has_stem chk w" "x_risky x = False"
    | (pre) "\<exists>(add, rs)\<in>set (prefix_candidates chk w). \<exists>p\<in>set rs. x \<in> set (explain_prefix chk w add p)"
    | (suf) r stem kind where "(r, stem, kind) \<in> set (suffix_hits chk w None None)"
        "x = make_explanation stem None [r_add r] (Some r) kind None"
    | (two) "\<exists>(add, rs)\<in>set (suffix_candidates chk w). \<exists>p\<in>set rs. x \<in> set (explain_outer chk w add p)"
    using x unfolding explain_candidates_def
    by (fastforce simp: make_explanation_def opt_ok_def split: if_splits)
  then show ?thesis
  proof cases
    case stem
    then show ?thesis by (auto simp: has_stem_def list_ex_iff intro: word_form.entry)
  next
    case pre
    then show ?thesis
      unfolding prefix_candidates_iff [OF tab] using explain_prefix_sound [OF tab] by blast
  next
    case suf
    then show ?thesis
      using suffix_hits_sound [OF tab, of r stem kind w None None]
      by (auto simp: make_explanation_def opt_ok_def intro: word_form.suffixed_entry)
  next
    case two
    then show ?thesis
      unfolding suffix_candidates_iff [OF tab] using explain_outer_sound [OF tab] by blast
  qed
qed


lemma explain_candidates_complete:
  assumes tab: "tables_ok chk"
    and w: "has_stem chk w \<or> prefix_check chk w False True \<or> one_suffix chk True None None w \<or> two_suffixes chk True None w"
  shows "explain_candidates chk w \<noteq> []"
proof -
  consider (stem) "has_stem chk w" | (pre) "prefix_check chk w False True"
    | (suf) "one_suffix chk True None None w" | (two) "two_suffixes chk True None w" using w by blast
  then show ?thesis
  proof cases
    case stem then show ?thesis by (simp add: explain_candidates_def)
  next
    case pre
    then obtain p stem where p: "p \<in> set (all_prefix_rules chk)" "prefixed p stem w" "\<not> r_only_in_compound p"
      and e: "(\<exists>e\<in>set (usable_entries chk stem). r_flag p \<in> set (e_flags e))
        \<or> r_cross p \<and> one_suffix chk True (Some p) None stem"
      by (auto simp: prefix_check_iff [OF tab])
    have "explain_prefix chk w (r_add p) p \<noteq> []"
      using p e suffix_hits_complete [OF tab, of "Some p" None stem]
      by (auto simp: explain_prefix_def prefixed_iff Let_def find_None_iff split: option.split)
    then have "\<exists>(add, rs)\<in>set (prefix_candidates chk w). \<exists>p\<in>set rs. explain_prefix chk w add p \<noteq> []"
      unfolding prefix_candidates_iff [OF tab] using p by (auto simp: prefixed_iff)
    then show ?thesis by (fastforce simp: explain_candidates_def)
  next
    case suf
    then show ?thesis using suffix_hits_complete [OF tab, of None None w] by (simp add: explain_candidates_def)
  next
    case two
    then obtain mid o' where o': "o' \<in> set (all_suffix_rules chk)" "suffixed o' mid w" "outer_applies chk None o'"
      and "one_suffix chk True None (Some o') mid"
      by (auto simp: two_suffixes_def inner_prefix_def)
    then have "explain_outer chk w (r_add o') o' \<noteq> []"
      using suffix_hits_complete [OF tab, of None "Some o'" mid]
      by (auto simp: explain_outer_def suffixed_iff Let_def)
    then have "\<exists>(add, rs)\<in>set (suffix_candidates chk w). \<exists>p\<in>set rs. explain_outer chk w add p \<noteq> []"
      unfolding suffix_candidates_iff [OF tab] using o' by (auto simp: suffixed_iff)
    then show ?thesis by (fastforce simp: explain_candidates_def)
  qed
qed



end
