(* ===== verification/Dictionary.thy ===== *)
theory Dictionary
  imports AffixProps "HOL-Library.Product_Lexorder"
begin

text \<open>
  \<^verbatim>\<open>src/src/words/dictionary.rs\<close>: the word checker of the game with its lists of rejected and added
  words, the cache of verdicts, and the suggestions for a wrong word. The process-wide statics are
  one state record. The files are arguments: what \<^verbatim>\<open>load_checker\<close> gives for the dictionary
  directory (nothing when it fails) and the bytes of the file of rejected words.
\<close>

section \<open>The state\<close>

record word_lists =
  rejected_listed :: "str set"
  rejected_voted :: "str set"
  override_allow :: "str set"
  override_reject :: "str set"
  additions :: "str set"

definition empty_lists :: word_lists where
  "empty_lists = \<lparr>rejected_listed = {}, rejected_voted = {}, override_allow = {}, override_reject = {}, additions = {}\<rparr>"

record dict_files =
  checker_file :: "affix_checker option"
  rejected_file :: "bytes option"

record dict_state =
  dict_checker :: "affix_checker option"
  init_attempted :: bool
  lists :: word_lists
  lists_version :: "64 word"
  valid_cache :: "(str \<times> bool) list"

definition dict_start :: dict_state where
  "dict_start = \<lparr>dict_checker = None, init_attempted = False, lists = empty_lists, lists_version = 0, valid_cache = []\<rparr>"

definition VOWELLESS_INTERJECTIONS :: "str list" where
  "VOWELLESS_INTERJECTIONS =
    map ascii [''brr'', ''brrr'', ''hm'', ''hmm'', ''hmmm'', ''khm'', ''khmm'', ''pszt'']"

definition MAX_WORD_LENGTH :: nat where "MAX_WORD_LENGTH = 15"
definition VALID_CACHE_LIMIT :: nat where "VALID_CACHE_LIMIT = 200000"

definition small_vowels :: str where
  "small_vowels = [97, 225, 101, 233, 105, 237, 111, 243, 246, 337, 117, 250, 252, 369]"

definition has_vowel :: "str \<Rightarrow> bool" where
  "has_vowel w \<longleftrightarrow> list_ex (\<lambda>c. c \<in> set small_vowels) w"

definition has_vowel_or_interjection :: "str \<Rightarrow> bool" where
  "has_vowel_or_interjection w \<longleftrightarrow> has_vowel w \<or> w \<in> set VOWELLESS_INTERJECTIONS"

definition load_rejected :: "bytes option \<Rightarrow> str set" where
  "load_rejected file =
     (case file of
        None \<Rightarrow> {}
      | Some bs \<Rightarrow> set (filter (\<lambda>w. w \<noteq> [])
          (map (\<lambda>l. to_lowercase (trim (takeWhile (\<lambda>c. c \<noteq> 35) l))) (text_lines (lossy bs)))))"

section \<open>Loading\<close>

definition bump :: "dict_state \<Rightarrow> dict_state" where
  "bump st = st\<lparr>lists_version := lists_version st + 1\<rparr>"

definition init_checker :: "dict_files \<Rightarrow> dict_state \<Rightarrow> dict_state" where
  "init_checker files st =
     (if init_attempted st then st
      else (case checker_file files of
              Some chk \<Rightarrow> (bump (st\<lparr>lists := (lists st)\<lparr>rejected_listed := load_rejected (rejected_file files)\<rparr>\<rparr>))
                            \<lparr>dict_checker := Some chk\<rparr>
            | None \<Rightarrow> st\<lparr>dict_checker := None\<rparr>)
           \<lparr>init_attempted := True\<rparr>)"

definition ensure_init :: "dict_files \<Rightarrow> dict_state \<Rightarrow> dict_state" where
  "ensure_init files st = (if init_attempted st then st else init_checker files st)"

definition init_from_dir :: "dict_files \<Rightarrow> dict_state \<Rightarrow> bool \<times> dict_state" where
  "init_from_dir files st =
     (case checker_file files of
        None \<Rightarrow> (False, st)
      | Some chk \<Rightarrow>
          (True, (bump (st\<lparr>lists := (lists st)\<lparr>rejected_listed := load_rejected (rejected_file files)\<rparr>\<rparr>))
                   \<lparr>valid_cache := [], dict_checker := Some chk, init_attempted := True\<rparr>))"

definition get_checker :: "dict_files \<Rightarrow> dict_state \<Rightarrow> affix_checker option \<times> dict_state" where
  "get_checker files st = (let st' = ensure_init files st in (dict_checker st', st'))"

definition is_available :: "dict_files \<Rightarrow> dict_state \<Rightarrow> bool \<times> dict_state" where
  "is_available files st = (case get_checker files st of (chk, st') \<Rightarrow> (chk \<noteq> None, st'))"

definition warm_up :: "dict_files \<Rightarrow> dict_state \<Rightarrow> bool \<times> dict_state" where
  "warm_up files st = is_available files st"

definition rejected_version :: "dict_files \<Rightarrow> dict_state \<Rightarrow> 64 word \<times> dict_state" where
  "rejected_version files st = (let st' = ensure_init files st in (lists_version st', st'))"

definition listed_rejected :: "dict_files \<Rightarrow> dict_state \<Rightarrow> str set \<times> dict_state" where
  "listed_rejected files st = (let st' = ensure_init files st in (rejected_listed (lists st'), st'))"

definition voted_rejected :: "dict_files \<Rightarrow> dict_state \<Rightarrow> str set \<times> dict_state" where
  "voted_rejected files st = (let st' = ensure_init files st in (rejected_voted (lists st'), st'))"

definition admin_lists :: "dict_files \<Rightarrow> dict_state \<Rightarrow> (str set \<times> str set \<times> str set) \<times> dict_state" where
  "admin_lists files st =
     (let st' = ensure_init files st; ls = lists st'
      in ((override_allow ls, override_reject ls, additions ls), st'))"

section \<open>The verdict on a word\<close>

definition lookup_with :: "affix_checker \<Rightarrow> word_lists \<Rightarrow> str \<Rightarrow> bool" where
  "lookup_with chk ls w \<longleftrightarrow>
     (if w \<in> override_reject ls then False
      else if w \<notin> override_allow ls \<and> (w \<in> rejected_listed ls \<or> w \<in> rejected_voted ls) then False
      else if \<not> has_vowel w \<and> w \<notin> set VOWELLESS_INTERJECTIONS then False
      else if w \<in> additions ls then True
      else check_word chk w)"

text \<open>\<^verbatim>\<open>lookup\<close> and the bulk checks run after \<^verbatim>\<open>get_checker\<close>; \<open>st\<close> here is the state after it.\<close>

definition lookup :: "dict_state \<Rightarrow> str \<Rightarrow> bool" where
  "lookup st w \<longleftrightarrow> (case dict_checker st of Some chk \<Rightarrow> lookup_with chk (lists st) w | None \<Rightarrow> True)"

definition lookup_word :: "dict_files \<Rightarrow> str \<Rightarrow> dict_state \<Rightarrow> bool \<times> dict_state" where
  "lookup_word files w st = (let st' = ensure_init files st in (lookup st' w, st'))"

definition is_rejected :: "dict_files \<Rightarrow> str \<Rightarrow> dict_state \<Rightarrow> bool \<times> dict_state" where
  "is_rejected files word st =
     (let st' = ensure_init files st; w = to_lowercase word; ls = lists st' in
      (if w \<in> override_reject ls then True
       else w \<notin> override_allow ls \<and> (w \<in> rejected_listed ls \<or> w \<in> rejected_voted ls), st'))"

section \<open>Changing the lists\<close>

definition set_admin_lists ::
  "dict_files \<Rightarrow> str list \<Rightarrow> str list \<Rightarrow> str list \<Rightarrow> dict_state \<Rightarrow> dict_state" where
  "set_admin_lists files allow reject adds st =
     (let st' = ensure_init files st in
      (bump (st'\<lparr>lists := (lists st')\<lparr>override_allow := set (map to_lowercase allow),
                   override_reject := set (map to_lowercase reject),
                   additions := set (map to_lowercase adds)\<rparr>\<rparr>))\<lparr>valid_cache := []\<rparr>)"

definition reload_rejected :: "dict_files \<Rightarrow> bytes option \<Rightarrow> dict_state \<Rightarrow> nat \<times> dict_state" where
  "reload_rejected files file st =
     (let st' = ensure_init files st; listed = load_rejected file in
      (card listed, (bump (st'\<lparr>lists := (lists st')\<lparr>rejected_listed := listed\<rparr>\<rparr>))\<lparr>valid_cache := []\<rparr>))"

definition clear_valid_cache :: "dict_state \<Rightarrow> nat \<times> dict_state" where
  "clear_valid_cache st = (length (valid_cache st), st\<lparr>valid_cache := []\<rparr>)"

definition valid_cache_len :: "dict_state \<Rightarrow> nat" where
  "valid_cache_len st = length (valid_cache st)"

definition set_voted_rejected :: "dict_files \<Rightarrow> str list \<Rightarrow> dict_state \<Rightarrow> dict_state" where
  "set_voted_rejected files words st =
     (let st' = ensure_init files st in
      (bump (st'\<lparr>lists := (lists st')\<lparr>rejected_voted := set (map to_lowercase words)\<rparr>\<rparr>))\<lparr>valid_cache := []\<rparr>)"

definition mark_voted_rejected :: "dict_files \<Rightarrow> str \<Rightarrow> bool \<Rightarrow> dict_state \<Rightarrow> dict_state" where
  "mark_voted_rejected files word rejected st =
     (let st' = ensure_init files st; w = to_lowercase word; voted = rejected_voted (lists st') in
      if (w \<in> voted) = rejected then st'
      else (bump (st'\<lparr>lists := (lists st')\<lparr>rejected_voted := (if rejected then insert w voted else voted - {w})\<rparr>\<rparr>))
             \<lparr>valid_cache := AList.delete w (valid_cache st')\<rparr>)"

definition reset_runtime_lists :: "dict_files \<Rightarrow> dict_state \<Rightarrow> dict_state" where
  "reset_runtime_lists files st =
     (let st' = ensure_init files st in
      (bump (st'\<lparr>lists := (lists st')\<lparr>rejected_voted := {}, override_allow := {}, override_reject := {}, additions := {}\<rparr>\<rparr>))
        \<lparr>valid_cache := []\<rparr>)"

section \<open>Checking words\<close>

definition big_accented :: str where
  "big_accented = [193, 201, 205, 211, 214, 336, 218, 220, 368]"

definition valid_word_shape :: "str \<Rightarrow> bool" where
  "valid_word_shape w \<longleftrightarrow> w \<noteq> [] \<and> list_all (\<lambda>c. 65 \<le> c \<and> c \<le> 90 \<or> c \<in> set big_accented) w"

definition well_formed :: "str \<Rightarrow> bool" where
  "well_formed w \<longleftrightarrow> \<not> (MAX_WORD_LENGTH < length w \<or> \<not> valid_word_shape w)"

definition check_words_in :: "dict_state \<Rightarrow> str list \<Rightarrow> bool \<times> str list" where
  "check_words_in st words =
     (case List.find (\<lambda>w. \<not> well_formed w) words of
        Some w \<Rightarrow> (False, [w])
      | None \<Rightarrow>
          (case dict_checker st of
             None \<Rightarrow> (True, [])
           | Some chk \<Rightarrow>
               let invalid = filter (\<lambda>w. \<not> lookup_with chk (lists st) (to_lowercase w)) words
               in (invalid = [], invalid)))"

text \<open>No words, or a malformed one, and the dictionary is not even loaded.\<close>

definition check_words :: "dict_files \<Rightarrow> str list \<Rightarrow> dict_state \<Rightarrow> (bool \<times> str list) \<times> dict_state" where
  "check_words files words st =
     (if words = [] then ((True, []), st)
      else if list_ex (\<lambda>w. \<not> well_formed w) words then (check_words_in st words, st)
      else let st' = ensure_init files st in (check_words_in st' words, st'))"

text \<open>
  The bulk check in its three steps: what the cache knows, the verdicts on the rest (outside the lock of the
  cache), and storing them. The words of a hash set are taken in the order of their first occurrence.
\<close>

definition filter_read :: "str list \<Rightarrow> dict_state \<Rightarrow> str list \<times> (str \<times> str) list" where
  "filter_read words st =
     (let ws = filter well_formed (remdups words) in
      (filter (\<lambda>w. map_of (valid_cache st) (to_lowercase w) = Some True) ws,
       map (\<lambda>w. (to_lowercase w, w)) (filter (\<lambda>w. map_of (valid_cache st) (to_lowercase w) = None) ws)))"

definition filter_judge :: "dict_state \<Rightarrow> (str \<times> str) list \<Rightarrow> (str \<times> str \<times> bool) list" where
  "filter_judge st unknown = map (\<lambda>(key, w). (key, w, lookup st key)) unknown"

definition remember :: "str \<Rightarrow> bool \<Rightarrow> (str \<times> bool) list \<Rightarrow> (str \<times> bool) list" where
  "remember w valid cache =
     AList.update w valid (if VALID_CACHE_LIMIT \<le> length cache then [] else cache)"

definition filter_store :: "(str \<times> str \<times> bool) list \<Rightarrow> dict_state \<Rightarrow> dict_state" where
  "filter_store results st =
     st\<lparr>valid_cache := fold (\<lambda>(key, w, ok). remember key ok) results (valid_cache st)\<rparr>"

definition filter_valid :: "dict_files \<Rightarrow> str list \<Rightarrow> dict_state \<Rightarrow> str set \<times> dict_state" where
  "filter_valid files words st =
     (let st' = ensure_init files st in
      case filter_read words st' of (valid, unknown) \<Rightarrow>
        if unknown = [] then (set valid, st')
        else
          let results = filter_judge st' unknown
          in (set valid \<union> set (map (\<lambda>(_, w, _). w) (filter (\<lambda>(_, _, ok). ok) results)),
              filter_store results st'))"

definition is_word_valid :: "dict_files \<Rightarrow> str \<Rightarrow> dict_state \<Rightarrow> bool \<times> dict_state" where
  "is_word_valid files w st = (case filter_valid files [w] st of (valid, st') \<Rightarrow> (w \<in> valid, st'))"

section \<open>Suggestions\<close>

definition SUGGEST_ALPHABET :: str where
  "SUGGEST_ALPHABET =
    [97, 225, 98, 99, 100, 101, 233, 102, 103, 104, 105, 237, 106, 107, 108, 109, 110, 111, 243, 246, 337,
     112, 113, 114, 115, 116, 117, 250, 252, 369, 118, 119, 120, 121, 122]"

definition accent_base :: "nat \<Rightarrow> nat" where
  "accent_base c =
     (if c = 225 then 97 else if c = 233 then 101 else if c = 237 then 105
      else if c \<in> {243, 246, 337} then 111 else if c \<in> {250, 252, 369} then 117 else c)"

definition rank_candidate :: "str \<Rightarrow> str \<times> nat \<Rightarrow> (str \<times> nat) list \<Rightarrow> (str \<times> nat) list" where
  "rank_candidate w cand ranked =
     (case cand of (c, r) \<Rightarrow>
        if c = w then ranked else if map_of ranked c \<noteq> None then ranked else ranked @ [(c, r)])"

definition substitutions :: "str \<Rightarrow> (str \<times> nat) list" where
  "substitutions w =
     concat (map (\<lambda>i. List.map_filter (\<lambda>l.
         if l \<noteq> w ! i then Some (w[i := l], if accent_base l = accent_base (w ! i) then 0 else 2) else None)
       SUGGEST_ALPHABET) [0..<length w])"

definition transpositions :: "str \<Rightarrow> (str \<times> nat) list" where
  "transpositions w = map (\<lambda>i. (w[i := w ! Suc i, Suc i := w ! i], 1)) [0..<length w - 1]"

definition deletions :: "str \<Rightarrow> (str \<times> nat) list" where
  "deletions w = map (\<lambda>i. (take i w @ drop (Suc i) w, 3)) [0..<length w]"

definition insertions :: "str \<Rightarrow> (str \<times> nat) list" where
  "insertions w =
     concat (map (\<lambda>i. map (\<lambda>l. (take i w @ l # drop i w, 4)) SUGGEST_ALPHABET) [0..<Suc (length w)])"

definition edit_candidates :: "str \<Rightarrow> str list" where
  "edit_candidates w =
     map snd (sort (map (\<lambda>(c, r). (r, c))
       (fold (rank_candidate w) (substitutions w @ transpositions w @ deletions w @ insertions w) [])))"

fun collect_suggestions :: "(str \<Rightarrow> bool) \<Rightarrow> nat \<Rightarrow> str list \<Rightarrow> str list \<Rightarrow> str list" where
  "collect_suggestions ok limit [] acc = acc"
| "collect_suggestions ok limit (c # cs) acc =
     (if 2 \<le> length c \<and> length c \<le> MAX_WORD_LENGTH \<and> ok c
      then let acc' = acc @ [to_uppercase c]
           in if limit \<le> length acc' then acc' else collect_suggestions ok limit cs acc'
      else collect_suggestions ok limit cs acc)"

definition suggest_words :: "dict_files \<Rightarrow> str \<Rightarrow> nat \<Rightarrow> dict_state \<Rightarrow> str list \<times> dict_state" where
  "suggest_words files word limit st =
     (if \<not> valid_word_shape (to_uppercase word) \<or> MAX_WORD_LENGTH < length word then ([], st)
      else let st' = ensure_init files st in
           if dict_checker st' = None then ([], st')
           else (collect_suggestions (lookup st') limit (edit_candidates (to_lowercase word)) [], st'))"

end
