(* ===== verification/DictProps.thy ===== *)
theory DictProps
  imports Dictionary
begin

text \<open>
  The dictionary as a state machine: the cache never contradicts the lists, the two ways of checking
  words agree, rejections take effect, suggestions are valid; and what the unlocked middle step of
  the bulk check breaks.
\<close>

section \<open>The cache is consistent in every reachable state\<close>

definition word_ok :: "dict_state \<Rightarrow> str \<Rightarrow> bool" where
  "word_ok st w \<longleftrightarrow> well_formed w \<and> lookup st (to_lowercase w)"

definition dict_ok :: "dict_state \<Rightarrow> bool" where
  "dict_ok st \<longleftrightarrow>
     (\<forall>k b. map_of (valid_cache st) k = Some b \<longrightarrow> b = lookup st k)
     \<and> (\<not> init_attempted st \<longrightarrow> valid_cache st = [])"

lemma dict_okD: "dict_ok st \<Longrightarrow> map_of (valid_cache st) k = Some b \<Longrightarrow> b = lookup st k"
  by (simp add: dict_ok_def)

lemma dict_ok_emptyI: "valid_cache st = [] \<Longrightarrow> dict_ok st"
  by (simp add: dict_ok_def)

lemma dict_ok_start: "dict_ok dict_start"
  by (simp add: dict_ok_def dict_start_def)

lemma ensure_init_attempted [simp]: "init_attempted (ensure_init files st)"
  by (simp add: ensure_init_def init_checker_def)

lemma ensure_init_id [simp]: "init_attempted st \<Longrightarrow> ensure_init files st = st"
  by (simp add: ensure_init_def)

lemma dict_ok_ensure_init: "dict_ok st \<Longrightarrow> dict_ok (ensure_init files st)"
  by (auto simp: dict_ok_def ensure_init_def init_checker_def bump_def split: option.splits)

lemma map_of_remember:
  "map_of (remember k v cache) k' = Some b \<Longrightarrow> k' = k \<and> b = v \<or> map_of cache k' = Some b"
  by (auto simp: remember_def update_conv' split: if_splits)

lemma filter_store_cache:
  assumes "\<And>key w ok. (key, w, ok) \<in> set results \<Longrightarrow> ok = P key" "\<And>k b. map_of cache k = Some b \<Longrightarrow> b = P k"
    and "map_of (fold (\<lambda>(key, w, ok). remember key ok) results cache) k = Some b"
  shows "b = P k"
  using assms
proof (induction results arbitrary: cache)
  case (Cons r results)
  obtain key w ok where r: "r = (key, w, ok)" by (cases r)
  show ?case
  proof (rule Cons.IH)
    show "ok' = P key'" if "(key', w', ok') \<in> set results" for key' w' ok' using Cons.prems(1) that by auto
    show "b' = P k'" if "map_of (remember key ok cache) k' = Some b'" for k' b'
      using map_of_remember [OF that] Cons.prems(1) [of key w ok] Cons.prems(2) [of k' b'] by (auto simp: r)
    show "map_of (fold (\<lambda>(key, w, ok). remember key ok) results (remember key ok cache)) k = Some b"
      using Cons.prems(3) by (simp add: r)
  qed
qed auto

lemma lookup_filter_store [simp]: "lookup (filter_store results st) = lookup st"
  by (simp add: lookup_def filter_store_def fun_eq_iff split: option.split)

lemma dict_ok_filter_store:
  assumes "dict_ok st" "init_attempted st" "\<forall>(key, w, ok)\<in>set results. ok = lookup st key"
  shows "dict_ok (filter_store results st)"
proof -
  have "b = lookup st k" if "map_of (valid_cache (filter_store results st)) k = Some b" for k b
    using dict_okD [OF assms(1)] assms(3) that
    by (intro filter_store_cache [of results "lookup st" "valid_cache st" k b]) (auto simp: filter_store_def)
  then show ?thesis using assms(2) by (simp add: dict_ok_def) (simp add: filter_store_def)
qed

lemma dict_ok_filter_valid: "dict_ok st \<Longrightarrow> dict_ok (snd (filter_valid files ws st))"
  using dict_ok_ensure_init [of st files]
  by (auto simp: filter_valid_def Let_def filter_judge_def intro!: dict_ok_filter_store split: prod.split)

lemma dict_ok_mark: "dict_ok st \<Longrightarrow> dict_ok (mark_voted_rejected files w b st)"
proof -
  assume "dict_ok st"
  then have ok: "dict_ok (ensure_init files st)" by (rule dict_ok_ensure_init)
  let ?st = "ensure_init files st" and ?st' = "mark_voted_rejected files w b st"
  have other: "lookup ?st' k = lookup ?st k" if "k \<noteq> to_lowercase w" for k
    using that by (auto simp: mark_voted_rejected_def Let_def bump_def lookup_def lookup_with_def split: option.split)
  have "b' = lookup ?st' k" if "map_of (valid_cache ?st') k = Some b'" for k b'
  proof (cases "k = to_lowercase w \<and> (to_lowercase w \<in> rejected_voted (lists ?st)) \<noteq> b")
    case True
    then show ?thesis using that by (auto simp: mark_voted_rejected_def Let_def bump_def delete_conv')
  next
    case False
    then have "map_of (valid_cache ?st) k = Some b'" and "lookup ?st' k = lookup ?st k"
      using that other [of k] by (auto simp: mark_voted_rejected_def Let_def bump_def delete_conv' split: if_splits)
    then show ?thesis using dict_okD [OF ok] by simp
  qed
  moreover have "init_attempted ?st'" by (simp add: mark_voted_rejected_def Let_def bump_def)
  ultimately show "dict_ok ?st'" by (simp add: dict_ok_def)
qed

section \<open>Operations and reachable states\<close>

datatype dict_op =
    CheckWords "str list" | FilterValid "str list" | SetAdmin "str list" "str list" "str list"
  | ReloadRejected "bytes option" | ClearCache | SetVoted "str list" | MarkVoted str bool | ResetLists
  | InitFrom dict_files | Suggest str nat | LookUp str | AskRejected str

fun run_op :: "dict_files \<Rightarrow> dict_op \<Rightarrow> dict_state \<Rightarrow> dict_state" where
  "run_op files (CheckWords ws) st = snd (check_words files ws st)"
| "run_op files (FilterValid ws) st = snd (filter_valid files ws st)"
| "run_op files (SetAdmin a r d) st = set_admin_lists files a r d st"
| "run_op files (ReloadRejected f) st = snd (reload_rejected files f st)"
| "run_op files ClearCache st = snd (clear_valid_cache st)"
| "run_op files (SetVoted ws) st = set_voted_rejected files ws st"
| "run_op files (MarkVoted w b) st = mark_voted_rejected files w b st"
| "run_op files ResetLists st = reset_runtime_lists files st"
| "run_op files (InitFrom fs) st = snd (init_from_dir fs st)"
| "run_op files (Suggest w n) st = snd (suggest_words files w n st)"
| "run_op files (LookUp w) st = snd (lookup_word files w st)"
| "run_op files (AskRejected w) st = snd (is_rejected files w st)"

definition dict_step :: "dict_files \<Rightarrow> dict_state \<Rightarrow> dict_op \<Rightarrow> dict_state \<Rightarrow> bool" where
  "dict_step files st op st' \<longleftrightarrow> st' = run_op files op st"

lemma dict_ok_run_op: "dict_ok st \<Longrightarrow> dict_ok (run_op files op st)"
proof (cases op)
  case (CheckWords ws)
  assume "dict_ok st"
  with CheckWords show ?thesis by (simp add: check_words_def Let_def dict_ok_ensure_init)
next
  case (InitFrom fs)
  assume "dict_ok st"
  with InitFrom show ?thesis by (auto simp: init_from_dir_def intro: dict_ok_emptyI split: option.split)
qed (simp_all add: dict_ok_filter_valid dict_ok_mark dict_ok_ensure_init set_admin_lists_def reload_rejected_def
    clear_valid_cache_def set_voted_rejected_def reset_runtime_lists_def suggest_words_def lookup_word_def is_rejected_def
    Let_def dict_ok_emptyI)

interpretation dict_system: invariant_system "dict_step files" dict_ok for files
  by unfold_locales (simp add: dict_step_def dict_ok_run_op)

definition dict_after :: "dict_files \<Rightarrow> dict_op list \<Rightarrow> dict_state" where
  "dict_after files ops = fold (run_op files) ops dict_start"

lemma dict_after_run: "steps (dict_step files) dict_start ops (dict_after files ops)"
proof (induction ops rule: rev_induct)
  case Nil
  show ?case by (simp add: dict_after_def steps.run_nil)
next
  case (snoc op ops)
  then show ?case by (rule steps.run_snoc) (simp add: dict_step_def dict_after_def)
qed

lemma dict_ok_after: "dict_ok (dict_after files ops)"
  using dict_system.inv_run [OF dict_after_run] dict_ok_start by blast

lemma check_words_iff:
  "fst (fst (check_words files ws st)) \<longleftrightarrow> (\<forall>w\<in>set ws. word_ok (ensure_init files st) w)"
proof (cases "list_ex (\<lambda>w. \<not> well_formed w) ws")
  case True
  then obtain w where "List.find (\<lambda>w. \<not> well_formed w) ws = Some w"
    by (fastforce simp: list_ex_iff find_None_iff)
  then show ?thesis using True by (auto simp: check_words_def check_words_in_def word_ok_def list_ex_iff)
next
  case False
  then have "List.find (\<lambda>w. \<not> well_formed w) ws = None" by (auto simp: list_ex_iff find_None_iff)
  then show ?thesis
    using False
    by (auto simp: check_words_def check_words_in_def word_ok_def lookup_def list_ex_iff Let_def filter_empty_conv
        split: option.splits)
qed

lemma check_words_wrong:
  "set (snd (fst (check_words files ws st))) \<subseteq> {w \<in> set ws. \<not> word_ok (ensure_init files st) w}"
  by (auto simp: check_words_def check_words_in_def word_ok_def lookup_def Let_def find_None_iff list_ex_iff
      split: option.splits if_splits dest!: find_SomeD)

lemma filter_valid_iff:
  assumes "dict_ok st"
  shows "fst (filter_valid files ws st) = {w \<in> set ws. word_ok (ensure_init files st) w}"
proof -
  let ?st = "ensure_init files st" and ?c = "\<lambda>w. map_of (valid_cache (ensure_init files st)) (to_lowercase w)"
  have ok: "dict_ok ?st" by (rule dict_ok_ensure_init [OF assms])
  have cached: "?c w = None \<or> ?c w = Some (lookup ?st (to_lowercase w))" for w
    using dict_okD [OF ok] by (cases "?c w") auto
  have "fst (filter_valid files ws st) =
      set (fst (filter_read ws ?st)) \<union> {w. \<exists>key. (key, w) \<in> set (snd (filter_read ws ?st)) \<and> lookup ?st key}"
    by (cases "filter_read ws ?st") (force simp: filter_valid_def filter_judge_def Let_def)
  also have "\<dots> = {w \<in> set ws. well_formed w \<and> (?c w = Some True \<or> ?c w = None \<and> lookup ?st (to_lowercase w))}"
    by (auto simp: filter_read_def Let_def)
  also have "\<dots> = {w \<in> set ws. word_ok ?st w}"
  proof -
    have "?c w = Some True \<or> ?c w = None \<and> lookup ?st (to_lowercase w) \<longleftrightarrow> lookup ?st (to_lowercase w)" for w
      using cached [of w] by auto
    then show ?thesis by (simp add: word_ok_def)
  qed
  finally show ?thesis .
qed

interpretation dict_oracle: word_oracle "\<lambda>ws. fst (check_words files ws (dict_after files ops))"
  "\<lambda>ws. fst (filter_valid files ws (dict_after files ops))" "word_ok (ensure_init files (dict_after files ops))"
  for files ops
  by unfold_locales (simp_all add: check_words_iff check_words_wrong filter_valid_iff dict_ok_after)


section \<open>What the players see\<close>

lemma lookup_voted:
  "dict_checker st \<noteq> None \<Longrightarrow> w \<in> rejected_voted (lists st) \<Longrightarrow> w \<notin> override_allow (lists st) \<Longrightarrow> \<not> lookup st w"
  by (cases "dict_checker st") (simp_all add: lookup_def lookup_with_def)

lemma lists_marked:
  "init_attempted st \<Longrightarrow> rejected_voted (lists (mark_voted_rejected files w True st)) = insert (to_lowercase w) (rejected_voted (lists st))"
  "init_attempted st \<Longrightarrow> override_allow (lists (mark_voted_rejected files w True st)) = override_allow (lists st)"
  "init_attempted st \<Longrightarrow> dict_checker (mark_voted_rejected files w True st) = dict_checker st"
  by (auto simp: mark_voted_rejected_def Let_def bump_def)


text \<open>
  A rejection takes effect at once: after a word was voted out, no check accepts it, unless an
  administrator allows it (or no dictionary is loaded), and the question whether it is rejected is
  answered with yes.
\<close>

theorem voted_out_word_is_invalid:
  assumes "dict_checker (ensure_init files (dict_after files ops)) \<noteq> None"
    and "to_lowercase w \<notin> override_allow (lists (ensure_init files (dict_after files ops)))"
  defines "st \<equiv> mark_voted_rejected files w True (dict_after files ops)"
  shows "w \<notin> fst (filter_valid files ws st) \<and> \<not> fst (fst (check_words files [w] st))
    \<and> fst (is_rejected files w st)"
proof -
  have ok: "dict_ok st" unfolding st_def by (rule dict_ok_mark [OF dict_ok_after])
  have init: "init_attempted st" by (simp add: st_def mark_voted_rejected_def Let_def bump_def)
  have ls: "to_lowercase w \<in> rejected_voted (lists st)" "to_lowercase w \<notin> override_allow (lists st)" "dict_checker st \<noteq> None"
    using assms(1,2) by (auto simp: st_def mark_voted_rejected_def Let_def bump_def)
  then have "\<not> lookup st (to_lowercase w)" using lookup_voted by blast
  then have "\<not> word_ok st w" by (simp add: word_ok_def)
  moreover have "fst (is_rejected files w st)" using ls init by (simp add: is_rejected_def Let_def)
  ultimately show ?thesis using init by (simp add: filter_valid_iff [OF ok] check_words_iff)
qed

text \<open>The small dictionary of the examples, as the file that is loaded.\<close>

definition demo_files :: dict_files where
  "demo_files = \<lparr>checker_file = Some (from_bytes demo_aff demo_dic None), rejected_file = None\<rparr>"

theorem voted_out_word_is_invalid_witness:
  "fst (fst (check_words demo_files [ascii ''ALMA''] (dict_after demo_files [])))
   \<and> \<not> fst (fst (check_words demo_files [ascii ''ALMA'']
        (mark_voted_rejected demo_files (ascii ''ALMA'') True (dict_after demo_files []))))"
proof -
  have "dict_checker (ensure_init demo_files (dict_after demo_files [])) \<noteq> None"
    and "to_lowercase (ascii ''ALMA'') \<notin> override_allow (lists (ensure_init demo_files (dict_after demo_files [])))"
    by (simp_all add: ensure_init_def init_checker_def dict_after_def dict_start_def demo_files_def bump_def empty_lists_def)
  then have "\<not> fst (fst (check_words demo_files [ascii ''ALMA'']
        (mark_voted_rejected demo_files (ascii ''ALMA'') True (dict_after demo_files []))))"
    using voted_out_word_is_invalid [of demo_files "[]" "ascii ''ALMA''"] by blast
  moreover have "fst (fst (check_words demo_files [ascii ''ALMA''] (dict_after demo_files [])))" by code_simp
  ultimately show ?thesis by blast
qed

text \<open>
  The bulk check gives its verdicts without holding the lock of the cache. When a word is voted out
  between the verdict and the moment it is stored, the old verdict stays in the cache: the bulk check
  keeps calling the word valid while the check of a placement refuses it.
\<close>

theorem stale_verdict_survives:
  fixes files :: dict_files and st :: dict_state and w :: str
  assumes "init_attempted st" "dict_checker st \<noteq> None" "valid_cache st = []" "word_ok st w"
    and "to_lowercase w \<notin> override_allow (lists st)"
  defines "results \<equiv> filter_judge st (snd (filter_read [w] st))"
  defines "st' \<equiv> filter_store results (mark_voted_rejected files w True st)"
  shows "fst (filter_valid files [w] st') = {w} \<and> \<not> fst (fst (check_words files [w] st'))"
proof -
  have results: "results = [(to_lowercase w, w, True)]"
    using assms(3,4) by (simp add: results_def filter_judge_def filter_read_def Let_def word_ok_def)
  have "to_lowercase w \<notin> rejected_voted (lists st)"
    using assms(2,4,5) lookup_voted [of st "to_lowercase w"] by (auto simp: word_ok_def)
  then have st': "st' = (mark_voted_rejected files w True st)\<lparr>valid_cache := [(to_lowercase w, True)]\<rparr>"
    using assms(1,3) by (simp add: st'_def results filter_store_def mark_voted_rejected_def Let_def remember_def bump_def)
  have init: "init_attempted st'" using assms(1) by (simp add: st' mark_voted_rejected_def Let_def bump_def)
  have cache: "map_of (valid_cache st') (to_lowercase w) = Some True" by (simp add: st')
  have "\<not> lookup st' (to_lowercase w)"
    using assms(1,2,5) lookup_voted [of st' "to_lowercase w"] by (simp add: st' lists_marked)
  then have "\<not> fst (fst (check_words files [w] st'))" using init by (simp add: check_words_iff word_ok_def)
  moreover have "fst (filter_valid files [w] st') = {w}"
    using init cache assms(4) by (simp add: filter_valid_def filter_read_def Let_def word_ok_def)
  ultimately show ?thesis by blast
qed

theorem stale_verdict_survives_witness:
  "\<exists>st. fst (filter_valid demo_files [ascii ''ALMA''] st) = {ascii ''ALMA''}
     \<and> \<not> fst (fst (check_words demo_files [ascii ''ALMA''] st))"
proof -
  let ?st = "ensure_init demo_files dict_start"
  have "dict_checker ?st \<noteq> None" "valid_cache ?st = []" "to_lowercase (ascii ''ALMA'') \<notin> override_allow (lists ?st)"
    by (simp_all add: ensure_init_def init_checker_def dict_start_def demo_files_def bump_def empty_lists_def)
  moreover have "word_ok ?st (ascii ''ALMA'')" by code_simp
  ultimately show ?thesis using stale_verdict_survives [of ?st "ascii ''ALMA''" demo_files] by (simp only: ensure_init_attempted) blast
qed


section \<open>Suggestions\<close>

text \<open>The letters of suggestions are lower case, and changing the case twice changes nothing.\<close>

lemma upper_lower_letter:
  "c \<in> set SUGGEST_ALPHABET \<Longrightarrow> \<exists>u. upper_char c = [u] \<and> lower_char u = [c] \<and> (65 \<le> u \<and> u \<le> 90 \<or> u \<in> set big_accented)"
proof -
  have "list_all (\<lambda>c. case upper_char c of [u] \<Rightarrow> lower_char u = [c] \<and> (65 \<le> u \<and> u \<le> 90 \<or> u \<in> set big_accented) | _ \<Rightarrow> False) SUGGEST_ALPHABET"
    by (simp add: SUGGEST_ALPHABET_def upper_char_def upper_table_def lower_char_def big_accented_def)
  moreover assume "c \<in> set SUGGEST_ALPHABET"
  ultimately have "case upper_char c of [u] \<Rightarrow> lower_char u = [c] \<and> (65 \<le> u \<and> u \<le> 90 \<or> u \<in> set big_accented) | _ \<Rightarrow> False"
    by (simp only: list_all_iff)
  then show ?thesis by (simp split: list.splits)
qed

lemma upper_lower_word:
  "set w \<subseteq> set SUGGEST_ALPHABET \<Longrightarrow>
     to_lowercase (to_uppercase w) = w \<and> length (to_uppercase w) = length w
     \<and> list_all (\<lambda>c. 65 \<le> c \<and> c \<le> 90 \<or> c \<in> set big_accented) (to_uppercase w)"
proof (induction w)
  case (Cons c w)
  then obtain u where "upper_char c = [u]" "lower_char u = [c]" "65 \<le> u \<and> u \<le> 90 \<or> u \<in> set big_accented"
    using upper_lower_letter [of c] by auto
  with Cons show ?case by (simp add: to_uppercase_def to_lowercase_def)
qed (simp add: to_uppercase_def to_lowercase_def)

lemma set_rank_candidate:
  "fst ` set (fold (rank_candidate w) cands ranked) = fst ` set ranked \<union> (fst ` set cands - {w})"
proof (induction cands arbitrary: ranked)
  case (Cons cand cands)
  have "fst ` set (rank_candidate w cand ranked) = fst ` set ranked \<union> ({fst cand} - {w})"
    by (cases cand) (auto simp: rank_candidate_def map_of_eq_None_iff)
  then show ?case by (auto simp: Cons.IH)
qed simp

definition all_edits :: "str \<Rightarrow> (str \<times> nat) list" where
  "all_edits w = substitutions w @ transpositions w @ deletions w @ insertions w"

lemma set_edit_candidates: "set (edit_candidates w) = fst ` set (all_edits w) - {w}"
proof -
  have "set (edit_candidates w) = fst ` set (fold (rank_candidate w) (all_edits w) [])"
    by (simp only: edit_candidates_def all_edits_def set_map set_sort image_image case_prod_unfold snd_conv)
  then show ?thesis by (simp add: set_rank_candidate)
qed

text \<open>Every candidate is one edit away: its length differs by at most one, its letters are letters.\<close>

lemma edits_letters:
  assumes "set w \<subseteq> set SUGGEST_ALPHABET"
  shows "c \<in> fst ` set (substitutions w) \<Longrightarrow> set c \<subseteq> set SUGGEST_ALPHABET \<and> length c = length w"
    "c \<in> fst ` set (transpositions w) \<Longrightarrow> set c \<subseteq> set SUGGEST_ALPHABET \<and> length c = length w"
    "c \<in> fst ` set (deletions w) \<Longrightarrow> set c \<subseteq> set SUGGEST_ALPHABET \<and> Suc (length c) = length w"
    "c \<in> fst ` set (insertions w) \<Longrightarrow> set c \<subseteq> set SUGGEST_ALPHABET \<and> length c = Suc (length w)"
proof -
  assume "c \<in> fst ` set (substitutions w)"
  then obtain i l where "l \<in> set SUGGEST_ALPHABET" "c = w[i := l]"
    by (auto simp: substitutions_def set_map_filter_eq split: if_splits)
  then show "set c \<subseteq> set SUGGEST_ALPHABET \<and> length c = length w"
    using set_update_subset_insert [of w i l] assms by auto
next
  assume "c \<in> fst ` set (transpositions w)"
  then obtain i where "i < length w - 1" "c = w[i := w ! Suc i, Suc i := w ! i]"
    by (auto simp: transpositions_def)
  then have "set c = set w" "length c = length w" using set_swap [of i w "Suc i"] by auto
  then show "set c \<subseteq> set SUGGEST_ALPHABET \<and> length c = length w" using assms by simp
next
  assume "c \<in> fst ` set (deletions w)"
  then obtain i where "i < length w" "c = take i w @ drop (Suc i) w" by (auto simp: deletions_def)
  then show "set c \<subseteq> set SUGGEST_ALPHABET \<and> Suc (length c) = length w"
    using assms set_take_subset [of i w] set_drop_subset [of "Suc i" w] by auto
next
  assume "c \<in> fst ` set (insertions w)"
  then obtain i l where "i \<le> length w" "l \<in> set SUGGEST_ALPHABET" "c = take i w @ l # drop i w"
    by (auto simp: insertions_def less_Suc_eq_le simp del: upt_Suc)
  then show "set c \<subseteq> set SUGGEST_ALPHABET \<and> length c = Suc (length w)"
    using assms set_take_subset [of i w] set_drop_subset [of i w] by auto
qed

lemma edit_candidates_letters:
  assumes "c \<in> set (edit_candidates w)" "set w \<subseteq> set SUGGEST_ALPHABET"
  shows "set c \<subseteq> set SUGGEST_ALPHABET \<and> length c \<le> Suc (length w) \<and> length w \<le> Suc (length c)"
proof -
  have "c \<in> fst ` set (all_edits w)" using set_edit_candidates assms(1) by blast
  then consider "c \<in> fst ` set (substitutions w)" | "c \<in> fst ` set (transpositions w)"
    | "c \<in> fst ` set (deletions w)" | "c \<in> fst ` set (insertions w)"
    unfolding all_edits_def by auto
  then show ?thesis
  proof cases
    case 1 then show ?thesis using edits_letters(1) [OF assms(2)] by simp
  next case 2 then show ?thesis using edits_letters(2) [OF assms(2)] by simp
  next case 3 then have "set c \<subseteq> set SUGGEST_ALPHABET \<and> Suc (length c) = length w" by (rule edits_letters(3) [OF assms(2)])
    then show ?thesis by auto
  next case 4 then show ?thesis using edits_letters(4) [OF assms(2)] by simp
  qed
qed

lemma length_lower_letters:
  "set (to_lowercase w) \<subseteq> set SUGGEST_ALPHABET \<Longrightarrow> length (to_lowercase w) = length w"
proof (induction w)
  case (Cons c w)
  have "775 \<notin> set SUGGEST_ALPHABET" by (simp add: SUGGEST_ALPHABET_def)
  then have "c \<noteq> 304" using Cons.prems by (auto simp: to_lowercase_def lower_char_def)
  then have "length (lower_char c) = 1" by (simp add: lower_char_def)
  then show ?case using Cons by (simp add: to_lowercase_def)
qed (simp add: to_lowercase_def)

lemma collect_suggestions_sound:
  "s \<in> set (collect_suggestions ok limit cs acc) \<Longrightarrow>
     s \<in> set acc \<or> (\<exists>c\<in>set cs. s = to_uppercase c \<and> 2 \<le> length c \<and> length c \<le> MAX_WORD_LENGTH \<and> ok c)"
  by (induction cs arbitrary: acc) (fastforce simp: Let_def split: if_splits)+

lemma collect_suggestions_keeps: "set acc \<subseteq> set (collect_suggestions ok limit cs acc)"
proof (induction cs arbitrary: acc)
  case (Cons c cs)
  show ?case using Cons.IH [of acc] Cons.IH [of "acc @ [to_uppercase c]"] by (simp add: Let_def subset_insertI)
qed simp

lemma collect_suggestions_complete:
  "length acc + length cs \<le> limit \<Longrightarrow> c \<in> set cs \<Longrightarrow> 2 \<le> length c \<Longrightarrow> length c \<le> MAX_WORD_LENGTH \<Longrightarrow> ok c
     \<Longrightarrow> to_uppercase c \<in> set (collect_suggestions ok limit cs acc)"
proof (induction cs arbitrary: acc)
  case (Cons d cs)
  let ?rec = "\<lambda>acc. collect_suggestions ok limit cs acc"
  show ?case
  proof (cases "d = c")
    case True
    then show ?thesis using Cons.prems collect_suggestions_keeps [of "acc @ [to_uppercase c]" ok limit cs]
      by (auto simp: Let_def)
  next
    case False
    then have c: "c \<in> set cs" using Cons.prems by simp
    show ?thesis
    proof (cases "cs = []")
      case True then show ?thesis using c by simp
    next
      case ne: False
      then have "length acc + 1 < limit" using Cons.prems(1) by (cases cs) auto
      then show ?thesis using Cons.IH [OF _ c] Cons.prems by (auto simp: Let_def)
    qed
  qed
qed simp

lemma collect_suggestions_length:
  "length acc < max 1 limit \<Longrightarrow> length (collect_suggestions ok limit cs acc) \<le> max 1 limit"
  by (induction cs arbitrary: acc) (auto simp: Let_def)

text \<open>
  Every suggestion for a word of Hungarian letters is a word the game accepts, differs from it by at
  most one letter in length, and there are not more than asked for (one, where none is asked for).
\<close>

theorem suggestions_are_valid:
  assumes "set (to_lowercase word) \<subseteq> set SUGGEST_ALPHABET"
    and "s \<in> set (fst (suggest_words files word limit (dict_after files ops)))"
  shows "fst (fst (check_words files [s] (dict_after files ops)))
    \<and> s \<in> fst (filter_valid files [s] (dict_after files ops))
    \<and> length s \<le> Suc (length word) \<and> length (to_lowercase word) \<le> Suc (length s)
    \<and> length (fst (suggest_words files word limit (dict_after files ops))) \<le> max 1 limit"
proof -
  let ?st = "ensure_init files (dict_after files ops)"
  have len: "length (to_lowercase word) = length word" by (rule length_lower_letters [OF assms(1)])
  have "s \<in> set (collect_suggestions (lookup ?st) limit (edit_candidates (to_lowercase word)) [])"
    using assms(2) by (auto simp: suggest_words_def Let_def split: if_splits)
  then obtain c where c: "c \<in> set (edit_candidates (to_lowercase word))" "s = to_uppercase c" "2 \<le> length c"
      "length c \<le> MAX_WORD_LENGTH" "lookup ?st c"
    using collect_suggestions_sound by fastforce
  note letters = edit_candidates_letters [OF c(1) assms(1)]
  then have up: "to_lowercase s = c" "length s = length c" "list_all (\<lambda>c. 65 \<le> c \<and> c \<le> 90 \<or> c \<in> set big_accented) s"
    using upper_lower_word [of c] c(2) by auto
  then have "word_ok ?st s"
    using c(3-5) by (auto simp: word_ok_def well_formed_def valid_word_shape_def)
  then show ?thesis
    using letters len up(2) collect_suggestions_length [of "[]" limit "lookup ?st" "edit_candidates (to_lowercase word)"]
    by (auto simp: check_words_iff filter_valid_iff [OF dict_ok_after] suggest_words_def Let_def)
qed


text \<open>A dictionary of one word for the example.\<close>

definition tiny_files :: dict_files where
  "tiny_files = \<lparr>checker_file = Some (from_bytes [] (ascii ''1'' @ [10] @ ascii ''ab'') None), rejected_file = None\<rparr>"

theorem suggestions_are_valid_witness:
  "fst (fst (check_words tiny_files [ascii ''AB''] (dict_after tiny_files [])))"
proof -
  have "set (to_lowercase (ascii ''a'')) \<subseteq> set SUGGEST_ALPHABET" by code_simp
  moreover have "ascii ''AB'' \<in> set (fst (suggest_words tiny_files (ascii ''a'') (length (edit_candidates (ascii ''a''))) (dict_after tiny_files [])))"
  proof -
    let ?st = "ensure_init tiny_files (dict_after tiny_files [])"
    have "dict_checker ?st \<noteq> None"
      by (simp add: ensure_init_def init_checker_def dict_after_def dict_start_def tiny_files_def bump_def)
    moreover have "valid_word_shape (to_uppercase (ascii ''a''))" by code_simp
    moreover have "to_lowercase (ascii ''a'') = ascii ''a''" "to_uppercase (ascii ''ab'') = ascii ''AB''" by code_simp+
    moreover have "ascii ''ab'' \<in> set (edit_candidates (ascii ''a''))"
      by (force simp: set_edit_candidates all_edits_def insertions_def SUGGEST_ALPHABET_def ascii_def)
    moreover have "lookup ?st (ascii ''ab'')" by code_simp
    ultimately show ?thesis
      using collect_suggestions_complete [of "[]" "edit_candidates (ascii ''a'')" "length (edit_candidates (ascii ''a''))"
          "ascii ''ab''" "lookup ?st"]
      by (simp add: suggest_words_def Let_def MAX_WORD_LENGTH_def) (simp add: ascii_def)
  qed
  ultimately show ?thesis by (rule suggestions_are_valid [THEN conjunct1])
qed

end
