(* ===== verification/BotProps.thy ===== *)
theory BotProps
  imports SearchMoves GameProps DictProps
begin

text \<open>
  The order of the tiles of a placement does not matter to its legality, its words and its score, so the
  placements that the search finds up to order are the legal ones (\<open>generate_moves_tiles\<close>).
\<close>

section \<open>The order of the tiles does not matter\<close>

lemma mset_concat_map: "mset ps = mset qs \<Longrightarrow> mset (concat (map f ps)) = mset (concat (map f qs))"
proof -
  assume "mset ps = mset qs"
  then have "sum_mset (image_mset (\<lambda>x. mset (f x)) (mset ps)) = sum_mset (image_mset (\<lambda>x. mset (f x)) (mset qs))" by simp
  then show ?thesis by (simp add: mset_concat sum_mset_sum_list [symmetric] multiset.map_comp o_def)
qed

lemma squares_perm:
  assumes "mset ps = mset qs"
  shows "mset (squares_of ps) = mset (squares_of qs)" "set (squares_of ps) = set (squares_of qs)"
    "distinct (squares_of ps) = distinct (squares_of qs)"
proof -
  show m: "mset (squares_of ps) = mset (squares_of qs)" using assms by (simp add: squares_of_def)
  show "set (squares_of ps) = set (squares_of qs)" by (rule mset_eq_setD [OF m])
  show "distinct (squares_of ps) = distinct (squares_of qs)" by (rule mset_eq_imp_distinct_iff [OF m])
qed

lemma legal_geometry_perm:
  assumes eq: "mset ps = mset qs" and l: "legal_geometry b ps"
  shows "legal_geometry b qs" "lay_tiles ps b = lay_tiles qs b"
proof -
  note sq = squares_perm [OF eq]
  have set: "set ps = set qs" using eq by (rule mset_eq_setD)
  have d: "distinct (squares_of ps)" using l by (simp add: legal_geometry_def)
  then show lay: "lay_tiles ps b = lay_tiles qs b" using sq(3) by (intro lay_tiles_perm [OF set]) simp_all
  have len: "length ps = length qs" using eq by (rule mset_eq_length)
  then have ne: "ps = [] \<longleftrightarrow> qs = []" by (metis length_0_conv)
  have "legal_geometry b ps = legal_geometry b qs"
    unfolding legal_geometry_def aligned_def contiguous_def lay sq(2,3) set ne len ..
  then show "legal_geometry b qs" using l by simp
qed

lemma placement_words_perm:
  assumes eq: "mset ps = mset qs" and l: "legal_geometry b ps"
  shows "mset (placement_words b ps) = mset (placement_words b qs)"
proof -
  note sq = squares_perm [OF eq] and lay = legal_geometry_perm(2) [OF eq l]
  let ?h = "main_direction b ps" and ?B = "lay_tiles ps b" and ?m = "mask_of (squares_of ps)"
  have len: "length ps = length qs" using eq by (rule mset_eq_length)
  have dir: "main_direction b qs = ?h"
  proof (cases "length ps = 1")
    case True
    then obtain p where "ps = [p]" by (cases ps) auto
    then show ?thesis using eq by simp
  next
    case False
    then show ?thesis using len sq(2) by (simp add: main_direction_def aligned_def)
  qed
  have mask: "mask_of (squares_of qs) = ?m" by (intro ext) (simp add: mask_of_def sq(2))
  have geo: "squares_of ps \<noteq> []" "aligned ?h (squares_of ps)" "contiguous ?B ?h (squares_of ps)"
    "\<forall>q\<in>set (squares_of ps). moving_of ?h q < BOARD_SIZE"
    using l legal_direction [of ps b] squares_of_small [of ps]
    by (auto simp: legal_geometry_def squares_of_def moving_of_def)
  have "squares_of qs \<noteq> []" using geo(1) sq(2) by (metis set_empty)
  then have "hd (squares_of qs) \<in> set (squares_of ps)" "hd (squares_of ps) \<in> set (squares_of ps)"
    using sq(2) geo(1) by (metis hd_in_set)+
  then have "run ?B ?h (hd (squares_of ps)) = run ?B ?h (hd (squares_of qs))"
    using run_same [OF geo] by blast
  then have "run_word ?B ?m ?h (hd (squares_of ps)) = run_word ?B ?m ?h (hd (squares_of qs))" by (simp only: run_word_def)
  then show ?thesis
    using mset_concat_map [OF sq(1), of "run_word ?B ?m (\<not> ?h)"]
    unfolding placement_words_def words_of_def lay [symmetric] mask dir by simp
qed

section \<open>The moves of the search\<close>

definition rule_legal :: "board \<Rightarrow> placed list \<Rightarrow> bool" where
  "rule_legal b ps \<longleftrightarrow>
     legal_geometry b ps \<and> no_split (lay_tiles ps b) (mask_of (squares_of ps)) (placement_words b ps)"

lemma rule_legal_perm:
  assumes eq: "mset ps = mset qs" and "rule_legal b ps"
  shows "rule_legal b qs"
proof -
  have l: "legal_geometry b ps" using assms(2) by (simp add: rule_legal_def)
  have "set (placement_words b ps) = set (placement_words b qs)"
    using placement_words_perm [OF eq l] by (rule mset_eq_setD)
  moreover have "mask_of (squares_of qs) = mask_of (squares_of ps)" using squares_perm(2) [OF eq] by (intro ext) (simp add: mask_of_def)
  ultimately show ?thesis
    using assms(2) legal_geometry_perm [OF eq l] unfolding rule_legal_def no_split_def by auto
qed

lemma score_move_eq:
  "score_move b n ps =
     (if length ps \<le> n \<and> rule_legal b ps
      then Some \<lparr>m_tiles = ps, m_words = map fw_word (placement_words b ps),
             m_score = lerakas_total (placement_words b ps) (length ps),
             m_equity = real_of_int (lerakas_total (placement_words b ps) (length ps))\<rparr>
      else None)"
proof (cases "rule_legal b ps")
  case True
  then have "validate_placement (\<lambda>_. (True, [])) b ps True = Some (Inr (placement_words b ps))"
    using validate_placement_accepts [of b ps True] by (simp add: rule_legal_def)
  then show ?thesis using True by (simp add: score_move_def Let_def lerakas_total_def)
next
  case False
  then have "\<exists>e. validate_placement (\<lambda>_. (True, [])) b ps True = Some (Inl e)"
    using validate_placement_verdict [of b ps "\<lambda>_. (True, [])" True] unfolding rule_legal_def
    by (metis (full_types))
  then show ?thesis using False by (auto simp: score_move_def)
qed

definition legal_moves :: "board \<Rightarrow> tile list \<Rightarrow> (str \<Rightarrow> bool) \<Rightarrow> (str \<Rightarrow> bool) \<Rightarrow> placed list set" where
  "legal_moves b rack known valid =
     {ps. rule_legal b ps \<and> (\<exists>h. (board_is_empty b \<longrightarrow> h) \<and> searchable b rack known (\<lambda>w. known w \<or> valid w) h ps)}"

lemma set_map_filter_score:
  "set (List.map_filter (score_move b n) found) = {mv. \<exists>ps\<in>set found. score_move b n ps = Some mv}"
  by (rule set_map_filter_eq)

lemma score_move_Some:
  "score_move b n ps = Some mv \<longleftrightarrow> length ps \<le> n \<and> rule_legal b ps \<and>
     mv = \<lparr>m_tiles = ps, m_words = map fw_word (placement_words b ps),
             m_score = lerakas_total (placement_words b ps) (length ps),
             m_equity = real_of_int (lerakas_total (placement_words b ps) (length ps))\<rparr>"
  by (auto simp: score_move_eq)

lemma map_filter_scored: "map m_tiles (List.map_filter (score_move b n) found) = filter (\<lambda>ps. length ps \<le> n \<and> rule_legal b ps) found"
  by (induction found) (auto simp: map_filter_simps score_move_eq)

lemma no_usable_tiles:
  assumes "list_all (\<lambda>n. n = 0) (rack_counts rack) \<and> rack_blanks ab rack = 0"
  shows "\<not> searchable b (rack_tiles ab rack) known ok h ps"
proof
  assume s: "searchable b (rack_tiles ab rack) known ok h ps"
  then obtain p where p: "p \<in> set ps" by (cases ps) (auto simp: searchable_def)
  have sub: "mset (map hand_tile ps) \<subseteq># mset (rack_tiles ab rack)" using s by (simp add: searchable_def)
  have "hand_tile p \<in># mset (map hand_tile ps)" using p by simp
  then have mem: "hand_tile p \<in># mset (rack_tiles ab rack)" by (rule mset_subset_eqD [OF sub])
  show False
  proof (cases "p_blank p")
    case True
    then have "0 < count (mset (rack_tiles ab rack)) BLANK" using mem by (simp add: hand_tile_def)
    then show False using assms rack_blanks_count [of ab rack] by simp
  next
    case False
    have l: "p_letter p \<in> set letters" using s p by (simp add: searchable_def)
    have "rack_counts rack ! tile_index (p_letter p) \<in> set (rack_counts rack)"
      using l by (intro nth_mem) (simp add: rack_counts_def letter_index)
    then have "count (mset (rack_tiles ab rack)) (p_letter p) = 0"
      using assms rack_counts_count [OF l, of rack ab] by (auto simp: list_all_iff)
    then show False using mem False by (simp add: hand_tile_def)
  qed
qed

lemma generate_moves_tiles:
  fixes valid :: "str \<Rightarrow> bool" and late :: "nat \<Rightarrow> bool" and b :: board and rack :: "tile list" and vocab :: vocabulary
  assumes "lettered b" "prefixes_ok vocab" "length rack \<le> HAND_SIZE"
  defines "moves \<equiv> generate_moves (\<lambda>ws. {w \<in> set ws. valid w}) late b rack vocab True HAND_SIZE"
  shows "mset ` m_tiles ` set moves \<subseteq> mset ` legal_moves b rack (vocab_contains vocab) valid"
    and "\<forall>n. \<not> late n \<Longrightarrow> mset ` m_tiles ` set moves = mset ` legal_moves b rack (vocab_contains vocab) valid"
    and "distinct (map (\<lambda>mv. mset (m_tiles mv)) moves)"
    and "mv \<in> set moves \<Longrightarrow> rule_legal b (m_tiles mv) \<and> m_words mv = map fw_word (placement_words b (m_tiles mv))
      \<and> m_score mv = lerakas_total (placement_words b (m_tiles mv)) (length (m_tiles mv))
      \<and> m_equity mv = real_of_int (m_score mv)"
proof -
  let ?found = "found_tiles (\<lambda>ws. {w \<in> set ws. valid w}) late b rack vocab True"
  have rack: "rack_tiles True rack = rack" by (simp add: rack_tiles_def)
  note F = found_tiles_spec [OF assms(1,2,3), where ab = True and late = late and valid = valid, unfolded rack]
  have short: "length ps \<le> HAND_SIZE" if "searchable b rack known ok h ps" for known ok h ps
  proof -
    have "mset (map hand_tile ps) \<subseteq># mset rack" using that by (simp add: searchable_def)
    then have "size (mset (map hand_tile ps)) \<le> size (mset rack)" by (rule size_mset_mono)
    then show ?thesis using assms(3) by simp
  qed
  let ?none = "list_all (\<lambda>n. n = 0) (rack_counts rack) \<and> rack_blanks True rack = 0"
  have none: "found_placements b rack vocab valid = {}" "legal_moves b rack (vocab_contains vocab) valid = {}" if ?none
    using no_usable_tiles [OF that] by (auto simp: found_placements_def legal_moves_def rack)
  have moves: "map m_tiles moves = (if ?none then [] else filter (\<lambda>ps. length ps \<le> HAND_SIZE \<and> rule_legal b ps) ?found)"
    unfolding moves_def generate_moves_def by (simp add: map_filter_scored)
  have legal: "mset ps \<in> mset ` legal_moves b rack (vocab_contains vocab) valid
      \<longleftrightarrow> rule_legal b ps \<and> mset ps \<in> found_placements b rack vocab valid" for ps
  proof
    assume "mset ps \<in> mset ` legal_moves b rack (vocab_contains vocab) valid"
    then obtain qs where qs: "qs \<in> legal_moves b rack (vocab_contains vocab) valid" "mset qs = mset ps" by (metis image_iff)
    have "mset qs \<in> found_placements b rack vocab valid"
      unfolding found_placements_def using qs(1) unfolding legal_moves_def by blast
    moreover have "rule_legal b qs" using qs(1) by (simp add: legal_moves_def)
    ultimately show "rule_legal b ps \<and> mset ps \<in> found_placements b rack vocab valid"
      using rule_legal_perm [OF qs(2)] qs(2) by simp
  next
    assume ps: "rule_legal b ps \<and> mset ps \<in> found_placements b rack vocab valid"
    then obtain qs where qs: "mset ps = mset qs"
      "\<exists>h. (board_is_empty b \<longrightarrow> h) \<and> searchable b rack (vocab_contains vocab) (\<lambda>w. vocab_contains vocab w \<or> valid w) h qs"
      unfolding found_placements_def by blast
    then have "qs \<in> legal_moves b rack (vocab_contains vocab) valid"
      unfolding legal_moves_def using ps rule_legal_perm [OF qs(1)] by blast
    then show "mset ps \<in> mset ` legal_moves b rack (vocab_contains vocab) valid" using qs(1) by simp
  qed
  have set: "m_tiles ` set moves = (if ?none then {} else {ps \<in> set ?found. length ps \<le> HAND_SIZE \<and> rule_legal b ps})"
    using arg_cong [OF moves, of set] by simp
  have sub: "mset ` m_tiles ` set moves \<subseteq> mset ` legal_moves b rack (vocab_contains vocab) valid"
  proof (rule image_subsetI)
    fix ps
    assume "ps \<in> m_tiles ` set moves"
    then have "ps \<in> set ?found" "rule_legal b ps" unfolding set by (auto split: if_splits)
    then show "mset ps \<in> mset ` legal_moves b rack (vocab_contains vocab) valid" using F(1) legal by blast
  qed
  then show "mset ` m_tiles ` set moves \<subseteq> mset ` legal_moves b rack (vocab_contains vocab) valid" .
  show "mset ` m_tiles ` set moves = mset ` legal_moves b rack (vocab_contains vocab) valid" if "\<forall>n. \<not> late n"
  proof (cases ?none)
    case True
    then show ?thesis unfolding set by (simp add: none(2))
  next
    case False
    have onto: "x \<in> mset ` m_tiles ` set moves" if x: "x \<in> mset ` legal_moves b rack (vocab_contains vocab) valid" for x
    proof -
      obtain ps where ps: "x = mset ps" using x by blast
      then have "rule_legal b ps" "mset ps \<in> mset ` set ?found" using x legal F(2) [OF \<open>\<forall>n. \<not> late n\<close>] by auto
      then obtain qs where qs: "qs \<in> set ?found" "mset ps = mset qs" by blast
      have "mset qs \<in> found_placements b rack vocab valid" using F(1) qs(1) by blast
      then obtain rs h where rs: "mset qs = mset rs"
        "searchable b rack (vocab_contains vocab) (\<lambda>w. vocab_contains vocab w \<or> valid w) h rs"
        unfolding found_placements_def by blast
      have "length qs \<le> HAND_SIZE" using short [OF rs(2)] mset_eq_length [OF rs(1)] by simp
      then have "qs \<in> m_tiles ` set moves"
        unfolding set if_not_P [OF False] using qs rule_legal_perm [OF qs(2) \<open>rule_legal b ps\<close>] by blast
      then show ?thesis using ps qs(2) by blast
    qed
    show ?thesis by (rule subset_antisym [OF sub]) (use onto in blast)
  qed
  have "distinct (map mset (map m_tiles moves))"
    unfolding moves using F(3) by (auto simp: distinct_map_filter)
  then show "distinct (map (\<lambda>mv. mset (m_tiles mv)) moves)" by (simp add: o_def)
  show "rule_legal b (m_tiles mv) \<and> m_words mv = map fw_word (placement_words b (m_tiles mv))
      \<and> m_score mv = lerakas_total (placement_words b (m_tiles mv)) (length (m_tiles mv))
      \<and> m_equity mv = real_of_int (m_score mv)" if "mv \<in> set moves"
    using that unfolding moves_def generate_moves_def
    by (auto simp: set_map_filter_score score_move_Some split: if_splits)
qed

end
