(* ===== verification/BotPlay.thy ===== *)
theory BotPlay
  imports BotProps CoreProps
begin

text \<open>
  What the bots promise: the search gives the legal moves, the chosen action is one that the game accepts,
  the hints are the best moves. \<open>rack_moves\<close> is the declarative specification of the search.
\<close>

section \<open>The legal moves, declaratively\<close>

definition words_known :: "board \<Rightarrow> (str \<Rightarrow> bool) \<Rightarrow> (str \<Rightarrow> bool) \<Rightarrow> bool \<Rightarrow> placed list \<Rightarrow> bool" where
  "words_known b known ok h ps \<longleftrightarrow>
     (let b' = lay_tiles ps b in
      aligned h (squares_of ps) \<and> contiguous b' h (squares_of ps)
      \<and> (\<forall>q\<in>set (squares_of ps).
           2 \<le> length (run_text b' h q) \<and> known (run_text b' h q)
           \<and> (1 < length (run b' (\<not> h) q) \<longrightarrow> known (run_text b' (\<not> h) q) \<or> ok (run_text b' (\<not> h) q))))"

definition rack_moves :: "board \<Rightarrow> tile list \<Rightarrow> (str \<Rightarrow> bool) \<Rightarrow> (str \<Rightarrow> bool) \<Rightarrow> placed list set" where
  "rack_moves b rack known ok =
     {ps. legal_geometry b ps \<and> no_split (lay_tiles ps b) (mask_of (squares_of ps)) (placement_words b ps)
        \<and> (\<forall>p\<in>set ps. p_letter p \<in> set letters) \<and> mset (map hand_tile ps) \<subseteq># mset rack
        \<and> (\<exists>h. (board_is_empty b \<longrightarrow> h) \<and> words_known b known ok h ps)}"

lemma searchable_words_known:
  assumes "legal_geometry b ps"
  shows "searchable b rack known (\<lambda>w. known w \<or> ok w) h ps \<longleftrightarrow>
    (\<forall>p\<in>set ps. p_letter p \<in> set letters) \<and> mset (map hand_tile ps) \<subseteq># mset rack \<and> words_known b known ok h ps"
proof -
  have ne: "ps \<noteq> []" and free: "\<forall>p\<in>set ps. on_board p \<and> \<not> occupied b (square_of p)"
    and dist: "distinct (squares_of ps)"
    and touch: "if board_is_empty b then (CENTER, CENTER) \<in> set (squares_of ps) else \<exists>q\<in>set (squares_of ps). touches b q"
    using assms by (simp_all add: legal_geometry_def split: if_splits)
  have letters: "(\<forall>p\<in>set ps. on_board p \<and> \<not> occupied b (square_of p) \<and> p_letter p \<in> set letters)
      \<longleftrightarrow> (\<forall>p\<in>set ps. p_letter p \<in> set letters)"
    using free by blast
  show ?thesis
    unfolding searchable_def words_known_def Let_def letters eqTrueI [OF touch] eqTrueI [OF ne] eqTrueI [OF dist]
    unfolding simp_thms by (intro iffI; elim conjE; intro conjI; assumption)
qed

lemma legal_moves_eq: "legal_moves b rack known ok = rack_moves b rack known ok"
  unfolding legal_moves_def rack_moves_def rule_legal_def
proof (rule Collect_cong)
  fix ps
  show "((legal_geometry b ps \<and> no_split (lay_tiles ps b) (mask_of (squares_of ps)) (placement_words b ps))
      \<and> (\<exists>h. (board_is_empty b \<longrightarrow> h) \<and> searchable b rack known (\<lambda>w. known w \<or> ok w) h ps)) \<longleftrightarrow>
    (legal_geometry b ps \<and> no_split (lay_tiles ps b) (mask_of (squares_of ps)) (placement_words b ps)
      \<and> (\<forall>p\<in>set ps. p_letter p \<in> set letters) \<and> mset (map hand_tile ps) \<subseteq># mset rack
      \<and> (\<exists>h. (board_is_empty b \<longrightarrow> h) \<and> words_known b known ok h ps))"
  proof (cases "legal_geometry b ps")
    case True
    show ?thesis unfolding searchable_words_known [OF True] by metis
  qed simp
qed

lemma vocab_new_contains: "vocab_contains (vocab_new words) = (\<lambda>w. w \<in> to_uppercase ` set words)"
  unfolding vocab_new_buffer by (intro ext) (simp add: contains_buffer [OF sorted_vocab])

text \<open>
  C12. The search of the bots finds the legal moves: every generated move is a legal placement
  of the rack's tiles whose main word is in the vocabulary and whose cross words are in the
  vocabulary or valid, no two generated moves lay the same tiles on the same squares, the score of
  each is the total that the game gives for it, and if the time does not run out every such
  legal placement is found (on an empty board, every horizontal one).
\<close>

theorem generated_moves_exact:
  fixes valid :: "str \<Rightarrow> bool" and late :: "nat \<Rightarrow> bool" and b :: board and rack :: "tile list" and words :: "str list"
  assumes "lettered b" "length rack \<le> HAND_SIZE"
  defines "moves \<equiv> generate_moves (\<lambda>ws. {w \<in> set ws. valid w}) late b rack (vocab_new words) True HAND_SIZE"
    and "spec \<equiv> rack_moves b rack (\<lambda>w. w \<in> to_uppercase ` set words) valid"
  shows "mset ` m_tiles ` set moves \<subseteq> mset ` spec
    \<and> ((\<forall>n. \<not> late n) \<longrightarrow> mset ` m_tiles ` set moves = mset ` spec)
    \<and> distinct (map (\<lambda>mv. mset (m_tiles mv)) moves)
    \<and> (\<forall>mv\<in>set moves. m_words mv = map fw_word (placement_words b (m_tiles mv))
        \<and> m_score mv = lerakas_total (placement_words b (m_tiles mv)) (length (m_tiles mv)))"
proof -
  note G = generate_moves_tiles [OF assms(1) prefixes_ok_new [of words] assms(2), where valid = valid and late = late, unfolded vocab_new_contains legal_moves_eq,
    folded moves_def spec_def]
  show ?thesis using G by blast
qed

lemma lettered_new: "lettered board_new"
  by (simp add: lettered_def board_ok_new) (simp add: board_new_def)

theorem generated_moves_exact_witness:
  "mset ` m_tiles ` set (generate_moves (\<lambda>ws. {w \<in> set ws. w = ascii ''BA''}) (\<lambda>_. False) board_new [Tile 0, Tile 3]
       (vocab_new [ascii ''ab'', ascii ''ba'']) True HAND_SIZE)
     = mset ` rack_moves board_new [Tile 0, Tile 3] (\<lambda>w. w \<in> to_uppercase ` set [ascii ''ab'', ascii ''ba'']) (\<lambda>w. w = ascii ''BA'')"
  using generated_moves_exact [OF lettered_new, where rack = "[Tile 0, Tile 3]" and late = "\<lambda>_. False"
      and words = "[ascii ''ab'', ascii ''ba'']" and valid = "\<lambda>w. w = ascii ''BA''"]
  by (simp add: HAND_SIZE_def)

section \<open>Choosing among the moves\<close>

text \<open>Whether all words of a move are valid.\<close>

abbreviation all_valid :: "(str \<Rightarrow> bool) \<Rightarrow> bot_move \<Rightarrow> bool" where
  "all_valid ok mv \<equiv> list_all ok (m_words mv)"

lemma fold_take_valid:
  "\<forall>mv\<in>set mvs. list_all (\<lambda>w. w \<in> valid) (m_words mv) = all_valid ok mv \<Longrightarrow>
   fold (take_valid valid n) mvs chosen = chosen @ take (n - length chosen) (filter (all_valid ok) mvs)"
proof (induction mvs arbitrary: chosen)
  case (Cons mv mvs)
  show ?case
  proof (cases "length chosen < n \<and> all_valid ok mv")
    case True
    then have "n - length chosen = Suc (n - Suc (length chosen))" by (simp add: Suc_diff_Suc)
    then show ?thesis using True Cons by (simp add: take_valid_def)
  next
    case False
    then show ?thesis using Cons by (auto simp: take_valid_def)
  qed
qed simp

lemma filter_take_drop: "filter P (take k xs) @ filter P (drop k xs) = filter P xs"
  by (metis append_take_drop_id filter_append)

lemma valid_batches_eq:
  assumes "\<And>ws. fv ws = {w \<in> set ws. ok w}"
  shows "length chosen \<le> n \<Longrightarrow>
    valid_batches fv n cands chosen = chosen @ take (n - length chosen) (filter (all_valid ok) cands)"
proof (induction "length cands" arbitrary: cands chosen rule: less_induct)
  case less
  show ?case
  proof (cases "cands = []")
    case True
    then show ?thesis by (simp add: valid_batches.simps)
  next
    case False
    let ?chunk = "take BATCH cands" and ?rest = "drop BATCH cands"
    let ?chosen = "fold (take_valid (fv (concat (map m_words ?chunk))) n) ?chunk chosen"
    have "\<forall>mv\<in>set ?chunk. list_all (\<lambda>w. w \<in> fv (concat (map m_words ?chunk))) (m_words mv) = all_valid ok mv"
      unfolding assms by (auto simp: list_all_iff)
    then have eq: "?chosen = chosen @ take (n - length chosen) (filter (all_valid ok) ?chunk)" by (rule fold_take_valid)
    have split: "filter (all_valid ok) cands = filter (all_valid ok) ?chunk @ filter (all_valid ok) ?rest"
      by (simp only: filter_take_drop)
    have step: "valid_batches fv n cands chosen = (if n \<le> length ?chosen then ?chosen else valid_batches fv n ?rest ?chosen)"
      using False by (subst valid_batches.simps) (simp add: Let_def)
    show ?thesis
    proof (cases "n \<le> length ?chosen")
      case True
      then have "n - length chosen \<le> length (filter (all_valid ok) ?chunk)" unfolding eq using less.prems by auto
      then show ?thesis using True by (simp only: step if_True eq split take_append) simp
    next
      case more_needed: False
      then have short: "length (filter (all_valid ok) ?chunk) < n - length chosen" unfolding eq by auto
      then have chosen: "?chosen = chosen @ filter (all_valid ok) ?chunk" using eq by simp
      have "length ?rest < length cands" using False by (simp add: BATCH_def)
      from less.hyps [OF this, of ?chosen] more_needed
      have "valid_batches fv n ?rest ?chosen = ?chosen @ take (n - length ?chosen) (filter (all_valid ok) ?rest)" by simp
      moreover have "valid_batches fv n cands chosen = valid_batches fv n ?rest ?chosen" using step more_needed by simp
      ultimately show ?thesis using short unfolding chosen split by (simp add: take_append)
    qed
  qed
qed

lemma first_valid_eq:
  assumes "\<And>ws. fv ws = {w \<in> set ws. ok w}"
  shows "first_valid fv cands n = take n (filter (all_valid ok) cands)"
  using valid_batches_eq [OF assms, of "[]" n cands] by (simp add: first_valid_def)

section \<open>The candidates\<close>

lemma draw_keys_snd [simp]: "map snd (fst (draw_keys key mvs rng)) = mvs"
  by (induction mvs arbitrary: rng) (auto split: prod.splits simp: prod_eq_iff)

lemma ordered_candidates_mset: "mset (fst (ordered_candidates moves level rng)) = mset moves"
proof -
  have "\<exists>key r. fst (ordered_candidates moves level rng) = map snd (sort_key fst (fst (draw_keys key moves r)))"
    unfolding ordered_candidates_def Let_def by (auto split: option.split prod.split)
  then obtain key r where "fst (ordered_candidates moves level rng) = map snd (sort_key fst (fst (draw_keys key moves r)))"
    by blast
  then have "mset (fst (ordered_candidates moves level rng)) = mset (map snd (fst (draw_keys key moves r)))" by (simp only: mset_map mset_sort)
  then show ?thesis by (simp only: draw_keys_snd)
qed

lemma rate_fields:
  "map m_tiles (rate mvs rack n) = map m_tiles mvs" "map m_words (rate mvs rack n) = map m_words mvs"
  "map m_score (rate mvs rack n) = map m_score mvs"
  by (simp_all add: rate_def Let_def o_def)

lemma rated_move: "mv \<in> set (rate mvs rack n) \<Longrightarrow>
    \<exists>mv'\<in>set mvs. m_tiles mv = m_tiles mv' \<and> m_words mv = m_words mv' \<and> m_score mv = m_score mv'"
  by (auto simp: rate_def Let_def)

text \<open>The moves a bot chooses from.\<close>

definition allowed_moves :: "(str list \<Rightarrow> str set) \<Rightarrow> (nat \<Rightarrow> bool) \<Rightarrow> board \<Rightarrow> tile list \<Rightarrow> vocabulary \<Rightarrow> placed list set option \<Rightarrow> bot_move list" where
  "allowed_moves fv late b rack vocab avoid =
     filter (\<lambda>mv. \<forall>av. avoid = Some av \<longrightarrow> placement_key (m_tiles mv) \<notin> av) (generate_moves fv late b rack vocab True HAND_SIZE)"

definition rated_moves :: "(str list \<Rightarrow> str set) \<Rightarrow> (nat \<Rightarrow> bool) \<Rightarrow> board \<Rightarrow> tile list \<Rightarrow> vocabulary \<Rightarrow> placed list set option
    \<Rightarrow> nat \<Rightarrow> nat \<Rightarrow> bot_move list" where
  "rated_moves fv late b rack vocab avoid level n =
     (let kept = allowed_moves fv late b rack vocab avoid in if uses_equity level then rate kept rack n else kept)"

lemma exchange_or_pass_cases:
  "fst (exchange_or_pass rack n rng) = (if HAND_SIZE \<le> n then action.Exchange (fst (choose_exchange rack rng)) else action.Pass)"
  by (simp add: exchange_or_pass_def case_prod_unfold)

lemma choose_action_eq:
  fixes level :: nat
  defines "l \<equiv> min (max level MIN_LEVEL) MAX_LEVEL"
  obtains stuck r where "fst (choose_action fv late b rack level n rng vocab avoid) =
     (if stuck then fst (exchange_or_pass rack n r)
      else case first_valid fv (fst (ordered_candidates (rated_moves fv late b rack vocab avoid l n) l r)) 1 of
             mv # _ \<Rightarrow> action.Place (m_tiles mv) (m_words mv) (m_score mv)
           | [] \<Rightarrow> fst (exchange_or_pass rack n (snd (ordered_candidates (rated_moves fv late b rack vocab avoid l n) l r))))"
    "stuck \<longrightarrow> 0 < pass_p (profile_of l)"
proof -
  let ?p = "pass_p (profile_of l)"
  have moves: "(case avoid of Some av \<Rightarrow> filter (\<lambda>mv. placement_key (m_tiles mv) \<notin> av) mvs | None \<Rightarrow> mvs)
      = filter (\<lambda>mv. \<forall>av. avoid = Some av \<longrightarrow> placement_key (m_tiles mv) \<notin> av) mvs" for mvs
    by (cases avoid) auto
  have "fst (choose_action fv late b rack level n rng vocab avoid) =
     (if 0 < ?p \<and> shd rng < ?p then fst (exchange_or_pass rack n (if 0 < ?p then stl rng else rng))
      else case first_valid fv (fst (ordered_candidates (rated_moves fv late b rack vocab avoid l n) l (if 0 < ?p then stl rng else rng))) 1 of
             mv # _ \<Rightarrow> action.Place (m_tiles mv) (m_words mv) (m_score mv)
           | [] \<Rightarrow> fst (exchange_or_pass rack n (snd (ordered_candidates (rated_moves fv late b rack vocab avoid l n) l (if 0 < ?p then stl rng else rng)))))"
    unfolding choose_action_def Let_def l_def [symmetric] moves rated_moves_def allowed_moves_def
    by (simp add: case_prod_unfold split: list.split)
  then show thesis by (rule that) simp
qed

lemma first_valid_one:
  assumes "\<And>ws. fv ws = {w \<in> set ws. ok w}"
  shows "first_valid fv cands 1 = (case filter (all_valid ok) cands of [] \<Rightarrow> [] | mv # _ \<Rightarrow> [mv])"
  unfolding first_valid_eq [OF assms] by (simp split: list.split)

lemma choose_action_cases:
  fixes level :: nat
  assumes fv: "\<And>ws. fv ws = {w \<in> set ws. ok w}"
  shows "case fst (choose_action fv late b rack level n rng vocab avoid) of
      action.Place ts ws sc \<Rightarrow> \<exists>mv\<in>set (allowed_moves fv late b rack vocab avoid).
        m_tiles mv = ts \<and> m_words mv = ws \<and> m_score mv = sc \<and> all_valid ok mv
    | action.Exchange is \<Rightarrow> HAND_SIZE \<le> n \<and> (\<exists>r. is = fst (choose_exchange rack r))
    | action.Pass \<Rightarrow> n < HAND_SIZE"
proof -
  let ?l = "min (max level MIN_LEVEL) MAX_LEVEL" and ?A = "allowed_moves fv late b rack vocab avoid"
  let ?R = "rated_moves fv late b rack vocab avoid ?l n"
  obtain stuck r where eq: "fst (choose_action fv late b rack level n rng vocab avoid) =
     (if stuck then fst (exchange_or_pass rack n r)
      else case first_valid fv (fst (ordered_candidates ?R ?l r)) 1 of
             mv # _ \<Rightarrow> action.Place (m_tiles mv) (m_words mv) (m_score mv)
           | [] \<Rightarrow> fst (exchange_or_pass rack n (snd (ordered_candidates ?R ?l r))))"
    by (rule choose_action_eq)
  show ?thesis
  proof (cases "stuck \<or> first_valid fv (fst (ordered_candidates ?R ?l r)) 1 = []")
    case True
    then have "\<exists>r. fst (choose_action fv late b rack level n rng vocab avoid) = fst (exchange_or_pass rack n r)"
      unfolding eq by auto
    then show ?thesis by (auto simp: exchange_or_pass_cases)
  next
    case False
    then obtain mv cs where fil: "filter (all_valid ok) (fst (ordered_candidates ?R ?l r)) = mv # cs"
      unfolding first_valid_one [OF fv] by (auto split: list.splits)
    then have "first_valid fv (fst (ordered_candidates ?R ?l r)) 1 = [mv]" unfolding first_valid_one [OF fv] fil by simp
    then have act: "fst (choose_action fv late b rack level n rng vocab avoid) = action.Place (m_tiles mv) (m_words mv) (m_score mv)"
      using False by (simp add: eq)
    have "mv \<in> set (filter (all_valid ok) (fst (ordered_candidates ?R ?l r)))" unfolding fil by simp
    then have mem: "mv \<in> set ?R" "all_valid ok mv"
      using mset_eq_setD [OF ordered_candidates_mset] by auto
    then have "\<exists>mv'\<in>set ?A. m_tiles mv = m_tiles mv' \<and> m_words mv = m_words mv' \<and> m_score mv = m_score mv'"
      using rated_move unfolding rated_moves_def Let_def by (cases "uses_equity ?l") auto
    then show ?thesis unfolding act using mem(2) by auto
  qed
qed


section \<open>Exchanging\<close>

lemma choose_exchange_indices:
  assumes "rack \<noteq> []"
  shows "fst (choose_exchange rack rng) \<noteq> []" "distinct (fst (choose_exchange rack rng))"
    "\<forall>i\<in>set (fst (choose_exchange rack rng)). i < length rack"
    "length (fst (choose_exchange rack rng)) \<le> length rack"
proof -
  let ?keep = "keep_indices rack (sort_key (\<lambda>i. (- keep_worth (rack ! i), snth rng i)) [0..<length rack]) []"
  let ?ex = "filter (\<lambda>i. i \<notin> set ?keep) [0..<length rack]"
  have eq: "fst (choose_exchange rack rng) = (if ?ex = [] then [0] else ?ex)" by (simp add: choose_exchange_def Let_def)
  have len: "length ?ex \<le> length rack" by (metis length_filter_le length_upt minus_nat.diff_0)
  show "fst (choose_exchange rack rng) \<noteq> []" "distinct (fst (choose_exchange rack rng))" unfolding eq by simp_all
  show "\<forall>i\<in>set (fst (choose_exchange rack rng)). i < length rack" unfolding eq using assms by auto
  show "length (fst (choose_exchange rack rng)) \<le> length rack" unfolding eq using assms len by (cases rack) auto
qed


lemma exchange_done: "exchange_refused pid idxs g = None \<Longrightarrow> is_done (fst (exchange_tiles e pid idxs g))"
  by (simp add: exchange_tiles_def Let_def case_prod_unfold)

lemma pass_done: "pass_refused pid g = None \<Longrightarrow> is_done (fst (pass_turn e pid t g))"
  by (simp add: pass_turn_def Let_def)

lemma generated_hand:
  fixes valid :: "str \<Rightarrow> bool" and late :: "nat \<Rightarrow> bool" and b :: board and rack :: "tile list" and vocab :: vocabulary
  assumes "lettered b" "prefixes_ok vocab" "length rack \<le> HAND_SIZE"
    and "mv \<in> set (generate_moves (\<lambda>ws. {w \<in> set ws. valid w}) late b rack vocab True HAND_SIZE)"
  shows "mset (map hand_tile (m_tiles mv)) \<subseteq># mset rack"
proof -
  note G = generate_moves_tiles [OF assms(1,2,3), where valid = valid and late = late]
  have "mset (m_tiles mv) \<in> mset ` legal_moves b rack (vocab_contains vocab) valid" using G(1) assms(4) by blast
  then obtain ps where ps: "mset (m_tiles mv) = mset ps" "ps \<in> legal_moves b rack (vocab_contains vocab) valid" by blast
  then have "mset (map hand_tile ps) \<subseteq># mset rack" unfolding legal_moves_eq rack_moves_def by simp
  moreover have "mset (map hand_tile (m_tiles mv)) = mset (map hand_tile ps)" using ps(1) by simp
  ultimately show ?thesis by simp
qed

lemma generated_may_place:
  fixes valid :: "str \<Rightarrow> bool" and late :: "nat \<Rightarrow> bool" and vocab :: vocabulary
  assumes "lettered (board g)" "prefixes_ok vocab" "length rack \<le> HAND_SIZE" "\<not> finished g" "pending_challenge g = None"
    and seat: "current_player_idx g < length (players g)" "rack = hand (players g ! current_player_idx g)"
    and mv: "mv \<in> set (generate_moves (\<lambda>ws. {w \<in> set ws. valid w}) late (board g) rack vocab True HAND_SIZE)"
  shows "may_place (player_id (players g ! current_player_idx g)) (m_tiles mv) g"
    "m_words mv = map fw_word (placement_words (board g) (m_tiles mv))" "m_score mv = placement_total (m_tiles mv) g"
proof -
  note G = generate_moves_tiles(4) [OF assms(1,2,3) mv]
  show "may_place (player_id (players g ! current_player_idx g)) (m_tiles mv) g"
    using G generated_hand [OF assms(1,2,3) mv] assms(4,5) seat by (simp add: may_place_def rule_legal_def)
  show "m_words mv = map fw_word (placement_words (board g) (m_tiles mv))" using G by simp
  show "m_score mv = placement_total (m_tiles mv) g" using G by (simp add: placement_total_def)
qed




section \<open>The best moves\<close>

lemma sorted_desc_take:
  fixes f :: "'a \<Rightarrow> int"
  assumes "x \<in> set xs" "x \<notin> set (take n (filter P (sort_key (\<lambda>x. - f x) xs)))" "P x"
    and "y \<in> set (take n (filter P (sort_key (\<lambda>x. - f x) xs)))"
  shows "f x \<le> f y"
proof -
  let ?s = "filter P (sort_key (\<lambda>x. - f x) xs)"
  have sorted: "sorted (map (\<lambda>x. - f x) ?s)" by (rule sorted_filter) simp
  have "x \<in> set ?s" using assms(1,3) by simp
  then have "x \<in> set (drop n ?s)" using assms(2) by (metis Un_iff append_take_drop_id set_append)
  moreover have "sorted (map (\<lambda>x. - f x) (take n ?s @ drop n ?s))" using sorted by simp
  ultimately have "- f y \<le> - f x" using assms(4) by (auto simp: sorted_append simp del: append_take_drop_id)
  then show ?thesis by simp
qed

lemma lerakas_total_perm:
  assumes "mset ps = mset qs" "legal_geometry b ps"
  shows "lerakas_total (placement_words b ps) (length ps) = lerakas_total (placement_words b qs) (length qs)"
proof -
  have "mset (placement_words b ps) = mset (placement_words b qs)" by (rule placement_words_perm [OF assms])
  then have "(\<Sum>w\<leftarrow>placement_words b ps. int (fw_score w)) = (\<Sum>w\<leftarrow>placement_words b qs. int (fw_score w))"
    using sum_mset_sum_list [of "map (\<lambda>w. int (fw_score w)) (placement_words b ps)"]
      sum_mset_sum_list [of "map (\<lambda>w. int (fw_score w)) (placement_words b qs)"] by simp
  then show ?thesis using mset_eq_length [OF assms(1)] by (simp add: lerakas_total_def)
qed

text \<open>The legal moves of a rack all of whose words are valid.\<close>

definition valid_moves :: "board \<Rightarrow> tile list \<Rightarrow> (str \<Rightarrow> bool) \<Rightarrow> (str \<Rightarrow> bool) \<Rightarrow> placed list set" where
  "valid_moves b rack known ok =
     {ps \<in> rack_moves b rack known ok. list_all ok (map fw_word (placement_words b ps))}"

definition total_of :: "board \<Rightarrow> placed list \<Rightarrow> int" where
  "total_of b ps = lerakas_total (placement_words b ps) (length ps)"

lemma rack_moves_perm:
  assumes "mset ps = mset qs" "ps \<in> rack_moves b rack known ok"
  shows "set (placement_words b ps) = set (placement_words b qs)" "total_of b ps = total_of b qs"
proof -
  have l: "legal_geometry b ps" using assms(2) by (simp add: rack_moves_def)
  show "set (placement_words b ps) = set (placement_words b qs)"
    using mset_eq_setD [OF placement_words_perm [OF assms(1) l]] by simp
  show "total_of b ps = total_of b qs" using lerakas_total_perm [OF assms(1) l] by (simp add: total_of_def)
qed



end
