(* ===== verification/BotLevel.thy ===== *)
theory BotLevel
  imports BotProps
begin

text \<open>The strength that an adaptive bot (\<^verbatim>\<open>adaptive_level\<close> of \<^verbatim>\<open>src/src/robot/ai.rs\<close>) takes.\<close>

section \<open>The strength of an adaptive bot\<close>

lemma between_bounds:
  "sorted_wrt (<) (a # xs) \<Longrightarrow> xs \<noteq> [] \<Longrightarrow> a \<le> v \<Longrightarrow> v \<le> last (a # xs)
    \<Longrightarrow> real i \<le> between_levels v i (a # xs) \<and> between_levels v i (a # xs) \<le> real (i + length xs)"
proof (induction xs arbitrary: a i)
  case (Cons b xs)
  have ab: "a < b" using Cons.prems(1) by simp
  show ?case
  proof (cases "v \<le> b")
    case True
    then have "0 \<le> (v - a) / (b - a)" "(v - a) / (b - a) \<le> 1" using ab Cons.prems(3) by simp_all
    then show ?thesis using True by simp
  next
    case False
    then have "xs \<noteq> []" using Cons.prems(4) by auto
    then have "real (Suc i) \<le> between_levels v (Suc i) (b # xs) \<and> between_levels v (Suc i) (b # xs) \<le> real (Suc i + length xs)"
      using Cons.prems False by (intro Cons.IH) simp_all
    then show ?thesis using False by simp
  qed
qed simp

lemma between_mono:
  "sorted_wrt (<) (a # xs) \<Longrightarrow> xs \<noteq> [] \<Longrightarrow> a \<le> v \<Longrightarrow> v \<le> w \<Longrightarrow> w \<le> last (a # xs)
    \<Longrightarrow> between_levels v i (a # xs) \<le> between_levels w i (a # xs)"
proof (induction xs arbitrary: a i)
  case (Cons b xs)
  have ab: "a < b" using Cons.prems(1) by simp
  consider "w \<le> b" | "v \<le> b" "b < w" | "b < v" by linarith
  then show ?case
  proof cases
    case 1
    then show ?thesis using Cons.prems(4) ab by (simp add: divide_right_mono)
  next
    case 2
    then have "xs \<noteq> []" using Cons.prems(5) by auto
    then have "real (Suc i) \<le> between_levels w (Suc i) (b # xs)"
      using between_bounds [of b xs w "Suc i"] Cons.prems 2 by simp
    moreover have "(v - a) / (b - a) \<le> 1" using 2(1) ab by simp
    ultimately show ?thesis using 2 by simp
  next
    case 3
    then have "xs \<noteq> []" using Cons.prems(4,5) by auto
    then show ?thesis using Cons.IH [of b "Suc i"] Cons.prems 3 by simp
  qed
qed simp

lemma strengths_sorted: "sorted_wrt (<) LEVEL_STRENGTH" "length LEVEL_STRENGTH = 10"
  by (simp_all add: LEVEL_STRENGTH_def)

lemma between_strengths:
  assumes "hd LEVEL_STRENGTH \<le> v" "v \<le> last LEVEL_STRENGTH"
  shows "1 \<le> between_levels v 1 LEVEL_STRENGTH" "between_levels v 1 LEVEL_STRENGTH \<le> 10"
  using between_bounds [of "hd LEVEL_STRENGTH" "tl LEVEL_STRENGTH" v 1] strengths_sorted assms
  by (simp_all add: LEVEL_STRENGTH_def del: between_levels.simps)

lemma level_for_average_range: "1 \<le> level_for_average v" "level_for_average v \<le> 10"
  using between_strengths [of v] by (auto simp: level_for_average_def MIN_LEVEL_def MAX_LEVEL_def)

lemma level_for_average_mono:
  assumes "v \<le> w"
  shows "level_for_average v \<le> level_for_average w"
proof -
  consider "v \<le> hd LEVEL_STRENGTH" | "last LEVEL_STRENGTH \<le> w" | "hd LEVEL_STRENGTH < v" "w < last LEVEL_STRENGTH" by linarith
  then show ?thesis
  proof cases
    case 1
    then have "level_for_average v = 1" by (simp add: level_for_average_def MIN_LEVEL_def)
    then show ?thesis using level_for_average_range(1) by simp
  next
    case 2
    have "hd LEVEL_STRENGTH < last LEVEL_STRENGTH" by (simp add: LEVEL_STRENGTH_def)
    then have "level_for_average w = 10" using 2 by (simp add: level_for_average_def MAX_LEVEL_def)
    then show ?thesis using level_for_average_range(2) by simp
  next
    case 3
    have "between_levels v 1 LEVEL_STRENGTH \<le> between_levels w 1 LEVEL_STRENGTH"
      using between_mono [of "hd LEVEL_STRENGTH" "tl LEVEL_STRENGTH" v w 1] strengths_sorted assms 3
      by (simp add: LEVEL_STRENGTH_def del: between_levels.simps)
    then show ?thesis using 3 assms by (simp add: level_for_average_def)
  qed
qed

lemma level_for_strength: "i < 10 \<Longrightarrow> level_for_average (LEVEL_STRENGTH ! i) = real (i + 1)"
proof -
  assume "i < 10"
  then have "i \<in> {0, 1, 2, 3, 4, 5, 6, 7, 8, 9}" by auto
  then show ?thesis
    by (auto simp: level_for_average_def LEVEL_STRENGTH_def MIN_LEVEL_def MAX_LEVEL_def)
qed

lemma adaptive_target_range: "1 \<le> adaptive_target avg turns" "adaptive_target avg turns \<le> 10"
proof -
  have w: "1 \<le> 5 * (1 - w) + l * w \<and> 5 * (1 - w) + l * w \<le> 10" if "0 \<le> w" "w \<le> 1" "1 \<le> l" "l \<le> 10" for w l :: real
  proof -
    have "1 * w \<le> l * w" "l * w \<le> 10 * w" using that by (intro mult_right_mono; simp)+
    then show ?thesis using that by (simp add: algebra_simps)
  qed
  show "1 \<le> adaptive_target avg turns" "adaptive_target avg turns \<le> 10"
    using w [of "real (min turns ADAPT_WINDOW) / real ADAPT_WINDOW"] level_for_average_range
    by (auto simp: adaptive_target_def Let_def ADAPT_START_LEVEL_def ADAPT_WINDOW_def split: option.split)
qed

text \<open>
  The strength of an adaptive bot: it is one of the ten levels, at one of the two whole numbers next
  to the target strength (exactly the target when that is whole); the target lies between the
  start level and the level whose measured average score is the player's, which grows with
  the player's average and is exact at the ten measured averages.
\<close>

theorem adaptive_strength_bounds:
  assumes "rng_ok rng"
  shows "int (fst (adaptive_level avg turns rng)) \<in> {floor (adaptive_target avg turns), ceiling (adaptive_target avg turns)}
    \<and> fst (adaptive_level avg turns rng) \<in> {1..10}
    \<and> (\<forall>a. avg = Some a \<and> ADAPT_WINDOW \<le> turns \<longrightarrow> adaptive_target avg turns = level_for_average a)
    \<and> (avg = None \<or> turns = 0 \<longrightarrow> adaptive_target avg turns = 5)
    \<and> (\<forall>i<10. level_for_average (LEVEL_STRENGTH ! i) = real (i + 1)) \<and> mono level_for_average"
proof -
  let ?t = "adaptive_target avg turns"
  have r: "0 \<le> shd rng" "shd rng < 1" using assms by (cases rng; simp add: rng_ok_def)+
  have t: "1 \<le> floor ?t" "floor ?t \<le> 10" "ceiling ?t \<le> 10"
    using adaptive_target_range [of avg turns] by (simp_all add: le_floor_iff floor_le_iff ceiling_le_iff)
  define lv where "lv = (if shd rng < ?t - real_of_int (floor ?t) then floor ?t + 1 else floor ?t)"
  have l: "lv = floor ?t \<or> lv = ceiling ?t"
  proof (cases "shd rng < ?t - real_of_int (floor ?t)")
    case True
    then have "?t \<noteq> real_of_int (floor ?t)" using r by linarith
    then have "ceiling ?t = floor ?t + 1" by (simp add: ceiling_altdef)
    then show ?thesis using True by (simp add: lv_def)
  qed (simp add: lv_def)
  moreover have "floor ?t \<le> ceiling ?t" by (rule floor_le_ceiling)
  ultimately have lv: "1 \<le> lv" "lv \<le> 10" using t by linarith+
  then have eq: "int (fst (adaptive_level avg turns rng)) = lv"
    by (simp add: lv_def [symmetric] adaptive_level_def Let_def MIN_LEVEL_def MAX_LEVEL_def)
  then have "fst (adaptive_level avg turns rng) \<in> {1..10}" using lv by simp
  moreover have "adaptive_target avg turns = level_for_average a" if "avg = Some a" "ADAPT_WINDOW \<le> turns" for a
    using that by (simp add: adaptive_target_def ADAPT_WINDOW_def)
  moreover have "adaptive_target avg turns = 5" if "avg = None \<or> turns = 0"
    using that by (auto simp: adaptive_target_def ADAPT_START_LEVEL_def split: option.split)
  moreover have "mono level_for_average" by (rule monoI) (rule level_for_average_mono)
  ultimately show ?thesis using eq l level_for_strength by simp
qed

theorem adaptive_strength_bounds_witness: "fst (adaptive_level (Some 10.1) 8 (sconst 0)) \<in> {1..10}"
proof -
  have "rng_ok (sconst 0)" by (simp add: rng_ok_def)
  from adaptive_strength_bounds [OF this] show ?thesis by blast
qed

end
