(* ===== verification/RateLimit.thy ===== *)
theory RateLimit
  imports Json "HOL-Library.AList" "HOL-Library.List_Lexorder"
begin

text \<open>
  The rate limiter (\<^verbatim>\<open>src/src/services/ratelimit.rs\<close>): sliding windows of time stamps per connection and
  event, and per address and action. The clock is an argument, times are reals; the hash maps
  are association lists, their lists of rows in the order of the entries.
\<close>

section \<open>The state\<close>

type_synonym limit = "nat \<times> nat"
type_synonym history = "(str \<times> (str \<times> real list) list) list"

definition IP_PRUNE_THRESHOLD :: nat where "IP_PRUNE_THRESHOLD = 1000"

record rate_limiter =
  socket_limits :: "(str \<times> limit) list"
  ip_limits :: "(str \<times> limit) list"
  socket_history :: history
  ip_history :: history
  socket_overrides :: "(str \<times> limit) list"
  ip_overrides :: "(str \<times> limit) list"

definition limiter_new :: "(str \<times> limit) list \<Rightarrow> (str \<times> limit) list \<Rightarrow> rate_limiter" where
  "limiter_new sockets ips =
     \<lparr>socket_limits = sockets, ip_limits = ips, socket_history = [], ip_history = [], socket_overrides = [], ip_overrides = []\<rparr>"

definition set_overrides :: "(str \<times> limit) list \<Rightarrow> (str \<times> limit) list \<Rightarrow> rate_limiter \<Rightarrow> rate_limiter" where
  "set_overrides ips sockets l = l\<lparr>ip_overrides := ips, socket_overrides := sockets\<rparr>"

definition limit_in :: "(str \<times> limit) list \<Rightarrow> (str \<times> limit) list \<Rightarrow> str \<Rightarrow> limit option" where
  "limit_in overrides defaults nm =
     (case map_of overrides nm of Some lm \<Rightarrow> Some lm | None \<Rightarrow> map_of defaults nm)"

definition ip_limit :: "rate_limiter \<Rightarrow> str \<Rightarrow> limit option" where
  "ip_limit l = limit_in (ip_overrides l) (ip_limits l)"

definition socket_limit :: "rate_limiter \<Rightarrow> str \<Rightarrow> limit option" where
  "socket_limit l = limit_in (socket_overrides l) (socket_limits l)"

section \<open>Counting a request\<close>

definition trim_stamps :: "real \<Rightarrow> real \<Rightarrow> real list \<Rightarrow> real list" where
  "trim_stamps now window stamps = dropWhile (\<lambda>t. window \<le> now - t) stamps"

definition actions_of :: "history \<Rightarrow> str \<Rightarrow> (str \<times> real list) list" where
  "actions_of hist key = (case map_of hist key of Some acts \<Rightarrow> acts | None \<Rightarrow> [])"

definition stamps_of :: "history \<Rightarrow> str \<Rightarrow> str \<Rightarrow> real list" where
  "stamps_of hist key act = (case map_of (actions_of hist key) act of Some ts \<Rightarrow> ts | None \<Rightarrow> [])"

definition put_stamps :: "str \<Rightarrow> str \<Rightarrow> real list \<Rightarrow> history \<Rightarrow> history" where
  "put_stamps key act stamps hist = AList.update key (AList.update act stamps (actions_of hist key)) hist"

text \<open>The common end of the two checks: trim, refuse when full, else remember the request.\<close>

definition count_request :: "limit \<Rightarrow> real \<Rightarrow> str \<Rightarrow> str \<Rightarrow> history \<Rightarrow> bool \<times> history" where
  "count_request lm now key act hist =
     (let stamps = trim_stamps now (real (snd lm)) (stamps_of hist key act)
      in if fst lm \<le> length stamps then (False, put_stamps key act stamps hist)
         else (True, put_stamps key act (stamps @ [now]) hist))"

definition check_socket :: "real \<Rightarrow> str \<Rightarrow> str \<Rightarrow> rate_limiter \<Rightarrow> bool \<times> rate_limiter" where
  "check_socket now sid event l =
     (case socket_limit l event of
        None \<Rightarrow> (True, l)
      | Some lm \<Rightarrow>
          (case count_request lm now sid event (socket_history l) of (ok, h) \<Rightarrow> (ok, l\<lparr>socket_history := h\<rparr>)))"

definition longest_window :: "rate_limiter \<Rightarrow> nat" where
  "longest_window l = fold max (map (snd \<circ> snd) (ip_limits l @ ip_overrides l)) 0"

definition prune_ips :: "real \<Rightarrow> rate_limiter \<Rightarrow> rate_limiter" where
  "prune_ips now l =
     (if IP_PRUNE_THRESHOLD < length (ip_history l)
      then l\<lparr>ip_history := filter (\<lambda>(_, acts). list_ex (\<lambda>(_, ts). list_ex (\<lambda>t. now - t < real (longest_window l)) ts) acts)
               (ip_history l)\<rparr>
      else l)"

definition check_ip :: "real \<Rightarrow> str \<Rightarrow> str \<Rightarrow> rate_limiter \<Rightarrow> bool \<times> rate_limiter" where
  "check_ip now ip act l =
     (case ip_limit l act of
        None \<Rightarrow> (True, l)
      | Some lm \<Rightarrow>
          let l1 = prune_ips now l
          in case count_request lm now ip act (ip_history l1) of (ok, h) \<Rightarrow> (ok, l1\<lparr>ip_history := h\<rparr>))"

section \<open>The views and interventions of the administrators\<close>

definition has_ip :: "rate_limiter \<Rightarrow> str \<Rightarrow> bool" where
  "has_ip l ip \<longleftrightarrow> map_of (ip_history l) ip \<noteq> None"

definition clear_ip :: "str \<Rightarrow> rate_limiter \<Rightarrow> bool \<times> rate_limiter" where
  "clear_ip ip l = (has_ip l ip, l\<lparr>ip_history := AList.delete ip (ip_history l)\<rparr>)"

definition clear_sid :: "str \<Rightarrow> rate_limiter \<Rightarrow> rate_limiter" where
  "clear_sid sid l = l\<lparr>socket_history := AList.delete sid (socket_history l)\<rparr>"

definition ip_history_len :: "rate_limiter \<Rightarrow> nat" where
  "ip_history_len l = length (ip_history l)"

definition limit_json :: "limit option \<Rightarrow> json" where
  "limit_json lm = (case lm of Some (m, w) \<Rightarrow> JArr [JInt (int m), JInt (int w)] | None \<Rightarrow> JNull)"

definition limit_table :: "(str \<times> limit) list \<Rightarrow> (str \<times> limit) list \<Rightarrow> json" where
  "limit_table defaults overrides =
     JObj (map (\<lambda>nm. (nm, JObj [(ascii ''default'', limit_json (map_of defaults nm)),
                                (ascii ''current'', limit_json (limit_in overrides defaults nm)),
                                (ascii ''overridden'', JBool (map_of overrides nm \<noteq> None))]))
       (remdups_adj (sort (map fst defaults @ map fst overrides))))"

definition effective_limits :: "rate_limiter \<Rightarrow> json" where
  "effective_limits l =
     JObj [(ascii ''http'', limit_table (ip_limits l) (ip_overrides l)),
           (ascii ''socket'', limit_table (socket_limits l) (socket_overrides l))]"

text \<open>The seconds until the oldest request leaves the window; with no request the cast of infinity saturates.\<close>

definition retry_in :: "real \<Rightarrow> nat \<Rightarrow> real list \<Rightarrow> int" where
  "retry_in now window recent =
     (if recent = [] then i64_max else max 0 (f64_as_i64 (real window - (now - Min (set recent)))))"

definition limited_row :: "(str \<Rightarrow> limit option) \<Rightarrow> str \<Rightarrow> real \<Rightarrow> str \<Rightarrow> str \<times> real list \<Rightarrow> json option" where
  "limited_row limit_of key_name now key entry =
     (case limit_of (fst entry) of
        None \<Rightarrow> None
      | Some (m, window) \<Rightarrow>
          let recent = filter (\<lambda>t. now - t < real window) (snd entry)
          in if m \<le> length recent
             then Some (JObj [(key_name, JStr key),
                   (if key_name = ascii ''ip'' then ascii ''action'' else ascii ''event'', JStr (fst entry)),
                   (ascii ''count'', JInt (int (length recent))), (ascii ''max'', JInt (int m)),
                   (ascii ''window'', JInt (int window)), (ascii ''retry_in'', JInt (retry_in now window recent))])
             else None)"

definition limited :: "history \<Rightarrow> (str \<Rightarrow> limit option) \<Rightarrow> str \<Rightarrow> real \<Rightarrow> json list" where
  "limited hist limit_of key_name now =
     concat (map (\<lambda>(key, acts). List.map_filter (limited_row limit_of key_name now key) acts) hist)"

definition limited_ips :: "real \<Rightarrow> rate_limiter \<Rightarrow> json list" where
  "limited_ips now l = limited (ip_history l) (ip_limit l) (ascii ''ip'') now"

definition limited_sids :: "real \<Rightarrow> rate_limiter \<Rightarrow> json list" where
  "limited_sids now l = limited (socket_history l) (socket_limit l) (ascii ''sid'') now"

section \<open>The reference: a limiter that remembers everything\<close>

type_synonym 'k served = "(real \<times> 'k \<times> bool) list"

definition accepted_within :: "'k served \<Rightarrow> 'k \<Rightarrow> real \<Rightarrow> real \<Rightarrow> nat" where
  "accepted_within past k now window = length (filter (\<lambda>(t, k', ok). ok \<and> k' = k \<and> now - t < window) past)"

definition within_quota :: "('k \<Rightarrow> limit option) \<Rightarrow> 'k served \<Rightarrow> real \<Rightarrow> 'k \<Rightarrow> bool" where
  "within_quota quota past now k =
     (case quota k of None \<Rightarrow> True | Some (m, w) \<Rightarrow> accepted_within past k now (real w) < m)"

fun reference_answers :: "('k \<Rightarrow> limit option) \<Rightarrow> 'k served \<Rightarrow> (real \<times> 'k) list \<Rightarrow> 'k served" where
  "reference_answers quota past [] = past"
| "reference_answers quota past ((now, k) # rs) =
     reference_answers quota (past @ [(now, k, within_quota quota past now k)]) rs"

text \<open>The answers of a limiter to a list of requests.\<close>

fun serve :: "(real \<Rightarrow> 'k \<Rightarrow> 's \<Rightarrow> bool \<times> 's) \<Rightarrow> 'k served \<Rightarrow> (real \<times> 'k) list \<Rightarrow> 's \<Rightarrow> 'k served" where
  "serve req past [] s = past"
| "serve req past ((now, k) # rs) s =
     (case req now k s of (ok, s') \<Rightarrow> serve req (past @ [(now, k, ok)]) rs s')"

definition fresh :: "real \<Rightarrow> real \<Rightarrow> real list \<Rightarrow> real list" where
  "fresh window now ts = filter (\<lambda>t. now - t < window) ts"

lemma trim_fresh: "sorted ts \<Longrightarrow> trim_stamps now window ts = fresh window now ts"
proof (induction ts)
  case (Cons t ts)
  show ?case
  proof (cases "window \<le> now - t")
    case False
    have "\<forall>u\<in>set ts. now - u < window" using Cons.prems False by fastforce
    then have "filter (\<lambda>u. now - u < window) ts = ts" by (simp add: filter_id_conv)
    then show ?thesis using False by (simp add: trim_stamps_def fresh_def)
  qed (use Cons in \<open>simp add: trim_stamps_def fresh_def\<close>)
qed (simp add: trim_stamps_def fresh_def)

lemma fresh_later: "now \<le> later \<Longrightarrow> fresh window later (fresh window now ts) = fresh window later ts"
  unfolding fresh_def filter_filter by (rule filter_cong) auto

lemma fresh_append [simp]: "fresh window now (xs @ ys) = fresh window now xs @ fresh window now ys"
  by (simp add: fresh_def)

lemma fresh_Nil [simp]: "fresh window now [] = []"
  by (simp add: fresh_def)

lemma fresh_none: "\<forall>t\<in>set ts. window \<le> now - t \<Longrightarrow> now \<le> later \<Longrightarrow> fresh window later ts = []"
  by (force simp: fresh_def filter_empty_conv)

text \<open>
  What a store of stamps has to do: decide by the number of fresh stamps and remember what it accepts; stamps may
  be forgotten once they are not fresh.
\<close>

locale sliding_window =
  fixes req :: "real \<Rightarrow> 'k \<Rightarrow> 's \<Rightarrow> bool \<times> 's" and stamps :: "'s \<Rightarrow> 'k \<Rightarrow> real list"
    and quota :: "'k \<Rightarrow> limit option" and ok_state :: "'s \<Rightarrow> bool"
  assumes free: "ok_state s \<Longrightarrow> quota k = None \<Longrightarrow> fst (req now k s)"
    and decides: "ok_state s \<Longrightarrow> quota k = Some (m, w) \<Longrightarrow> sorted (stamps s k)
      \<Longrightarrow> fst (req now k s) \<longleftrightarrow> length (fresh (real w) now (stamps s k)) < m"
    and remembers: "ok_state s \<Longrightarrow> quota j = Some (m, w) \<Longrightarrow> sorted (stamps s j) \<Longrightarrow> \<forall>t\<in>set (stamps s j). t \<le> now \<Longrightarrow> now \<le> later
      \<Longrightarrow> fresh (real w) later (stamps (snd (req now k s)) j)
            = fresh (real w) later (stamps s j @ (if j = k \<and> fst (req now k s) then [now] else []))"
    and keeps_sorted: "ok_state s \<Longrightarrow> quota j = Some (m, w) \<Longrightarrow> sorted (stamps s j) \<Longrightarrow> \<forall>t\<in>set (stamps s j). t \<le> now
      \<Longrightarrow> sorted (stamps (snd (req now k s)) j) \<and> (\<forall>t\<in>set (stamps (snd (req now k s)) j). t \<le> now)"
    and keeps_ok: "ok_state s \<Longrightarrow> ok_state (snd (req now k s))"
begin

lemma serve_reference:
  assumes "ok_state s" "sorted (map fst rs)" "\<forall>r\<in>set rs. start \<le> fst r"
    and "\<And>j m w. quota j = Some (m, w) \<Longrightarrow> sorted (stamps s j) \<and> (\<forall>t\<in>set (stamps s j). t \<le> start)"
    and "\<And>j m w later. quota j = Some (m, w) \<Longrightarrow> start \<le> later
      \<Longrightarrow> length (fresh (real w) later (stamps s j)) = accepted_within past j later (real w)"
  shows "serve req past rs s = reference_answers quota past rs"
  using assms
proof (induction rs arbitrary: s past start)
  case (Cons r rs)
  obtain now k where r: "r = (now, k)" by (cases r)
  have now: "start \<le> now" using Cons.prems(3) by (simp add: r)
  let ?ok = "fst (req now k s)" and ?s = "snd (req now k s)"
  have "?ok = within_quota quota past now k"
  proof (cases "quota k")
    case None
    then show ?thesis using free [OF Cons.prems(1)] by (simp add: within_quota_def)
  next
    case (Some lm)
    obtain m w where lm: "lm = (m, w)" by (cases lm)
    show ?thesis
      using decides [OF Cons.prems(1) Some [unfolded lm]] Cons.prems(4,5) Some lm now by (simp add: within_quota_def)
  qed
  moreover have "serve req (past @ [(now, k, ?ok)]) rs ?s = reference_answers quota (past @ [(now, k, ?ok)]) rs"
  proof (rule Cons.IH [of ?s now])
    show "ok_state ?s" by (rule keeps_ok [OF Cons.prems(1)])
    show "sorted (map fst rs)" "\<forall>r\<in>set rs. now \<le> fst r" using Cons.prems(2) by (simp_all add: r)
    fix j m w
    assume q: "quota j = Some (m, w)"
    have old: "sorted (stamps s j)" "\<forall>t\<in>set (stamps s j). t \<le> now" using Cons.prems(4) [OF q] now by auto
    show "sorted (stamps ?s j) \<and> (\<forall>t\<in>set (stamps ?s j). t \<le> now)"
      by (rule keeps_sorted [OF Cons.prems(1) q old])
    fix later
    assume later: "now \<le> later"
    then have "length (fresh (real w) later (stamps s j)) = accepted_within past j later (real w)"
      using Cons.prems(5) [OF q] now by simp
    then show "length (fresh (real w) later (stamps ?s j)) = accepted_within (past @ [(now, k, ?ok)]) j later (real w)"
      using remembers [OF Cons.prems(1) q old later] by (auto simp: accepted_within_def fresh_def)
  qed
  ultimately show ?case by (simp add: r case_prod_unfold)
qed simp

end

section \<open>The bound of the reference\<close>

definition accepted_between :: "'k served \<Rightarrow> 'k \<Rightarrow> real \<Rightarrow> real \<Rightarrow> nat" where
  "accepted_between past k from until = length (filter (\<lambda>(t, k', ok). ok \<and> k' = k \<and> from < t \<and> t \<le> until) past)"

lemma length_filter_mono: "(\<And>x. x \<in> set xs \<Longrightarrow> P x \<Longrightarrow> Q x) \<Longrightarrow> length (filter P xs) \<le> length (filter Q xs)"
  by (induction xs) auto

lemma reference_bound:
  assumes "sorted (map fst rs)" "\<forall>r\<in>set rs. \<forall>p\<in>set past. fst p \<le> fst r"
    and "quota k = Some (m, w)" "\<And>until. accepted_between past k (until - real w) until \<le> m"
  shows "accepted_between (reference_answers quota past rs) k (until - real w) until \<le> m"
  using assms
proof (induction rs arbitrary: past)
  case (Cons r rs)
  obtain now j where r: "r = (now, j)" by (cases r)
  let ?ok = "within_quota quota past now j"
  have "accepted_between (past @ [(now, j, ?ok)]) k (u - real w) u \<le> m" for u
  proof (cases "?ok \<and> j = k \<and> now \<le> u")
    case True
    then have "accepted_within past k now (real w) < m" using Cons.prems(3) by (auto simp: within_quota_def)
    moreover have "accepted_between past k (u - real w) u \<le> accepted_within past k now (real w)"
      unfolding accepted_between_def accepted_within_def by (rule length_filter_mono) (use True in auto)
    ultimately show ?thesis by (simp add: accepted_between_def)
  next
    case False
    then have "accepted_between (past @ [(now, j, ?ok)]) k (u - real w) u = accepted_between past k (u - real w) u"
      by (auto simp: accepted_between_def)
    then show ?thesis using Cons.prems(4) by simp
  qed
  then have "accepted_between (reference_answers quota (past @ [(now, j, ?ok)]) rs) k (until - real w) until \<le> m"
    using Cons.prems(1,2,3) by (intro Cons.IH) (auto simp: r)
  then show ?case by (simp add: r)
qed simp

section \<open>The two limiters\<close>

lemma stamps_of_put:
  "stamps_of (put_stamps key act ts hist) key' act' = (if key' = key \<and> act' = act then ts else stamps_of hist key' act')"
  by (simp add: stamps_of_def put_stamps_def actions_of_def update_conv')

lemma distinct_put: "distinct (map fst hist) \<Longrightarrow> distinct (map fst (put_stamps key act ts hist))"
  by (simp add: put_stamps_def distinct_update)

lemma count_request_ok:
  "sorted (stamps_of hist key act) \<Longrightarrow>
    fst (count_request (m, w) now key act hist) \<longleftrightarrow> length (fresh (real w) now (stamps_of hist key act)) < m"
  by (simp add: count_request_def Let_def trim_fresh not_le)

lemma count_request_stamps:
  "sorted (stamps_of hist key act) \<Longrightarrow> stamps_of (snd (count_request lm now key act hist)) key act =
    fresh (real (snd lm)) now (stamps_of hist key act) @ (if fst (count_request lm now key act hist) then [now] else [])"
  by (simp add: count_request_def Let_def stamps_of_put trim_fresh)

lemma count_request_other:
  "(key', act') \<noteq> (key, act) \<Longrightarrow> stamps_of (snd (count_request lm now key act hist)) key' act' = stamps_of hist key' act'"
  by (auto simp: count_request_def Let_def stamps_of_put)

lemma count_request_distinct:
  "distinct (map fst hist) \<Longrightarrow> distinct (map fst (snd (count_request lm now key act hist)))"
  by (simp add: count_request_def Let_def distinct_put)

lemma sorted_fresh_append:
  assumes "sorted ts" "\<forall>t\<in>set ts. t \<le> now"
  shows "sorted (fresh w now ts @ (if b then [now] else []))" "\<forall>t\<in>set (fresh w now ts @ (if b then [now] else [])). t \<le> now"
  using assms by (auto simp: fresh_def sorted_append sorted_wrt_filter)

lemma kept_entry:
  assumes "distinct (map fst hs)"
  shows "map_of (filter keep hs) ip = (case map_of hs ip of Some h \<Rightarrow> if keep (ip, h) then Some h else None | None \<Rightarrow> None)"
  using assms
proof (induction hs)
  case (Cons e hs)
  have "map_of hs (fst e) = None" using Cons.prems by (simp add: map_of_eq_None_iff)
  then show ?case using Cons by (cases e) (auto split: option.split)
qed simp

lemma window_longest: "ip_limit l act = Some (m, w) \<Longrightarrow> w \<le> longest_window l"
proof -
  assume "ip_limit l act = Some (m, w)"
  then have "(act, m, w) \<in> set (ip_limits l @ ip_overrides l)"
    by (auto simp: ip_limit_def limit_in_def split: option.splits dest: map_of_SomeD)
  then have "w \<in> set (map (snd \<circ> snd) (ip_limits l @ ip_overrides l))" by force
  moreover have "w \<in> set ws \<Longrightarrow> w \<le> fold max ws (n::nat)" for ws n
    by (metis List.finite_set Max.set_eq_fold Max_ge finite_insert insertCI list.simps(15))
  ultimately show ?thesis unfolding longest_window_def by blast
qed

lemma prune_stamps:
  assumes "distinct (map fst (ip_history l))"
  shows "stamps_of (ip_history (prune_ips now l)) ip act = stamps_of (ip_history l) ip act
    \<or> stamps_of (ip_history (prune_ips now l)) ip act = []
      \<and> (\<forall>t\<in>set (stamps_of (ip_history l) ip act). real (longest_window l) \<le> now - t)"
proof (cases "map_of (ip_history l) ip")
  case None
  then show ?thesis using assms by (simp add: prune_ips_def stamps_of_def actions_of_def kept_entry)
next
  case (Some acts)
  let ?alive = "list_ex (\<lambda>(_, ts). list_ex (\<lambda>t. now - t < real (longest_window l)) ts) acts"
  have "real (longest_window l) \<le> now - t" if dead: "\<not> ?alive" and mem: "t \<in> set (stamps_of (ip_history l) ip act)" for t
  proof -
    obtain ts where "map_of acts act = Some ts" "t \<in> set ts"
      using mem Some by (cases "map_of acts act") (simp_all add: stamps_of_def actions_of_def)
    then have "(act, ts) \<in> set acts" by (simp add: map_of_SomeD)
    then show ?thesis using dead \<open>t \<in> set ts\<close> by (fastforce simp: list_ex_iff not_less)
  qed
  then show ?thesis using Some assms
    by (cases ?alive) (auto simp: prune_ips_def stamps_of_def actions_of_def kept_entry)
qed

lemma prune_fields [simp]:
  "ip_limits (prune_ips now l) = ip_limits l" "ip_overrides (prune_ips now l) = ip_overrides l"
  by (simp_all add: prune_ips_def)

lemma distinct_prune: "distinct (map fst (ip_history l)) \<Longrightarrow> distinct (map fst (ip_history (prune_ips now l)))"
  by (simp add: prune_ips_def distinct_map_filter)


definition ip_request :: "real \<Rightarrow> str \<times> str \<Rightarrow> rate_limiter \<Rightarrow> bool \<times> rate_limiter" where
  "ip_request now k = check_ip now (fst k) (snd k)"

definition socket_request :: "real \<Rightarrow> str \<times> str \<Rightarrow> rate_limiter \<Rightarrow> bool \<times> rate_limiter" where
  "socket_request now k = check_socket now (fst k) (snd k)"

interpretation sockets: sliding_window socket_request "\<lambda>l k. stamps_of (socket_history l) (fst k) (snd k)"
  "\<lambda>k. limit_in overrides defaults (snd k)" "\<lambda>l. socket_overrides l = overrides \<and> socket_limits l = defaults"
  for overrides defaults
proof
  let ?quota = "\<lambda>k. limit_in overrides defaults (snd k)" and ?ok = "\<lambda>l. socket_overrides l = overrides \<and> socket_limits l = defaults"
  let ?st = "\<lambda>l k. stamps_of (socket_history l) (fst k) (snd k)"
  fix l :: rate_limiter and k j :: "str \<times> str" and now later :: real and m w :: nat
  assume ok: "?ok l"
  then have lm: "socket_limit l (snd k) = ?quota k" for k :: "str \<times> str" by (simp add: socket_limit_def)
  show "?ok (snd (socket_request now k l))"
    using ok by (simp add: socket_request_def check_socket_def case_prod_unfold split: option.split)
  show "fst (socket_request now k l)" if "?quota k = None" using that lm [of k] by (simp add: socket_request_def check_socket_def)
  show "fst (socket_request now k l) \<longleftrightarrow> length (fresh (real w) now (?st l k)) < m"
    if "?quota k = Some (m, w)" "sorted (?st l k)"
    using that lm [of k] count_request_ok by (simp add: socket_request_def check_socket_def case_prod_unfold)
  have after: "?st (snd (socket_request now k l)) j =
      (if j = k then fresh (real w) now (?st l k) @ (if fst (socket_request now k l) then [now] else []) else ?st l j)"
    if q: "?quota j = Some (m, w)" and srt: "sorted (?st l j)"
  proof (cases "j = k")
    case True
    then show ?thesis
      using q srt lm [of k] by (simp add: socket_request_def check_socket_def case_prod_unfold count_request_stamps)
  next
    case False
    then have "(fst j, snd j) \<noteq> (fst k, snd k)" by simp
    from count_request_other [OF this] show ?thesis
      using False by (cases "socket_limit l (snd k)") (simp_all add: socket_request_def check_socket_def case_prod_unfold)
  qed
  show "fresh (real w) later (?st (snd (socket_request now k l)) j)
      = fresh (real w) later (?st l j @ (if j = k \<and> fst (socket_request now k l) then [now] else []))"
    if "?quota j = Some (m, w)" "sorted (?st l j)" "now \<le> later"
    using after [OF that(1,2)] fresh_later [OF that(3)] by auto
  show "sorted (?st (snd (socket_request now k l)) j) \<and> (\<forall>t\<in>set (?st (snd (socket_request now k l)) j). t \<le> now)"
    if "?quota j = Some (m, w)" "sorted (?st l j)" "\<forall>t\<in>set (?st l j). t \<le> now"
  proof (cases "j = k")
    case True
    then have "?st (snd (socket_request now k l)) j
        = fresh (real w) now (?st l j) @ (if fst (socket_request now k l) then [now] else [])"
      using after [OF that(1,2)] by simp
    then show ?thesis using sorted_fresh_append [OF that(2,3)] by metis
  next
    case False
    then show ?thesis using after [OF that(1,2)] that(2,3) by simp
  qed
qed


interpretation addresses: sliding_window ip_request "\<lambda>l k. stamps_of (ip_history l) (fst k) (snd k)"
  "\<lambda>k. limit_in overrides defaults (snd k)"
  "\<lambda>l. ip_overrides l = overrides \<and> ip_limits l = defaults \<and> distinct (map fst (ip_history l))"
  for overrides defaults
proof
  let ?quota = "\<lambda>k. limit_in overrides defaults (snd k)"
    and ?ok = "\<lambda>l. ip_overrides l = overrides \<and> ip_limits l = defaults \<and> distinct (map fst (ip_history l))"
  let ?st = "\<lambda>l k. stamps_of (ip_history l) (fst k) (snd k)"
  fix l :: rate_limiter and k j :: "str \<times> str" and now later :: real and m w :: nat
  assume ok: "?ok l"
  then have lm: "ip_limit l (snd k) = ?quota k" for k :: "str \<times> str" by (simp add: ip_limit_def)
  have dist: "distinct (map fst (ip_history l))" using ok by simp
  let ?p = "prune_ips now l"
  have gone: "?st ?p j = ?st l j \<or> ?st ?p j = [] \<and> (\<forall>t\<in>set (?st l j). real w \<le> now - t)"
    if q: "?quota j = Some (m, w)" for j m w
  proof -
    have "w \<le> longest_window l" using window_longest [of l "snd j" m w] q lm [of j] by simp
    then have "real w \<le> now - t" if "real (longest_window l) \<le> now - t" for t using that by linarith
    then show ?thesis using prune_stamps [OF dist, of now "fst j" "snd j"] by blast
  qed
  have pruned: "fresh (real w) t (?st ?p j) = fresh (real w) t (?st l j)"
    if q: "?quota j = Some (m, w)" and "now \<le> t" for j m w t
    using gone [OF q] fresh_none [of "?st l j" "real w" now t] \<open>now \<le> t\<close> by auto
  have psorted: "sorted (?st ?p j)" "set (?st ?p j) \<subseteq> set (?st l j)" if "?quota j = Some (m, w)" "sorted (?st l j)" for j m w
    using gone [OF that(1)] that(2) by auto
  show "?ok (snd (ip_request now k l))"
    using ok count_request_distinct [OF distinct_prune [OF dist]]
    by (simp add: ip_request_def check_ip_def Let_def case_prod_unfold split: option.split)
  show "fst (ip_request now k l)" if "?quota k = None" using that lm [of k] by (simp add: ip_request_def check_ip_def)
  show "fst (ip_request now k l) \<longleftrightarrow> length (fresh (real w) now (?st l k)) < m"
    if q: "?quota k = Some (m, w)" and srt: "sorted (?st l k)"
    using q lm [of k] count_request_ok [OF psorted(1) [OF q srt]] pruned [OF q, of now]
    by (simp add: ip_request_def check_ip_def Let_def case_prod_unfold)
  have after: "?st (snd (ip_request now k l)) j =
      (if j = k then fresh (real w) now (?st ?p k) @ (if fst (ip_request now k l) then [now] else [])
       else if ?quota k = None then ?st l j else ?st ?p j)"
    if q: "?quota j = Some (m, w)" and srt: "sorted (?st l j)"
  proof (cases "j = k")
    case True
    then show ?thesis
      using q psorted(1) [OF q srt] lm [of k]
      by (simp add: ip_request_def check_ip_def Let_def case_prod_unfold count_request_stamps)
  next
    case False
    then have "(fst j, snd j) \<noteq> (fst k, snd k)" by simp
    from count_request_other [OF this] show ?thesis
      using False lm [of k] by (cases "?quota k") (simp_all add: ip_request_def check_ip_def Let_def case_prod_unfold)
  qed
  show "fresh (real w) later (?st (snd (ip_request now k l)) j)
      = fresh (real w) later (?st l j @ (if j = k \<and> fst (ip_request now k l) then [now] else []))"
    if "?quota j = Some (m, w)" "sorted (?st l j)" "now \<le> later"
    using after [OF that(1,2)] fresh_later [OF that(3)] pruned [OF that(1)] that(3) by auto
  show "sorted (?st (snd (ip_request now k l)) j) \<and> (\<forall>t\<in>set (?st (snd (ip_request now k l)) j). t \<le> now)"
    if "?quota j = Some (m, w)" "sorted (?st l j)" "\<forall>t\<in>set (?st l j). t \<le> now"
  proof -
    have p: "sorted (?st ?p j)" "\<forall>t\<in>set (?st ?p j). t \<le> now" using psorted [OF that(1,2)] that(3) by auto
    show ?thesis
    proof (cases "j = k")
      case True
      then have "?st (snd (ip_request now k l)) j
          = fresh (real w) now (?st ?p j) @ (if fst (ip_request now k l) then [now] else [])"
        using after [OF that(1,2)] by simp
      then show ?thesis using sorted_fresh_append [OF p] by metis
    next
      case False
      then show ?thesis using after [OF that(1,2)] p that(2,3) by simp
    qed
  qed
qed

lemma limiter_starts:
  "ip_overrides (set_overrides ips sockets (limiter_new ds di)) = ips" "ip_limits (set_overrides ips sockets (limiter_new ds di)) = di"
  "socket_overrides (set_overrides ips sockets (limiter_new ds di)) = sockets" "socket_limits (set_overrides ips sockets (limiter_new ds di)) = ds"
  "ip_history (set_overrides ips sockets (limiter_new ds di)) = []" "socket_history (set_overrides ips sockets (limiter_new ds di)) = []"
  by (simp_all add: set_overrides_def limiter_new_def)

text \<open>
  C36. The rate limiter counts exactly: while the limits stay and the clock does not run back, the answers to
  any requests of any connections or addresses are those of a limiter that never forgets (allowed
  exactly when fewer than the maximum were allowed in the last window), although it trims and prunes its
  history; so no window of time ever sees more than the maximum.
\<close>

theorem rate_limits_exact:
  fixes rs :: "(real \<times> str \<times> str) list" and ips sockets socket_defaults ip_defaults :: "(str \<times> limit) list"
  assumes "sorted (map fst rs)"
  defines "l \<equiv> set_overrides ips sockets (limiter_new socket_defaults ip_defaults)"
  shows "serve ip_request [] rs l = reference_answers (\<lambda>k. ip_limit l (snd k)) [] rs
    \<and> serve socket_request [] rs l = reference_answers (\<lambda>k. socket_limit l (snd k)) [] rs
    \<and> (\<forall>k m w until. ip_limit l (snd k) = Some (m, w) \<longrightarrow>
         accepted_between (serve ip_request [] rs l) k (until - real w) until \<le> m)
    \<and> (\<forall>k m w until. socket_limit l (snd k) = Some (m, w) \<longrightarrow>
         accepted_between (serve socket_request [] rs l) k (until - real w) until \<le> m)"
proof -
  define start where "start = (case rs of [] \<Rightarrow> 0 | r # _ \<Rightarrow> fst r)"
  have start: "\<forall>r\<in>set rs. start \<le> fst r" using assms(1) by (cases rs) (auto simp: start_def)
  have zero: "accepted_within [] k t w = 0" "accepted_between [] k t w = 0" "stamps_of [] a b = []" for k :: "str \<times> str" and t w a b
    by (simp_all add: accepted_within_def accepted_between_def stamps_of_def actions_of_def)
  have ip: "serve ip_request [] rs l = reference_answers (\<lambda>k. ip_limit l (snd k)) [] rs"
    unfolding ip_limit_def
    by (rule addresses.serve_reference [OF _ assms(1) start]) (simp_all add: l_def limiter_starts zero fresh_def)
  have socket: "serve socket_request [] rs l = reference_answers (\<lambda>k. socket_limit l (snd k)) [] rs"
    unfolding socket_limit_def
    by (rule sockets.serve_reference [OF _ assms(1) start]) (simp_all add: l_def limiter_starts zero fresh_def)
  have bound: "accepted_between (reference_answers quota [] rs) k (until - real w) until \<le> m" if "quota k = Some (m, w)"
    for quota and k :: "str \<times> str" and m w until
    by (rule reference_bound [where quota = quota, OF assms(1) _ that]) (simp_all add: zero)
  show ?thesis unfolding ip socket by (intro conjI allI impI refl bound)
qed

theorem rate_limits_exact_witness:
  "map (snd \<circ> snd) (serve ip_request [] [(0, [49], [76]), (30, [49], [76]), (40, [50], [76]), (59, [49], [76]), (60, [49], [76])]
      (set_overrides [] [] (limiter_new [] [([76], 2, 60)]))) = [True, True, True, False, True]"
proof -
  let ?rs = "[(0, [49], [76]), (30, [49], [76]), (40, [50], [76]), (59, [49], [76]), (60, [49], [76])] :: (real \<times> str \<times> str) list"
  have "sorted (map fst ?rs)" by simp
  note this [THEN rate_limits_exact, THEN conjunct1, of "[]" "[]" "[]" "[([76], 2, 60)]"]
  then show ?thesis
    by (simp add: ip_limit_def limit_in_def set_overrides_def limiter_new_def within_quota_def accepted_within_def)
qed

end
