(* ===== verification/Room.thy ===== *)
theory Room
  imports GameState "HOL-Library.AList" "HOL-Library.Stream"
begin

text \<open>
  A room (\<^verbatim>\<open>src/src/server/room.rs\<close>): the game, its owner, the settings, the chat, the identifiers of the
  running timers. The clock is an argument; the counters of the timers (\<^verbatim>\<open>u64\<close>) do not wrap.
\<close>

definition MAX_CHAT_MESSAGES :: nat where "MAX_CHAT_MESSAGES = 100"
definition MAX_SPECTATORS :: nat where "MAX_SPECTATORS = 30"

text \<open>Whose seat it is in a saved game.\<close>

datatype identity = AnyIdentity | GuestIdentity | UserIdentity int

definition identity_from_user_id :: "int option \<Rightarrow> identity" where
  "identity_from_user_id uid =
     (case uid of Some u \<Rightarrow> if u \<noteq> 0 then UserIdentity u else GuestIdentity | None \<Rightarrow> GuestIdentity)"

record chat_meta =
  chat_ts :: real
  chat_user :: "int option"

record room =
  room_id :: str
  room_game :: game
  owner :: "str option"
  owner_token :: "str option"
  owner_name :: str
  room_name :: str
  max_players :: nat
  join_code :: str
  is_private :: bool
  is_restored :: bool
  is_puzzle :: bool
  pushed_turn :: int
  is_async :: bool
  notified_turn :: int
  persisted_sig :: "(nat \<times> bool \<times> int) option"
  chat_messages :: "json list"
  chat_metas :: "chat_meta list"
  created_at :: real
  last_activity :: real
  bot_scheduled_at :: "real option"
  timer_paused_left :: "real option"
  admin_watchers :: "str set"
  challenge_timer_id :: nat
  turn_timer_id :: nat
  bot_turn_id :: nat
  spectators :: "(str \<times> str) list"
  turn_timer_expires_at :: "real option"
  withdraw_time_left :: "real option"
  db_game_id :: "int option"
  last_saved_move_count :: nat
  manually_saved :: bool
  result_saved :: bool
  known_user_ids :: "(str \<times> int option) list"
  late_join_names :: "(str \<times> identity) list"
  restore_save_data :: "json option"
  expected_players :: "str list option"

definition room_new ::
  "real \<Rightarrow> str \<Rightarrow> game \<Rightarrow> str option \<Rightarrow> str \<Rightarrow> str \<Rightarrow> nat \<Rightarrow> str \<Rightarrow> bool \<Rightarrow> str option \<Rightarrow> room" where
  "room_new now rid g owner_sid oname nm seats code private otoken =
     \<lparr>room_id = rid, room_game = g, owner = owner_sid, owner_token = otoken, owner_name = oname, room_name = nm,
      max_players = seats, join_code = code, is_private = private, is_restored = False, is_puzzle = False,
      pushed_turn = -1, is_async = False, notified_turn = -1, persisted_sig = None, chat_messages = [],
      chat_metas = [], created_at = now, last_activity = now, bot_scheduled_at = None, timer_paused_left = None,
      admin_watchers = {}, challenge_timer_id = 0, turn_timer_id = 0, bot_turn_id = 0, spectators = [],
      turn_timer_expires_at = None, withdraw_time_left = None, db_game_id = None, last_saved_move_count = 0,
      manually_saved = False, result_saved = False, known_user_ids = [], late_join_names = [],
      restore_save_data = None, expected_players = None\<rparr>"

text \<open>The chat keeps the last hundred messages.\<close>

definition add_chat_message :: "real \<Rightarrow> str \<Rightarrow> str \<Rightarrow> int option \<Rightarrow> bool \<Rightarrow> room \<Rightarrow> room" where
  "add_chat_message now nm message uid system r =
     (let entry = JObj ([(ascii ''name'', JStr nm), (ascii ''message'', JStr message)]
                        @ (if system then [(ascii ''system'', JBool True)] else []));
          messages = chat_messages r @ [entry]; metas = chat_metas r @ [\<lparr>chat_ts = now, chat_user = uid\<rparr>];
          excess = length messages - MAX_CHAT_MESSAGES
      in r\<lparr>chat_messages := drop excess messages, chat_metas := drop excess metas\<rparr>)"

definition touch :: "real \<Rightarrow> room \<Rightarrow> room" where
  "touch now r = r\<lparr>last_activity := now\<rparr>"

definition invalidate_challenge_timer :: "room \<Rightarrow> nat \<times> room" where
  "invalidate_challenge_timer r =
     (challenge_timer_id r + 1, r\<lparr>challenge_timer_id := challenge_timer_id r + 1\<rparr>)"

definition invalidate_turn_timer :: "room \<Rightarrow> nat \<times> room" where
  "invalidate_turn_timer r =
     (turn_timer_id r + 1, r\<lparr>turn_timer_id := turn_timer_id r + 1, turn_timer_expires_at := None\<rparr>)"

definition invalidate_bot_turn :: "room \<Rightarrow> nat \<times> room" where
  "invalidate_bot_turn r = (bot_turn_id r + 1, r\<lparr>bot_turn_id := bot_turn_id r + 1\<rparr>)"

definition transfer_ownership :: "str \<Rightarrow> str \<Rightarrow> str option \<Rightarrow> room \<Rightarrow> room" where
  "transfer_ownership sid nm token r = r\<lparr>owner := Some sid, owner_name := nm, owner_token := token\<rparr>"

definition is_lobby_visible :: "room \<Rightarrow> bool" where
  "is_lobby_visible r \<longleftrightarrow> \<not> is_private r \<and> \<not> is_restored r \<and> \<not> finished (room_game r) \<and> \<not> started (room_game r)"

definition is_live_visible :: "room \<Rightarrow> bool" where
  "is_live_visible r \<longleftrightarrow> \<not> is_private r \<and> started (room_game r) \<and> \<not> finished (room_game r)"

definition to_live_dict :: "room \<Rightarrow> json" where
  "to_live_dict r =
     JObj [(ascii ''id'', JStr (room_id r)), (ascii ''name'', JStr (room_name r)),
           (ascii ''players'', JArr (map (\<lambda>p. JObj [(ascii ''name'', JStr (player_name p)), (ascii ''score'', JInt (score p)),
                (ascii ''is_bot'', JBool (is_bot p))]) (players (room_game r)))),
           (ascii ''challenge_mode'', JBool (challenge_mode (room_game r))),
           (ascii ''turn_time_limit'', JInt (turn_time_limit (room_game r))),
           (ascii ''spectators'', JInt (int (length (spectators r)))),
           (ascii ''turn_number'', JInt (turn_number (room_game r)))]"

definition to_lobby_dict :: "room \<Rightarrow> json" where
  "to_lobby_dict r =
     JObj [(ascii ''id'', JStr (room_id r)), (ascii ''name'', JStr (room_name r)),
           (ascii ''players'', JInt (int (length (players (room_game r))))), (ascii ''max_players'', JInt (int (max_players r))),
           (ascii ''started'', JBool (started (room_game r))), (ascii ''finished'', JBool (finished (room_game r))),
           (ascii ''owner'', JStr (owner_name r)),
           (ascii ''challenge_mode'', JBool (challenge_mode (room_game r))),
           (ascii ''turn_time_limit'', JInt (turn_time_limit (room_game r))),
           (ascii ''is_restored'', JBool (is_restored r)),
           (ascii ''bots'', JInt (int (length (filter is_bot (players (room_game r))))))]"

section \<open>Join codes\<close>

text \<open>
  \<^verbatim>\<open>generate_join_code\<close> draws numbers below a million until their code is free; the draws are a stream. The
  loop may run forever: then the value is \<open>None\<close>.
\<close>

definition code_of :: "nat \<Rightarrow> str" where
  "code_of n = (let s = show_nat n in replicate (6 - length s) 48 @ s)"

partial_function (option) generate_join_code :: "(str \<times> str) list \<Rightarrow> nat stream \<Rightarrow> (str \<times> nat stream) option" where
  "generate_join_code codes draws =
     (let code = code_of (shd draws)
      in if map_of codes code = None then Some (code, stl draws) else generate_join_code codes (stl draws))"

lemma generate_join_code_free:
  "generate_join_code codes draws = Some r \<Longrightarrow> map_of codes (fst r) = None \<and> (\<exists>n\<in>sset draws. fst r = code_of n)"
proof (induction rule: generate_join_code.raw_induct [rotated 1, consumes 1])
  case (1 gen codes draws r)
  note ih = 1(1) and run = 1(2)
  show ?case
  proof (cases "map_of codes (code_of (shd draws))")
    case None
    then have "r = (code_of (shd draws), stl draws)" using run by (simp add: Let_def)
    then show ?thesis using None by (auto intro: shd_sset)
  next
    case (Some x)
    then have "gen codes (stl draws) = Some r" using run by (simp add: Let_def)
    then show ?thesis using ih [of codes "stl draws" r] by (blast intro: stl_sset)
  qed
qed

lemma generate_join_code_returns:
  "(\<exists>n\<in>sset draws. map_of codes (code_of n) = None) \<longleftrightarrow> (\<exists>r. generate_join_code codes draws = Some r)"
proof
  assume "\<exists>n\<in>sset draws. map_of codes (code_of n) = None"
  then obtain n where "n \<in> sset draws" "map_of codes (code_of n) = None" by blast
  then show "\<exists>r. generate_join_code codes draws = Some r"
  proof (induction rule: sset_induct)
    case (shd xs) then show ?case by (subst generate_join_code.simps) simp
  next
    case (stl xs y)
    then show ?case by (subst generate_join_code.simps) (simp add: Let_def)
  qed
next
  assume "\<exists>r. generate_join_code codes draws = Some r"
  then show "\<exists>n\<in>sset draws. map_of codes (code_of n) = None" using generate_join_code_free by metis
qed


text \<open>The code the clients may send (\<^verbatim>\<open>is_six_digits\<close> of \<^verbatim>\<open>server/events.rs\<close>).\<close>

definition is_six_digits :: "str \<Rightarrow> bool" where
  "is_six_digits code \<longleftrightarrow> length code = 6 \<and> list_all is_digit code"

lemma show_nat_length: "n < 10 ^ Suc k \<Longrightarrow> length (show_nat n) \<le> Suc k"
proof (induction k arbitrary: n)
  case 0 then show ?case by (subst show_nat.simps) simp
next
  case (Suc k)
  have "n div 10 < 10 ^ Suc k" using Suc.prems by (simp add: less_mult_imp_div_less)
  then show ?case using Suc.IH [of "n div 10"] by (subst show_nat.simps) simp
qed

lemma code_of_six_digits: "n < 1000000 \<Longrightarrow> is_six_digits (code_of n)"
  using show_nat_length [of n 5] show_nat_digits(1) [of n]
  by (auto simp: is_six_digits_def code_of_def Let_def list_all_iff is_digit_def)

end
