(* ===== verification/ServerState.thy ===== *)
theory ServerState
  imports Room "HOL-Library.List_Lexorder"
begin

text \<open>
  The tables of the server (\<^verbatim>\<open>src/src/server/state.rs\<close>): rooms and join codes, connections and their
  identities, reconnect tokens, disconnects in their grace period, spectators, online users and
  invitations. A table that the code iterates over is an association list with distinct keys, the
  others are maps. The database's tokens and the random tokens are arguments; the counters do not wrap.
\<close>

record auth_info =
  user_id :: "int option"
  is_guest :: bool

definition guest :: auth_info where
  "guest = \<lparr>user_id = None, is_guest = True\<rparr>"

definition registered_id :: "auth_info \<Rightarrow> int option" where
  "registered_id a =
     (if is_guest a then None else case user_id a of Some u \<Rightarrow> if u \<noteq> 0 then Some u else None | None \<Rightarrow> None)"

record token_info =
  t_room :: str
  t_name :: str
  t_sid :: str
  t_auth :: "auth_info option"

record disconnected_info =
  d_room :: str
  d_sid :: str
  d_name :: str
  d_auth :: "auth_info option"
  d_seq :: nat
  d_at :: real

record invite =
  from_user :: int
  to_user :: int
  i_room :: str
  from_sid :: str

record server_state =
  rooms :: "(str \<times> room) list"
  join_codes :: "(str \<times> str) list"
  player_rooms :: "str \<rightharpoonup> str"
  player_names :: "str \<rightharpoonup> str"
  player_auth :: "str \<rightharpoonup> auth_info"
  reconnect_tokens :: "str \<rightharpoonup> token_info"
  sid_to_token :: "str \<rightharpoonup> str"
  disconnected_players :: "(str \<times> disconnected_info) list"
  disconnect_seq :: nat
  spectator_rooms :: "str \<rightharpoonup> str"
  hidden_sids :: "str set"
  admin_sids :: "str \<rightharpoonup> int"
  online_users :: "(int \<times> str set) list"
  sid_to_user_id :: "str \<rightharpoonup> int"
  pending_invites :: "(int \<times> invite) list"
  invite_counter :: int

definition state_new :: server_state where
  "state_new =
     \<lparr>rooms = [], join_codes = [], player_rooms = Map.empty, player_names = Map.empty, player_auth = Map.empty,
      reconnect_tokens = Map.empty, sid_to_token = Map.empty, disconnected_players = [], disconnect_seq = 0,
      spectator_rooms = Map.empty, hidden_sids = {}, admin_sids = Map.empty, online_users = [],
      sid_to_user_id = Map.empty, pending_invites = [], invite_counter = 0\<rparr>"

section \<open>Who is online\<close>

definition sids_of :: "int \<Rightarrow> server_state \<Rightarrow> str set" where
  "sids_of u st = (case map_of (online_users st) u of Some s \<Rightarrow> s | None \<Rightarrow> {})"

definition remove_online_user :: "str \<Rightarrow> server_state \<Rightarrow> server_state" where
  "remove_online_user sid st =
     (case sid_to_user_id st sid of
        None \<Rightarrow> st
      | Some u \<Rightarrow>
          let st1 = st\<lparr>sid_to_user_id := (sid_to_user_id st)(sid := None)\<rparr>
          in case map_of (online_users st) u of
               None \<Rightarrow> st1
             | Some sids \<Rightarrow>
                 st1\<lparr>online_users :=
                   (if sids - {sid} = {} then AList.delete u (online_users st)
                    else AList.update u (sids - {sid}) (online_users st))\<rparr>)"

definition add_online_user :: "str \<Rightarrow> int \<Rightarrow> server_state \<Rightarrow> server_state" where
  "add_online_user sid u st =
     st\<lparr>sid_to_user_id := (sid_to_user_id st)(sid \<mapsto> u),
        online_users := AList.update u (insert sid (sids_of u st)) (online_users st)\<rparr>"

definition is_user_online :: "int \<Rightarrow> server_state \<Rightarrow> bool" where
  "is_user_online u st \<longleftrightarrow> map_of (online_users st) u \<noteq> None"

definition get_user_sids :: "int \<Rightarrow> server_state \<Rightarrow> str set" where
  "get_user_sids u st = sids_of u st"

definition get_online_user_ids :: "server_state \<Rightarrow> int set" where
  "get_online_user_ids st = fst ` set (online_users st)"

definition online_user_count :: "server_state \<Rightarrow> nat" where
  "online_user_count st = length (online_users st)"

definition get_user_id_for_sid :: "str \<Rightarrow> server_state \<Rightarrow> int option" where
  "get_user_id_for_sid sid st = sid_to_user_id st sid"

section \<open>Connections\<close>

definition register_player :: "str \<Rightarrow> str \<Rightarrow> auth_info \<Rightarrow> server_state \<Rightarrow> server_state" where
  "register_player sid nm auth st =
     (let st1 = remove_online_user sid st; st2 = st1\<lparr>player_names := (player_names st1)(sid \<mapsto> nm)\<rparr>;
          st3 = (case registered_id auth of Some u \<Rightarrow> add_online_user sid u st2 | None \<Rightarrow> st2)
      in st3\<lparr>player_auth := (player_auth st3)(sid \<mapsto> auth)\<rparr>)"

definition unregister_player :: "str \<Rightarrow> server_state \<Rightarrow> server_state" where
  "unregister_player sid st =
     (let st1 = st\<lparr>player_names := (player_names st)(sid := None), player_auth := (player_auth st)(sid := None)\<rparr>;
          st2 = (case sid_to_token st sid of
                   Some t \<Rightarrow> st1\<lparr>sid_to_token := (sid_to_token st)(sid := None),
                              reconnect_tokens := (reconnect_tokens st)(t := None)\<rparr>
                 | None \<Rightarrow> st1)
      in remove_online_user sid st2)"

section \<open>Reconnecting\<close>

text \<open>The random token of a guest: drawn until it is new, from the stream of the tokens the generator gives.\<close>

partial_function (option) fresh_token :: "(str \<rightharpoonup> token_info) \<Rightarrow> str stream \<Rightarrow> (str \<times> str stream) option" where
  "fresh_token taken draws =
     (if taken (shd draws) = None then Some (shd draws, stl draws) else fresh_token taken (stl draws))"

definition store_token :: "str \<Rightarrow> str \<Rightarrow> str \<Rightarrow> str \<Rightarrow> auth_info option \<Rightarrow> server_state \<Rightarrow> server_state" where
  "store_token token sid rid nm auth st =
     (let st1 = (case reconnect_tokens st token of
                   Some old \<Rightarrow> st\<lparr>sid_to_token := (sid_to_token st)(t_sid old := None),
                               disconnected_players := AList.delete token (disconnected_players st)\<rparr>
                 | None \<Rightarrow> st)
      in st1\<lparr>reconnect_tokens := (reconnect_tokens st1)
               (token \<mapsto> \<lparr>t_room = rid, t_name = nm, t_sid = sid, t_auth = auth\<rparr>),
             sid_to_token := (sid_to_token st1)(sid \<mapsto> token)\<rparr>)"

text \<open>A registered user's token comes from the database (\<open>user_token\<close>, with a failure if it has none).\<close>

definition generate_reconnect_token ::
  "(int \<Rightarrow> str option) \<Rightarrow> str stream \<Rightarrow> str \<Rightarrow> str \<Rightarrow> str \<Rightarrow> auth_info option \<Rightarrow> server_state
     \<Rightarrow> (str \<times> server_state \<times> str stream) option" where
  "generate_reconnect_token user_token draws sid rid nm auth st =
     (let chosen = (case Option.bind auth registered_id of
                      Some u \<Rightarrow> (case user_token u of Some t \<Rightarrow> Some (t, draws) | None \<Rightarrow> Some (shd draws, stl draws))
                    | None \<Rightarrow> fresh_token (reconnect_tokens st) draws)
      in case chosen of
           Some (token, rest) \<Rightarrow> Some (token, store_token token sid rid nm auth st, rest)
         | None \<Rightarrow> None)"

definition get_reconnect_token_for_sid :: "str \<Rightarrow> server_state \<Rightarrow> str option" where
  "get_reconnect_token_for_sid sid st = sid_to_token st sid"

definition get_disconnected_info :: "str \<Rightarrow> server_state \<Rightarrow> disconnected_info option" where
  "get_disconnected_info token st = map_of (disconnected_players st) token"

definition get_token_info :: "str \<Rightarrow> server_state \<Rightarrow> token_info option" where
  "get_token_info token st = reconnect_tokens st token"

definition note_disconnected ::
  "real \<Rightarrow> str \<Rightarrow> str \<Rightarrow> str \<Rightarrow> str \<Rightarrow> auth_info option \<Rightarrow> server_state \<Rightarrow> nat \<times> server_state" where
  "note_disconnected now token sid rid nm auth st =
     (let n = disconnect_seq st + 1
      in (n, st\<lparr>disconnect_seq := n,
                disconnected_players := AList.update token
                  \<lparr>d_room = rid, d_sid = sid, d_name = nm, d_auth = auth, d_seq = n, d_at = now\<rparr>
                  (disconnected_players st)\<rparr>))"

definition disconnect_is_current :: "str \<Rightarrow> nat \<Rightarrow> server_state \<Rightarrow> bool" where
  "disconnect_is_current token n st \<longleftrightarrow>
     (case map_of (disconnected_players st) token of Some info \<Rightarrow> d_seq info = n | None \<Rightarrow> False)"

definition complete_rejoin :: "str \<Rightarrow> str \<Rightarrow> server_state \<Rightarrow> disconnected_info option \<times> server_state" where
  "complete_rejoin token new_sid st =
     (case map_of (disconnected_players st) token of
        None \<Rightarrow> (None, st)
      | Some info \<Rightarrow>
          (Some info,
           st\<lparr>disconnected_players := AList.delete token (disconnected_players st),
              reconnect_tokens := (case reconnect_tokens st token of
                  Some entry \<Rightarrow> (reconnect_tokens st)(token \<mapsto> entry\<lparr>t_sid := new_sid\<rparr>)
                | None \<Rightarrow> reconnect_tokens st),
              sid_to_token := (sid_to_token st)(d_sid info := None, new_sid \<mapsto> token)\<rparr>))"

definition finalize_disconnect :: "str \<Rightarrow> server_state \<Rightarrow> disconnected_info option \<times> server_state" where
  "finalize_disconnect token st =
     (case map_of (disconnected_players st) token of
        None \<Rightarrow> (None, st)
      | Some info \<Rightarrow>
          (Some info,
           st\<lparr>disconnected_players := AList.delete token (disconnected_players st),
              reconnect_tokens := (reconnect_tokens st)(token := None),
              sid_to_token := (sid_to_token st)(d_sid info := None)\<rparr>))"

definition cleanup_player_token :: "str \<Rightarrow> server_state \<Rightarrow> server_state" where
  "cleanup_player_token sid st =
     (case sid_to_token st sid of
        None \<Rightarrow> st
      | Some t \<Rightarrow> st\<lparr>sid_to_token := (sid_to_token st)(sid := None),
                    reconnect_tokens := (reconnect_tokens st)(t := None),
                    disconnected_players := AList.delete t (disconnected_players st)\<rparr>)"

section \<open>Rooms\<close>

definition add_room :: "room \<Rightarrow> server_state \<Rightarrow> server_state" where
  "add_room r st =
     st\<lparr>join_codes := AList.update (join_code r) (room_id r) (join_codes st),
        rooms := AList.update (room_id r) r (rooms st)\<rparr>"

definition remove_room :: "str \<Rightarrow> server_state \<Rightarrow> server_state" where
  "remove_room rid st =
     (case map_of (rooms st) rid of
        None \<Rightarrow> st
      | Some r \<Rightarrow>
          st\<lparr>rooms := AList.delete rid (rooms st),
             join_codes := (if map_of (join_codes st) (join_code r) = Some rid
                            then AList.delete (join_code r) (join_codes st) else join_codes st)\<rparr>)"

text \<open>One disconnected player of a room that is given up.\<close>

definition drop_disconnected :: "str \<times> disconnected_info \<Rightarrow> server_state \<Rightarrow> server_state" where
  "drop_disconnected entry st =
     st\<lparr>disconnected_players := AList.delete (fst entry) (disconnected_players st),
        sid_to_token := (sid_to_token st)(d_sid (snd entry) := None),
        reconnect_tokens := (reconnect_tokens st)(fst entry := None)\<rparr>"

definition cleanup_room_tokens :: "str \<Rightarrow> server_state \<Rightarrow> server_state" where
  "cleanup_room_tokens rid st = fold drop_disconnected (filter (\<lambda>(_, i). d_room i = rid) (disconnected_players st)) st"

definition remove_invites_for_room :: "str \<Rightarrow> server_state \<Rightarrow> server_state" where
  "remove_invites_for_room rid st = st\<lparr>pending_invites := filter (\<lambda>(_, i). i_room i \<noteq> rid) (pending_invites st)\<rparr>"

definition cleanup_room :: "str \<Rightarrow> server_state \<Rightarrow> server_state" where
  "cleanup_room rid st =
     (let st1 = cleanup_room_tokens rid (remove_invites_for_room rid st)
      in remove_room rid
           (st1\<lparr>spectator_rooms := (\<lambda>s. if spectator_rooms st1 s = Some rid then None else spectator_rooms st1 s)\<rparr>))"

definition room_id_for_player :: "str \<Rightarrow> server_state \<Rightarrow> str option" where
  "room_id_for_player sid st =
     (case player_rooms st sid of
        Some rid \<Rightarrow> if map_of (rooms st) rid \<noteq> None then Some rid else None
      | None \<Rightarrow> None)"

definition rooms_in_creation_order :: "server_state \<Rightarrow> room list" where
  "rooms_in_creation_order st = sort_key created_at (sort_key room_id (map snd (rooms st)))"

definition get_rooms_list :: "server_state \<Rightarrow> json list" where
  "get_rooms_list st = map to_lobby_dict (filter is_lobby_visible (rooms_in_creation_order st))"

definition get_live_games :: "server_state \<Rightarrow> json list" where
  "get_live_games st = map to_live_dict (filter is_live_visible (rooms_in_creation_order st))"

definition new_join_code :: "server_state \<Rightarrow> nat stream \<Rightarrow> (str \<times> nat stream) option" where
  "new_join_code st draws = generate_join_code (join_codes st) draws"

section \<open>Spectators\<close>

definition add_spectator :: "str \<Rightarrow> str \<Rightarrow> server_state \<Rightarrow> server_state" where
  "add_spectator sid rid st = st\<lparr>spectator_rooms := (spectator_rooms st)(sid \<mapsto> rid)\<rparr>"

definition remove_spectator :: "str \<Rightarrow> server_state \<Rightarrow> str option \<times> server_state" where
  "remove_spectator sid st =
     (case spectator_rooms st sid of
        None \<Rightarrow> (None, st)
      | Some rid \<Rightarrow>
          (Some rid,
           st\<lparr>spectator_rooms := (spectator_rooms st)(sid := None),
              rooms := AList.map_entry rid (\<lambda>r. r\<lparr>spectators := AList.delete sid (spectators r)\<rparr>) (rooms st)\<rparr>))"

definition get_spectated_room :: "str \<Rightarrow> server_state \<Rightarrow> str option" where
  "get_spectated_room sid st = spectator_rooms st sid"

section \<open>Invitations\<close>

definition create_invite :: "int \<Rightarrow> int \<Rightarrow> str \<Rightarrow> str \<Rightarrow> server_state \<Rightarrow> int \<times> server_state" where
  "create_invite u v rid sid st =
     (let n = invite_counter st + 1
      in (n, st\<lparr>invite_counter := n,
                pending_invites := AList.update n \<lparr>from_user = u, to_user = v, i_room = rid, from_sid = sid\<rparr>
                  (pending_invites st)\<rparr>))"

definition get_invite :: "int \<Rightarrow> server_state \<Rightarrow> invite option" where
  "get_invite n st = map_of (pending_invites st) n"

definition remove_invite :: "int \<Rightarrow> server_state \<Rightarrow> invite option \<times> server_state" where
  "remove_invite n st =
     (map_of (pending_invites st) n, st\<lparr>pending_invites := AList.delete n (pending_invites st)\<rparr>)"

definition get_invites_for_user :: "int \<Rightarrow> server_state \<Rightarrow> (int \<times> invite) list" where
  "get_invites_for_user u st = filter (\<lambda>(_, i). to_user i = u) (pending_invites st)"

end
