(* ===== verification/ServerProps.thy ===== *)
theory ServerProps
  imports ServerState
begin

text \<open>
  What the tables of the server promise. The operations of \<^verbatim>\<open>state.rs\<close> are the events of a run, and every
  table keeps its promise over all runs: the index of the online users agrees with the identities of the
  connections, a join code leads to its room and to no other, and the grace period of an old disconnect never
  ends a newer one.
\<close>

section \<open>Events\<close>

datatype server_event =
    SignIn str str auth_info
  | SignOut str
  | Unregister str
  | Restore str int
  | HandToken str str str str "auth_info option"
  | Lost real str str str str "auth_info option"
  | Rejoin str str
  | GraceOver str
  | DropToken str
  | Open real str game "str option" str str nat bool "str option" "nat stream"
  | Close str
  | Watch str str
  | Unwatch str
  | Invite int int str str
  | AnswerInvite int

text \<open>The room of \<open>create_room\<close>: a new code, then the room under it. No free code among the draws: no next state.\<close>

fun apply_event :: "server_event \<Rightarrow> server_state \<Rightarrow> server_state option" where
  "apply_event (SignIn sid nm auth) st = Some (register_player sid nm auth st)"
| "apply_event (SignOut sid) st = Some (remove_online_user sid st)"
| "apply_event (Unregister sid) st = Some (unregister_player sid st)"
| "apply_event (Restore sid u) st = Some (add_online_user sid u st)"
| "apply_event (HandToken token sid rid nm auth) st = Some (store_token token sid rid nm auth st)"
| "apply_event (Lost now token sid rid nm auth) st = Some (snd (note_disconnected now token sid rid nm auth st))"
| "apply_event (Rejoin token sid) st = Some (snd (complete_rejoin token sid st))"
| "apply_event (GraceOver token) st = Some (snd (finalize_disconnect token st))"
| "apply_event (DropToken sid) st = Some (cleanup_player_token sid st)"
| "apply_event (Open now rid g own oname nm seats private otoken draws) st =
     (case new_join_code st draws of
        Some (code, _) \<Rightarrow> Some (add_room (room_new now rid g own oname nm seats code private otoken) st)
      | None \<Rightarrow> None)"
| "apply_event (Close rid) st = Some (cleanup_room rid st)"
| "apply_event (Watch sid rid) st = Some (add_spectator sid rid st)"
| "apply_event (Unwatch sid) st = Some (snd (remove_spectator sid st))"
| "apply_event (Invite u v rid sid) st = Some (snd (create_invite u v rid sid st))"
| "apply_event (AnswerInvite n) st = Some (snd (remove_invite n st))"

text \<open>
  A run of events; \<open>permitted\<close> says which events may happen in a state.
\<close>

inductive server_run :: "(server_event \<Rightarrow> server_state \<Rightarrow> bool) \<Rightarrow> server_state \<Rightarrow> server_event list \<Rightarrow> server_state \<Rightarrow> bool"
  for permitted where
  stay: "server_run permitted st [] st"
| proceed: "server_run permitted st (e # es) st'" if "permitted e st" "apply_event e st = Some st1" "server_run permitted st1 es st'"

inductive_cases server_run_NilE: "server_run permitted st [] st'"
inductive_cases server_run_ConsE: "server_run permitted st (e # es) st'"

definition anything :: "server_event \<Rightarrow> server_state \<Rightarrow> bool" where
  "anything e st \<longleftrightarrow> True"

text \<open>What every permitted event keeps, a run keeps.\<close>

lemma server_run_keeps:
  assumes "server_run permitted st es st'"
    and "\<And>e s s'. permitted e s \<Longrightarrow> apply_event e s = Some s' \<Longrightarrow> I s \<Longrightarrow> I s'" and "I st"
  shows "I st'"
  using assms(1,3) by (induction rule: server_run.induct) (use assms(2) in blast)+

section \<open>Who is online\<close>

text \<open>
  The specification: the identity of a connection is the one it signed in with last, until it signs out or
  closes; a user is online while some connection has that identity.
\<close>

fun identity_after :: "server_event list \<Rightarrow> (str \<rightharpoonup> int) \<Rightarrow> (str \<rightharpoonup> int)" where
  "identity_after [] who = who"
| "identity_after (SignIn sid nm auth # es) who = identity_after es (who(sid := registered_id auth))"
| "identity_after (SignOut sid # es) who = identity_after es (who(sid := None))"
| "identity_after (Unregister sid # es) who = identity_after es (who(sid := None))"
| "identity_after (Restore sid u # es) who = identity_after es (who(sid \<mapsto> u))"
| "identity_after (_ # es) who = identity_after es who"

text \<open>The identity is restored only on a connection without one, or with the same.\<close>

fun restores_fresh :: "server_event \<Rightarrow> server_state \<Rightarrow> bool" where
  "restores_fresh (Restore sid u) st \<longleftrightarrow> sid_to_user_id st sid \<in> {None, Some u}"
| "restores_fresh _ st \<longleftrightarrow> True"

definition index_ok :: "(str \<rightharpoonup> int) \<Rightarrow> server_state \<Rightarrow> bool" where
  "index_ok who st \<longleftrightarrow> sid_to_user_id st = who \<and>
     (\<forall>u. map_of (online_users st) u = (if \<exists>sid. who sid = Some u then Some {sid. who sid = Some u} else None))"

lemma index_ok_get:
  "index_ok who st \<Longrightarrow> map_of (online_users st) u = (if \<exists>sid. who sid = Some u then Some {sid. who sid = Some u} else None)"
  by (simp add: index_ok_def)

lemma index_ok_sids: "index_ok who st \<Longrightarrow> sids_of u st = {sid. who sid = Some u}"
  by (auto simp: sids_of_def index_ok_get)

lemma index_remove: assumes ok: "index_ok who st" shows "index_ok (who(sid := None)) (remove_online_user sid st)"
proof (cases "who sid")
  case None
  then have "remove_online_user sid st = st" "who(sid := None) = who"
    using ok by (auto simp: remove_online_user_def index_ok_def)
  then show ?thesis using ok by simp
next
  case (Some u)
  let ?s = "{s. who s = Some u}" let ?w = "who(sid := None)"
  have here: "map_of (online_users st) u = Some ?s" using ok Some by (auto simp: index_ok_get)
  have left: "?s - {sid} = {s. ?w s = Some u}" by auto
  have same: "v \<noteq> u \<Longrightarrow> {s. ?w s = Some v} = {s. who s = Some v}" for v using Some by auto
  have other: "v \<noteq> u \<Longrightarrow> (\<exists>s. ?w s = Some v) \<longleftrightarrow> (\<exists>s. who s = Some v)" for v using same [of v] by blast
  have own: "(\<exists>s. ?w s = Some u) \<longleftrightarrow> ?s - {sid} \<noteq> {}" using left by blast
  show ?thesis
    using ok Some here other same own left
    by (auto simp: index_ok_def remove_online_user_def Let_def delete_conv update_conv' split: if_splits)
qed

lemma index_add:
  assumes ok: "index_ok who st" and fresh: "who sid \<in> {None, Some u}"
  shows "index_ok (who(sid \<mapsto> u)) (add_online_user sid u st)"
proof -
  let ?w = "who(sid \<mapsto> u)"
  have mine: "insert sid {s. who s = Some u} = {s. ?w s = Some u}" by auto
  have same: "v \<noteq> u \<Longrightarrow> {s. ?w s = Some v} = {s. who s = Some v}" for v using fresh by auto
  have other: "v \<noteq> u \<Longrightarrow> (\<exists>s. ?w s = Some v) \<longleftrightarrow> (\<exists>s. who s = Some v)" for v using same [of v] by blast
  have "map_of (online_users (add_online_user sid u st)) v =
      (if \<exists>s. ?w s = Some v then Some {s. ?w s = Some v} else None)" for v
  proof (cases "v = u")
    case True
    have "\<exists>s. ?w s = Some u" by auto
    then show ?thesis using True mine by (simp add: add_online_user_def update_conv' index_ok_sids [OF ok])
  next
    case False
    then show ?thesis using index_ok_get [OF ok, of v] other [OF False] same [OF False]
      by (simp add: add_online_user_def update_conv')
  qed
  then show ?thesis using ok by (simp add: index_ok_def add_online_user_def)
qed

lemma index_register:
  assumes "index_ok who st" shows "index_ok (who(sid := registered_id auth)) (register_player sid nm auth st)"
proof -
  let ?st = "(remove_online_user sid st)\<lparr>player_names := (player_names (remove_online_user sid st))(sid \<mapsto> nm)\<rparr>"
  have a: "index_ok (who(sid := None)) ?st" using index_remove [OF assms] by (simp add: index_ok_def)
  have frame: "index_ok w (s\<lparr>player_auth := x\<rparr>) = index_ok w s" for w s x by (simp add: index_ok_def)
  show ?thesis
  proof (cases "registered_id auth")
    case None then show ?thesis using a by (simp add: register_player_def Let_def frame)
  next
    case (Some u)
    have "index_ok (who(sid \<mapsto> u)) (add_online_user sid u ?st)" using index_add [OF a, of sid u] by simp
    then show ?thesis using Some by (simp add: register_player_def Let_def frame)
  qed
qed

lemma index_unregister: "index_ok who st \<Longrightarrow> index_ok (who(sid := None)) (unregister_player sid st)"
  unfolding unregister_player_def Let_def
  by (rule index_remove) (simp add: index_ok_def split: option.split)

lemma fold_keeps_rooms: "(\<And>x s. x \<in> set xs \<Longrightarrow> I s \<Longrightarrow> I (f x s)) \<Longrightarrow> I s \<Longrightarrow> I (fold f xs s)"
  by (induction xs arbitrary: s) auto

text \<open>The other events leave the index alone.\<close>

lemma index_frame:
  "online_users st' = online_users st \<Longrightarrow> sid_to_user_id st' = sid_to_user_id st \<Longrightarrow> index_ok who st \<Longrightarrow> index_ok who st'"
  by (simp add: index_ok_def)

lemma cleanup_tokens_online:
  "online_users (cleanup_room_tokens rid st) = online_users st \<and> sid_to_user_id (cleanup_room_tokens rid st) = sid_to_user_id st"
  unfolding cleanup_room_tokens_def
  by (rule fold_keeps_rooms [where I = "\<lambda>s. online_users s = online_users st \<and> sid_to_user_id s = sid_to_user_id st"])
    (auto simp: drop_disconnected_def)

lemma remove_room_online:
  "online_users (remove_room rid st) = online_users st \<and> sid_to_user_id (remove_room rid st) = sid_to_user_id st"
  by (simp add: remove_room_def split: option.split)

fun touches_index :: "server_event \<Rightarrow> bool" where
  "touches_index (SignIn _ _ _) \<longleftrightarrow> True"
| "touches_index (SignOut _) \<longleftrightarrow> True"
| "touches_index (Unregister _) \<longleftrightarrow> True"
| "touches_index (Restore _ _) \<longleftrightarrow> True"
| "touches_index _ \<longleftrightarrow> False"

lemma other_events_keep_index:
  "apply_event e st = Some st' \<Longrightarrow> \<not> touches_index e \<Longrightarrow>
     online_users st' = online_users st \<and> sid_to_user_id st' = sid_to_user_id st"
  by (cases e)
    (auto simp: store_token_def Let_def note_disconnected_def complete_rejoin_def finalize_disconnect_def
      cleanup_player_token_def add_room_def add_spectator_def remove_spectator_def create_invite_def remove_invite_def
      cleanup_room_def remove_room_online cleanup_tokens_online remove_invites_for_room_def split: option.splits)

lemma other_events_keep_identity: "\<not> touches_index e \<Longrightarrow> identity_after (e # es) who = identity_after es who"
  by (cases e) auto

lemma index_event:
  assumes run: "apply_event e st = Some st'" and fresh: "restores_fresh e st" and ok: "index_ok who st"
  shows "index_ok (identity_after [e] who) st'"
proof (cases "touches_index e")
  case False
  then show ?thesis using other_events_keep_index [OF run False] other_events_keep_identity [OF False, of "[]" who] ok
    by (metis identity_after.simps(1) index_frame)
next
  case True
  have who: "sid_to_user_id st = who" using ok by (simp add: index_ok_def)
  show ?thesis
    using True run fresh index_register [OF ok] index_remove [OF ok] index_unregister [OF ok] index_add [OF ok] who
    by (cases e) auto
qed

lemma identity_after_Cons: "identity_after (e # es) who = identity_after es (identity_after [e] who)"
  by (cases e) auto

lemma index_run:
  assumes "server_run restores_fresh st es st'" and "index_ok who st"
  shows "index_ok (identity_after es who) st'"
  using assms
proof (induction arbitrary: who rule: server_run.induct)
  case (proceed e st st1 es st')
  have "index_ok (identity_after [e] who) st1" using index_event proceed.hyps(1,2) proceed.prems by blast
  then have "index_ok (identity_after es (identity_after [e] who)) st'" by (rule proceed.IH)
  then show ?case by (simp only: identity_after_Cons [of e es])
qed simp

lemma index_start: "index_ok Map.empty state_new"
  by (simp add: index_ok_def state_new_def)




text \<open>A user who is online without a connection stays so until the next time the user signs in.\<close>

fun involves :: "int \<Rightarrow> server_event \<Rightarrow> bool" where
  "involves u (SignIn _ _ auth) \<longleftrightarrow> registered_id auth = Some u"
| "involves u (Restore _ v) \<longleftrightarrow> v = u"
| "involves _ _ \<longleftrightarrow> False"

definition ghost :: "int \<Rightarrow> server_state \<Rightarrow> bool" where
  "ghost u st \<longleftrightarrow> is_user_online u st \<and> (\<forall>sid. sid_to_user_id st sid \<noteq> Some u)"

lemma ghost_remove: "ghost u st \<Longrightarrow> ghost u (remove_online_user sid st)"
  by (auto simp: ghost_def is_user_online_def remove_online_user_def Let_def delete_conv update_conv' split: option.split)

lemma ghost_add: "ghost u st \<Longrightarrow> v \<noteq> u \<Longrightarrow> ghost u (add_online_user sid v st)"
  by (auto simp: ghost_def is_user_online_def add_online_user_def update_conv')

lemma ghost_frame:
  "online_users st' = online_users st \<Longrightarrow> sid_to_user_id st' = sid_to_user_id st \<Longrightarrow> ghost u st \<Longrightarrow> ghost u st'"
  by (simp add: ghost_def is_user_online_def)

lemma ghost_event:
  assumes run: "apply_event e st = Some st'" and g: "ghost u st" and no: "\<not> involves u e"
  shows "ghost u st'"
proof (cases "touches_index e")
  case False
  then show ?thesis using other_events_keep_index [OF run False] ghost_frame g by blast
next
  case True
  have after: "ghost u (s\<lparr>player_auth := x\<rparr>) = ghost u s" "ghost u (s\<lparr>player_names := y\<rparr>) = ghost u s"
    for s x y by (simp_all add: ghost_def is_user_online_def)
  have tokens: "ghost u (s\<lparr>sid_to_token := x, reconnect_tokens := y\<rparr>) = ghost u s" for s x y
    by (simp add: ghost_def is_user_online_def)
  show ?thesis
  proof (cases e)
    case (SignIn sid nm auth)
    then show ?thesis using run no ghost_remove [OF g, of sid] ghost_add
      by (auto simp: register_player_def Let_def after split: option.splits)
  next
    case (SignOut sid) then show ?thesis using run ghost_remove [OF g, of sid] by simp
  next
    case (Unregister sid)
    then show ?thesis using run g by (auto simp: unregister_player_def Let_def after tokens intro!: ghost_remove split: option.splits)
  next
    case (Restore sid v) then show ?thesis using run no ghost_add [OF g] by auto
  qed (use True in auto)
qed

lemma ghost_run:
  "server_run anything st es st' \<Longrightarrow> list_all (\<lambda>e. \<not> involves u e) es \<Longrightarrow> ghost u st \<Longrightarrow> ghost u st'"
  by (induction rule: server_run.induct) (auto dest: ghost_event)

text \<open>
  The identity restored at a rejoin does not take the place of the previous one of the connection: when
  a connection that signed in as one user restores the identity of another and closes, the first user is
  online with no connection left, and stays online whatever happens until that user signs in again.
\<close>

theorem restored_identity_leaves_ghost:
  assumes "u \<noteq> v" "registered_id auth = Some u"
    and "server_run anything state_new [SignIn sid nm auth, Restore sid v, Unregister sid] st"
    and "server_run anything st es st'" "list_all (\<lambda>e. \<not> involves u e) es"
  shows "is_user_online u st' \<and> (\<forall>s. get_user_id_for_sid s st' \<noteq> Some u)"
proof -
  have st: "st = unregister_player sid (add_online_user sid v (register_player sid nm auth state_new))"
    using assms(3) by (auto elim!: server_run_ConsE server_run_NilE)
  have g: "ghost u st"
    unfolding st using assms(1,2)
    by (auto simp: ghost_def is_user_online_def unregister_player_def register_player_def add_online_user_def Let_def
        state_new_def remove_online_user_def sids_of_def delete_conv update_conv' split: option.splits)
  have "ghost u st'" by (rule ghost_run [OF assms(4,5) g])
  then show ?thesis by (simp add: ghost_def get_user_id_for_sid_def)
qed

lemma restored_identity_leaves_ghost_witness:
  "is_user_online 3 (unregister_player [7] (add_online_user [7] 4
     (register_player [7] [65] \<lparr>user_id = Some 3, is_guest = False\<rparr> state_new)))"
proof -
  let ?a = "\<lparr>user_id = Some 3, is_guest = False\<rparr>"
  let ?st = "unregister_player [7] (add_online_user [7] 4 (register_player [7] [65] ?a state_new))"
  have run: "server_run anything state_new [SignIn [7] [65] ?a, Restore [7] 4, Unregister [7]] ?st"
    by (rule proceed, simp add: anything_def, simp, rule proceed, simp add: anything_def, simp,
        rule proceed, simp add: anything_def, simp, rule stay)
  show ?thesis
    using restored_identity_leaves_ghost [of 3 4 ?a, OF _ _ run stay] by (simp add: registered_id_def)
qed

section \<open>Join codes\<close>

text \<open>A room opens under an identifier that is not in use; the drawn numbers are below a million.\<close>

fun opens_fresh :: "server_event \<Rightarrow> server_state \<Rightarrow> bool" where
  "opens_fresh (Open _ rid _ _ _ _ _ _ _ draws) st \<longleftrightarrow> map_of (rooms st) rid = None \<and> (\<forall>n\<in>sset draws. n < 1000000)"
| "opens_fresh _ st \<longleftrightarrow> True"

definition codes_ok :: "server_state \<Rightarrow> bool" where
  "codes_ok st \<longleftrightarrow>
     (\<forall>rid r. map_of (rooms st) rid = Some r \<longrightarrow>
        room_id r = rid \<and> is_six_digits (join_code r) \<and> map_of (join_codes st) (join_code r) = Some rid) \<and>
     (\<forall>c rid. map_of (join_codes st) c = Some rid \<longrightarrow> (\<exists>r. map_of (rooms st) rid = Some r \<and> join_code r = c))"

lemma codes_room:
  "codes_ok st \<Longrightarrow> map_of (rooms st) rid = Some r \<Longrightarrow>
     room_id r = rid \<and> is_six_digits (join_code r) \<and> map_of (join_codes st) (join_code r) = Some rid"
  by (simp add: codes_ok_def)

lemma codes_code:
  assumes "codes_ok st" "map_of (join_codes st) c = Some rid"
  obtains r where "map_of (rooms st) rid = Some r" "join_code r = c"
  using assms unfolding codes_ok_def by blast

lemma codes_frame: "rooms st' = rooms st \<Longrightarrow> join_codes st' = join_codes st \<Longrightarrow> codes_ok st \<Longrightarrow> codes_ok st'"
  by (simp add: codes_ok_def)

lemma codes_add:
  assumes ok: "codes_ok st" and free: "map_of (rooms st) (room_id r) = None" "map_of (join_codes st) (join_code r) = None"
    and six: "is_six_digits (join_code r)"
  shows "codes_ok (add_room r st)"
proof -
  have "join_code r' \<noteq> join_code r" if "map_of (rooms st) rid = Some r'" for rid r'
    using codes_room [OF ok that] free(2) by auto
  moreover have "rid \<noteq> room_id r" if "map_of (join_codes st) c = Some rid" for c rid
    using codes_code [OF ok that] free(1) by fastforce
  ultimately show ?thesis
    using codes_room [OF ok] six unfolding codes_ok_def add_room_def
    by (auto simp: update_conv' elim: codes_code [OF ok])
qed

lemma codes_remove:
  assumes ok: "codes_ok st" shows "codes_ok (remove_room rid st)"
proof (cases "map_of (rooms st) rid")
  case None then show ?thesis using ok by (simp add: remove_room_def)
next
  case (Some r)
  have own: "map_of (join_codes st) (join_code r) = Some rid" using codes_room [OF ok Some] by simp
  have "join_code r' \<noteq> join_code r" if "map_of (rooms st) rid' = Some r'" "rid' \<noteq> rid" for rid' r'
    using codes_room [OF ok that(1)] own that(2) by auto
  moreover have "rid' \<noteq> rid" if "map_of (join_codes st) c = Some rid'" "c \<noteq> join_code r" for c rid'
    using codes_code [OF ok that(1)] Some that(2) by fastforce
  ultimately show ?thesis
    using codes_room [OF ok] own Some unfolding codes_ok_def remove_room_def
    by (auto simp: delete_conv elim: codes_code [OF ok])
qed

lemma codes_unwatch:
  assumes ok: "codes_ok st" shows "codes_ok (st\<lparr>rooms := AList.map_entry rid (\<lambda>r. r\<lparr>spectators := f r\<rparr>) (rooms st)\<rparr>)"
proof (cases "map_of (rooms st) rid")
  case None
  then have "map_of (AList.map_entry rid (\<lambda>r. r\<lparr>spectators := f r\<rparr>) (rooms st)) = map_of (rooms st)"
    by (auto simp: map_of_map_entry)
  then show ?thesis using ok by (simp add: codes_ok_def)
next
  case (Some r)
  then have same: "map_of (AList.map_entry rid (\<lambda>r. r\<lparr>spectators := f r\<rparr>) (rooms st)) = (map_of (rooms st))(rid \<mapsto> r\<lparr>spectators := f r\<rparr>)"
    by (simp add: map_of_map_entry)
  show ?thesis using codes_room [OF ok] Some unfolding codes_ok_def
    by (auto simp: same elim: codes_code [OF ok])
qed

lemma codes_event:
  assumes run: "apply_event e st = Some st'" and fresh: "opens_fresh e st" and ok: "codes_ok st"
  shows "codes_ok st'"
proof (cases e)
  case (Open now rid g own oname nm seats priv otoken draws)
  obtain code rest where new: "generate_join_code (join_codes st) draws = Some (code, rest)"
    and st': "st' = add_room (room_new now rid g own oname nm seats code priv otoken) st"
    using run Open by (auto simp: new_join_code_def split: option.splits)
  have "map_of (join_codes st) code = None" "is_six_digits code"
    using generate_join_code_free [OF new] fresh code_of_six_digits Open by auto
  then show ?thesis using codes_add [OF ok] fresh Open st' by (simp add: room_new_def)
next
  case (Close rid)
  have tokens: "codes_ok (cleanup_room_tokens rid (remove_invites_for_room rid st))"
    unfolding cleanup_room_tokens_def
    by (rule fold_keeps_rooms) (auto simp: drop_disconnected_def remove_invites_for_room_def intro: codes_frame [OF _ _ ok] codes_frame)
  show ?thesis
    using run Close by (auto simp: cleanup_room_def Let_def intro!: codes_remove codes_frame [OF _ _ tokens])
next
  case (Unwatch sid)
  show ?thesis using run Unwatch codes_unwatch ok
    by (auto simp: remove_spectator_def split: option.splits intro!: codes_frame [OF _ _ codes_unwatch [OF ok]])
qed (use run ok in \<open>auto simp: register_player_def remove_online_user_def add_online_user_def unregister_player_def
    store_token_def Let_def note_disconnected_def complete_rejoin_def finalize_disconnect_def cleanup_player_token_def
    add_spectator_def create_invite_def remove_invite_def intro!: codes_frame [OF _ _ ok] split: option.splits\<close>)

lemma codes_run: "server_run opens_fresh st es st' \<Longrightarrow> codes_ok st \<Longrightarrow> codes_ok st'"
  by (erule server_run_keeps) (use codes_event in auto)

lemma codes_start: "codes_ok state_new"
  by (simp add: codes_ok_def state_new_def)

text \<open>
  C38. Join codes: in every state of the server, over rooms opened under fresh identifiers with numbers below a
  million, a code leads to a room exactly when the room exists and has this code; so two rooms never share
  a code, and every code in use has the six digits that \<^verbatim>\<open>join_room\<close> accepts.
\<close>

theorem join_codes_lead_home:
  assumes "server_run opens_fresh state_new es st"
  shows "(map_of (join_codes st) c = Some rid \<longleftrightarrow> (\<exists>r. map_of (rooms st) rid = Some r \<and> room_id r = rid \<and> join_code r = c))
    \<and> (map_of (join_codes st) c = Some rid \<longrightarrow> is_six_digits c)"
proof -
  have ok: "codes_ok st" by (rule codes_run [OF assms codes_start])
  show ?thesis using codes_room [OF ok] by (auto elim: codes_code [OF ok])
qed

lemma join_codes_lead_home_witness:
  "\<forall>g. map_of (join_codes (add_room (room_new 0 [1] g None [65] [66] 4 (code_of 42) False None) state_new)) (code_of 42) = Some [1]"
proof
  fix g
  let ?r = "room_new 0 [1] g None [65] [66] 4 (code_of 42) False None"
  have "generate_join_code [] (sconst 42) = Some (code_of 42, sconst 42)"
    by (subst generate_join_code.simps) simp
  then have run: "server_run opens_fresh state_new [Open 0 [1] g None [65] [66] 4 False None (sconst 42)] (add_room ?r state_new)"
    by (intro proceed [OF _ _ stay]) (simp_all add: new_join_code_def state_new_def)
  show "map_of (join_codes (add_room ?r state_new)) (code_of 42) = Some [1]"
    by (rule iffD2 [OF conjunct1 [OF join_codes_lead_home [OF run]]]) (simp add: add_room_def room_new_def state_new_def)
qed

section \<open>Grace periods\<close>

text \<open>The entry of the disconnect \<open>n\<close> under a token can only be removed, never come back.\<close>

definition seq_bounded :: "server_state \<Rightarrow> bool" where
  "seq_bounded st \<longleftrightarrow> (\<forall>t i. map_of (disconnected_players st) t = Some i \<longrightarrow> d_seq i \<le> disconnect_seq st)"

definition void :: "str \<Rightarrow> nat \<Rightarrow> server_state \<Rightarrow> bool" where
  "void token n st \<longleftrightarrow> n \<le> disconnect_seq st \<and> \<not> disconnect_is_current token n st"

lemma map_of_delete_sub: "map_of (AList.delete k xs) t = Some v \<Longrightarrow> map_of xs t = Some v"
  by (simp add: delete_conv' split: if_splits)

text \<open>An event adds at most one entry, and that one has a new number.\<close>

definition fewer :: "server_state \<Rightarrow> server_state \<Rightarrow> bool" where
  "fewer st st' \<longleftrightarrow> disconnect_seq st' = disconnect_seq st
     \<and> (\<forall>t i. map_of (disconnected_players st') t = Some i \<longrightarrow> map_of (disconnected_players st) t = Some i)"

lemma fewer_same: "disconnect_seq st' = disconnect_seq st \<Longrightarrow> disconnected_players st' = disconnected_players st \<Longrightarrow> fewer st st'"
  by (simp add: fewer_def)

lemma fewer_delete:
  "disconnect_seq st' = disconnect_seq st \<Longrightarrow> disconnected_players st' = AList.delete k (disconnected_players st) \<Longrightarrow> fewer st st'"
  by (auto simp: fewer_def intro: map_of_delete_sub)

lemma fewer_trans: "fewer a b \<Longrightarrow> fewer b c \<Longrightarrow> fewer a c"
  by (simp add: fewer_def)

fun loses :: "server_event \<Rightarrow> bool" where
  "loses (Lost _ _ _ _ _ _) \<longleftrightarrow> True"
| "loses _ \<longleftrightarrow> False"

lemma fewer_cleanup: "fewer st (cleanup_room rid st)"
proof -
  have "fewer st (cleanup_room_tokens rid (remove_invites_for_room rid st))"
    unfolding cleanup_room_tokens_def
  proof (rule fold_keeps_rooms [where I = "fewer st"])
    show "fewer st s \<Longrightarrow> fewer st (drop_disconnected x s)" for x s
      by (rule fewer_trans [where b = s]) (auto simp: drop_disconnected_def intro: fewer_delete)
  qed (simp add: remove_invites_for_room_def fewer_same)
  then show ?thesis
    by (rule fewer_trans) (auto simp: cleanup_room_def Let_def remove_room_def intro: fewer_same split: option.split)
qed

lemma fewer_event:
  assumes "apply_event e st = Some st'" "\<not> loses e" shows "fewer st st'"
  using assms
  by (cases e)
    (auto simp: fewer_cleanup register_player_def remove_online_user_def add_online_user_def unregister_player_def
      store_token_def Let_def complete_rejoin_def finalize_disconnect_def cleanup_player_token_def add_room_def
      add_spectator_def remove_spectator_def create_invite_def remove_invite_def intro: fewer_same fewer_delete split: option.splits)

lemma void_event:
  assumes run: "apply_event e st = Some st'" and v: "void token n st" shows "void token n st'"
proof (cases "loses e")
  case False
  then show ?thesis using fewer_event [OF run False] v
    by (auto simp: void_def fewer_def disconnect_is_current_def split: option.splits)
next
  case True
  then show ?thesis using run v
    by (cases e) (auto simp: void_def note_disconnected_def Let_def disconnect_is_current_def update_conv' split: option.splits if_splits)
qed

lemma void_run: "server_run anything st es st' \<Longrightarrow> void token n st \<Longrightarrow> void token n st'"
  by (erule server_run_keeps) (use void_event in auto)

lemma seq_event:
  assumes run: "apply_event e st = Some st'" shows "disconnect_seq st \<le> disconnect_seq st'"
proof (cases "loses e")
  case False then show ?thesis using fewer_event [OF run False] by (simp add: fewer_def)
next
  case True then show ?thesis using run by (cases e) (auto simp: note_disconnected_def Let_def)
qed

lemma seq_run: "server_run anything st es st' \<Longrightarrow> disconnect_seq st \<le> disconnect_seq st'"
  by (induction rule: server_run.induct) (auto dest: seq_event)

text \<open>
  C39. A disconnect gets a number no other disconnect has. Once its entry is gone, because the player came
  back, the grace period ended or the room was closed, no later run brings it back: when the timer of that
  grace period fires after the player has returned and lost the connection again, it finds another number
  and does nothing.
\<close>

theorem old_grace_period_is_void:
  assumes "note_disconnected now token sid rid nm auth st = (n, st1)"
    and "server_run anything st1 es st2"
  shows "disconnect_is_current token n st1
    \<and> (\<forall>new_sid es' st3. server_run anything (snd (complete_rejoin token new_sid st2)) es' st3 \<longrightarrow> \<not> disconnect_is_current token n st3)
    \<and> (\<forall>es' st3. server_run anything (snd (finalize_disconnect token st2)) es' st3 \<longrightarrow> \<not> disconnect_is_current token n st3)
    \<and> (\<forall>now' sid' rid' nm' auth'. fst (note_disconnected now' token sid' rid' nm' auth' st2) > n)"
proof -
  have here: "disconnect_is_current token n st1" "disconnect_seq st1 = n"
    using assms(1) by (auto simp: note_disconnected_def Let_def disconnect_is_current_def update_conv')
  then have le: "n \<le> disconnect_seq st2" using seq_run [OF assms(2)] by simp
  have "void token n (snd (complete_rejoin token s st2))" for s
    using le by (auto simp: void_def complete_rejoin_def disconnect_is_current_def delete_conv' split: option.split)
  moreover have "void token n (snd (finalize_disconnect token st2))"
    using le by (auto simp: void_def finalize_disconnect_def disconnect_is_current_def delete_conv' split: option.split)
  ultimately show ?thesis using here le void_run
    by (auto simp: note_disconnected_def Let_def) (metis void_def)+
qed

lemma old_grace_period_is_void_witness:
  "\<not> disconnect_is_current [1] 1
      (snd (note_disconnected 2 [1] [8] [2] [65] None (snd (complete_rejoin [1] [8] (snd (note_disconnected 1 [1] [7] [2] [65] None state_new))))))"
proof -
  let ?st = "snd (note_disconnected 1 [1] [7] [2] [65] None state_new)"
  have lost: "note_disconnected 1 [1] [7] [2] [65] None state_new = (1, ?st)" by (simp add: note_disconnected_def state_new_def)
  have run: "server_run anything s [Lost 2 [1] [8] [2] [65] None] (snd (note_disconnected 2 [1] [8] [2] [65] None s))" for s
    by (rule proceed [OF _ _ stay]) (simp_all add: anything_def)
  show ?thesis using old_grace_period_is_void [OF lost stay] run by blast
qed

end
