(* ===== verification/Accounts.thy ===== *)
theory Accounts
  imports BotChoice
begin

text \<open>
  Ratings and badges (\<^verbatim>\<open>src/src/accounts/elo.rs\<close>, \<^verbatim>\<open>achievements.rs\<close>). Floats are reals; the hash maps are
  maps, and the table of the users' names is an association list.
\<close>

section \<open>Ratings\<close>

definition INITIAL_RATING :: int where "INITIAL_RATING = 1200"
definition PROVISIONAL_GAMES :: int where "PROVISIONAL_GAMES = 10"
definition K_PROVISIONAL :: real where "K_PROVISIONAL = 32"
definition K_ESTABLISHED :: real where "K_ESTABLISHED = 20"
definition MIN_RATED_GAMES_FOR_RANKING :: int where "MIN_RATED_GAMES_FOR_RANKING = 3"

definition expected_score :: "real \<Rightarrow> real \<Rightarrow> real" where
  "expected_score rating opponent = 1 / (1 + 10 powr ((opponent - rating) / 400))"

definition k_factor :: "int \<Rightarrow> real" where
  "k_factor rated_games = (if rated_games < PROVISIONAL_GAMES then K_PROVISIONAL else K_ESTABLISHED)"

text \<open>An entry: the key, the rating, the number of rated games, the score.\<close>

type_synonym 'k rated = "'k \<times> int \<times> int \<times> int"

definition actual_score :: "int \<Rightarrow> int \<Rightarrow> real" where
  "actual_score mine other = (if other < mine then 1 else if mine = other then 1 / 2 else 0)"

definition duel_total :: "'k rated list \<Rightarrow> 'k rated \<Rightarrow> real" where
  "duel_total entries = (\<lambda>(key, rating, _, points).
     (\<Sum>(_, rating', _, points')\<leftarrow>filter (\<lambda>o'. fst o' \<noteq> key) entries.
        actual_score points points' - expected_score (real_of_int rating) (real_of_int rating')))"

definition rating_change :: "'k rated list \<Rightarrow> 'k rated \<Rightarrow> int" where
  "rating_change entries entry =
     f64_as_i64 (round_ties_even (k_factor (fst (snd (snd entry))) * duel_total entries entry / real (length entries - 1)))"

definition rating_changes :: "'k rated list \<Rightarrow> ('k \<rightharpoonup> int)" where
  "rating_changes entries =
     (if length entries < 2 then map_of (rev (map (\<lambda>en. (fst en, 0)) entries))
      else map_of (rev (map (\<lambda>en. (fst en, rating_change entries en)) entries)))"

lemma expected_score_bounds: "0 < expected_score r s" "expected_score r s < 1"
  by (simp_all add: expected_score_def add_pos_pos)

lemma round_ties_even_int: "round_ties_even (real_of_int n) = real_of_int n"
  by (simp add: round_ties_even_def Let_def)

lemma round_ties_even_floor: "real_of_int \<lfloor>x\<rfloor> \<le> round_ties_even x \<and> round_ties_even x \<le> real_of_int (\<lfloor>x\<rfloor> + 1)"
  by (simp add: round_ties_even_def Let_def)

lemma round_ties_even_mono:
  assumes "x \<le> y" shows "round_ties_even x \<le> round_ties_even y"
proof (cases "\<lfloor>x\<rfloor> = \<lfloor>y\<rfloor>")
  case True
  have "x - real_of_int \<lfloor>y\<rfloor> \<le> y - real_of_int \<lfloor>y\<rfloor>" using assms by simp
  then show ?thesis unfolding round_ties_even_def Let_def True by simp
next
  case False
  then have "\<lfloor>x\<rfloor> + 1 \<le> \<lfloor>y\<rfloor>" using floor_mono [OF assms] by linarith
  then have "real_of_int (\<lfloor>x\<rfloor> + 1) \<le> real_of_int \<lfloor>y\<rfloor>" by (rule of_int_le_iff [THEN iffD2])
  then show ?thesis using round_ties_even_floor [of x] round_ties_even_floor [of y] by linarith
qed

lemma round_ties_even_bounds:
  "real_of_int a \<le> x \<Longrightarrow> x \<le> real_of_int b \<Longrightarrow> real_of_int a \<le> round_ties_even x \<and> round_ties_even x \<le> real_of_int b"
  by (metis round_ties_even_int round_ties_even_mono)

lemma round_ties_even_is_int: "\<exists>n. round_ties_even x = real_of_int n"
  unfolding round_ties_even_def Let_def by blast

lemma cast_rounded:
  assumes "real_of_int a \<le> x" "x \<le> real_of_int b" "i64_min \<le> a" "b \<le> i64_max"
  shows "a \<le> f64_as_i64 (round_ties_even x) \<and> f64_as_i64 (round_ties_even x) \<le> b"
proof -
  obtain n where n: "round_ties_even x = real_of_int n" using round_ties_even_is_int by blast
  have "a \<le> n" "n \<le> b" using round_ties_even_bounds [OF assms(1,2)] by (simp_all add: n)
  then show ?thesis using assms(3,4) by (simp add: n f64_as_i64_def trunc_def)
qed

lemma duel_terms:
  assumes "\<And>en. en \<in> set xs \<Longrightarrow> lo \<le> f en \<and> f en \<le> hi"
  shows "real (length xs) * lo \<le> (\<Sum>en\<leftarrow>xs. f en) \<and> (\<Sum>en\<leftarrow>xs. f en) \<le> real (length xs) * (hi :: real)"
  using assms by (induction xs) (auto simp: algebra_simps intro!: add_mono)

lemma others_length:
  assumes "distinct (map fst xs)" "k \<in> fst ` set xs"
  shows "length (filter (\<lambda>x. fst x \<noteq> k) xs) = length xs - 1"
  using assms
proof (induction xs)
  case (Cons x xs)
  show ?case
  proof (cases "fst x = k")
    case True
    then have "k \<notin> fst ` set xs" using Cons.prems(1) by auto
    then have "filter (\<lambda>y. fst y \<noteq> k) xs = xs" by (auto simp: filter_id_conv)
    then show ?thesis using True by simp
  next
    case False
    then have "k \<in> fst ` set xs" using Cons.prems(2) by auto
    then have "length (filter (\<lambda>x. fst x \<noteq> k) xs) = length xs - 1" "xs \<noteq> []" using Cons by auto
    then show ?thesis using False by (cases xs) auto
  qed
qed simp

lemma duel_total_bounds:
  assumes "distinct (map fst entries)" "en \<in> set entries"
    and "\<And>o'. o' \<in> set entries \<Longrightarrow> fst o' \<noteq> fst en \<Longrightarrow> lo \<le> actual_score (snd (snd (snd en))) (snd (snd (snd o'))) \<and>
        actual_score (snd (snd (snd en))) (snd (snd (snd o'))) \<le> hi"
  shows "real (length entries - 1) * (lo - 1) \<le> duel_total entries en \<and> duel_total entries en \<le> real (length entries - 1) * hi"
proof -
  obtain k r n s where en: "en = (k, r, n, s)" by (cases en) auto
  let ?f = "\<lambda>(_, rating', _, points'). actual_score s points' - expected_score (real_of_int r) (real_of_int rating')"
  have len: "length (filter (\<lambda>x. fst x \<noteq> k) entries) = length entries - 1"
    by (rule others_length [OF assms(1)]) (use assms(2) in \<open>force simp: en\<close>)
  have "lo - 1 \<le> ?f x \<and> ?f x \<le> hi" if "x \<in> set (filter (\<lambda>x. fst x \<noteq> k) entries)" for x
  proof -
    obtain k' r' n' s' where x: "x = (k', r', n', s')" by (cases x) auto
    have "lo \<le> actual_score s s' \<and> actual_score s s' \<le> hi" using assms(3) [of x] that by (simp add: en x)
    then show ?thesis using expected_score_bounds [of "real_of_int r" "real_of_int r'"] by (simp add: x)
  qed
  from duel_terms [of "filter (\<lambda>x. fst x \<noteq> k) entries" "lo - 1" ?f hi, OF this] show ?thesis unfolding len by (simp add: duel_total_def en)
qed

lemma rating_changes_of:
  assumes "distinct (map fst entries)" "en \<in> set entries"
  shows "rating_changes entries (fst en) = Some (if length entries < 2 then 0 else rating_change entries en)"
proof -
  have d: "distinct (map fst (rev (map (\<lambda>en. (fst en, f en)) entries)))" for f :: "_ \<Rightarrow> int"
    
  proof -
    have "map fst (rev (map (\<lambda>en. (fst en, f en)) entries)) = rev (map fst entries)" by (simp add: rev_map comp_def)
    then show ?thesis using assms(1) by simp
  qed
  have "map_of (rev (map (\<lambda>en. (fst en, f en)) entries)) (fst en) = Some (f en)" for f :: "_ \<Rightarrow> int"
    using map_of_is_SomeI [OF d, of "fst en" "f en" f] assms(2) by simp
  then show ?thesis by (simp add: rating_changes_def)
qed

text \<open>
  The rating changes of a game: every entry gets one; it is at most the K of the player (32 before the
  tenth rated game, 20 after), however many play; who beats everybody never loses points and who loses to
  everybody never wins any; and a lone entry keeps its rating.
\<close>

theorem rating_change_bounds:
  assumes "distinct (map fst entries)" "(key, rating, games, points) \<in> set entries"
  shows "\<exists>d. rating_changes entries key = Some d \<and> \<bar>real_of_int d\<bar> \<le> k_factor games
    \<and> ((\<forall>(k, r, n, s)\<in>set entries. k = key \<or> s < points) \<longrightarrow> 0 \<le> d)
    \<and> ((\<forall>(k, r, n, s)\<in>set entries. k = key \<or> points < s) \<longrightarrow> d \<le> 0)"
proof (cases "length entries < 2")
  case True
  then show ?thesis using rating_changes_of [OF assms] by (simp add: k_factor_def K_PROVISIONAL_def K_ESTABLISHED_def)
next
  case False
  let ?en = "(key, rating, games, points)" and ?m = "real (length entries - 1)"
  let ?K = "if games < PROVISIONAL_GAMES then 32 else (20 :: int)"
  have K: "k_factor games = real_of_int ?K" by (simp add: k_factor_def K_PROVISIONAL_def K_ESTABLISHED_def)
  have m: "0 < ?m" using False by simp
  have within: "a \<le> rating_change entries ?en \<and> rating_change entries ?en \<le> b"
    if "?m * x \<le> duel_total entries ?en" "duel_total entries ?en \<le> ?m * y"
      and "real_of_int a = real_of_int ?K * x" "real_of_int b = real_of_int ?K * y" "- 32 \<le> a" "b \<le> 32" for a b x y
  proof -
    have "x \<le> duel_total entries ?en / ?m" "duel_total entries ?en / ?m \<le> y"
      using that(1,2) m by (simp_all add: field_simps)
    then have "real_of_int ?K * x \<le> real_of_int ?K * (duel_total entries ?en / ?m)"
        "real_of_int ?K * (duel_total entries ?en / ?m) \<le> real_of_int ?K * y"
      by (auto intro: mult_left_mono)
    then have lo: "real_of_int a \<le> k_factor games * duel_total entries ?en / ?m"
      and hi: "k_factor games * duel_total entries ?en / ?m \<le> real_of_int b"
      by (simp_all add: that(3,4) K)
    have "i64_min \<le> a" "b \<le> i64_max" using that(5,6) by (simp_all add: i64_min_def i64_max_def)
    from cast_rounded [OF lo hi this] show ?thesis by (simp add: rating_change_def)
  qed
  let ?d = "rating_change entries ?en"
  have "- ?K \<le> ?d \<and> ?d \<le> ?K"
    by (rule within [of "-1" 1]) (use duel_total_bounds [OF assms, of 0 1] in \<open>auto simp: actual_score_def\<close>)
  then have bound: "\<bar>real_of_int ?d\<bar> \<le> k_factor games" unfolding K by linarith
  have best: "0 \<le> ?d" if w: "\<forall>(k, r, n, s)\<in>set entries. k = key \<or> s < points"
  proof -
    have one: "1 \<le> actual_score points (snd (snd (snd o')))" if "o' \<in> set entries" "fst o' \<noteq> key" for o'
      using w that by (cases o') (auto simp: actual_score_def)
    have "0 \<le> ?d \<and> ?d \<le> ?K"
      by (rule within [of 0 1]) (use duel_total_bounds [OF assms, of 1 1] one in \<open>auto simp: actual_score_def\<close>)
    then show ?thesis by simp
  qed
  have worst: "?d \<le> 0" if w: "\<forall>(k, r, n, s)\<in>set entries. k = key \<or> points < s"
  proof -
    have zero: "actual_score points (snd (snd (snd o'))) = 0" if "o' \<in> set entries" "fst o' \<noteq> key" for o'
      using w that by (cases o') (auto simp: actual_score_def)
    have "- ?K \<le> ?d \<and> ?d \<le> 0"
      by (rule within [of "-1" 0]) (use duel_total_bounds [OF assms, of 0 0] zero in auto)
    then show ?thesis by simp
  qed
  show ?thesis using rating_changes_of [OF assms] False bound best worst by auto
qed

lemma rating_change_bounds_witness:
  "\<exists>d. rating_changes [(1 :: nat, 1200, 0, 100), (2, 1300, 12, 50)] 1 = Some d \<and> 0 \<le> d \<and> d \<le> 32"
proof -
  have "\<exists>d. rating_changes [(1 :: nat, 1200, 0, 100), (2, 1300, 12, 50)] 1 = Some d \<and> \<bar>real_of_int d\<bar> \<le> k_factor 0 \<and> 0 \<le> d"
    using rating_change_bounds [of "[(1 :: nat, 1200, 0, 100), (2, 1300, 12, 50)]" 1 1200 0 100] by auto
  then obtain d where "rating_changes [(1 :: nat, 1200, 0, 100), (2, 1300, 12, 50)] 1 = Some d" "\<bar>real_of_int d\<bar> \<le> 32" "0 \<le> d"
    by (auto simp: k_factor_def PROVISIONAL_GAMES_def K_PROVISIONAL_def)
  then show ?thesis by auto
qed

section \<open>Badges\<close>

definition BADGES :: "str list" where
  "BADGES = map ascii [''first_game'', ''first_win'', ''bingo'', ''score_100'', ''long_word'', ''joker_play'', ''game_300'',
     ''bot_slayer'', ''wins_10'', ''games_25'', ''daily_best'']"

definition BIG_MOVE_SCORE :: int where "BIG_MOVE_SCORE = 100"
definition LONG_WORD_TILES :: nat where "LONG_WORD_TILES = 8"
definition HIGH_GAME_SCORE :: int where "HIGH_GAME_SCORE = 300"
definition STRONG_BOT_LEVEL :: nat where "STRONG_BOT_LEVEL = 8"
definition WINS_FOR_VETERAN :: int where "WINS_FOR_VETERAN = 10"
definition GAMES_FOR_REGULAR :: int where "GAMES_FOR_REGULAR = 25"

text \<open>The registered user of a name.\<close>

definition registered_user :: "(str \<times> int) list \<Rightarrow> str \<Rightarrow> int option" where
  "registered_user users nm = (case map_of users nm of Some u \<Rightarrow> if u \<noteq> 0 then Some u else None | None \<Rightarrow> None)"

definition array_of :: "json \<Rightarrow> string \<Rightarrow> json list" where
  "array_of d k = (case jget d (ascii k) \<bind> as_array of Some a \<Rightarrow> a | None \<Rightarrow> [])"

definition long_word :: "json \<Rightarrow> bool" where
  "long_word w \<longleftrightarrow> (case as_str w \<bind> tokenize_word of Some ts \<Rightarrow> LONG_WORD_TILES \<le> length ts | None \<Rightarrow> False)"

definition move_badges :: "move_log_entry \<Rightarrow> str set" where
  "move_badges m =
     (let tiles = array_of (details m) ''tiles'' in
        (if HAND_SIZE \<le> length tiles then {ascii ''bingo''} else {})
      \<union> (if BIG_MOVE_SCORE \<le> entry_score m then {ascii ''score_100''} else {})
      \<union> (if list_ex (\<lambda>t. case jget t (ascii ''is_blank'') of Some v \<Rightarrow> truthy v | None \<Rightarrow> False) tiles
         then {ascii ''joker_play''} else {})
      \<union> (if list_ex long_word (array_of (details m) ''words'') then {ascii ''long_word''} else {}))"

definition end_badges :: "game \<Rightarrow> player \<Rightarrow> str set" where
  "end_badges g p =
     (let strong_bot = list_ex (\<lambda>q. is_bot q \<and>
            (case difficulty q \<bind> difficulty_level of Some l \<Rightarrow> STRONG_BOT_LEVEL \<le> l | None \<Rightarrow> False)) (players g)
      in (if HIGH_GAME_SCORE \<le> score p then {ascii ''game_300''} else {})
       \<union> (if strong_bot \<and> player_name p \<in> player_name ` set (winners g) then {ascii ''bot_slayer''} else {}))"

definition earn :: "int \<Rightarrow> str set \<Rightarrow> (int \<rightharpoonup> str set) \<Rightarrow> (int \<rightharpoonup> str set)" where
  "earn u badges earned = earned(u \<mapsto> (case earned u of Some s \<Rightarrow> s | None \<Rightarrow> {}) \<union> badges)"

definition judge_move :: "(str \<times> int) list \<Rightarrow> move_log_entry \<Rightarrow> (int \<rightharpoonup> str set) \<Rightarrow> (int \<rightharpoonup> str set)" where
  "judge_move users m earned =
     (case registered_user users (ml_player m) of
        None \<Rightarrow> earned
      | Some u \<Rightarrow>
          if action_type m \<in> {ascii ''place'', ascii ''challenge_accept''} then earn u (move_badges m) earned else earned)"

definition judge_player :: "(str \<times> int) list \<Rightarrow> game \<Rightarrow> player \<Rightarrow> (int \<rightharpoonup> str set) \<Rightarrow> (int \<rightharpoonup> str set)" where
  "judge_player users g p earned =
     (case registered_user users (player_name p) of
        None \<Rightarrow> earned
      | Some u \<Rightarrow> if is_bot p then earned else earn u (end_badges g p) earned)"

definition evaluate_game :: "game \<Rightarrow> (str \<times> int) list \<Rightarrow> (int \<rightharpoonup> str set)" where
  "evaluate_game g users =
     fold (judge_player users g) (players g)
       (fold (judge_move users) (move_log g)
          (map_of (map (\<lambda>u. (u, {})) (filter (\<lambda>u. u \<noteq> 0) (map snd users)))))"

definition cumulative_badges :: "int \<Rightarrow> int \<Rightarrow> str set" where
  "cumulative_badges games_played games_won =
     (if 1 \<le> games_played then {ascii ''first_game''} else {})
   \<union> (if 1 \<le> games_won then {ascii ''first_win''} else {})
   \<union> (if WINS_FOR_VETERAN \<le> games_won then {ascii ''wins_10''} else {})
   \<union> (if GAMES_FOR_REGULAR \<le> games_played then {ascii ''games_25''} else {})"

text \<open>What a user earned, as a set of badges (nothing without an entry).\<close>

definition badges_of :: "(int \<rightharpoonup> str set) \<Rightarrow> int \<Rightarrow> str set" where
  "badges_of earned u = (case earned u of Some s \<Rightarrow> s | None \<Rightarrow> {})"

lemma badges_earn: "badges_of (earn u b earned) v = badges_of earned v \<union> (if v = u then b else {})"
  by (auto simp: badges_of_def earn_def)

definition blank_tile :: "json \<Rightarrow> bool" where
  "blank_tile t \<longleftrightarrow> (\<exists>v. jget t (ascii ''is_blank'') = Some v \<and> truthy v)"

definition counted_move :: "(str \<times> int) list \<Rightarrow> int \<Rightarrow> move_log_entry \<Rightarrow> bool" where
  "counted_move users u m \<longleftrightarrow> registered_user users (ml_player m) = Some u
     \<and> action_type m \<in> {ascii ''place'', ascii ''challenge_accept''}"

lemma badges_moves:
  "badges_of (fold (judge_move users) ms earned) u =
     badges_of earned u \<union> (\<Union>m\<in>{m \<in> set ms. counted_move users u m}. move_badges m)"
proof (induction ms arbitrary: earned)
  case (Cons m ms)
  have "badges_of (judge_move users m earned) u = badges_of earned u \<union> (if counted_move users u m then move_badges m else {})"
    by (auto simp: judge_move_def badges_earn counted_move_def split: option.split)
  then show ?case using Cons.IH [of "judge_move users m earned"] by auto
qed simp

lemma badges_players:
  "badges_of (fold (judge_player users g) ps earned) u =
     badges_of earned u \<union> (\<Union>p\<in>{p \<in> set ps. registered_user users (player_name p) = Some u \<and> \<not> is_bot p}. end_badges g p)"
proof (induction ps arbitrary: earned)
  case (Cons p ps)
  have "badges_of (judge_player users g p earned) u =
      badges_of earned u \<union> (if registered_user users (player_name p) = Some u \<and> \<not> is_bot p then end_badges g p else {})"
    by (auto simp: judge_player_def badges_earn split: option.split)
  then show ?case using Cons.IH [of "judge_player users g p earned"] by auto
qed simp

lemma badges_start: "badges_of (map_of (map (\<lambda>u. (u, {})) us)) u = {}"
  by (induction us) (auto simp: badges_of_def)

lemma evaluate_game_badges:
  "badges_of (evaluate_game g users) u =
     (\<Union>m\<in>{m \<in> set (move_log g). counted_move users u m}. move_badges m)
   \<union> (\<Union>p\<in>{p \<in> set (players g). registered_user users (player_name p) = Some u \<and> \<not> is_bot p}. end_badges g p)"
  unfolding evaluate_game_def badges_players badges_moves badges_start by simp

lemma move_badge_iff:
  "ascii ''bingo'' \<in> move_badges m \<longleftrightarrow> 7 \<le> length (array_of (details m) ''tiles'')"
  "ascii ''score_100'' \<in> move_badges m \<longleftrightarrow> 100 \<le> entry_score m"
  "ascii ''long_word'' \<in> move_badges m \<longleftrightarrow> (\<exists>w\<in>set (array_of (details m) ''words''). long_word w)"
  "ascii ''joker_play'' \<in> move_badges m \<longleftrightarrow> (\<exists>t\<in>set (array_of (details m) ''tiles''). blank_tile t)"
  "ascii ''game_300'' \<notin> move_badges m" "ascii ''bot_slayer'' \<notin> move_badges m" "move_badges m \<subseteq> set BADGES"
  by (auto simp: move_badges_def Let_def HAND_SIZE_def BIG_MOVE_SCORE_def list_ex_iff BADGES_def blank_tile_def split: option.splits)

lemma strong_bot_iff:
  "list_ex (\<lambda>q. is_bot q \<and> (case d q of Some l \<Rightarrow> STRONG_BOT_LEVEL \<le> l | None \<Rightarrow> False)) ps
     \<longleftrightarrow> (\<exists>q\<in>set ps. is_bot q \<and> (\<exists>l\<ge>8. d q = Some l))"
  by (auto simp: list_ex_iff STRONG_BOT_LEVEL_def split: option.splits)

lemma end_badge_iff:
  "ascii ''bingo'' \<notin> end_badges g p" "ascii ''score_100'' \<notin> end_badges g p" "ascii ''long_word'' \<notin> end_badges g p"
  "ascii ''joker_play'' \<notin> end_badges g p"
  "ascii ''game_300'' \<in> end_badges g p \<longleftrightarrow> 300 \<le> score p"
  "ascii ''bot_slayer'' \<in> end_badges g p \<longleftrightarrow> player_name p \<in> player_name ` set (winners g)
     \<and> (\<exists>q\<in>set (players g). is_bot q \<and> (\<exists>l\<ge>8. difficulty q \<bind> difficulty_level = Some l))"
  "end_badges g p \<subseteq> set BADGES"
  unfolding end_badges_def Let_def strong_bot_iff by (auto simp: HIGH_GAME_SCORE_def BADGES_def)

text \<open>
  The badges of a finished game: a user gets the badge of the seven tiles, of the hundred points, of the
  blank and of the long word exactly for an own placement that deserves it, the badge of the high score
  for an own seat that reached it, and the badge of the bot slayer exactly for winning against a bot of a
  fixed level of at least eight; and only badges of the catalogue are given.
\<close>

theorem badges_are_deserved:
  "badges_of (evaluate_game g users) u \<subseteq> set BADGES
   \<and> (ascii ''bingo'' \<in> badges_of (evaluate_game g users) u \<longleftrightarrow>
        (\<exists>m\<in>set (move_log g). counted_move users u m \<and> 7 \<le> length (array_of (details m) ''tiles'')))
   \<and> (ascii ''score_100'' \<in> badges_of (evaluate_game g users) u \<longleftrightarrow>
        (\<exists>m\<in>set (move_log g). counted_move users u m \<and> 100 \<le> entry_score m))
   \<and> (ascii ''long_word'' \<in> badges_of (evaluate_game g users) u \<longleftrightarrow>
        (\<exists>m\<in>set (move_log g). counted_move users u m \<and> (\<exists>w\<in>set (array_of (details m) ''words''). long_word w)))
   \<and> (ascii ''joker_play'' \<in> badges_of (evaluate_game g users) u \<longleftrightarrow>
        (\<exists>m\<in>set (move_log g). counted_move users u m \<and> (\<exists>t\<in>set (array_of (details m) ''tiles''). blank_tile t)))
   \<and> (ascii ''game_300'' \<in> badges_of (evaluate_game g users) u \<longleftrightarrow>
        (\<exists>p\<in>set (players g). registered_user users (player_name p) = Some u \<and> \<not> is_bot p \<and> 300 \<le> score p))
   \<and> (ascii ''bot_slayer'' \<in> badges_of (evaluate_game g users) u \<longleftrightarrow>
        (\<exists>p\<in>set (players g). registered_user users (player_name p) = Some u \<and> \<not> is_bot p
           \<and> player_name p \<in> player_name ` set (winners g))
        \<and> (\<exists>q\<in>set (players g). is_bot q \<and> (\<exists>l\<ge>8. difficulty q \<bind> difficulty_level = Some l)))"
proof -
  note [simp] = evaluate_game_badges move_badge_iff(1-6) end_badge_iff(1-6)
  have "badges_of (evaluate_game g users) u \<subseteq> set BADGES"
    unfolding evaluate_game_badges using move_badge_iff(7) end_badge_iff(7) by blast
  then show ?thesis by (intro conjI) (simp_all add: Bex_def conj_assoc)
qed

end
