(* ===== verification/ServerInput.thy ===== *)
theory ServerInput
  imports BotChoice AffixLoad Room
begin

text \<open>
  The input checks of the server and the choice of a bot's name and pace (the first part of
  \<^verbatim>\<open>src/src/server/core.rs\<close>). The Unicode table behind \<^verbatim>\<open>char::is_alphanumeric\<close> is the argument \<open>alnum\<close>.
\<close>

definition DISCONNECT_GRACE_PERIOD :: int where "DISCONNECT_GRACE_PERIOD = 120"
definition WAITING_OWNER_GRACE_PERIOD :: int where "WAITING_OWNER_GRACE_PERIOD = 600"
definition ALLOWED_TURN_TIME_LIMITS :: "int list" where "ALLOWED_TURN_TIME_LIMITS = [0, 60, 90, 120, 180, 300]"
definition MIN_TIME_AFTER_WITHDRAW :: real where "MIN_TIME_AFTER_WITHDRAW = 10"
definition MAX_BOTS :: nat where "MAX_BOTS = 3"

definition VALID_LETTERS :: "str list" where
  "VALID_LETTERS =
     [[65], [193], [66], [67], [67, 83], [68], [69], [201], [70], [71], [71, 89], [72], [73], [205], [74], [75], [76],
      [76, 89], [77], [78], [78, 89], [79], [211], [214], [336], [80], [82], [83], [83, 90], [84], [84, 89], [85],
      [218], [220], [368], [86], [90], [90, 83]]"

section \<open>Names\<close>

definition is_word_char :: "(nat \<Rightarrow> bool) \<Rightarrow> nat \<Rightarrow> bool" where
  "is_word_char alnum c \<longleftrightarrow> alnum c \<or> c = 95"

definition name_char_ok :: "(nat \<Rightarrow> bool) \<Rightarrow> nat \<Rightarrow> str \<Rightarrow> bool" where
  "name_char_ok alnum c extra \<longleftrightarrow> is_word_char alnum c \<or> is_whitespace c \<or> c \<in> {46, 45} \<or> c \<in> set extra"

definition sanitize_text :: "(nat \<Rightarrow> bool) \<Rightarrow> json \<Rightarrow> str \<Rightarrow> nat \<Rightarrow> str option" where
  "sanitize_text alnum value extra max_len =
     (case as_str value of
        None \<Rightarrow> None
      | Some s \<Rightarrow>
          let txt = trim s
          in if txt = [] \<or> max_len < length txt then None
             else if list_all (\<lambda>c. name_char_ok alnum c extra) txt then Some txt else None)"

definition sanitize_name :: "(nat \<Rightarrow> bool) \<Rightarrow> json \<Rightarrow> str option" where
  "sanitize_name alnum value = sanitize_text alnum value [] 20"

definition sanitize_name_str :: "(nat \<Rightarrow> bool) \<Rightarrow> str \<Rightarrow> str option" where
  "sanitize_name_str alnum nm = sanitize_name alnum (JStr nm)"

definition sanitize_room_name :: "(nat \<Rightarrow> bool) \<Rightarrow> json \<Rightarrow> str option" where
  "sanitize_room_name alnum value = sanitize_text alnum value [33, 63] 30"

lemma trim_trim [simp]: "trim (trim s) = trim s"
proof (cases "trim s = []")
  case False
  let ?d = "dropWhile is_whitespace (rev (dropWhile is_whitespace s))"
  have t: "trim s = rev ?d" by (simp add: trim_def)
  have "?d \<noteq> []" using False t by simp
  then have l: "\<not> is_whitespace (last (trim s))" by (metis t hd_dropWhile last_rev)
  have s: "dropWhile is_whitespace s \<noteq> []" using False by (metis trim_def dropWhile.simps(1) rev.simps(1))
  obtain ys where "rev (dropWhile is_whitespace s) = ys @ ?d" by (metis takeWhile_dropWhile_id)
  then have "dropWhile is_whitespace s = rev ?d @ rev ys" by (metis rev_append rev_rev_ident)
  moreover have "rev ?d \<noteq> []" using \<open>?d \<noteq> []\<close> by (simp only: rev_is_Nil_conv not_False_eq_True)
  ultimately have "hd (dropWhile is_whitespace s) = hd (rev ?d)" by (metis hd_append2)
  then have "\<not> is_whitespace (hd (trim s))" using hd_dropWhile [OF s] t by simp
  then show ?thesis using l False by (intro trim_no_whitespace)
next
  case True
  show ?thesis unfolding True by (simp add: trim_def)
qed

text \<open>A cleaned text is clean: cleaning it again changes nothing.\<close>

lemma sanitize_text_clean:
  "sanitize_text alnum v extra n = Some s \<Longrightarrow>
     s \<noteq> [] \<and> length s \<le> n \<and> trim s = s \<and> list_all (\<lambda>c. name_char_ok alnum c extra) s \<and> sanitize_text alnum (JStr s) extra n = Some s"
  by (auto simp: sanitize_text_def Let_def split: option.splits if_splits)

section \<open>The placed tiles\<close>

text \<open>One tile of the message; the letter of a valid name exists (\<^verbatim>\<open>expect\<close>).\<close>

definition tile_input :: "json \<Rightarrow> (str, placed) outcome" where
  "tile_input t =
     (case as_object t of
        None \<Rightarrow> Fail (hu ''~Erv~enytelen adat.'')
      | Some kvs \<Rightarrow>
          (case (map_of kvs (ascii ''row'') \<bind> py_int, map_of kvs (ascii ''col'') \<bind> py_int) of
             (Some r, Some c) \<Rightarrow>
               if \<not> (0 \<le> r \<and> r \<le> 14) \<or> \<not> (0 \<le> c \<and> c \<le> 14) then Fail (hu ''Poz~ici~o a t~abl~an k~iv^ul.'')
               else let letter = (case map_of kvs (ascii ''letter'') of Some l \<Rightarrow> l | None \<Rightarrow> JStr []);
                        blank = (case map_of kvs (ascii ''is_blank'') of Some b \<Rightarrow> truthy b | None \<Rightarrow> False)
                    in (case as_str letter of
                          None \<Rightarrow> Fail (hu ''~Erv~enytelen bet&u.'')
                        | Some l \<Rightarrow>
                            if l \<notin> set VALID_LETTERS then Fail (hu ''~Erv~enytelen bet&u: '' @ l)
                            else (case from_str l of
                                    Some tile \<Rightarrow> Done (Placed (as_i32 r) (as_i32 c) tile blank)
                                  | None \<Rightarrow> Panic))
           | _ \<Rightarrow> Fail (hu ''~Erv~enytelen poz~ici~o.'')))"

fun tiles_input :: "json list \<Rightarrow> (str, placed list) outcome" where
  "tiles_input [] = Done []"
| "tiles_input (t # ts) =
     (case tile_input t of
        Fail e \<Rightarrow> Fail e
      | Panic \<Rightarrow> Panic
      | Done p \<Rightarrow> (case tiles_input ts of Fail e \<Rightarrow> Fail e | Panic \<Rightarrow> Panic | Done ps \<Rightarrow> Done (p # ps)))"

definition validate_tiles_input :: "json \<Rightarrow> (str, placed list) outcome" where
  "validate_tiles_input tiles =
     (case as_array tiles of
        Some xs \<Rightarrow> if xs \<noteq> [] \<and> length xs \<le> 7 then tiles_input xs else Fail (hu ''~Erv~enytelen lerak~as.'')
      | None \<Rightarrow> Fail (hu ''~Erv~enytelen lerak~as.''))"

lemma valid_letters_tiles: "set VALID_LETTERS = letter_of ` set letters"
  by code_simp

lemma valid_letter_tile:
  assumes "l \<in> set VALID_LETTERS" shows "\<exists>t\<in>set letters. from_str l = Some t \<and> letter_of t = l"
proof -
  obtain t where "t \<in> set letters" "l = letter_of t" using assms unfolding valid_letters_tiles by blast
  then show ?thesis using tile_facts(2) [of t] by (auto simp: set_letters)
qed

lemma valid_from_str: "l \<in> set VALID_LETTERS \<Longrightarrow> from_str l \<noteq> None"
  using valid_letter_tile by fastforce

lemma valid_from_strD: "l \<in> set VALID_LETTERS \<Longrightarrow> from_str l = Some t \<Longrightarrow> t \<in> set letters \<and> letter_of t = l"
  using valid_letter_tile by fastforce

text \<open>What a tile of an accepted message means.\<close>

definition describes :: "json \<Rightarrow> placed \<Rightarrow> bool" where
  "describes v p \<longleftrightarrow>
     (jget v (ascii ''row'') \<bind> py_int) = Some (p_row p) \<and> (jget v (ascii ''col'') \<bind> py_int) = Some (p_col p)
     \<and> p_row p \<in> {0..14} \<and> p_col p \<in> {0..14} \<and> p_letter p \<in> set letters
     \<and> (jget v (ascii ''letter'') \<bind> as_str) = Some (letter_of (p_letter p))
     \<and> (p_blank p \<longleftrightarrow> (case jget v (ascii ''is_blank'') of Some b \<Rightarrow> truthy b | None \<Rightarrow> False))"

lemma as_object_jget: "as_object v = Some kvs \<Longrightarrow> map_of kvs k = jget v k"
  by (cases v) auto

lemma as_object_None: "as_object v = None \<Longrightarrow> jget v k = None"
  by (cases v) auto

lemma small_i32: "0 \<le> n \<Longrightarrow> n \<le> 14 \<Longrightarrow> as_i32 n = n"
  by (rule as_i32_id) (simp add: fits_i32_def)

lemma empty_not_valid: "[] \<notin> set VALID_LETTERS"
  by (simp add: VALID_LETTERS_def)

lemma tile_input_no_panic: "tile_input t \<noteq> Panic"
  by (auto simp: tile_input_def Let_def dest: valid_from_str split: option.splits)

lemma tile_input_iff: "tile_input v = Done p \<longleftrightarrow> describes v p"
proof
  assume r: "tile_input v = Done p"
  then obtain kvs where k: "as_object v = Some kvs" by (auto simp: tile_input_def split: option.splits)
  note look = as_object_jget [OF k]
  from r k show "describes v p"
    using empty_not_valid
    by (auto simp: tile_input_def Let_def look describes_def small_i32 dest: valid_from_strD split: option.splits if_splits)
next
  assume d: "describes v p"
  then obtain kvs where k: "as_object v = Some kvs"
    by (cases "as_object v") (auto simp: describes_def as_object_None)
  note look = as_object_jget [OF k]
  have "letter_of (p_letter p) \<in> set VALID_LETTERS" "from_str (letter_of (p_letter p)) = Some (p_letter p)"
    using d tile_facts(2) [of "p_letter p"] unfolding valid_letters_tiles describes_def by (auto simp: set_letters)
  then show "tile_input v = Done p"
    using d k by (cases p) (auto simp: tile_input_def Let_def look describes_def small_i32 split: option.splits)
qed

lemma tiles_input_iff: "tiles_input vs = Done ps \<longleftrightarrow> list_all2 describes vs ps"
proof (induction vs arbitrary: ps)
  case (Cons v vs)
  have "tiles_input (v # vs) = Done ps \<longleftrightarrow> (\<exists>p qs. ps = p # qs \<and> tile_input v = Done p \<and> tiles_input vs = Done qs)"
    by (auto split: outcome.split)
  then show ?case by (simp only: tile_input_iff Cons.IH list_all2_Cons1)
qed auto

lemma tiles_input_no_panic: "tiles_input vs \<noteq> Panic"
  by (induction vs) (auto simp: tile_input_no_panic split: outcome.splits)

text \<open>
  C34. The check of a placement message never panics; it accepts exactly the lists of one to seven tiles that
  describe a square of the board, a letter of the set (never the blank itself) and the blank flag, and hands
  exactly these tiles on, in their order.
\<close>

theorem validated_tiles_exact:
  "validate_tiles_input v \<noteq> Panic
   \<and> (validate_tiles_input v = Done ps \<longleftrightarrow>
        (\<exists>vs. v = JArr vs \<and> 1 \<le> length vs \<and> length vs \<le> 7 \<and> list_all2 describes vs ps))"
proof -
  have arr: "as_array v = Some vs \<longleftrightarrow> v = JArr vs" for vs by (cases v) auto
  show ?thesis
    unfolding validate_tiles_input_def
    by (cases "as_array v") (auto simp: arr tiles_input_no_panic tiles_input_iff Suc_le_eq)
qed

section \<open>Bots\<close>

definition bot_tier :: "difficulty option \<Rightarrow> str" where
  "bot_tier d =
     (let level = (case d \<bind> difficulty_level of Some l \<Rightarrow> l | None \<Rightarrow> DEFAULT_LEVEL)
      in if level \<le> 3 then ascii ''easy'' else if level \<le> 7 then ascii ''medium'' else ascii ''hard'')"

definition think_delay :: "str \<Rightarrow> real \<times> real" where
  "think_delay tier =
     (if tier = ascii ''easy'' then (1.5, 3) else if tier = ascii ''medium'' then (1.2, 2.6) else (1, 2.2))"

definition bot_name_pool :: "str \<Rightarrow> str list" where
  "bot_name_pool tier =
     (if tier = ascii ''easy'' then [ascii ''Robi'', ascii ''Rozi'', ascii ''Rudi'']
      else if tier = ascii ''medium'' then [ascii ''Rita'', ascii ''Ricsi'', hu ''R~eka'']
      else [hu ''Rezs&o'', hu ''R~obert'', hu ''R~ome~o''])"

text \<open>
  The search for a number that makes a name new, shared with the names of the correspondence games. It ends: the
  numbered names differ, and only finitely many are taken.
\<close>

lemma numbers_left:
  assumes "inj name_of" "name_of n \<in> set taken"
  shows "card {m. Suc n \<le> m \<and> name_of m \<in> set taken} < card {m. n \<le> m \<and> name_of m \<in> set taken}"
proof -
  have fin: "finite {m. n \<le> m \<and> name_of m \<in> set taken}"
    by (rule finite_subset [of _ "name_of -` set taken"]) (auto intro: finite_vimageI [OF _ assms(1)])
  have "{m. Suc n \<le> m \<and> name_of m \<in> set taken} = {m. n \<le> m \<and> name_of m \<in> set taken} - {n}" by auto
  then show ?thesis using fin assms(2) by (simp add: card_Diff1_less del: card_Diff_insert)
qed

lemma lower_digits: "list_all is_digit s \<Longrightarrow> to_lowercase s = s"
  by (induction s) (auto simp: to_lowercase_def lower_char_def is_digit_def)

lemma lower_append: "to_lowercase (s @ t) = to_lowercase s @ to_lowercase t"
  by (simp add: to_lowercase_def)

definition casefold :: "str \<Rightarrow> str" where
  "casefold s = to_lowercase s"

definition numbered_bot :: "str \<Rightarrow> nat \<Rightarrow> str" where
  "numbered_bot nm n = nm @ ascii '' '' @ show_nat n"

lemma numbered_bot_inj: "inj (\<lambda>n. casefold (numbered_bot nm n))"
  by (rule injI) (simp add: casefold_def numbered_bot_def lower_append lower_digits show_nat_digits(1))

function free_bot_number :: "str \<Rightarrow> str list \<Rightarrow> nat \<Rightarrow> nat" where
  "free_bot_number nm taken n =
     (if casefold (numbered_bot nm n) \<in> set taken then free_bot_number nm taken (n + 1) else n)"
  by auto
termination
  by (relation "measure (\<lambda>(nm, taken, n). card {m. n \<le> m \<and> casefold (numbered_bot nm m) \<in> set taken})")
    (use numbers_left [OF numbered_bot_inj] in auto)

declare free_bot_number.simps [simp del]

definition bot_name :: "game \<Rightarrow> difficulty option \<Rightarrow> str" where
  "bot_name g d =
     (let taken = map (\<lambda>p. casefold (player_name p)) (players g); pool = bot_name_pool (bot_tier d)
      in case List.find (\<lambda>nm. casefold nm \<notin> set taken) pool of
           Some nm \<Rightarrow> nm
         | None \<Rightarrow> numbered_bot (hd pool) (free_bot_number (hd pool) taken 2))"

lemma free_bot_number_free: "casefold (numbered_bot nm (free_bot_number nm taken n)) \<notin> set taken"
  by (induction nm taken n rule: free_bot_number.induct) (subst free_bot_number.simps, simp)

text \<open>The name of a new bot is nobody's name, whatever the case of the letters.\<close>

lemma bot_name_new: "p \<in> set (players g) \<Longrightarrow> casefold (bot_name g d) \<noteq> casefold (player_name p)"
  using free_bot_number_free [of "hd (bot_name_pool (bot_tier d))" "map (\<lambda>p. casefold (player_name p)) (players g)" 2]
  by (auto simp: bot_name_def Let_def find_Some_iff split: option.split)

definition bot_should_move :: "room \<Rightarrow> bool" where
  "bot_should_move r \<longleftrightarrow>
     (let g = room_game r
      in if \<not> started g \<or> finished g \<or> pending_challenge g \<noteq> None then False
         else case current_player g of
                None \<Rightarrow> False
              | Some p \<Rightarrow> is_bot p \<and> (has_connected_human g \<or> spectators r \<noteq> []))"

end
