(* ===== verification/Moderation.thy ===== *)
theory Moderation
  imports Room "HOL-Library.Product_Lexorder"
begin

text \<open>
  The banned words of the chat and the reports of the players (the part of
  \<^verbatim>\<open>src/src/admin/moderation.rs\<close> the game server uses). \<^verbatim>\<open>fold\<close> decomposes a character with the tables of the
  crate \<^verbatim>\<open>unicode-normalization\<close>: the folding of one character is the argument \<open>fold_char\<close>.
\<close>

definition MAX_REPORT_REASON :: nat where "MAX_REPORT_REASON = 300"
definition MAX_REPORT_MESSAGE :: nat where "MAX_REPORT_MESSAGE = 200"
definition SNAPSHOT_CHAT_LINES :: nat where "SNAPSHOT_CHAT_LINES = 15"
definition REPORT_KINDS :: "str list" where "REPORT_KINDS = [ascii ''player'', ascii ''chat'']"

text \<open>The folded characters, each with the place of its character in the text.\<close>

fun folded_from :: "(nat \<Rightarrow> str) \<Rightarrow> nat \<Rightarrow> str \<Rightarrow> (nat \<times> nat) list" where
  "folded_from fold_char i [] = []"
| "folded_from fold_char i (c # cs) = map (\<lambda>x. (x, i)) (fold_char c) @ folded_from fold_char (Suc i) cs"

definition fold_with_map :: "(nat \<Rightarrow> str) \<Rightarrow> str \<Rightarrow> str \<times> nat list" where
  "fold_with_map fold_char msg =
     (map fst (folded_from fold_char 0 msg), map snd (folded_from fold_char 0 msg))"

definition word_spans :: "str \<Rightarrow> nat list \<Rightarrow> str \<Rightarrow> (nat \<times> nat) list" where
  "word_spans folded places needle =
     (if needle = [] \<or> length folded < length needle then []
      else map (\<lambda>start. (places ! start, places ! (start + length needle - 1) + 1))
             (filter (\<lambda>start. take (length needle) (drop start folded) = needle) [0..<length folded - length needle + 1]))"

text \<open>Overlapping and touching spans become one.\<close>

fun merge_spans :: "(nat \<times> nat) list \<Rightarrow> (nat \<times> nat) list" where
  "merge_spans ((a, b) # (c, d) # rest) =
     (if c \<le> b then merge_spans ((a, max b d) # rest) else (a, b) # merge_spans ((c, d) # rest))"
| "merge_spans xs = xs"

definition find_banned :: "(nat \<Rightarrow> str) \<Rightarrow> str list \<Rightarrow> str \<Rightarrow> (nat \<times> nat) list" where
  "find_banned fold_char ws msg =
     (if ws = [] then []
      else case fold_with_map fold_char msg of (folded, places) \<Rightarrow> merge_spans (sort (concat (map (word_spans folded places) ws))))"

definition contains_banned :: "(nat \<Rightarrow> str) \<Rightarrow> str list \<Rightarrow> str \<Rightarrow> bool" where
  "contains_banned fold_char ws msg \<longleftrightarrow> find_banned fold_char ws msg \<noteq> []"

definition STAR :: nat where "STAR = 42"

definition star_span :: "nat \<times> nat \<Rightarrow> str \<Rightarrow> str" where
  "star_span = (\<lambda>(start, stop) chars. map (\<lambda>(i, c). if start \<le> i \<and> i < stop then STAR else c) (List.enumerate 0 chars))"

definition mask_banned :: "(nat \<Rightarrow> str) \<Rightarrow> str list \<Rightarrow> str \<Rightarrow> str \<times> bool" where
  "mask_banned fold_char ws msg =
     (let spans = find_banned fold_char ws msg
      in if spans = [] then (msg, False) else (fold star_span spans msg, True))"

definition filter_chat :: "(nat \<Rightarrow> str) \<Rightarrow> str list \<Rightarrow> bool \<Rightarrow> str \<Rightarrow> str option \<times> bool" where
  "filter_chat fold_char ws drop_it msg =
     (case mask_banned fold_char ws msg of
        (masked, flagged) \<Rightarrow>
          if \<not> flagged then (Some msg, False) else if drop_it then (None, True) else (Some masked, True))"

section \<open>Reports\<close>

record report_row =
  reporter_id :: int
  reporter_name :: str
  reported_user :: "int option"
  reported_name :: str
  report_kind :: str
  report_text :: str
  report_reason :: str
  report_room :: str
  report_room_name :: str
  report_snapshot :: json

text \<open>The row of a valid report (\<^verbatim>\<open>create_report\<close> without the insertion); the snapshot holds the end of the chat.\<close>

definition report_snapshot_of :: "room \<Rightarrow> json" where
  "report_snapshot_of r =
     JObj [(ascii ''players'', JArr (map (\<lambda>p. JObj [(ascii ''name'', JStr (player_name p)), (ascii ''is_bot'', JBool (is_bot p)),
              (ascii ''score'', JInt (score p))]) (players (room_game r)))),
           (ascii ''chat'', JArr (drop (length (chat_messages r) - SNAPSHOT_CHAT_LINES) (chat_messages r))),
           (ascii ''turn'', JInt (turn_number (room_game r)))]"

definition report_row_of ::
  "int \<Rightarrow> str \<Rightarrow> int option \<Rightarrow> str \<Rightarrow> json \<Rightarrow> json \<Rightarrow> json \<Rightarrow> room \<Rightarrow> report_row option" where
  "report_row_of rid rname target tname kind msg reason r =
     (case as_str kind of
        None \<Rightarrow> None
      | Some k \<Rightarrow>
          let why = (case as_str reason of Some s \<Rightarrow> trim s | None \<Rightarrow> []);
              said = (case as_str msg of Some s \<Rightarrow> trim s | None \<Rightarrow> [])
          in if k \<notin> set REPORT_KINDS \<or> MAX_REPORT_REASON < length why then None
             else if k = ascii ''chat'' \<and> (said = [] \<or> MAX_REPORT_MESSAGE < length said) then None
             else Some \<lparr>reporter_id = rid, reporter_name = rname, reported_user = target, reported_name = tname,
                    report_kind = k, report_text = (if k = ascii ''player'' then [] else said), report_reason = why,
                    report_room = room_id r, report_room_name = room_name r, report_snapshot = report_snapshot_of r\<rparr>)"

section \<open>What is found\<close>

lemma folded_from_fst: "map fst (folded_from f i cs) = concat (map f cs)"
  by (induction cs arbitrary: i) (auto simp: comp_def)

lemma folded_from_append: "folded_from f i (xs @ ys) = folded_from f i xs @ folded_from f (i + length xs) ys"
  by (induction xs arbitrary: i) auto

text \<open>A place in the folded text lies in the folding of one character.\<close>

lemma folded_split:
  assumes "p < length (folded_from f i cs)"
  shows "\<exists>k. k < length cs \<and> snd (folded_from f i cs ! p) = i + k
    \<and> length (folded_from f i (take k cs)) \<le> p \<and> p < length (folded_from f i (take (Suc k) cs))"
  using assms
proof (induction cs arbitrary: i p)
  case (Cons c cs)
  show ?case
  proof (cases "p < length (f c)")
    case True
    then show ?thesis by (intro exI [of _ 0]) (simp add: nth_append)
  next
    case False
    let ?q = "p - length (f c)"
    have "?q < length (folded_from f (Suc i) cs)" using Cons.prems False by simp
    from Cons.IH [OF this] obtain k where k: "k < length cs" "snd (folded_from f (Suc i) cs ! ?q) = Suc i + k"
      "length (folded_from f (Suc i) (take k cs)) \<le> ?q" "?q < length (folded_from f (Suc i) (take (Suc k) cs))"
      by blast
    then show ?thesis using False by (intro exI [of _ "Suc k"]) (auto simp: nth_append)
  qed
qed simp

lemma folded_length: "length (folded_from f i cs) = length (concat (map f cs))"
  by (metis folded_from_fst length_map)

text \<open>
  The occurrences of a word are the slices of the text whose folding holds the word, with something of the
  word in the folding of the first and of the last character.
\<close>

definition hides :: "(nat \<Rightarrow> str) \<Rightarrow> str \<Rightarrow> str \<Rightarrow> bool" where
  "hides f w ys \<longleftrightarrow> (\<exists>pre post. concat (map f ys) = pre @ w @ post \<and> ys \<noteq> []
     \<and> length pre < length (f (hd ys)) \<and> length post < length (f (last ys)))"

definition slice :: "nat \<Rightarrow> nat \<Rightarrow> 'a list \<Rightarrow> 'a list" where
  "slice a b xs = take (b - a) (drop a xs)"

abbreviation cut :: "(nat \<Rightarrow> str) \<Rightarrow> str \<Rightarrow> nat \<Rightarrow> nat" where
  "cut f msg k \<equiv> length (concat (map f (take k msg)))"

lemma cut_mono: "a \<le> b \<Longrightarrow> cut f msg a \<le> cut f msg b"
proof -
  assume "a \<le> b"
  then obtain d where "b = a + d" using le_Suc_ex by blast
  then show ?thesis by (simp add: take_add)
qed

lemma cut_Suc: "k < length msg \<Longrightarrow> cut f msg (Suc k) = cut f msg k + length (f (msg ! k))"
  by (simp add: take_Suc_conv_app_nth)

lemma place_iff:
  assumes "p < length (concat (map f msg))" "k < length msg"
  shows "snd (folded_from f 0 msg ! p) = k \<longleftrightarrow> cut f msg k \<le> p \<and> p < cut f msg (Suc k)"
proof -
  obtain j where j: "j < length msg" "snd (folded_from f 0 msg ! p) = j" "cut f msg j \<le> p" "p < cut f msg (Suc j)"
    using folded_split [of p f 0 msg] assms(1) by (auto simp: folded_length)
  have "j = k" if "cut f msg k \<le> p" "p < cut f msg (Suc k)"
  proof (rule ccontr)
    assume "j \<noteq> k"
    then consider "Suc j \<le> k" | "Suc k \<le> j" by linarith
    then show False using cut_mono [of "Suc j" k f msg] cut_mono [of "Suc k" j f msg] j that by cases linarith+
  qed
  then show ?thesis using j by blast
qed

lemma place_bound: "p < length (concat (map f msg)) \<Longrightarrow> snd (folded_from f 0 msg ! p) < length msg"
  using folded_split [of p f 0 msg] by (auto simp: folded_length)

lemma slice_parts:
  assumes "a < b" "b \<le> length msg"
  shows "msg = take a msg @ slice a b msg @ drop b msg" "length (slice a b msg) = b - a"
    "hd (slice a b msg) = msg ! a" "last (slice a b msg) = msg ! (b - 1)"
proof -
  show l: "length (slice a b msg) = b - a" using assms by (simp add: slice_def)
  have "take b msg = take a msg @ slice a b msg" using assms by (metis slice_def add_diff_inverse less_imp_le_nat not_less take_add)
  then show "msg = take a msg @ slice a b msg @ drop b msg" by (metis append.assoc append_take_drop_id)
  show "hd (slice a b msg) = msg ! a" using assms by (simp add: slice_def hd_conv_nth hd_drop_conv_nth)
  have "slice a b msg \<noteq> []" using l assms by auto
  then show "last (slice a b msg) = msg ! (b - 1)" using l assms by (simp add: last_conv_nth slice_def)
qed

lemma slice_folded:
  assumes "a < b" "b \<le> length msg"
  shows "\<exists>rest. concat (map f msg) = concat (map f (take a msg)) @ concat (map f (slice a b msg)) @ rest"
    "length (concat (map f (slice a b msg))) = cut f msg b - cut f msg a"
proof -
  show "\<exists>rest. concat (map f msg) = concat (map f (take a msg)) @ concat (map f (slice a b msg)) @ rest"
    by (metis slice_parts(1) [OF assms] map_append concat_append)
  have "take b msg = take a msg @ slice a b msg" using assms by (metis slice_def add_diff_inverse less_imp_le_nat not_less take_add)
  then show "length (concat (map f (slice a b msg))) = cut f msg b - cut f msg a" by simp
qed

lemma word_spans_mem:
  "(a, b) \<in> set (word_spans folded places w) \<longleftrightarrow>
     w \<noteq> [] \<and> (\<exists>start. start + length w \<le> length folded \<and> take (length w) (drop start folded) = w
        \<and> a = places ! start \<and> b = places ! (start + length w - 1) + 1)"
proof (cases "w = [] \<or> length folded < length w")
  case False
  have "x < length folded - length w + 1 \<longleftrightarrow> x + length w \<le> length folded" for x using False by linarith
  then show ?thesis using False by (auto simp: word_spans_def simp del: upt_Suc)
qed (auto simp: word_spans_def)

lemma spans_hide:
  assumes "(a, b) \<in> set (word_spans (map fst (folded_from f 0 msg)) (map snd (folded_from f 0 msg)) w)"
  shows "a < b \<and> b \<le> length msg \<and> hides f w (slice a b msg)"
proof -
  let ?F = "concat (map f msg)" let ?n = "length w"
  obtain start where w: "w \<noteq> []" "take ?n (drop start ?F) = w" "start + ?n \<le> length ?F"
    and ab: "a = snd (folded_from f 0 msg ! start)" "b = snd (folded_from f 0 msg ! (start + ?n - 1)) + 1"
  proof -
    obtain start where st: "w \<noteq> []" "start + ?n \<le> length ?F" "take ?n (drop start ?F) = w"
      "a = map snd (folded_from f 0 msg) ! start" "b = map snd (folded_from f 0 msg) ! (start + ?n - 1) + 1"
      using assms by (auto simp: word_spans_mem folded_from_fst)
    moreover have "start < length ?F" "start + ?n - 1 < length ?F" using st(1,2) by (cases w; simp)+
    ultimately show ?thesis using that [of start] by (simp add: folded_length)
  qed
  let ?e = "start + ?n - 1"
  have n: "0 < ?n" using w(1) by simp
  have p: "start < length ?F" "?e < length ?F" using w(3) n by linarith+
  have ka: "a < length msg" and kb: "b - 1 < length msg" using place_bound p ab by auto
  have ca: "cut f msg a \<le> start" "start < cut f msg (Suc a)" using place_iff [OF p(1) ka] ab by auto
  have cb: "cut f msg (b - 1) \<le> ?e" "?e < cut f msg (Suc (b - 1))" using place_iff [OF p(2) kb] ab by auto
  have "a \<le> b - 1"
  proof (rule ccontr)
    assume "\<not> a \<le> b - 1"
    then have "cut f msg (Suc (b - 1)) \<le> cut f msg a" by (intro cut_mono) simp
    then show False using ca cb n by linarith
  qed
  then have lt: "a < b" "b \<le> length msg" "Suc (b - 1) = b" using ab kb by auto
  let ?G = "concat (map f (slice a b msg))" let ?off = "start - cut f msg a"
  obtain rest where F: "?F = concat (map f (take a msg)) @ ?G @ rest" using slice_folded(1) [OF lt(1,2)] by blast
  have G: "length ?G = cut f msg b - cut f msg a" by (rule slice_folded(2) [OF lt(1,2)])
  have fits: "?off + ?n \<le> length ?G" using ca cb n G lt(3) by simp
  have "drop start ?F = drop ?off (?G @ rest)" using ca(1) by (simp add: F)
  then have "take ?n (drop ?off ?G) = w" using w(2) fits by (simp add: F)
  then have parts: "?G = take ?off ?G @ w @ drop (?off + ?n) ?G"
    by (metis append_take_drop_id drop_drop add.commute)
  have "length (take ?off ?G) < length (f (hd (slice a b msg)))"
    using ca fits cut_Suc [OF ka, of f] slice_parts(3) [OF lt(1,2)] by simp
  moreover have "length (drop (?off + ?n) ?G) < length (f (last (slice a b msg)))"
  proof -
    have c: "cut f msg b = cut f msg (b - 1) + length (f (msg ! (b - 1)))" using cut_Suc [OF kb, of f] lt(3) by simp
    have "length (drop (?off + ?n) ?G) = cut f msg b - (start + ?n)" using G ca(1) fits by simp
    then have "length (drop (?off + ?n) ?G) < length (f (msg ! (b - 1)))" using c cb [unfolded lt(3)] n by linarith
    then show ?thesis unfolding slice_parts(4) [OF lt(1,2)] .
  qed
  moreover have "slice a b msg \<noteq> []" using slice_parts(2) [OF lt(1,2)] lt(1) by auto
  ultimately show ?thesis using lt(1,2) parts unfolding hides_def by blast
qed

lemma hidden_spans:
  assumes lt: "a < b" "b \<le> length msg" and hid: "hides f w (slice a b msg)" and w: "w \<noteq> []"
  shows "(a, b) \<in> set (word_spans (map fst (folded_from f 0 msg)) (map snd (folded_from f 0 msg)) w)"
proof -
  let ?F = "concat (map f msg)" let ?n = "length w" let ?G = "concat (map f (slice a b msg))"
  obtain pre post where G: "?G = pre @ w @ post" and pp: "length pre < length (f (hd (slice a b msg)))"
      "length post < length (f (last (slice a b msg)))" using hid by (auto simp: hides_def)
  obtain rest where F: "?F = concat (map f (take a msg)) @ ?G @ rest" using slice_folded(1) [OF lt] by blast
  let ?start = "cut f msg a + length pre" let ?e = "?start + ?n - 1"
  have n: "0 < ?n" using w by simp
  have len: "cut f msg b - cut f msg a = length pre + ?n + length post" using slice_folded(2) [OF lt, of f] G by simp
  have mono: "cut f msg a \<le> cut f msg b" using lt(1) by (intro cut_mono) simp
  have bound: "cut f msg b \<le> length ?F" using cut_mono [OF lt(2), of f msg] by simp
  have p: "?start < length ?F" "?e < length ?F" "?start + ?n \<le> length ?F" using len n bound mono by linarith+
  have occ: "take ?n (drop ?start ?F) = w" by (simp add: F G)
  have a: "snd (folded_from f 0 msg ! ?start) = a"
    using place_iff [OF p(1), of a] lt pp(1) cut_Suc [of a msg f] slice_parts(3) [OF lt] by simp
  have "cut f msg b = cut f msg (b - 1) + length (f (msg ! (b - 1)))" using cut_Suc [of "b - 1" msg f] lt by simp
  then have "cut f msg (b - 1) + length post < cut f msg b" using pp(2) slice_parts(4) [OF lt] by simp
  moreover have sb: "Suc (b - 1) = b" using lt(1) by simp
  ultimately have "cut f msg (b - 1) \<le> ?e \<and> ?e < cut f msg (Suc (b - 1))"
    unfolding sb using len mono n by linarith
  then have b: "snd (folded_from f 0 msg ! ?e) = b - 1" using place_iff [OF p(2), of "b - 1"] lt by simp
  show ?thesis
    unfolding word_spans_mem folded_from_fst using w p occ a b lt(1)
    by (intro conjI exI [of _ ?start]) (simp_all add: folded_length)
qed

section \<open>What is masked\<close>

definition covered :: "(nat \<times> nat) list \<Rightarrow> nat \<Rightarrow> bool" where
  "covered xs i \<longleftrightarrow> (\<exists>(a, b)\<in>set xs. a \<le> i \<and> i < b)"

lemma covered_Cons: "covered (x # xs) i \<longleftrightarrow> fst x \<le> i \<and> i < snd x \<or> covered xs i"
  by (cases x) (auto simp: covered_def)

lemma merge_spans_covered:
  "sorted (map fst xs) \<Longrightarrow> \<forall>(a, b)\<in>set xs. a < b \<Longrightarrow> covered (merge_spans xs) i \<longleftrightarrow> covered xs i"
proof (induction xs rule: merge_spans.induct)
  case (1 a b c d rest)
  have ac: "a \<le> c" "c < d" using "1.prems" by auto
  show ?case
  proof (cases "c \<le> b")
    case True
    have "covered (merge_spans ((a, max b d) # rest)) i \<longleftrightarrow> covered ((a, max b d) # rest) i"
      using 1(1) [OF True] "1.prems" ac by auto
    then show ?thesis using True ac by (auto simp: covered_Cons)
  next
    case False
    then show ?thesis using 1(2) [OF False] "1.prems" by (auto simp: covered_Cons)
  qed
qed auto

lemma merge_spans_Nil: "merge_spans xs = [] \<longleftrightarrow> xs = []"
  by (induction xs rule: merge_spans.induct) auto

text \<open>The places of the banned words.\<close>

definition bad_place :: "(nat \<Rightarrow> str) \<Rightarrow> str list \<Rightarrow> str \<Rightarrow> nat \<Rightarrow> bool" where
  "bad_place f ws msg i \<longleftrightarrow>
     (\<exists>w\<in>set ws. w \<noteq> [] \<and> (\<exists>a b. a \<le> i \<and> i < b \<and> b \<le> length msg \<and> hides f w (slice a b msg)))"

lemma find_banned_covered: "covered (find_banned f ws msg) i \<longleftrightarrow> bad_place f ws msg i"
  and find_banned_Nil: "find_banned f ws msg = [] \<longleftrightarrow> (\<forall>i. \<not> bad_place f ws msg i)"
proof -
  let ?sp = "\<lambda>w. word_spans (map fst (folded_from f 0 msg)) (map snd (folded_from f 0 msg)) w"
  let ?all = "sort (concat (map ?sp ws))"
  have eq: "find_banned f ws msg = merge_spans ?all"
    by (cases ws) (simp_all add: find_banned_def fold_with_map_def)
  have good: "\<forall>(a, b)\<in>set ?all. a < b"
  proof
    fix x assume "x \<in> set ?all"
    then obtain w where "x \<in> set (?sp w)" by auto
    then show "case x of (a, b) \<Rightarrow> a < b" using spans_hide [of "fst x" "snd x" f msg w] by (cases x) auto
  qed
  have so: "sorted (map fst ?all)"
    unfolding sorted_map by (rule sorted_wrt_mono_rel [OF _ sorted_sort]) (auto simp: less_eq_prod_def)
  have mem: "(a, b) \<in> set ?all \<longleftrightarrow> (\<exists>w\<in>set ws. w \<noteq> [] \<and> a < b \<and> b \<le> length msg \<and> hides f w (slice a b msg))" for a b
    using spans_hide [of a b f msg] hidden_spans [of a b msg f] by (auto simp: word_spans_mem)
  have cov: "covered ?all j \<longleftrightarrow> bad_place f ws msg j" for j
  proof
    assume "covered ?all j"
    then obtain a b where "(a, b) \<in> set ?all" "a \<le> j" "j < b" by (auto simp: covered_def)
    then show "bad_place f ws msg j" unfolding mem bad_place_def by blast
  next
    assume "bad_place f ws msg j"
    then obtain w a b where "w \<in> set ws" "w \<noteq> []" "a \<le> j" "j < b" "b \<le> length msg" "hides f w (slice a b msg)"
      by (auto simp: bad_place_def)
    moreover from this have "a < b" by simp
    ultimately have "(a, b) \<in> set ?all" unfolding mem by blast
    then show "covered ?all j" using \<open>a \<le> j\<close> \<open>j < b\<close> unfolding covered_def by blast
  qed
  show "covered (find_banned f ws msg) i \<longleftrightarrow> bad_place f ws msg i"
    unfolding eq merge_spans_covered [OF so good] by (rule cov)
  have "?all = [] \<longleftrightarrow> (\<forall>i. \<not> covered ?all i)"
    using good by (cases ?all) (auto simp: covered_def)
  then show "find_banned f ws msg = [] \<longleftrightarrow> (\<forall>i. \<not> bad_place f ws msg i)" unfolding eq merge_spans_Nil cov .
qed

lemma star_span_nth: "i < length cs \<Longrightarrow> star_span x cs ! i = (if fst x \<le> i \<and> i < snd x then STAR else cs ! i)"
  by (cases x) (simp add: star_span_def nth_enumerate_eq)

lemma star_span_length [simp]: "length (star_span x cs) = length cs"
  by (cases x) (simp add: star_span_def)

lemma star_spans: "length (fold star_span xs cs) = length cs \<and>
    (\<forall>i<length cs. fold star_span xs cs ! i = (if covered xs i then STAR else cs ! i))"
  by (induction xs arbitrary: cs) (auto simp: covered_Cons star_span_nth, simp add: covered_def)

lemma mask_banned_eq:
  "length (fst (mask_banned f ws msg)) = length msg
   \<and> (\<forall>i<length msg. fst (mask_banned f ws msg) ! i = (if bad_place f ws msg i then STAR else msg ! i))
   \<and> (snd (mask_banned f ws msg) \<longleftrightarrow> contains_banned f ws msg)"
  using star_spans [of "find_banned f ws msg" msg] find_banned_Nil [of f ws msg]
  by (auto simp: mask_banned_def contains_banned_def Let_def find_banned_covered)

lemma star_in_word:
  assumes hid: "hides f w ys" and star: "STAR \<in> set ys" "f STAR = [STAR]" and w: "w \<noteq> []"
  shows "STAR \<in> set w"
proof -
  obtain pre post where G: "concat (map f ys) = pre @ w @ post" and pp: "length pre < length (f (hd ys))"
      "length post < length (f (last ys))" using hid by (auto simp: hides_def)
  obtain xs zs where ys: "ys = xs @ [STAR] @ zs" using star(1) by (metis append_Cons append_Nil in_set_conv_decomp)
  let ?x = "concat (map f xs)" and ?z = "concat (map f zs)"
  have G2: "pre @ w @ post = ?x @ [STAR] @ ?z" using G by (simp add: ys star(2))
  have px: "length pre \<le> length ?x"
    using pp(1) by (cases xs) (auto simp: ys star(2))
  have pz: "length post \<le> length ?z"
  proof (cases zs rule: rev_cases)
    case Nil then show ?thesis using pp(2) by (simp add: ys star(2))
  next
    case (snoc vs v) then show ?thesis using pp(2) by (simp add: ys)
  qed
  have len: "length pre + length w + length post = length ?x + 1 + length ?z" using arg_cong [OF G2, of length] by simp
  have "(pre @ w @ post) ! length ?x = STAR" unfolding G2 by (simp add: nth_append)
  then have "w ! (length ?x - length pre) = STAR" using px pz len by (simp add: nth_append split: if_splits)
  moreover have "length ?x - length pre < length w" using px pz len by linarith
  ultimately show ?thesis by (metis nth_mem)
qed

lemma slice_nth: "a \<le> i \<Longrightarrow> i < b \<Longrightarrow> b \<le> length xs \<Longrightarrow> slice a b xs ! (i - a) = xs ! i"
  by (simp add: slice_def)

lemma slice_cong:
  assumes "length xs = length ys" "b \<le> length xs" "\<And>i. a \<le> i \<Longrightarrow> i < b \<Longrightarrow> xs ! i = ys ! i"
  shows "slice a b xs = slice a b ys"
  using assms by (intro nth_equalityI) (auto simp: slice_def)

text \<open>
  C35. The chat filter: a message that passes holds no banned word, in any case of its letters and with any
  accents; it has the length of the original and differs from it exactly by stars at the places of the banned
  words; it is marked, or dropped, exactly when it held one. The hypotheses: a star is its own folding, and the
  banned words hold no star.
\<close>

theorem filtered_chat_is_clean:
  fixes msg :: str
  assumes star: "fold_char STAR = [STAR]" "\<forall>w\<in>set ws. STAR \<notin> set w"
  defines "dirty \<equiv> contains_banned fold_char ws msg"
  shows "snd (filter_chat fold_char ws drop_it msg) = dirty
    \<and> (fst (filter_chat fold_char ws drop_it msg) = None \<longleftrightarrow> dirty \<and> drop_it)
    \<and> (\<forall>out. fst (filter_chat fold_char ws drop_it msg) = Some out \<longrightarrow>
         \<not> contains_banned fold_char ws out \<and> length out = length msg
         \<and> (\<forall>i<length msg. out ! i = (if bad_place fold_char ws msg i then STAR else msg ! i)))"
proof -
  let ?m = "fst (mask_banned fold_char ws msg)"
  note eq = mask_banned_eq [of fold_char ws msg]
  have same: "?m = msg" if "\<not> dirty"
    using that by (simp add: dirty_def contains_banned_def mask_banned_def)
  have "\<not> bad_place fold_char ws ?m i" for i
  proof
    assume "bad_place fold_char ws ?m i"
    then obtain w a b where w: "w \<in> set ws" "w \<noteq> []" and ab: "a \<le> i" "i < b" "b \<le> length ?m" and hid: "hides fold_char w (slice a b ?m)"
      by (auto simp: bad_place_def)
    have nostar: "STAR \<notin> set (slice a b ?m)" using star_in_word [OF hid _ star(1) w(2)] star(2) w(1) by blast
    have keep: "?m ! j = msg ! j \<and> \<not> bad_place fold_char ws msg j" if "a \<le> j" "j < b" for j
    proof -
      have "?m ! j \<in> set (slice a b ?m)"
        using slice_nth [OF that ab(3)] that ab(3) by (metis diff_less_mono length_take length_drop min.absorb2 nth_mem slice_def diff_le_mono)
      then have "?m ! j \<noteq> STAR" using nostar by metis
      then show ?thesis using eq that ab(3) by (metis order_less_le_trans)
    qed
    have "slice a b ?m = slice a b msg" by (rule slice_cong) (use eq ab(3) keep in auto)
    then have "bad_place fold_char ws msg i" unfolding bad_place_def using w ab hid eq by metis
    then show False using keep ab by blast
  qed
  then have "find_banned fold_char ws ?m = []" unfolding find_banned_Nil by blast
  then have clean: "\<not> contains_banned fold_char ws ?m" by (simp add: contains_banned_def)
  have flag: "snd (mask_banned fold_char ws msg) = dirty" using eq by (simp add: dirty_def)
  show ?thesis
    using clean flag same eq by (auto simp: filter_chat_def case_prod_beta)
qed

lemma filtered_chat_is_clean_witness:
  "\<not> contains_banned (\<lambda>c. [c]) [[97, 98]] (the (fst (filter_chat (\<lambda>c. [c]) [[97, 98]] False [99, 97, 98])))"
proof -
  have "fst (filter_chat (\<lambda>c. [c]) [[97, 98]] False [99, 97, 98]) \<noteq> None"
    using filtered_chat_is_clean [of "\<lambda>c. [c]" "[[97, 98]]" False "[99, 97, 98]"] by (auto simp: STAR_def)
  then show ?thesis
    using filtered_chat_is_clean [of "\<lambda>c. [c]" "[[97, 98]]" False "[99, 97, 98]"] by (auto simp: STAR_def)
qed

end
