(* ===== verification/ServerCore.thy ===== *)
theory ServerCore
  imports ServerInput ServerState GameView RateLimit Accounts Moderation
begin

text \<open>
  The common operations of the socket server (the second part of \<^verbatim>\<open>src/src/server/core.rs\<close>): sending the
  states, saving, timers, the life of the rooms and the turns of the bots. Every operation works on a
  \<open>server\<close>: the tables, the rate limiter and the list of the effects so far. What lies outside is the
  \<open>world\<close>: the clock, the shuffle and the dictionary (\<open>game_env\<close>), the answers of the database, the settings. An
  answer may depend on the effects so far, so the same question can be answered differently later.

  A room that is looked up and then changed is a room of the table; when the game itself panics, which it does
  not in any state of its invariant (\<open>operations_never_panic\<close>), the handler stops there.
\<close>

definition ADMIN_ROOM :: str where "ADMIN_ROOM = ascii ''admin''"

section \<open>Effects\<close>

datatype timer =
    ChallengeTimer str nat
  | TurnTimer str nat real
  | BotTimer str nat int real
  | GraceTimer str nat int

text \<open>What is written to the database when a game is saved; the JSON texts are their values.\<close>

record game_player_data =
  gp_name :: str
  gp_user :: "int option"
  gp_score :: int
  gp_winner :: bool
  gp_resigned :: bool

record save_input =
  state_json :: json
  si_owner :: str
  si_token :: "str option"
  has_bots :: bool
  si_finished :: bool
  si_players :: "game_player_data list"
  si_room_name :: str
  si_challenge :: bool
  si_async :: bool
  new_moves :: "move_log_entry list"
  move_count :: nat

datatype effect =
    ToSid str str json
  | ToRoom str str json
  | ToAll str json
  | EnterChannel str str
  | LeaveChannel str str
  | CloseSid str
  | AdminSummary str
  | AdminDetail str "str set"
  | PushTurn int str str str
  | SetTimer timer
  | SaveGame str save_input
  | SaveMoves int "move_log_entry list"
  | AbandonGame int
  | AbandonRoom str
  | GrantBadges int "str set" int
  | LogChat str str "int option" str str
  | FileReport report_row
  | NotifyAdmins str
  | FinishSave str str

record server =
  tables :: server_state
  limiter :: rate_limiter
  outbox :: "effect list"

record world =
  game_env :: env
  db_save :: "effect list \<Rightarrow> save_input \<Rightarrow> int option"
  db_moves :: "effect list \<Rightarrow> bool"
  db_user :: "effect list \<Rightarrow> int \<Rightarrow> (int \<times> int) option"
  db_grant :: "effect list \<Rightarrow> int \<Rightarrow> str set \<Rightarrow> str list"
  db_ratings :: "effect list \<Rightarrow> int \<Rightarrow> (int \<rightharpoonup> int \<times> int) option"
  push_sent :: "effect list \<Rightarrow> int \<Rightarrow> bool"
  admins_online :: bool
  think_draw :: real
  think_multiplier :: real
  chat_max_length :: int
  banned_words :: "str list"
  fold_char :: "nat \<Rightarrow> str"
  drop_banned :: bool
  chat_log_enabled :: bool
  chat_muted :: "int \<Rightarrow> bool"
  db_report :: "effect list \<Rightarrow> int option"
  puzzle_recorded :: "effect list \<Rightarrow> int option \<Rightarrow> puzzle \<Rightarrow> json \<Rightarrow> effect list"

definition now :: "world \<Rightarrow> real" where
  "now w = now_secs (game_env w)"

definition emit :: "effect \<Rightarrow> server \<Rightarrow> server" where
  "emit e s = s\<lparr>outbox := outbox s @ [e]\<rparr>"

definition emit_list :: "effect list \<Rightarrow> server \<Rightarrow> server" where
  "emit_list es s = s\<lparr>outbox := outbox s @ es\<rparr>"

definition emit_error :: "str \<Rightarrow> str \<Rightarrow> server \<Rightarrow> server" where
  "emit_error sid msg = emit (ToSid sid (ascii ''error'') (JObj [(ascii ''message'', JStr msg)]))"

definition room_at :: "str \<Rightarrow> server \<Rightarrow> room option" where
  "room_at rid s = map_of (rooms (tables s)) rid"

definition on_tables :: "(server_state \<Rightarrow> server_state) \<Rightarrow> server \<Rightarrow> server" where
  "on_tables f s = s\<lparr>tables := f (tables s)\<rparr>"

definition on_room :: "str \<Rightarrow> (room \<Rightarrow> room) \<Rightarrow> server \<Rightarrow> server" where
  "on_room rid f = on_tables (\<lambda>st. st\<lparr>rooms := AList.map_entry rid f (rooms st)\<rparr>)"

definition on_game :: "str \<Rightarrow> (game \<Rightarrow> game) \<Rightarrow> server \<Rightarrow> server" where
  "on_game rid f = on_room rid (\<lambda>r. r\<lparr>room_game := f (room_game r)\<rparr>)"

section \<open>Saving a game\<close>

definition user_id_for_player :: "room \<Rightarrow> player \<Rightarrow> (str \<rightharpoonup> auth_info) \<Rightarrow> int option" where
  "user_id_for_player r p auths =
     (case auths (player_id p) \<bind> user_id of
        Some u \<Rightarrow> Some u
      | None \<Rightarrow> (case map_of (known_user_ids r) (player_name p) of Some u \<Rightarrow> u | None \<Rightarrow> None))"

definition save_input_of :: "room \<Rightarrow> json \<Rightarrow> server_state \<Rightarrow> save_input" where
  "save_input_of r state st =
     (let g = room_game r in
      \<lparr>state_json = state,
       si_owner = (case owner r \<bind> player_names st of Some nm \<Rightarrow> nm | None \<Rightarrow> owner_name r),
       si_token = owner_token r, has_bots = list_ex is_bot (players g), si_finished = finished g,
       si_players = map (\<lambda>p. \<lparr>gp_name = player_name p, gp_user = user_id_for_player r p (player_auth st),
           gp_score = score p, gp_winner = (player_name p \<in> player_name ` set (winners g)), gp_resigned = resigned p\<rparr>) (players g),
       si_room_name = room_name r, si_challenge = challenge_mode g, si_async = is_async r,
       new_moves = drop (last_saved_move_count r) (move_log g), move_count = length (move_log g)\<rparr>)"

definition name_to_user :: "game_player_data list \<Rightarrow> (str \<times> int) list" where
  "name_to_user ps =
     fold (\<lambda>p names. case gp_user p of
         Some u \<Rightarrow> if u \<noteq> 0 then AList.update (gp_name p) u names else names
       | None \<Rightarrow> names) ps []"

definition award_player :: "world \<Rightarrow> game \<Rightarrow> (str \<times> int) list \<Rightarrow> int \<Rightarrow> player \<Rightarrow> server \<Rightarrow> server" where
  "award_player w g names db_id p s =
     (case map_of names (player_name p) of
        None \<Rightarrow> s
      | Some u \<Rightarrow>
          if is_bot p then s
          else let badges = badges_of (evaluate_game g names) u
                     \<union> (case db_user w (outbox s) u of Some (n, won) \<Rightarrow> cumulative_badges n won | None \<Rightarrow> {});
                   earned = db_grant w (outbox s) u badges; s1 = emit (GrantBadges u badges db_id) s
               in if earned = [] then s1
                  else emit (ToSid (player_id p) (ascii ''achievements_earned'') (JObj [(ascii ''badges'', JArr (map JStr earned))])) s1)"

definition award_achievements :: "world \<Rightarrow> str \<Rightarrow> game_player_data list \<Rightarrow> int \<Rightarrow> server \<Rightarrow> server" where
  "award_achievements w rid ps db_id s =
     (case room_at rid s of
        None \<Rightarrow> s
      | Some r \<Rightarrow> fold (award_player w (room_game r) (name_to_user ps) db_id) (players (room_game r)) s)"

definition announce_rating_changes :: "world \<Rightarrow> str \<Rightarrow> game_player_data list \<Rightarrow> int \<Rightarrow> server \<Rightarrow> server" where
  "announce_rating_changes w rid ps db_id s =
     (case (room_at rid s, db_ratings w (outbox s) db_id) of
        (Some r, Some changes) \<Rightarrow>
          emit_list (List.map_filter (\<lambda>p.
            if is_bot p then None
            else (case map_of (name_to_user ps) (player_name p) \<bind> changes of
                    Some (before, after) \<Rightarrow> Some (ToSid (player_id p) (ascii ''rating_update'')
                       (JObj [(ascii ''rating'', JInt after), (ascii ''change'', JInt (after - before))]))
                  | None \<Rightarrow> None)) (players (room_game r))) s
      | _ \<Rightarrow> s)"

definition announce_saved_game :: "str \<Rightarrow> game_player_data list \<Rightarrow> int \<Rightarrow> server \<Rightarrow> server" where
  "announce_saved_game rid ps db_id s =
     (case room_at rid s of
        None \<Rightarrow> s
      | Some r \<Rightarrow>
          emit_list (map (\<lambda>p. ToSid (player_id p) (ascii ''game_saved'') (JObj [(ascii ''game_id'', JInt db_id)]))
            (filter (\<lambda>p. \<not> is_bot p \<and> map_of (name_to_user ps) (player_name p) \<noteq> None) (players (room_game r)))) s)"

definition emit_rooms_list :: "server \<Rightarrow> server" where
  "emit_rooms_list s = emit (ToAll (ascii ''rooms_list'') (JArr (get_rooms_list (tables s)))) s"

definition broadcast_rooms :: "server \<Rightarrow> server" where
  "broadcast_rooms s = emit (ToAll (ascii ''live_games'') (JArr (get_live_games (tables s)))) (emit_rooms_list s)"

definition SAVED :: str where "SAVED = hu ''J~at~ek mentve.''"
definition SAVE_FAILED :: str where "SAVE_FAILED = hu ''Ment~esi hiba.''"

text \<open>The database has answered with the identifier of the game.\<close>

definition after_save :: "world \<Rightarrow> str \<Rightarrow> save_input \<Rightarrow> int \<Rightarrow> server \<Rightarrow> (bool \<times> str) \<times> server" where
  "after_save w rid inp db_id s =
     (let s1 = on_room rid (\<lambda>r. r\<lparr>db_game_id := Some db_id, result_saved := (si_finished inp \<or> result_saved r)\<rparr>) s;
          s2 = (if si_finished inp
                then broadcast_rooms (announce_saved_game rid (si_players inp) db_id
                       (announce_rating_changes w rid (si_players inp) db_id (award_achievements w rid (si_players inp) db_id s1)))
                else s1);
          s3 = emit (SaveMoves db_id (new_moves inp)) s2
      in if db_moves w (outbox s3)
         then ((True, SAVED), on_room rid (\<lambda>r. r\<lparr>last_saved_move_count := move_count inp\<rparr>) s3)
         else ((False, SAVE_FAILED), s3))"

definition save_game_to_db :: "world \<Rightarrow> str \<Rightarrow> server \<Rightarrow> (bool \<times> str) \<times> server" where
  "save_game_to_db w rid s =
     (case room_at rid s of
        None \<Rightarrow> ((False, hu ''A szoba nem l~etezik.''), s)
      | Some r \<Rightarrow>
          let g = room_game r
          in if puzzle g \<noteq> None then ((True, SAVED), s)
             else if \<not> started g then ((False, hu ''A j~at~ek m~eg nem indult el.''), s)
             else if finished g \<and> result_saved r then ((True, SAVED), s)
             else (case to_save_dict g of
                     None \<Rightarrow> ((False, []), s)
                   | Some state \<Rightarrow>
                       let inp = save_input_of r state (tables s); s1 = emit (SaveGame rid inp) s
                       in (case db_save w (outbox s) inp of
                             None \<Rightarrow> ((False, SAVE_FAILED), s1)
                           | Some db_id \<Rightarrow> after_save w rid inp db_id s1)))"

section \<open>Sending the states\<close>

fun set_member :: "str \<Rightarrow> json \<Rightarrow> json \<Rightarrow> json" where
  "set_member k v (JObj kvs) = JObj (AList.update k v kvs)"
| "set_member k v x = x"

definition decorate :: "room \<Rightarrow> json \<Rightarrow> json" where
  "decorate r state =
     set_member (ascii ''spectator_count'') (JInt (int (length (spectators r))))
       (set_member (ascii ''turn_timer_expires_at'') (opt_json JFloat (turn_timer_expires_at r)) state)"

text \<open>Every present player gets the own state, every spectator the public one.\<close>

definition state_messages :: "room \<Rightarrow> effect list" where
  "state_messages r =
     (let g = room_game r; away = player_id ` set (filter disconnected (players g))
      in (case get_all_states g of
            Some sts \<Rightarrow> map (\<lambda>(pid, state). ToSid pid (ascii ''game_state'') (decorate r state)) (filter (\<lambda>(pid, _). pid \<notin> away) sts)
          | None \<Rightarrow> [])
       @ (case get_spectator_state g of
            Some state \<Rightarrow> map (\<lambda>(sid, _). ToSid sid (ascii ''game_state'') (decorate r state)) (spectators r)
          | None \<Rightarrow> []))"

definition persist_async :: "world \<Rightarrow> str \<Rightarrow> server \<Rightarrow> server" where
  "persist_async w rid s =
     (case room_at rid s of
        None \<Rightarrow> s
      | Some r \<Rightarrow>
          let g = room_game r; sig = (length (move_log g), finished g, turn_number g)
          in if \<not> is_async r \<or> \<not> started g \<or> persisted_sig r = Some sig then s
             else snd (save_game_to_db w rid (on_room rid (\<lambda>r. r\<lparr>persisted_sig := Some sig\<rparr>) s)))"

text \<open>Whom to push, and whether the notice inside the application is due as well.\<close>

definition push_target :: "room \<Rightarrow> server_state \<Rightarrow> (int \<times> bool) option" where
  "push_target r st =
     (let g = room_game r
      in if is_puzzle r \<or> \<not> started g \<or> finished g \<or> pending_challenge g \<noteq> None then None
         else case current_player g of
                None \<Rightarrow> None
              | Some p \<Rightarrow>
                  if is_bot p \<or> pushed_turn r = turn_number g then None
                  else if \<not> (disconnected p \<or> player_id p \<in> hidden_sids st) then None
                  else map_option (\<lambda>u. (u, is_async r \<and> notified_turn r \<noteq> turn_number g)) (user_id_for_player r p (player_auth st)))"

definition maybe_push_turn :: "world \<Rightarrow> str \<Rightarrow> server \<Rightarrow> server" where
  "maybe_push_turn w rid s =
     (case room_at rid s of
        None \<Rightarrow> s
      | Some r \<Rightarrow>
          (case push_target r (tables s) of
             None \<Rightarrow> s
           | Some (u, notify) \<Rightarrow>
               let tn = turn_number (room_game r);
                   s1 = (if notify then on_room rid (\<lambda>r. r\<lparr>notified_turn := tn\<rparr>) s else s);
                   s2 = (if notify
                         then emit_list (map (\<lambda>sid. ToSid sid (ascii ''async_your_turn'')
                                (JObj [(ascii ''game_id'', opt_json JInt (db_game_id r)), (ascii ''room_name'', JStr (room_name r))]))
                                (sorted_list_of_set (get_user_sids u (tables s1)))) s1
                         else s1);
                   s3 = emit (PushTurn u (room_name r) rid (ascii ''turn'')) s2
               in if push_sent w (outbox s2) u then on_room rid (\<lambda>r. r\<lparr>pushed_turn := tn\<rparr>) s3 else s3))"

definition notify_admins :: "world \<Rightarrow> str \<Rightarrow> server \<Rightarrow> server" where
  "notify_admins w rid s =
     (case room_at rid s of
        None \<Rightarrow> s
      | Some r \<Rightarrow>
          let s1 = (if admins_online w then emit (AdminSummary rid) s else s)
          in if admin_watchers r = {} then s1 else emit (AdminDetail rid (admin_watchers r)) s1)"

definition emit_all_states :: "world \<Rightarrow> str \<Rightarrow> server \<Rightarrow> server" where
  "emit_all_states w rid s =
     (case room_at rid s of
        None \<Rightarrow> s
      | Some r \<Rightarrow>
          notify_admins w rid (maybe_push_turn w rid (persist_async w rid
            (emit_list (state_messages r) (on_room rid (touch (now w)) s)))))"

end
