(* ===== verification/ServerTurns.thy ===== *)
theory ServerTurns
  imports ServerCore
begin

text \<open>
  Rooms that end, timers and the turns of the bots (the rest of \<^verbatim>\<open>src/src/server/core.rs\<close>). A task that is
  spawned to run later is a \<open>SetTimer\<close> effect; the functions that run then are \<open>challenge_timeout\<close>,
  \<open>turn_timeout\<close> and the two halves of \<^verbatim>\<open>play_bot_turn\<close>, between which the lock is free.
\<close>

section \<open>The life of the rooms\<close>

definition give_up_room :: "str \<Rightarrow> server \<Rightarrow> server" where
  "give_up_room rid s =
     (case room_at rid s of
        None \<Rightarrow> on_tables (cleanup_room rid) s
      | Some r \<Rightarrow>
          let s1 = (if spectators r \<noteq> []
                    then emit_list (map (\<lambda>(sid, _). LeaveChannel sid rid) (spectators r))
                           (emit (ToRoom rid (ascii ''room_disbanded'')
                              (JObj [(ascii ''message'', JStr (hu ''A j~at~ek v~eget ~ert, a szoba megsz&unt.''))])) s)
                    else s)
          in on_tables (cleanup_room rid) (on_room rid (snd \<circ> invalidate_bot_turn) s1))"

text \<open>The new owner: the first connected human, else the first human, else (no human) the same among all.\<close>

definition next_owner :: "game \<Rightarrow> player option" where
  "next_owner g =
     (let humans = human_players g; candidates = (if humans = [] then players g else humans)
      in if players g = [] then None
         else (case List.find (\<lambda>p. \<not> disconnected p) candidates of Some p \<Rightarrow> Some p | None \<Rightarrow> Some (hd candidates)))"

definition hand_over_room :: "str \<Rightarrow> server \<Rightarrow> server" where
  "hand_over_room rid s =
     (case room_at rid s of
        None \<Rightarrow> s
      | Some r \<Rightarrow>
          (case next_owner (room_game r) of
             None \<Rightarrow> s
           | Some p \<Rightarrow>
               emit (ToSid (player_id p) (ascii ''room_code'') (JObj [(ascii ''code'', JStr (join_code r))]))
                 (on_room rid (transfer_ownership (player_id p) (player_name p)
                    (get_reconnect_token_for_sid (player_id p) (tables s))) s)))"

text \<open>One human player of a room that is disbanded.\<close>

definition dismiss_player :: "str \<Rightarrow> str option \<Rightarrow> player \<Rightarrow> server \<Rightarrow> server" where
  "dismiss_player rid owner_sid p s =
     (if is_bot p \<or> Some (player_id p) = owner_sid then s
      else emit (ToSid (player_id p) (ascii ''room_left'') (JObj []))
             (on_tables (\<lambda>st. cleanup_player_token (player_id p) (st\<lparr>player_rooms := (player_rooms st)(player_id p := None)\<rparr>))
               (emit (LeaveChannel (player_id p) rid) s)))"

definition disband_active_room :: "str \<Rightarrow> str \<Rightarrow> str option \<Rightarrow> server \<Rightarrow> server" where
  "disband_active_room rid msg owner_sid s =
     (case room_at rid s of
        None \<Rightarrow> s
      | Some r \<Rightarrow>
          let g = room_game r;
              s1 = on_tables (remove_invites_for_room rid) (on_room rid (snd \<circ> invalidate_turn_timer) s);
              s2 = emit_list (map (\<lambda>(sid, _). LeaveChannel sid rid) (spectators r))
                     (emit (ToRoom rid (ascii ''room_disbanded'') (JObj [(ascii ''message'', JStr msg)])) s1);
              s3 = fold (dismiss_player rid owner_sid) (players g) (on_room rid (snd \<circ> invalidate_bot_turn) s2);
              s4 = on_tables (cleanup_room_tokens rid) s3;
              s5 = (if started g \<and> \<not> finished g \<and> \<not> manually_saved r
                    then (case db_game_id r of Some n \<Rightarrow> emit (AbandonGame n) s4 | None \<Rightarrow> emit (AbandonRoom rid) s4)
                    else s4)
          in on_tables (cleanup_room rid) s5)"

section \<open>Starting timers\<close>

definition start_challenge_timer :: "str \<Rightarrow> server \<Rightarrow> server" where
  "start_challenge_timer rid s =
     (case room_at rid s of
        None \<Rightarrow> s
      | Some r \<Rightarrow>
          emit (SetTimer (ChallengeTimer rid (fst (invalidate_challenge_timer r))))
            (on_room rid (snd \<circ> invalidate_challenge_timer) s))"

definition start_turn_timer :: "world \<Rightarrow> str \<Rightarrow> real option \<Rightarrow> server \<Rightarrow> server" where
  "start_turn_timer w rid seconds s =
     (case room_at rid s of
        None \<Rightarrow> s
      | Some r \<Rightarrow>
          let g = room_game r
          in if turn_time_limit g = 0 \<or> pending_challenge g \<noteq> None then s
             else let lim = (case seconds of Some x \<Rightarrow> x | None \<Rightarrow> real_of_int (turn_time_limit g))
                  in emit (SetTimer (TurnTimer rid (fst (invalidate_turn_timer r)) lim))
                       (on_room rid (\<lambda>r. (snd (invalidate_turn_timer r))
                          \<lparr>timer_paused_left := None, turn_timer_expires_at := Some (now w + lim)\<rparr>) s))"

definition schedule_bot_turn :: "world \<Rightarrow> str \<Rightarrow> server \<Rightarrow> server" where
  "schedule_bot_turn w rid s =
     (case room_at rid s of
        None \<Rightarrow> s
      | Some r \<Rightarrow>
          (case current_player (room_game r) of
             None \<Rightarrow> s
           | Some robot \<Rightarrow>
               if \<not> bot_should_move r then s
               else let pace = think_delay (bot_tier (difficulty robot));
                        delay = (fst pace + think_draw w * (snd pace - fst pace)) * think_multiplier w
                    in emit (SetTimer (BotTimer rid (fst (invalidate_bot_turn r)) (turn_number (room_game r)) (max 0 delay)))
                         (on_room rid (\<lambda>r. (snd (invalidate_bot_turn r))\<lparr>bot_scheduled_at := Some (now w)\<rparr>) s)))"

definition advance_turn_if_needed :: "world \<Rightarrow> str \<Rightarrow> server \<Rightarrow> server" where
  "advance_turn_if_needed w rid s =
     (case room_at rid s of
        None \<Rightarrow> s
      | Some r \<Rightarrow>
          (case skip_disconnected_current (game_env w) (room_game r) of
             (False, _) \<Rightarrow> s
           | (True, g) \<Rightarrow>
               schedule_bot_turn w rid (start_turn_timer w rid None
                 (on_room rid (snd \<circ> invalidate_turn_timer) (on_game rid (\<lambda>_. g) s)))))"

section \<open>When a timer fires\<close>

definition broadcast_challenge_result :: "str \<Rightarrow> vote_result \<Rightarrow> str \<Rightarrow> server \<Rightarrow> server" where
  "broadcast_challenge_result rid result msg s =
     (if result \<in> {Accepted, Rejected}
      then emit (ToRoom rid (ascii ''challenge_result'')
             (JObj [(ascii ''challenge_won'', JBool (result = Rejected)), (ascii ''message'', JStr msg)])) s
      else s)"

definition room_finished :: "str \<Rightarrow> server \<Rightarrow> bool" where
  "room_finished rid s \<longleftrightarrow> (case room_at rid s of Some r \<Rightarrow> finished (room_game r) | None \<Rightarrow> False)"

definition challenge_timeout :: "world \<Rightarrow> str \<Rightarrow> nat \<Rightarrow> server \<Rightarrow> server" where
  "challenge_timeout w rid timer_id s =
     (case room_at rid s of
        None \<Rightarrow> s
      | Some r \<Rightarrow>
          if challenge_timer_id r \<noteq> timer_id \<or> pending_challenge (room_game r) = None then s
          else (case accept_pending (game_env w) (room_game r) of
                  (Done (result, msg), g) \<Rightarrow>
                    let s1 = broadcast_challenge_result rid result msg (on_game rid (\<lambda>_. g) s)
                    in if finished g then snd (save_game_to_db w rid (emit_all_states w rid s1))
                       else schedule_bot_turn w rid (emit_all_states w rid (start_turn_timer w rid None s1))
                | _ \<Rightarrow> s))"

definition turn_timeout :: "world \<Rightarrow> str \<Rightarrow> nat \<Rightarrow> server \<Rightarrow> server" where
  "turn_timeout w rid timer_id s =
     (case room_at rid s of
        None \<Rightarrow> s
      | Some r \<Rightarrow>
          let g0 = room_game r
          in if turn_timer_id r \<noteq> timer_id \<or> finished g0 \<or> \<not> started g0 then s
             else (case current_player g0 of
                     None \<Rightarrow> s
                   | Some p \<Rightarrow>
                       (case pass_turn (game_env w) (player_id p) False g0 of
                          (Done _, g) \<Rightarrow>
                            let s1 = emit (ToRoom rid (ascii ''action_result'') (JObj [(ascii ''success'', JBool True),
                                   (ascii ''message'', JStr (hu ''Id&ot~ull~ep~es: '' @ player_name p @ ascii '' passzolt.''))]))
                                   (on_game rid (\<lambda>_. g) s)
                            in if finished g
                               then snd (save_game_to_db w rid (emit_all_states w rid (on_room rid (snd \<circ> invalidate_turn_timer) s1)))
                               else schedule_bot_turn w rid (emit_all_states w rid (start_turn_timer w rid None s1))
                        | _ \<Rightarrow> s)))"

definition handle_challenge_result :: "world \<Rightarrow> str \<Rightarrow> vote_result \<Rightarrow> str \<Rightarrow> server \<Rightarrow> server" where
  "handle_challenge_result w rid result msg s =
     (let s1 = (if result \<noteq> Recorded then on_room rid (snd \<circ> invalidate_challenge_timer) s else s);
          s2 = broadcast_challenge_result rid result msg s1;
          s3 = (if room_finished rid s2 then snd (save_game_to_db w rid s2) else start_turn_timer w rid None s2)
      in schedule_bot_turn w rid (emit_all_states w rid s3))"

section \<open>The turn of a bot\<close>

definition after_bot_move :: "world \<Rightarrow> str \<Rightarrow> server \<Rightarrow> server" where
  "after_bot_move w rid s =
     (case room_at rid s of
        None \<Rightarrow> s
      | Some r \<Rightarrow>
          let g = room_game r; s1 = on_room rid (snd \<circ> invalidate_turn_timer) s;
              s2 = (if pending_challenge g \<noteq> None then start_challenge_timer rid s1
                    else if finished g then snd (save_game_to_db w rid s1) else start_turn_timer w rid None s1);
              s3 = emit_all_states w rid s2
          in schedule_bot_turn w rid (if finished g then broadcast_rooms s3 else s3))"

record bot_snapshot =
  b_id :: str
  b_turn :: int
  b_board :: board
  b_hand :: "tile list"
  b_level :: nat
  b_bag :: nat
  b_avoid :: "placed list set"

text \<open>The first half of \<^verbatim>\<open>play_bot_turn\<close>: what the search needs, if it is still the turn it was asked for.\<close>

definition take_bot_snapshot :: "str \<Rightarrow> nat option \<Rightarrow> int option \<Rightarrow> rng \<Rightarrow> server \<Rightarrow> bot_snapshot option" where
  "take_bot_snapshot rid turn_id tn rng s =
     (case room_at rid s of
        None \<Rightarrow> None
      | Some r \<Rightarrow>
          let g = room_game r
          in if (case turn_id of Some n \<Rightarrow> bot_turn_id r \<noteq> n | None \<Rightarrow> False) \<or> \<not> bot_should_move r then None
             else (case current_player g of
                     None \<Rightarrow> None
                   | Some robot \<Rightarrow>
                       if (case tn of Some n \<Rightarrow> turn_number g \<noteq> n | None \<Rightarrow> False) then None
                       else Some \<lparr>b_id = player_id robot, b_turn = turn_number g, b_board = board g, b_hand = hand robot,
                                  b_level = fst (bot_level robot rng None g), b_bag = remaining (bag g),
                                  b_avoid = rejected_placements g\<rparr>))"

text \<open>The search between the halves, without the lock.\<close>

definition bot_search ::
  "(str list \<Rightarrow> str set) \<Rightarrow> (nat \<Rightarrow> bool) \<Rightarrow> vocabulary \<Rightarrow> rng \<Rightarrow> bot_snapshot \<Rightarrow> action" where
  "bot_search filter_valid late vocab rng b =
     fst (choose_action filter_valid late (b_board b) (b_hand b) (b_level b) (b_bag b) rng vocab (Some (b_avoid b)))"

text \<open>The game after the bot's action; a refused action becomes a pass.\<close>

definition bot_acts :: "env \<Rightarrow> str \<Rightarrow> action \<Rightarrow> game \<Rightarrow> bool \<times> game" where
  "bot_acts e robot act g =
     (let r = (case act of
                 action.Place ts _ _ \<Rightarrow> (case place_tiles e robot ts g of (x, g') \<Rightarrow> (is_done x, g'))
               | action.Exchange is \<Rightarrow> (case exchange_tiles e robot (map int is) g of (x, g') \<Rightarrow> (is_done x, g'))
               | action.Pass \<Rightarrow> (False, g))
      in if fst r then r
         else (case pass_turn e robot False (snd r) of (x, g') \<Rightarrow> (is_done x, g')))"

text \<open>The second half: only if nothing has changed in the meantime.\<close>

definition bot_apply :: "world \<Rightarrow> str \<Rightarrow> nat option \<Rightarrow> bot_snapshot \<Rightarrow> action \<Rightarrow> server \<Rightarrow> bool \<times> server" where
  "bot_apply w rid turn_id b act s =
     (case room_at rid s of
        None \<Rightarrow> (False, s)
      | Some r \<Rightarrow>
          let g = room_game r;
              unchanged = (\<not> finished g \<and> pending_challenge g = None
                \<and> (case current_player g of Some p \<Rightarrow> player_id p = b_id b | None \<Rightarrow> False)
                \<and> turn_number g = b_turn b
                \<and> (case turn_id of Some n \<Rightarrow> bot_turn_id r = n | None \<Rightarrow> True))
          in if \<not> unchanged then (False, s)
             else (case bot_acts (game_env w) (b_id b) act g of
                     (ok, g') \<Rightarrow>
                       let s1 = on_game rid (\<lambda>_. g') s
                       in if ok then (True, after_bot_move w rid s1) else (False, s1)))"

section \<open>Correspondence games\<close>

definition cleanup_finished_async :: "str \<Rightarrow> server \<Rightarrow> server" where
  "cleanup_finished_async rid s =
     (case room_at rid s of
        None \<Rightarrow> s
      | Some r \<Rightarrow>
          if is_async r \<and> finished (room_game r) \<and> \<not> has_connected_human (room_game r) then give_up_room rid s else s)"

text \<open>One room of the sweep over the expired deadlines; \<open>t\<close> is the time of the sweep.\<close>

definition expire_room :: "world \<Rightarrow> real \<Rightarrow> str \<Rightarrow> nat \<times> server \<Rightarrow> nat \<times> server" where
  "expire_room w t rid = (\<lambda>(n, s).
     case room_at rid s of
       None \<Rightarrow> (n, s)
     | Some r \<Rightarrow>
         let g = room_game r
         in if \<not> is_async r \<or> \<not> started g \<or> finished g then (n, s)
            else if (case turn_deadline g of Some d \<Rightarrow> d < t | None \<Rightarrow> False)
            then (case expire_turn (game_env w) g of
                    (ok, g') \<Rightarrow>
                      let s1 = on_game rid (\<lambda>_. g') s
                      in if ok then (n + 1, cleanup_finished_async rid (emit_all_states w rid s1)) else (n, s1))
            else (n, s))"

definition expire_async_turns :: "world \<Rightarrow> real option \<Rightarrow> server \<Rightarrow> nat \<times> server" where
  "expire_async_turns w moment s =
     fold (expire_room w (case moment of Some t \<Rightarrow> t | None \<Rightarrow> now w)) (map fst (rooms (tables s))) (0, s)"

end
