(* ===== verification/ServerPlay.thy ===== *)
theory ServerPlay
  imports ServerTurns
begin

text \<open>
  The handlers of the game events (\<^verbatim>\<open>src/src/server/play.rs\<close>, with the helpers of \<^verbatim>\<open>events.rs\<close> and the
  resignation of \<^verbatim>\<open>extras.rs\<close>). Every handler runs under the lock, from the message of one connection to the
  next state of the server and its effects. Recording the result of a daily puzzle (\<^verbatim>\<open>finish_puzzle\<close>, which changes
  only the database) is the argument \<open>puzzle_recorded\<close> of the world.
\<close>

definition TOO_MANY :: str where "TOO_MANY = hu ''T~ul sok k~er~es, v~arj egy kicsit.''"

definition action_result :: "str \<Rightarrow> bool \<Rightarrow> str \<Rightarrow> server \<Rightarrow> server" where
  "action_result sid ok msg =
     emit (ToSid sid (ascii ''action_result'') (JObj [(ascii ''success'', JBool ok), (ascii ''message'', JStr msg)]))"

definition own_turn_result :: "str \<Rightarrow> str \<Rightarrow> server \<Rightarrow> server" where
  "own_turn_result sid msg =
     emit (ToSid sid (ascii ''action_result'') (JObj [(ascii ''success'', JBool True), (ascii ''message'', JStr msg),
       (ascii ''own_turn'', JBool True)]))"

definition check_limit :: "world \<Rightarrow> str \<Rightarrow> str \<Rightarrow> server \<Rightarrow> bool \<times> server" where
  "check_limit w sid event s =
     (case check_socket (now w) sid event (limiter s) of (ok, l) \<Rightarrow> (ok, s\<lparr>limiter := l\<rparr>))"

definition room_context :: "world \<Rightarrow> str \<Rightarrow> str \<Rightarrow> server \<Rightarrow> str option \<times> server" where
  "room_context w sid event s =
     (case check_limit w sid event s of
        (False, s1) \<Rightarrow> (None, emit_error sid TOO_MANY s1)
      | (True, s1) \<Rightarrow> (room_id_for_player sid (tables s1), s1))"

definition registered_user_id :: "str \<Rightarrow> server_state \<Rightarrow> int option" where
  "registered_user_id sid st = player_auth st sid \<bind> registered_id"

definition is_owner :: "str \<Rightarrow> room \<Rightarrow> server_state \<Rightarrow> bool" where
  "is_owner sid r st \<longleftrightarrow>
     owner_token r \<noteq> None \<and> owner_token r = get_reconnect_token_for_sid sid st \<or> owner r = Some sid"

definition finish_puzzle_event :: "world \<Rightarrow> str \<Rightarrow> str \<Rightarrow> server \<Rightarrow> server" where
  "finish_puzzle_event w sid rid s =
     (case room_at rid s of
        None \<Rightarrow> s
      | Some r \<Rightarrow>
          (case puzzle (room_game r) of
             None \<Rightarrow> s
           | Some pz \<Rightarrow>
               emit_list (puzzle_recorded w (outbox s) (registered_user_id sid (tables s)) pz
                 (if move_log (room_game r) = [] then JNull else details (last (move_log (room_game r))))) s))"

text \<open>What follows an accepted placement; \<open>expires\<close> is the turn timer before it.\<close>

definition after_placement :: "world \<Rightarrow> str \<Rightarrow> str \<Rightarrow> real option \<Rightarrow> str \<Rightarrow> int \<Rightarrow> server \<Rightarrow> server" where
  "after_placement w sid rid expires msg sc s =
     (case room_at rid s of
        None \<Rightarrow> s
      | Some r \<Rightarrow>
          let g = room_game r; s1 = on_room rid (snd \<circ> invalidate_turn_timer) s;
              s2 = emit (ToSid sid (ascii ''action_result'') (JObj [(ascii ''success'', JBool True), (ascii ''message'', JStr msg),
                     (ascii ''score'', JInt sc), (ascii ''own_turn'', JBool True)])) s1;
              s3 = (if pending_challenge g \<noteq> None
                    then start_challenge_timer rid
                           (on_room rid (\<lambda>r. r\<lparr>withdraw_time_left := map_option (\<lambda>t. max (t - now w) 0) expires\<rparr>) s2)
                    else if finished g \<and> puzzle g \<noteq> None then finish_puzzle_event w sid rid s2
                    else if finished g then snd (save_game_to_db w rid s2)
                    else start_turn_timer w rid None s2)
          in schedule_bot_turn w rid (emit_all_states w rid s3))"

definition place_tiles_event :: "world \<Rightarrow> str \<Rightarrow> json \<Rightarrow> server \<Rightarrow> server" where
  "place_tiles_event w sid data s =
     (case room_context w sid (ascii ''place_tiles'') s of
        (None, s1) \<Rightarrow> s1
      | (Some rid, s1) \<Rightarrow>
          (case (as_object data, room_at rid s1) of
             (Some kvs, Some r) \<Rightarrow>
               (case validate_tiles_input (case map_of kvs (ascii ''tiles'') of Some v \<Rightarrow> v | None \<Rightarrow> JArr []) of
                  Fail msg \<Rightarrow> action_result sid False msg s1
                | Panic \<Rightarrow> s1
                | Done tiles \<Rightarrow>
                    (case place_tiles (game_env w) sid tiles (room_game r) of
                       (Done (msg, sc), g) \<Rightarrow> after_placement w sid rid (turn_timer_expires_at r) msg sc (on_game rid (\<lambda>_. g) s1)
                     | (Fail err, g) \<Rightarrow> action_result sid False (game_error_text err) (on_game rid (\<lambda>_. g) s1)
                     | (Panic, g) \<Rightarrow> on_game rid (\<lambda>_. g) s1))
           | _ \<Rightarrow> s1))"

text \<open>The common end of exchanging and passing.\<close>

definition finish_turn_action :: "world \<Rightarrow> str \<Rightarrow> str \<Rightarrow> str reply \<Rightarrow> server \<Rightarrow> server" where
  "finish_turn_action w sid rid reply s =
     (case reply of
        (Done msg, g) \<Rightarrow>
          let s1 = own_turn_result sid msg (on_room rid (snd \<circ> invalidate_turn_timer) (on_game rid (\<lambda>_. g) s));
              s2 = (if finished g then snd (save_game_to_db w rid s1) else start_turn_timer w rid None s1)
          in schedule_bot_turn w rid (emit_all_states w rid s2)
      | (Fail err, g) \<Rightarrow> action_result sid False (game_error_text err) (on_game rid (\<lambda>_. g) s)
      | (Panic, g) \<Rightarrow> on_game rid (\<lambda>_. g) s)"

fun all_some :: "'a option list \<Rightarrow> 'a list option" where
  "all_some [] = Some []"
| "all_some (None # xs) = None"
| "all_some (Some x # xs) = map_option (Cons x) (all_some xs)"

definition exchange_tiles_event :: "world \<Rightarrow> str \<Rightarrow> json \<Rightarrow> server \<Rightarrow> server" where
  "exchange_tiles_event w sid data s =
     (case room_context w sid (ascii ''exchange_tiles'') s of
        (None, s1) \<Rightarrow> s1
      | (Some rid, s1) \<Rightarrow>
          (case (as_object data, room_at rid s1) of
             (Some kvs, Some r) \<Rightarrow>
               (case as_array (case map_of kvs (ascii ''indices'') of Some v \<Rightarrow> v | None \<Rightarrow> JArr []) of
                  Some xs \<Rightarrow>
                    if 7 < length xs then action_result sid False (hu ''~Erv~enytelen csere.'') s1
                    else (case all_some (map py_int xs) of
                            None \<Rightarrow> action_result sid False (hu ''~Erv~enytelen index.'') s1
                          | Some idxs \<Rightarrow> finish_turn_action w sid rid (exchange_tiles (game_env w) sid idxs (room_game r)) s1)
                | None \<Rightarrow> action_result sid False (hu ''~Erv~enytelen csere.'') s1)
           | _ \<Rightarrow> s1))"

definition pass_turn_event :: "world \<Rightarrow> str \<Rightarrow> server \<Rightarrow> server" where
  "pass_turn_event w sid s =
     (case room_context w sid (ascii ''pass_turn'') s of
        (None, s1) \<Rightarrow> s1
      | (Some rid, s1) \<Rightarrow>
          (case room_at rid s1 of
             None \<Rightarrow> s1
           | Some r \<Rightarrow> finish_turn_action w sid rid (pass_turn (game_env w) sid False (room_game r)) s1))"

definition vote_event :: "world \<Rightarrow> str \<Rightarrow> str \<Rightarrow> bool \<Rightarrow> server \<Rightarrow> server" where
  "vote_event w sid event accept s =
     (case room_context w sid event s of
        (None, s1) \<Rightarrow> s1
      | (Some rid, s1) \<Rightarrow>
          (case room_at rid s1 of
             None \<Rightarrow> s1
           | Some r \<Rightarrow>
               (case (if accept then accept_pending_by_player (game_env w) sid (room_game r)
                      else reject_pending_by_player (game_env w) sid (room_game r)) of
                  (Done (result, msg), g) \<Rightarrow> handle_challenge_result w rid result msg (on_game rid (\<lambda>_. g) s1)
                | (Fail err, g) \<Rightarrow> action_result sid False (game_error_text err) (on_game rid (\<lambda>_. g) s1)
                | (Panic, g) \<Rightarrow> on_game rid (\<lambda>_. g) s1)))"

definition accept_words :: "world \<Rightarrow> str \<Rightarrow> server \<Rightarrow> server" where
  "accept_words w sid = vote_event w sid (ascii ''accept_words'') True"

definition reject_words :: "world \<Rightarrow> str \<Rightarrow> server \<Rightarrow> server" where
  "reject_words w sid = vote_event w sid (ascii ''reject_words'') False"

definition withdraw_words :: "world \<Rightarrow> str \<Rightarrow> server \<Rightarrow> server" where
  "withdraw_words w sid s =
     (case room_context w sid (ascii ''withdraw_words'') s of
        (None, s1) \<Rightarrow> s1
      | (Some rid, s1) \<Rightarrow>
          (case room_at rid s1 of
             None \<Rightarrow> s1
           | Some r \<Rightarrow>
               (case withdraw_pending sid (room_game r) of
                  (Done msg, g) \<Rightarrow>
                    emit_all_states w rid (own_turn_result sid msg
                      (start_turn_timer w rid (map_option (\<lambda>l. max l MIN_TIME_AFTER_WITHDRAW) (withdraw_time_left r))
                        (on_room rid (snd \<circ> invalidate_challenge_timer) (on_game rid (\<lambda>_. g) s1))))
                | (Fail err, g) \<Rightarrow> action_result sid False (game_error_text err) (on_game rid (\<lambda>_. g) s1)
                | (Panic, g) \<Rightarrow> on_game rid (\<lambda>_. g) s1)))"

text \<open>Giving up a correspondence game (\<^verbatim>\<open>extras.rs\<close>).\<close>

definition resign_game_event :: "world \<Rightarrow> str \<Rightarrow> server \<Rightarrow> server" where
  "resign_game_event w sid s =
     (case room_context w sid (ascii ''resign_game'') s of
        (None, s1) \<Rightarrow> s1
      | (Some rid, s1) \<Rightarrow>
          (case room_at rid s1 of
             None \<Rightarrow> s1
           | Some r \<Rightarrow>
               if \<not> is_async r then s1
               else (case resign sid (room_game r) of
                       (Done msg, g) \<Rightarrow> emit_all_states w rid (own_turn_result sid msg (on_game rid (\<lambda>_. g) s1))
                     | (Fail err, g) \<Rightarrow> action_result sid False (game_error_text err) (on_game rid (\<lambda>_. g) s1)
                     | (Panic, g) \<Rightarrow> on_game rid (\<lambda>_. g) s1)))"

section \<open>Chat and reports\<close>

definition send_chat :: "world \<Rightarrow> str \<Rightarrow> json \<Rightarrow> server \<Rightarrow> server" where
  "send_chat w sid data s =
     (case room_context w sid (ascii ''send_chat'') s of
        (None, s1) \<Rightarrow> s1
      | (Some rid, s1) \<Rightarrow>
          (case (as_object data \<bind> (\<lambda>kvs. map_of kvs (ascii ''message'')) \<bind> as_str, room_at rid s1) of
             (Some raw, Some r) \<Rightarrow>
               let msg = trim raw; u = registered_user_id sid (tables s1)
               in if msg = [] \<or> chat_max_length w < int (length msg) then s1
                  else if (case u of Some n \<Rightarrow> chat_muted w n | None \<Rightarrow> False) then s1
                  else (case filter_chat (fold_char w) (banned_words w) (drop_banned w) msg of
                          (None, _) \<Rightarrow> s1
                        | (Some out, flagged) \<Rightarrow>
                            let nm = (case player_names (tables s1) sid of Some n \<Rightarrow> n | None \<Rightarrow> ascii ''?'');
                                s2 = on_room rid (add_chat_message (now w) nm out u False) s1;
                                s3 = (if chat_log_enabled w then emit (LogChat rid (room_name r) u nm out) s2 else s2);
                                s4 = emit (ToRoom rid (ascii ''chat_message'') (JObj [(ascii ''name'', JStr nm),
                                       (ascii ''message'', JStr out), (ascii ''sid'', JStr sid)])) s3
                            in if flagged \<and> admins_online w
                               then emit (ToRoom ADMIN_ROOM (ascii ''admin_alert'') (JObj [(ascii ''code'', JStr (ascii ''banned_word'')),
                                      (ascii ''room'', JStr (room_name r)), (ascii ''name'', JStr nm)])) s4
                               else s4)
           | _ \<Rightarrow> s1))"

definition report_result :: "str \<Rightarrow> bool \<Rightarrow> str \<Rightarrow> server \<Rightarrow> server" where
  "report_result sid ok msg =
     emit (ToSid sid (ascii ''report_result'') (JObj [(ascii ''success'', JBool ok), (ascii ''message'', JStr msg)]))"

definition INVALID_REPORT :: str where "INVALID_REPORT = hu ''~Erv~enytelen bejelent~es.''"

text \<open>The reported player: a human of the room with the wanted name, not the reporter.\<close>

definition report_target :: "str \<Rightarrow> (str \<times> json) list \<Rightarrow> game \<Rightarrow> player option" where
  "report_target sid kvs g =
     (case List.find (\<lambda>p. \<not> is_bot p \<and> (map_of kvs (ascii ''name'') \<bind> as_str) = Some (player_name p)) (players g) of
        Some p \<Rightarrow> if player_id p = sid then None else Some p
      | None \<Rightarrow> None)"

definition report_content :: "world \<Rightarrow> str \<Rightarrow> json \<Rightarrow> server \<Rightarrow> server" where
  "report_content w sid data s =
     (case check_limit w sid (ascii ''report_content'') s of
        (False, s1) \<Rightarrow> report_result sid False TOO_MANY s1
      | (True, s1) \<Rightarrow>
          (case as_object data of
             None \<Rightarrow> s1
           | Some kvs \<Rightarrow>
               (case room_id_for_player sid (tables s1) \<bind> (\<lambda>rid. room_at rid s1) of
                  None \<Rightarrow> report_result sid False (hu ''Nem vagy szob~aban.'') s1
                | Some r \<Rightarrow>
                    (case registered_user_id sid (tables s1) of
                       None \<Rightarrow> report_result sid False (hu ''Bejelent~est csak regisztr~alt felhaszn~al~o tehet.'') s1
                     | Some reporter \<Rightarrow>
                         (case report_target sid kvs (room_game r) of
                            None \<Rightarrow> report_result sid False INVALID_REPORT s1
                          | Some p \<Rightarrow>
                              let value = (\<lambda>k. case map_of kvs (ascii k) of Some v \<Rightarrow> v | None \<Rightarrow> JNull);
                                  nm = (case player_names (tables s1) sid of Some n \<Rightarrow> n | None \<Rightarrow> ascii ''?'')
                              in (case report_row_of reporter nm (user_id_for_player r p (player_auth (tables s1))) (player_name p)
                                        (value ''kind'') (value ''message'') (value ''reason'') r of
                                    None \<Rightarrow> report_result sid False INVALID_REPORT s1
                                  | Some row \<Rightarrow>
                                      let s2 = emit (FileReport row) s1
                                      in (case db_report w (outbox s1) of
                                            None \<Rightarrow> report_result sid False INVALID_REPORT s2
                                          | Some n \<Rightarrow>
                                              let s3 = report_result sid True (hu ''Bejelent~es elk^uldve. K^osz^onj^uk!'') s2;
                                                  s4 = (if admins_online w
                                                        then emit (ToRoom ADMIN_ROOM (ascii ''admin_report'') (JObj [(ascii ''id'', JInt n),
                                                               (ascii ''room'', JStr (room_name r)), (ascii ''reported'', JStr (player_name p))])) s3
                                                        else s3)
                                              in emit (NotifyAdmins (room_name r)) s4)))))))"

section \<open>Previews, visibility, hints\<close>

definition preview_error :: "str \<Rightarrow> json" where
  "preview_error msg = JObj [(ascii ''valid'', JBool False), (ascii ''score'', JInt 0), (ascii ''words'', JArr []), (ascii ''message'', JStr msg)]"

definition preview_move :: "world \<Rightarrow> str \<Rightarrow> json \<Rightarrow> server \<Rightarrow> server" where
  "preview_move w sid data s =
     (case check_limit w sid (ascii ''preview_move'') s of
        (False, s1) \<Rightarrow> s1
      | (True, s1) \<Rightarrow>
          (case (room_id_for_player sid (tables s1) \<bind> (\<lambda>rid. room_at rid s1), as_object data) of
             (Some r, Some kvs) \<Rightarrow>
               (case validate_tiles_input (case map_of kvs (ascii ''tiles'') of Some v \<Rightarrow> v | None \<Rightarrow> JArr []) of
                  Done tiles \<Rightarrow>
                    (case preview_placement (game_env w) sid tiles (room_game r) of
                       Some v \<Rightarrow> emit (ToSid sid (ascii ''move_preview'') v) s1
                     | None \<Rightarrow> s1)
                | Fail msg \<Rightarrow> emit (ToSid sid (ascii ''move_preview'') (preview_error msg)) s1
                | Panic \<Rightarrow> s1)
           | _ \<Rightarrow> s1))"

definition set_visibility :: "world \<Rightarrow> str \<Rightarrow> json \<Rightarrow> server \<Rightarrow> server" where
  "set_visibility w sid data s =
     (case check_limit w sid (ascii ''set_visibility'') s of
        (False, s1) \<Rightarrow> s1
      | (True, s1) \<Rightarrow>
          (case as_object data of
             None \<Rightarrow> s1
           | Some kvs \<Rightarrow>
               if map_of kvs (ascii ''hidden'') = Some (JBool True)
               then let s2 = on_tables (\<lambda>st. st\<lparr>hidden_sids := insert sid (hidden_sids st)\<rparr>) s1
                    in (case room_id_for_player sid (tables s2) of Some rid \<Rightarrow> maybe_push_turn w rid s2 | None \<Rightarrow> s2)
               else on_tables (\<lambda>st. st\<lparr>hidden_sids := hidden_sids st - {sid}\<rparr>) s1))"

definition hint_reply :: "str \<Rightarrow> str \<Rightarrow> int option \<Rightarrow> server \<Rightarrow> server" where
  "hint_reply sid msg left =
     emit (ToSid sid (ascii ''hint_result'') (JObj ([(ascii ''success'', JBool False), (ascii ''message'', JStr msg)]
       @ (case left of Some n \<Rightarrow> [(ascii ''hints_left'', JInt n)] | None \<Rightarrow> []))))"

record hint_snapshot =
  h_room :: str
  h_board :: board
  h_hand :: "tile list"
  h_turn :: int

text \<open>The first half of \<^verbatim>\<open>request_hint\<close>: the guards, and what the search needs.\<close>

definition hint_refused :: "str \<Rightarrow> game \<Rightarrow> (str \<times> int option) option" where
  "hint_refused sid g =
     (if hint_limit g = 0 then Some (hu ''A tippek ki vannak kapcsolva ebben a szob~aban.'', None)
      else if \<not> started g \<or> finished g \<or> pending_challenge g \<noteq> None then Some (hu ''Most nem k~erhetsz tippet.'', None)
      else if hints_left g \<le> 0 then Some (hu ''Elfogytak a tippjeid.'', Some 0)
      else if length (human_players g) \<noteq> 1 then Some (hu ''Tippet csak egyed^ul, robotok ellen j~atszva k~erhetsz.'', None)
      else if (case current_player g of Some p \<Rightarrow> player_id p \<noteq> sid | None \<Rightarrow> True) then Some (hu ''Nem te k^ovetkezel.'', None)
      else None)"

definition hint_request :: "world \<Rightarrow> str \<Rightarrow> server \<Rightarrow> hint_snapshot option \<times> server" where
  "hint_request w sid s =
     (case check_limit w sid (ascii ''request_hint'') s of
        (False, s1) \<Rightarrow> (None, hint_reply sid TOO_MANY None s1)
      | (True, s1) \<Rightarrow>
          (case room_id_for_player sid (tables s1) \<bind> (\<lambda>rid. map_option (Pair rid) (room_at rid s1)) of
             None \<Rightarrow> (None, s1)
           | Some (rid, r) \<Rightarrow>
               let g = room_game r
               in (case hint_refused sid g of
                     Some (msg, left) \<Rightarrow> (None, hint_reply sid msg left s1)
                   | None \<Rightarrow>
                       (map_option (\<lambda>p. \<lparr>h_room = rid, h_board = board g, h_hand = hand p, h_turn = turn_number g\<rparr>)
                          (current_player g), s1))))"

text \<open>The second half, with the moves of the search (\<open>None\<close>: the search failed).\<close>

definition hint_answer :: "world \<Rightarrow> str \<Rightarrow> hint_snapshot \<Rightarrow> bot_move list option \<Rightarrow> server \<Rightarrow> server" where
  "hint_answer w sid h found s =
     (case found of
        None \<Rightarrow> hint_reply sid (hu ''Nem siker^ult tippet adni.'') None s
      | Some moves \<Rightarrow>
          (case room_at (h_room h) s of
             None \<Rightarrow> s
           | Some r \<Rightarrow>
               let g = room_game r
               in if finished g \<or> turn_number g \<noteq> h_turn h \<or> (case current_player g of Some p \<Rightarrow> player_id p \<noteq> sid | None \<Rightarrow> True)
                  then hint_reply sid (hu ''Most nem k~erhetsz tippet.'') None s
                  else (case (if moves = [] then (True, g) else use_hint g) of
                          (False, _) \<Rightarrow> hint_reply sid (hu ''Elfogytak a tippjeid.'') (Some 0) s
                        | (True, g') \<Rightarrow>
                            let s1 = on_game (h_room h) (\<lambda>_. g') s;
                                s2 = (if moves = [] then s1 else emit_all_states w (h_room h) s1)
                            in emit (ToSid sid (ascii ''hint_result'') (JObj [(ascii ''success'', JBool True), (ascii ''message'', JStr []),
                                 (ascii ''hints_left'', JInt (hints_left g')),
                                 (ascii ''moves'', JArr (map (\<lambda>m. JObj [(ascii ''tiles'', move_tiles_to_json m),
                                    (ascii ''words'', JArr (map JStr (m_words m))), (ascii ''score'', JInt (m_score m))]) moves))])) s2)))"

end
