(* ===== verification/ServerView.thy ===== *)
theory ServerView
  imports ServerPlay
begin

text \<open>
  Looking at one room while the server works. Saving, sending the states, pushing, scheduling a bot and
  answering change only the bookkeeping of a room and the outbox; whatever does not look at the bookkeeping (a
  \<open>room_observer\<close>) sees no difference. The observers of the later theories are interpretations.
\<close>

definition seen :: "(room \<Rightarrow> 'v) \<Rightarrow> str \<Rightarrow> server \<Rightarrow> 'v option" where
  "seen obs rid s = map_option obs (room_at rid s)"

lemma room_at_on_room: "room_at rid' (on_room rid f s) = (if rid' = rid then map_option f (room_at rid s) else room_at rid' s)"
  by (auto simp: room_at_def on_room_def on_tables_def map_of_map_entry split: option.split)

lemma room_at_emit [simp]: "room_at rid (emit e s) = room_at rid s"
  by (simp add: room_at_def emit_def)

locale room_observer =
  fixes obs :: "room \<Rightarrow> 'v"
  assumes obs_bookkeeping [simp]:
    "obs (db_game_id_update f1 r) = obs r" "obs (result_saved_update f2 r) = obs r" "obs (last_saved_move_count_update f3 r) = obs r"
    "obs (persisted_sig_update f4 r) = obs r" "obs (notified_turn_update f5 r) = obs r" "obs (pushed_turn_update f5 r) = obs r"
    "obs (last_activity_update f6 r) = obs r" "obs (bot_turn_id_update f3 r) = obs r" "obs (bot_scheduled_at_update f7 r) = obs r"
    "obs (withdraw_time_left_update f7 r) = obs r" "obs (chat_messages_update f8 r) = obs r" "obs (chat_metas_update f9 r) = obs r"
begin

lemma seen_emit [simp]: "seen obs rid (emit e s) = seen obs rid s" "seen obs rid (emit_list es s) = seen obs rid s"
  by (simp_all add: seen_def room_at_def emit_def emit_list_def)

lemma seen_room: "(\<And>r. obs (f r) = obs r) \<Longrightarrow> seen obs x (on_room rid f s) = seen obs x s"
  by (simp add: seen_def room_at_on_room option.map_comp comp_def)

lemma seen_limiter [simp]: "seen obs x (s\<lparr>limiter := l\<rparr>) = seen obs x s"
  by (simp add: seen_def room_at_def)

lemma seen_fold: "(\<And>y s. seen obs x (f y s) = seen obs x s) \<Longrightarrow> seen obs x (fold f ys s) = seen obs x s"
  by (induction ys arbitrary: s) auto

lemma seen_fields [simp]:
  "seen obs x (on_room rid (\<lambda>r. r\<lparr>db_game_id := x1, result_saved := f1 r\<rparr>) s) = seen obs x s"
  "seen obs x (on_room rid (db_game_id_update f2) s) = seen obs x s"
  "seen obs x (on_room rid (\<lambda>r. r\<lparr>last_saved_move_count := x2\<rparr>) s) = seen obs x s"
  "seen obs x (on_room rid (\<lambda>r. r\<lparr>persisted_sig := x3\<rparr>) s) = seen obs x s"
  "seen obs x (on_room rid (\<lambda>r. r\<lparr>notified_turn := x4\<rparr>) s) = seen obs x s"
  "seen obs x (on_room rid (\<lambda>r. r\<lparr>pushed_turn := x4\<rparr>) s) = seen obs x s"
  "seen obs x (on_room rid (touch t) s) = seen obs x s"
  "seen obs x (on_room rid (\<lambda>r. (snd (invalidate_bot_turn r))\<lparr>bot_scheduled_at := x5\<rparr>) s) = seen obs x s"
  "seen obs x (on_room rid (\<lambda>r. r\<lparr>withdraw_time_left := x6\<rparr>) s) = seen obs x s"
  "seen obs x (on_room rid (add_chat_message t nm m u b) s) = seen obs x s"
  "seen obs x (on_tables (\<lambda>st. st\<lparr>hidden_sids := f st\<rparr>) s) = seen obs x s"
  by (rule seen_room; simp add: touch_def invalidate_bot_turn_def add_chat_message_def Let_def)+
    (simp add: seen_def room_at_def on_tables_def)

lemma seen_award [simp]: "seen obs x (award_achievements w rid ps n s) = seen obs x s"
proof -
  have "seen obs x (award_player w g names n p s) = seen obs x s" for g names p s
    by (simp add: award_player_def Let_def split: option.split)
  then show ?thesis by (auto simp: award_achievements_def intro!: seen_fold split: option.split)
qed

lemma seen_announce [simp]:
  "seen obs x (announce_rating_changes w rid ps n s) = seen obs x s" "seen obs x (announce_saved_game rid ps n s) = seen obs x s"
  "seen obs x (broadcast_rooms s) = seen obs x s"
  by (simp_all add: announce_rating_changes_def announce_saved_game_def broadcast_rooms_def emit_rooms_list_def split: option.split)

lemma seen_save [simp]: "seen obs x (snd (save_game_to_db w rid s)) = seen obs x s"
  by (simp add: save_game_to_db_def after_save_def Let_def split: option.split)

lemma seen_persist [simp]: "seen obs x (persist_async w rid s) = seen obs x s"
  by (simp add: persist_async_def Let_def split: option.split)

lemma seen_push [simp]: "seen obs x (maybe_push_turn w rid s) = seen obs x s"
  by (simp add: maybe_push_turn_def Let_def split: option.split prod.split)

lemma seen_admins [simp]: "seen obs x (notify_admins w rid s) = seen obs x s"
  by (simp add: notify_admins_def Let_def split: option.split)

lemma seen_states [simp]: "seen obs x (emit_all_states w rid s) = seen obs x s"
  by (simp add: emit_all_states_def split: option.split)

lemma seen_schedule [simp]: "seen obs x (schedule_bot_turn w rid s) = seen obs x s"
  by (simp add: schedule_bot_turn_def Let_def split: option.split)

lemma seen_replies [simp]:
  "seen obs x (broadcast_challenge_result rid r m s) = seen obs x s"
  "seen obs x (action_result sid b m s) = seen obs x s" "seen obs x (own_turn_result sid m s) = seen obs x s"
  "seen obs x (emit_error sid m s) = seen obs x s" "seen obs x (report_result sid b m s) = seen obs x s"
  "seen obs x (hint_reply sid m n s) = seen obs x s" "seen obs x (finish_puzzle_event w sid rid s) = seen obs x s"
  by (simp_all add: broadcast_challenge_result_def action_result_def own_turn_result_def emit_error_def report_result_def
      hint_reply_def finish_puzzle_event_def split: option.split)

lemma seen_limit: "check_limit w sid ev s = (b, s1) \<Longrightarrow> seen obs x s1 = seen obs x s"
  by (auto simp: check_limit_def split: prod.splits)

lemma seen_context: "room_context w sid ev s = (q, s1) \<Longrightarrow> seen obs x s1 = seen obs x s"
  by (auto simp: room_context_def split: prod.splits bool.splits dest: seen_limit)

end

end
