(* ===== verification/ServerTicks.thy ===== *)
theory ServerTicks
  imports ServerView GameEnds
begin

text \<open>
  What a step of the server does to one room: which operations leave its game and its timers alone, how a
  step of a game under its timers looks (\<open>follows\<close>), and how the tails of the handlers move the numbers of the timers.
\<close>

section \<open>What leaves a room's turn alone\<close>

definition turn_view :: "room \<Rightarrow> game \<times> nat \<times> nat \<times> bool" where
  "turn_view r = (room_game r, turn_timer_id r, challenge_timer_id r, is_async r)"

abbreviation view :: "str \<Rightarrow> server \<Rightarrow> (game \<times> nat \<times> nat \<times> bool) option" where
  "view \<equiv> seen turn_view"

interpretation turns: room_observer turn_view
  by unfold_locales (simp_all add: turn_view_def)

lemmas view_room = turns.seen_room
lemmas view_limit = turns.seen_limit
lemmas view_context = turns.seen_context

section \<open>What a step does to a game and its timers\<close>

text \<open>The numbers of the timers grow by \<open>k\<close> and \<open>l\<close>.\<close>

definition grow :: "nat \<Rightarrow> nat \<Rightarrow> game \<times> nat \<times> nat \<times> bool \<Rightarrow> game \<times> nat \<times> nat \<times> bool" where
  "grow k l = (\<lambda>(g, i, j, a). (g, i + k, j + l, a))"

definition grown :: "str \<Rightarrow> nat \<Rightarrow> nat \<Rightarrow> str \<Rightarrow> server \<Rightarrow> (game \<times> nat \<times> nat \<times> bool) option" where
  "grown rid k l x s = (if x = rid then map_option (grow k l) (view x s) else view x s)"

lemma grow_simp [simp]: "grow k l (g, i, j, a) = (g, i + k, j + l, a)"
  by (simp add: grow_def)

lemma view_game [simp]:
  "view x (on_game rid (\<lambda>_. g) s) = (if x = rid then map_option (\<lambda>(_, v). (g, v)) (view x s) else view x s)"
  by (auto simp: on_game_def seen_def room_at_on_room turn_view_def option.map_comp comp_def)

lemma view_invalidate [simp]:
  "view x (on_room rid (snd \<circ> invalidate_turn_timer) s) = grown rid 1 0 x s"
  "view x (on_room rid (snd \<circ> invalidate_challenge_timer) s) = grown rid 0 1 x s"
  by (auto simp: grown_def seen_def room_at_on_room turn_view_def option.map_comp comp_def invalidate_turn_timer_def
      invalidate_challenge_timer_def)

lemma view_start_challenge [simp]: "view x (start_challenge_timer rid s) = grown rid 0 1 x s"
  by (auto simp: start_challenge_timer_def grown_def split: option.split) (simp add: seen_def)

lemma view_started:
  "view x (on_room rid (\<lambda>r. (snd (invalidate_turn_timer r))\<lparr>timer_paused_left := a, turn_timer_expires_at := b\<rparr>) s)
     = grown rid 1 0 x s"
  by (auto simp: grown_def seen_def room_at_on_room turn_view_def option.map_comp comp_def invalidate_turn_timer_def)

lemma grown_zero: "grown rid 0 0 x s = view x s"
  by (cases "view x s") (auto simp: grown_def grow_def)

lemma view_start_turn: "\<exists>k. \<forall>x. view x (start_turn_timer w rid sec s) = grown rid k 0 x s"
proof -
  have "(\<forall>x. view x (start_turn_timer w rid sec s) = grown rid 0 0 x s)
      \<or> (\<forall>x. view x (start_turn_timer w rid sec s) = grown rid 1 0 x s)"
    by (simp add: start_turn_timer_def Let_def grown_zero view_started split: option.split)
  then show ?thesis by blast
qed

text \<open>A step of a game under its timers: which turn and which vote are still the same.\<close>

definition same_turn :: "game \<Rightarrow> game \<Rightarrow> bool" where
  "same_turn g g' \<longleftrightarrow> (turn_time_limit g \<noteq> 0 \<and> pending_challenge g = None \<longrightarrow>
     finished g' \<or> turn_number g' = turn_number g \<and> current_player_idx g' = current_player_idx g \<and> pending_challenge g' = None)"

definition same_vote :: "game \<Rightarrow> game \<Rightarrow> bool" where
  "same_vote g g' \<longleftrightarrow> (\<forall>p'. pending_challenge g' = Some p' \<longrightarrow>
     (\<exists>p. pending_challenge g = Some p \<and> tiles_placed p' = tiles_placed p \<and> player_idx p' = player_idx p))"

definition follows :: "game \<times> nat \<times> nat \<times> bool \<Rightarrow> game \<times> nat \<times> nat \<times> bool \<Rightarrow> bool" where
  "follows = (\<lambda>(g, i, j, a) (g', i', j', a'). a' = a \<and> (\<not> a \<longrightarrow>
     i \<le> i' \<and> j \<le> j' \<and> turn_time_limit g' = turn_time_limit g \<and> (finished g \<longrightarrow> finished g') \<and> (i' = i \<longrightarrow> same_turn g g') \<and> (j' = j \<longrightarrow> same_vote g g')))"

definition timed :: "str \<Rightarrow> server \<Rightarrow> server \<Rightarrow> bool" where
  "timed x s s' \<longleftrightarrow> (\<forall>v. view x s = Some v \<longrightarrow> \<not> snd (snd (snd v)) \<longrightarrow> (\<exists>v'. view x s' = Some v' \<and> follows v v'))"

lemma follows_simp: "follows (g, i, j, a) (g', i', j', a') \<longleftrightarrow> a' = a \<and> (\<not> a \<longrightarrow>
     i \<le> i' \<and> j \<le> j' \<and> turn_time_limit g' = turn_time_limit g \<and> (finished g \<longrightarrow> finished g') \<and> (i' = i \<longrightarrow> same_turn g g') \<and> (j' = j \<longrightarrow> same_vote g g'))"
  by (simp add: follows_def)

lemma same_refl [simp, intro]: "same_turn g g" "same_vote g g"
  by (simp_all add: same_turn_def same_vote_def)

lemma follows_refl [simp, intro]: "follows v v"
  by (cases v) (simp add: follows_simp)

lemma follows_trans:
  assumes "follows u v" "follows v z"
  shows "follows u z"
proof -
  obtain g i j a where u: "u = (g, i, j, a)" by (cases u) auto
  obtain g1 i1 j1 a1 where v: "v = (g1, i1, j1, a1)" by (cases v) auto
  obtain g2 i2 j2 a2 where z: "z = (g2, i2, j2, a2)" by (cases z) auto
  show ?thesis
  proof (cases a)
    case True
    then show ?thesis using assms u v z by (simp add: follows_simp)
  next
    case False
    then have le: "i \<le> i1" "i1 \<le> i2" "j \<le> j1" "j1 \<le> j2" and lim: "turn_time_limit g1 = turn_time_limit g" "turn_time_limit g2 = turn_time_limit g1" and a: "a1 = a" "a2 = a" and f: "finished g \<longrightarrow> finished g1" "finished g1 \<longrightarrow> finished g2"
      and t1: "i1 = i \<longrightarrow> same_turn g g1" and t2: "i2 = i1 \<longrightarrow> same_turn g1 g2"
      and v1: "j1 = j \<longrightarrow> same_vote g g1" and v2: "j2 = j1 \<longrightarrow> same_vote g1 g2"
      using assms u v z by (simp_all add: follows_simp)
    have "same_turn g g2" if "i2 = i"
    proof -
      have "same_turn g g1" "same_turn g1 g2" using le that t1 t2 by simp_all
      then show ?thesis using f lim by (auto simp: same_turn_def)
    qed
    moreover have "same_vote g g2" if "j2 = j"
    proof -
      have "same_vote g g1" "same_vote g1 g2" using le that v1 v2 by simp_all
      then show ?thesis by (fastforce simp: same_vote_def)
    qed
    ultimately show ?thesis using le lim a f by (simp add: u z follows_simp)
  qed
qed

lemma timed_view: "view x s' = view x s \<Longrightarrow> timed x s s'"
  by (simp add: timed_def)

lemma timed_cong: "view x s1 = view x s \<Longrightarrow> timed x s s' \<longleftrightarrow> timed x s1 s'"
  by (simp add: timed_def)

lemma timed_trans:
  assumes "timed x s s1" "timed x s1 s2"
  shows "timed x s s2"
  unfolding timed_def
proof (intro allI impI)
  fix v
  assume v: "view x s = Some v" "\<not> snd (snd (snd v))"
  then obtain v1 where v1: "view x s1 = Some v1" "follows v v1" using assms(1) by (auto simp: timed_def)
  then have "\<not> snd (snd (snd v1))" using v(2) by (simp add: follows_def case_prod_beta)
  then obtain v2 where v2: "view x s2 = Some v2" "follows v1 v2" using assms(2) v1(1) by (auto simp: timed_def)
  then show "\<exists>v'. view x s2 = Some v' \<and> follows v v'" using follows_trans [OF v1(2)] by blast
qed

text \<open>The shape of every handler: the game of one room is replaced, then the numbers grow.\<close>

definition ticks :: "str \<Rightarrow> nat \<Rightarrow> nat \<Rightarrow> server \<Rightarrow> server \<Rightarrow> bool" where
  "ticks rid k l s s' \<longleftrightarrow> (\<forall>x. view x s' = grown rid k l x s)"

lemma ticks_view: "(\<And>x. view x s' = view x s) \<Longrightarrow> ticks rid 0 0 s s'"
  by (simp add: ticks_def grown_zero)

lemma ticks_trans: "ticks rid k l s s1 \<Longrightarrow> ticks rid k' l' s1 s2 \<Longrightarrow> ticks rid (k + k') (l + l') s s2"
  by (auto simp: ticks_def grown_def option.map_comp comp_def grow_def case_prod_beta add.assoc intro!: option.map_cong)

lemma ticks_states [simp]:
  "ticks rid k l s (emit_all_states w r1 s') = ticks rid k l s s'"
  "ticks rid k l s (schedule_bot_turn w r1 s') = ticks rid k l s s'"
  "ticks rid k l s (snd (save_game_to_db w r1 s')) = ticks rid k l s s'"
  "ticks rid k l s (broadcast_rooms s') = ticks rid k l s s'"
  "ticks rid k l s (broadcast_challenge_result r1 v m s') = ticks rid k l s s'"
  "ticks rid k l s (emit e s') = ticks rid k l s s'"
  "ticks rid k l s (own_turn_result sid m s') = ticks rid k l s s'"
  "ticks rid k l s (finish_puzzle_event w sid r1 s') = ticks rid k l s s'"
  "ticks rid k l s (on_room r1 (\<lambda>r. r\<lparr>withdraw_time_left := t\<rparr>) s') = ticks rid k l s s'"
  by (simp_all add: ticks_def)

lemma ticks_bump [simp, intro]:
  "ticks rid (Suc 0) 0 s (on_room rid (snd \<circ> invalidate_turn_timer) s)"
  "ticks rid 0 (Suc 0) s (on_room rid (snd \<circ> invalidate_challenge_timer) s)"
  "ticks rid 0 (Suc 0) s (start_challenge_timer rid s)"
  by (simp_all add: ticks_def)

lemma ticks_start:
  obtains k where "ticks rid k 0 s (start_turn_timer w rid sec s)"
  using view_start_turn [of w rid sec s] by (auto simp: ticks_def)

definition permitted :: "room \<Rightarrow> nat \<Rightarrow> nat \<Rightarrow> game \<Rightarrow> bool" where
  "permitted r k l g \<longleftrightarrow> is_async r \<or> turn_time_limit g = turn_time_limit (room_game r) \<and> (finished (room_game r) \<longrightarrow> finished g)
     \<and> (k = 0 \<longrightarrow> same_turn (room_game r) g) \<and> (l = 0 \<longrightarrow> same_vote (room_game r) g)"

lemma timed_update:
  assumes "room_at rid s = Some r" "ticks rid k l (on_game rid (\<lambda>_. g) s) s'" "permitted r k l g"
  shows "timed x s s'"
proof (cases "x = rid")
  case True
  then have "view x s = Some (turn_view r)" using assms(1) by (simp add: seen_def)
  moreover have "view x s' = Some (g, turn_timer_id r + k, challenge_timer_id r + l, is_async r)"
    using assms(2) True calculation by (simp add: ticks_def grown_def turn_view_def)
  ultimately show ?thesis using assms(3) by (auto simp: timed_def turn_view_def follows_simp permitted_def)
next
  case False
  then show ?thesis using assms(2) by (auto simp: ticks_def grown_def intro!: timed_view)
qed

lemma view_same_game: "room_at rid s = Some r \<Longrightarrow> view y (on_game rid (\<lambda>_. room_game r) s) = view y s"
  by (cases "y = rid") (simp_all add: view_game seen_def [of turn_view rid s] turn_view_def)

lemma timed_same_game:
  assumes "room_at rid s = Some r" "ticks rid k l s s'"
  shows "timed x s s'"
proof (rule timed_update [OF assms(1), of k l "room_game r"])
  show "ticks rid k l (on_game rid (\<lambda>_. room_game r) s) s'"
    using assms(2) by (simp add: view_same_game [OF assms(1)] ticks_def grown_def del: view_game)
qed (simp add: permitted_def)

section \<open>The tails of the handlers\<close>

lemma ticks_start_live:
  assumes "room_at rid s = Some r" "pending_challenge (room_game r) = None" "turn_time_limit (room_game r) \<noteq> 0"
  shows "ticks rid (Suc 0) 0 s (start_turn_timer w rid sec s)"
  using assms by (simp add: start_turn_timer_def Let_def ticks_def view_started)

lemma ticks_after_placement:
  assumes "room_at rid s = Some r"
  obtains k l where "ticks rid k l s (after_placement w sid rid ex m sc s)" "0 < k" "pending_challenge (room_game r) \<noteq> None \<Longrightarrow> 0 < l"
proof -
  let ?s1 = "on_room rid (snd \<circ> invalidate_turn_timer) s"
  let ?s2 = "emit (ToSid sid (ascii ''action_result'') (JObj [(ascii ''success'', JBool True), (ascii ''message'', JStr m),
                     (ascii ''score'', JInt sc), (ascii ''own_turn'', JBool True)])) ?s1"
  have 2: "ticks rid (Suc 0) 0 s ?s2" by simp
  show thesis
  proof (cases "pending_challenge (room_game r) \<noteq> None")
    case True
    let ?s3 = "on_room rid (\<lambda>r. r\<lparr>withdraw_time_left := map_option (\<lambda>t. max (t - now w) 0) ex\<rparr>) ?s2"
    have "ticks rid (Suc 0 + 0) (0 + Suc 0) s (start_challenge_timer rid ?s3)"
      by (rule ticks_trans [OF _ ticks_bump(3)]) (simp add: 2)
    then show thesis using that [of "Suc 0" "Suc 0"] assms True by (simp add: after_placement_def Let_def)
  next
    case False
    obtain k where "ticks rid k 0 ?s2 (start_turn_timer w rid None ?s2)" by (rule ticks_start)
    from ticks_trans [OF 2 this] have "ticks rid (Suc k) 0 s (start_turn_timer w rid None ?s2)" by simp
    then show thesis using that [of "Suc k" 0] that [of "Suc 0" 0] assms False 2
      by (cases "finished (room_game r)"; cases "puzzle (room_game r)") (simp_all add: after_placement_def Let_def)
  qed
qed

text \<open>Either the timer is started or (the game is over) the game is saved.\<close>

lemma ticks_save_or_start:
  obtains k where "ticks rid k 0 s (if b then snd (save_game_to_db w rid s) else start_turn_timer w rid sec s)"
proof (cases b)
  case True
  then show thesis using that [of 0] ticks_view [of s s rid] by simp
next
  case False
  obtain k where "ticks rid k 0 s (start_turn_timer w rid sec s)" by (rule ticks_start)
  then show thesis using that [of k] False by simp
qed

section \<open>The games behind the handlers\<close>

lemma next_turn_limit [simp]: "turn_time_limit (next_turn e g) = turn_time_limit g"
  using next_turn_turned [of g e] by (auto simp: turned_def reset_deadline_def)

lemma end_game_limit [simp]: "turn_time_limit (end_game f g) = turn_time_limit g"
  by (auto simp: end_game_def announce_winners_def Let_def set_last_action_def split: list.split)

lemma steps_limit [simp]: "turn_time_limit (upd_player i f g) = turn_time_limit g" "turn_time_limit (set_last_action a b g) = turn_time_limit g"
  "turn_time_limit (record_move n act ts ws sc r g) = turn_time_limit g" "turn_time_limit (refill i g) = turn_time_limit g"
  "turn_time_limit (finish_puzzle i sc ws' g) = turn_time_limit g" "turn_time_limit (announce_place n ws' sc g) = turn_time_limit g"
  "turn_time_limit (return_tiles pc g) = turn_time_limit g"
  by (simp_all add: upd_player_def set_last_action_def record_move_def refill_def finish_puzzle_def announce_place_def return_tiles_def Let_def split: prod.split)

lemma scoreless_limit [simp]: "turn_time_limit (case register_scoreless_turn g of (True, g4) \<Rightarrow> g4 | (False, g4) \<Rightarrow> if b g4 then next_turn e g4 else g4) = turn_time_limit g"
   "turn_time_limit (case register_scoreless_turn g of (True, g4) \<Rightarrow> g4 | (False, g4) \<Rightarrow> next_turn e g4) = turn_time_limit g"
  by (simp_all add: register_scoreless_turn_def Let_def)

lemma accept_limit [simp]: "turn_time_limit (finalize_accept e g) = turn_time_limit g"
  by (simp add: finalize_accept_def Let_def split: option.split)

lemma reject_limit [simp]: "turn_time_limit (finalize_reject e g) = turn_time_limit g"
  by (simp add: finalize_reject_def Let_def split: option.split)

lemma resolve_limit [simp]: "turn_time_limit (snd (resolve_and_finalize e g)) = turn_time_limit g"
  by (simp add: resolve_and_finalize_def)

lemma place_limit: "turn_time_limit (snd (place_tiles e pid ts g)) = turn_time_limit g"
  by (simp add: place_tiles_def finalize_placement_def Let_def split: option.split sum.split prod.split)

lemma exchange_limit: "turn_time_limit (snd (exchange_tiles e pid idxs g)) = turn_time_limit g"
  by (simp add: exchange_tiles_def Let_def split: option.split prod.split)

lemma pass_limit: "turn_time_limit (snd (pass_turn e pid t g)) = turn_time_limit g"
  by (simp add: pass_turn_def Let_def split: option.split)

lemma vote_limit: "turn_time_limit (snd (cast_vote e pid v g)) = turn_time_limit g"
  by (simp add: cast_vote_def Let_def case_prod_beta split: option.split)

lemma withdraw_limit: "turn_time_limit (snd (withdraw_pending pid g)) = turn_time_limit g"
  by (simp add: withdraw_pending_def Let_def split: option.split)

lemma accept_over: "finished g \<Longrightarrow> finished (finalize_accept e g)"
  by (simp add: finalize_accept_def Let_def announce_place_def split: option.split)

lemma reject_over: "finished g \<Longrightarrow> finished (finalize_reject e g)"
  by (simp add: finalize_reject_def register_scoreless_turn_def return_tiles_def Let_def split: option.split)

lemma resolve_over: "finished g \<Longrightarrow> finished (snd (resolve_and_finalize e g))"
  by (simp add: resolve_and_finalize_def accept_over reject_over)

lemma idle_vote [simp]: "pending_challenge g' = None \<Longrightarrow> same_vote g g'"
  by (simp add: same_vote_def)

lemma pending_turn: "pending_challenge g \<noteq> None \<Longrightarrow> same_turn g g'"
  by (auto simp: same_turn_def)

text \<open>A reply of a player: refused, and the game is as before, or accepted in a running game with no vote.\<close>

lemma place_reply:
  assumes "place_tiles e pid ts g = (x, g')"
  shows "turn_time_limit g' = turn_time_limit g \<and> (g' = g \<or> is_done x \<and> \<not> finished g \<and> pending_challenge g = None)"
  using assms place_limit [of e pid ts g] by (auto simp: place_tiles_def placement_refused_def Let_def split: if_splits option.splits sum.splits prod.splits)

lemma idle_scoreless:
  assumes "pending_challenge g = None"
  shows "pending_challenge (case register_scoreless_turn g of (True, g4) \<Rightarrow> g4 | (False, g4) \<Rightarrow> next_turn e g4) = None"
  using assms by (simp add: register_scoreless_turn_def Let_def)

lemma exchange_reply:
  assumes "exchange_tiles e pid idxs g = (x, g')"
  shows "turn_time_limit g' = turn_time_limit g \<and> (g' = g \<and> \<not> is_done x \<or> is_done x \<and> \<not> finished g \<and> pending_challenge g' = None)"
proof (cases "exchange_refused pid idxs g")
  case (Some err)
  then show ?thesis using assms by (auto simp: exchange_tiles_def)
next
  case None
  then have g: "\<not> finished g" "pending_challenge g = None" by (auto simp: exchange_refused_def split: if_splits)
  have "is_done (fst (exchange_tiles e pid idxs g))" "pending_challenge (snd (exchange_tiles e pid idxs g)) = None"
    using None g(2) by (simp_all add: exchange_tiles_def Let_def case_prod_beta register_scoreless_turn_def)
  then show ?thesis using assms g exchange_limit [of e pid idxs g] by simp
qed

lemma pass_reply:
  assumes "pass_turn e pid t g = (x, g')"
  shows "turn_time_limit g' = turn_time_limit g \<and> (g' = g \<and> \<not> is_done x \<or> is_done x \<and> \<not> finished g \<and> pending_challenge g' = None)"
proof (cases "pass_refused pid g")
  case (Some err)
  then show ?thesis using assms by (auto simp: pass_turn_def)
next
  case None
  then have g: "\<not> finished g" "pending_challenge g = None" by (auto simp: pass_refused_def split: if_splits)
  have "is_done (fst (pass_turn e pid t g))" "pending_challenge (snd (pass_turn e pid t g)) = None"
    using None g(2) by (simp_all add: pass_turn_def Let_def case_prod_beta register_scoreless_turn_def)
  then show ?thesis using assms g pass_limit [of e pid t g] by simp
qed

lemma vote_reply:
  assumes "cast_vote e pid v g = (x, g')"
  shows "turn_time_limit g' = turn_time_limit g \<and> (g' = g \<and> \<not> is_done x \<or> (\<exists>txt. x = Done (Recorded, txt)) \<and> pending_challenge g \<noteq> None \<and> same_vote g g' \<and> finished g' = finished g
    \<or> (\<exists>r txt. x = Done (r, txt) \<and> r \<noteq> Recorded) \<and> pending_challenge g \<noteq> None \<and> pending_challenge g' = None \<and> (finished g \<longrightarrow> finished g'))"
proof (cases "pending_challenge g")
  case None
  then show ?thesis using assms by (auto simp: cast_vote_def)
next
  case (Some pc)
  let ?g1 = "g\<lparr>pending_challenge := Some (add_vote pid v pc)\<rparr>"
  have same: "same_vote g (set_last_action t i ?g1)" for t i
    using Some by (simp add: same_vote_def add_vote_def)
  have over: "finished g \<Longrightarrow> finished (snd (resolve_and_finalize e ?g1))" by (rule resolve_over) simp
  have kind: "fst (resolve_and_finalize e ?g1) \<noteq> Recorded" by (simp add: resolve_and_finalize_def)
  show ?thesis
    using assms Some same over kind resolve_keeps(3) [of e ?g1] vote_limit [of e pid v g]
    by (auto simp: cast_vote_def Let_def case_prod_beta split: if_splits option.splits)
qed

end
