(* ===== verification/ServerTimers.thy ===== *)
theory ServerTimers
  imports ServerTicks
begin

text \<open>
  Timers and turns. A timer that was started for a turn or for a vote may fire at any later moment, after any
  sequence of events; it acts only if that turn or that vote is still the current one.
\<close>

section \<open>The handlers\<close>

lemma timed_place: "timed x s (place_tiles_event w sid data s)"
proof -
  obtain q s1 where c: "room_context w sid (ascii ''place_tiles'') s = (q, s1)" by (cases "room_context w sid (ascii ''place_tiles'') s")
  have "timed x s1 (place_tiles_event w sid data s)"
  proof (cases "\<exists>rid kvs r tiles. q = Some rid \<and> as_object data = Some kvs \<and> room_at rid s1 = Some r
      \<and> validate_tiles_input (case map_of kvs (ascii ''tiles'') of Some v \<Rightarrow> v | None \<Rightarrow> JArr []) = Done tiles")
    case False
    then show ?thesis using c by (auto simp: place_tiles_event_def intro!: timed_view split: option.split outcome.split)
  next
    case True
    then obtain rid kvs r tiles where q: "q = Some rid" "as_object data = Some kvs" "room_at rid s1 = Some r"
      "validate_tiles_input (case map_of kvs (ascii ''tiles'') of Some v \<Rightarrow> v | None \<Rightarrow> JArr []) = Done tiles" by blast
    obtain y g where p: "place_tiles (game_env w) sid tiles (room_game r) = (y, g)"
      by (cases "place_tiles (game_env w) sid tiles (room_game r)")
    show ?thesis
    proof (cases y)
      case (Done a)
      obtain msg sc where a: "a = (msg, sc)" by (cases a)
      let ?s2 = "on_game rid (\<lambda>_. g) s1"
      have r2: "room_at rid ?s2 = Some (r\<lparr>room_game := g\<rparr>)" using q by (simp add: on_game_def room_at_on_room)
      obtain k l where kl: "ticks rid k l ?s2 (after_placement w sid rid (turn_timer_expires_at r) msg sc ?s2)" "0 < k"
        "pending_challenge (room_game (r\<lparr>room_game := g\<rparr>)) \<noteq> None \<Longrightarrow> 0 < l"
        using ticks_after_placement [OF r2] by blast
      have "same_vote (room_game r) g" if "l = 0" using kl(3) that by (cases "pending_challenge g") auto
      then have "permitted r k l g" using place_reply [OF p] kl(2) by (auto simp: permitted_def)
      then show ?thesis using timed_update [OF q(3) kl(1)] c q p Done a by (simp add: place_tiles_event_def)
    qed (use place_reply [OF p] c q p view_same_game [OF q(3), of x] in
      \<open>auto simp: place_tiles_event_def simp del: view_game intro!: timed_view\<close>)
  qed
  then show ?thesis using timed_cong [OF view_context [OF c]] by simp
qed

lemma timed_finish:
  assumes r: "room_at rid s = Some r"
    and lim: "turn_time_limit g = turn_time_limit (room_game r)"
    and reply: "g = room_game r \<and> \<not> is_done y \<or> is_done y \<and> \<not> finished (room_game r) \<and> pending_challenge g = None"
  shows "timed x s (finish_turn_action w sid rid (y, g) s)"
proof (cases y)
  case (Done msg)
  let ?s1 = "own_turn_result sid msg (on_room rid (snd \<circ> invalidate_turn_timer) (on_game rid (\<lambda>_. g) s))"
  let ?s2 = "if finished g then snd (save_game_to_db w rid ?s1) else start_turn_timer w rid None ?s1"
  have 1: "ticks rid (Suc 0) 0 (on_game rid (\<lambda>_. g) s) ?s1" by simp
  obtain k where "ticks rid k 0 ?s1 ?s2" by (rule ticks_save_or_start)
  from ticks_trans [OF 1 this] have "ticks rid (Suc k) 0 (on_game rid (\<lambda>_. g) s) ?s2" by simp
  then have "ticks rid (Suc k) 0 (on_game rid (\<lambda>_. g) s) (finish_turn_action w sid rid (y, g) s)"
    using Done by (simp add: finish_turn_action_def Let_def)
  moreover have "permitted r (Suc k) 0 g" using lim reply Done by (auto simp: permitted_def)
  ultimately show ?thesis using timed_update [OF r] by blast
qed (use reply view_same_game [OF r, of x] in \<open>auto simp: finish_turn_action_def simp del: view_game intro!: timed_view\<close>)

lemma timed_exchange: "timed x s (exchange_tiles_event w sid data s)"
proof -
  obtain q s1 where c: "room_context w sid (ascii ''exchange_tiles'') s = (q, s1)"
    by (cases "room_context w sid (ascii ''exchange_tiles'') s")
  have "timed x s1 (finish_turn_action w sid rid (exchange_tiles e sid idxs (room_game r)) s1)"
    if "room_at rid s1 = Some r" for rid r e idxs
    using timed_finish [OF that] exchange_reply [of e sid idxs "room_game r"]
    by (cases "exchange_tiles e sid idxs (room_game r)") auto
  then have "timed x s1 (exchange_tiles_event w sid data s)"
    using c by (auto simp: exchange_tiles_event_def intro!: timed_view split: option.split)
  then show ?thesis using timed_cong [OF view_context [OF c]] by simp
qed

lemma timed_pass: "timed x s (pass_turn_event w sid s)"
proof -
  obtain q s1 where c: "room_context w sid (ascii ''pass_turn'') s = (q, s1)" by (cases "room_context w sid (ascii ''pass_turn'') s")
  have "timed x s1 (finish_turn_action w sid rid (pass_turn e sid t (room_game r)) s1)"
    if "room_at rid s1 = Some r" for rid r e t
    using timed_finish [OF that] pass_reply [of e sid t "room_game r"] by (cases "pass_turn e sid t (room_game r)") auto
  then have "timed x s1 (pass_turn_event w sid s)"
    using c by (auto simp: pass_turn_event_def intro!: timed_view split: option.split)
  then show ?thesis using timed_cong [OF view_context [OF c]] by simp
qed

lemma ticks_handle:
  obtains k l where "ticks rid k l s (handle_challenge_result w rid v m s)" "v \<noteq> Recorded \<Longrightarrow> 0 < l"
proof -
  let ?l = "if v \<noteq> Recorded then Suc 0 else 0"
  let ?s1 = "if v \<noteq> Recorded then on_room rid (snd \<circ> invalidate_challenge_timer) s else s"
  let ?s2 = "broadcast_challenge_result rid v m ?s1"
  let ?s3 = "if room_finished rid ?s2 then snd (save_game_to_db w rid ?s2) else start_turn_timer w rid None ?s2"
  have 2: "ticks rid 0 ?l s ?s2" using ticks_view [of s s rid] by simp
  obtain k where "ticks rid k 0 ?s2 ?s3" by (rule ticks_save_or_start)
  from ticks_trans [OF 2 this] have "ticks rid k ?l s (handle_challenge_result w rid v m s)"
    by (simp add: handle_challenge_result_def Let_def)
  then show thesis using that by simp
qed

lemma timed_vote: "timed x s (vote_event w sid ev b s)"
proof -
  obtain q s1 where c: "room_context w sid ev s = (q, s1)" by (cases "room_context w sid ev s")
  have "timed x s1 (vote_event w sid ev b s)"
  proof (cases "\<exists>rid r. q = Some rid \<and> room_at rid s1 = Some r")
    case False
    then show ?thesis using c by (auto simp: vote_event_def intro!: timed_view split: option.split)
  next
    case True
    then obtain rid r where q: "q = Some rid" "room_at rid s1 = Some r" by blast
    obtain y g where y: "cast_vote (game_env w) sid (if b then Accept else Reject) (room_game r) = (y, g)"
      by (cases "cast_vote (game_env w) sid (if b then Accept else Reject) (room_game r)")
    have eq: "(if b then accept_pending_by_player (game_env w) sid (room_game r)
        else reject_pending_by_player (game_env w) sid (room_game r)) = (y, g)"
      using y by (cases b) (simp_all add: accept_pending_by_player_def reject_pending_by_player_def)
    show ?thesis
    proof (cases y)
      case (Done a)
      obtain v m where a: "a = (v, m)" by (cases a)
      obtain k l where kl: "ticks rid k l (on_game rid (\<lambda>_. g) s1) (handle_challenge_result w rid v m (on_game rid (\<lambda>_. g) s1))"
        "v \<noteq> Recorded \<Longrightarrow> 0 < l" by (rule ticks_handle) blast
      have "permitted r k l g"
        using vote_reply [OF y] Done a kl(2) by (auto simp: permitted_def intro: pending_turn)
      then show ?thesis using timed_update [OF q(2) kl(1)] c q eq Done a by (simp add: vote_event_def)
    qed (use vote_reply [OF y] c q eq view_same_game [OF q(2), of x] in \<open>auto simp: vote_event_def simp del: view_game intro!: timed_view\<close>)
  qed
  then show ?thesis using timed_cong [OF view_context [OF c]] by simp
qed

lemma withdraw_reply:
  assumes "withdraw_pending pid g = (x, g')"
  shows "turn_time_limit g' = turn_time_limit g
    \<and> (g' = g \<and> \<not> is_done x \<or> is_done x \<and> pending_challenge g \<noteq> None \<and> pending_challenge g' = None \<and> finished g' = finished g)"
  using assms withdraw_limit [of pid g] by (auto simp: withdraw_pending_def return_tiles_def Let_def split: option.splits if_splits)

lemma timed_withdraw: "timed x s (withdraw_words w sid s)"
proof -
  obtain q s1 where c: "room_context w sid (ascii ''withdraw_words'') s = (q, s1)"
    by (cases "room_context w sid (ascii ''withdraw_words'') s")
  have "timed x s1 (withdraw_words w sid s)"
  proof (cases "\<exists>rid r. q = Some rid \<and> room_at rid s1 = Some r")
    case False
    then show ?thesis using c by (auto simp: withdraw_words_def intro!: timed_view split: option.split)
  next
    case True
    then obtain rid r where q: "q = Some rid" "room_at rid s1 = Some r" by blast
    obtain y g where y: "withdraw_pending sid (room_game r) = (y, g)" by (cases "withdraw_pending sid (room_game r)")
    show ?thesis
    proof (cases y)
      case (Done m)
      let ?s2 = "on_room rid (snd \<circ> invalidate_challenge_timer) (on_game rid (\<lambda>_. g) s1)"
      let ?s3 = "start_turn_timer w rid (map_option (\<lambda>l. max l MIN_TIME_AFTER_WITHDRAW) (withdraw_time_left r)) ?s2"
      obtain k where "ticks rid k 0 ?s2 ?s3" by (rule ticks_start)
      from ticks_trans [OF ticks_bump(2) this] have "ticks rid k (Suc 0) (on_game rid (\<lambda>_. g) s1) (withdraw_words w sid s)"
        using c q y Done by (simp add: withdraw_words_def)
      moreover have "permitted r k (Suc 0) g" using withdraw_reply [OF y] Done by (auto simp: permitted_def intro: pending_turn)
      ultimately show ?thesis using timed_update [OF q(2)] by blast
    qed (use withdraw_reply [OF y] c q y view_same_game [OF q(2), of x] in
        \<open>auto simp: withdraw_words_def simp del: view_game intro!: timed_view\<close>)
  qed
  then show ?thesis using timed_cong [OF view_context [OF c]] by simp
qed

lemma timed_async:
  assumes "room_at rid s = Some r" "is_async r" "\<And>y. y \<noteq> rid \<Longrightarrow> view y s' = view y s"
  shows "timed x s s'"
proof (cases "x = rid")
  case True
  then show ?thesis using assms(1,2) by (auto simp: timed_def seen_def turn_view_def)
next
  case False
  then show ?thesis using assms(3) by (simp add: timed_view)
qed

lemma timed_resign: "timed x s (resign_game_event w sid s)"
proof -
  obtain q s1 where c: "room_context w sid (ascii ''resign_game'') s = (q, s1)" by (cases "room_context w sid (ascii ''resign_game'') s")
  have "timed x s1 (resign_game_event w sid s)"
  proof (cases "\<exists>rid r. q = Some rid \<and> room_at rid s1 = Some r \<and> is_async r")
    case False
    then show ?thesis using c by (auto simp: resign_game_event_def intro!: timed_view split: option.split)
  next
    case True
    then obtain rid r where q: "q = Some rid" "room_at rid s1 = Some r" "is_async r" by blast
    show ?thesis
    proof (rule timed_async [OF q(2,3)])
      fix y
      assume "y \<noteq> rid"
      then show "view y (resign_game_event w sid s) = view y s1"
        using c q by (simp add: resign_game_event_def split: prod.split outcome.split)
    qed
  qed
  then show ?thesis using timed_cong [OF view_context [OF c]] by simp
qed

section \<open>The timers that fire\<close>

lemma timed_turn_timeout: "timed x s (turn_timeout w rid n s)"
proof (cases "\<exists>r p. room_at rid s = Some r \<and> turn_timer_id r = n \<and> \<not> finished (room_game r) \<and> started (room_game r)
    \<and> current_player (room_game r) = Some p")
  case False
  then show ?thesis by (auto simp: turn_timeout_def Let_def intro!: timed_view split: option.split)
next
  case True
  then obtain r p where r: "room_at rid s = Some r" "turn_timer_id r = n" "\<not> finished (room_game r)" "started (room_game r)"
    "current_player (room_game r) = Some p" by blast
  obtain y g where y: "pass_turn (game_env w) (player_id p) False (room_game r) = (y, g)"
    by (cases "pass_turn (game_env w) (player_id p) False (room_game r)")
  show ?thesis
  proof (cases y)
    case (Done m)
    let ?s1 = "emit (ToRoom rid (ascii ''action_result'') (JObj [(ascii ''success'', JBool True),
       (ascii ''message'', JStr (hu ''Id&ot~ull~ep~es: '' @ player_name p @ ascii '' passzolt.''))])) (on_game rid (\<lambda>_. g) s)"
    have eq: "turn_timeout w rid n s =
        (if finished g then snd (save_game_to_db w rid (emit_all_states w rid (on_room rid (snd \<circ> invalidate_turn_timer) ?s1)))
         else schedule_bot_turn w rid (emit_all_states w rid (start_turn_timer w rid None ?s1)))"
      using r y Done by (simp add: turn_timeout_def Let_def)
    have reply: "turn_time_limit g = turn_time_limit (room_game r)" "pending_challenge g = None"
      using pass_reply [OF y] Done by auto
    have 1: "ticks rid 0 0 (on_game rid (\<lambda>_. g) s) ?s1" by (simp add: ticks_view)
    show ?thesis
    proof (cases "finished g \<or> turn_time_limit g = 0")
      case True
      obtain k where k: "ticks rid k 0 ?s1 (start_turn_timer w rid None ?s1)" by (rule ticks_start)
      have "ticks rid (if finished g then Suc 0 else k) 0 (on_game rid (\<lambda>_. g) s) (turn_timeout w rid n s)"
        using ticks_trans [OF 1 k] ticks_trans [OF 1 ticks_bump(1)] by (simp add: eq)
      moreover have "permitted r (if finished g then Suc 0 else k) 0 g" using True reply r(3) by (auto simp: permitted_def same_turn_def)
      ultimately show ?thesis using timed_update [OF r(1)] by blast
    next
      case False
      have "room_at rid ?s1 = Some (r\<lparr>room_game := g\<rparr>)" using r(1) by (simp add: on_game_def room_at_on_room)
      from ticks_trans [OF 1 ticks_start_live [OF this]] have "ticks rid (Suc 0) 0 (on_game rid (\<lambda>_. g) s) (turn_timeout w rid n s)"
        using False reply by (simp add: eq)
      moreover have "permitted r (Suc 0) 0 g" using reply r(3) by (simp add: permitted_def)
      ultimately show ?thesis using timed_update [OF r(1)] by blast
    qed
  qed (use y r in \<open>auto simp: turn_timeout_def Let_def intro!: timed_view\<close>)
qed

lemma accept_pending_reply:
  assumes "accept_pending e g = (x, g')"
  shows "turn_time_limit g' = turn_time_limit g \<and> (g' = g \<and> \<not> is_done x
    \<or> is_done x \<and> pending_challenge g \<noteq> None \<and> pending_challenge g' = None \<and> (finished g \<longrightarrow> finished g'))"
  using assms resolve_keeps(3) [of e g] resolve_over [of g e] resolve_limit [of e g]
  by (auto simp: accept_pending_def case_prod_beta split: if_splits)

lemma timed_challenge_timeout: "timed x s (challenge_timeout w rid n s)"
proof (cases "\<exists>r. room_at rid s = Some r \<and> challenge_timer_id r = n \<and> pending_challenge (room_game r) \<noteq> None")
  case False
  then show ?thesis by (auto simp: challenge_timeout_def intro!: timed_view split: option.split)
next
  case True
  then obtain r where r: "room_at rid s = Some r" "challenge_timer_id r = n" "pending_challenge (room_game r) \<noteq> None" by blast
  then obtain pc where pc: "pending_challenge (room_game r) = Some pc" by blast
  obtain y g where y: "accept_pending (game_env w) (room_game r) = (y, g)" by (cases "accept_pending (game_env w) (room_game r)")
  show ?thesis
  proof (cases y)
    case (Done a)
    obtain v m where a: "a = (v, m)" by (cases a)
    let ?s1 = "broadcast_challenge_result rid v m (on_game rid (\<lambda>_. g) s)"
    obtain k where k: "ticks rid k 0 ?s1 (start_turn_timer w rid None ?s1)" by (rule ticks_start)
    have 1: "ticks rid 0 0 (on_game rid (\<lambda>_. g) s) ?s1" by (simp add: ticks_view)
    have "ticks rid (if finished g then 0 else k) 0 (on_game rid (\<lambda>_. g) s) (challenge_timeout w rid n s)"
      using r(1,2) pc y Done a ticks_trans [OF 1 k] 1 by (simp add: challenge_timeout_def Let_def)
    moreover have "permitted r (if finished g then 0 else k) 0 g"
      using accept_pending_reply [OF y] Done by (auto simp: permitted_def intro: pending_turn)
    ultimately show ?thesis using timed_update [OF r(1)] by blast
  qed (use y r in \<open>auto simp: challenge_timeout_def intro!: timed_view\<close>)
qed

lemma ticks_after_bot:
  assumes "room_at rid s = Some r"
  obtains k l where "ticks rid k l s (after_bot_move w rid s)" "0 < k" "pending_challenge (room_game r) \<noteq> None \<Longrightarrow> 0 < l"
proof -
  let ?s1 = "on_room rid (snd \<circ> invalidate_turn_timer) s"
  show thesis
  proof (cases "pending_challenge (room_game r)")
    case None
    let ?s2 = "if finished (room_game r) then snd (save_game_to_db w rid ?s1) else start_turn_timer w rid None ?s1"
    obtain k where "ticks rid k 0 ?s1 ?s2" by (rule ticks_save_or_start)
    from ticks_trans [OF ticks_bump(1) this] have "ticks rid (Suc k) 0 s ?s2" by simp
    then have "ticks rid (Suc k) 0 s (after_bot_move w rid s)" using assms None by (cases "finished (room_game r)") (simp_all add: after_bot_move_def Let_def)
    then show thesis using that None by blast
  next
    case (Some pc)
    have "ticks rid (Suc 0) (Suc 0) s (start_challenge_timer rid ?s1)" using ticks_trans [OF ticks_bump(1) ticks_bump(3)] by simp
    then have "ticks rid (Suc 0) (Suc 0) s (after_bot_move w rid s)" using assms Some by (simp add: after_bot_move_def Let_def)
    then show thesis using that by blast
  qed
qed

text \<open>A reply that keeps the game unless the running game accepted the move.\<close>

definition replied :: "game \<Rightarrow> bool \<Rightarrow> game \<Rightarrow> bool" where
  "replied g ok g' \<longleftrightarrow> turn_time_limit g' = turn_time_limit g \<and> (g' = g \<or> ok \<and> \<not> finished g)"

lemma replied_then_pass:
  assumes "replied g ok g1" "\<not> ok" "pass_turn e robot False g1 = (x, g')"
  shows "replied g (is_done x) g'"
  using assms(1,2) pass_reply [OF assms(3)] by (auto simp: replied_def)

lemma bot_acts_reply:
  assumes "bot_acts e robot act g = (ok, g')"
  shows "replied g ok g'"
proof -
  obtain ok1 g1 where 1: "(case act of
                 action.Place ts _ _ \<Rightarrow> (case place_tiles e robot ts g of (x, g') \<Rightarrow> (is_done x, g'))
               | action.Exchange is \<Rightarrow> (case exchange_tiles e robot (map int is) g of (x, g') \<Rightarrow> (is_done x, g'))
               | action.Pass \<Rightarrow> (False, g)) = (ok1, g1)" by fastforce
  then have r1: "replied g ok1 g1"
    using place_reply [of e robot _ g] exchange_reply [of e robot _ g]
    by (fastforce simp: replied_def split: action.splits prod.splits)
  obtain x g2 where 2: "pass_turn e robot False g1 = (x, g2)" by (cases "pass_turn e robot False g1")
  have "(ok, g') = (if ok1 then (ok1, g1) else (is_done x, g2))"
    using assms 2 unfolding bot_acts_def Let_def 1 fst_conv snd_conv by (simp split: if_splits)
  then show ?thesis using r1 replied_then_pass [OF r1 _ 2] by (auto split: if_splits)
qed

lemma timed_bot_apply: "timed x s (snd (bot_apply w rid turn b act s))"
proof (cases "snd (bot_apply w rid turn b act s) = s")
  case True
  then show ?thesis by (simp add: timed_view)
next
  case False
  then obtain r ok g where r: "room_at rid s = Some r" "pending_challenge (room_game r) = None"
    "bot_acts (game_env w) (b_id b) act (room_game r) = (ok, g)"
    "snd (bot_apply w rid turn b act s) = (if ok then after_bot_move w rid (on_game rid (\<lambda>_. g) s) else on_game rid (\<lambda>_. g) s)"
    by (auto simp: bot_apply_def Let_def split: option.splits if_splits prod.splits)
  note reply = bot_acts_reply [OF r(3)]
  let ?s2 = "on_game rid (\<lambda>_. g) s"
  show ?thesis
  proof (cases ok)
    case True
    have r2: "room_at rid ?s2 = Some (r\<lparr>room_game := g\<rparr>)" using r(1) by (simp add: on_game_def room_at_on_room)
    obtain k l where kl: "ticks rid k l ?s2 (after_bot_move w rid ?s2)" "0 < k"
      "pending_challenge (room_game (r\<lparr>room_game := g\<rparr>)) \<noteq> None \<Longrightarrow> 0 < l"
      using ticks_after_bot [OF r2] by blast
    have "same_vote (room_game r) g" if "l = 0" using kl(3) that by (cases "pending_challenge g") auto
    then have "permitted r k l g" using reply kl(2) by (auto simp: permitted_def replied_def)
    then show ?thesis using timed_update [OF r(1) kl(1)] r(4) True by simp
  next
    case False
    then show ?thesis using reply r(4) view_same_game [OF r(1), of x] by (simp add: timed_view replied_def del: view_game)
  qed
qed

lemma timed_advance: "timed x s (advance_turn_if_needed w rid s)"
proof (cases "\<exists>r g. room_at rid s = Some r \<and> skip_disconnected_current (game_env w) (room_game r) = (True, g)")
  case False
  then show ?thesis by (auto simp: advance_turn_if_needed_def intro!: timed_view split: option.split prod.split bool.split)
next
  case True
  then obtain r g where r: "room_at rid s = Some r" "skip_disconnected_current (game_env w) (room_game r) = (True, g)" by blast
  then have g: "g = next_turn (game_env w) (room_game r)" "\<not> finished (room_game r)" "pending_challenge (room_game r) = None"
    by (auto simp: skip_disconnected_current_def split: if_splits option.splits)
  let ?s2 = "on_room rid (snd \<circ> invalidate_turn_timer) (on_game rid (\<lambda>_. g) s)"
  obtain k where "ticks rid k 0 ?s2 (start_turn_timer w rid None ?s2)" by (rule ticks_start)
  from ticks_trans [OF ticks_bump(1) this]
  have "ticks rid (Suc k) 0 (on_game rid (\<lambda>_. g) s) (advance_turn_if_needed w rid s)"
    using r by (simp add: advance_turn_if_needed_def)
  moreover have "permitted r (Suc k) 0 g" using g by (simp add: permitted_def)
  ultimately show ?thesis using timed_update [OF r(1)] by blast
qed

lemma view_give_up: "y \<noteq> rid \<Longrightarrow> view y (give_up_room rid s) = view y s"
proof -
  assume ne: "y \<noteq> rid"
  have clean: "map_of (rooms (cleanup_room rid st)) y = map_of (rooms st) y" for st
  proof -
    have 1: "rooms (fold drop_disconnected es st) = rooms st" for es st
      by (induction es arbitrary: st) (auto simp: drop_disconnected_def)
    have "map_of (rooms (remove_room rid st)) y = map_of (rooms st) y" for st
      using ne by (simp add: remove_room_def delete_conv split: option.split)
    then show ?thesis
      by (simp add: cleanup_room_def cleanup_room_tokens_def remove_invites_for_room_def Let_def 1)
  qed
  have 2: "view y (on_tables (cleanup_room rid) s) = view y s" for s
    by (simp add: seen_def room_at_def on_tables_def clean)
  have 3: "view y (on_room rid (snd \<circ> invalidate_bot_turn) s) = view y s" for s
    by (rule view_room) (simp add: turn_view_def invalidate_bot_turn_def)
  show ?thesis by (simp add: give_up_room_def Let_def 2 3 split: option.split)
qed

lemma timed_expire: "timed x s (snd (expire_room w t rid (n, s)))"
proof (cases "\<exists>r. room_at rid s = Some r \<and> is_async r")
  case False
  then show ?thesis by (auto simp: expire_room_def Let_def intro!: timed_view split: option.split)
next
  case True
  then obtain r where r: "room_at rid s = Some r" "is_async r" by blast
  show ?thesis
  proof (rule timed_async [OF r])
    fix y
    assume "y \<noteq> rid"
    then show "view y (snd (expire_room w t rid (n, s))) = view y s"
      using r by (simp add: expire_room_def cleanup_finished_async_def view_give_up Let_def split: prod.split option.split)
  qed
qed

lemma timed_sweep: "timed x s (snd (expire_async_turns w m s))"
proof -
  have "timed x s (snd (fold (expire_room w t) rids (n, s)))" for t rids n s
  proof (induction rids arbitrary: n s)
    case Nil
    then show ?case by (simp add: timed_view)
  next
    case (Cons rid rids)
    obtain n1 s1 where 1: "expire_room w t rid (n, s) = (n1, s1)" by (cases "expire_room w t rid (n, s)")
    then have "timed x s s1" using timed_expire [of x s w t rid n] by simp
    then show ?case using timed_trans Cons.IH [where n = n1 and s = s1] 1 by (simp add: timed_trans)
  qed
  then show ?thesis by (simp add: expire_async_turns_def)
qed

lemma timed_hint_answer: "timed x s (hint_answer w sid h found s)"
proof (cases "\<exists>moves r g. found = Some moves \<and> moves \<noteq> [] \<and> room_at (h_room h) s = Some r \<and> use_hint (room_game r) = (True, g)")
  case True
  then obtain moves r g where r: "found = Some moves" "moves \<noteq> []" "room_at (h_room h) s = Some r" "use_hint (room_game r) = (True, g)"
    by blast
  have "hint_answer w sid h found s = hint_reply sid (hu ''Most nem k~erhetsz tippet.'') None s
      \<or> (\<exists>e. hint_answer w sid h found s = emit e (emit_all_states w (h_room h) (on_game (h_room h) (\<lambda>_. g) s)))"
    using r by (auto simp: hint_answer_def Let_def)
  then have "view x (hint_answer w sid h found s) = view x s \<or> ticks (h_room h) 0 0 (on_game (h_room h) (\<lambda>_. g) s) (hint_answer w sid h found s)"
    by (auto simp: ticks_view)
  moreover have "permitted r 0 0 g" using r(4) by (auto simp: use_hint_def permitted_def same_turn_def same_vote_def split: if_splits)
  ultimately show ?thesis using timed_update [OF r(3)] timed_view by blast
next
  case False
  have "view x (hint_answer w sid h found s) = view x s"
  proof (cases found)
    case None
    then show ?thesis by (simp add: hint_answer_def)
  next
    case (Some moves)
    show ?thesis
    proof (cases "room_at (h_room h) s")
      case None
      then show ?thesis using Some by (simp add: hint_answer_def)
    next
      case (Some r)
      then show ?thesis using False \<open>found = Some moves\<close> view_same_game [OF Some, of x]
        by (auto simp: hint_answer_def Let_def simp del: view_game split: prod.split bool.split)
    qed
  qed
  then show ?thesis by (rule timed_view)
qed

lemma view_hint_request: "view x (snd (hint_request w sid s)) = view x s"
  by (auto simp: hint_request_def Let_def split: prod.split bool.split option.split dest!: view_limit)

lemma view_chat: "view x (send_chat w sid data s) = view x s"
  by (auto simp: send_chat_def Let_def split: prod.split option.split dest!: view_context)

lemma view_report: "view x (report_content w sid data s) = view x s"
  by (auto simp: report_content_def Let_def split: prod.split bool.split option.split dest!: view_limit)

lemma view_preview: "view x (preview_move w sid data s) = view x s"
  by (auto simp: preview_move_def Let_def split: prod.split bool.split option.split outcome.split dest!: view_limit)

lemma view_visibility: "view x (set_visibility w sid data s) = view x s"
  by (auto simp: set_visibility_def Let_def split: prod.split bool.split option.split dest!: view_limit)

section \<open>Runs\<close>

text \<open>The messages of the players of a game and the timers that fire, each with the answers of the world.\<close>

datatype play_event =
    PlaceMsg str json
  | ExchangeMsg str json
  | PassMsg str
  | AcceptMsg str
  | RejectMsg str
  | WithdrawMsg str
  | ResignMsg str
  | ChatMsg str json
  | ReportMsg str json
  | PreviewMsg str json
  | VisibilityMsg str json
  | HintMsg str
  | HintFound str hint_snapshot "bot_move list option"
  | TurnFires str nat
  | VoteFires str nat
  | BotFires str "nat option" bot_snapshot action
  | SkipAway str
  | SweepFires "real option"

fun play_step :: "world \<Rightarrow> play_event \<Rightarrow> server \<Rightarrow> server" where
  "play_step w (PlaceMsg sid data) s = place_tiles_event w sid data s"
| "play_step w (ExchangeMsg sid data) s = exchange_tiles_event w sid data s"
| "play_step w (PassMsg sid) s = pass_turn_event w sid s"
| "play_step w (AcceptMsg sid) s = accept_words w sid s"
| "play_step w (RejectMsg sid) s = reject_words w sid s"
| "play_step w (WithdrawMsg sid) s = withdraw_words w sid s"
| "play_step w (ResignMsg sid) s = resign_game_event w sid s"
| "play_step w (ChatMsg sid data) s = send_chat w sid data s"
| "play_step w (ReportMsg sid data) s = report_content w sid data s"
| "play_step w (PreviewMsg sid data) s = preview_move w sid data s"
| "play_step w (VisibilityMsg sid data) s = set_visibility w sid data s"
| "play_step w (HintMsg sid) s = snd (hint_request w sid s)"
| "play_step w (HintFound sid h found) s = hint_answer w sid h found s"
| "play_step w (TurnFires rid n) s = turn_timeout w rid n s"
| "play_step w (VoteFires rid n) s = challenge_timeout w rid n s"
| "play_step w (BotFires rid n b act) s = snd (bot_apply w rid n b act s)"
| "play_step w (SkipAway rid) s = advance_turn_if_needed w rid s"
| "play_step w (SweepFires t) s = snd (expire_async_turns w t s)"

definition play_run :: "(world \<times> play_event) list \<Rightarrow> server \<Rightarrow> server" where
  "play_run es s = fold (\<lambda>(w, e). play_step w e) es s"

lemma timed_play_step: "timed x s (play_step w e s)"
  by (cases e)
    (simp_all add: timed_place timed_exchange timed_pass timed_vote accept_words_def reject_words_def timed_withdraw timed_resign
      timed_hint_answer timed_turn_timeout timed_challenge_timeout timed_bot_apply timed_advance timed_sweep
      timed_view view_chat view_report view_preview view_visibility view_hint_request)

lemma timed_play_run: "timed x s (play_run es s)"
proof (induction es arbitrary: s)
  case Nil
  then show ?case by (simp add: play_run_def timed_view)
next
  case (Cons we es)
  obtain w e where we: "we = (w, e)" by (cases we)
  have "play_run (we # es) s = play_run es (play_step w e s)" by (simp add: play_run_def we)
  then show ?case using timed_trans [OF timed_play_step Cons.IH] by simp
qed

lemma play_run_room:
  assumes "room_at rid s = Some r" "\<not> is_async r"
  obtains r' where "room_at rid (play_run es s) = Some r'" "follows (turn_view r) (turn_view r')"
  using timed_play_run [of rid s es] assms by (auto simp: timed_def seen_def turn_view_def)


text \<open>A server with one room.\<close>

definition demo_server :: "game \<Rightarrow> server" where
  "demo_server g = \<lparr>tables = state_new\<lparr>rooms := [([7], room_new 0 [7] g None [65] [66] 4 [] False None)]\<rparr>,
     limiter = limiter_new [] [], outbox = []\<rparr>"

lemma demo_server_simps [simp]:
  "room_at [7] (demo_server g) = Some (room_new 0 [7] g None [65] [66] 4 [] False None)" "outbox (demo_server g) = []"
  by (simp_all add: demo_server_def room_at_def)


text \<open>
  C33. The time limit of a vote only ever closes the vote it was started for: whatever happens in the meantime, when it
  fires then either nothing happens or the placement the room votes on is still the same tiles of the same player.
\<close>

theorem vote_timer_spares_later_votes:
  assumes "room_at rid s0 = Some r0" "\<not> is_async r0" "pending_challenge (room_game r0) = Some p0"
    and "start_challenge_timer rid s0 = s" "outbox s = outbox s0 @ [SetTimer (ChallengeTimer rid n)]"
    and "s' = play_run es s"
  shows "challenge_timeout w rid n s' = s'
    \<or> (\<exists>r' p'. room_at rid s' = Some r' \<and> pending_challenge (room_game r') = Some p'
         \<and> tiles_placed p' = tiles_placed p0 \<and> player_idx p' = player_idx p0)"
proof -
  have n: "n = challenge_timer_id r0 + 1"
    using assms(1,4,5) by (auto simp: start_challenge_timer_def invalidate_challenge_timer_def emit_def on_room_def on_tables_def)
  then obtain r where r: "room_at rid s = Some r" "turn_view r = (room_game r0, turn_timer_id r0, n, False)"
    using view_start_challenge [of rid rid s0] assms(1,2,4) by (auto simp: grown_def seen_def turn_view_def)
  then obtain r' where r': "room_at rid s' = Some r'" "follows (turn_view r) (turn_view r')"
    using play_run_room [of rid s r es] assms(6) by (auto simp: turn_view_def)
  show ?thesis
  proof (cases "challenge_timer_id r' = n \<and> pending_challenge (room_game r') \<noteq> None")
    case True
    then have "same_vote (room_game r0) (room_game r')" using r' r(2) by (simp add: follows_simp turn_view_def [of r'])
    then show ?thesis using assms(3) True r'(1) by (auto simp: same_vote_def)
  next
    case False
    then show ?thesis using r'(1) by (auto simp: challenge_timeout_def)
  qed
qed

lemma vote_timer_spares_later_votes_witness:
  "\<forall>w pc. let s = play_run [(w, RejectMsg [98])]
          (start_challenge_timer [7] (demo_server (demo_game True\<lparr>pending_challenge := Some pc\<rparr>)))
     in challenge_timeout w [7] 1 s = s
       \<or> (\<exists>r p. room_at [7] s = Some r \<and> pending_challenge (room_game r) = Some p \<and> tiles_placed p = tiles_placed pc)"
proof (intro allI)
  fix w pc
  let ?g = "demo_game True\<lparr>pending_challenge := Some pc\<rparr>"
  let ?s = "start_challenge_timer [7] (demo_server ?g)"
  have out: "outbox ?s = outbox (demo_server ?g) @ [SetTimer (ChallengeTimer [7] 1)]"
    by (simp add: start_challenge_timer_def emit_def on_room_def on_tables_def invalidate_challenge_timer_def room_new_def)
  show "let s = play_run [(w, RejectMsg [98])] ?s
     in challenge_timeout w [7] 1 s = s
       \<or> (\<exists>r p. room_at [7] s = Some r \<and> pending_challenge (room_game r) = Some p \<and> tiles_placed p = tiles_placed pc)"
    using vote_timer_spares_later_votes [OF demo_server_simps(1) _ _ refl out refl, of pc w "[(w, RejectMsg [98])]"]
    unfolding Let_def by (auto simp: room_new_def)
qed

end
