(* ===== verification/ServerRooms.thy ===== *)
theory ServerRooms
  imports ServerPlay GameSave
begin

text \<open>
  Connections and rooms (\<^verbatim>\<open>src/src/server/events.rs\<close>): losing a connection, the period of grace, names and
  identities, returning with a token, opening, joining and leaving rooms, starting, saving and restoring games;
  and the two administrator events of \<^verbatim>\<open>extras.rs\<close>. What the handlers ask the database, the settings and the
  random generator is the record \<open>lobby\<close>; the token of a connection is verified by \<^verbatim>\<open>verify_socket_token\<close>, whose
  answer, with the user it names, is \<open>verified_user\<close>. A loop that draws a code or a token until it is free and
  never finds one is a handler that never returns: then the state stays.
\<close>

section \<open>What the handlers ask\<close>

record login =
  l_user :: int
  l_name :: str
  l_ban :: "(str \<times> str option) option"
  l_deleted :: bool
  l_admin :: bool

record stored_move =
  sm_number :: int
  sm_player :: str
  sm_action :: str
  sm_details :: "str option"
  sm_board :: "str option"

record lobby =
  base :: world
  alnum_char :: "nat \<Rightarrow> bool"
  maintenance :: bool
  feature_on :: "str \<Rightarrow> bool"
  grace_disconnect :: int
  grace_waiting_owner :: int
  guest_allowed :: bool
  room_creation :: str
  default_hint_limit :: int
  bots_enabled :: bool
  max_bots :: int
  user_row :: "effect list \<Rightarrow> int \<Rightarrow> login option"
  verified_user :: "effect list \<Rightarrow> str option \<Rightarrow> login option"
  db_friends :: "effect list \<Rightarrow> int \<Rightarrow> int list"
  db_banned :: "effect list \<Rightarrow> int \<Rightarrow> bool"
  db_token :: "effect list \<Rightarrow> int \<Rightarrow> str option"
  token_draws :: "str stream"
  code_draws :: "nat stream"
  drawn_room_id :: str
  db_game :: "effect list \<Rightarrow> int \<Rightarrow> json option"
  db_in_game :: "effect list \<Rightarrow> int \<Rightarrow> int \<Rightarrow> bool"
  db_game_players :: "effect list \<Rightarrow> int \<Rightarrow> (str \<times> int option) list"
  db_game_moves :: "effect list \<Rightarrow> int \<Rightarrow> stored_move list"
  parse_json :: "str \<Rightarrow> json option"
  overview_light :: "server \<Rightarrow> json"
  room_detail :: "str \<Rightarrow> server \<Rightarrow> json"

definition ALREADY_IN_ROOM :: str where "ALREADY_IN_ROOM = hu ''M~ar egy szob~aban vagy. El&obb l~epj ki bel&ole.''"

definition lobby_now :: "lobby \<Rightarrow> real" where "lobby_now v = now (base v)"

text \<open>Collecting pairs into a hash map: a later pair replaces an earlier one.\<close>

definition collect_map :: "('a \<times> 'b) list \<Rightarrow> ('a \<times> 'b) list" where
  "collect_map kvs = fold (\<lambda>(k, x). AList.update k x) kvs []"

section \<open>Rights\<close>

definition is_admin_sid :: "lobby \<Rightarrow> str \<Rightarrow> server \<Rightarrow> bool" where
  "is_admin_sid v sid s \<longleftrightarrow>
     admin_sids (tables s) sid \<noteq> None
     \<or> (case get_user_id_for_sid sid (tables s) \<bind> user_row v (outbox s) of Some u \<Rightarrow> l_admin u | None \<Rightarrow> False)"

definition maintenance_block :: "lobby \<Rightarrow> str \<Rightarrow> server \<Rightarrow> str option" where
  "maintenance_block v sid s =
     (if maintenance v \<and> \<not> is_admin_sid v sid s
      then Some (hu ''A szerver karbantart~as alatt van, ~uj j~at~ek most nem ind~ithat~o.'') else None)"

definition feature_block :: "lobby \<Rightarrow> str \<Rightarrow> str \<Rightarrow> server \<Rightarrow> str option" where
  "feature_block v sid feature s =
     (if \<not> feature_on v feature \<and> \<not> is_admin_sid v sid s then Some (hu ''Ez a funkci~o jelenleg ki van kapcsolva.'')
      else maintenance_block v sid s)"

definition room_joined_payload :: "room \<Rightarrow> str \<Rightarrow> bool \<Rightarrow> json" where
  "room_joined_payload r token owns =
     (let g = room_game r in
      JObj [(ascii ''room_id'', JStr (room_id r)), (ascii ''room_name'', JStr (room_name r)), (ascii ''is_owner'', JBool owns),
        (ascii ''challenge_mode'', JBool (challenge_mode g)), (ascii ''is_private'', JBool (is_private r)),
        (ascii ''turn_time_limit'', JInt (turn_time_limit g)), (ascii ''hint_limit'', JInt (hint_limit g)),
        (ascii ''reconnect_token'', JStr token), (ascii ''chat_messages'', JArr (chat_messages r))])"

definition notify_friends_presence :: "lobby \<Rightarrow> int \<Rightarrow> bool \<Rightarrow> server \<Rightarrow> server" where
  "notify_friends_presence v u online s =
     emit_list (concat (map (\<lambda>friend. map (\<lambda>fsid. ToSid fsid (ascii ''friend_presence_changed'')
         (JObj [(ascii ''friend_id'', JInt u), (ascii ''online'', JBool online)]))
       (sorted_list_of_set (get_user_sids friend (tables s)))) (db_friends v (outbox s) u))) s"

section \<open>Small steps\<close>

definition enter_room :: "str \<Rightarrow> str \<Rightarrow> server \<Rightarrow> server" where
  "enter_room sid rid = on_tables (\<lambda>st. st\<lparr>player_rooms := (player_rooms st)(sid \<mapsto> rid)\<rparr>)"

definition exit_room :: "str \<Rightarrow> server \<Rightarrow> server" where
  "exit_room sid = on_tables (\<lambda>st. st\<lparr>player_rooms := (player_rooms st)(sid := None)\<rparr>)"

definition room_notice :: "str \<Rightarrow> string \<Rightarrow> str \<Rightarrow> server \<Rightarrow> server" where
  "room_notice rid event nm = emit (ToRoom rid (ascii event) (JObj [(ascii ''name'', JStr nm)]))"

definition note_lost :: "lobby \<Rightarrow> str \<Rightarrow> str \<Rightarrow> str \<Rightarrow> str \<Rightarrow> auth_info option \<Rightarrow> server \<Rightarrow> nat \<times> server" where
  "note_lost v token sid rid nm auth s =
     (case note_disconnected (lobby_now v) token sid rid nm auth (tables s) of (n, st) \<Rightarrow> (n, s\<lparr>tables := st\<rparr>))"

definition seat_lost :: "str \<Rightarrow> str \<Rightarrow> server \<Rightarrow> server" where
  "seat_lost sid rid = on_room rid (\<lambda>r. r\<lparr>room_game := snd (mark_disconnected sid (room_game r))\<rparr>)"

definition seat_removed :: "str \<Rightarrow> str \<Rightarrow> server \<Rightarrow> server" where
  "seat_removed sid rid = on_room rid (\<lambda>r. r\<lparr>room_game := snd (remove_player sid (room_game r))\<rparr>)"

definition issue_token ::
  "lobby \<Rightarrow> str \<Rightarrow> str \<Rightarrow> str \<Rightarrow> auth_info option \<Rightarrow> server \<Rightarrow> (str \<times> server) option" where
  "issue_token v sid rid nm auth s =
     map_option (\<lambda>(token, st, _). (token, s\<lparr>tables := st\<rparr>))
       (generate_reconnect_token (db_token v (outbox s)) (token_draws v) sid rid nm auth (tables s))"

definition emit_live_games :: "server \<Rightarrow> server" where
  "emit_live_games s = emit (ToAll (ascii ''live_games'') (JArr (get_live_games (tables s)))) s"

definition abandon_saved :: "str \<Rightarrow> int option \<Rightarrow> server \<Rightarrow> server" where
  "abandon_saved rid db_id = emit (case db_id of Some n \<Rightarrow> AbandonGame n | None \<Rightarrow> AbandonRoom rid)"

definition name_of :: "str \<Rightarrow> string \<Rightarrow> server \<Rightarrow> str" where
  "name_of sid fallback s = (case player_names (tables s) sid of Some nm \<Rightarrow> nm | None \<Rightarrow> hu fallback)"

section \<open>Losing a connection\<close>

definition grace_seconds :: "lobby \<Rightarrow> bool \<Rightarrow> bool \<Rightarrow> int" where
  "grace_seconds v game_started was_owner =
     (if game_started \<or> \<not> was_owner then grace_disconnect v else grace_waiting_owner v)"

definition nobody_left :: "str \<Rightarrow> server \<Rightarrow> bool" where
  "nobody_left rid s =
     (case room_at rid s of
        None \<Rightarrow> True
      | Some r \<Rightarrow> human_players (room_game r) = [] \<or> is_async r \<and> \<not> has_connected_human (room_game r))"

text \<open>After a player was removed: the room ends, or goes on under a new owner.\<close>

definition after_removal :: "lobby \<Rightarrow> str \<Rightarrow> bool \<Rightarrow> str \<Rightarrow> server \<Rightarrow> server" where
  "after_removal v rid owned nm s =
     (if nobody_left rid s then give_up_room rid s
      else room_notice rid ''player_left'' nm (emit_all_states (base v) rid (if owned then hand_over_room rid s else s)))"

text \<open>The part of \<^verbatim>\<open>handle_disconnect\<close> about the room; the reply tells whether the seat is kept for the period of grace.\<close>

definition disconnect_seat ::
  "lobby \<Rightarrow> str \<Rightarrow> str \<Rightarrow> room \<Rightarrow> str option \<Rightarrow> str \<Rightarrow> auth_info option \<Rightarrow> server \<Rightarrow> bool \<times> server" where
  "disconnect_seat v sid rid r token nm auth s =
     (let g = room_game r;
          was_owner = (owner r = Some sid \<or> owner_token r \<noteq> None \<and> owner_token r = token);
          done = (\<lambda>s. exit_room sid (room_notice rid ''player_disconnected'' nm (emit_all_states (base v) rid s)))
      in if is_async r \<and> started g \<and> \<not> finished g
         then let s1 = emit (LeaveChannel sid rid) (seat_lost sid rid s)
              in (False, done (case token of Some t \<Rightarrow> snd (note_lost v t sid rid nm auth s1) | None \<Rightarrow> s1))
         else case (token, finished g) of
                (Some t, False) \<Rightarrow>
                  (case note_lost v t sid rid nm auth (emit (LeaveChannel sid rid) (seat_lost sid rid s)) of
                     (n, s1) \<Rightarrow> (True, done (emit (SetTimer (GraceTimer t n (max 0 (grace_seconds v (started g) was_owner)))) s1)))
              | _ \<Rightarrow>
                  (False, on_tables (cleanup_player_token sid) (emit_rooms_list (exit_room sid
                     (after_removal v rid (owner r = Some sid) nm (emit (LeaveChannel sid rid) (seat_removed sid rid s)))))))"

definition stop_watching :: "str \<Rightarrow> server \<Rightarrow> server" where
  "stop_watching sid = on_tables (\<lambda>st. st\<lparr>rooms := map (\<lambda>(k, r). (k, r\<lparr>admin_watchers := admin_watchers r - {sid}\<rparr>)) (rooms st)\<rparr>)"

definition forget_watcher :: "str \<Rightarrow> server \<Rightarrow> server" where
  "forget_watcher sid s = stop_watching sid (on_tables (\<lambda>st. st\<lparr>admin_sids := (admin_sids st)(sid := None)\<rparr>) s)"

definition stop_spectating :: "lobby \<Rightarrow> str \<Rightarrow> server \<Rightarrow> server" where
  "stop_spectating v sid s =
     (case remove_spectator sid (tables s) of
        (Some rid, st) \<Rightarrow> (let s1 = s\<lparr>tables := st\<rparr> in if room_at rid s1 \<noteq> None then emit_all_states (base v) rid s1 else s1)
      | (None, st) \<Rightarrow> s\<lparr>tables := st\<rparr>)"

text \<open>A user whose last connection went away.\<close>

definition gone_offline :: "lobby \<Rightarrow> int option \<Rightarrow> server \<Rightarrow> server" where
  "gone_offline v u s =
     (case u of Some n \<Rightarrow> if \<not> is_user_online n (tables s) then notify_friends_presence v n False s else s | None \<Rightarrow> s)"

definition handle_disconnect :: "lobby \<Rightarrow> str \<Rightarrow> server \<Rightarrow> server" where
  "handle_disconnect v sid s =
     (let s1 = stop_spectating v sid (forget_watcher sid s); st = tables s1;
          token = get_reconnect_token_for_sid sid st; registered = player_auth st sid \<bind> registered_id;
          was_online = (case registered of Some u \<Rightarrow> is_user_online u st | None \<Rightarrow> False);
          nm = name_of sid ''?'' s1;
          kept = (case player_rooms st sid \<bind> (\<lambda>rid. map_option (Pair rid) (room_at rid s1)) of
                    Some (rid, r) \<Rightarrow> disconnect_seat v sid rid r token nm (player_auth st sid) s1
                  | None \<Rightarrow> (False, if token \<noteq> None then on_tables (cleanup_player_token sid) s1 else s1));
          s2 = on_tables (\<lambda>st. remove_online_user sid
                 (st\<lparr>player_names := (player_names st)(sid := None), hidden_sids := hidden_sids st - {sid}\<rparr>)) (snd kept);
          s3 = (if was_online then gone_offline v registered s2 else s2);
          s4 = (if fst kept then s3 else on_tables (\<lambda>st. st\<lparr>player_auth := (player_auth st)(sid := None)\<rparr>) s3)
      in emit_rooms_list (s4\<lparr>limiter := clear_sid sid (limiter s4)\<rparr>))"

definition OWNER_GONE :: str where
  "OWNER_GONE = hu ''A szoba tulajdonosa v~egleg lecsatlakozott. A j~at~ek automatikusan ment~esre ker^ult, ~es a szoba feloszlott.''"

text \<open>Saving with the mark that a save was made by hand.\<close>

definition save_by_hand :: "lobby \<Rightarrow> str \<Rightarrow> server \<Rightarrow> (bool \<times> str) \<times> server" where
  "save_by_hand v rid s =
     (case save_game_to_db (base v) rid s of
        (reply, s1) \<Rightarrow> (reply, if fst reply then on_room rid (\<lambda>r. r\<lparr>manually_saved := True\<rparr>) s1 else s1))"

definition finalize_player_disconnect :: "lobby \<Rightarrow> str \<Rightarrow> server \<Rightarrow> server" where
  "finalize_player_disconnect v token s =
     (case finalize_disconnect token (tables s) of
        (None, _) \<Rightarrow> s
      | (Some info, st) \<Rightarrow>
          let rid = d_room info; old = d_sid info;
              s1 = s\<lparr>tables := st\<lparr>player_auth := (player_auth st)(old := None)\<rparr>\<rparr>
          in (case room_at rid s1 of
                None \<Rightarrow> s1
              | Some r \<Rightarrow>
                  let g = room_game r; active = (started g \<and> \<not> finished g)
                  in if owner r = Some old \<and> active \<and> players g \<noteq> []
                     then emit_rooms_list (disband_active_room rid OWNER_GONE (Some old) (snd (save_by_hand v rid s1)))
                     else let s2 = (if active then s1 else seat_removed old rid s1);
                              empty = (case room_at rid s2 of Some r \<Rightarrow> \<not> has_connected_human (room_game r) | None \<Rightarrow> True);
                              s3 = (if empty
                                    then give_up_room rid
                                           (if active \<and> \<not> manually_saved r then abandon_saved rid (db_game_id r) s2 else s2)
                                    else let s3 = (if owner r = Some old then hand_over_room rid s2 else s2);
                                             s4 = (if active then advance_turn_if_needed (base v) rid s3 else s3)
                                         in room_notice rid ''player_left'' (d_name info) (emit_all_states (base v) rid s4))
                          in emit_rooms_list s3))"

text \<open>The spawned task of a lost connection.\<close>

definition grace_timeout :: "lobby \<Rightarrow> str \<Rightarrow> nat \<Rightarrow> server \<Rightarrow> server" where
  "grace_timeout v token n s =
     (if disconnect_is_current token n (tables s) then finalize_player_disconnect v token s else s)"

section \<open>Names and identities\<close>

definition NAMELESS :: str where "NAMELESS = hu ''N~evtelen''"

definition is_reserved_name :: "str \<Rightarrow> bool" where
  "is_reserved_name nm \<longleftrightarrow> casefold nm = ascii ''rendszer''"

definition wanted_name :: "lobby \<Rightarrow> (str \<times> json) list \<Rightarrow> str" where
  "wanted_name v kvs =
     (case sanitize_name (alnum_char v) (case map_of kvs (ascii ''name'') of Some x \<Rightarrow> x | None \<Rightarrow> JStr []) of
        Some nm \<Rightarrow> if is_reserved_name nm then NAMELESS else nm
      | None \<Rightarrow> NAMELESS)"

text \<open>The end of \<^verbatim>\<open>set_name\<close>: the connection takes a name and an identity.\<close>

definition take_identity :: "lobby \<Rightarrow> str \<Rightarrow> str \<Rightarrow> int option \<Rightarrow> bool \<Rightarrow> server \<Rightarrow> server" where
  "take_identity v sid nm uid as_guest s =
     (let previous = get_user_id_for_sid sid (tables s);
          was_online = (case uid of Some u \<Rightarrow> is_user_online u (tables s) | None \<Rightarrow> False);
          s1 = (if previous \<noteq> uid then emit (LeaveChannel sid ADMIN_ROOM) s else s);
          s2 = on_tables (register_player sid nm \<lparr>user_id = uid, is_guest = as_guest\<rparr>) s1;
          s3 = (if previous \<noteq> uid then gone_offline v previous s2 else s2)
      in case uid of
           Some u \<Rightarrow> if \<not> was_online \<and> is_user_online u (tables s3) then notify_friends_presence v u True s3 else s3
         | None \<Rightarrow> s3)"

definition refuse_banned :: "str \<Rightarrow> login \<Rightarrow> server \<Rightarrow> server" where
  "refuse_banned sid u s =
     emit_error sid (hu ''A fi~okod ki van tiltva.'')
       (emit (ToSid sid (ascii ''account_banned'') (JObj
          [(ascii ''reason'', JStr (case l_ban u of Some (reason, _) \<Rightarrow> reason | None \<Rightarrow> [])),
           (ascii ''until'', opt_json JStr (l_ban u \<bind> snd))])) s)"

definition set_name :: "lobby \<Rightarrow> str \<Rightarrow> json \<Rightarrow> server \<Rightarrow> server" where
  "set_name v sid data s =
     (case check_limit (base v) sid (ascii ''set_name'') s of
        (False, s1) \<Rightarrow> emit_error sid TOO_MANY s1
      | (True, s1) \<Rightarrow>
          (case as_object data of
             None \<Rightarrow> s1
           | Some kvs \<Rightarrow>
               let flag = map_of kvs (ascii ''is_guest''); explicit_guest = (flag = None \<or> flag = Some (JBool True));
                   explicit_registered = (flag = Some (JBool False)); nm0 = wanted_name v kvs;
                   forbidden = (\<not> explicit_registered \<and> contains_banned (fold_char (base v)) (banned_words (base v)) nm0);
                   nm = (if forbidden then NAMELESS else nm0);
                   s2 = (if forbidden then emit_error sid (hu ''Ez a n~ev nem enged~elyezett.'') s1 else s1)
               in if explicit_guest \<and> \<not> guest_allowed v
                  then emit_error sid (hu ''A vend~eg m~od jelenleg ki van kapcsolva.'') s1
                  else if \<not> explicit_registered then take_identity v sid nm None True s2
                  else (case verified_user v (outbox s2) (map_of kvs (ascii ''auth_token'') \<bind> as_str) of
                          None \<Rightarrow> take_identity v sid nm None True
                                    (emit_error sid (hu ''A munkamenet lej~art, jelentkezz be ~ujra.'') s2)
                        | Some u \<Rightarrow>
                            if l_ban u \<noteq> None \<or> l_deleted u then refuse_banned sid u s2
                            else take_identity v sid (case sanitize_name_str (alnum_char v) (l_name u) of Some x \<Rightarrow> x | None \<Rightarrow> nm)
                                   (Some (l_user u)) False s2)))"

section \<open>Returning with a token\<close>

text \<open>The session of a token whose old connection still counts as alive is released.\<close>

definition release_live_session :: "lobby \<Rightarrow> str \<Rightarrow> server \<Rightarrow> str option \<times> server" where
  "release_live_session v token s =
     (case get_token_info token (tables s) of
        None \<Rightarrow> (None, s)
      | Some info \<Rightarrow>
          let rid = t_room info; old = t_sid info
          in (case room_at rid s of
                None \<Rightarrow> (None, s)
              | Some r \<Rightarrow>
                  if finished (room_game r) \<or> player_rooms (tables s) old \<noteq> Some rid then (None, s)
                  else let s1 = exit_room old (emit (LeaveChannel old rid) (seat_lost old rid s));
                           nm = (case player_names (tables s1) old of Some x \<Rightarrow> x | None \<Rightarrow> t_name info);
                           auth = (case player_auth (tables s1) old of Some a \<Rightarrow> Some a | None \<Rightarrow> t_auth info)
                       in (Some old, snd (note_lost v token old rid nm auth s1))))"

definition rejoin_failed :: "str \<Rightarrow> string \<Rightarrow> server \<Rightarrow> server" where
  "rejoin_failed sid msg = emit (ToSid sid (ascii ''rejoin_failed'') (JObj [(ascii ''message'', JStr (hu msg))]))"

text \<open>The seat is taken over: identities, ownership, messages.\<close>

definition return_to_seat ::
  "lobby \<Rightarrow> str \<Rightarrow> str \<Rightarrow> disconnected_info \<Rightarrow> token_info \<Rightarrow> server \<Rightarrow> server" where
  "return_to_seat v sid token dc info s =
     (let rid = d_room dc; old = d_sid dc;
          s1 = on_tables (\<lambda>st. snd (complete_rejoin token sid st)) s;
          owns = (case room_at rid s1 of Some r \<Rightarrow> owner r = Some old \<or> owner_token r = Some token | None \<Rightarrow> False);
          s2 = (if owns then on_room rid (\<lambda>r. r\<lparr>owner := Some sid, owner_token := Some token\<rparr>) s1 else s1);
          auth = (case t_auth info of Some a \<Rightarrow> a | None \<Rightarrow> guest);
          s3 = on_tables (\<lambda>st. st\<lparr>player_rooms := (player_rooms st)(sid \<mapsto> rid), player_names := (player_names st)(sid \<mapsto> d_name dc),
                 player_auth := ((player_auth st)(old := None))(sid \<mapsto> auth)\<rparr>) s2;
          s4 = emit (EnterChannel sid rid) (case registered_id auth of Some u \<Rightarrow> on_tables (add_online_user sid u) s3 | None \<Rightarrow> s3)
      in case room_at rid s4 of
           None \<Rightarrow> s4
         | Some r \<Rightarrow>
             let s5 = emit (ToSid sid (ascii ''room_joined'') (room_joined_payload r token owns)) s4;
                 s6 = (if owns then emit (ToSid sid (ascii ''room_code'') (JObj [(ascii ''code'', JStr (join_code r))])) s5 else s5)
             in schedule_bot_turn (base v) rid (emit_rooms_list
                  (room_notice rid ''player_reconnected'' (d_name dc) (emit_all_states (base v) rid s6))))"

definition rejoin_room :: "lobby \<Rightarrow> str \<Rightarrow> json \<Rightarrow> server \<Rightarrow> server" where
  "rejoin_room v sid data s =
     (case check_limit (base v) sid (ascii ''rejoin_room'') s of
        (False, s1) \<Rightarrow> emit_error sid TOO_MANY s1
      | (True, s1) \<Rightarrow>
          (case as_object data of
             None \<Rightarrow> rejoin_failed sid ''~Erv~enytelen k~er~es.'' s1
           | Some kvs \<Rightarrow>
               (case map_of kvs (ascii ''token'') of
                  Some (JStr (c # cs)) \<Rightarrow>
                    let token = c # cs;
                        taken = (if get_disconnected_info token (tables s1) = None \<and> get_token_info token (tables s1) \<noteq> None
                                 then release_live_session v token s1 else (None, s1));
                        s2 = snd taken
                    in (case (get_disconnected_info token (tables s2), get_token_info token (tables s2)) of
                          (Some dc, Some info) \<Rightarrow>
                            if (case t_auth info \<bind> registered_id of Some u \<Rightarrow> db_banned v (outbox s2) u | None \<Rightarrow> False)
                            then rejoin_failed sid ''A fi~okod ki van tiltva.'' s2
                            else (case room_at (d_room dc) s2 of
                                    None \<Rightarrow>
                                      rejoin_failed sid ''A szoba m~ar nem l~etezik.''
                                        (on_tables (\<lambda>st. st\<lparr>disconnected_players := AList.delete token (disconnected_players st),
                                           reconnect_tokens := (reconnect_tokens st)(token := None)\<rparr>) s2)
                                  | Some r \<Rightarrow>
                                      (case replace_player_sid (d_sid dc) sid (room_game r) of
                                         (False, _) \<Rightarrow> rejoin_failed sid ''Nem siker^ult ~ujracsatlakozni.'' s2
                                       | (True, g) \<Rightarrow>
                                           let s3 = return_to_seat v sid token dc info (on_game (d_room dc) (\<lambda>_. g) s2)
                                           in (case fst taken of
                                                 Some old \<Rightarrow> if old \<noteq> sid then emit (CloseSid old) s3 else s3
                                               | None \<Rightarrow> s3)))
                        | _ \<Rightarrow> rejoin_failed sid ''~Erv~enytelen vagy lej~art token.'' s2)
                | _ \<Rightarrow> rejoin_failed sid ''Hi~anyz~o token.'' s1)))"

definition get_rooms :: "lobby \<Rightarrow> str \<Rightarrow> server \<Rightarrow> server" where
  "get_rooms v sid s =
     (case check_limit (base v) sid (ascii ''get_rooms'') s of
        (False, s1) \<Rightarrow> s1
      | (True, s1) \<Rightarrow>
          emit (ToSid sid (ascii ''live_games'') (JArr (get_live_games (tables s1))))
            (emit (ToSid sid (ascii ''rooms_list'') (JArr (get_rooms_list (tables s1)))) s1))"

section \<open>Opening and joining rooms\<close>

text \<open>A room of the table with its game enters the table, and its creator the room.\<close>

definition open_room :: "lobby \<Rightarrow> str \<Rightarrow> room \<Rightarrow> json \<Rightarrow> server \<Rightarrow> server" where
  "open_room v sid r payload s =
     (let rid = room_id r; s1 = emit (EnterChannel sid rid) (enter_room sid rid (on_tables (add_room r) s));
          s2 = emit (ToSid sid (ascii ''room_code'') (JObj [(ascii ''code'', JStr (join_code r))]))
                 (emit (ToSid sid (ascii ''room_joined'') payload) s1)
      in emit_rooms_list (emit_all_states (base v) rid s2))"

definition creation_block :: "lobby \<Rightarrow> str \<Rightarrow> server \<Rightarrow> str option" where
  "creation_block v sid s =
     (case maintenance_block v sid s of
        Some m \<Rightarrow> Some m
      | None \<Rightarrow>
          if room_creation v = ascii ''none'' \<and> \<not> is_admin_sid v sid s
          then Some (hu ''~Uj szoba l~etrehoz~asa jelenleg le van tiltva.'')
          else if room_creation v = ascii ''registered'' \<and> registered_user_id sid (tables s) = None
          then Some (hu ''Szob~at csak regisztr~alt felhaszn~al~o hozhat l~etre.'')
          else None)"

definition member_or :: "(str \<times> json) list \<Rightarrow> string \<Rightarrow> (json \<Rightarrow> 'a option) \<Rightarrow> 'a \<Rightarrow> 'a" where
  "member_or kvs k f fallback = (case map_of kvs (ascii k) \<bind> f of Some x \<Rightarrow> x | None \<Rightarrow> fallback)"

definition flag_member :: "(str \<times> json) list \<Rightarrow> string \<Rightarrow> bool" where
  "flag_member kvs k \<longleftrightarrow> (case map_of kvs (ascii k) of Some x \<Rightarrow> truthy x | None \<Rightarrow> False)"

text \<open>The strengths of the bots: at most three, at most as many as the settings and the seats allow.\<close>

definition wanted_bots :: "lobby \<Rightarrow> (str \<times> json) list \<Rightarrow> nat \<Rightarrow> difficulty list" where
  "wanted_bots v kvs seats =
     take (seats - 1) (take (min MAX_BOTS (nat (max 0 (max_bots v))))
       (if bots_enabled v then List.map_filter parse_difficulty (member_or kvs ''ai_players'' as_array []) else []))"

definition seat_bot :: "difficulty \<Rightarrow> game \<Rightarrow> game" where
  "seat_bot d g = snd (add_bot (bot_name g (Some d)) (difficulty_to_json d) g)"

definition new_game :: "lobby \<Rightarrow> (str \<times> json) list \<Rightarrow> str \<Rightarrow> str \<Rightarrow> nat \<Rightarrow> game" where
  "new_game v kvs sid nm seats =
     (let limit0 = member_or kvs ''turn_time_limit'' py_int 0;
          hint0 = (case map_of kvs (ascii ''hint_limit'') of
                     None \<Rightarrow> default_hint_limit v
                   | Some x \<Rightarrow> (case py_int x of Some n \<Rightarrow> n | None \<Rightarrow> default_hint_limit v));
          g0 = game_new (game_env (base v)) (drawn_room_id v) (flag_member kvs ''challenge_mode'')
                 (if limit0 \<in> set ALLOWED_TURN_TIME_LIMITS then limit0 else 0)
                 (if hint0 \<in> set ALLOWED_HINT_LIMITS then hint0 else default_hint_limit v)
      in fold seat_bot (wanted_bots v kvs seats) (snd (add_player sid nm g0)))"

definition create_room :: "lobby \<Rightarrow> str \<Rightarrow> json \<Rightarrow> server \<Rightarrow> server" where
  "create_room v sid data s =
     (case check_limit (base v) sid (ascii ''create_room'') s of
        (False, s1) \<Rightarrow> emit_error sid (hu ''T~ul sok szoba l~etrehoz~as, v~arj egy kicsit.'') s1
      | (True, s1) \<Rightarrow>
          (case as_object data of
             None \<Rightarrow> s1
           | Some kvs \<Rightarrow>
               if room_id_for_player sid (tables s1) \<noteq> None then emit_error sid ALREADY_IN_ROOM s1
               else (case creation_block v sid s1 of
                       Some m \<Rightarrow> emit_error sid m s1
                     | None \<Rightarrow>
                         let raw = (case map_of kvs (ascii ''name'') of Some x \<Rightarrow> x | None \<Rightarrow> JStr []);
                             nm = name_of sid ''N~evtelen'' s1; rid = drawn_room_id v;
                             title = (case sanitize_room_name (alnum_char v) raw of Some t \<Rightarrow> t | None \<Rightarrow> ascii ''Szoba'');
                             seats = nat (max 2 (min 4 (member_or kvs ''max_players'' py_int 4)))
                         in if (case as_str raw of Some t \<Rightarrow> contains_banned (fold_char (base v)) (banned_words (base v)) t | None \<Rightarrow> False)
                            then emit_error sid (hu ''Ez a szoban~ev nem enged~elyezett.'') s1
                            else (case new_join_code (tables s1) (code_draws v) of
                                    None \<Rightarrow> s1
                                  | Some (code, _) \<Rightarrow>
                                      (case issue_token v sid rid nm (player_auth (tables s1) sid) s1 of
                                         None \<Rightarrow> s1
                                       | Some (token, s2) \<Rightarrow>
                                           let r = room_new (lobby_now v) rid (new_game v kvs sid nm seats) (Some sid) nm title seats code
                                                     (flag_member kvs ''is_private'') (Some token)
                                           in open_room v sid r (room_joined_payload r token True) s2)))))"

definition identity_matches :: "identity \<Rightarrow> auth_info option \<Rightarrow> bool" where
  "identity_matches expected auth =
     (case expected of
        AnyIdentity \<Rightarrow> True
      | GuestIdentity \<Rightarrow> (case auth \<bind> user_id of Some u \<Rightarrow> u = 0 | None \<Rightarrow> True)
      | UserIdentity u \<Rightarrow> (case auth of Some a \<Rightarrow> user_id a = Some u \<and> \<not> is_guest a | None \<Rightarrow> False))"

definition known_identity :: "room \<Rightarrow> str \<Rightarrow> identity" where
  "known_identity r nm =
     (case map_of (known_user_ids r) nm of None \<Rightarrow> AnyIdentity | Some u \<Rightarrow> identity_from_user_id u)"

text \<open>The seat a late player of a restored game may take.\<close>

definition late_seat :: "str \<Rightarrow> auth_info option \<Rightarrow> room \<Rightarrow> str option" where
  "late_seat nm auth r =
     (let g = room_game r in
      if finished g then None
      else case (map_of (late_join_names r) nm, List.find (\<lambda>p. player_name p = nm \<and> disconnected p) (players g)) of
             (Some expected, Some p) \<Rightarrow> if identity_matches expected auth then Some (player_id p) else None
           | _ \<Rightarrow> None)"

definition try_late_join :: "lobby \<Rightarrow> str \<Rightarrow> str \<Rightarrow> str \<Rightarrow> auth_info option \<Rightarrow> server \<Rightarrow> bool \<times> server" where
  "try_late_join v sid rid nm auth s =
     (case room_at rid s \<bind> late_seat nm auth of
        None \<Rightarrow> (False, s)
      | Some old \<Rightarrow>
          let s1 = on_room rid (\<lambda>r. r\<lparr>room_game := snd (replace_player_sid old sid (room_game r)),
                     late_join_names := AList.delete nm (late_join_names r)\<rparr>) s;
              s2 = emit (EnterChannel sid rid) (enter_room sid rid s1)
          in (case (issue_token v sid rid nm auth s2, room_at rid s1) of
                (Some (token, s3), Some r) \<Rightarrow>
                  let s4 = emit_all_states (base v) rid
                             (emit (ToSid sid (ascii ''room_joined'') (room_joined_payload r token False)) s3);
                      s5 = room_notice rid ''player_reconnected'' nm (emit (ToSid sid (ascii ''game_started'') (JObj [])) s4)
                  in (True, schedule_bot_turn (base v) rid (emit_rooms_list s5))
              | _ \<Rightarrow> (True, s2)))"

text \<open>The room a join message names: an error, or the room and whether the code was given.\<close>

definition named_room :: "(str \<times> json) list \<Rightarrow> server_state \<Rightarrow> str + str \<times> bool" where
  "named_room kvs st =
     (let code = trim (member_or kvs ''code'' as_str []) in
      if code \<noteq> []
      then if \<not> is_six_digits code then Inl (hu ''~Erv~enytelen k~od. 6 sz~amjegy&u k~odot adj meg.'')
           else (case map_of (join_codes st) code of Some rid \<Rightarrow> Inr (rid, True) | None \<Rightarrow> Inl (hu ''Nincs ilyen k~od~u szoba.''))
      else (case map_of kvs (ascii ''room_id'') of
              Some raw \<Rightarrow>
                if truthy raw
                then (case as_str raw of
                        Some rid \<Rightarrow> if length rid \<le> 8 then Inr (rid, False) else Inl (hu ''~Erv~enytelen szoba azonos~it~o.'')
                      | None \<Rightarrow> Inl (hu ''~Erv~enytelen szoba azonos~it~o.''))
                else Inl (hu ''Szoba k~od vagy azonos~it~o sz^uks~eges.'')
            | None \<Rightarrow> Inl (hu ''Szoba k~od vagy azonos~it~o sz^uks~eges.'')))"

text \<open>Why a room does not let somebody in before anything else is asked.\<close>

definition admission_block :: "room \<Rightarrow> bool \<Rightarrow> str \<Rightarrow> auth_info option \<Rightarrow> str option" where
  "admission_block r by_code nm auth =
     (if is_private r \<and> \<not> by_code then Some (hu ''Ez egy priv~at szoba. Csatlakoz~ashoz k~od sz^uks~eges.'')
      else if is_restored r \<and> (case expected_players r of Some es \<Rightarrow> es \<noteq> [] | None \<Rightarrow> False)
      then if nm \<notin> set (the (expected_players r)) then Some (hu ''Csak a mentett j~at~ek eredeti j~at~ekosai csatlakozhatnak.'')
           else if \<exists>p\<in>set (players (room_game r)). player_name p = nm then Some (hu ''Ezzel a n~evvel m~ar csatlakozott valaki.'')
           else if identity_matches (known_identity r nm) auth then None
           else Some (hu ''Ez a hely egy m~asik j~at~ekos~e a mentett j~at~ekban.'')
      else None)"

definition join_room :: "lobby \<Rightarrow> str \<Rightarrow> json \<Rightarrow> server \<Rightarrow> server" where
  "join_room v sid data s =
     (case check_limit (base v) sid (ascii ''join_room'') s of
        (False, s1) \<Rightarrow> emit_error sid TOO_MANY s1
      | (True, s1) \<Rightarrow>
          (case as_object data of
             None \<Rightarrow> s1
           | Some kvs \<Rightarrow>
               if room_id_for_player sid (tables s1) \<noteq> None then emit_error sid ALREADY_IN_ROOM s1
               else (case named_room kvs (tables s1) of
                       Inl m \<Rightarrow> emit_error sid m s1
                     | Inr (rid, by_code) \<Rightarrow>
                         (case room_at rid s1 of
                            None \<Rightarrow> emit_error sid (hu ''A szoba nem l~etezik.'') s1
                          | Some r \<Rightarrow>
                              let nm = name_of sid ''N~evtelen'' s1; auth = player_auth (tables s1) sid; g = room_game r
                              in (case admission_block r by_code nm auth of
                                    Some m \<Rightarrow> emit_error sid m s1
                                  | None \<Rightarrow>
                                      if started g
                                      then (case try_late_join v sid rid nm auth s1 of
                                              (True, s2) \<Rightarrow> s2
                                            | (False, s2) \<Rightarrow> emit_error sid (hu ''A j~at~ek m~ar elkezd&od^ott.'') s2)
                                      else if max_players r \<le> length (players g) then emit_error sid (hu ''A szoba megtelt.'') s1
                                      else if \<exists>p\<in>set (players g). casefold (player_name p) = casefold nm
                                      then emit_error sid (hu ''Ilyen nev&u j~at~ekos m~ar van a szob~aban.'') s1
                                      else (case add_player sid nm g of
                                              (Fail err, g') \<Rightarrow> emit_error sid (game_error_text err) (on_game rid (\<lambda>_. g') s1)
                                            | (Panic, g') \<Rightarrow> on_game rid (\<lambda>_. g') s1
                                            | (Done _, g') \<Rightarrow>
                                                let s2 = emit (EnterChannel sid rid) (enter_room sid rid (on_game rid (\<lambda>_. g') s1))
                                                in (case issue_token v sid rid nm auth s2 of
                                                      None \<Rightarrow> s2
                                                    | Some (token, s3) \<Rightarrow>
                                                        let r' = r\<lparr>room_game := g'\<rparr>; p0 = room_joined_payload r' token False;
                                                            payload = (if is_restored r
                                                              then set_member (ascii ''expected_players'')
                                                                     (opt_json (\<lambda>es. JArr (map JStr es)) (expected_players r))
                                                                     (set_member (ascii ''is_restore_lobby'') (JBool True) p0)
                                                              else p0)
                                                        in emit_rooms_list (room_notice rid ''player_joined'' nm
                                                             (emit_all_states (base v) rid (emit (ToSid sid (ascii ''room_joined'') payload) s3))))))))))"

section \<open>Leaving\<close>

definition room_left :: "str \<Rightarrow> server \<Rightarrow> server" where
  "room_left sid = emit (ToSid sid (ascii ''room_left'') (JObj []))"

definition leave_room :: "lobby \<Rightarrow> str \<Rightarrow> server \<Rightarrow> server" where
  "leave_room v sid s =
     (case room_id_for_player sid (tables s) \<bind> (\<lambda>rid. map_option (Pair rid) (room_at rid s)) of
        None \<Rightarrow> s
      | Some (rid, r) \<Rightarrow>
          let token = get_reconnect_token_for_sid sid (tables s); nm = name_of sid ''?'' s; auth = player_auth (tables s) sid;
              active = (started (room_game r) \<and> \<not> finished (room_game r))
          in if is_async r \<and> active
             then let s1 = seat_lost sid rid s;
                      s2 = (case token of Some t \<Rightarrow> snd (note_lost v t sid rid nm auth s1) | None \<Rightarrow> s1)
                  in room_notice rid ''player_disconnected'' nm
                       (emit_all_states (base v) rid (room_left sid (exit_room sid (emit (LeaveChannel sid rid) s2))))
             else if owner r = Some sid \<and> active
             then emit_rooms_list (room_left sid (on_tables (cleanup_player_token sid) (exit_room sid (emit (LeaveChannel sid rid)
                    (disband_active_room rid (hu ''A szoba tulajdonosa kil~epett, a j~at~ek v~eget ~ert.'') (Some sid) s)))))
             else emit_rooms_list (room_left sid
                    (case (active, token) of
                       (True, Some t) \<Rightarrow>
                         exit_room sid (emit (LeaveChannel sid rid) (room_notice rid ''player_left'' nm (emit_all_states (base v) rid
                           (advance_turn_if_needed (base v) rid (snd (note_lost v t sid rid nm auth (seat_lost sid rid s)))))))
                     | _ \<Rightarrow>
                         after_removal v rid (owner r = Some sid) nm
                           (exit_room sid (emit (LeaveChannel sid rid) (on_tables (cleanup_player_token sid) (seat_removed sid rid s)))))))"

definition leave_spectate :: "lobby \<Rightarrow> str \<Rightarrow> server \<Rightarrow> server" where
  "leave_spectate v sid s =
     (case remove_spectator sid (tables s) of
        (None, _) \<Rightarrow> s
      | (Some rid, st) \<Rightarrow>
          let s1 = s\<lparr>tables := st\<rparr>
          in emit (ToSid sid (ascii ''spectate_left'') (JObj []))
               (if room_at rid s1 \<noteq> None then emit_all_states (base v) rid (emit (LeaveChannel sid rid) s1) else s1))"

definition logout :: "lobby \<Rightarrow> str \<Rightarrow> server \<Rightarrow> server" where
  "logout v sid s =
     (let s1 = emit (LeaveChannel sid ADMIN_ROOM) s;
          s2 = (if player_rooms (tables s1) sid \<noteq> None then leave_room v sid s1 else s1);
          s3 = (if get_spectated_room sid (tables s2) \<noteq> None then leave_spectate v sid s2 else s2);
          previous = get_user_id_for_sid sid (tables s3)
      in gone_offline v previous (on_tables (\<lambda>st. (remove_online_user sid st)
           \<lparr>player_auth := (player_auth st)(sid := None), player_names := (player_names st)(sid := None)\<rparr>) s3))"

section \<open>Starting, saving and restoring\<close>

definition row_text :: "json \<Rightarrow> string \<Rightarrow> str" where
  "row_text row k = (case jget row (ascii k) \<bind> as_str of Some t \<Rightarrow> t | None \<Rightarrow> [])"

definition row_int :: "json \<Rightarrow> string \<Rightarrow> int" where
  "row_int row k = (case jget row (ascii k) \<bind> as_i64 of Some n \<Rightarrow> n | None \<Rightarrow> 0)"

definition row_flag :: "json \<Rightarrow> string \<Rightarrow> bool" where
  "row_flag row k \<longleftrightarrow> (case jget row (ascii k) of Some x \<Rightarrow> truthy x | None \<Rightarrow> False)"

definition RESTORE_ERROR :: str where "RESTORE_ERROR = hu ''Hiba a j~at~ek vissza~all~it~as~an~al.''"

text \<open>The saved seats, matched by name with the players who are there.\<close>

definition match_seat :: "(str \<times> str) list \<Rightarrow> player \<Rightarrow> player" where
  "match_seat joined p =
     (if is_bot p then p\<lparr>disconnected := False\<rparr>
      else case map_of joined (player_name p) of
             Some sid \<Rightarrow> p\<lparr>player_id := sid, disconnected := False\<rparr>
           | None \<Rightarrow> p\<lparr>disconnected := True\<rparr>)"

definition log_from_rows :: "lobby \<Rightarrow> int \<Rightarrow> server \<Rightarrow> move_log_entry list" where
  "log_from_rows v n s =
     map (\<lambda>m. move_log_from_stored (parse_json v) (sm_number m) (sm_player m) (sm_action m) (sm_details m) (sm_board m))
       (db_game_moves v (outbox s) n)"

definition launch :: "lobby \<Rightarrow> str \<Rightarrow> server \<Rightarrow> server" where
  "launch v rid s =
     (let s1 = emit (ToRoom rid (ascii ''game_started'') (JObj []))
                 (emit_all_states (base v) rid (start_turn_timer (base v) rid None s))
      in snd (save_game_to_db (base v) rid (schedule_bot_turn (base v) rid (emit_live_games (emit_rooms_list s1)))))"

definition restore_start :: "lobby \<Rightarrow> str \<Rightarrow> str \<Rightarrow> room \<Rightarrow> server \<Rightarrow> server" where
  "restore_start v rid sid r s =
     (case restore_save_data r of
        None \<Rightarrow> s
      | Some saved \<Rightarrow>
          (case parse_json v (row_text saved ''state_json'') of
             None \<Rightarrow> emit_error sid RESTORE_ERROR s
           | Some state \<Rightarrow>
               (case from_save_dict (game_env (base v)) state of
                  Inl _ \<Rightarrow> emit_error sid RESTORE_ERROR s
                | Inr g0 \<Rightarrow>
                    let joined = collect_map (map (\<lambda>p. (player_name p, player_id p)) (players (room_game r)));
                        g1 = g0\<lparr>players := map (match_seat joined) (players g0)\<rparr>;
                        g2 = (if length (players g1) \<le> current_player_idx g1 then g1\<lparr>current_player_idx := 0\<rparr> else g1);
                        g3 = (snd (skip_disconnected_current (game_env (base v)) g2))\<lparr>move_log := log_from_rows v (row_int saved ''id'') s\<rparr>;
                        late = collect_map (map (\<lambda>p. (player_name p, known_identity r (player_name p))) (filter disconnected (players g3)))
                    in if \<forall>p\<in>set (human_players g1). disconnected p
                       then emit_error sid (hu ''Nincs csatlakozott j~at~ekos a mentett j~at~ekb~ol.'') s
                       else launch v rid (emit (AbandonGame (row_int saved ''id''))
                              (on_room rid (\<lambda>r. r\<lparr>last_saved_move_count := 0, late_join_names := late, room_game := g3,
                                 restore_save_data := None, is_restored := False, db_game_id := None\<rparr>) s)))))"

definition start_game_event :: "lobby \<Rightarrow> str \<Rightarrow> server \<Rightarrow> server" where
  "start_game_event v sid s =
     (case room_id_for_player sid (tables s) \<bind> (\<lambda>rid. map_option (Pair rid) (room_at rid s)) of
        None \<Rightarrow> s
      | Some (rid, r) \<Rightarrow>
          if \<not> is_owner sid r (tables s) then emit_error sid (hu ''Csak a szoba tulajdonosa ind~ithatja a j~at~ekot.'') s
          else if restore_save_data r \<noteq> None then restore_start v rid sid r s
          else (case start_game (game_env (base v)) (room_game r) of
                  (Done _, g) \<Rightarrow> launch v rid (on_tables (remove_invites_for_room rid) (on_game rid (\<lambda>_. g) s))
                | (Fail err, g) \<Rightarrow> emit_error sid (game_error_text err) (on_game rid (\<lambda>_. g) s)
                | (Panic, g) \<Rightarrow> on_game rid (\<lambda>_. g) s))"

definition save_game :: "lobby \<Rightarrow> str \<Rightarrow> server \<Rightarrow> server" where
  "save_game v sid s =
     (case room_context (base v) sid (ascii ''save_game'') s of
        (None, s1) \<Rightarrow> s1
      | (Some rid, s1) \<Rightarrow>
          (case room_at rid s1 of
             None \<Rightarrow> s1
           | Some r \<Rightarrow>
               if \<not> is_owner sid r (tables s1) then action_result sid False (hu ''Csak a szoba tulajdonosa menthet.'') s1
               else if \<not> started (room_game r) \<or> finished (room_game r)
               then action_result sid False (hu ''Nincs akt~iv j~at~ek a ment~eshez.'') s1
               else (case save_by_hand v rid s1 of ((ok, msg), s2) \<Rightarrow> action_result sid ok msg s2)))"

text \<open>What has to hold of a saved game and the one who restores it; \<open>u\<close> is the user of the connection.\<close>

definition restore_block :: "lobby \<Rightarrow> str \<Rightarrow> int \<Rightarrow> server \<Rightarrow> str + json" where
  "restore_block v sid n s =
     (if room_id_for_player sid (tables s) \<noteq> None then Inl ALREADY_IN_ROOM
      else case maintenance_block v sid s of
        Some m \<Rightarrow> Inl m
      | None \<Rightarrow>
          (case player_auth (tables s) sid \<bind> user_id of
             None \<Rightarrow> Inl (hu ''Csak regisztr~alt felhaszn~al~ok ~all~ithatnak vissza j~at~ekot.'')
           | Some u \<Rightarrow>
               if u = 0 then Inl (hu ''Csak regisztr~alt felhaszn~al~ok ~all~ithatnak vissza j~at~ekot.'')
               else (case db_game v (outbox s) n of
                       None \<Rightarrow> Inl (hu ''Mentett j~at~ek nem tal~alhat~o.'')
                     | Some row \<Rightarrow>
                         if row_text row ''status'' \<noteq> ascii ''active'' then Inl (hu ''A mentett j~at~ek nem akt~iv.'')
                         else if row_flag row ''is_async''
                         then Inl (hu ''A levelez&os j~at~ekot a Levelez&os f^ulr&ol nyithatod meg.'')
                         else if \<not> db_in_game v (outbox s) n u then Inl (hu ''Nem vagy r~eszese ennek a mentett j~at~eknak.'')
                         else if row_text row ''owner_name'' \<noteq> [] \<and> row_text row ''owner_name'' \<noteq> name_of sid ''N~evtelen'' s
                         then Inl (hu ''Csak a ment~es tulajdonosa ~all~ithatja vissza a j~at~ekot.'')
                         else Inr row)))"

definition saved_seats :: "json \<Rightarrow> json list" where
  "saved_seats state = (case jget state (ascii ''players'') \<bind> as_array of Some ps \<Rightarrow> ps | None \<Rightarrow> [])"

definition expected_of :: "json \<Rightarrow> str list" where
  "expected_of state =
     List.map_filter (\<lambda>p. jget p (ascii ''name'') \<bind> as_str)
       (filter (\<lambda>p. \<not> (case jget p (ascii ''is_bot'') of Some x \<Rightarrow> truthy x | None \<Rightarrow> False)) (saved_seats state))"

definition restore_room :: "lobby \<Rightarrow> str \<Rightarrow> int \<Rightarrow> json \<Rightarrow> json \<Rightarrow> str \<Rightarrow> str \<Rightarrow> server \<Rightarrow> room" where
  "restore_room v sid n row state code token s =
     (let nm = name_of sid ''N~evtelen'' s;
          g = snd (add_player sid nm (game_new (game_env (base v)) (drawn_room_id v)
                (case jget state (ascii ''challenge_mode'') of Some x \<Rightarrow> truthy x | None \<Rightarrow> False) 0
                (case jget state (ascii ''hint_limit'') \<bind> py_int of Some h \<Rightarrow> h | None \<Rightarrow> DEFAULT_HINT_LIMIT)));
          title = (if row_text row ''room_name'' = [] then hu ''Vissza~all~itott szoba'' else row_text row ''room_name'')
      in (room_new (lobby_now v) (drawn_room_id v) g (Some sid) nm title (max 2 (length (saved_seats state))) code True (Some token))
           \<lparr>is_restored := True, restore_save_data := Some row, expected_players := Some (expected_of state),
            known_user_ids := collect_map (db_game_players v (outbox s) n)\<rparr>)"

definition restore_payload :: "room \<Rightarrow> str \<Rightarrow> json" where
  "restore_payload r token =
     JObj [(ascii ''room_id'', JStr (room_id r)), (ascii ''room_name'', JStr (room_name r)), (ascii ''is_owner'', JBool True),
       (ascii ''challenge_mode'', JBool (challenge_mode (room_game r))), (ascii ''is_private'', JBool True),
       (ascii ''reconnect_token'', JStr token), (ascii ''is_restore_lobby'', JBool True),
       (ascii ''expected_players'', opt_json (\<lambda>es. JArr (map JStr es)) (expected_players r)),
       (ascii ''hint_limit'', JInt (hint_limit (room_game r))), (ascii ''chat_messages'', JArr (chat_messages r))]"

definition restore_game :: "lobby \<Rightarrow> str \<Rightarrow> json \<Rightarrow> server \<Rightarrow> server" where
  "restore_game v sid data s =
     (case check_limit (base v) sid (ascii ''restore_game'') s of
        (False, s1) \<Rightarrow> emit_error sid TOO_MANY s1
      | (True, s1) \<Rightarrow>
          (case as_object data of
             None \<Rightarrow> s1
           | Some kvs \<Rightarrow>
               (case map_of kvs (ascii ''game_id'') \<bind> strict_int of
                  None \<Rightarrow> emit_error sid (hu ''~Erv~enytelen j~at~ek azonos~it~o.'') s1
                | Some n \<Rightarrow>
                    (case restore_block v sid n s1 of
                       Inl m \<Rightarrow> emit_error sid m s1
                     | Inr row \<Rightarrow>
                         (case parse_json v (row_text row ''state_json'') of
                            None \<Rightarrow> emit_error sid (hu ''Hib~as mentett ~allapot.'') s1
                          | Some state \<Rightarrow>
                              if expected_of state = [] then emit_error sid (hu ''Nincs j~at~ekos a mentett j~at~ekban.'') s1
                              else (case new_join_code (tables s1) (code_draws v) of
                                      None \<Rightarrow> s1
                                    | Some (code, _) \<Rightarrow>
                                        (case issue_token v sid (drawn_room_id v) (name_of sid ''N~evtelen'' s1) (player_auth (tables s1) sid) s1 of
                                           None \<Rightarrow> s1
                                         | Some (token, s2) \<Rightarrow>
                                             let r = restore_room v sid n row state code token s1
                                             in open_room v sid r (restore_payload r token) s2)))))))"

section \<open>Administrators\<close>

definition admin_by_token :: "lobby \<Rightarrow> str \<Rightarrow> json \<Rightarrow> server \<Rightarrow> int option \<times> server" where
  "admin_by_token v sid data s =
     (case verified_user v (outbox s) (jget data (ascii ''auth_token'') \<bind> as_str) of
        None \<Rightarrow> (None, s)
      | Some u \<Rightarrow>
          if l_admin u \<and> l_ban u = None \<and> \<not> l_deleted u
          then (Some (l_user u), on_tables (\<lambda>st. st\<lparr>admin_sids := (admin_sids st)(sid \<mapsto> l_user u)\<rparr>) s)
          else (None, s))"

definition admin_user_id_for_sid :: "lobby \<Rightarrow> str \<Rightarrow> json \<Rightarrow> server \<Rightarrow> int option \<times> server" where
  "admin_user_id_for_sid v sid data s =
     (case get_user_id_for_sid sid (tables s) of
        None \<Rightarrow> admin_by_token v sid data s
      | Some u \<Rightarrow>
          if (case user_row v (outbox s) u of Some row \<Rightarrow> l_admin row | None \<Rightarrow> False) then (Some u, s)
          else admin_by_token v sid data s)"

definition admin_subscribe :: "lobby \<Rightarrow> str \<Rightarrow> json \<Rightarrow> server \<Rightarrow> server" where
  "admin_subscribe v sid data s =
     (case check_limit (base v) sid (ascii ''admin_subscribe'') s of
        (False, s1) \<Rightarrow> s1
      | (True, s1) \<Rightarrow>
          (case admin_user_id_for_sid v sid data s1 of
             (None, s2) \<Rightarrow> s2
           | (Some _, s2) \<Rightarrow>
               emit (ToSid sid (ascii ''admin_overview'') (overview_light v s2))
                 (emit (ToSid sid (ascii ''admin_subscribed'') (JObj [])) (emit (EnterChannel sid ADMIN_ROOM) s2))))"

definition admin_watch_room :: "lobby \<Rightarrow> str \<Rightarrow> json \<Rightarrow> server \<Rightarrow> server" where
  "admin_watch_room v sid data s =
     (case check_limit (base v) sid (ascii ''admin_watch_room'') s of
        (False, s1) \<Rightarrow> s1
      | (True, s1) \<Rightarrow>
          if \<not> is_admin_sid v sid s1 then s1
          else let s2 = stop_watching sid s1
               in (case jget data (ascii ''room_id'') \<bind> as_str of
                     None \<Rightarrow> s2
                   | Some key \<Rightarrow>
                       (case (if room_at key s2 \<noteq> None then Some key else map_of (join_codes (tables s2)) key) of
                          None \<Rightarrow> s2
                        | Some rid \<Rightarrow>
                            if room_at rid s2 = None then s2
                            else let s3 = on_room rid (\<lambda>r. r\<lparr>admin_watchers := insert sid (admin_watchers r)\<rparr>) s2
                                 in emit (ToSid sid (ascii ''admin_room_state'') (room_detail v rid s3)) s3)))"

end
