(* ===== verification/RoomSeats.thy ===== *)
theory RoomSeats
  imports ServerRooms ServerTimers ServerProps
begin

text \<open>
  Seats and connections: what the handlers of \<^verbatim>\<open>events.rs\<close> leave alone, a lost connection and the return to its seat
  with the token, and the seat that a return to another room leaves behind.
\<close>

section \<open>Who sits where\<close>

definition seat_view :: "room \<Rightarrow> game \<times> str option \<times> str option \<times> bool" where
  "seat_view r = (room_game r, owner r, owner_token r, is_async r)"

interpretation seats: room_observer seat_view
  by unfold_locales (simp_all add: seat_view_def)

section \<open>The tables of connections and tokens\<close>

definition books_of :: "server_state \<Rightarrow> (str \<rightharpoonup> str) \<times> (str \<rightharpoonup> str) \<times> (str \<rightharpoonup> token_info) \<times> (str \<times> disconnected_info) list" where
  "books_of st = (player_rooms st, sid_to_token st, reconnect_tokens st, disconnected_players st)"

abbreviation books :: "server \<Rightarrow> (str \<rightharpoonup> str) \<times> (str \<rightharpoonup> str) \<times> (str \<rightharpoonup> token_info) \<times> (str \<times> disconnected_info) list" where
  "books s \<equiv> books_of (tables s)"

lemma books_tables [simp]: "books (on_tables f s) = books_of (f (tables s))" "books (s\<lparr>limiter := l\<rparr>) = books s"
  by (simp_all add: on_tables_def)

lemma books_emit [simp]: "books (emit e s) = books s" "books (emit_list es s) = books s"
  by (simp_all add: emit_def emit_list_def)

lemma books_rooms [simp]:
  "books_of (rooms_update f st) = books_of st" "books_of (player_names_update f1 st) = books_of st"
  "books_of (player_auth_update f2 st) = books_of st" "books_of (hidden_sids_update f3 st) = books_of st"
  "books_of (admin_sids_update f4 st) = books_of st" "books_of (spectator_rooms_update f5 st) = books_of st"
  "books_of (sid_to_user_id_update f4 st) = books_of st" "books_of (online_users_update f6 st) = books_of st"
  by (simp_all add: books_of_def)

lemma books_room [simp]: "books (on_room rid f s) = books s" "books (on_game rid f' s) = books s"
  by (simp_all add: on_room_def on_game_def)

lemma books_presence [simp]:
  "books_of (remove_online_user sid st) = books_of st" "books_of (add_online_user sid u st) = books_of st"
  "books_of (snd (remove_spectator sid st)) = books_of st"
  by (auto simp: remove_online_user_def add_online_user_def remove_spectator_def Let_def split: option.split)

lemma books_fold: "(\<And>y s. books (f y s) = books s) \<Longrightarrow> books (fold f ys s) = books s"
  by (induction ys arbitrary: s) auto

lemma books_award [simp]: "books (award_achievements w rid ps n s) = books s"
proof -
  have "books (award_player w g names n p s) = books s" for g names p s
    by (simp add: award_player_def Let_def split: option.split)
  then show ?thesis by (auto simp: award_achievements_def intro!: books_fold split: option.split)
qed

lemma books_announce [simp]:
  "books (announce_rating_changes w rid ps n s) = books s" "books (announce_saved_game rid ps n s) = books s"
  "books (broadcast_rooms s) = books s" "books (emit_rooms_list s) = books s" "books (emit_live_games s) = books s"
  "books (room_notice rid ev nm s) = books s" "books (emit_error sid m s) = books s" "books (rejoin_failed sid m' s) = books s"
  by (simp_all add: announce_rating_changes_def announce_saved_game_def broadcast_rooms_def emit_rooms_list_def emit_live_games_def
      room_notice_def emit_error_def rejoin_failed_def split: option.split)

lemma books_save [simp]: "books (snd (save_game_to_db w rid s)) = books s"
  by (simp add: save_game_to_db_def after_save_def Let_def split: option.split)

lemma books_persist [simp]: "books (persist_async w rid s) = books s"
  by (simp add: persist_async_def Let_def split: option.split)

lemma books_push [simp]: "books (maybe_push_turn w rid s) = books s"
  by (simp add: maybe_push_turn_def Let_def split: option.split prod.split)

lemma books_admins [simp]: "books (notify_admins w rid s) = books s"
  by (simp add: notify_admins_def Let_def split: option.split)

lemma books_states [simp]: "books (emit_all_states w rid s) = books s"
  by (simp add: emit_all_states_def split: option.split)

lemma books_schedule [simp]: "books (schedule_bot_turn w rid s) = books s"
  by (simp add: schedule_bot_turn_def Let_def split: option.split)

lemma books_friends [simp]: "books (notify_friends_presence v u b s) = books s" "books (gone_offline v x s) = books s"
  by (simp_all add: notify_friends_presence_def gone_offline_def split: option.split)

lemma books_watchers [simp]: "books (forget_watcher sid s) = books s" "books (stop_watching sid s) = books s"
  by (simp_all add: forget_watcher_def stop_watching_def)

lemma books_spectating [simp]: "books (stop_spectating v sid s) = books s"
proof (cases "remove_spectator sid (tables s)")
  case (Pair q st)
  have "books_of st = books s" using books_presence(3) [of sid "tables s"] Pair by simp
  then show ?thesis using Pair by (simp add: stop_spectating_def Let_def split: option.split)
qed

lemma books_limit: "check_limit w sid ev s = (b, s1) \<Longrightarrow> books s1 = books s"
  by (auto simp: check_limit_def split: prod.splits)

section \<open>What leaves the seats of a room alone\<close>

lemma seen_friends [simp]: "seen seat_view x (notify_friends_presence v u b s) = seen seat_view x s"
  by (simp add: notify_friends_presence_def)

lemma seen_offline [simp]: "seen seat_view x (gone_offline v u s) = seen seat_view x s"
  by (simp add: gone_offline_def split: option.split)

lemma seen_notices [simp]:
  "seen seat_view x (emit_rooms_list s) = seen seat_view x s" "seen seat_view x (emit_live_games s) = seen seat_view x s"
  "seen seat_view x (room_notice rid ev nm s) = seen seat_view x s" "seen seat_view x (rejoin_failed sid m' s) = seen seat_view x s"
  by (simp_all add: emit_rooms_list_def emit_live_games_def room_notice_def rejoin_failed_def)

text \<open>Operations on the tables that leave the rooms alone.\<close>

lemma seen_tables: "(\<And>st. rooms (f st) = rooms st) \<Longrightarrow> seen obs x (on_tables f s) = seen obs x s"
  by (simp add: seen_def room_at_def on_tables_def)

lemma rooms_presence [simp]:
  "rooms (remove_online_user sid st) = rooms st" "rooms (add_online_user sid u st) = rooms st"
  "rooms (register_player sid nm a st) = rooms st" "rooms (cleanup_player_token sid st) = rooms st"
  by (auto simp: remove_online_user_def add_online_user_def register_player_def cleanup_player_token_def Let_def split: option.split if_split)


lemma seen_watchers [simp]: "seen seat_view x (stop_watching sid s) = seen seat_view x s"
  "seen seat_view x (forget_watcher sid s) = seen seat_view x s"
proof -
  have 1: "seen seat_view x (stop_watching sid s) = seen seat_view x s" for s
    by (simp add: stop_watching_def seen_def room_at_def on_tables_def map_of_map option.map_comp comp_def seat_view_def cong: option.map_cong)
  then show "seen seat_view x (stop_watching sid s) = seen seat_view x s" .
  show "seen seat_view x (forget_watcher sid s) = seen seat_view x s"
    by (simp add: forget_watcher_def 1 seen_tables)
qed

lemma seen_spectating [simp]: "seen seat_view x (stop_spectating v sid s) = seen seat_view x s"
proof -
  have "seen seat_view x (s\<lparr>tables := snd (remove_spectator sid (tables s))\<rparr>) = seen seat_view x s"
    by (auto simp: remove_spectator_def seen_def room_at_def map_of_map_entry option.map_comp comp_def seat_view_def split: option.split)
  then show ?thesis by (auto simp: stop_spectating_def Let_def split: prod.split option.split)
qed

section \<open>The seat of a lost connection\<close>

lemma books_lost: "books (snd (note_lost v t sid rid nm auth s)) =
    (player_rooms (tables s), sid_to_token (tables s), reconnect_tokens (tables s),
     AList.update t \<lparr>d_room = rid, d_sid = sid, d_name = nm, d_auth = auth, d_seq = disconnect_seq (tables s) + 1, d_at = lobby_now v\<rparr>
       (disconnected_players (tables s)))"
  by (simp add: note_lost_def note_disconnected_def books_of_def Let_def)

lemma seen_lost [simp]: "seen obs x (snd (note_lost v t sid rid nm auth s)) = seen obs x s"
  by (simp add: note_lost_def note_disconnected_def seen_def room_at_def Let_def)

lemma seen_exit [simp]: "seen obs x (exit_room sid s) = seen obs x s" "seen obs x (enter_room sid rid s) = seen obs x s"
  by (simp_all add: exit_room_def enter_room_def seen_tables)

lemma books_exit: "books (exit_room sid s) = ((player_rooms (tables s))(sid := None), snd (books s))"
  by (simp add: exit_room_def books_of_def on_tables_def)

lemma books_seat [simp]: "books (seat_lost sid rid s) = books s"
  by (simp add: seat_lost_def)

lemma seen_seat_lost: "seen seat_view rid (seat_lost sid rid s) =
    map_option (\<lambda>(g, rest). (snd (mark_disconnected sid g), rest)) (seen seat_view rid s)"
  by (simp add: seat_lost_def seen_def room_at_on_room option.map_comp comp_def seat_view_def)

text \<open>What a lost connection leaves in the tables: an entry for its token, and its seat marked as disconnected.\<close>

definition seat_kept :: "str \<Rightarrow> str \<Rightarrow> str \<Rightarrow> server \<Rightarrow> server \<Rightarrow> bool" where
  "seat_kept t sid rid s s' \<longleftrightarrow>
     (\<exists>dc. map_of (disconnected_players (tables s')) t = Some dc \<and> d_room dc = rid \<and> d_sid dc = sid)
     \<and> reconnect_tokens (tables s') = reconnect_tokens (tables s)
     \<and> seen seat_view rid s' = map_option (\<lambda>(g, rest). (snd (mark_disconnected sid g), rest)) (seen seat_view rid s)"

lemma kept_by_books: "books s2 = books s1 \<Longrightarrow> seen seat_view rid s2 = seen seat_view rid s1 \<Longrightarrow>
    seat_kept t sid rid s s2 \<longleftrightarrow> seat_kept t sid rid s s1"
  by (simp add: seat_kept_def books_of_def)

lemma kept_from_books: "books s1 = books s \<Longrightarrow> seen seat_view rid s1 = seen seat_view rid s \<Longrightarrow>
    seat_kept t sid rid s1 s2 \<longleftrightarrow> seat_kept t sid rid s s2"
  by (simp add: seat_kept_def books_of_def)

lemma kept_lost:
  "seat_kept t sid rid s (exit_room sid (snd (note_lost v t sid rid nm auth (emit e (seat_lost sid rid s)))))"
proof -
  let ?s1 = "emit e (seat_lost sid rid s)"
  have "books ?s1 = books s" by simp
  then show ?thesis
    using books_lost [of v t sid rid nm auth ?s1] books_exit [of sid "snd (note_lost v t sid rid nm auth ?s1)"]
    by (simp add: seat_kept_def books_of_def seen_seat_lost update_conv')
qed


lemma kept_later:
  assumes "books s2 = books s1" "seen seat_view rid s2 = seen seat_view rid s1" "seat_kept t sid rid s (exit_room sid s1)"
  shows "seat_kept t sid rid s (exit_room sid s2)"
proof -
  have "books (exit_room sid s2) = books (exit_room sid s1)"
    using assms(1) by (simp only: books_exit) (simp add: books_of_def)
  then show ?thesis using assms kept_by_books [of "exit_room sid s2" "exit_room sid s1"] by simp
qed

lemma disconnect_keeps_seat:
  assumes "room_at rid s = Some r" "\<not> finished (room_game r)"
  shows "seat_kept t sid rid s (snd (disconnect_seat v sid rid r (Some t) nm auth s))"
proof -
  obtain n s1 where lost: "note_lost v t sid rid nm auth (emit (LeaveChannel sid rid) (seat_lost sid rid s)) = (n, s1)" by fastforce
  have kept: "seat_kept t sid rid s (exit_room sid s1)"
    using kept_lost [of t sid rid s v nm auth "LeaveChannel sid rid"] unfolding lost by simp
  have timer: "seat_kept t sid rid s (exit_room sid (room_notice rid ''player_disconnected'' nm (emit_all_states (base v) rid (emit e s1))))" for e
    by (rule kept_later [OF _ _ kept]) simp_all
  have plain: "seat_kept t sid rid s (exit_room sid (room_notice rid ''player_disconnected'' nm (emit_all_states (base v) rid s1)))"
    by (rule kept_later [OF _ _ kept]) simp_all
  show ?thesis using timer plain assms(2) by (simp add: disconnect_seat_def Let_def lost)
qed

lemma tables_kept: "(\<And>st. books_of (f st) = books_of st) \<Longrightarrow> (\<And>st. rooms (f st) = rooms st) \<Longrightarrow>
    seat_kept t sid rid s (on_tables f s') = seat_kept t sid rid s s'"
  by (rule kept_by_books) (simp_all add: seen_tables)

lemma lost_connection_keeps_seat:
  assumes seat: "player_rooms (tables s) sid = Some rid" and token: "sid_to_token (tables s) sid = Some t"
    and room: "room_at rid s = Some r" and live: "\<not> finished (room_game r)"
  shows "seat_kept t sid rid s (handle_disconnect v sid s)"
proof -
  let ?s1 = "stop_spectating v sid (forget_watcher sid s)"
  have same: "books ?s1 = books s" "seen seat_view rid ?s1 = seen seat_view rid s" by simp_all
  obtain r1 where room1: "room_at rid ?s1 = Some r1" and r1: "seat_view r1 = seat_view r"
    using same(2) room by (auto simp: seen_def)
  have live1: "\<not> finished (room_game r1)" using r1 live by (simp add: seat_view_def)
  have seat1: "player_rooms (tables ?s1) sid = Some rid" "get_reconnect_token_for_sid sid (tables ?s1) = Some t"
    using same(1) seat token by (simp_all add: books_of_def get_reconnect_token_for_sid_def)
  let ?k = "disconnect_seat v sid rid r1 (Some t) (name_of sid ''?'' ?s1) (player_auth (tables ?s1) sid) ?s1"
  have kept: "seat_kept t sid rid s (snd ?k)"
    using disconnect_keeps_seat [OF room1 live1] kept_from_books [OF same] by simp
  have quiet: "seat_kept t sid rid s (emit_rooms_list (s4\<lparr>limiter := l\<rparr>)) = seat_kept t sid rid s s4"
    "seat_kept t sid rid s (gone_offline v u s4) = seat_kept t sid rid s s4" for s4 l u
    by (rule kept_by_books; simp)+
  show ?thesis
    by (simp add: handle_disconnect_def Let_def room1 seat1 quiet tables_kept kept)
qed


section \<open>Returning with the token\<close>

text \<open>The room after a return: who owned it by connection or by token owns it again.\<close>

definition owns_by :: "str \<Rightarrow> str \<Rightarrow> room \<Rightarrow> bool" where
  "owns_by old t r \<longleftrightarrow> owner r = Some old \<or> owner_token r = Some t"

definition back_at :: "str \<Rightarrow> str \<Rightarrow> str \<Rightarrow> game \<times> str option \<times> str option \<times> bool \<Rightarrow> server \<Rightarrow> bool" where
  "back_at sid t rid u s \<longleftrightarrow> player_rooms (tables s) sid = Some rid \<and> sid_to_token (tables s) sid = Some t
     \<and> map_of (disconnected_players (tables s)) t = None \<and> seen seat_view rid s = Some u"

lemma back_by_books: "books s2 = books s1 \<Longrightarrow> seen seat_view rid s2 = seen seat_view rid s1 \<Longrightarrow>
    back_at sid t rid u s2 \<longleftrightarrow> back_at sid t rid u s1"
  by (simp add: back_at_def books_of_def)

lemma back_quiet [simp]:
  "back_at sid t rid u (emit e s) = back_at sid t rid u s" "back_at sid t rid u (schedule_bot_turn w x s) = back_at sid t rid u s"
  "back_at sid t rid u (emit_rooms_list s) = back_at sid t rid u s" "back_at sid t rid u (room_notice x ev nm s) = back_at sid t rid u s"
  "back_at sid t rid u (emit_all_states w x s) = back_at sid t rid u s"
  by (rule back_by_books; simp)+

lemma back_announced:
  "back_at sid t rid u s \<Longrightarrow> back_at sid t rid u (case room_at rid s of None \<Rightarrow> s
     | Some r \<Rightarrow> schedule_bot_turn w rid (emit_rooms_list (room_notice rid ev nm (emit_all_states w rid
         (if b then emit (e2 r) (emit (e1 r) s) else emit (e1 r) s)))))"
  by (cases "room_at rid s") simp_all

lemma return_gives_seat:
  assumes dc: "map_of (disconnected_players (tables s)) t = Some dc" and room: "room_at (d_room dc) s = Some r"
  defines "owns \<equiv> owns_by (d_sid dc) t r"
  shows "back_at sid t (d_room dc) (room_game r, if owns then Some sid else owner r, if owns then Some t else owner_token r, is_async r)
           (return_to_seat v sid t dc info s)"
proof -
  let ?rid = "d_room dc"
  let ?u = "(room_game r, if owns then Some sid else owner r, if owns then Some t else owner_token r, is_async r)"
  let ?s1 = "on_tables (\<lambda>st. snd (complete_rejoin t sid st)) s"
  let ?s2 = "if owns then on_room ?rid (\<lambda>r. r\<lparr>owner := Some sid, owner_token := Some t\<rparr>) ?s1 else ?s1"
  have room1: "room_at ?rid ?s1 = Some r"
    using room dc by (simp add: room_at_def on_tables_def complete_rejoin_def)
  have owns1: "(case room_at ?rid ?s1 of Some r \<Rightarrow> owner r = Some (d_sid dc) \<or> owner_token r = Some t | None \<Rightarrow> False) = owns"
    by (simp add: room1 owns_def owns_by_def)
  obtain r2 where room2: "room_at ?rid ?s2 = Some r2" and view2: "seat_view r2 = ?u"
    using room1 by (cases owns) (simp_all add: room_at_on_room seat_view_def)
  have books2: "sid_to_token (tables ?s2) sid = Some t" "map_of (disconnected_players (tables ?s2)) t = None"
    using dc by (simp_all add: on_room_def on_tables_def complete_rejoin_def delete_conv')
  let ?f = "\<lambda>auth st. st\<lparr>player_rooms := (player_rooms st)(sid \<mapsto> ?rid), player_names := (player_names st)(sid \<mapsto> d_name dc),
                 player_auth := ((player_auth st)(d_sid dc := None))(sid \<mapsto> auth)\<rparr>"
  have 3: "back_at sid t ?rid ?u (on_tables (?f auth) ?s2)" for auth
    using room2 view2 books2 by (simp add: back_at_def on_tables_def seen_def room_at_def del: view_game)
  have 4: "back_at sid t ?rid ?u (on_tables (add_online_user sid u) s') = back_at sid t ?rid ?u s'" for u s'
    by (rule back_by_books) (simp_all add: seen_tables)
  let ?s4 = "\<lambda>auth. emit (EnterChannel sid ?rid)
      (case registered_id auth of Some u \<Rightarrow> on_tables (add_online_user sid u) (on_tables (?f auth) ?s2) | None \<Rightarrow> on_tables (?f auth) ?s2)"
  have whole: "back_at sid t ?rid ?u (?s4 auth)" for auth
    using 3 [of auth] by (cases "registered_id auth") (simp_all only: option.case back_quiet 4)
  show ?thesis
    unfolding return_to_seat_def Let_def owns1
    by (rule back_announced [OF whole])
qed


lemma position_ids: "map player_id ps = map player_id qs \<Longrightarrow>
    position (\<lambda>p. player_id p = x) ps = position (\<lambda>p. player_id p = x) qs"
proof (induction ps arbitrary: qs)
  case (Cons p ps)
  then obtain q qs' where "qs = q # qs'" by (cases qs) auto
  then show ?case using Cons by simp
qed simp

lemma first_index_ids: "map player_id (players g) = map player_id (players g') \<Longrightarrow> first_index sid g = first_index sid g'"
  unfolding first_index_def by (rule position_ids)

lemma marked_index: "first_index sid (snd (mark_disconnected sid g)) = first_index sid g"
  by (rule first_index_ids)
    (auto simp: mark_disconnected_def upd_player_def map_update list_update_same_conv dest: first_index_Some split: option.split)

lemma replace_after_loss: "snd (replace_player_sid sid sid' (snd (mark_disconnected sid g))) = snd (replace_player_sid sid sid' g)"
proof (cases "first_index sid g")
  case None
  then show ?thesis by (simp add: mark_disconnected_def)
next
  case (Some i)
  let ?g = "upd_player i (disconnected_update (\<lambda>_. True)) g"
  have i: "i < length (players g)" "player_id (players g ! i) = sid" using first_index_Some [OF Some] by simp_all
  have ids: "map player_id (players ?g) = map player_id (players g)"
    using i by (simp add: upd_player_def map_update list_update_same_conv [THEN iffD2])
  have "first_index sid ?g = Some i" using first_index_ids [OF ids] Some by simp
  moreover have "upd_player i (reconnect sid') ?g = upd_player i (reconnect sid') g"
    using i by (simp add: upd_player_def reconnect_def)
  ultimately show ?thesis using Some by (simp add: mark_disconnected_def replace_player_sid_def upd_player_def)
qed

lemma released_keeps_seat:
  assumes info: "reconnect_tokens (tables s) t = Some info" "t_room info = rid" "t_sid info = sid"
    and room: "room_at rid s = Some r" "\<not> finished (room_game r)" and seat: "player_rooms (tables s) sid = Some rid"
  obtains s' where "release_live_session v t s = (Some sid, s')" "seat_kept t sid rid s s'"
proof -
  let ?s1 = "exit_room sid (emit (LeaveChannel sid rid) (seat_lost sid rid s))"
  have "seat_kept t sid rid s (snd (note_lost v t sid rid nm auth ?s1))" for nm auth
    using books_lost [of v t sid rid nm auth ?s1]
      books_exit [of sid "emit (LeaveChannel sid rid) (seat_lost sid rid s)"] books_emit(1) [of "LeaveChannel sid rid" "seat_lost sid rid s"] books_seat [of sid rid s]
    by (simp add: seat_kept_def books_of_def seen_seat_lost update_conv')
  then show thesis using that info room seat by (simp add: release_live_session_def Let_def get_token_info_def)
qed

lemma rejoin_room_unfold:
  assumes "check_limit (base v) sid (ascii ''rejoin_room'') s0 = (True, s1)" "as_object data = Some kvs"
    "map_of kvs (ascii ''token'') = Some (JStr t)" "t \<noteq> []"
    "taken = (if get_disconnected_info t (tables s1) = None \<and> get_token_info t (tables s1) \<noteq> None
              then release_live_session v t s1 else (None, s1))"
    "get_disconnected_info t (tables (snd taken)) = Some dc" "get_token_info t (tables (snd taken)) = Some info"
    "\<not> (case t_auth info \<bind> registered_id of Some u \<Rightarrow> db_banned v (outbox (snd taken)) u | None \<Rightarrow> False)"
    "room_at (d_room dc) (snd taken) = Some r" "replace_player_sid (d_sid dc) sid (room_game r) = (True, g)"
  shows "rejoin_room v sid data s0 =
    (let s3 = return_to_seat v sid t dc info (on_game (d_room dc) (\<lambda>_. g) (snd taken))
     in case fst taken of Some old \<Rightarrow> if old \<noteq> sid then emit (CloseSid old) s3 else s3 | None \<Rightarrow> s3)"
proof -
  obtain c cs where t: "t = c # cs" using assms(4) by (cases t) auto
  note taken = assms(5) [unfolded t, symmetric]
  show ?thesis
    using assms(8)
    by (simp only: rejoin_room_def assms(1-3) t prod.case bool.case option.case json.case list.case Let_def taken
        assms(6,7) [unfolded t] assms(9,10) if_False)
qed

lemma rejoin_kept_seat:
  assumes kept: "seat_kept t sid rid s s2"
    and room: "room_at rid s = Some r" and seat: "first_index sid (room_game r) = Some i"
    and s2: "s2 = snd taken" and taken: "taken = (if get_disconnected_info t (tables s1) = None \<and> get_token_info t (tables s1) \<noteq> None
                                 then release_live_session v t s1 else (None, s1))"
    and ok: "check_limit (base v) sid' (ascii ''rejoin_room'') s0 = (True, s1)"
    and message: "as_object data = Some kvs" "map_of kvs (ascii ''token'') = Some (JStr t)" "t \<noteq> []"
    and info: "reconnect_tokens (tables s) t = Some info"
    and free: "\<And>u o'. t_auth info \<bind> registered_id = Some u \<Longrightarrow> \<not> db_banned v o' u"
  shows "back_at sid' t rid (snd (replace_player_sid sid sid' (room_game r)),
      if owns_by sid t r then Some sid' else owner r, if owns_by sid t r then Some t else owner_token r, is_async r)
      (rejoin_room v sid' data s0)"
proof -
  obtain dc where dc: "map_of (disconnected_players (tables s2)) t = Some dc" "d_room dc = rid" "d_sid dc = sid"
    and token: "reconnect_tokens (tables s2) t = Some info"
    and view: "seen seat_view rid s2 = Some (snd (mark_disconnected sid (room_game r)), owner r, owner_token r, is_async r)"
    using kept room info by (auto simp: seat_kept_def seen_def seat_view_def)
  obtain r2 where room2: "room_at rid s2 = Some r2"
    and r2: "room_game r2 = snd (mark_disconnected sid (room_game r))" "owner r2 = owner r" "owner_token r2 = owner_token r" "is_async r2 = is_async r"
    using view by (auto simp: seen_def seat_view_def)
  let ?g = "snd (replace_player_sid sid sid' (room_game r))"
  have g: "snd (replace_player_sid sid sid' (room_game r2)) = ?g" by (simp add: r2 replace_after_loss)
  have "fst (replace_player_sid sid sid' (room_game r2))"
    using seat marked_index [of sid "room_game r"] by (simp add: r2 replace_player_sid_def)
  then have replaced: "replace_player_sid sid sid' (room_game r2) = (True, ?g)" using g by (metis prod.collapse)
  let ?s3 = "on_game rid (\<lambda>_. ?g) s2"
  have dc3: "map_of (disconnected_players (tables ?s3)) t = Some dc" using dc by (simp add: on_game_def on_room_def on_tables_def)
  have room3: "room_at (d_room dc) ?s3 = Some (r2\<lparr>room_game := ?g\<rparr>)" using room2 dc by (simp add: on_game_def room_at_on_room)
  have home: "back_at sid' t rid (?g, if owns_by sid t r then Some sid' else owner r, if owns_by sid t r then Some t else owner_token r, is_async r)
      (return_to_seat v sid' t dc info ?s3)"
    using return_gives_seat [OF dc3 room3, of sid' v info] dc by (simp add: owns_by_def r2 cong del: if_weak_cong)
  have unbanned: "\<not> (case t_auth info \<bind> registered_id of Some u \<Rightarrow> db_banned v (outbox s2) u | None \<Rightarrow> False)"
    using free by (simp split: option.split)
  have "rejoin_room v sid' data s0 = (let s3 = return_to_seat v sid' t dc info ?s3
     in case fst taken of Some old \<Rightarrow> if old \<noteq> sid' then emit (CloseSid old) s3 else s3 | None \<Rightarrow> s3)"
    using rejoin_room_unfold [OF ok message taken, of dc info r2 ?g] dc token unbanned [unfolded s2] room2 replaced
    by (simp add: s2 get_disconnected_info_def get_token_info_def)
  then show ?thesis
    using home by (cases "fst taken"; cases "fst taken = Some sid'") (simp_all add: Let_def split del: if_split)
qed




text \<open>A server with one room in which the first player sits on a token; nothing limits the requests.\<close>

definition demo_seated :: "game \<Rightarrow> server" where
  "demo_seated g = on_tables (\<lambda>st. st\<lparr>player_rooms := [[97] \<mapsto> [7]], sid_to_token := [[97] \<mapsto> [55]],
     reconnect_tokens := [[55] \<mapsto> \<lparr>t_room = [7], t_name = [65], t_sid = [97], t_auth = None\<rparr>]\<rparr>) (demo_server g)"

lemma demo_seated_simps [simp]:
  "room_at [7] (demo_seated g) = Some (room_new 0 [7] g None [65] [66] 4 [] False None)"
  "check_limit w sid ev (demo_seated g) = (True, demo_seated g)"
  "player_rooms (tables (demo_seated g)) = [[97] \<mapsto> [7]]" "sid_to_token (tables (demo_seated g)) = [[97] \<mapsto> [55]]"
  "reconnect_tokens (tables (demo_seated g)) = [[55] \<mapsto> \<lparr>t_room = [7], t_name = [65], t_sid = [97], t_auth = None\<rparr>]"
  "disconnected_players (tables (demo_seated g)) = []"
  by (simp_all add: demo_seated_def demo_server_def on_tables_def room_at_def check_limit_def check_socket_def socket_limit_def
      limiter_new_def limit_in_def state_new_def)


section \<open>Two seats for one connection\<close>

lemma seen_other: "x \<noteq> rid \<Longrightarrow> seen obs x (on_room rid f s) = seen obs x s" "x \<noteq> rid \<Longrightarrow> seen obs x (on_game rid f' s) = seen obs x s"
  by (simp_all add: seen_def room_at_on_room on_game_def)

lemma return_elsewhere:
  assumes "x \<noteq> d_room dc"
  shows "seen seat_view x (return_to_seat v sid t dc info s) = seen seat_view x s"
proof -
  have 1: "seen seat_view x (on_tables (\<lambda>st. snd (complete_rejoin t sid st)) s') = seen seat_view x s'" for s'
    by (rule seen_tables) (simp add: complete_rejoin_def split: option.split)
  have 2: "seen seat_view x (on_tables (add_online_user sid u) s') = seen seat_view x s'" for u s'
    by (simp add: seen_tables)
  have 3: "seen seat_view x (on_tables (\<lambda>st. st\<lparr>player_rooms := (player_rooms st)(sid \<mapsto> d_room dc), player_names := (player_names st)(sid \<mapsto> d_name dc),
                 player_auth := ((player_auth st)(d_sid dc := None))(sid \<mapsto> a)\<rparr>) s') = seen seat_view x s'" for a s'
    by (simp add: seen_tables)
  show ?thesis using assms
    by (simp add: return_to_seat_def Let_def 1 2 3 seen_other split: option.split)
qed


lemma lost_elsewhere:
  assumes seat: "player_rooms (tables s) sid = Some rid" and token: "sid_to_token (tables s) sid = Some t"
    and room: "room_at rid s = Some r" and live: "\<not> finished (room_game r)" and x: "x \<noteq> rid"
  shows "seen seat_view x (handle_disconnect v sid s) = seen seat_view x s"
proof -
  let ?s1 = "stop_spectating v sid (forget_watcher sid s)"
  have same: "books ?s1 = books s" "seen seat_view rid ?s1 = seen seat_view rid s" by simp_all
  obtain r1 where room1: "room_at rid ?s1 = Some r1" and r1: "seat_view r1 = seat_view r"
    using same(2) room by (auto simp: seen_def)
  have live1: "\<not> finished (room_game r1)" using r1 live by (simp add: seat_view_def)
  have seat1: "player_rooms (tables ?s1) sid = Some rid" "get_reconnect_token_for_sid sid (tables ?s1) = Some t"
    using same(1) seat token by (simp_all add: books_of_def get_reconnect_token_for_sid_def)
  have far: "seen seat_view x (seat_lost sid rid s') = seen seat_view x s'" for s'
    using x by (simp add: seat_lost_def seen_other)
  have quiet: "seen seat_view x (on_tables (\<lambda>st. remove_online_user sid (f st)) s') = seen seat_view x s'"
    if "\<And>st. rooms (f st) = rooms st" for f s' using that by (simp add: seen_tables)
  have auth: "seen seat_view x (on_tables (\<lambda>st. st\<lparr>player_auth := (player_auth st)(sid := None)\<rparr>) s') = seen seat_view x s'" for s'
    by (simp add: seen_tables)
  have "seen seat_view x (snd (disconnect_seat v sid rid r1 (Some t) nm a ?s1)) = seen seat_view x ?s1" for nm a
  proof -
    obtain n s2 where lost: "note_lost v t sid rid nm a (emit (LeaveChannel sid rid) (seat_lost sid rid ?s1)) = (n, s2)" by fastforce
    have "seen seat_view x s2 = seen seat_view x ?s1"
      using seen_lost [of seat_view x v t sid rid nm a "emit (LeaveChannel sid rid) (seat_lost sid rid ?s1)"]
      unfolding lost by (simp add: far)
    then show ?thesis using live1 lost by (simp add: disconnect_seat_def Let_def)
  qed
  then show ?thesis
    by (simp add: handle_disconnect_def Let_def room1 seat1 quiet auth)
qed

text \<open>
  C31. A connection that sits in one room and returns with a token to another sits in both: unlike every other way
  into a room, \<^verbatim>\<open>rejoin_room\<close> does not ask whether the connection is in a room already. The old seat stays connected
  with the same hand, and not even the loss of the connection frees it, since the tables no longer know of it.
\<close>

theorem rejoin_leaves_a_seat_behind:
  assumes seat: "player_rooms (tables s) sid = Some a" "room_at a s = Some ra"
    and token: "map_of (disconnected_players (tables s)) t = Some dc" "reconnect_tokens (tables s) t = Some info" "t \<noteq> []"
    and room: "d_room dc \<noteq> a" "room_at (d_room dc) s = Some rb" "first_index (d_sid dc) (room_game rb) = Some i"
      "\<not> finished (room_game rb)"
    and ok: "check_limit (base v) sid (ascii ''rejoin_room'') s = (True, s1)"
    and message: "as_object data = Some kvs" "map_of kvs (ascii ''token'') = Some (JStr t)"
    and free: "\<And>u es. t_auth info \<bind> registered_id = Some u \<Longrightarrow> \<not> db_banned v es u"
  defines "s' \<equiv> rejoin_room v sid data s"
  shows "player_rooms (tables s') sid = Some (d_room dc)
    \<and> (\<exists>r. room_at a s' = Some r \<and> room_game r = room_game ra)
    \<and> (\<exists>r. room_at a (handle_disconnect v' sid s') = Some r \<and> room_game r = room_game ra)"
proof -
  let ?g = "snd (replace_player_sid (d_sid dc) sid (room_game rb))"
  have same: "books s1 = books s" "seen seat_view x s1 = seen seat_view x s" for x
    using books_limit [OF ok] seats.seen_limit [OF ok] by simp_all
  have dc1: "map_of (disconnected_players (tables s1)) t = Some dc" "reconnect_tokens (tables s1) t = Some info"
    using same(1) token by (simp_all add: books_of_def)
  obtain r1 where r1: "room_at (d_room dc) s1 = Some r1" "room_game r1 = room_game rb"
    using same(2) [of "d_room dc"] room by (auto simp: seen_def seat_view_def)
  have replaced: "replace_player_sid (d_sid dc) sid (room_game r1) = (True, ?g)"
    using room(3) r1(2) by (simp add: replace_player_sid_def)
  have over: "\<not> finished ?g" using room(3,4) by (simp add: replace_player_sid_def upd_player_def)
  let ?s2 = "on_game (d_room dc) (\<lambda>_. ?g) s1"
  have s': "s' = return_to_seat v sid t dc info ?s2"
    using rejoin_room_unfold [OF ok message token(3), of "(None, s1)" dc info r1 ?g] dc1 r1 replaced free
    by (auto simp: s'_def Let_def get_disconnected_info_def get_token_info_def split: option.splits)
  have dc2: "map_of (disconnected_players (tables ?s2)) t = Some dc" using dc1 by (simp add: on_game_def on_room_def on_tables_def)
  have "room_at (d_room dc) ?s2 = Some (r1\<lparr>room_game := ?g\<rparr>)" using r1 by (simp add: on_game_def room_at_on_room)
  from return_gives_seat [OF dc2 this, of sid v info] obtain u where
    home: "back_at sid t (d_room dc) (?g, u) s'" by (auto simp: s')
  then obtain r2 where r2: "room_at (d_room dc) s' = Some r2" "\<not> finished (room_game r2)"
    and tab: "player_rooms (tables s') sid = Some (d_room dc)" "sid_to_token (tables s') sid = Some t"
    using over by (auto simp: back_at_def seen_def seat_view_def)
  have away: "seen seat_view a s' = seen seat_view a s"
    using room(1) same(2) [of a] by (simp add: s' return_elsewhere [of a] seen_other)
  have "seen seat_view a (handle_disconnect v' sid s') = seen seat_view a s'"
    by (rule lost_elsewhere [OF tab r2]) (use room(1) in simp)
  then show ?thesis using away tab seat(2) by (auto simp: seen_def seat_view_def)
qed


text \<open>A second room, in which a player has lost the connection.\<close>

definition demo_two :: server where
  "demo_two = on_tables (\<lambda>st. st\<lparr>rooms := rooms st @ [([8], room_new 0 [8] (demo_game False) None [65] [66] 4 [] False None)],
     player_rooms := [[97] \<mapsto> [7]], reconnect_tokens := [[55] \<mapsto> \<lparr>t_room = [8], t_name = [66], t_sid = [98], t_auth = None\<rparr>],
     disconnected_players := [([55], \<lparr>d_room = [8], d_sid = [98], d_name = [66], d_auth = None, d_seq = 1, d_at = 0\<rparr>)]\<rparr>)
     (demo_server (demo_game False))"

lemma demo_two_simps [simp]:
  "room_at [7] demo_two = Some (room_new 0 [7] (demo_game False) None [65] [66] 4 [] False None)"
  "room_at [8] demo_two = Some (room_new 0 [8] (demo_game False) None [65] [66] 4 [] False None)"
  "check_limit w sid ev demo_two = (True, demo_two)" "player_rooms (tables demo_two) = [[97] \<mapsto> [7]]"
  "reconnect_tokens (tables demo_two) = [[55] \<mapsto> \<lparr>t_room = [8], t_name = [66], t_sid = [98], t_auth = None\<rparr>]"
  "disconnected_players (tables demo_two) = [([55], \<lparr>d_room = [8], d_sid = [98], d_name = [66], d_auth = None, d_seq = 1, d_at = 0\<rparr>)]"
  by (simp_all add: demo_two_def demo_server_def on_tables_def room_at_def check_limit_def check_socket_def socket_limit_def
      limiter_new_def limit_in_def state_new_def)

lemma rejoin_leaves_a_seat_behind_witness:
  "\<forall>v v'. let s' = rejoin_room v [97] (JObj [(ascii ''token'', JStr [55])]) demo_two
     in player_rooms (tables s') [97] = Some [8]
       \<and> (\<exists>r. room_at [7] (handle_disconnect v' [97] s') = Some r \<and> room_game r = demo_game False)"
proof (intro allI)
  fix v v'
  have first: "first_index [98] (demo_game False) = Some 1" by (simp add: first_index_def demo_game_def player_new_def)
  have live: "\<not> finished (demo_game False)" by (simp add: demo_game_def game_new_def)
  show "let s' = rejoin_room v [97] (JObj [(ascii ''token'', JStr [55])]) demo_two
     in player_rooms (tables s') [97] = Some [8]
       \<and> (\<exists>r. room_at [7] (handle_disconnect v' [97] s') = Some r \<and> room_game r = demo_game False)"
    using rejoin_leaves_a_seat_behind [OF _ demo_two_simps(1), of "[97]" "[55]" "\<lparr>d_room = [8], d_sid = [98], d_name = [66], d_auth = None, d_seq = 1, d_at = 0\<rparr>"
        "\<lparr>t_room = [8], t_name = [66], t_sid = [98], t_auth = None\<rparr>" _ 1 v demo_two "JObj [(ascii ''token'', JStr [55])]"
        "[(ascii ''token'', JStr [55])]" v'] first live
    unfolding Let_def by (auto simp: room_new_def)
qed

end
