(* ===== verification/RoomProps.thy ===== *)
theory RoomProps
  imports RoomSeats
begin

text \<open>
  Rights and admission: an administrator who logs out, guests while guest mode is off, whom a room lets in
  (\<^verbatim>\<open>join_room\<close>), and what a new room looks like (\<^verbatim>\<open>create_room\<close>).
\<close>

section \<open>Administrators who log out\<close>

interpretation watched: room_observer admin_watchers
  by unfold_locales simp_all

lemma watched_friends [simp]: "seen admin_watchers x (notify_friends_presence v u b s) = seen admin_watchers x s"
  by (simp add: notify_friends_presence_def)

lemma gone_offline_tables [simp]: "tables (gone_offline v u s) = tables s"
  by (simp add: gone_offline_def notify_friends_presence_def emit_list_def split: option.split)

text \<open>
  Logging out does not end the rights of an administrator: the connection leaves the channel of the administrators,
  but it stays in their table, so it may still watch any room, and the rooms it watches go on sending it their state.
\<close>

theorem admin_rights_survive_logout:
  fixes v v' :: lobby
  assumes admin: "admin_sids (tables s) sid = Some u" and idle: "player_rooms (tables s) sid = None" "spectator_rooms (tables s) sid = None"
    and room: "room_at rid s = Some r" "sid \<in> admin_watchers r"
  defines "s' \<equiv> logout v sid s"
  shows "is_admin_sid v' sid s'
    \<and> (\<exists>watchers. sid \<in> watchers \<and> AdminDetail rid watchers \<in> set (outbox (emit_all_states w rid s')))"
proof -
  have tab: "admin_sids (tables s') sid = Some u" "rooms (tables s') = rooms (tables s)"
    using admin idle
    by (auto simp: s'_def logout_def Let_def emit_def on_tables_def get_spectated_room_def remove_online_user_def split: option.split)
  let ?s1 = "maybe_push_turn w rid (persist_async w rid (emit_list (state_messages r) (on_room rid (touch (now w)) s')))"
  have room': "room_at rid s' = Some r" using room(1) tab(2) by (simp add: room_at_def)
  have "seen admin_watchers rid ?s1 = Some (admin_watchers r)" by simp (simp add: seen_def room')
  then obtain r1 where "room_at rid ?s1 = Some r1" "admin_watchers r1 = admin_watchers r" by (auto simp: seen_def)
  then have "AdminDetail rid (admin_watchers r) \<in> set (outbox (emit_all_states w rid s'))"
    using room(2) by (auto simp: emit_all_states_def room' notify_admins_def Let_def emit_def)
  then show ?thesis using tab(1) room(2) by (auto simp: is_admin_sid_def)
qed


definition demo_watched :: server where
  "demo_watched = on_room [7] (\<lambda>r. r\<lparr>admin_watchers := {[50]}\<rparr>)
     (on_tables (\<lambda>st. st\<lparr>admin_sids := [[50] \<mapsto> 1]\<rparr>) (demo_server (demo_game False)))"

lemma admin_rights_survive_logout_witness:
  "\<forall>v v' w. is_admin_sid v' [50] (logout v [50] demo_watched)
    \<and> (\<exists>watchers. [50] \<in> watchers \<and> AdminDetail [7] watchers \<in> set (outbox (emit_all_states w [7] (logout v [50] demo_watched))))"
proof (intro allI)
  fix v v' w
  have room: "room_at [7] demo_watched = Some ((room_new 0 [7] (demo_game False) None [65] [66] 4 [] False None)\<lparr>admin_watchers := {[50]}\<rparr>)"
    by (simp add: demo_watched_def room_at_on_room) (simp add: demo_server_def on_tables_def room_at_def)
  show "is_admin_sid v' [50] (logout v [50] demo_watched)
    \<and> (\<exists>watchers. [50] \<in> watchers \<and> AdminDetail [7] watchers \<in> set (outbox (emit_all_states w [7] (logout v [50] demo_watched))))"
    by (rule admin_rights_survive_logout [OF _ _ _ room])
      (simp_all add: demo_watched_def on_room_def on_tables_def demo_server_def state_new_def)
qed

section \<open>Guests\<close>

text \<open>
  Guest mode can be switched off, but only a missing or true \<^verbatim>\<open>is_guest\<close> is refused: a client that sends any other
  value (0, say) becomes a guest all the same.
\<close>

theorem guest_mode_off_is_bypassed:
  assumes off: "\<not> guest_allowed v"
    and ok: "check_limit (base v) sid (ascii ''set_name'') s = (True, s1)"
    and message: "as_object data = Some kvs" "map_of kvs (ascii ''is_guest'') = Some x" "x \<noteq> JBool True" "x \<noteq> JBool False"
  shows "player_auth (tables (set_name v sid data s)) sid = Some guest
    \<and> (\<exists>nm. player_names (tables (set_name v sid data s)) sid = Some nm)"
proof -
  obtain nm s2 where named: "set_name v sid data s = take_identity v sid nm None True s2"
    using ok message by (auto simp: set_name_def Let_def)
  have "player_auth (tables (take_identity v sid nm None True s2)) sid = Some guest
      \<and> player_names (tables (take_identity v sid nm None True s2)) sid = Some nm"
    by (auto simp: take_identity_def Let_def register_player_def registered_id_def guest_def on_tables_def emit_def)
  then show ?thesis by (simp add: named)
qed

lemma guest_mode_off_is_bypassed_witness:
  "\<forall>v. player_auth (tables (set_name (v\<lparr>guest_allowed := False\<rparr>) [97] (JObj [(ascii ''is_guest'', JInt 0)]) (demo_seated (demo_game False)))) [97]
     = Some guest"
proof
  fix v :: lobby
  show "player_auth (tables (set_name (v\<lparr>guest_allowed := False\<rparr>) [97] (JObj [(ascii ''is_guest'', JInt 0)]) (demo_seated (demo_game False)))) [97]
     = Some guest"
    using guest_mode_off_is_bypassed [of "v\<lparr>guest_allowed := False\<rparr>" "[97]" "demo_seated (demo_game False)" "demo_seated (demo_game False)"
      "JObj [(ascii ''is_guest'', JInt 0)]" "[(ascii ''is_guest'', JInt 0)]" "JInt 0"] by simp
qed

section \<open>Whom a room lets in\<close>

lemma admitted:
  assumes "admission_block r by_code nm auth = None"
  shows "is_private r \<longrightarrow> by_code"
    and "is_restored r \<Longrightarrow> expected_players r = Some es \<Longrightarrow> es \<noteq> [] \<Longrightarrow> nm \<in> set es \<and> identity_matches (known_identity r nm) auth"
  using assms by (auto simp: admission_block_def split: if_splits)

lemma late_seat_sound:
  assumes "late_seat nm auth r = Some old"
  shows "\<not> finished (room_game r) \<and> (\<exists>expected. map_of (late_join_names r) nm = Some expected \<and> identity_matches expected auth)
    \<and> (\<exists>p\<in>set (players (room_game r)). player_id p = old \<and> player_name p = nm \<and> disconnected p)"
  using assms by (auto simp: late_seat_def Let_def find_Some_iff split: if_splits option.splits)

text \<open>The rooms table and the seats of the connections only change when somebody is let in.\<close>

definition fits :: "str \<Rightarrow> auth_info option \<Rightarrow> room \<Rightarrow> bool" where
  "fits nm auth r \<longleftrightarrow>
     (if started (room_game r)
      then \<not> finished (room_game r) \<and> (\<exists>expected. map_of (late_join_names r) nm = Some expected \<and> identity_matches expected auth)
        \<and> (\<exists>p\<in>set (players (room_game r)). player_name p = nm \<and> disconnected p)
      else length (players (room_game r)) < max_players r \<and> length (players (room_game r)) < 4
        \<and> (\<forall>p\<in>set (players (room_game r)). casefold (player_name p) \<noteq> casefold nm))"

lemma named_by_code: "named_room kvs st = Inr (rid, True) \<Longrightarrow>
    map_of (join_codes st) (trim (member_or kvs ''code'' as_str [])) = Some rid"
  by (auto simp: named_room_def Let_def split: if_splits option.splits)

lemma seats_by_books: "books s2 = books s1 \<Longrightarrow> player_rooms (tables s2) = player_rooms (tables s1)"
  by (simp add: books_of_def)

lemma seats_limit: "check_limit w sid ev s = (b, s1) \<Longrightarrow> tables s1 = tables s"
  by (auto simp: check_limit_def split: prod.splits)

text \<open>How far a join message that lets somebody in has come.\<close>

lemma joining_steps:
  assumes entered: "player_rooms (tables (join_room v sid data s)) \<noteq> player_rooms (tables s)"
  defines "nm \<equiv> name_of sid ''N~evtelen'' s" and "auth \<equiv> player_auth (tables s) sid"
  obtains kvs rid code r where "as_object data = Some kvs" "room_id_for_player sid (tables s) = None"
    "named_room kvs (tables s) = Inr (rid, code)" "room_at rid s = Some r" "admission_block r code nm auth = None" "fits nm auth r"
proof -
  obtain b s1 where lm: "check_limit (base v) sid (ascii ''join_room'') s = (b, s1)" by fastforce
  have t1: "tables s1 = tables s" "room_at x s1 = room_at x s" for x using seats_limit [OF lm] by (simp_all add: room_at_def)
  have err: "player_rooms (tables (emit_error sid m s')) = player_rooms (tables s')" "player_rooms (tables (on_game rid f s')) = player_rooms (tables s')" for m rid f s'
    by (rule seats_by_books, simp)+
  have b: "b" using entered lm t1 by (cases b) (simp_all add: join_room_def err)
  obtain kvs where kvs: "as_object data = Some kvs" using entered lm b t1 by (cases "as_object data") (simp_all add: join_room_def)
  have free: "room_id_for_player sid (tables s) = None"
    using entered lm b t1 kvs by (cases "room_id_for_player sid (tables s)") (simp_all add: join_room_def err)
  obtain rid code where named: "named_room kvs (tables s) = Inr (rid, code)"
    using entered lm b t1 kvs free by (cases "named_room kvs (tables s)") (auto simp: join_room_def err)
  obtain r where r: "room_at rid s = Some r"
    using entered lm b t1 kvs free named by (cases "room_at rid s") (simp_all add: join_room_def err)
  have names: "name_of sid ''N~evtelen'' s1 = nm" "player_auth (tables s1) sid = auth" by (simp_all add: nm_def auth_def name_of_def t1)
  have block: "admission_block r code nm auth = None"
    using entered lm b t1 kvs free named r names by (cases "admission_block r code nm auth") (simp_all add: join_room_def err Let_def)
  note step = entered lm b t1 kvs free named r names block
  have "fits nm auth r"
  proof (cases "started (room_game r)")
    case True
    have "late_seat nm auth r \<noteq> None"
    proof
      assume "late_seat nm auth r = None"
      then have "try_late_join v sid rid nm auth s1 = (False, s1)" by (simp add: try_late_join_def t1 r)
      then show False using step True by (simp add: join_room_def err Let_def)
    qed
    then show ?thesis using late_seat_sound [of nm auth r] True by (auto simp: fits_def)
  next
    case False
    have room: "length (players (room_game r)) < max_players r"
      using step False by (cases "max_players r \<le> length (players (room_game r))") (simp_all add: join_room_def err Let_def)
    have other: "\<not> (\<exists>p\<in>set (players (room_game r)). casefold (player_name p) = casefold nm)"
      using step False room by (rule_tac notI) (simp add: join_room_def err Let_def)
    have "length (players (room_game r)) < 4"
    proof (rule ccontr)
      assume "\<not> ?thesis"
      then obtain e where "add_player sid nm (room_game r) = (Fail e, room_game r)"
        by (cases "\<exists>p\<in>set (players (room_game r)). player_id p = sid") (simp_all add: add_player_def)
      then show False using step False room other by (simp add: join_room_def err Let_def)
    qed
    then show ?thesis using room other False by (simp add: fits_def)
  qed
  then show thesis by (rule that [OF kvs free named r block])
qed


text \<open>A waiting room with one player.\<close>

definition demo_waiting :: server where
  "demo_waiting = demo_server ((game_new plain_env [7] False 0 3)\<lparr>players := [player_new [97] [65]]\<rparr>)"

lemma issued_seats: "issue_token v sid rid nm auth s = Some (t, s') \<Longrightarrow> player_rooms (tables s') = player_rooms (tables s)"
  by (auto simp: issue_token_def generate_reconnect_token_def store_token_def Let_def split: option.splits)

lemma demo_join_enters: "player_rooms (tables (join_room v [99] (JObj [(ascii ''room_id'', JStr [7])]) demo_waiting)) \<noteq> player_rooms (tables demo_waiting)"
proof -
  let ?data = "JObj [(ascii ''room_id'', JStr [7])]"
  have limit: "check_limit w sid ev demo_waiting = (True, demo_waiting)" for w sid ev
    by (simp add: demo_waiting_def demo_server_def check_limit_def check_socket_def socket_limit_def limiter_new_def limit_in_def)
  have tab: "player_rooms (tables demo_waiting) = Map.empty" "room_id_for_player [99] (tables demo_waiting) = None"
    "join_codes (tables demo_waiting) = []" "player_auth (tables demo_waiting) = Map.empty" "player_names (tables demo_waiting) = Map.empty"
    by (simp_all add: demo_waiting_def demo_server_def state_new_def room_id_for_player_def)
  let ?nm = "hu ''N~evtelen''"
  obtain r where room: "room_at [7] demo_waiting = Some r" and waiting: "\<not> started (room_game r)" "players (room_game r) = [player_new [97] [65]]"
    and game: "max_players r = 4" "admission_block r False ?nm None = None" "is_restored r = False"
    by (auto simp: demo_waiting_def room_new_def game_new_def admission_block_def)
  have named: "named_room [(ascii ''room_id'', JStr [7])] (tables demo_waiting) = Inr ([7], False)"
    by (simp add: named_room_def member_or_def trim_def ascii_def)
  have other: "casefold [65] \<noteq> casefold ?nm"
    by (simp add: hu.simps accents_def casefold_def to_lowercase_def lower_char_def)
  have "player_rooms (tables (join_room v [99] ?data demo_waiting)) [99] = Some [7]"
  proof -
    obtain g where add: "add_player [99] ?nm (room_game r) = (Done (hu ''Csatlakoz~as sikeres.''), g)"
      using waiting by (simp add: add_player_def player_new_def)
    let ?s2 = "emit (EnterChannel [99] [7]) (enter_room [99] [7] (on_game [7] (\<lambda>_. g) demo_waiting))"
    have s2: "player_rooms (tables ?s2) [99] = Some [7]" by (simp add: emit_def enter_room_def on_tables_def)
    show ?thesis
    proof (cases "issue_token v [99] [7] ?nm None ?s2")
      case None
      then show ?thesis using s2 waiting other
        by (simp add: join_room_def limit tab named room Let_def name_of_def game add player_new_def)
    next
      case (Some ts)
      obtain t s3 where ts: "ts = (t, s3)" by fastforce
      have s3: "player_rooms (tables s3) [99] = Some [7]" using issued_seats [OF Some [unfolded ts]] s2 by simp
      have "join_room v [99] ?data demo_waiting = emit_rooms_list (room_notice [7] ''player_joined'' ?nm
              (emit_all_states (base v) [7] (emit (ToSid [99] (ascii ''room_joined'') (room_joined_payload (r\<lparr>room_game := g\<rparr>) t False)) s3)))"
        using Some ts waiting other
        by (simp add: join_room_def limit tab named room Let_def name_of_def game add player_new_def)
      then have "books (join_room v [99] ?data demo_waiting) = books s3" by simp
      from seats_by_books [OF this] show ?thesis using s3 by simp
    qed
  qed
  then show ?thesis using tab(1) by auto
qed


section \<open>Opening a room\<close>

definition lobby_view :: "room \<Rightarrow> game \<times> str option \<times> nat \<times> str" where
  "lobby_view r = (room_game r, owner r, max_players r, join_code r)"

interpretation opened: room_observer lobby_view
  by unfold_locales (simp_all add: lobby_view_def)

text \<open>Nobody in the game shares a name, whatever the case of its letters.\<close>

definition names_differ :: "game \<Rightarrow> bool" where
  "names_differ g \<longleftrightarrow> distinct (map (casefold \<circ> player_name) (players g))"

lemma seat_bot_keeps: "started (seat_bot d g) = started g" "turn_time_limit (seat_bot d g) = turn_time_limit g"
  "hint_limit (seat_bot d g) = hint_limit g"
  by (simp_all add: seat_bot_def add_bot_def Let_def)

lemma seat_bot_players:
  assumes "names_differ g"
  shows "names_differ (seat_bot d g)" "length (players (seat_bot d g)) \<le> Suc (length (players g))"
    "\<exists>bots. players (seat_bot d g) = players g @ bots \<and> (\<forall>p\<in>set bots. is_bot p)"
proof -
  obtain bots where bots: "players (seat_bot d g) = players g @ bots"
    "bots = [] \<or> (\<exists>n. bots = [player_new_bot n (bot_name g (Some d)) (difficulty_to_json d)])"
  proof (cases "4 \<le> length (players g) \<or> started g")
    case True
    then show thesis using that [of "[]"] by (auto simp: seat_bot_def add_bot_def)
  next
    case False
    then show thesis using that by (simp add: seat_bot_def add_bot_def Let_def) blast
  qed
  have "casefold (bot_name g (Some d)) \<noteq> casefold (player_name p)" if "p \<in> set (players g)" for p
    using bot_name_new [OF that] .
  then have "casefold (bot_name g (Some d)) \<notin> set (map (casefold \<circ> player_name) (players g))" by force
  then show "names_differ (seat_bot d g)" using assms bots
    by (elim disjE exE) (simp_all add: names_differ_def player_new_bot_def player_new_def)
  show "length (players (seat_bot d g)) \<le> Suc (length (players g))" using bots by auto
  show "\<exists>bots. players (seat_bot d g) = players g @ bots \<and> (\<forall>p\<in>set bots. is_bot p)"
    using bots by (auto simp: player_new_bot_def)
qed

lemma seat_bots:
  assumes "names_differ g"
  shows "names_differ (fold seat_bot ds g) \<and> length (players (fold seat_bot ds g)) \<le> length (players g) + length ds
    \<and> (\<exists>bots. players (fold seat_bot ds g) = players g @ bots \<and> (\<forall>p\<in>set bots. is_bot p))
    \<and> started (fold seat_bot ds g) = started g \<and> turn_time_limit (fold seat_bot ds g) = turn_time_limit g
    \<and> hint_limit (fold seat_bot ds g) = hint_limit g"
  using assms
proof (induction ds arbitrary: g)
  case (Cons d ds)
  have "\<exists>bots. players (fold seat_bot ds (seat_bot d g)) = players g @ bots \<and> (\<forall>p\<in>set bots. is_bot p)"
  proof -
    obtain b1 where "players (seat_bot d g) = players g @ b1" "\<forall>p\<in>set b1. is_bot p"
      using seat_bot_players(3) [OF Cons.prems, of d] by blast
    moreover obtain b2 where "players (fold seat_bot ds (seat_bot d g)) = players (seat_bot d g) @ b2" "\<forall>p\<in>set b2. is_bot p"
      using Cons.IH [OF seat_bot_players(1) [OF Cons.prems], of d] by blast
    ultimately show ?thesis by (intro exI [of _ "b1 @ b2"]) auto
  qed
  then show ?case using Cons.IH [OF seat_bot_players(1) [OF Cons.prems], of d] seat_bot_players(2) [OF Cons.prems, of d]
    by (simp add: seat_bot_keeps)
qed simp

lemma wanted_bots_bound: "length (wanted_bots v kvs seats) \<le> min (seats - 1) (min MAX_BOTS (nat (max_bots v)))"
  by (auto simp: wanted_bots_def min_def max_def)

lemma new_game_fits:
  fixes v :: lobby and kvs :: "(str \<times> json) list" and sid nm :: str
  assumes "1 \<le> seats"
  defines "g \<equiv> new_game v kvs sid nm seats"
  shows "names_differ g \<and> length (players g) \<le> seats \<and> length (players g) \<le> Suc (nat (max_bots v))
    \<and> (\<exists>bots. players g = player_new sid nm # bots \<and> (\<forall>p\<in>set bots. is_bot p)) \<and> \<not> started g
    \<and> turn_time_limit g \<in> set ALLOWED_TURN_TIME_LIMITS \<and> hint_limit g \<in> set ALLOWED_HINT_LIMITS"
proof -
  define g0 where "g0 = snd (add_player sid nm (game_new (game_env (base v)) (drawn_room_id v) (flag_member kvs ''challenge_mode'')
                 (if member_or kvs ''turn_time_limit'' py_int 0 \<in> set ALLOWED_TURN_TIME_LIMITS then member_or kvs ''turn_time_limit'' py_int 0 else 0)
                 (let hint0 = (case map_of kvs (ascii ''hint_limit'') of
                     None \<Rightarrow> default_hint_limit v
                   | Some x \<Rightarrow> (case py_int x of Some n \<Rightarrow> n | None \<Rightarrow> default_hint_limit v))
                  in if hint0 \<in> set ALLOWED_HINT_LIMITS then hint0 else default_hint_limit v)))"
  have g: "g = fold seat_bot (wanted_bots v kvs seats) g0" by (simp add: g_def new_game_def g0_def Let_def)
  have g0: "players g0 = [player_new sid nm]" "\<not> started g0" "turn_time_limit g0 \<in> set ALLOWED_TURN_TIME_LIMITS"
    "hint_limit g0 \<in> set ALLOWED_HINT_LIMITS"
    by (simp_all add: g0_def add_player_def game_new_def ALLOWED_TURN_TIME_LIMITS_def ALLOWED_HINT_LIMITS_def DEFAULT_HINT_LIMIT_def)
  have "names_differ g0" by (simp add: names_differ_def g0)
  from seat_bots [OF this, of "wanted_bots v kvs seats"] wanted_bots_bound [of v kvs seats] assms(1) g0
  show ?thesis by (auto simp: g)
qed



lemma opened_room:
  "seen lobby_view (room_id r) (open_room v sid r payload s) = Some (lobby_view r)"
  "player_rooms (tables (open_room v sid r payload s)) sid = Some (room_id r)"
proof -
  let ?s1 = "emit (EnterChannel sid (room_id r)) (enter_room sid (room_id r) (on_tables (add_room r) s))"
  have eq: "open_room v sid r payload s = emit_rooms_list (emit_all_states (base v) (room_id r)
      (emit (ToSid sid (ascii ''room_code'') (JObj [(ascii ''code'', JStr (join_code r))]))
                 (emit (ToSid sid (ascii ''room_joined'') payload) ?s1)))"
    by (simp add: open_room_def Let_def)
  have "seen lobby_view (room_id r) ?s1 = Some (lobby_view r)"
    by (simp add: seen_def enter_room_def on_tables_def add_room_def room_at_def emit_def update_conv')
  then show "seen lobby_view (room_id r) (open_room v sid r payload s) = Some (lobby_view r)"
    by (simp add: eq emit_rooms_list_def)
  have "books (open_room v sid r payload s) = books ?s1" by (simp add: eq)
  from seats_by_books [OF this] show "player_rooms (tables (open_room v sid r payload s)) sid = Some (room_id r)"
    by (simp add: enter_room_def on_tables_def emit_def)
qed

lemma creation_needs:
  assumes entered: "player_rooms (tables (create_room v sid data s)) \<noteq> player_rooms (tables s)"
  obtains s1 kvs code rest token s2 title where "tables s1 = tables s" "as_object data = Some kvs" "room_id_for_player sid (tables s) = None"
    "creation_block v sid s1 = None"
    "create_room v sid data s = (let seats = nat (max 2 (min 4 (member_or kvs ''max_players'' py_int 4)));
        r = room_new (lobby_now v) (drawn_room_id v) (new_game v kvs sid (name_of sid ''N~evtelen'' s) seats) (Some sid)
              (name_of sid ''N~evtelen'' s) title seats code (flag_member kvs ''is_private'') (Some token)
      in open_room v sid r (room_joined_payload r token True) s2)"
proof -
  obtain b s1 where lm: "check_limit (base v) sid (ascii ''create_room'') s = (b, s1)" by fastforce
  have t1: "tables s1 = tables s" using seats_limit [OF lm] .
  have err: "player_rooms (tables (emit_error sid m s')) = player_rooms (tables s')" for m s'
    by (rule seats_by_books, simp)
  have b: "b" using entered lm t1 by (cases b) (simp_all add: create_room_def err)
  obtain kvs where kvs: "as_object data = Some kvs" using entered lm b t1 by (cases "as_object data") (simp_all add: create_room_def)
  have free: "room_id_for_player sid (tables s) = None"
    using entered lm b t1 kvs by (cases "room_id_for_player sid (tables s)") (simp_all add: create_room_def err)
  have open': "creation_block v sid s1 = None"
    using entered lm b t1 kvs free by (cases "creation_block v sid s1") (simp_all add: create_room_def err)
  define raw where "raw = (case map_of kvs (ascii ''name'') of Some x \<Rightarrow> x | None \<Rightarrow> JStr [])"
  have clean: "\<not> (case as_str raw of Some t \<Rightarrow> contains_banned (fold_char (base v)) (banned_words (base v)) t | None \<Rightarrow> False)"
  proof
    assume "case as_str raw of Some t \<Rightarrow> contains_banned (fold_char (base v)) (banned_words (base v)) t | None \<Rightarrow> False"
    then show False using entered lm b t1 kvs free open' by (simp add: create_room_def err Let_def raw_def)
  qed
  note step = entered lm b t1 kvs free open' clean
  obtain code rest where code: "new_join_code (tables s) (code_draws v) = Some (code, rest)"
    using step by (cases "new_join_code (tables s) (code_draws v)") (auto simp: create_room_def err Let_def raw_def)
  obtain token s2 where token: "issue_token v sid (drawn_room_id v) (name_of sid ''N~evtelen'' s) (player_auth (tables s) sid) s1 = Some (token, s2)"
    using step code by (cases "issue_token v sid (drawn_room_id v) (name_of sid ''N~evtelen'' s) (player_auth (tables s) sid) s1")
      (auto simp: create_room_def err Let_def raw_def name_of_def)
  show thesis
    by (rule that [of s1 kvs "case sanitize_room_name (alnum_char v) raw of Some t \<Rightarrow> t | None \<Rightarrow> ascii ''Szoba''" code token s2, OF t1 kvs free open'])
      (use step code token in \<open>simp add: create_room_def err Let_def raw_def name_of_def\<close>)
qed




end
