(* ===== verification/Practice.thy ===== *)
theory Practice
  imports Dictionary BotChoice GameSave
begin

text \<open>
  The practice modes (\<^verbatim>\<open>src/src/words/practice.rs\<close>): the quiz of valid and invalid words, the hunt for words on a rack
  and the short words. What the module asks the dictionary and the bots' vocabulary is the record \<open>lexis\<close>; the
  vocabulary counts as loaded. A number that \<^verbatim>\<open>random_range\<close> draws below \<open>n\<close> is the next number of the stream, scaled;
  \<^verbatim>\<open>shuffle\<close> is a permutation of the places.
\<close>

record lexis =
  bulk :: "str list \<Rightarrow> str set"
  suggest :: "str \<Rightarrow> nat \<Rightarrow> str list"
  words_version :: "64 word"
  vocab :: vocabulary
  permute :: "nat \<Rightarrow> rng \<Rightarrow> nat list \<times> rng"

definition QUESTION_COUNT :: nat where "QUESTION_COUNT = 10"
definition MAX_QUESTIONS :: nat where "MAX_QUESTIONS = 30"
definition QUIZ_MODES :: "str list" where "QUIZ_MODES = map ascii [''mixed'', ''2'', ''3'', ''tricky'']"
definition MIN_TILES :: nat where "MIN_TILES = 3"
definition MAX_TILES :: nat where "MAX_TILES = 9"
definition INFLECTED_SHARE :: real where "INFLECTED_SHARE = 0.3"
definition SHORT_LENGTHS :: "nat list" where "SHORT_LENGTHS = [2, 3]"
definition RACK_SIZE :: nat where "RACK_SIZE = 7"
definition BINGO_BONUS :: nat where "BINGO_BONUS = 50"
definition RACK_KINDS :: "str list" where "RACK_KINDS = map ascii [''hunt'', ''bingo'']"
definition MAX_RACK_WORDS :: nat where "MAX_RACK_WORDS = 200"
definition HUNT_MIN_WORDS :: nat where "HUNT_MIN_WORDS = 12"
definition HUNT_MAX_WORDS :: nat where "HUNT_MAX_WORDS = 150"
definition HUNT_MIN_LONGEST :: nat where "HUNT_MIN_LONGEST = 5"
definition BINGO_STEM_SHARE :: real where "BINGO_STEM_SHARE = 0.75"

section \<open>Letters\<close>

text \<open>Long and short vowels, as code points.\<close>

definition length_pairs :: "(nat \<times> nat) list" where
  "length_pairs = [(97, 225), (101, 233), (105, 237), (111, 243), (246, 337), (117, 250), (252, 369),
     (225, 97), (233, 101), (237, 105), (243, 111), (337, 246), (250, 117), (369, 252)]"

definition length_pair :: "nat \<Rightarrow> nat option" where
  "length_pair c = map_of length_pairs c"

definition VOWEL_TILES :: "tile list" where "VOWEL_TILES = filter is_vowel letters"
definition CONSONANT_TILES :: "tile list" where "CONSONANT_TILES = filter (\<lambda>t. \<not> is_vowel t) letters"

definition has_vowel_upper :: "str \<Rightarrow> bool" where
  "has_vowel_upper w \<longleftrightarrow> list_ex (\<lambda>c. c \<in> set VOWELS) w"

definition tiles_to_word :: "tile list \<Rightarrow> str" where
  "tiles_to_word ts = concat (map letter_of ts)"

definition tile_len :: "str \<Rightarrow> nat" where
  "tile_len w = (case tokenize_word w of Some ts \<Rightarrow> length ts | None \<Rightarrow> 0)"

definition accent_sensitive :: "str \<Rightarrow> bool" where
  "accent_sensitive w \<longleftrightarrow> list_ex (\<lambda>c. length_pair (hd (lower_char c)) \<noteq> None) w"

definition is_valid :: "lexis \<Rightarrow> str \<Rightarrow> bool" where
  "is_valid x w \<longleftrightarrow> w \<in> bulk x [w]"

text \<open>\<^verbatim>\<open>char::is_lowercase\<close> on the letters of the dictionary: there is a different capital.\<close>

definition is_small :: "nat \<Rightarrow> bool" where
  "is_small c \<longleftrightarrow> upper_char c \<noteq> [c]"

definition is_stem :: "str \<Rightarrow> bool" where
  "is_stem w \<longleftrightarrow> 2 \<le> length w \<and> length w \<le> 15 \<and> tokenize_word w \<noteq> None \<and> has_vowel w \<and> w = to_lowercase w \<and> list_ex is_small w"

definition stem_words :: "affix_checker option \<Rightarrow> str list" where
  "stem_words checker =
     (case checker of None \<Rightarrow> [] | Some chk \<Rightarrow> sort (map to_uppercase (filter is_stem (entry_words chk))))"

section \<open>Drawing\<close>

definition pick :: "rng \<Rightarrow> nat \<Rightarrow> nat" where
  "pick rng n = nat \<lfloor>shd rng * real n\<rfloor>"

definition choose_one :: "rng \<Rightarrow> 'a list \<Rightarrow> 'a" where
  "choose_one rng items = items ! pick rng (length items)"

definition shuffled :: "lexis \<Rightarrow> 'a list \<Rightarrow> rng \<Rightarrow> 'a list \<times> rng" where
  "shuffled x items rng = (case permute x (length items) rng of (is, rest) \<Rightarrow> (map ((!) items) is, rest))"

text \<open>Few of many: draw until there are \<open>k\<close> different ones.\<close>

partial_function (option) draw_distinct :: "nat \<Rightarrow> nat \<Rightarrow> nat list \<Rightarrow> rng \<Rightarrow> (nat list \<times> rng) option" where
  "draw_distinct n k chosen rng =
     (if k \<le> length chosen then Some (chosen, rng)
      else let i = pick rng n in draw_distinct n k (if i \<in> set chosen then chosen else chosen @ [i]) (stl rng))"

definition swap :: "nat \<Rightarrow> nat \<Rightarrow> 'a list \<Rightarrow> 'a list" where
  "swap i j xs = xs[i := xs ! j, j := xs ! i]"

fun swap_draws :: "nat \<Rightarrow> nat list \<Rightarrow> nat list \<Rightarrow> rng \<Rightarrow> nat list \<times> rng" where
  "swap_draws n [] indices rng = (indices, rng)"
| "swap_draws n (i # is) indices rng = swap_draws n is (swap i (i + pick rng (n - i)) indices) (stl rng)"

definition sample_indices :: "rng \<Rightarrow> nat \<Rightarrow> nat \<Rightarrow> (nat list \<times> rng) option" where
  "sample_indices rng n k0 =
     (let k = min k0 n
      in if k * 3 < n then draw_distinct n k [] rng
         else (case swap_draws n [0..<k] [0..<n] rng of (indices, rest) \<Rightarrow> Some (take k indices, rest)))"

section \<open>The short words\<close>

text \<open>The next combination of the indices, the last one first: nothing after the last combination.\<close>

fun carry :: "nat \<Rightarrow> nat list \<Rightarrow> nat list option" where
  "carry b [] = None"
| "carry b (i # is) = (if Suc i < b then Some (Suc i # is) else map_option (Cons 0) (carry b is))"

fun combo_rank :: "nat \<Rightarrow> nat list \<Rightarrow> nat" where
  "combo_rank b [] = 0"
| "combo_rank b (i # is) = min i (b - 1) + b * combo_rank b is"

lemma carry_rank: "carry b is = Some js \<Longrightarrow> combo_rank b js = Suc (combo_rank b is) \<and> length js = length is \<and> 0 < b"
proof (induction "is" arbitrary: js)
  case (Cons i "is")
  show ?case
  proof (cases "Suc i < b")
    case True
    then show ?thesis using Cons.prems by auto
  next
    case False
    then obtain ks where ks: "carry b is = Some ks" "js = 0 # ks" using Cons.prems by auto
    then have "combo_rank b ks = Suc (combo_rank b is)" "length ks = length is" "0 < b" using Cons.IH by simp_all
    then show ?thesis using False ks by simp
  qed
qed simp

lemma combo_rank_bound: "0 < b \<Longrightarrow> combo_rank b is < b ^ length is"
proof (induction "is")
  case (Cons i "is")
  then have "Suc (combo_rank b is) \<le> b ^ length is" by simp
  then have "b * Suc (combo_rank b is) \<le> b * b ^ length is" by (rule mult_le_mono2)
  then show ?case using Cons.prems by (simp add: min_def) linarith
qed simp

function combos :: "nat \<Rightarrow> nat list \<Rightarrow> nat list list" where
  "combos b is = is # (case carry b is of None \<Rightarrow> [] | Some js \<Rightarrow> combos b js)"
  by pat_completeness auto

termination
proof (relation "measure (\<lambda>(b, is). b ^ length is - combo_rank b is)")
  fix b "is" js
  assume "carry b is = Some js"
  then have "combo_rank b js = Suc (combo_rank b is)" "length js = length is" "0 < b" using carry_rank by auto
  then show "((b, js), b, is) \<in> measure (\<lambda>(b, is). b ^ length is - combo_rank b is)"
    using combo_rank_bound [of b "is"] by simp
qed simp

declare combos.simps [simp del]

definition combo_word :: "nat list \<Rightarrow> str" where
  "combo_word is = concat (map (\<lambda>i. letter_of (letters ! i)) (rev is))"

definition short_candidates :: "nat \<Rightarrow> str list" where
  "short_candidates len =
     remdups (filter (\<lambda>w. map_option length (tokenize_word w) = Some len \<and> has_vowel_upper w)
       (map combo_word (combos (length letters) (replicate len 0))))"

definition score_json :: "str \<Rightarrow> json" where
  "score_json w = JObj [(ascii ''word'', JStr w), (ascii ''score'', opt_json (\<lambda>n. JInt (int n)) (word_base_score w))]"

definition short_list :: "lexis \<Rightarrow> nat \<Rightarrow> str list" where
  "short_list x len = sort (filter (\<lambda>w. w \<in> bulk x (short_candidates len)) (short_candidates len))"

text \<open>The lists are kept with the version of the dictionary they were made for.\<close>

type_synonym short_cache = "(nat \<times> (64 word \<times> json list)) list"

definition clear_short_cache :: "short_cache \<Rightarrow> short_cache" where
  "clear_short_cache cache = []"

definition short_words :: "lexis \<Rightarrow> nat \<Rightarrow> short_cache \<Rightarrow> json list \<times> short_cache" where
  "short_words x len cache =
     (case map_of cache len of
        Some (v, list) \<Rightarrow>
          if v = words_version x then (list, cache)
          else (map score_json (short_list x len), AList.update len (words_version x, map score_json (short_list x len)) cache)
      | None \<Rightarrow> (map score_json (short_list x len), AList.update len (words_version x, map score_json (short_list x len)) cache))"

section \<open>Misspelled words\<close>

definition mutate :: "str \<Rightarrow> rng \<Rightarrow> str option \<times> rng" where
  "mutate w rng =
     (case tokenize_word w of
        None \<Rightarrow> (None, rng)
      | Some tokens \<Rightarrow>
          if length tokens < 2 then (None, rng)
          else
            let kind = pick rng 5; r1 = stl rng; i = pick r1 (length tokens); r2 = stl r1
            in if kind < 2
               then let pool = (if is_vowel (tokens ! i) then VOWEL_TILES else CONSONANT_TILES);
                        options = filter (\<lambda>t. t \<noteq> tokens ! i) pool
                    in (Some (tiles_to_word (tokens[i := choose_one r2 options])), stl r2)
               else if kind = 2
               then let j = min i (length tokens - 2) in (Some (tiles_to_word (swap j (j + 1) tokens)), r2)
               else if kind = 3
               then let pool = (if shd r2 < 0.4 then VOWEL_TILES else CONSONANT_TILES); t = choose_one (stl r2) pool
                    in (Some (tiles_to_word (take i tokens @ t # drop i tokens)), stl (stl r2))
               else (Some (tiles_to_word (if 2 < length tokens then take i tokens @ drop (Suc i) tokens else tokens)), r2))"

definition mutate_length :: "str \<Rightarrow> rng \<Rightarrow> str option \<times> rng" where
  "mutate_length w rng =
     (let spots = filter (\<lambda>i. length_pair (hd (lower_char (w ! i))) \<noteq> None) [0..<length w]
      in if spots = [] then (None, rng)
         else let i = choose_one rng spots
              in case length_pair (hd (lower_char (w ! i))) of
                   Some c \<Rightarrow> (Some (w[i := hd (upper_char c)]), stl rng)
                 | None \<Rightarrow> (None, stl rng))"

text \<open>One source word of a batch: its misspelling is kept when it is new, has a vowel and the right size.\<close>

definition fitting_fake :: "nat option \<Rightarrow> str set \<Rightarrow> str \<Rightarrow> bool" where
  "fitting_fake len known fake \<longleftrightarrow>
     (case tokenize_word fake of
        None \<Rightarrow> False
      | Some tokens \<Rightarrow>
          tokens \<noteq> [] \<and> fake \<notin> known \<and> list_ex is_vowel tokens \<and> (case len of Some l \<Rightarrow> length tokens = l | None \<Rightarrow> True)
          \<and> \<not> (15 < length fake \<or> MAX_TILES < length tokens))"

fun fake_batch :: "nat option \<Rightarrow> (str \<Rightarrow> rng \<Rightarrow> str option \<times> rng) \<Rightarrow> nat \<Rightarrow> str list \<Rightarrow> str set \<Rightarrow> str list \<Rightarrow> rng
    \<Rightarrow> str list \<times> str set \<times> str list \<times> rng" where
  "fake_batch len mutator (Suc n) (source # order) known batch rng =
     (case mutator source rng of
        (Some fake, rest) \<Rightarrow>
          if fitting_fake len known fake then fake_batch len mutator n order (insert fake known) (batch @ [fake]) rest
          else fake_batch len mutator n order known batch rest
      | (None, rest) \<Rightarrow> fake_batch len mutator n order known batch rest)"
| "fake_batch len mutator _ order known batch rng = (order, known, batch, rng)"

text \<open>At most two hundred batches; the sources are popped from the end of a shuffled copy.\<close>

fun fake_rounds :: "lexis \<Rightarrow> str list \<Rightarrow> nat \<Rightarrow> nat option \<Rightarrow> (str \<Rightarrow> rng \<Rightarrow> str option \<times> rng) \<Rightarrow> nat
    \<Rightarrow> str list \<Rightarrow> str set \<Rightarrow> str list \<Rightarrow> rng \<Rightarrow> str list \<times> rng" where
  "fake_rounds x sources cnt len mutator 0 fakes known order rng = (fakes, rng)"
| "fake_rounds x sources cnt len mutator (Suc n) fakes known order rng =
     (if cnt \<le> length fakes then (fakes, rng)
      else
        let refilled = (if order = [] then (case shuffled x sources rng of (o1, r1) \<Rightarrow> (rev o1, r1)) else (order, rng))
        in case fake_batch len mutator (cnt * 4) (fst refilled) known [] (snd refilled) of
             (order', known', batch, rest) \<Rightarrow>
               fake_rounds x sources cnt len mutator n (fakes @ filter (\<lambda>w. w \<notin> bulk x batch) batch) known' order' rest)"

definition fake_words :: "lexis \<Rightarrow> str list \<Rightarrow> nat \<Rightarrow> rng \<Rightarrow> nat option \<Rightarrow> (str \<Rightarrow> rng \<Rightarrow> str option \<times> rng) \<Rightarrow> str list \<times> rng" where
  "fake_words x sources cnt rng len mutator =
     (case fake_rounds x sources cnt len mutator 200 [] {} [] rng of (fakes, rest) \<Rightarrow> (take cnt fakes, rest))"

section \<open>The quiz\<close>

definition quiz_word :: "bool \<Rightarrow> str \<Rightarrow> bool" where
  "quiz_word tricky w \<longleftrightarrow> MIN_TILES \<le> tile_len w \<and> tile_len w \<le> MAX_TILES \<and> (tricky \<longrightarrow> accent_sensitive w)"

text \<open>The valid words of a quiz of mixed length, and the sources of its invalid ones.\<close>

definition mixed_words :: "lexis \<Rightarrow> str list \<Rightarrow> bool \<Rightarrow> nat \<Rightarrow> rng \<Rightarrow> ((str list \<times> str list) \<times> rng) option" where
  "mixed_words x stems_all tricky valid_count rng =
     (case sample_indices rng (length stems_all) (min (length stems_all) (valid_count * (if tricky then 14 else 6))) of
        None \<Rightarrow> None
      | Some (is, r1) \<Rightarrow>
          let stems = filter (quiz_word tricky) (map ((!) stems_all) is);
              target = nat \<lfloor>round_ties_even (real valid_count * INFLECTED_SHARE)\<rfloor>;
              n = vocab_len (vocab x)
          in (case sample_indices r1 n (min n (target * (if tricky then 24 else 8) + 8)) of
                None \<Rightarrow> None
              | Some (js, r2) \<Rightarrow>
                  let inflected0 = filter (\<lambda>w. quiz_word tricky w \<and> w \<notin> set stems) (map (vocab_word (vocab x)) js);
                      inflected = take target (filter (is_valid x) inflected0);
                      valid = take (valid_count - length inflected) (filter (is_valid x) stems) @ inflected
                  in Some ((valid, if valid = [] then stems else valid), r2)))"

definition json_word :: "json \<Rightarrow> str" where
  "json_word e = (case jget e (ascii ''word'') \<bind> as_str of Some w \<Rightarrow> w | None \<Rightarrow> [])"

definition short_quiz_words :: "lexis \<Rightarrow> str list \<Rightarrow> nat \<Rightarrow> rng \<Rightarrow> ((str list \<times> str list) \<times> rng) option" where
  "short_quiz_words x words valid_count rng =
     (case sample_indices rng (length words) (min valid_count (length words)) of
        None \<Rightarrow> None
      | Some (is, r1) \<Rightarrow> Some ((map ((!) words) is, words), r1))"

text \<open>The words of a quiz: the valid ones and the misspelled ones, each once, shuffled.\<close>

definition quiz_length :: "str \<Rightarrow> nat option" where
  "quiz_length mode = (if mode = ascii ''mixed'' \<or> mode = ascii ''tricky'' then None else Some (read_nat 0 mode))"

definition make_quiz :: "lexis \<Rightarrow> str list \<Rightarrow> nat \<Rightarrow> str \<Rightarrow> short_cache \<Rightarrow> rng \<Rightarrow> ((str + str list) \<times> short_cache \<times> rng) option" where
  "make_quiz x stems_all cnt0 mode cache rng =
     (if mode \<notin> set QUIZ_MODES then Some (Inl (hu ''ismeretlen kv~izm~od''), cache, rng)
      else
        let cnt = max 2 (min MAX_QUESTIONS cnt0); odd_count = odd cnt; extra = (odd_count \<and> shd rng < 0.5);
            r1 = (if odd_count then stl rng else rng); valid_count = cnt div 2 + (if extra then 1 else 0);
            fake_count = cnt - valid_count; tricky = (mode = ascii ''tricky'');
            drawn = (case quiz_length mode of
                       None \<Rightarrow> map_option (\<lambda>(ws, r). (ws, cache, r)) (mixed_words x stems_all tricky valid_count r1)
                     | Some len \<Rightarrow>
                         (case short_words x len cache of (list, cache') \<Rightarrow>
                            map_option (\<lambda>(ws, r). (ws, cache', r)) (short_quiz_words x (map json_word list) valid_count r1)))
        in case drawn of
             None \<Rightarrow> None
           | Some ((valid, sources), cache', r2) \<Rightarrow>
               (case fake_words x sources fake_count r2 (quiz_length mode) (if tricky then mutate_length else mutate) of
                  (fakes, r3) \<Rightarrow>
                    (case shuffled x (rev (remdups (rev (valid @ fakes)))) r3 of
                       (questions, r4) \<Rightarrow> Some (Inr questions, cache', r4))))"

definition check_answer :: "lexis \<Rightarrow> str \<Rightarrow> bool \<Rightarrow> json option" where
  "check_answer x w0 answer =
     (let w = to_uppercase (trim w0)
      in if \<not> (2 \<le> length w \<and> length w \<le> 15) then None
         else map_option (\<lambda>tokens.
           let valid = is_valid x w; hints = (if valid then [] else suggest x w 3)
           in JObj [(ascii ''word'', JStr w), (ascii ''valid'', JBool valid), (ascii ''correct'', JBool (answer = valid)),
                (ascii ''score'', opt_json (\<lambda>n. JInt (int n)) (word_base_score w)),
                (ascii ''tiles'', JArr (map (\<lambda>t. JStr (letter_of t)) tokens)),
                (ascii ''suggestions'', JArr (map JStr hints))]) (tokenize_word w))"

section \<open>Racks\<close>

definition rack_pool :: "tile list" where
  "rack_pool = concat (map (\<lambda>(i, (letter, _, cnt)). if letter \<noteq> [] then replicate cnt (Tile i) else []) (List.enumerate 0 TILE_DISTRIBUTION))"

definition count_ok :: "tile list \<Rightarrow> bool" where
  "count_ok tokens \<longleftrightarrow> list_all (\<lambda>t. count_list tokens t \<le> snd (snd (entry_at (tile_index t)))) tokens"

text \<open>The best spelling of every word so far: score and number of tiles.\<close>

type_synonym best_words = "(str \<times> (nat \<times> nat)) list"

definition note_word :: "str \<Rightarrow> nat \<Rightarrow> nat \<Rightarrow> best_words \<Rightarrow> best_words" where
  "note_word w points used best =
     (case map_of best w of
        Some (b, _) \<Rightarrow> if points \<le> b then best else AList.update w (points, used) best
      | None \<Rightarrow> AList.update w (points, used) best)"

text \<open>The walk over the tiles; \<open>left\<close> is the number of tiles that are not used yet.\<close>

fun walk :: "vocabulary \<Rightarrow> tile list \<Rightarrow> nat \<Rightarrow> nat \<Rightarrow> str \<Rightarrow> nat \<Rightarrow> str \<Rightarrow> (tile \<Rightarrow> int) \<Rightarrow> best_words \<Rightarrow> best_words" where
  "walk v types 0 used pre pts last_letter counts best =
     (if 2 \<le> used \<and> vocab_contains v pre then note_word pre (pts + (if used = RACK_SIZE then BINGO_BONUS else 0)) used best else best)"
| "walk v types (Suc left) used pre pts last_letter counts best =
     fold (\<lambda>t acc. if 0 < counts t \<and> \<not> forms_digraph last_letter (letter_of t) \<and> has_prefix v (pre @ letter_of t)
                   then walk v types left (used + 1) (pre @ letter_of t) (pts + tile_value t) (letter_of t) (counts(t := counts t - 1)) acc
                   else acc) types
       (if 2 \<le> used \<and> vocab_contains v pre then note_word pre (pts + (if used = RACK_SIZE then BINGO_BONUS else 0)) used best else best)"

definition tile_supply :: "tile list \<Rightarrow> tile \<Rightarrow> int" where
  "tile_supply rack t = int (count_list rack t)"

definition rack_types :: "tile list \<Rightarrow> tile list" where
  "rack_types rack = rev (remdups (rev rack))"

definition rack_best :: "lexis \<Rightarrow> tile list \<Rightarrow> best_words" where
  "rack_best x rack = walk (vocab x) (rack_types rack) (length rack) 0 [] 0 [] (tile_supply rack) []"

text \<open>The words a rack can spell: word, score, number of tiles; the best first.\<close>

definition rack_words :: "lexis \<Rightarrow> tile list \<Rightarrow> (str \<times> nat \<times> nat) list" where
  "rack_words x rack =
     (let best = rack_best x rack; valid = (if best = [] then {} else bulk x (map fst best))
      in sort_key (\<lambda>(w, pts, _). (- int pts, w)) (filter (\<lambda>(w, _). w \<in> valid) best))"

definition word_json :: "str \<times> nat \<times> nat \<Rightarrow> json" where
  "word_json = (\<lambda>(w, pts, used). JObj [(ascii ''word'', JStr w), (ascii ''score'', JInt (int pts)), (ascii ''tiles'', JInt (int used))])"

partial_function (option) draw_rack :: "rng \<Rightarrow> (tile list \<times> rng) option" where
  "draw_rack rng =
     Option.bind (sample_indices rng (length rack_pool) RACK_SIZE) (\<lambda>(is, rest).
       let rack = map ((!) rack_pool) is; vowels = length (filter is_vowel rack)
       in if 2 \<le> vowels \<and> vowels \<le> 4 then Some (rack, rest) else draw_rack rest)"

definition bingo_tiles :: "lexis \<Rightarrow> str \<Rightarrow> tile list option" where
  "bingo_tiles x w =
     (if \<not> (7 \<le> length w \<and> length w \<le> 14) then None
      else case tokenize_word w of
             Some tokens \<Rightarrow> if length tokens = RACK_SIZE \<and> count_ok tokens \<and> is_valid x w then Some tokens else None
           | None \<Rightarrow> None)"

text \<open>At most four hundred rounds of three hundred words.\<close>

fun bingo_rounds :: "lexis \<Rightarrow> str list \<Rightarrow> nat \<Rightarrow> rng \<Rightarrow> ((str + tile list) \<times> rng) option" where
  "bingo_rounds x stems 0 rng = Some (Inl (hu ''nem siker^ult bing~o-kezet k~esz~iteni''), rng)"
| "bingo_rounds x stems (Suc n) rng =
     (let use_stems = (shd rng < BINGO_STEM_SHARE); size = (if use_stems then length stems else vocab_len (vocab x));
          get = (if use_stems then (!) stems else vocab_word (vocab x))
      in case sample_indices (stl rng) size 300 of
           None \<Rightarrow> None
         | Some (is, rest) \<Rightarrow>
             (case List.map_filter (bingo_tiles x \<circ> get) is of
                tokens # _ \<Rightarrow> (case shuffled x tokens rest of (rack, r) \<Rightarrow> Some (Inr rack, r))
              | [] \<Rightarrow> bingo_rounds x stems n rest))"

definition bingo_rack :: "lexis \<Rightarrow> str list \<Rightarrow> rng \<Rightarrow> ((str + tile list) \<times> rng) option" where
  "bingo_rack x stems rng = bingo_rounds x stems 400 rng"

type_synonym solved_rack = "tile list \<times> (str \<times> nat \<times> nat) list"

definition good_hunt :: "(str \<times> nat \<times> nat) list \<Rightarrow> bool" where
  "good_hunt words \<longleftrightarrow> HUNT_MIN_WORDS \<le> length words \<and> length words \<le> HUNT_MAX_WORDS
     \<and> HUNT_MIN_LONGEST \<le> Max (insert 0 ((snd \<circ> snd) ` set words))"

text \<open>At most forty racks: the first good one, or the one with the most words.\<close>

fun hunt_rounds :: "lexis \<Rightarrow> nat \<Rightarrow> solved_rack option \<Rightarrow> rng \<Rightarrow> (solved_rack option \<times> rng) option" where
  "hunt_rounds x 0 best rng = Some (best, rng)"
| "hunt_rounds x (Suc n) best rng =
     (case draw_rack rng of
        None \<Rightarrow> None
      | Some (rack, rest) \<Rightarrow>
          let words = rack_words x rack
          in if words = [] then hunt_rounds x n best rest
             else if good_hunt words then Some (Some (rack, words), rest)
             else hunt_rounds x n
                    (case best of Some (_, b) \<Rightarrow> if length b < length words then Some (rack, words) else best | None \<Rightarrow> Some (rack, words)) rest)"

definition rack_json :: "str \<Rightarrow> tile list \<Rightarrow> (str \<times> nat \<times> nat) list \<Rightarrow> json" where
  "rack_json kind rack words =
     JObj [(ascii ''kind'', JStr kind), (ascii ''rack'', JArr (map (\<lambda>t. JStr (letter_of t)) rack)),
       (ascii ''total_score'', JInt (\<Sum>(_, pts, _)\<leftarrow>words. int pts)), (ascii ''words'', JArr (map word_json words))]"

definition make_rack :: "lexis \<Rightarrow> str list \<Rightarrow> str \<Rightarrow> rng \<Rightarrow> ((str + json) \<times> rng) option" where
  "make_rack x stems kind rng =
     (if kind \<notin> set RACK_KINDS then Some (Inl (hu ''ismeretlen k~ezt~ipus''), rng)
      else if kind = ascii ''bingo''
      then map_option (\<lambda>(made, rest). (case made of
               Inl e \<Rightarrow> Inl e
             | Inr rack \<Rightarrow> Inr (rack_json kind rack (filter (\<lambda>(_, _, used). used = RACK_SIZE) (rack_words x rack))), rest)) (bingo_rack x stems rng)
      else map_option (\<lambda>(made, rest). (case made of
               None \<Rightarrow> Inl (hu ''nem siker^ult kezet k~esz~iteni'')
             | Some (rack, words) \<Rightarrow> Inr (rack_json kind rack (take MAX_RACK_WORDS words)), rest)) (hunt_rounds x 40 None rng))"

section \<open>A word that is not listed\<close>

text \<open>The pieces of one and of two characters, in this order; the better spelling wins, the first of equals.\<close>

definition better_spelling :: "(nat \<times> str list) option \<Rightarrow> str \<Rightarrow> (nat \<times> str list) option \<Rightarrow> (nat \<times> str list) option" where
  "better_spelling best piece rest =
     (case rest of
        None \<Rightarrow> best
      | Some (pts, ts) \<Rightarrow>
          (case best of Some (b, _) \<Rightarrow> if b < pts then Some (pts, piece # ts) else best | None \<Rightarrow> Some (pts, piece # ts)))"

function assign :: "str \<Rightarrow> (str \<Rightarrow> int) \<Rightarrow> nat \<Rightarrow> str \<Rightarrow> bool \<Rightarrow> (nat \<times> str list) option" where
  "assign w counts pts last_letter split_ok =
     (if w = [] then Some (pts, [])
      else
        let attempt = (\<lambda>n. if n \<le> length w \<and> 0 < n then
                 (let piece = take n w
                  in if counts piece \<le> 0 \<or> \<not> split_ok \<and> forms_digraph last_letter piece then None
                     else assign (drop n w) (counts(piece := counts piece - 1)) (pts + letter_value piece) piece split_ok)
               else None)
        in better_spelling (better_spelling None (take 1 w) (attempt 1)) (take 2 w) (attempt 2))"
  by pat_completeness auto

termination
  by (relation "measure (\<lambda>(w, _). length w)") auto

declare assign.simps [simp del]

definition piece_counts :: "str list \<Rightarrow> str \<Rightarrow> int" where
  "piece_counts rack piece = int (count_list rack piece)"

definition rack_verdict :: "str \<Rightarrow> (str + nat \<times> str list) \<Rightarrow> json" where
  "rack_verdict w v =
     (case v of
        Inl reason \<Rightarrow> JObj [(ascii ''ok'', JBool False), (ascii ''reason'', JStr reason), (ascii ''word'', JStr w),
            (ascii ''tiles'', JArr []), (ascii ''score'', JInt 0), (ascii ''bingo'', JBool False)]
      | Inr (pts, ts) \<Rightarrow> JObj [(ascii ''ok'', JBool True), (ascii ''reason'', JNull), (ascii ''word'', JStr w),
            (ascii ''tiles'', JArr (map JStr ts)),
            (ascii ''score'', JInt (int (pts + (if length ts = RACK_SIZE then BINGO_BONUS else 0)))),
            (ascii ''bingo'', JBool (length ts = RACK_SIZE))])"

definition judge_rack_word :: "lexis \<Rightarrow> str list \<Rightarrow> str \<Rightarrow> str + nat \<times> str list" where
  "judge_rack_word x rack w =
     (if length w < 2 then Inl (ascii ''too_short'')
      else if 15 < length w \<or> tokenize_word w = None then Inl (ascii ''invalid_chars'')
      else case assign w (piece_counts rack) 0 [] False of
             None \<Rightarrow> Inl (if assign w (piece_counts rack) 0 [] True \<noteq> None then ascii ''split_digraph'' else ascii ''not_in_rack'')
           | Some (pts, ts) \<Rightarrow> if is_valid x w then Inr (pts, ts) else Inl (ascii ''not_a_word''))"

definition check_rack_word :: "lexis \<Rightarrow> str list \<Rightarrow> str \<Rightarrow> json" where
  "check_rack_word x rack w0 = (let w = to_uppercase (trim w0) in rack_verdict w (judge_rack_word x rack w))"

end
