(* ===== verification/PracticeProps.thy ===== *)
theory PracticeProps
  imports Practice DictProps
begin

text \<open>
  The listed words of a rack and the judging of a word agree: both amount to the spellings of the word with the tiles
  of the rack in which no two neighbours form a digraph. The quiz asks what it should.
\<close>

section \<open>Spellings\<close>

fun smooth :: "str \<Rightarrow> str list \<Rightarrow> bool" where
  "smooth l [] \<longleftrightarrow> True"
| "smooth l (p # ps) \<longleftrightarrow> \<not> forms_digraph l p \<and> smooth p ps"

text \<open>\<open>ts\<close> counts_cover into the counts.\<close>

definition counts_cover :: "('a \<Rightarrow> int) \<Rightarrow> 'a list \<Rightarrow> bool" where
  "counts_cover counts ts \<longleftrightarrow> (\<forall>t\<in>set ts. int (count_list ts t) \<le> counts t)"

lemma fits_Cons: "counts_cover counts (t # ts) \<longleftrightarrow> 0 < counts t \<and> counts_cover (counts(t := counts t - 1)) ts"
proof
  assume f: "counts_cover counts (t # ts)"
  then have t: "int (count_list ts t) + 1 \<le> counts t" by (simp add: counts_cover_def)
  have "int (count_list ts u) \<le> (counts(t := counts t - 1)) u" if "u \<in> set ts" for u
    using f t that by (cases "u = t") (auto simp: counts_cover_def)
  then show "0 < counts t \<and> counts_cover (counts(t := counts t - 1)) ts" using t by (simp add: counts_cover_def)
next
  assume f: "0 < counts t \<and> counts_cover (counts(t := counts t - 1)) ts"
  have "int (count_list ts t) + 1 \<le> counts t"
    using f by (cases "t \<in> set ts") (auto simp: counts_cover_def count_list_0_iff [THEN iffD2])
  then show "counts_cover counts (t # ts)" using f by (auto simp: counts_cover_def split: if_splits)
qed

lemma fits_Nil [simp]: "counts_cover counts []" by (simp add: counts_cover_def)

lemma fits_image:
  assumes "inj_on f (set r)" "set ts \<subseteq> set r"
  shows "counts_cover (\<lambda>p. int (count_list (map f r) p)) (map f ts) \<longleftrightarrow> counts_cover (\<lambda>t. int (count_list r t)) ts"
proof -
  have c: "count_list (map f us) (f t) = count_list us t" if "set us \<subseteq> set r" "t \<in> set r" for us t
    using that by (induction us) (auto dest: inj_onD [OF assms(1)])
  show ?thesis
    using assms(2) by (auto simp: counts_cover_def c [OF order_refl] c [OF assms(2)] subset_iff)
qed

section \<open>The walk over the tiles\<close>

definition bingo_score :: "nat \<Rightarrow> nat \<Rightarrow> nat" where
  "bingo_score pts used = pts + (if used = RACK_SIZE then BINGO_BONUS else 0)"

text \<open>The words that the walk meets, in its order.\<close>

fun visits :: "vocabulary \<Rightarrow> tile list \<Rightarrow> nat \<Rightarrow> nat \<Rightarrow> str \<Rightarrow> nat \<Rightarrow> str \<Rightarrow> (tile \<Rightarrow> int) \<Rightarrow> (str \<times> nat \<times> nat) list" where
  "visits v types 0 used pre pts l counts =
     (if 2 \<le> used \<and> vocab_contains v pre then [(pre, bingo_score pts used, used)] else [])"
| "visits v types (Suc left) used pre pts l counts =
     (if 2 \<le> used \<and> vocab_contains v pre then [(pre, bingo_score pts used, used)] else []) @
     concat (map (\<lambda>t. if 0 < counts t \<and> \<not> forms_digraph l (letter_of t) \<and> has_prefix v (pre @ letter_of t)
        then visits v types left (used + 1) (pre @ letter_of t) (pts + tile_value t) (letter_of t) (counts(t := counts t - 1)) else []) types)"

definition note_all :: "(str \<times> nat \<times> nat) list \<Rightarrow> best_words \<Rightarrow> best_words" where
  "note_all es best = fold (\<lambda>(w, pts, used). note_word w pts used) es best"

lemma note_all_append [simp]: "note_all (es @ fs) best = note_all fs (note_all es best)"
  by (simp add: note_all_def)

lemma note_all_concat: "note_all (concat (map f ts)) best = fold (\<lambda>t. note_all (f t)) ts best"
  by (induction ts arbitrary: best) (simp_all add: note_all_def)

lemma walk_visits: "walk v types left used pre pts l counts best = note_all (visits v types left used pre pts l counts) best"
proof (induction left arbitrary: used pre pts l counts best)
  case 0
  show ?case by (simp add: note_all_def bingo_score_def)
next
  case (Suc left)
  have step: "(\<lambda>t acc. if 0 < counts t \<and> \<not> forms_digraph l (letter_of t) \<and> has_prefix v (pre @ letter_of t)
       then walk v types left (used + 1) (pre @ letter_of t) (pts + tile_value t) (letter_of t) (counts(t := counts t - 1)) acc
       else acc) = (\<lambda>t. note_all (if 0 < counts t \<and> \<not> forms_digraph l (letter_of t) \<and> has_prefix v (pre @ letter_of t)
        then visits v types left (used + 1) (pre @ letter_of t) (pts + tile_value t) (letter_of t) (counts(t := counts t - 1)) else []))"
    by (intro ext) (simp add: Suc.IH note_all_def del: fun_upd_apply)
  show ?case unfolding walk.simps visits.simps note_all_append note_all_concat step
    by (simp add: note_all_def bingo_score_def)
qed

text \<open>Of the entries of a word the best is kept.\<close>

definition best_of :: "(str \<times> nat \<times> nat) list \<Rightarrow> best_words \<Rightarrow> bool" where
  "best_of es best \<longleftrightarrow> (\<forall>w. case map_of best w of
       None \<Rightarrow> \<forall>p u. (w, p, u) \<notin> set es
     | Some (p, u) \<Rightarrow> (w, p, u) \<in> set es \<and> (\<forall>p' u'. (w, p', u') \<in> set es \<longrightarrow> p' \<le> p))"

lemma best_of_note:
  assumes "best_of es best"
  shows "best_of (es @ [(w, p, u)]) (note_word w p u best)"
  unfolding best_of_def
proof
  fix v
  have b: "case map_of best v of None \<Rightarrow> \<forall>p u. (v, p, u) \<notin> set es
     | Some (p, u) \<Rightarrow> (v, p, u) \<in> set es \<and> (\<forall>p' u'. (v, p', u') \<in> set es \<longrightarrow> p' \<le> p)" for v
    using assms by (simp add: best_of_def)
  show "case map_of (note_word w p u best) v of None \<Rightarrow> \<forall>p' u'. (v, p', u') \<notin> set (es @ [(w, p, u)])
     | Some (p', u') \<Rightarrow> (v, p', u') \<in> set (es @ [(w, p, u)]) \<and> (\<forall>q q'. (v, q, q') \<in> set (es @ [(w, p, u)]) \<longrightarrow> q \<le> p')"
  proof (cases "v = w")
    case False
    then have "map_of (note_word w p u best) v = map_of best v" by (simp add: note_word_def update_conv' split: option.split prod.split)
    then show ?thesis using b [of v] False by (simp split: option.splits prod.splits)
  next
    case True
    show ?thesis
      using b [of w] by (auto simp: True note_word_def update_conv' split: option.splits prod.splits)
  qed
qed

lemma best_of_note_all: "best_of es best \<Longrightarrow> best_of (es @ fs) (note_all fs best)"
proof (induction fs arbitrary: es best)
  case (Cons f fs)
  obtain w p u where f: "f = (w, p, u)" by (metis prod_cases3)
  have "best_of ((es @ [f]) @ fs) (note_all fs (note_word w p u best))"
    by (rule Cons.IH) (simp add: f best_of_note [OF Cons.prems])
  then show ?case by (simp add: f note_all_def)
qed (simp add: note_all_def)

lemma best_of_visits: "best_of es (note_all es [])"
  using best_of_note_all [of "[]" "[]" es] by (simp add: best_of_def)

definition tiles_score :: "tile list \<Rightarrow> nat" where
  "tiles_score ts = sum_list (map tile_value ts)"

text \<open>The walk meets exactly the smooth spellings of the words of the vocabulary.\<close>

definition continues :: "vocabulary \<Rightarrow> tile list \<Rightarrow> nat \<Rightarrow> nat \<Rightarrow> str \<Rightarrow> nat \<Rightarrow> str \<Rightarrow> (tile \<Rightarrow> int) \<Rightarrow> tile list \<Rightarrow> str \<times> nat \<times> nat \<Rightarrow> bool" where
  "continues v types left used pre pts l counts ts e \<longleftrightarrow>
     length ts \<le> left \<and> set ts \<subseteq> set types \<and> counts_cover counts ts \<and> smooth l (map letter_of ts) \<and> 2 \<le> used + length ts
     \<and> vocab_contains v (pre @ tiles_to_word ts)
     \<and> e = (pre @ tiles_to_word ts, bingo_score (pts + tiles_score ts) (used + length ts), used + length ts)"

lemma continues_Cons:
  "continues v types (Suc left) used pre pts l counts (t # ts) e \<longleftrightarrow>
     t \<in> set types \<and> 0 < counts t \<and> \<not> forms_digraph l (letter_of t)
     \<and> continues v types left (used + 1) (pre @ letter_of t) (pts + tile_value t) (letter_of t) (counts(t := counts t - 1)) ts e"
  by (auto simp: continues_def fits_Cons tiles_to_word_def tiles_score_def add.assoc)

lemma continues_Nil:
  "continues v types left used pre pts l counts [] e \<longleftrightarrow>
     2 \<le> used \<and> vocab_contains v pre \<and> e = (pre, bingo_score pts used, used)"
  by (simp add: continues_def tiles_to_word_def tiles_score_def)

lemma visits_iff:
  assumes pref: "\<And>w p. vocab_contains v w \<Longrightarrow> prefix p w \<Longrightarrow> has_prefix v p"
  shows "e \<in> set (visits v types left used pre pts l counts) \<longleftrightarrow> (\<exists>ts. continues v types left used pre pts l counts ts e)"
proof (induction left arbitrary: used pre pts l counts)
  case 0
  have "continues v types 0 used pre pts l counts ts e \<longleftrightarrow> ts = [] \<and> continues v types 0 used pre pts l counts [] e" for ts
    by (auto simp: continues_def)
  then show ?case by (auto simp: continues_Nil)
next
  case (Suc left)
  let ?c = "\<lambda>t ts. continues v types left (used + 1) (pre @ letter_of t) (pts + tile_value t) (letter_of t) (counts(t := counts t - 1)) ts e"
  have p: "has_prefix v (pre @ letter_of t)" if c: "?c t ts" for t ts
  proof -
    have "vocab_contains v ((pre @ letter_of t) @ tiles_to_word ts)" using c unfolding continues_def by blast
    then show ?thesis by (rule pref) simp
  qed
  have "e \<in> set (visits v types (Suc left) used pre pts l counts) \<longleftrightarrow>
      continues v types (Suc left) used pre pts l counts [] e
      \<or> (\<exists>t\<in>set types. 0 < counts t \<and> \<not> forms_digraph l (letter_of t) \<and> has_prefix v (pre @ letter_of t) \<and> (\<exists>ts. ?c t ts))"
    by (auto simp: continues_Nil Suc.IH simp del: fun_upd_apply split: if_splits)
  also have "\<dots> \<longleftrightarrow> continues v types (Suc left) used pre pts l counts [] e
      \<or> (\<exists>t ts. continues v types (Suc left) used pre pts l counts (t # ts) e)"
    unfolding continues_Cons using p by blast
  also have "\<dots> \<longleftrightarrow> (\<exists>ts. continues v types (Suc left) used pre pts l counts ts e)"
    by (metis neq_Nil_conv)
  finally show ?case .
qed

section \<open>The assignment of a word to the tiles\<close>

definition pieces_score :: "str list \<Rightarrow> nat" where
  "pieces_score ps = sum_list (map letter_value ps)"

definition spelled_by :: "str \<Rightarrow> (str \<Rightarrow> int) \<Rightarrow> str \<Rightarrow> bool \<Rightarrow> str list \<Rightarrow> bool" where
  "spelled_by w counts l split_ok ps \<longleftrightarrow>
     concat ps = w \<and> (\<forall>p\<in>set ps. length p = 1 \<or> length p = 2) \<and> counts_cover counts ps \<and> (split_ok \<or> smooth l ps)"

text \<open>The best of a set of spellings, with the score so far.\<close>

definition best_laid :: "str list set \<Rightarrow> nat \<Rightarrow> (nat \<times> str list) option \<Rightarrow> bool" where
  "best_laid S pts r \<longleftrightarrow>
     (case r of None \<Rightarrow> S = {}
      | Some (n, ps) \<Rightarrow> ps \<in> S \<and> n = pts + pieces_score ps \<and> (\<forall>qs\<in>S. pts + pieces_score qs \<le> n))"

lemma best_laid_better:
  assumes "best_laid S pts best" "best_laid T (pts + letter_value p) r"
  shows "best_laid (S \<union> (#) p ` T) pts (better_spelling best p r)"
  using assms by (auto simp: best_laid_def better_spelling_def pieces_score_def split: option.splits prod.splits)

lemma laid_Nil: "spelled_by [] counts l split_ok ps \<longleftrightarrow> ps = []"
  by (cases ps) (auto simp: spelled_by_def)

text \<open>The spellings that start with a piece of \<open>n\<close> characters.\<close>

definition laid_from :: "nat \<Rightarrow> str \<Rightarrow> (str \<Rightarrow> int) \<Rightarrow> str \<Rightarrow> bool \<Rightarrow> str list set" where
  "laid_from n w counts l split_ok =
     (if n \<le> length w \<and> 0 < counts (take n w) \<and> (split_ok \<or> \<not> forms_digraph l (take n w))
      then {ps. spelled_by (drop n w) (counts(take n w := counts (take n w) - 1)) (take n w) split_ok ps} else {})"

lemma laid_Cons:
  assumes "w \<noteq> []"
  shows "{ps. spelled_by w counts l split_ok ps} =
    (#) (take 1 w) ` laid_from 1 w counts l split_ok \<union> (#) (take 2 w) ` laid_from 2 w counts l split_ok"
proof (intro set_eqI iffI)
  fix ps
  assume "ps \<in> {ps. spelled_by w counts l split_ok ps}"
  then obtain p qs where ps: "ps = p # qs" "spelled_by w counts l split_ok (p # qs)"
    using assms by (cases ps) (auto simp: spelled_by_def)
  then have w: "w = p @ concat qs" "length p = 1 \<or> length p = 2" by (auto simp: spelled_by_def)
  then have "take (length p) w = p" "drop (length p) w = concat qs" by simp_all
  then have "qs \<in> laid_from (length p) w counts l split_ok"
    using ps(2) w(1) by (auto simp: laid_from_def spelled_by_def fits_Cons)
  then show "ps \<in> (#) (take 1 w) ` laid_from 1 w counts l split_ok \<union> (#) (take 2 w) ` laid_from 2 w counts l split_ok"
    using w(2) \<open>take (length p) w = p\<close> ps(1) by auto
next
  fix ps
  assume "ps \<in> (#) (take 1 w) ` laid_from 1 w counts l split_ok \<union> (#) (take 2 w) ` laid_from 2 w counts l split_ok"
  then obtain n qs where n: "n = 1 \<or> n = 2" "ps = take n w # qs" "qs \<in> laid_from n w counts l split_ok" by blast
  then have "length (take n w) = n" "n \<le> length w" by (auto simp: laid_from_def split: if_splits)
  then show "ps \<in> {ps. spelled_by w counts l split_ok ps}"
    using n by (auto simp: laid_from_def spelled_by_def fits_Cons split: if_splits)
qed

lemma assign_best: "best_laid {ps. spelled_by w counts l split_ok ps} pts (assign w counts pts l split_ok)"
proof (induction w counts pts l split_ok rule: assign.induct)
  case (1 w counts pts l split_ok)
  show ?case
  proof (cases "w = []")
    case True
    then show ?thesis by (simp add: assign.simps laid_Nil best_laid_def pieces_score_def)
  next
    case False
    define attempt where "attempt n = (if n \<le> length w \<and> 0 < n then
         (let piece = take n w in if counts piece \<le> 0 \<or> \<not> split_ok \<and> forms_digraph l piece then None
            else assign (drop n w) (counts(piece := counts piece - 1)) (pts + letter_value piece) piece split_ok) else None)" for n
    have a: "best_laid (laid_from n w counts l split_ok) (pts + letter_value (take n w)) (attempt n)" if "0 < n" for n
    proof (cases "n \<le> length w \<and> 0 < counts (take n w) \<and> (split_ok \<or> \<not> forms_digraph l (take n w))")
      case c: True
      have "best_laid {ps. spelled_by (drop n w) (counts(take n w := counts (take n w) - 1)) (take n w) split_ok ps}
          (pts + letter_value (take n w)) (assign (drop n w) (counts(take n w := counts (take n w) - 1)) (pts + letter_value (take n w)) (take n w) split_ok)"
        by (rule 1 [OF False _ refl]) (use c that in auto)
      moreover have "attempt n = assign (drop n w) (counts(take n w := counts (take n w) - 1)) (pts + letter_value (take n w)) (take n w) split_ok"
        using c that by (auto simp: attempt_def Let_def)
      moreover have "laid_from n w counts l split_ok = {ps. spelled_by (drop n w) (counts(take n w := counts (take n w) - 1)) (take n w) split_ok ps}"
        unfolding laid_from_def if_P [OF c] ..
      ultimately show ?thesis by simp
    next
      case c: False
      then have "attempt n = None" by (auto simp: attempt_def Let_def)
      then show ?thesis unfolding laid_from_def if_not_P [OF c] by (simp add: best_laid_def)
    qed
    have "best_laid ({} \<union> (#) (take 1 w) ` laid_from 1 w counts l split_ok) pts (better_spelling None (take 1 w) (attempt 1))"
      by (rule best_laid_better [OF _ a]) (simp_all add: best_laid_def)
    then have "best_laid (({} \<union> (#) (take 1 w) ` laid_from 1 w counts l split_ok) \<union> (#) (take 2 w) ` laid_from 2 w counts l split_ok) pts
        (better_spelling (better_spelling None (take 1 w) (attempt 1)) (take 2 w) (attempt 2))"
      by (rule best_laid_better [OF _ a]) simp
    moreover have "assign w counts pts l split_ok = better_spelling (better_spelling None (take 1 w) (attempt 1)) (take 2 w) (attempt 2)"
      using False by (subst assign.simps) (simp add: attempt_def Let_def)
    ultimately show ?thesis by (simp add: laid_Cons [OF False])
  qed
qed

section \<open>The spellings of a word with a rack\<close>

definition letter_tile :: "tile \<Rightarrow> bool" where
  "letter_tile t \<longleftrightarrow> tile_ok t \<and> \<not> tile_is_blank t"

definition rack_spelling :: "tile list \<Rightarrow> str \<Rightarrow> tile list \<Rightarrow> bool" where
  "rack_spelling rack w ts \<longleftrightarrow> mset ts \<subseteq># mset rack \<and> smooth [] (map letter_of ts) \<and> tiles_to_word ts = w"

lemma fits_rack: "counts_cover (\<lambda>t. int (count_list rack t)) ts \<longleftrightarrow> mset ts \<subseteq># mset rack"
proof
  assume "counts_cover (\<lambda>t. int (count_list rack t)) ts"
  then have "count (mset ts) t \<le> count (mset rack) t" for t
  proof (cases "t \<in> set ts")
    case True
    with \<open>counts_cover (\<lambda>t. int (count_list rack t)) ts\<close> show ?thesis by (simp add: counts_cover_def count_mset count_list_eq_length_filter)
  next
    case False
    then have "count (mset ts) t = 0" by (simp add: not_in_iff [symmetric])
    show ?thesis unfolding \<open>count (mset ts) t = 0\<close> by (rule le0)
  qed
  then show "mset ts \<subseteq># mset rack" by (rule mset_subset_eqI)
next
  assume "mset ts \<subseteq># mset rack"
  then have "count (mset ts) t \<le> count (mset rack) t" for t by (rule mset_subset_eq_count)
  then show "counts_cover (\<lambda>t. int (count_list rack t)) ts" by (simp add: counts_cover_def count_mset count_list_eq_length_filter)
qed

lemma inj_letter_of: "inj_on letter_of {t. letter_tile t}"
  by (rule inj_onI) (simp add: letter_tile_def letter_of_inj)

lemma letter_tile_length: "letter_tile t \<Longrightarrow> length (letter_of t) = 1 \<or> length (letter_of t) = 2"
  using tile_facts(1) [of t] by (auto simp: letter_tile_def)

lemma pieces_of_tiles: "\<forall>t\<in>set ts. letter_tile t \<Longrightarrow> pieces_score (map letter_of ts) = tiles_score ts"
  by (induction ts) (auto simp: pieces_score_def tiles_score_def letter_value_def letter_tile_def dest: tile_facts(2))

lemma laid_rack:
  assumes "\<forall>t\<in>set rack. letter_tile t"
  shows "spelled_by w (piece_counts (map letter_of rack)) [] False ps \<longleftrightarrow> (\<exists>ts. ps = map letter_of ts \<and> rack_spelling rack w ts)"
proof -
  have inj: "inj_on letter_of (set rack)" by (rule inj_on_subset [OF inj_letter_of]) (use assms in auto)
  have pc: "piece_counts (map letter_of rack) = (\<lambda>p. int (count_list (map letter_of rack) p))"
    by (rule ext) (simp add: piece_counts_def)
  show ?thesis
  proof
    assume l: "spelled_by w (piece_counts (map letter_of rack)) [] False ps"
    have "p \<in> letter_of ` set rack" if "p \<in> set ps" for p
    proof (rule ccontr)
      assume "p \<notin> letter_of ` set rack"
      then have "count_list (map letter_of rack) p = 0" by (simp add: count_list_0_iff)
      moreover have "int (count_list ps p) \<le> int (count_list (map letter_of rack) p)"
        using l that by (simp add: spelled_by_def counts_cover_def pc)
      ultimately show False using that by (simp add: count_list_0_iff)
    qed
    then have in_rack: "\<forall>p\<in>set ps. p \<in> letter_of ` set rack" by blast
    define ts where "ts = map (inv_into (set rack) letter_of) ps"
    have ts: "ps = map letter_of ts" "set ts \<subseteq> set rack"
      using in_rack by (auto simp: ts_def f_inv_into_f inv_into_into intro!: map_idI [symmetric])
    then show "\<exists>ts. ps = map letter_of ts \<and> rack_spelling rack w ts"
      using l fits_image [OF inj ts(2)] by (auto simp: spelled_by_def pc rack_spelling_def fits_rack tiles_to_word_def)
  next
    assume "\<exists>ts. ps = map letter_of ts \<and> rack_spelling rack w ts"
    then obtain ts where ts: "ps = map letter_of ts" "rack_spelling rack w ts" by blast
    have sub: "set ts \<subseteq> set rack" using ts(2) by (metis rack_spelling_def set_mset_mono set_mset_mset)
    then show "spelled_by w (piece_counts (map letter_of rack)) [] False ps"
      using ts fits_image [OF inj sub] assms letter_tile_length
      by (auto simp: spelled_by_def pc rack_spelling_def fits_rack tiles_to_word_def)
  qed
qed

text \<open>A word that takes all tiles in one spelling takes all tiles in each.\<close>

lemma spelling_length:
  assumes "\<forall>t\<in>set rack. letter_tile t" "rack_spelling rack w ts"
  shows "length ts = length rack \<longleftrightarrow> length w = length (tiles_to_word rack)"
proof -
  have len: "length (tiles_to_word us) = (\<Sum>t\<in>#mset us. length (letter_of t))" for us
    by (simp add: tiles_to_word_def length_concat o_def sum_mset_sum_list [symmetric] mset_map [symmetric] del: mset_map)
  obtain R where R: "mset rack = mset ts + R" using assms(2) by (auto simp: rack_spelling_def subset_mset.le_iff_add)
  have pos: "0 < length (letter_of t)" if "t \<in># R" for t
  proof -
    have "t \<in> set rack" using that R by (metis set_mset_mset union_iff)
    then show ?thesis using assms(1) letter_tile_length by fastforce
  qed
  have "(\<Sum>t\<in>#R. length (letter_of t)) = 0 \<longleftrightarrow> R = {#}"
    using pos by (cases R) auto
  moreover have "length w = (\<Sum>t\<in>#mset ts. length (letter_of t))" using assms(2) len [of ts] by (simp add: rack_spelling_def)
  then have "length (tiles_to_word rack) = length w + (\<Sum>t\<in>#R. length (letter_of t))"
    unfolding len [of rack] R by simp
  moreover have "length rack = length ts + size R" using R by (metis size_mset size_union)
  ultimately show ?thesis by auto
qed

text \<open>A word of one tile that is a digraph is spelled by that tile only.\<close>

lemma one_tile_spelling:
  assumes "\<forall>t\<in>set rack. letter_tile t" "rack_spelling rack w [t]" "rack_spelling rack w us" "2 \<le> length w"
  shows "length us = 1"
proof (rule ccontr)
  assume n: "length us \<noteq> 1"
  have t: "letter_tile t" "w = letter_of t" using assms(1,2) by (auto simp: rack_spelling_def tiles_to_word_def)
  then have w: "length w = 2" using letter_tile_length assms(4) by fastforce
  have "set us \<subseteq> set rack" using assms(3) by (metis rack_spelling_def set_mset_mono set_mset_mset)
  then have us: "\<forall>u\<in>set us. letter_tile u" "concat (map letter_of us) = w"
    using assms(1,3) by (auto simp: rack_spelling_def tiles_to_word_def)
  obtain a b cs where cs: "us = a # b # cs"
    using n us(2) w by (cases us) (auto simp: length_Suc_conv neq_Nil_conv)
  have l: "length (letter_of a) = 1 \<or> length (letter_of a) = 2" "length (letter_of b) = 1 \<or> length (letter_of b) = 2"
    using us(1) cs letter_tile_length by simp_all
  have ab: "length (letter_of a) + length (letter_of b) + length (concat (map letter_of cs)) = 2"
    using us(2) w cs by (metis append_assoc concat.simps(2) length_append list.simps(9))
  then have one: "length (letter_of a) = 1" "length (letter_of b) = 1" "concat (map letter_of cs) = []" using l by auto
  then have "letter_of a @ letter_of b = letter_of t" using us(2) t(2) cs by (simp del: concat_eq_Nil_conv)
  moreover have "entry_at (tile_index t) \<in> set TILE_DISTRIBUTION"
    using t(1) by (simp add: letter_tile_def tile_ok_def entry_at_def)
  ultimately have "forms_digraph (letter_of a) (letter_of b)"
    using one w t(2) by (auto simp: forms_digraph_def letter_of_def intro!: bexI [where x = "entry_at (tile_index t)"])
  then show False using assms(3) cs by (simp add: rack_spelling_def)
qed

section \<open>Listing and judging\<close>

lemma distinct_note_all: "distinct (map fst best) \<Longrightarrow> distinct (map fst (note_all es best))"
proof (induction es arbitrary: best)
  case (Cons e es)
  obtain w p u where e: "e = (w, p, u)" by (metis prod_cases3)
  have "distinct (map fst (note_word w p u best))"
    using Cons.prems by (auto simp: note_word_def distinct_update split: option.split)
  then show ?case using Cons.IH by (simp add: e note_all_def)
qed (simp add: note_all_def)

lemma best_of_max:
  assumes "best_of es best"
  shows "(\<exists>u. map_of best w = Some (p, u)) \<longleftrightarrow> (\<exists>u. (w, p, u) \<in> set es) \<and> (\<forall>p' u'. (w, p', u') \<in> set es \<longrightarrow> p' \<le> p)"
proof -
  have b: "case map_of best w of None \<Rightarrow> \<forall>p u. (w, p, u) \<notin> set es
     | Some (p, u) \<Rightarrow> (w, p, u) \<in> set es \<and> (\<forall>p' u'. (w, p', u') \<in> set es \<longrightarrow> p' \<le> p)"
    using assms by (simp add: best_of_def)
  show ?thesis
  proof (cases "map_of best w")
    case None
    then show ?thesis using b by simp
  next
    case (Some r)
    obtain q u where r: "r = (q, u)" by (cases r)
    then have q: "(w, q, u) \<in> set es" "\<forall>p' u'. (w, p', u') \<in> set es \<longrightarrow> p' \<le> q" using b Some by simp_all
    then have "(\<exists>u. (w, p, u) \<in> set es) \<and> (\<forall>p' u'. (w, p', u') \<in> set es \<longrightarrow> p' \<le> p) \<longleftrightarrow> p = q"
      by (metis order.antisym)
    then show ?thesis using Some r by auto
  qed
qed

definition rack_visits :: "vocabulary \<Rightarrow> tile list \<Rightarrow> (str \<times> nat \<times> nat) list" where
  "rack_visits v rack = visits v (rack_types rack) (length rack) 0 [] 0 [] (tile_supply rack)"

lemma rack_best_visits: "rack_best x rack = note_all (rack_visits (vocab x) rack) []"
  by (simp add: rack_best_def rack_visits_def walk_visits)

lemma rack_visits_iff:
  assumes v: "v = vocab_new words"
  shows "(w, p, u) \<in> set (rack_visits v rack) \<longleftrightarrow>
    vocab_contains v w \<and> (\<exists>ts. rack_spelling rack w ts \<and> 2 \<le> length ts \<and> u = length ts \<and> p = bingo_score (tiles_score ts) (length ts))"
proof -
  let ?ws = "remdups_adj (sort (map to_uppercase words))"
  have pref: "has_prefix v q" if "vocab_contains v z" "prefix q z" for z q
    using that unfolding v vocab_new_buffer contains_buffer [OF sorted_vocab] has_prefix_buffer [OF sorted_vocab] by blast
  have c: "tile_supply rack = (\<lambda>t. int (count_list rack t))" by (rule ext) (simp add: tile_supply_def)
  have conts: "continues v (rack_types rack) (length rack) 0 [] 0 [] (tile_supply rack) ts (w, p, u) \<longleftrightarrow>
     vocab_contains v w \<and> rack_spelling rack w ts \<and> 2 \<le> length ts \<and> u = length ts \<and> p = bingo_score (tiles_score ts) (length ts)" for ts
  proof -
    have "length ts \<le> length rack" "set ts \<subseteq> set rack" if "mset ts \<subseteq># mset rack"
      using size_mset_mono [OF that] set_mset_mono [OF that] by simp_all
    then show ?thesis
      by (auto simp: continues_def c fits_rack rack_spelling_def rack_types_def)
  qed
  have "(w, p, u) \<in> set (rack_visits v rack) \<longleftrightarrow> (\<exists>ts. continues v (rack_types rack) (length rack) 0 [] 0 [] (tile_supply rack) ts (w, p, u))"
    unfolding rack_visits_def by (rule visits_iff) (rule pref)
  then show ?thesis unfolding conts by simp
qed

lemma rack_words_iff:
  assumes "\<And>ws. bulk x ws = {w \<in> set ws. good w}"
  shows "(\<exists>u. (w, p, u) \<in> set (rack_words x rack)) \<longleftrightarrow> good w \<and> (\<exists>u. map_of (rack_best x rack) w = Some (p, u))"
proof -
  have d: "distinct (map fst (rack_best x rack))" unfolding rack_best_visits by (rule distinct_note_all) simp
  have v: "(if rack_best x rack = [] then {} else bulk x (map fst (rack_best x rack))) = {w \<in> fst ` set (rack_best x rack). good w}"
    by (simp add: assms)
  have "set (rack_words x rack) = {e \<in> set (rack_best x rack). fst e \<in> {w \<in> fst ` set (rack_best x rack). good w}}"
    unfolding rack_words_def Let_def v set_sort set_filter by (rule Collect_cong) (simp add: case_prod_beta)
  moreover have "w \<in> fst ` set (rack_best x rack)" if "(w, p, u) \<in> set (rack_best x rack)" for u
    using imageI [OF that, of fst] unfolding fst_conv .
  ultimately have "(w, p, u) \<in> set (rack_words x rack) \<longleftrightarrow> good w \<and> map_of (rack_best x rack) w = Some (p, u)" for u
    unfolding map_of_eq_Some_iff [OF d] by auto
  then show ?thesis by simp
qed

lemma assign_rack:
  assumes "\<forall>t\<in>set rack. letter_tile t"
  shows "case assign w (piece_counts (map letter_of rack)) 0 [] False of
      None \<Rightarrow> \<forall>ts. \<not> rack_spelling rack w ts
    | Some (n, ps) \<Rightarrow> \<exists>ts. rack_spelling rack w ts \<and> ps = map letter_of ts \<and> n = tiles_score ts
        \<and> (\<forall>us. rack_spelling rack w us \<longrightarrow> tiles_score us \<le> n)"
proof -
  have score: "pieces_score (map letter_of ts) = tiles_score ts" if "rack_spelling rack w ts" for ts
  proof -
    have "set ts \<subseteq> set rack" using that by (metis rack_spelling_def set_mset_mono set_mset_mset)
    then show ?thesis using assms by (intro pieces_of_tiles) blast
  qed
  have b: "best_laid {ps. \<exists>ts. ps = map letter_of ts \<and> rack_spelling rack w ts} 0 (assign w (piece_counts (map letter_of rack)) 0 [] False)"
    using assign_best [of w "piece_counts (map letter_of rack)" "[]" False 0] unfolding laid_rack [OF assms] .
  show ?thesis
  proof (cases "assign w (piece_counts (map letter_of rack)) 0 [] False")
    case None
    then show ?thesis using b by (auto simp: best_laid_def)
  next
    case (Some r)
    obtain n ps where r: "r = (n, ps)" by (cases r)
    obtain ts where ts: "ps = map letter_of ts" "rack_spelling rack w ts" and n: "n = pieces_score ps"
      and m: "\<forall>qs\<in>{ps. \<exists>ts. ps = map letter_of ts \<and> rack_spelling rack w ts}. pieces_score qs \<le> n"
      using b Some r by (auto simp: best_laid_def)
    have "tiles_score us \<le> n" if us: "rack_spelling rack w us" for us
      using bspec [OF m, of "map letter_of us"] us score [OF us] by auto
    then show ?thesis using Some r ts n score [OF ts(2)] by auto
  qed
qed

lemma spelling_tokenizes:
  assumes "vocab_contains (vocab_new words) w" "rack_spelling rack w ts" "\<forall>t\<in>set rack. letter_tile t"
  shows "tokenize_word w \<noteq> None"
proof -
  have c: "\<forall>e\<in>set TILE_DISTRIBUTION. to_uppercase (fst e) = fst e"
    by (simp add: TILE_DISTRIBUTION_def to_uppercase_def upper_char_def upper_table_def)
  have u: "to_uppercase (letter_of t) = letter_of t" if "letter_tile t" for t
  proof -
    have "entry_at (tile_index t) \<in> set TILE_DISTRIBUTION" using that by (simp add: letter_tile_def tile_ok_def entry_at_def)
    then show ?thesis unfolding letter_of_def using c by blast
  qed
  have s: "set ts \<subseteq> set rack" using assms(2) by (metis rack_spelling_def set_mset_mono set_mset_mset)
  then have "\<forall>t\<in>set ts. letter_tile t" using assms(3) by blast
  then have "to_uppercase (tiles_to_word ts) = tiles_to_word ts"
    by (induction ts) (simp_all add: tiles_to_word_def to_uppercase_def u [unfolded to_uppercase_def])
  then have "spells ts (to_uppercase w)"
    using assms(2,3) s by (auto simp: spells_def rack_spelling_def tiles_to_word_def letter_tile_def)
  then show ?thesis using tokenize_None_iff by blast
qed

lemma list_cases_one:
  obtains "xs = []" | x where "xs = [x]" | x y zs where "xs = x # y # zs"
  by (metis neq_Nil_conv)

lemma spelled_length:
  assumes "\<forall>t\<in>set ts. letter_tile t"
  shows "length ts \<le> length (tiles_to_word ts) \<and> length (tiles_to_word ts) \<le> 2 * length ts"
  using assms
proof (induction ts)
  case (Cons t ts)
  then show ?case using letter_tile_length [of t] by (auto simp: tiles_to_word_def)
qed (simp add: tiles_to_word_def)

lemma spelling_bounds:
  assumes "\<forall>t\<in>set rack. letter_tile t" "rack_spelling rack w ts"
  shows "length ts \<le> length w \<and> length w \<le> 2 * length rack"
proof -
  have "set ts \<subseteq> set rack" "length ts \<le> length rack"
    using assms(2) by (metis rack_spelling_def set_mset_mono set_mset_mset, metis rack_spelling_def size_mset size_mset_mono)
  moreover then have "\<forall>t\<in>set ts. letter_tile t" using assms(1) by blast
  ultimately show ?thesis using spelled_length [of ts] assms(2) by (auto simp: rack_spelling_def)
qed

text \<open>Two spellings of a word with a full rack earn the same bonus.\<close>

lemma bingo_score_mono:
  assumes "\<forall>t\<in>set rack. letter_tile t" "length rack = RACK_SIZE" "rack_spelling rack w ts" "rack_spelling rack w us"
  shows "bingo_score (tiles_score ts) (length ts) \<le> bingo_score (tiles_score us) (length us) \<longleftrightarrow> tiles_score ts \<le> tiles_score us"
  using spelling_length [OF assms(1,3)] spelling_length [OF assms(1,4)] assms(2) by (auto simp: bingo_score_def)

lemma best_spelling:
  assumes rack: "\<forall>t\<in>set rack. letter_tile t" "length rack = RACK_SIZE" and ts: "rack_spelling rack w ts"
    and best: "\<And>us. rack_spelling rack w us \<Longrightarrow> tiles_score us \<le> tiles_score ts"
  shows "(\<exists>us. rack_spelling rack w us \<and> 2 \<le> length us \<and> p = bingo_score (tiles_score us) (length us))
      \<and> (\<forall>us. rack_spelling rack w us \<and> 2 \<le> length us \<longrightarrow> bingo_score (tiles_score us) (length us) \<le> p)
    \<longleftrightarrow> 2 \<le> length ts \<and> p = bingo_score (tiles_score ts) (length ts)" (is "?l \<longleftrightarrow> ?r")
proof
  assume ?l
  then obtain us where us: "rack_spelling rack w us" "2 \<le> length us" "p = bingo_score (tiles_score us) (length us)" by blast
  have w: "2 \<le> length w" using spelling_bounds [OF rack(1) us(1)] us(2) by simp
  have two: "2 \<le> length ts"
  proof (rule ccontr)
    assume "\<not> 2 \<le> length ts"
    moreover have "ts \<noteq> []" using w ts by (auto simp: rack_spelling_def tiles_to_word_def)
    ultimately obtain t where "ts = [t]" by (cases ts rule: list_cases_one) auto
    then show False using one_tile_spelling [OF rack(1) _ us(1) w] ts us(2) by simp
  qed
  moreover have "bingo_score (tiles_score ts) (length ts) \<le> p" using \<open>?l\<close> ts two by blast
  moreover have "p \<le> bingo_score (tiles_score ts) (length ts)"
    unfolding us(3) bingo_score_mono [OF rack us(1) ts] by (rule best [OF us(1)])
  ultimately show ?r by simp
next
  assume ?r
  moreover have "bingo_score (tiles_score us) (length us) \<le> bingo_score (tiles_score ts) (length ts)" if "rack_spelling rack w us" for us
    unfolding bingo_score_mono [OF rack that ts] by (rule best [OF that])
  ultimately show ?l using ts by blast
qed

lemma judge_iff:
  "judge_rack_word x rack w = Inr (n, ps) \<longleftrightarrow>
     2 \<le> length w \<and> length w \<le> 15 \<and> tokenize_word w \<noteq> None \<and> is_valid x w \<and> assign w (piece_counts rack) 0 [] False = Some (n, ps)"
  by (auto simp: judge_rack_word_def split: option.split)



end
