(* ===== verification/QuizProps.thy ===== *)
theory QuizProps
  imports Practice DictProps Accounts
begin

text \<open>The quiz asks what it should: each word once, half of them valid, the others misspelled, all of the asked length.\<close>

section \<open>Samples\<close>

lemma pick_less: "0 < n \<Longrightarrow> sset rng \<subseteq> {0..<1} \<Longrightarrow> pick rng n < n"
proof -
  assume n: "0 < n" and r: "sset rng \<subseteq> {0..<1}"
  have "shd rng < 1" "0 \<le> shd rng" using r shd_sset [of rng] by auto
  then have "shd rng * real n < real n" "0 \<le> shd rng * real n" using n by simp_all
  then show "pick rng n < n" unfolding pick_def by (simp add: nat_less_iff floor_less_iff)
qed

lemma draw_distinct_result:
  "draw_distinct n k chosen rng = Some r \<Longrightarrow> length chosen \<le> k \<longrightarrow> length (fst r) = k
     \<and> (set chosen \<subseteq> {..<n} \<and> 0 < n \<and> sset rng \<subseteq> {0..<1} \<longrightarrow> set (fst r) \<subseteq> {..<n})"
proof (induction rule: draw_distinct.raw_induct [rotated 1, consumes 1])
  case (1 draw n k chosen rng r)
  note ih = 1(1) and run = 1(2)
  show ?case
  proof (cases "k \<le> length chosen")
    case True
    then have "r = (chosen, rng)" using run by simp
    then show ?thesis using True by auto
  next
    case False
    let ?i = "pick rng n"
    have "draw n k (if ?i \<in> set chosen then chosen else chosen @ [?i]) (stl rng) = Some r" using run False by (simp add: Let_def)
    from ih [OF this] have i: "length (fst r) = k
        \<and> (set (if ?i \<in> set chosen then chosen else chosen @ [?i]) \<subseteq> {..<n} \<and> 0 < n \<and> sset (stl rng) \<subseteq> {0..<1} \<longrightarrow> set (fst r) \<subseteq> {..<n})"
      using False by (simp split: if_splits)
    have "set (if ?i \<in> set chosen then chosen else chosen @ [?i]) \<subseteq> {..<n}"
      if "set chosen \<subseteq> {..<n}" "0 < n" "sset rng \<subseteq> {0..<1}"
      using that(1) pick_less [OF that(2,3)] by simp
    moreover have "sset (stl rng) \<subseteq> sset rng" by (auto intro: stl_sset)
    ultimately show ?thesis using i by (meson order_trans)
  qed
qed

lemma swap_draws_length: "length (fst (swap_draws n is indices rng)) = length indices"
  by (induction n "is" indices rng rule: swap_draws.induct) (simp_all add: swap_def)

lemma swap_draws_range:
  "sset rng \<subseteq> {0..<1} \<Longrightarrow> set is \<subseteq> {..<n} \<Longrightarrow> length indices = n \<Longrightarrow> set indices \<subseteq> {..<n}
     \<Longrightarrow> set (fst (swap_draws n is indices rng)) \<subseteq> {..<n}"
proof (induction n "is" indices rng rule: swap_draws.induct)
  case (2 n i "is" indices rng)
  let ?j = "i + pick rng (n - i)"
  have "pick rng (n - i) < n - i" using 2(2,3) by (intro pick_less) auto
  then have j: "?j < n" "i < n" by simp_all
  then have m: "indices ! i \<in> set indices" "indices ! ?j \<in> set indices" using 2(4) by simp_all
  have "set (swap i ?j indices) \<subseteq> set indices \<union> {indices ! i, indices ! ?j}"
    unfolding swap_def by (meson insert_subset set_update_subset_insert subset_trans insertI1 le_sup_iff sup_ge1 sup_ge2 order_refl subset_insertI2 set_update_subsetI UnI1 UnI2 insertI2)
  then have "set (swap i ?j indices) \<subseteq> {..<n}" using m 2(5) by blast
  moreover have "sset (stl rng) \<subseteq> {0..<1}" using 2(2) stl_sset [of _ rng] by blast
  ultimately show ?case using 2(1,3,4) by (simp add: swap_def)
qed simp

lemma sample_indices_result:
  assumes "sample_indices rng n k = Some (is, rest)"
  shows "length is \<le> k" "sset rng \<subseteq> {0..<1} \<Longrightarrow> set is \<subseteq> {..<n}"
proof -
  show "length is \<le> k"
    using assms draw_distinct_result [of n "min k n" "[]" rng "(is, rest)"] 
    by (auto simp: sample_indices_def Let_def split: if_splits prod.splits)
  show "set is \<subseteq> {..<n}" if r: "sset rng \<subseteq> {0..<1}"
  proof (cases "min k n * 3 < n")
    case True
    then have "k * 3 < n" by (simp add: min_def split: if_splits)
    then show ?thesis
      using assms draw_distinct_result [of n k "[]" rng "(is, rest)"] r by (simp add: sample_indices_def Let_def)
  next
    case False
    then have "is = take (min k n) (fst (swap_draws n [0..<min k n] [0..<n] rng))"
      using assms by (auto simp: sample_indices_def Let_def split: prod.splits)
    then show ?thesis using swap_draws_range [OF r, of "[0..<min k n]" n "[0..<n]"] set_take_subset by fastforce
  qed
qed

section \<open>Misspelled words\<close>

lemma fitting_any: "fitting_fake len known w \<Longrightarrow> fitting_fake len {} w"
  by (simp add: fitting_fake_def split: option.splits)

lemma fake_batch_fits:
  "fake_batch len mutator n order known batch rng = (order', known', batch', rest)
     \<Longrightarrow> \<forall>w\<in>set batch. fitting_fake len {} w \<Longrightarrow> \<forall>w\<in>set batch'. fitting_fake len {} w"
proof (induction len mutator n order known batch rng rule: fake_batch.induct)
  case (1 len mutator n source order known batch rng)
  obtain fake r where m: "mutator source rng = (fake, r)" by (cases "mutator source rng")
  show ?case
  proof (cases fake)
    case None
    then show ?thesis using 1(1) [OF m [symmetric] None] 1(4,5) m by simp
  next
    case (Some f)
    then have m: "(Some f, r) = mutator source rng" using m by simp
    show ?thesis
    proof (cases "fitting_fake len known f")
      case True
      then show ?thesis using 1(2) [OF m refl True] 1(4,5) m [symmetric] fitting_any [OF True] by auto
    next
      case False
      then show ?thesis using 1(3) [OF m refl False] 1(4,5) m [symmetric] by simp
    qed
  qed
qed simp_all

lemma fake_rounds_fits:
  assumes good: "\<And>ws. bulk x ws = {w \<in> set ws. good w}"
  shows "fake_rounds x sources cnt len mutator n fakes known order rng = (fakes', rest)
     \<Longrightarrow> \<forall>w\<in>set fakes. fitting_fake len {} w \<and> \<not> good w \<Longrightarrow> \<forall>w\<in>set fakes'. fitting_fake len {} w \<and> \<not> good w"
proof (induction n arbitrary: fakes known order rng)
  case (Suc n)
  show ?case
  proof (cases "cnt \<le> length fakes")
    case True
    then show ?thesis using Suc.prems by simp
  next
    case False
    define o1 where "o1 = (if order = [] then (case shuffled x sources rng of (o1, r1) \<Rightarrow> (rev o1, r1)) else (order, rng))"
    obtain order' known' batch r where b: "fake_batch len mutator (cnt * 4) (fst o1) known [] (snd o1) = (order', known', batch, r)"
      by (metis prod_cases4)
    have run: "fake_rounds x sources cnt len mutator n (fakes @ filter (\<lambda>w. w \<notin> bulk x batch) batch) known' order' r = (fakes', rest)"
      using Suc.prems(1) False b by (simp add: o1_def [symmetric] Let_def)
    have "\<forall>w\<in>set batch. fitting_fake len {} w" using fake_batch_fits [OF b] by simp
    then show ?thesis using Suc.prems(2) by (intro Suc.IH [OF run]) (auto simp: good)
  qed
qed simp

lemma fake_words_fits:
  assumes "\<And>ws. bulk x ws = {w \<in> set ws. good w}" "fake_words x sources cnt rng len mutator = (fakes, rest)"
  shows "\<forall>w\<in>set fakes. fitting_fake len {} w \<and> \<not> good w" "length fakes \<le> cnt"
proof -
  obtain fs r where f: "fake_rounds x sources cnt len mutator 200 [] {} [] rng = (fs, r)"
    by (cases "fake_rounds x sources cnt len mutator 200 [] {} [] rng")
  then have "fakes = take cnt fs" using assms(2) by (simp add: fake_words_def)
  then show "\<forall>w\<in>set fakes. fitting_fake len {} w \<and> \<not> good w" "length fakes \<le> cnt"
    using fake_rounds_fits [OF assms(1) f] set_take_subset [of cnt fs] by auto
qed

section \<open>The quiz\<close>

definition cache_ok :: "lexis \<Rightarrow> short_cache \<Rightarrow> bool" where
  "cache_ok x cache \<longleftrightarrow>
     (\<forall>len v list. map_of cache len = Some (v, list) \<and> v = words_version x \<longrightarrow> list = map score_json (short_list x len))"

lemma short_words_result:
  assumes "cache_ok x cache" "short_words x len cache = (list, cache')"
  shows "list = map score_json (short_list x len)" "cache_ok x cache'"
  using assms by (auto simp: short_words_def cache_ok_def update_conv' split: option.splits prod.splits if_splits)

lemma json_word_score: "json_word (score_json w) = w"
  by (simp add: json_word_def score_json_def)

lemma short_list_words:
  assumes "\<And>ws. bulk x ws = {w \<in> set ws. good w}" "w \<in> set (short_list x len)"
  shows "good w \<and> tile_len w = len"
  using assms(2) by (auto simp: short_list_def assms(1) short_candidates_def tile_len_def split: option.splits)

text \<open>The shape of a question, and the valid words of a quiz.\<close>

definition asked_length :: "nat option \<Rightarrow> str \<Rightarrow> bool" where
  "asked_length len w \<longleftrightarrow> (case len of Some l \<Rightarrow> tile_len w = l | None \<Rightarrow> tile_len w \<le> MAX_TILES)"

lemma fitting_length: "fitting_fake len known w \<Longrightarrow> asked_length len w"
  by (auto simp: fitting_fake_def asked_length_def tile_len_def split: option.splits)

lemma target_small: "nat \<lfloor>round_ties_even (real n * INFLECTED_SHARE)\<rfloor> \<le> n"
proof -
  have "round_ties_even (real n * INFLECTED_SHARE) \<le> real_of_int (int n)"
    using round_ties_even_bounds [of 0 "real n * INFLECTED_SHARE" "int n"] by (simp add: INFLECTED_SHARE_def)
  then have "\<lfloor>round_ties_even (real n * INFLECTED_SHARE)\<rfloor> \<le> int n" by linarith
  then show ?thesis by linarith
qed

lemma mixed_words_result:
  assumes "\<And>ws. bulk x ws = {w \<in> set ws. good w}" "mixed_words x stems tricky n rng = Some ((valid, sources), rest)"
  shows "length valid \<le> n \<and> (\<forall>w\<in>set valid. good w \<and> asked_length None w)"
proof -
  have v: "is_valid x w = good w" for w by (simp add: is_valid_def assms(1))
  define target where "target = nat \<lfloor>round_ties_even (real n * INFLECTED_SHARE)\<rfloor>"
  let ?first = "sample_indices rng (length stems) (min (length stems) (n * (if tricky then 14 else 6)))"
  obtain "is" r1 where first: "?first = Some (is, r1)" using assms(2) by (cases ?first) (auto simp: mixed_words_def)
  define stems' where "stems' = filter (quiz_word tricky) (map ((!) stems) is)"
  let ?second = "sample_indices r1 (vocab_len (vocab x)) (min (vocab_len (vocab x)) (target * (if tricky then 24 else 8) + 8))"
  obtain js r2 where second: "?second = Some (js, r2)"
    using assms(2) by (cases ?second) (auto simp: mixed_words_def first target_def Let_def)
  define inflected where "inflected = filter (\<lambda>w. quiz_word tricky w \<and> w \<notin> set stems') (map (vocab_word (vocab x)) js)"
  have valid: "valid = take (n - length (take target (filter (is_valid x) inflected))) (filter (is_valid x) stems') @ take target (filter (is_valid x) inflected)"
    using assms(2) unfolding mixed_words_def first option.case prod.case Let_def target_def [symmetric] second
      stems'_def [symmetric] inflected_def [symmetric] by simp
  have infl: "\<forall>w\<in>set inflected. quiz_word tricky w" "\<forall>w\<in>set stems'. quiz_word tricky w" by (simp_all add: inflected_def stems'_def)
  have target: "target \<le> n" unfolding target_def by (rule target_small)
  have "length valid \<le> n" using target unfolding valid by simp
  moreover have "good w \<and> quiz_word tricky w" if "w \<in> set valid" for w
    using that infl unfolding valid by (auto simp: v dest!: in_set_takeD)
  ultimately show ?thesis by (auto simp: asked_length_def quiz_word_def)
qed

lemma short_quiz_result:
  assumes "short_quiz_words x words n rng = Some ((valid, sources), rest)" "sset rng \<subseteq> {0..<1}"
  shows "length valid \<le> n \<and> set valid \<subseteq> set words"
proof -
  obtain "is" where s: "sample_indices rng (length words) (min n (length words)) = Some (is, rest)" "valid = map ((!) words) is"
    using assms(1) by (auto simp: short_quiz_words_def split: option.splits prod.splits)
  show ?thesis using sample_indices_result(1) [OF s(1)] sample_indices_result(2) [OF s(1) assms(2)] by (auto simp: s(2))
qed

lemma shuffled_result:
  assumes "\<And>n r. mset (fst (permute x n r)) = mset [0..<n]" "shuffled x xs rng = (ys, rest)"
  shows "mset ys = mset xs"
proof -
  have "ys = map ((!) xs) (fst (permute x (length xs) rng))" using assms(2) by (auto simp: shuffled_def split: prod.splits)
  then have "mset ys = image_mset ((!) xs) (mset [0..<length xs])" using assms(1) by simp
  also have "\<dots> = mset (map ((!) xs) [0..<length xs])" by (simp only: mset_map)
  finally show ?thesis by (simp add: map_nth)
qed

text \<open>The valid words and the misspelled words of a quiz.\<close>

definition quiz_parts :: "lexis \<Rightarrow> nat \<Rightarrow> str \<Rightarrow> str list \<Rightarrow> str list \<Rightarrow> bool" where
  "quiz_parts x cnt mode valid fakes \<longleftrightarrow>
     length valid \<le> (cnt + 1) div 2 \<and> length fakes \<le> (cnt + 1) div 2 \<and> length valid + length fakes \<le> cnt
     \<and> (\<forall>w\<in>set valid. is_valid x w \<and> asked_length (quiz_length mode) w)
     \<and> (\<forall>w\<in>set fakes. \<not> is_valid x w \<and> fitting_fake (quiz_length mode) {} w)"

lemma quiz_half: "odd cnt \<or> \<not> extra \<Longrightarrow>
    cnt div 2 + (if extra then 1 else 0) \<le> (cnt + 1) div 2 \<and> cnt - (cnt div 2 + (if extra then 1 else 0)) \<le> (cnt + 1) div 2
    \<and> cnt div 2 + (if extra then 1 else 0) \<le> cnt" for cnt :: nat
  by (cases extra) (auto elim!: oddE)

lemma make_quiz_parts:
  assumes run: "make_quiz x stems cnt0 mode cache rng = Some (Inr qs, cache', rng')"
    and perm: "\<And>n r. mset (fst (permute x n r)) = mset [0..<n]"
    and good: "\<And>ws. bulk x ws = {w \<in> set ws. good w}"
    and rng: "sset rng \<subseteq> {0..<1}" and cache: "cache_ok x cache"
  shows "(\<exists>valid fakes. mset qs = mset (rev (remdups (rev (valid @ fakes)))) \<and> quiz_parts x (max 2 (min MAX_QUESTIONS cnt0)) mode valid fakes)
    \<and> cache_ok x cache'"
proof -
  define cnt where "cnt = max 2 (min MAX_QUESTIONS cnt0)"
  define r1 where "r1 = (if odd cnt then stl rng else rng)"
  define n where "n = cnt div 2 + (if odd cnt \<and> shd rng < 0.5 then 1 else 0)"
  define tricky where "tricky \<longleftrightarrow> mode = ascii ''tricky''"
  have v: "is_valid x w = good w" for w by (simp add: is_valid_def good)
  have half: "n \<le> (cnt + 1) div 2 \<and> cnt - n \<le> (cnt + 1) div 2 \<and> n \<le> cnt"
    using quiz_half [of cnt "odd cnt \<and> shd rng < 0.5"] by (simp add: n_def)
  have r1: "sset r1 \<subseteq> {0..<1}" using rng by (auto simp: r1_def dest: stl_sset)
  define drawn where "drawn = (case quiz_length mode of
       None \<Rightarrow> map_option (\<lambda>(ws, r). (ws, cache, r)) (mixed_words x stems tricky n r1)
     | Some len \<Rightarrow> (case short_words x len cache of (list, cache') \<Rightarrow>
          map_option (\<lambda>(ws, r). (ws, cache', r)) (short_quiz_words x (map json_word list) n r1)))"
  have run': "(case drawn of None \<Rightarrow> None
     | Some ((valid, sources), cache', r2) \<Rightarrow>
         (case fake_words x sources (cnt - n) r2 (quiz_length mode) (if tricky then mutate_length else mutate) of
            (fakes, r3) \<Rightarrow> (case shuffled x (rev (remdups (rev (valid @ fakes)))) r3 of
               (questions, r4) \<Rightarrow> Some (Inr questions :: str + str list, cache', r4)))) = Some (Inr qs, cache', rng')"
    using run unfolding make_quiz_def Let_def cnt_def [symmetric] r1_def [symmetric] n_def [symmetric] tricky_def [symmetric] drawn_def [symmetric]
    by (simp split: if_splits)
  obtain valid sources c2 r2 where d: "drawn = Some ((valid, sources), c2, r2)" using run' by (cases drawn) auto
  obtain fakes r3 where f: "fake_words x sources (cnt - n) r2 (quiz_length mode) (if tricky then mutate_length else mutate) = (fakes, r3)"
    by (metis surj_pair)
  obtain ys r4 where y: "shuffled x (rev (remdups (rev (valid @ fakes)))) r3 = (ys, r4)" by (metis surj_pair)
  have res: "ys = qs" "c2 = cache'" using run' unfolding d option.case prod.case f y by simp_all
  have parts: "length valid \<le> n \<and> (\<forall>w\<in>set valid. good w \<and> asked_length (quiz_length mode) w) \<and> cache_ok x c2"
  proof (cases "quiz_length mode")
    case None
    then have "mixed_words x stems tricky n r1 = Some ((valid, sources), r2)" "c2 = cache" using d by (auto simp: drawn_def)
    then show ?thesis using mixed_words_result [OF good] cache None by simp
  next
    case (Some len)
    obtain list c3 where s: "short_words x len cache = (list, c3)" by (metis surj_pair)
    have q: "short_quiz_words x (map json_word list) n r1 = Some ((valid, sources), r2)" "c2 = c3"
      using d by (auto simp: drawn_def Some s)
    have "map json_word list = short_list x len"
      unfolding short_words_result(1) [OF cache s] by (simp add: o_def json_word_score)
    then have "\<forall>w\<in>set valid. good w \<and> tile_len w = len" "length valid \<le> n"
      using short_quiz_result [OF q(1) r1] short_list_words [OF good] by auto
    then show ?thesis using short_words_result(2) [OF cache s] q(2) Some by (simp add: asked_length_def)
  qed
  have fk: "length fakes \<le> cnt - n \<and> (\<forall>w\<in>set fakes. \<not> good w \<and> fitting_fake (quiz_length mode) {} w)"
    using fake_words_fits [OF good f] by auto
  have "quiz_parts x cnt mode valid fakes" using parts fk half by (auto simp: quiz_parts_def v)
  moreover have "mset qs = mset (rev (remdups (rev (valid @ fakes))))" using shuffled_result [OF perm y] res(1) by simp
  ultimately show ?thesis using parts res(2) by (auto simp: cnt_def)
qed

text \<open>
  C25. A quiz is fair: no word is asked twice, there are at most as many questions as asked for (two to thirty), at most
  half of them (rounded up) have the answer yes and at most half the answer no, every question has the asked number of
  tiles, and the words kept for later quizzes stay those of the dictionary. The check of the quiz is the check that the
  answers are judged with, so no misspelled word turns out to be valid.
\<close>

theorem quiz_is_fair:
  assumes run: "make_quiz x stems cnt mode cache rng = Some (Inr qs, cache', rng')"
    and perm: "\<And>n r. mset (fst (permute x n r)) = mset [0..<n]"
    and good: "\<And>ws. bulk x ws = {w \<in> set ws. good w}"
    and rng: "sset rng \<subseteq> {0..<1}" and cache: "cache_ok x cache"
  shows "distinct qs \<and> length qs \<le> max 2 (min MAX_QUESTIONS cnt)
    \<and> length (filter (is_valid x) qs) \<le> (max 2 (min MAX_QUESTIONS cnt) + 1) div 2
    \<and> length (filter (\<lambda>w. \<not> is_valid x w) qs) \<le> (max 2 (min MAX_QUESTIONS cnt) + 1) div 2
    \<and> (\<forall>w\<in>set qs. asked_length (quiz_length mode) w) \<and> cache_ok x cache'"
proof -
  obtain valid fakes where q: "mset qs = mset (rev (remdups (rev (valid @ fakes))))"
    and p: "quiz_parts x (max 2 (min MAX_QUESTIONS cnt)) mode valid fakes" and c: "cache_ok x cache'"
    using make_quiz_parts [OF run perm good rng cache] by blast
  have set: "set qs = set valid \<union> set fakes" using arg_cong [OF q, of set_mset] by (simp add: Un_commute)
  have dist: "distinct qs" by (rule mset_eq_imp_distinct_iff [THEN iffD2, OF q]) simp
  have len: "length (filter P qs) \<le> length ws" if "\<And>w. w \<in> set valid \<union> set fakes \<Longrightarrow> P w \<Longrightarrow> w \<in> set ws" for P ws
  proof -
    have "length (filter P qs) = card (set (filter P qs))" by (rule distinct_card [symmetric]) (simp add: dist)
    also have "\<dots> \<le> card (set ws)" using that by (intro card_mono) (auto simp: set)
    also have "\<dots> \<le> length ws" by (rule card_length)
    finally show ?thesis .
  qed
  have "length (filter (\<lambda>w. True) qs) \<le> length (valid @ fakes)" by (rule len) simp
  moreover have "length (filter (is_valid x) qs) \<le> length valid" by (rule len) (use p in \<open>auto simp: quiz_parts_def\<close>)
  moreover have "length (filter (\<lambda>w. \<not> is_valid x w) qs) \<le> length fakes" by (rule len) (use p in \<open>auto simp: quiz_parts_def\<close>)
  moreover have "\<forall>w\<in>set qs. asked_length (quiz_length mode) w" using p fitting_length by (auto simp: set quiz_parts_def)
  ultimately show ?thesis using p dist c by (auto simp: quiz_parts_def)
qed

lemma high_draws:
  "sample_indices (sconst 0.9) (Suc 0) (Suc 0) = Some ([0], sconst 0.9)" "sample_indices (sconst 0.9) 0 k = Some ([], sconst 0.9)"
  by (simp_all add: sample_indices_def Let_def swap_def pick_def)

lemma spells_step:
  "spells us (c # w) \<longleftrightarrow> (\<exists>u vs. us = u # vs \<and>
     (from_str [c] = Some u \<and> spells vs w \<or> (\<exists>d w'. w = d # w' \<and> from_str [c, d] = Some u \<and> spells vs w')))"
proof
  assume s: "spells us (c # w)"
  then obtain u vs where us: "us = u # vs" by (cases us) (auto simp: spells_def)
  then have u: "tile_ok u" "\<not> tile_is_blank u" "letter_of u @ concat (map letter_of vs) = c # w" "\<forall>t\<in>set vs. tile_ok t \<and> \<not> tile_is_blank t"
    using s by (auto simp: spells_def)
  consider "length (letter_of u) = 1" | "length (letter_of u) = 2" using tile_facts(1) [OF u(1,2)] by blast
  then show "\<exists>u vs. us = u # vs \<and>
     (from_str [c] = Some u \<and> spells vs w \<or> (\<exists>d w'. w = d # w' \<and> from_str [c, d] = Some u \<and> spells vs w'))"
  proof cases
    case 1
    then have "letter_of u = [c]" "concat (map letter_of vs) = w" using u(3) by (cases "letter_of u"; simp)+
    then show ?thesis using us u tile_facts(2) [OF u(1,2)] by (auto simp: spells_def)
  next
    case 2
    then obtain d where l: "letter_of u = [c, d]" using u(3) by (auto simp: length_Suc_conv numeral_2_eq_2)
    then show ?thesis using us u tile_facts(2) [OF u(1,2)] by (auto simp: spells_def)
  qed
next
  have ok: "tile_ok u" "\<not> tile_is_blank u" "letter_of u = s" if "from_str s = Some u" "s \<noteq> []" for u s
    using from_str_Some [OF that(1)] that(2) by (auto simp: letter_of_blank)
  assume "\<exists>u vs. us = u # vs \<and>
     (from_str [c] = Some u \<and> spells vs w \<or> (\<exists>d w'. w = d # w' \<and> from_str [c, d] = Some u \<and> spells vs w'))"
  then show "spells us (c # w)" by (auto simp: spells_def dest: ok)
qed

lemma spells_Nil: "spells us [] \<longleftrightarrow> us = []"
  using tile_facts(1) by (cases us) (fastforce simp: spells_def)+

lemma only_spelling: "to_uppercase w = w \<Longrightarrow> (\<And>us. spells us w \<longleftrightarrow> us = ts) \<Longrightarrow> tokenize_word w = Some ts"
  using tokenize_None_iff [of w] tokenize_Some(1) [of w] by (cases "tokenize_word w") auto

lemma alm_letters: "from_str [65] = Some (Tile 1)" "from_str [76] = Some (Tile 6)" "from_str [77] = Some (Tile 10)"
  "from_str [65, 76] = None" "from_str [76, 77] = None" "from_str [77, 65] = None" by code_simp+

lemma alma_tokens:
  "tokenize_word (ascii ''ALMA'') = Some [Tile 1, Tile 6, Tile 10, Tile 1]"
  "tokenize_word (ascii ''ALM'') = Some [Tile 1, Tile 6, Tile 10]"
  by (rule only_spelling;
      simp_all add: ascii_def to_uppercase_def upper_char_def upper_table_def spells_step spells_Nil alm_letters)+

lemma alm_tiles: "is_vowel (Tile 1)" "tiles_to_word [Tile 1, Tile 6, Tile 10] = ascii ''ALM''"
  by code_simp+

lemma alma_fake: "mutate (ascii ''ALMA'') (sconst 0.9) = (Some (ascii ''ALM''), sconst 0.9)"
proof -
  have "\<lfloor>9 / 10 * (5 :: real)\<rfloor> = 4" "\<lfloor>9 / 10 * (4 :: real)\<rfloor> = 3" by (simp_all add: floor_eq_iff)
  then show ?thesis by (simp add: mutate_def alma_tokens alm_tiles pick_def Let_def del: One_nat_def)
qed

text \<open>The dictionary knows ALMA only; it is asked with the misspelling ALM.\<close>

theorem quiz_is_fair_witness:
  "\<exists>x qs. make_quiz x [ascii ''ALMA''] 2 (ascii ''mixed'') [] (sconst 0.9) = Some (Inr qs, [], sconst 0.9) \<and> distinct qs \<and> length qs = 2"
proof -
  define x where "x = \<lparr>bulk = (\<lambda>ws. {w \<in> set ws. w = ascii ''ALMA''}), suggest = (\<lambda>w n. []),
    words_version = 0, vocab = vocab_new [], permute = (\<lambda>n r. ([0..<n], r))\<rparr>"
  have b: "bulk x ws = {w \<in> set ws. w = ascii ''ALMA''}" and p: "permute x n r = ([0..<n], r)" and v: "vocab_len (vocab x) = 0" for ws n r
    by (simp_all add: x_def vocab_new_buffer)
  have q: "quiz_word False (ascii ''ALMA'')" by (simp add: quiz_word_def tile_len_def alma_tokens MIN_TILES_def MAX_TILES_def)
  have r: "round_ties_even (INFLECTED_SHARE :: real) = 0" by (simp add: INFLECTED_SHARE_def round_ties_even_def Let_def)
  have m: "mixed_words x [ascii ''ALMA''] False 1 (sconst 0.9) = Some (([ascii ''ALMA''], [ascii ''ALMA'']), sconst 0.9)"
    by (simp add: mixed_words_def high_draws v q r b is_valid_def Let_def)
  have f: "fitting_fake None {} (ascii ''ALM'')" by (simp add: fitting_fake_def alma_tokens alm_tiles MAX_TILES_def del: One_nat_def) (simp add: ascii_def)
  have fb: "fake_batch None mutate (Suc n) [ascii ''ALMA''] {} [] (sconst 0.9) = ([], {ascii ''ALM''}, [ascii ''ALM''], sconst 0.9)" for n
    by (cases n) (simp_all add: alma_fake f)
  have ne: "ascii ''ALM'' \<noteq> ascii ''ALMA''" by (simp add: ascii_def)
  have fr: "fake_rounds x [ascii ''ALMA''] 1 None mutate (Suc (Suc n)) [] {} [] (sconst 0.9) = ([ascii ''ALM''], sconst 0.9)" for n
    using fb [of 3] ne by (simp add: shuffled_def p b Let_def)
  have fw: "fake_words x [ascii ''ALMA''] 1 (sconst 0.9) None mutate = ([ascii ''ALM''], sconst 0.9)"
    using fr [of 198] by (simp add: fake_words_def)
  have modes: "ascii ''mixed'' \<in> set QUIZ_MODES" "ascii ''mixed'' \<noteq> ascii ''tricky''" by (simp_all add: QUIZ_MODES_def ascii_def)
  have run: "make_quiz x [ascii ''ALMA''] 2 (ascii ''mixed'') [] (sconst 0.9) = Some (Inr [ascii ''ALMA'', ascii ''ALM''], [], sconst 0.9)"
    using ne by (simp add: make_quiz_def quiz_length_def modes m [simplified] fw [simplified] shuffled_def p MAX_QUESTIONS_def Let_def)
  have "distinct [ascii ''ALMA'', ascii ''ALM'']"
    using quiz_is_fair [OF run, where good = "\<lambda>w. w = ascii ''ALMA''"] by (simp add: p b cache_ok_def)
  then show ?thesis using run by (intro exI [of _ x] exI [of _ "[ascii ''ALMA'', ascii ''ALM'']"] conjI) simp_all
qed

end
