(* ===== verification/WordReview.thy ===== *)
theory WordReview
  imports Practice DictProps
begin

text \<open>
  The review of words by the users: \<^verbatim>\<open>src/src/words/word_review.rs\<close> and its tables in \<^verbatim>\<open>src/src/db/misc.rs\<close>.
  A row of \<^verbatim>\<open>word_reviews\<close> is a word, a user, the verdict and the second it was given; the SQL of the queries is
  written out over the list of rows. A user id that is in no row of \<^verbatim>\<open>users\<close> violates the foreign key.
\<close>

section \<open>The tables\<close>

record review_row =
  rr_word :: str
  rr_user :: int
  rr_verdict :: bool
  rr_at :: int

record review_db =
  review_rows :: "review_row list"
  review_users :: "int set"
  review_banned :: "int set"
  word_overrides :: "(str \<times> str) list"
  word_additions :: "str list"

definition same_review :: "str \<Rightarrow> int \<Rightarrow> review_row \<Rightarrow> bool" where
  "same_review w uid r \<longleftrightarrow> rr_word r = w \<and> rr_user r = uid"

definition save_word_review :: "int \<Rightarrow> int \<Rightarrow> str \<Rightarrow> bool \<Rightarrow> review_db \<Rightarrow> review_db option" where
  "save_word_review now uid w verdict db =
     (if uid \<notin> review_users db then None
      else Some (db\<lparr>review_rows :=
             (if list_ex (same_review w uid) (review_rows db)
              then map (\<lambda>r. if same_review w uid r then r\<lparr>rr_verdict := verdict, rr_at := now\<rparr> else r) (review_rows db)
              else review_rows db @ [\<lparr>rr_word = w, rr_user = uid, rr_verdict = verdict, rr_at = now\<rparr>])\<rparr>))"

definition delete_word_review :: "int \<Rightarrow> str \<Rightarrow> review_db \<Rightarrow> nat \<times> review_db" where
  "delete_word_review uid w db =
     (length (filter (same_review w uid) (review_rows db)),
      db\<lparr>review_rows := filter (\<lambda>r. \<not> same_review w uid r) (review_rows db)\<rparr>)"

text \<open>The rows whose user may review; the votes for and against a word.\<close>

definition counted :: "review_db \<Rightarrow> review_row list" where
  "counted db = filter (\<lambda>r. rr_user r \<in> review_users db \<and> rr_user r \<notin> review_banned db) (review_rows db)"

definition get_word_review_votes :: "str \<Rightarrow> review_db \<Rightarrow> int \<times> int" where
  "get_word_review_votes w db =
     (let rows = filter (\<lambda>r. rr_word r = w) (counted db)
      in (\<Sum>r\<leftarrow>rows. if rr_verdict r then 1 else 0, \<Sum>r\<leftarrow>rows. if rr_verdict r then 0 else 1))"

definition get_voted_rejected_words :: "int \<Rightarrow> review_db \<Rightarrow> str list" where
  "get_voted_rejected_words thr db =
     filter (\<lambda>w. case get_word_review_votes w db of (good, bad) \<Rightarrow> thr \<le> bad - good) (remdups (map rr_word (counted db)))"

definition get_reviewed_words :: "review_db \<Rightarrow> str set" where
  "get_reviewed_words db = set (map rr_word (review_rows db))"

definition get_admin_word_lists :: "review_db \<Rightarrow> str list \<times> str list \<times> str list" where
  "get_admin_word_lists db =
     (map fst (filter (\<lambda>(_, v). v = ascii ''allow'') (word_overrides db)),
      map fst (filter (\<lambda>(_, v). v = ascii ''reject'') (word_overrides db)), word_additions db)"

text \<open>A day of UTC is the number of its midnight.\<close>

definition get_word_review_stats :: "int \<Rightarrow> int \<Rightarrow> review_db \<Rightarrow> json" where
  "get_word_review_stats now uid db =
     (let rows = filter (\<lambda>r. rr_user r = uid) (review_rows db); good = length (filter rr_verdict rows)
      in JObj [(ascii ''total'', JInt (int (length rows))), (ascii ''valid'', JInt (int good)),
           (ascii ''invalid'', JInt (int (length rows) - int good)),
           (ascii ''today'', JInt (int (length (filter (\<lambda>r. rr_at r div 86400 = now div 86400) rows))))])"

definition is_review_blocked :: "int \<Rightarrow> review_db \<Rightarrow> bool" where
  "is_review_blocked uid db \<longleftrightarrow> uid \<noteq> 0 \<and> uid \<in> review_users db \<and> uid \<in> review_banned db"

section \<open>Votes\<close>

definition BATCH_SIZE :: nat where "BATCH_SIZE = 20"
definition MAX_BATCH :: nat where "MAX_BATCH = 50"
definition REVIEW_INFLECTED_SHARE :: real where "REVIEW_INFLECTED_SHARE = 0.3"
definition MIN_LENGTH :: nat where "MIN_LENGTH = 2"
definition MAX_LENGTH :: nat where "MAX_LENGTH = 15"

record review_state =
  rdb :: review_db
  words_dict :: dict_state

definition refresh :: "dict_files \<Rightarrow> int \<Rightarrow> review_state \<Rightarrow> review_state" where
  "refresh files thr s =
     (let d = set_voted_rejected files (get_voted_rejected_words thr (rdb s)) (words_dict s)
      in case get_admin_word_lists (rdb s) of (allow, reject, adds) \<Rightarrow> s\<lparr>words_dict := set_admin_lists files allow reject adds d\<rparr>)"

definition normalize :: "json \<Rightarrow> str option" where
  "normalize v =
     (case as_str v of
        None \<Rightarrow> None
      | Some s \<Rightarrow>
          let w = to_uppercase (trim s)
          in if \<not> (MIN_LENGTH \<le> length w \<and> length w \<le> MAX_LENGTH) \<or> tokenize_word w = None then None else Some w)"

definition normalize_str :: "str \<Rightarrow> str option" where
  "normalize_str w = normalize (JStr w)"

text \<open>\<^verbatim>\<open>apply\<close> in its two halves: the count in the database, then the mark in the dictionary.\<close>

definition count_votes :: "int \<Rightarrow> str \<Rightarrow> review_db \<Rightarrow> bool" where
  "count_votes thr w db \<longleftrightarrow> (case get_word_review_votes (to_lowercase w) db of (good, bad) \<Rightarrow> thr \<le> bad - good)"

definition mark_votes :: "dict_files \<Rightarrow> str \<Rightarrow> bool \<Rightarrow> review_state \<Rightarrow> review_state" where
  "mark_votes files w rejected s = s\<lparr>words_dict := mark_voted_rejected files w rejected (words_dict s)\<rparr>"

definition apply_votes :: "dict_files \<Rightarrow> int \<Rightarrow> str \<Rightarrow> review_state \<Rightarrow> bool \<times> review_state" where
  "apply_votes files thr w s = (let rejected = count_votes thr w (rdb s) in (rejected, mark_votes files w rejected s))"

text \<open>A vote as far as the database: \<open>None\<close> when there is nothing to vote on.\<close>

definition save_vote :: "dict_files \<Rightarrow> int \<Rightarrow> int \<Rightarrow> str \<Rightarrow> bool \<Rightarrow> review_state \<Rightarrow> str option \<times> review_state" where
  "save_vote files now uid word valid s =
     (case normalize_str word of
        None \<Rightarrow> (None, s)
      | Some w \<Rightarrow>
          (case is_word_valid files w (words_dict s) of (known, d) \<Rightarrow>
             let s1 = s\<lparr>words_dict := d\<rparr>
             in if \<not> known then (None, s1)
                else case save_word_review now uid (to_lowercase w) valid (rdb s) of
                       None \<Rightarrow> (None, s1)
                     | Some db \<Rightarrow> (Some w, s1\<lparr>rdb := db\<rparr>)))"

definition record_vote :: "dict_files \<Rightarrow> int \<Rightarrow> int \<Rightarrow> int \<Rightarrow> str \<Rightarrow> bool \<Rightarrow> review_state \<Rightarrow> bool option \<times> review_state" where
  "record_vote files thr now uid word valid s =
     (case save_vote files now uid word valid s of
        (None, s1) \<Rightarrow> (None, s1)
      | (Some w, s1) \<Rightarrow> (case apply_votes files thr w s1 of (rejected, s2) \<Rightarrow> (Some rejected, s2)))"

definition undo_vote :: "dict_files \<Rightarrow> int \<Rightarrow> int \<Rightarrow> str \<Rightarrow> review_state \<Rightarrow> (bool \<times> bool) \<times> review_state" where
  "undo_vote files thr uid word s =
     (case normalize_str word of
        None \<Rightarrow> ((False, False), s)
      | Some w \<Rightarrow>
          (case delete_word_review uid (to_lowercase w) (rdb s) of (n, db) \<Rightarrow>
             if n = 0 then ((False, False), s\<lparr>rdb := db\<rparr>)
             else case apply_votes files thr w (s\<lparr>rdb := db\<rparr>) of (rejected, s1) \<Rightarrow> ((True, rejected), s1)))"

definition review_stats :: "int \<Rightarrow> int \<Rightarrow> review_db \<Rightarrow> json" where
  "review_stats now uid db = get_word_review_stats now uid db"

section \<open>Words to review\<close>

text \<open>The indices of the words of the vocabulary that are no stems.\<close>

definition word_pools :: "lexis \<Rightarrow> str list \<Rightarrow> nat list" where
  "word_pools x stems = filter (\<lambda>i. vocab_word (vocab x) i \<notin> set stems) [0..<vocab_len (vocab x)]"

text \<open>One sample: the valid words of it, each once, as long as there are too few.\<close>

fun keep_valid :: "nat \<Rightarrow> str set \<Rightarrow> str list \<Rightarrow> str list \<Rightarrow> str set \<Rightarrow> str list \<times> str set" where
  "keep_valid want valid [] found taken = (found, taken)"
| "keep_valid want valid (w # ws) found taken =
     (if w \<in> valid \<and> to_lowercase w \<notin> taken \<and> length found < want
      then keep_valid want valid ws (found @ [w]) (insert (to_lowercase w) taken)
      else keep_valid want valid ws found taken)"

fun draw_rounds :: "lexis \<Rightarrow> nat \<Rightarrow> nat \<Rightarrow> (nat \<Rightarrow> str) \<Rightarrow> nat \<Rightarrow> str list \<Rightarrow> str set \<Rightarrow> rng \<Rightarrow> ((str list \<times> str set) \<times> rng) option" where
  "draw_rounds x 0 sz get want found taken rng = Some ((found, taken), rng)"
| "draw_rounds x (Suc n) sz get want found taken rng =
     (if want \<le> length found then Some ((found, taken), rng)
      else
        case sample_indices rng sz (min sz ((want - length found) * 4 + 8)) of
          None \<Rightarrow> None
        | Some (is, rest) \<Rightarrow>
            let sample = filter (\<lambda>w. to_lowercase w \<notin> taken \<and> MIN_LENGTH \<le> length w \<and> length w \<le> MAX_LENGTH) (map get is)
            in case keep_valid want (bulk x sample) sample found taken of
                 (found', taken') \<Rightarrow> draw_rounds x n sz get want found' taken' rest)"

definition draw_words :: "lexis \<Rightarrow> nat \<Rightarrow> (nat \<Rightarrow> str) \<Rightarrow> nat \<Rightarrow> str set \<Rightarrow> rng \<Rightarrow> ((str list \<times> str set) \<times> rng) option" where
  "draw_words x sz get want taken rng = draw_rounds x 12 sz get want [] taken rng"

definition sample_words :: "lexis \<Rightarrow> str list \<Rightarrow> nat \<Rightarrow> str set \<Rightarrow> rng \<Rightarrow> (str list \<times> rng) option" where
  "sample_words x stems cnt0 exclude rng =
     (let cnt = max 1 cnt0; inflected_count = nat \<lfloor>round_ties_even (real cnt * REVIEW_INFLECTED_SHARE)\<rfloor>; pool = word_pools x stems
      in case draw_words x (length stems) ((!) stems) (cnt - inflected_count) exclude rng of
           None \<Rightarrow> None
         | Some ((words, taken), r1) \<Rightarrow>
             (case draw_words x (length pool) (\<lambda>i. vocab_word (vocab x) (pool ! i)) (cnt - length words) taken r1 of
                None \<Rightarrow> None
              | Some ((others, _), r2) \<Rightarrow> Some (shuffled x (words @ others) r2)))"

definition next_words :: "lexis \<Rightarrow> str list \<Rightarrow> review_db \<Rightarrow> nat \<Rightarrow> rng \<Rightarrow> (str list \<times> rng) option" where
  "next_words x stems db cnt rng = sample_words x stems (max 1 (min MAX_BATCH cnt)) (get_reviewed_words db) rng"

end
