(* ===== verification/ReviewProps.thy ===== *)
theory ReviewProps
  imports WordReview
begin

text \<open>The dictionary follows the votes: what the users voted out is rejected, and nothing else.\<close>

section \<open>Runs\<close>

text \<open>
  The requests of the users, and what the administrators do: every action of theirs that touches the votes, the users,
  the lists or the threshold ends with \<open>refresh\<close>.
\<close>

datatype review_event =
    Voted int int str bool
  | Undone int str
  | Administered review_db int

fun review_step :: "dict_files \<Rightarrow> review_event \<Rightarrow> int \<times> review_state \<Rightarrow> int \<times> review_state" where
  "review_step files (Voted now uid w valid) (thr, s) = (thr, snd (record_vote files thr now uid w valid s))"
| "review_step files (Undone uid w) (thr, s) = (thr, snd (undo_vote files thr uid w s))"
| "review_step files (Administered db thr') (thr, s) = (thr', refresh files thr' (s\<lparr>rdb := db\<rparr>))"

definition lower_rows :: "review_db \<Rightarrow> bool" where
  "lower_rows db \<longleftrightarrow> (\<forall>r\<in>set (review_rows db). to_lowercase (rr_word r) = rr_word r)"

fun proper_event :: "review_event \<Rightarrow> bool" where
  "proper_event (Administered db thr) \<longleftrightarrow> lower_rows db \<and> 1 \<le> thr"
| "proper_event _ \<longleftrightarrow> True"

definition review_start :: "dict_files \<Rightarrow> int \<Rightarrow> review_db \<Rightarrow> int \<times> review_state" where
  "review_start files thr db = (thr, refresh files thr \<lparr>rdb = db, words_dict = dict_start\<rparr>)"

definition reviewed :: "dict_files \<Rightarrow> int \<Rightarrow> review_db \<Rightarrow> review_event list \<Rightarrow> int \<times> review_state" where
  "reviewed files thr db evs = fold (review_step files) evs (review_start files thr db)"

section \<open>Letters and votes\<close>

lemma lower_char_idem: "to_lowercase (lower_char c) = lower_char c"
  by (auto simp: to_lowercase_def lower_char_def)

lemma to_lowercase_idem: "to_lowercase (to_lowercase w) = to_lowercase w"
proof -
  have "to_lowercase (concat ws) = concat (map to_lowercase ws)" for ws
    by (induction ws) (simp_all add: to_lowercase_def)
  then show ?thesis by (simp add: to_lowercase_def [of w] o_def lower_char_idem)
qed

definition voted_out :: "int \<Rightarrow> review_db \<Rightarrow> str set" where
  "voted_out thr db = {w. case get_word_review_votes w db of (good, bad) \<Rightarrow> thr \<le> bad - good}"

lemma voted_out_words: "1 \<le> thr \<Longrightarrow> set (get_voted_rejected_words thr db) = voted_out thr db"
proof -
  assume "1 \<le> thr"
  moreover have "get_word_review_votes w db = (0, 0)" if "w \<notin> rr_word ` set (counted db)" for w
  proof -
    have "filter (\<lambda>r. rr_word r = w) (counted db) = []" using that by (auto simp: filter_empty_conv)
    then show ?thesis by (simp add: get_word_review_votes_def)
  qed
  ultimately show ?thesis by (force simp: get_voted_rejected_words_def voted_out_def)
qed

lemma count_voted_out: "count_votes thr w db \<longleftrightarrow> to_lowercase w \<in> voted_out thr db"
  by (simp add: count_votes_def voted_out_def)

text \<open>Only the votes on the word itself change.\<close>

lemma votes_cong:
  "filter (\<lambda>r. rr_word r = v) (counted db') = filter (\<lambda>r. rr_word r = v) (counted db)
     \<Longrightarrow> get_word_review_votes v db' = get_word_review_votes v db"
  by (simp add: get_word_review_votes_def)

lemma save_other:
  assumes "save_word_review now uid w verdict db = Some db'" "v \<noteq> w"
  shows "get_word_review_votes v db' = get_word_review_votes v db"
proof (rule votes_cong)
  let ?Q = "\<lambda>r. rr_user r \<in> review_users db \<and> rr_user r \<notin> review_banned db"
  have "filter (\<lambda>r. rr_word r = v) (filter ?Q (map (\<lambda>r. if same_review w uid r then r\<lparr>rr_verdict := verdict, rr_at := now\<rparr> else r) rs))
      = filter (\<lambda>r. rr_word r = v) (filter ?Q rs)" for rs
    using assms(2) by (induction rs) (simp_all add: same_review_def)
  moreover have "filter (\<lambda>r. rr_word r = v) (filter ?Q (rs @ [\<lparr>rr_word = w, rr_user = uid, rr_verdict = verdict, rr_at = now\<rparr>]))
      = filter (\<lambda>r. rr_word r = v) (filter ?Q rs)" for rs
    using assms(2) by simp
  ultimately show "filter (\<lambda>r. rr_word r = v) (counted db') = filter (\<lambda>r. rr_word r = v) (counted db)"
    using assms(1) by (auto simp: save_word_review_def counted_def simp del: filter_filter split: if_splits)
qed

lemma delete_other: "v \<noteq> w \<Longrightarrow> get_word_review_votes v (snd (delete_word_review uid w db)) = get_word_review_votes v db"
proof (rule votes_cong)
  assume "v \<noteq> w"
  then have "filter (\<lambda>r. rr_word r = v) (filter P (filter (\<lambda>r. \<not> same_review w uid r) rs)) = filter (\<lambda>r. rr_word r = v) (filter P rs)" for rs P
    by (induction rs) (auto simp: same_review_def)
  then show "filter (\<lambda>r. rr_word r = v) (counted (snd (delete_word_review uid w db))) = filter (\<lambda>r. rr_word r = v) (counted db)"
    by (simp add: delete_word_review_def counted_def del: filter_filter)
qed

section \<open>The invariant\<close>

definition review_ok :: "int \<Rightarrow> review_state \<Rightarrow> bool" where
  "review_ok thr s \<longleftrightarrow> 1 \<le> thr \<and> lower_rows (rdb s) \<and> init_attempted (words_dict s) \<and> dict_ok (words_dict s)
     \<and> rejected_voted (lists (words_dict s)) = voted_out thr (rdb s)"

lemma refresh_ok:
  assumes "1 \<le> thr" "lower_rows (rdb s)"
  shows "review_ok thr (refresh files thr s)"
proof -
  have "to_lowercase ` set (get_voted_rejected_words thr (rdb s)) = set (get_voted_rejected_words thr (rdb s))"
  proof -
    have "to_lowercase w = w" if "w \<in> set (get_voted_rejected_words thr (rdb s))" for w
      using that assms(2) by (auto simp: get_voted_rejected_words_def counted_def lower_rows_def)
    then show ?thesis by (simp add: image_def)
  qed
  then show ?thesis
    using assms voted_out_words [OF assms(1), of "rdb s"]
    by (simp add: review_ok_def refresh_def Let_def set_admin_lists_def set_voted_rejected_def bump_def ensure_init_def init_checker_def
        dict_ok_emptyI split: prod.split)
qed

lemma apply_ok:
  assumes "1 \<le> thr" "lower_rows (rdb s)" "init_attempted (words_dict s)" "dict_ok (words_dict s)"
    and "\<And>v. v \<noteq> to_lowercase w \<Longrightarrow> v \<in> rejected_voted (lists (words_dict s)) \<longleftrightarrow> v \<in> voted_out thr (rdb s)"
  shows "review_ok thr (snd (apply_votes files thr w s))"
proof -
  have "rejected_voted (lists (mark_voted_rejected files w (count_votes thr w (rdb s)) (words_dict s))) = voted_out thr (rdb s)"
  proof (rule set_eqI)
    fix v
    show "v \<in> rejected_voted (lists (mark_voted_rejected files w (count_votes thr w (rdb s)) (words_dict s))) \<longleftrightarrow> v \<in> voted_out thr (rdb s)"
      using assms(3) assms(5) [of v] by (cases "v = to_lowercase w") (auto simp: mark_voted_rejected_def ensure_init_def Let_def bump_def count_voted_out)
  qed
  moreover have "init_attempted (mark_voted_rejected files w b (words_dict s))" for b
    using assms(3) by (simp add: mark_voted_rejected_def ensure_init_def Let_def bump_def)
  ultimately show ?thesis using assms(1,2,4) by (simp add: review_ok_def apply_votes_def mark_votes_def Let_def dict_ok_mark)
qed

lemma voted_out_other: "get_word_review_votes v db' = get_word_review_votes v db \<Longrightarrow> v \<in> voted_out thr db' \<longleftrightarrow> v \<in> voted_out thr db"
  by (simp add: voted_out_def)

lemma save_lower:
  "save_word_review now uid (to_lowercase w) verdict db = Some db' \<Longrightarrow> lower_rows db \<Longrightarrow> lower_rows db'"
  by (auto simp: save_word_review_def lower_rows_def to_lowercase_idem split: if_splits)

lemma valid_keeps:
  assumes "init_attempted st"
  shows "lists (snd (is_word_valid files w st)) = lists st" "init_attempted (snd (is_word_valid files w st))"
  using assms by (auto simp: is_word_valid_def filter_valid_def filter_store_def Let_def split: prod.split)

lemma record_ok:
  assumes "review_ok thr s"
  shows "review_ok thr (snd (record_vote files thr now uid word valid s))"
proof -
  have s: "1 \<le> thr" "lower_rows (rdb s)" "init_attempted (words_dict s)" "dict_ok (words_dict s)"
    "rejected_voted (lists (words_dict s)) = voted_out thr (rdb s)" using assms by (simp_all add: review_ok_def)
  have d: "dict_ok (snd (is_word_valid files w (words_dict s)))" for w
    using dict_ok_filter_valid [OF s(4), of files "[w]"] by (cases "filter_valid files [w] (words_dict s)") (simp add: is_word_valid_def)
  note k = valid_keeps [OF s(3), of files]
  show ?thesis
  proof (cases "save_vote files now uid word valid s")
    case (Pair r s1)
    have kept: "review_ok thr (s\<lparr>words_dict := snd (is_word_valid files w (words_dict s))\<rparr>)" for w
      using s k d by (simp add: review_ok_def)
    show ?thesis
    proof (cases r)
      case None
      then have "s1 = s \<or> (\<exists>w. s1 = s\<lparr>words_dict := snd (is_word_valid files w (words_dict s))\<rparr>)"
        using Pair by (auto simp: save_vote_def Let_def split: option.splits prod.splits if_splits) (metis snd_conv)+
      then show ?thesis using None Pair assms kept by (auto simp: record_vote_def)
    next
      case (Some w)
      then obtain db where db: "save_word_review now uid (to_lowercase w) valid (rdb s) = Some db"
        and s1: "s1 = s\<lparr>words_dict := snd (is_word_valid files w (words_dict s)), rdb := db\<rparr>"
        using Pair by (auto simp: save_vote_def Let_def split: option.splits prod.splits if_splits)
      have "review_ok thr (snd (apply_votes files thr w s1))"
        using s k d save_lower [OF db] voted_out_other [OF save_other [OF db]]
        by (intro apply_ok) (simp_all add: s1)
      then show ?thesis using Pair Some by (cases "apply_votes files thr w s1") (simp add: record_vote_def)
    qed
  qed
qed

lemma undo_ok:
  assumes "review_ok thr s"
  shows "review_ok thr (snd (undo_vote files thr uid word s))"
proof (cases "normalize_str word")
  case None
  then show ?thesis using assms by (simp add: undo_vote_def)
next
  case (Some w)
  have s: "1 \<le> thr" "lower_rows (rdb s)" "init_attempted (words_dict s)" "dict_ok (words_dict s)"
    "rejected_voted (lists (words_dict s)) = voted_out thr (rdb s)" using assms by (simp_all add: review_ok_def)
  obtain n db where d: "delete_word_review uid (to_lowercase w) (rdb s) = (n, db)" by (metis surj_pair)
  show ?thesis
  proof (cases "n = 0")
    case True
    then have "db = rdb s" using d by (auto simp: delete_word_review_def filter_empty_conv filter_id_conv)
    then show ?thesis using True assms Some d by (simp add: undo_vote_def)
  next
    case False
    have low: "lower_rows db" using d s(2) by (auto simp: delete_word_review_def lower_rows_def)
    have other: "get_word_review_votes v db = get_word_review_votes v (rdb s)" if "v \<noteq> to_lowercase w" for v
      using delete_other [OF that, of uid "rdb s"] d by simp
    have "review_ok thr (snd (apply_votes files thr w (s\<lparr>rdb := db\<rparr>)))"
    proof (intro apply_ok)
      fix v assume "v \<noteq> to_lowercase w"
      then have "get_word_review_votes v db = get_word_review_votes v (rdb s)" by (rule other)
      then show "v \<in> rejected_voted (lists (words_dict (s\<lparr>rdb := db\<rparr>))) \<longleftrightarrow> v \<in> voted_out thr (rdb (s\<lparr>rdb := db\<rparr>))"
        using s(5) by (simp add: voted_out_def)
    qed (use s low in simp_all)
    then show ?thesis using False Some d by (cases "apply_votes files thr w (s\<lparr>rdb := db\<rparr>)") (simp add: undo_vote_def)
  qed
qed

definition review_moves :: "dict_files \<Rightarrow> int \<times> review_state \<Rightarrow> review_event \<Rightarrow> int \<times> review_state \<Rightarrow> bool" where
  "review_moves files s ev s' \<longleftrightarrow> proper_event ev \<and> s' = review_step files ev s"

interpretation reviews: invariant_system "review_moves files" "\<lambda>s. review_ok (fst s) (snd s)" for files
proof
  fix s s' :: "int \<times> review_state" and ev
  assume m: "review_moves files s ev s'" and ok: "review_ok (fst s) (snd s)"
  obtain thr r where s: "s = (thr, r)" by (cases s)
  show "review_ok (fst s') (snd s')"
  proof (cases ev)
    case (Voted now uid w valid)
    then have "s' = (thr, snd (record_vote files thr now uid w valid r))" using m s by (simp add: review_moves_def)
    then show ?thesis using record_ok ok s by simp
  next
    case (Undone uid w)
    then have "s' = (thr, snd (undo_vote files thr uid w r))" using m s by (simp add: review_moves_def)
    then show ?thesis using undo_ok ok s by simp
  next
    case (Administered db thr')
    then have "s' = (thr', refresh files thr' (r\<lparr>rdb := db\<rparr>))" "lower_rows db" "1 \<le> thr'" using m s by (simp_all add: review_moves_def)
    then show ?thesis using refresh_ok [of thr' "r\<lparr>rdb := db\<rparr>" files] by simp
  qed
qed

lemma reviewed_run:
  "\<forall>ev\<in>set evs. proper_event ev \<Longrightarrow> steps (review_moves files) (review_start files thr db) evs (reviewed files thr db evs)"
proof (induction evs rule: rev_induct)
  case Nil
  show ?case by (simp add: reviewed_def steps.run_nil)
next
  case (snoc ev evs)
  then have "steps (review_moves files) (review_start files thr db) evs (reviewed files thr db evs)" by simp
  then show ?case by (rule steps.run_snoc) (use snoc.prems in \<open>simp add: review_moves_def reviewed_def\<close>)
qed

lemma reviewed_ok:
  assumes "1 \<le> thr" "lower_rows db" "\<forall>ev\<in>set evs. proper_event ev"
  shows "review_ok (fst (reviewed files thr db evs)) (snd (reviewed files thr db evs))"
  using reviews.inv_run [OF reviewed_run [OF assms(3)]] refresh_ok [OF assms(1), of "\<lparr>rdb = db, words_dict = dict_start\<rparr>" files] assms(2)
  by (simp add: review_start_def)

text \<open>
  C22. The dictionary follows the votes. After any sequence of votes, withdrawn votes and actions of the administrators, the
  words rejected by vote are exactly those with at least the threshold more votes against them than for them (votes of
  blocked users do not count), and none of them is valid, in the bulk check with its cache as well, unless an
  administrator allows it.
\<close>

theorem dictionary_follows_votes:
  assumes "1 \<le> thr" "lower_rows db" "\<forall>ev\<in>set evs. proper_event ev" "reviewed files thr db evs = (thr', s)"
  shows "(to_lowercase w \<in> rejected_voted (lists (words_dict s)) \<longleftrightarrow>
      (case get_word_review_votes (to_lowercase w) (rdb s) of (good, bad) \<Rightarrow> thr' \<le> bad - good))
    \<and> (dict_checker (words_dict s) \<noteq> None \<and> to_lowercase w \<in> rejected_voted (lists (words_dict s))
         \<and> to_lowercase w \<notin> override_allow (lists (words_dict s)) \<longrightarrow> \<not> fst (is_word_valid files w (words_dict s)))"
proof -
  have ok: "review_ok thr' s" using reviewed_ok [OF assms(1-3), of files] assms(4) by simp
  then have v: "rejected_voted (lists (words_dict s)) = voted_out thr' (rdb s)" and i: "init_attempted (words_dict s)"
    and d: "dict_ok (words_dict s)" by (simp_all add: review_ok_def)
  have "fst (is_word_valid files w (words_dict s)) \<longleftrightarrow> word_ok (words_dict s) w"
    using filter_valid_iff [OF d, of files "[w]"] i by (cases "filter_valid files [w] (words_dict s)") (simp add: is_word_valid_def)
  then show ?thesis using lookup_voted [of "words_dict s" "to_lowercase w"] v by (auto simp: word_ok_def voted_out_def)
qed

text \<open>A single vote against ALMA rejects it; an administrator who blocks the voter readmits it.\<close>

definition demo_reviews :: "int set \<Rightarrow> review_db" where
  "demo_reviews banned = \<lparr>review_rows = [\<lparr>rr_word = ascii ''alma'', rr_user = 1, rr_verdict = False, rr_at = 0\<rparr>],
     review_users = {1}, review_banned = banned, word_overrides = [], word_additions = []\<rparr>"

theorem dictionary_follows_votes_witness:
  "to_lowercase (ascii ''ALMA'') \<in> rejected_voted (lists (words_dict (snd (reviewed demo_files 1 (demo_reviews {}) []))))
   \<and> to_lowercase (ascii ''ALMA'') \<notin> rejected_voted (lists (words_dict (snd (reviewed demo_files 1 (demo_reviews {}) [Administered (demo_reviews {1}) 1]))))"
proof -
  have w: "to_lowercase (ascii ''ALMA'') = ascii ''alma''" "to_lowercase (ascii ''alma'') = ascii ''alma''" by code_simp+
  have low: "lower_rows (demo_reviews b)" for b by (simp add: lower_rows_def demo_reviews_def w)
  have r: "rdb (snd (reviewed demo_files 1 (demo_reviews {}) [])) = demo_reviews {}"
    "rdb (snd (reviewed demo_files 1 (demo_reviews {}) [Administered (demo_reviews {1}) 1])) = demo_reviews {1}"
    by (simp_all add: reviewed_def review_start_def refresh_def get_admin_word_lists_def)
  have t: "fst (reviewed demo_files 1 (demo_reviews {}) []) = 1" "fst (reviewed demo_files 1 (demo_reviews {}) [Administered (demo_reviews {1}) 1]) = 1"
    by (simp_all add: reviewed_def review_start_def)
  have v: "get_word_review_votes (ascii ''alma'') (demo_reviews {}) = (0, 1)" "get_word_review_votes (ascii ''alma'') (demo_reviews {1}) = (0, 0)"
    by (simp_all add: get_word_review_votes_def counted_def demo_reviews_def Let_def)
  show ?thesis
    using dictionary_follows_votes [of 1 "demo_reviews {}" "[]" demo_files
        "fst (reviewed demo_files 1 (demo_reviews {}) [])" "snd (reviewed demo_files 1 (demo_reviews {}) [])" "ascii ''ALMA''"]
      dictionary_follows_votes [of 1 "demo_reviews {}" "[Administered (demo_reviews {1}) 1]" demo_files
        "fst (reviewed demo_files 1 (demo_reviews {}) [Administered (demo_reviews {1}) 1])" "snd (reviewed demo_files 1 (demo_reviews {}) [Administered (demo_reviews {1}) 1])" "ascii ''ALMA''"]
    by (simp add: r t v w low prod_eq_iff)
qed

section \<open>Two votes at once\<close>

text \<open>
  The count of one vote and its mark are not one step: a vote that counted before another one was saved and marks after
  it readmits a word that the votes reject.
\<close>

lemma stale_count_readmits_word:
  assumes "init_attempted (words_dict s)" "normalize_str word = Some w" "record_vote files thr now uid word False s = (Some True, s1)"
  shows "count_votes thr w (rdb (mark_votes files w False s1))
    \<and> to_lowercase w \<notin> rejected_voted (lists (words_dict (mark_votes files w False s1)))"
proof -
  obtain s0 where s0: "save_vote files now uid word False s = (Some w, s0)" "s1 = snd (apply_votes files thr w s0)" "count_votes thr w (rdb s0)"
    using assms(2,3) by (auto simp: record_vote_def save_vote_def apply_votes_def Let_def split: option.splits prod.splits if_splits)
  have i: "init_attempted (words_dict s0)"
    using s0(1) assms(1,2) valid_keeps(2) [OF assms(1), of files w] by (auto simp: save_vote_def Let_def split: option.splits prod.splits if_splits)
  then have "init_attempted (words_dict s1)" "rdb s1 = rdb s0"
    by (simp_all add: s0(2) apply_votes_def mark_votes_def mark_voted_rejected_def Let_def bump_def)
  then show ?thesis using s0(3) by (auto simp: mark_votes_def mark_voted_rejected_def Let_def bump_def)
qed

end
