(* ===== verification/HttpWords.thy ===== *)
theory HttpWords
  imports WordReview RateLimit
begin

text \<open>
  The HTTP endpoints of the practice modes, the word review and the dictionary tool
  (\<^verbatim>\<open>src/src/server/http.rs\<close>). A request is its address, the user of its session, its query and the object of its
  body (\<^verbatim>\<open>json_object\<close>); a response is the status and the JSON. The words of a request are judged by the dictionary
  as it is when the request starts (what the bulk check adds to its cache changes no verdict).
\<close>

section \<open>Requests and responses\<close>

type_synonym response = "nat \<times> json"

record request =
  rq_ip :: str
  rq_user :: "int option"
  rq_query :: "(str \<times> str) list"
  rq_data :: json

record desk =
  limiter :: rate_limiter
  features :: "str \<Rightarrow> bool"
  usage_counters :: "((int \<times> str) \<times> int) list"
  desk_review :: review_state
  desk_threshold :: int
  short_lists :: short_cache

definition http_ok :: "json \<Rightarrow> response" where
  "http_ok v = (200, v)"

definition http_fail :: "nat \<Rightarrow> str \<Rightarrow> response" where
  "http_fail status message = (status, JObj [(ascii ''success'', JBool False), (ascii ''message'', JStr message)])"

text \<open>\<^verbatim>\<open>insert\<close> of a map that keeps the order: a new key goes to the end.\<close>

definition json_insert :: "str \<times> json \<Rightarrow> (str \<times> json) list \<Rightarrow> (str \<times> json) list" where
  "json_insert kv kvs = AList.update (fst kv) (snd kv) kvs"

definition success_with :: "json \<Rightarrow> response" where
  "success_with extra =
     http_ok (JObj (fold json_insert (case as_object extra of Some kvs \<Rightarrow> kvs | None \<Rightarrow> []) [(ascii ''success'', JBool True)]))"

definition too_many :: response where "too_many = http_fail 429 (hu ''T~ul sok k~er~es. Pr~ob~ald ~ujra k~es&obb.'')"
definition unauthorized :: response where "unauthorized = http_fail 401 (hu ''Bejelentkez~es sz^uks~eges.'')"
definition no_session :: response where "no_session = http_fail 401 (hu ''Nincs ~erv~enyes session.'')"
definition feature_disabled :: response where "feature_disabled = http_fail 503 (hu ''Ez a funkci~o jelenleg ki van kapcsolva.'')"
definition no_dictionary :: response where "no_dictionary = http_fail 503 (hu ''A sz~ot~ar nem ~erhet&o el.'')"

definition int_arg :: "request \<Rightarrow> str \<Rightarrow> int option option" where
  "int_arg rq k = map_option (\<lambda>v. parse_i64 (trim v)) (map_of (rq_query rq) k)"

text \<open>A number of the query: the default when it is missing or no number.\<close>

definition arg_or :: "int \<Rightarrow> int option option \<Rightarrow> int" where
  "arg_or d a = (case a of Some (Some n) \<Rightarrow> n | _ \<Rightarrow> d)"

definition tiles_json_of :: "str \<Rightarrow> json" where
  "tiles_json_of w = (case tokenize_word w of Some ts \<Rightarrow> JArr (map (\<lambda>t. JStr (letter_of t)) ts) | None \<Rightarrow> JNull)"

definition ip_check :: "real \<Rightarrow> str \<Rightarrow> str \<Rightarrow> desk \<Rightarrow> bool \<times> desk" where
  "ip_check now ip act s = (case check_ip now ip act (limiter s) of (allowed, l) \<Rightarrow> (allowed, s\<lparr>limiter := l\<rparr>))"

definition bump_counter :: "real \<Rightarrow> str \<Rightarrow> int \<Rightarrow> desk \<Rightarrow> desk" where
  "bump_counter now key amount s =
     (let k = (\<lfloor>now\<rfloor> div 86400, key)
      in s\<lparr>usage_counters := AList.update k (case map_of (usage_counters s) k of Some n \<Rightarrow> n + amount | None \<Rightarrow> amount) (usage_counters s)\<rparr>)"

definition dict_of :: "desk \<Rightarrow> dict_state" where
  "dict_of s = words_dict (desk_review s)"

definition put_dict :: "dict_state \<Rightarrow> desk \<Rightarrow> desk" where
  "put_dict d s = s\<lparr>desk_review := (desk_review s)\<lparr>words_dict := d\<rparr>\<rparr>"

definition dictionary_ready :: "dict_files \<Rightarrow> desk \<Rightarrow> bool \<times> desk" where
  "dictionary_ready files s = (case is_available files (dict_of s) of (ready, d) \<Rightarrow> (ready, put_dict d s))"

text \<open>What the practice modes ask.\<close>

definition lexis_of :: "dict_files \<Rightarrow> vocabulary \<Rightarrow> (nat \<Rightarrow> rng \<Rightarrow> nat list \<times> rng) \<Rightarrow> dict_state \<Rightarrow> lexis" where
  "lexis_of files v perm d =
     \<lparr>bulk = (\<lambda>ws. fst (filter_valid files ws d)), suggest = (\<lambda>w n. fst (suggest_words files w n d)),
      words_version = fst (rejected_version files d), vocab = v, permute = perm\<rparr>"

record hall =
  hall_files :: dict_files
  hall_vocab :: vocabulary
  hall_permute :: "nat \<Rightarrow> rng \<Rightarrow> nat list \<times> rng"

definition lexis_now :: "hall \<Rightarrow> desk \<Rightarrow> lexis" where
  "lexis_now h s = lexis_of (hall_files h) (hall_vocab h) (hall_permute h) (dict_of s)"

definition stems_now :: "hall \<Rightarrow> desk \<Rightarrow> str list" where
  "stems_now h s = stem_words (dict_checker (dict_of s))"

section \<open>Practice\<close>

definition practice_guard :: "hall \<Rightarrow> real \<Rightarrow> request \<Rightarrow> str \<Rightarrow> desk \<Rightarrow> response option \<times> desk" where
  "practice_guard h now rq counter s =
     (if \<not> features s (ascii ''feature_practice'') then (Some feature_disabled, s)
      else case ip_check now (rq_ip rq) (ascii ''practice'') s of (allowed, s1) \<Rightarrow>
        if \<not> allowed then (Some too_many, s1)
        else case dictionary_ready (hall_files h) s1 of (ready, s2) \<Rightarrow>
          if \<not> ready then (Some no_dictionary, s2) else (None, bump_counter now counter 1 s2))"

definition query_or :: "request \<Rightarrow> str \<Rightarrow> str \<Rightarrow> str" where
  "query_or rq k d = (case map_of (rq_query rq) k of Some v \<Rightarrow> v | None \<Rightarrow> d)"

definition practice_quiz :: "hall \<Rightarrow> real \<Rightarrow> request \<Rightarrow> rng \<Rightarrow> desk \<Rightarrow> (response \<times> desk \<times> rng) option" where
  "practice_quiz h now rq rng s =
     (let mode = query_or rq (ascii ''mode'') (ascii ''mixed'')
      in if mode \<notin> set QUIZ_MODES then Some (http_fail 400 (hu ''~Erv~enytelen kv~izm~od.''), s, rng)
         else case practice_guard h now rq (ascii ''quiz'') s of
                (Some blocked, s1) \<Rightarrow> Some (blocked, s1, rng)
              | (None, s1) \<Rightarrow>
                  let cnt = arg_or (int QUESTION_COUNT) (int_arg rq (ascii ''n''))
                  in (case make_quiz (lexis_now h s1) (stems_now h s1) (nat (max 0 cnt)) mode (short_lists s1) rng of
                        None \<Rightarrow> None
                      | Some (Inl _, cache, rest) \<Rightarrow> Some (no_dictionary, s1\<lparr>short_lists := cache\<rparr>, rest)
                      | Some (Inr qs, cache, rest) \<Rightarrow>
                          Some (http_ok (JObj [(ascii ''success'', JBool True), (ascii ''mode'', JStr mode),
                                  (ascii ''questions'', JArr (map JStr qs)), (ascii ''tiles'', JArr (map tiles_json_of qs))]),
                                s1\<lparr>short_lists := cache\<rparr>, rest)))"

definition practice_answer :: "hall \<Rightarrow> real \<Rightarrow> request \<Rightarrow> desk \<Rightarrow> response \<times> desk" where
  "practice_answer h now rq s =
     (case (jget (rq_data rq) (ascii ''word'') \<bind> as_str, jget (rq_data rq) (ascii ''answer'')) of
        (Some word, Some (JBool answer)) \<Rightarrow>
          (case practice_guard h now rq (ascii ''answer'') s of
             (Some blocked, s1) \<Rightarrow> (blocked, s1)
           | (None, s1) \<Rightarrow>
               (case check_answer (lexis_now h s1) word answer of
                  Some result \<Rightarrow> (success_with result, s1)
                | None \<Rightarrow> (http_fail 400 (hu ''~Erv~enytelen sz~o.''), s1)))
      | _ \<Rightarrow> (http_fail 400 (hu ''~Erv~enytelen k~er~es.''), s))"

definition practice_short_words :: "hall \<Rightarrow> real \<Rightarrow> request \<Rightarrow> desk \<Rightarrow> response \<times> desk" where
  "practice_short_words h now rq s =
     (let len = (case int_arg rq (ascii ''length'') of Some (Some n) \<Rightarrow> n | Some None \<Rightarrow> 0 | None \<Rightarrow> 2)
      in if len \<notin> int ` set SHORT_LENGTHS then (http_fail 400 (hu ''~Erv~enytelen sz~ohossz.''), s)
         else case practice_guard h now rq (ascii ''short_words'') s of
                (Some blocked, s1) \<Rightarrow> (blocked, s1)
              | (None, s1) \<Rightarrow>
                  (case short_words (lexis_now h s1) (nat len) (short_lists s1) of (words, cache) \<Rightarrow>
                     (http_ok (JObj [(ascii ''success'', JBool True), (ascii ''length'', JInt len), (ascii ''words'', JArr words)]),
                      s1\<lparr>short_lists := cache\<rparr>)))"

definition practice_rack :: "hall \<Rightarrow> real \<Rightarrow> request \<Rightarrow> rng \<Rightarrow> desk \<Rightarrow> (response \<times> desk \<times> rng) option" where
  "practice_rack h now rq rng s =
     (let kind = query_or rq (ascii ''kind'') (ascii ''hunt'')
      in if kind \<notin> set RACK_KINDS then Some (http_fail 400 (hu ''~Erv~enytelen gyakorl~as.''), s, rng)
         else case practice_guard h now rq (ascii ''rack'') s of
                (Some blocked, s1) \<Rightarrow> Some (blocked, s1, rng)
              | (None, s1) \<Rightarrow>
                  map_option (\<lambda>(made, rest). (case made of Inr rack \<Rightarrow> success_with rack | Inl _ \<Rightarrow> no_dictionary, s1, rest))
                    (make_rack (lexis_now h s1) (stems_now h s1) kind rng))"

text \<open>The tiles of the message: one to seven letters of the set.\<close>

definition rack_tile :: "json \<Rightarrow> str option" where
  "rack_tile v = (case as_str v of
     Some t \<Rightarrow> (case from_str t of Some tile \<Rightarrow> if tile_is_blank tile then None else Some t | None \<Rightarrow> None) | None \<Rightarrow> None)"

definition message_rack :: "json \<Rightarrow> str list option" where
  "message_rack data =
     (case jget data (ascii ''rack'') \<bind> as_array of
        None \<Rightarrow> None
      | Some list \<Rightarrow>
          if \<not> (1 \<le> length list \<and> length list \<le> RACK_SIZE) then None
          else if list_all (\<lambda>v. rack_tile v \<noteq> None) list then Some (map (the \<circ> rack_tile) list) else None)"

definition practice_rack_word :: "hall \<Rightarrow> real \<Rightarrow> request \<Rightarrow> desk \<Rightarrow> response \<times> desk" where
  "practice_rack_word h now rq s =
     (case (message_rack (rq_data rq), jget (rq_data rq) (ascii ''word'') \<bind> as_str) of
        (Some rack, Some word) \<Rightarrow>
          (case practice_guard h now rq (ascii ''rack_word'') s of
             (Some blocked, s1) \<Rightarrow> (blocked, s1)
           | (None, s1) \<Rightarrow> (success_with (check_rack_word (lexis_now h s1) rack word), s1))
      | _ \<Rightarrow> (http_fail 400 (hu ''~Erv~enytelen k~er~es.''), s))"

section \<open>Word review\<close>

definition word_review_user :: "hall \<Rightarrow> real \<Rightarrow> request \<Rightarrow> desk \<Rightarrow> (response + int) \<times> desk" where
  "word_review_user h now rq s =
     (case rq_user rq of
        None \<Rightarrow> (Inl unauthorized, s)
      | Some uid \<Rightarrow>
          if \<not> features s (ascii ''feature_word_review'') then (Inl feature_disabled, s)
          else if is_review_blocked uid (rdb (desk_review s))
          then (Inl (http_fail 403 (hu ''A sz~ot~ar-~ep~it&o haszn~alata le van tiltva a fi~okodn~al.'')), s)
          else case ip_check now (rq_ip rq) (ascii ''word_review'') s of (allowed, s1) \<Rightarrow>
            if \<not> allowed then (Inl too_many, s1)
            else case dictionary_ready (hall_files h) s1 of (ready, s2) \<Rightarrow>
              if \<not> ready then (Inl no_dictionary, s2) else (Inr uid, s2))"

definition stats_now :: "real \<Rightarrow> int \<Rightarrow> desk \<Rightarrow> json" where
  "stats_now now uid s = review_stats \<lfloor>now\<rfloor> uid (rdb (desk_review s))"

definition word_review_next :: "hall \<Rightarrow> real \<Rightarrow> request \<Rightarrow> rng \<Rightarrow> desk \<Rightarrow> (response \<times> desk \<times> rng) option" where
  "word_review_next h now rq rng s =
     (case word_review_user h now rq s of
        (Inl response, s1) \<Rightarrow> Some (response, s1, rng)
      | (Inr uid, s1) \<Rightarrow>
          let cnt = arg_or (int BATCH_SIZE) (int_arg rq (ascii ''n''))
          in map_option (\<lambda>(words, rest).
               let s2 = bump_counter now (ascii ''word_review'') 1 s1
               in (http_ok (JObj [(ascii ''success'', JBool True), (ascii ''words'', JArr (map JStr words)),
                     (ascii ''tiles'', JArr (map tiles_json_of words)), (ascii ''stats'', stats_now now uid s2)]), s2, rest))
               (next_words (lexis_now h s1) (stems_now h s1) (rdb (desk_review s1)) (nat (max 1 cnt)) rng))"

definition vote_json :: "str \<Rightarrow> bool \<Rightarrow> json \<Rightarrow> json" where
  "vote_json w rejected stats =
     JObj [(ascii ''success'', JBool True), (ascii ''word'', JStr w), (ascii ''rejected'', JBool rejected), (ascii ''stats'', stats)]"

definition word_review_vote :: "hall \<Rightarrow> real \<Rightarrow> request \<Rightarrow> desk \<Rightarrow> response \<times> desk" where
  "word_review_vote h now rq s =
     (case word_review_user h now rq s of
        (Inl response, s1) \<Rightarrow> (response, s1)
      | (Inr uid, s1) \<Rightarrow>
          (case (jget (rq_data rq) (ascii ''word'') \<bind> normalize, jget (rq_data rq) (ascii ''valid'')) of
             (Some w, Some (JBool valid)) \<Rightarrow>
               (case record_vote (hall_files h) (desk_threshold s1) \<lfloor>now\<rfloor> uid w valid (desk_review s1) of (rejected, r) \<Rightarrow>
                  let s2 = bump_counter now (ascii ''word_review_vote'') 1 (s1\<lparr>desk_review := r\<rparr>)
                  in (case rejected of
                        None \<Rightarrow> (http_fail 409 (hu ''Ez a sz~o m~ar nincs a sz~ot~arban.''), s2)
                      | Some b \<Rightarrow> (http_ok (vote_json w b (stats_now now uid s2)), s2)))
           | _ \<Rightarrow> (http_fail 400 (hu ''~Erv~enytelen k~er~es.''), s1)))"

definition word_review_undo :: "hall \<Rightarrow> real \<Rightarrow> request \<Rightarrow> desk \<Rightarrow> response \<times> desk" where
  "word_review_undo h now rq s =
     (case word_review_user h now rq s of
        (Inl response, s1) \<Rightarrow> (response, s1)
      | (Inr uid, s1) \<Rightarrow>
          (case jget (rq_data rq) (ascii ''word'') \<bind> normalize of
             Some w \<Rightarrow>
               (case undo_vote (hall_files h) (desk_threshold s1) uid w (desk_review s1) of ((done, rejected), r) \<Rightarrow>
                  let s2 = s1\<lparr>desk_review := r\<rparr>
                  in if \<not> done then (http_fail 404 (hu ''Nincs mit visszavonni.''), s2)
                     else (http_ok (vote_json w rejected (stats_now now uid s2)), s2))
           | None \<Rightarrow> (http_fail 400 (hu ''~Erv~enytelen k~er~es.''), s1)))"

definition word_review_stats :: "hall \<Rightarrow> real \<Rightarrow> request \<Rightarrow> desk \<Rightarrow> response \<times> desk" where
  "word_review_stats h now rq s =
     (case word_review_user h now rq s of
        (Inl response, s1) \<Rightarrow> (response, s1)
      | (Inr uid, s1) \<Rightarrow> (http_ok (JObj [(ascii ''success'', JBool True), (ascii ''stats'', stats_now now uid s1)]), s1))"

section \<open>The dictionary tool\<close>

definition MAX_DICT_WORDS :: nat where "MAX_DICT_WORDS = 8"
definition MAX_SUGGESTION_WORDS :: nat where "MAX_SUGGESTION_WORDS = 3"

text \<open>The text of a number in a list of words; how a float is written is a parameter.\<close>

fun listed_word :: "(real \<Rightarrow> str) \<Rightarrow> json \<Rightarrow> str option" where
  "listed_word float_text (JStr s) = Some s"
| "listed_word float_text (JInt n) = Some (show_int n)"
| "listed_word float_text (JFloat r) = Some (float_text r)"
| "listed_word _ _ = None"

definition posted_words :: "(real \<Rightarrow> str) \<Rightarrow> json \<Rightarrow> str" where
  "posted_words float_text data =
     (case (case jget data (ascii ''words'') of Some v \<Rightarrow> Some v | None \<Rightarrow> jget data (ascii ''q'')) of
        Some (JArr list) \<Rightarrow> join [32] (List.map_filter (listed_word float_text) list)
      | Some (JStr s) \<Rightarrow> s
      | _ \<Rightarrow> [])"

definition is_separator :: "nat \<Rightarrow> bool" where
  "is_separator c \<longleftrightarrow> is_whitespace c \<or> c = 44 \<or> c = 59"

text \<open>\<^verbatim>\<open>str::split\<close> at every separator, empty pieces included.\<close>

fun split_at_seps :: "str \<Rightarrow> str \<Rightarrow> str list" where
  "split_at_seps piece [] = [piece]"
| "split_at_seps piece (c # cs) = (if is_separator c then piece # split_at_seps [] cs else split_at_seps (piece @ [c]) cs)"

definition add_word :: "str \<Rightarrow> str list \<Rightarrow> str list" where
  "add_word token words =
     (let t = trim token in if t \<noteq> [] \<and> \<not> list_ex (\<lambda>w. to_uppercase w = to_uppercase t) words then words @ [t] else words)"

definition asked_words :: "str \<Rightarrow> str list" where
  "asked_words raw = take MAX_DICT_WORDS (fold add_word (split_at_seps [] (take 300 raw)) [])"

text \<open>An entry before and after the check; the flag says whether the word is to be checked.\<close>

definition dict_entry_json :: "str \<Rightarrow> bool \<Rightarrow> str list \<Rightarrow> nat option \<Rightarrow> str option \<Rightarrow> str list \<Rightarrow> json" where
  "dict_entry_json w valid texts worth reason suggestions =
     JObj [(ascii ''word'', JStr w), (ascii ''valid'', JBool valid), (ascii ''tiles'', JArr (map JStr texts)),
       (ascii ''score'', opt_json (\<lambda>n. JInt (int n)) worth), (ascii ''reason'', opt_json JStr reason),
       (ascii ''suggestions'', JArr (map JStr suggestions))]"

definition checkable :: "str \<Rightarrow> bool" where
  "checkable upper \<longleftrightarrow> length upper \<le> 15 \<and> (case tokenize_word upper of Some ts \<Rightarrow> 2 \<le> length ts | None \<Rightarrow> False)"

definition refused_entry :: "str \<Rightarrow> json" where
  "refused_entry upper =
     (if 15 < length upper then dict_entry_json (take 30 upper) False [] None (Some (ascii ''too_long'')) []
      else case tokenize_word upper of
             None \<Rightarrow> dict_entry_json (take 30 upper) False [] None (Some (ascii ''invalid_chars'')) []
           | Some ts \<Rightarrow> dict_entry_json (take 30 upper) False (map letter_of ts) (Some (\<Sum>t\<leftarrow>ts. letter_value (letter_of t))) (Some (ascii ''too_short'')) [])"

definition checked_entry :: "str \<Rightarrow> bool \<Rightarrow> str list \<Rightarrow> json" where
  "checked_entry upper valid suggestions =
     (let ts = (case tokenize_word upper of Some ts \<Rightarrow> ts | None \<Rightarrow> [])
      in dict_entry_json (take 30 upper) valid (map letter_of ts) (Some (\<Sum>t\<leftarrow>ts. letter_value (letter_of t)))
           (if valid then None else Some (ascii ''not_in_dictionary'')) suggestions)"

text \<open>The entries in order; only the first three invalid words get suggestions.\<close>

fun dict_results :: "(str \<Rightarrow> str list) \<Rightarrow> str set \<Rightarrow> nat \<Rightarrow> str list \<Rightarrow> json list" where
  "dict_results sug valid suggested [] = []"
| "dict_results sug valid suggested (u # us) =
     (if \<not> checkable u then refused_entry u # dict_results sug valid suggested us
      else if u \<in> valid then checked_entry u True [] # dict_results sug valid suggested us
      else if suggested < MAX_SUGGESTION_WORDS then checked_entry u False (sug u) # dict_results sug valid (suggested + 1) us
      else checked_entry u False [] # dict_results sug valid suggested us)"

definition dictionary_check :: "hall \<Rightarrow> (real \<Rightarrow> str) \<Rightarrow> real \<Rightarrow> bool \<Rightarrow> request \<Rightarrow> desk \<Rightarrow> response \<times> desk" where
  "dictionary_check h float_text now post rq s =
     (case ip_check now (rq_ip rq) (ascii ''dictionary'') s of (allowed, s1) \<Rightarrow>
        if \<not> allowed then (too_many, s1)
        else
          let words = asked_words (if post then posted_words float_text (rq_data rq) else query_or rq (ascii ''q'') [])
          in if words = [] then (http_fail 400 (hu ''Adj meg legal~abb egy sz~ot.''), s1)
             else case dictionary_ready (hall_files h) s1 of (ready, s2) \<Rightarrow>
               if \<not> ready then (http_fail 503 (hu ''A sz~ot~ar jelenleg nem el~erhet&o.''), s2)
               else
                 let uppers = map to_uppercase words;
                     valid = fst (filter_valid (hall_files h) (filter checkable uppers) (dict_of s2));
                     results = dict_results (\<lambda>w. fst (suggest_words (hall_files h) w 5 (dict_of s2))) valid 0 uppers
                 in (http_ok (JObj [(ascii ''success'', JBool True), (ascii ''results'', JArr results)]), s2))"

end
