(* ===== verification/HttpProps.thy ===== *)
theory HttpProps
  imports HttpWords
begin

text \<open>The dictionary tool of the web page agrees with the game.\<close>

section \<open>The words asked\<close>

lemma add_word_distinct:
  "distinct (map to_uppercase ws) \<Longrightarrow> distinct (map to_uppercase (add_word t ws))"
  by (auto simp: add_word_def Let_def list_ex_iff)

lemma fold_add_word_distinct:
  "distinct (map to_uppercase ws) \<Longrightarrow> distinct (map to_uppercase (fold add_word ts ws))"
  by (induction ts arbitrary: ws) (simp_all add: add_word_distinct)

lemma asked_words_distinct: "distinct (map to_uppercase (asked_words raw)) \<and> length (asked_words raw) \<le> MAX_DICT_WORDS"
proof -
  have "distinct (map to_uppercase (fold add_word (split_at_seps [] (take 300 raw)) []))" by (rule fold_add_word_distinct) simp
  then show ?thesis unfolding asked_words_def take_map [symmetric] by (simp add: distinct_take)
qed

section \<open>The entries\<close>

definition entry_word :: "json \<Rightarrow> json" where
  "entry_word e = field e (ascii ''word'')"

definition entry_valid :: "json \<Rightarrow> json" where
  "entry_valid e = field e (ascii ''valid'')"

lemma dict_entry_fields [simp]:
  "entry_word (dict_entry_json w valid texts worth reason sug) = JStr w" "entry_valid (dict_entry_json w valid texts worth reason sug) = JBool valid"
  by (simp_all add: entry_word_def entry_valid_def dict_entry_json_def field_def)

lemma entry_fields [simp]:
  "entry_word (refused_entry u) = JStr (take 30 u)" "entry_valid (refused_entry u) = JBool False"
  "entry_word (checked_entry u b sug) = JStr (take 30 u)" "entry_valid (checked_entry u b sug) = JBool b"
  by (simp_all add: refused_entry_def checked_entry_def Let_def split: option.split)

lemma dict_results_words: "map entry_word (dict_results sug valid n us) = map (\<lambda>u. JStr (take 30 u)) us"
  by (induction sug valid n us rule: dict_results.induct) simp_all

lemma dict_results_valid: "map entry_valid (dict_results sug valid n us) = map (\<lambda>u. JBool (checkable u \<and> u \<in> valid)) us"
  by (induction sug valid n us rule: dict_results.induct) simp_all

section \<open>The tool and the game\<close>

lemma ip_check_dict: "dict_of (snd (ip_check now ip act s)) = dict_of s"
  by (simp add: ip_check_def dict_of_def split: prod.split)

lemma ready_dict: "dict_of (snd (dictionary_ready files s)) = ensure_init files (dict_of s)"
  by (simp add: dictionary_ready_def is_available_def get_checker_def put_dict_def dict_of_def Let_def)

lemma single_check:
  "fst (fst (check_words files [u] (dict_after files ops))) \<longleftrightarrow> word_ok (ensure_init files (dict_after files ops)) u"
  using dict_oracle.verdict_ok [of files "[u]" ops] by simp


text \<open>The tool is asked about the letter A, which is too short.\<close>

definition demo_desk :: desk where
  "demo_desk = \<lparr>limiter = limiter_new [] [], features = (\<lambda>_. True), usage_counters = [],
     desk_review = \<lparr>rdb = \<lparr>review_rows = [], review_users = {}, review_banned = {}, word_overrides = [], word_additions = []\<rparr>,
       words_dict = dict_start\<rparr>, desk_threshold = 1, short_lists = []\<rparr>"

definition demo_hall :: hall where
  "demo_hall = \<lparr>hall_files = demo_files, hall_vocab = vocab_new [], hall_permute = (\<lambda>n r. ([0..<n], r))\<rparr>"

definition demo_question :: request where
  "demo_question = \<lparr>rq_ip = [], rq_user = None, rq_query = [(ascii ''q'', [97])], rq_data = JNull\<rparr>"


end
