(* ===== verification/Settings.thy ===== *)
theory Settings
  imports BotChoice "HOL-Library.AList"
begin

text \<open>
  The settings of the administrators (\<^verbatim>\<open>src/src/settings.rs\<close>): their definitions, the check of a value, the rows of
  \<^verbatim>\<open>app_settings\<close> and the cache in front of them. A row holds the parsed JSON of its text, or nothing when the text is
  no JSON; floats are reals; reading a time stamp is the parameter \<open>ts\<close>.
\<close>

section \<open>Definitions\<close>

datatype kind = KBool | KInt int int | KFloat real real | KChoice "json list" | KLimits | KJson

fun kind_name :: "kind \<Rightarrow> str" where
  "kind_name KBool = ascii ''bool''"
| "kind_name (KInt _ _) = ascii ''int''"
| "kind_name (KFloat _ _) = ascii ''float''"
| "kind_name (KChoice _) = ascii ''choice''"
| "kind_name KLimits = ascii ''limits''"
| "kind_name KJson = ascii ''json''"

record setting =
  s_key :: str
  s_group :: str
  s_kind :: kind
  s_default :: json
  s_hidden :: bool

definition PREFIX :: str where "PREFIX = ascii ''cfg.''"
definition META_PREFIX :: str where "META_PREFIX = ascii ''cfgmeta.''"
definition MAINTENANCE_KEY :: str where "MAINTENANCE_KEY = ascii ''maintenance''"

definition setting_def :: "string \<Rightarrow> string \<Rightarrow> kind \<Rightarrow> json \<Rightarrow> setting" where
  "setting_def key grp knd dflt = \<lparr>s_key = ascii key, s_group = ascii grp, s_kind = knd, s_default = dflt, s_hidden = False\<rparr>"

definition setting_definitions :: "int \<Rightarrow> setting list" where
  "setting_definitions config_threshold =
     [setting_def ''registration_open'' ''access'' KBool (JBool True),
      setting_def ''guest_allowed'' ''access'' KBool (JBool True),
      setting_def ''room_creation'' ''rooms'' (KChoice [JStr (ascii ''everyone''), JStr (ascii ''registered''), JStr (ascii ''none'')]) (JStr (ascii ''everyone'')),
      setting_def ''max_spectators'' ''rooms'' (KInt 1 200) (JInt 30),
      setting_def ''default_hint_limit'' ''rooms'' (KChoice [JInt 0, JInt 1, JInt 3, JInt 5, JInt 10]) (JInt 3),
      setting_def ''bots_enabled'' ''bots'' KBool (JBool True),
      setting_def ''max_bots'' ''bots'' (KInt 0 3) (JInt 3),
      setting_def ''default_bot_level'' ''bots'' (KInt 1 10) (JInt 6),
      setting_def ''bot_think_multiplier'' ''bots'' (KFloat 0 5) (JFloat 1),
      setting_def ''feature_daily'' ''features'' KBool (JBool True),
      setting_def ''feature_async'' ''features'' KBool (JBool True),
      setting_def ''feature_practice'' ''features'' KBool (JBool True),
      setting_def ''feature_word_review'' ''features'' KBool (JBool True),
      setting_def ''word_reject_threshold'' ''dictionary'' (KInt 1 50) (JInt config_threshold),
      setting_def ''grace_disconnect'' ''timing'' (KInt 15 1800) (JInt 120),
      setting_def ''grace_waiting_owner'' ''timing'' (KInt 60 7200) (JInt 600),
      setting_def ''chat_max_length'' ''chat'' (KInt 20 500) (JInt 200),
      setting_def ''chat_rate_count'' ''chat'' (KInt 1 60) (JInt 10),
      setting_def ''chat_rate_window'' ''chat'' (KInt 1 120) (JInt 10),
      setting_def ''banned_word_action'' ''chat'' (KChoice [JStr (ascii ''mask''), JStr (ascii ''drop'')]) (JStr (ascii ''mask'')),
      setting_def ''chat_log_enabled'' ''logging'' KBool (JBool False),
      setting_def ''chat_log_days'' ''logging'' (KInt 1 365) (JInt 14),
      setting_def ''backup_daily'' ''logging'' KBool (JBool False),
      setting_def ''backup_keep'' ''logging'' (KInt 1 60) (JInt 7),
      setting_def ''rate_limits_http'' ''limits'' KLimits (JObj []),
      setting_def ''rate_limits_socket'' ''limits'' KLimits (JObj []),
      (setting_def ''maintenance'' ''access'' KJson (JObj []))\<lparr>s_hidden := True\<rparr>]"

definition definition_of :: "setting list \<Rightarrow> str \<Rightarrow> setting option" where
  "definition_of defs key = List.find (\<lambda>d. s_key d = key) defs"

definition default_of :: "setting list \<Rightarrow> str \<Rightarrow> json" where
  "default_of defs key = (case definition_of defs key of Some d \<Rightarrow> s_default d | None \<Rightarrow> JNull)"

section \<open>Checking a value\<close>

definition BAD_LIMITS :: str where "BAD_LIMITS = hu ''~Erv~enytelen forgalomkorl~at-lista.''"
definition BAD_VALUE :: str where "BAD_VALUE = hu ''~Erv~enytelen ~ert~ek.''"
definition OUT_OF_RANGE :: str where "OUT_OF_RANGE = hu ''Az ~ert~ek a megengedett tartom~anyon k~iv^ul van.''"
definition UNKNOWN_SETTING :: str where "UNKNOWN_SETTING = hu ''Ismeretlen be~all~it~as.''"

definition limit_pair :: "json \<Rightarrow> str + int \<times> int" where
  "limit_pair v =
     (case as_array v of
        Some [a, b] \<Rightarrow>
          (case (strict_int a, strict_int b) of
             (Some c, Some w) \<Rightarrow>
               if 1 \<le> c \<and> c \<le> 100000 \<and> 1 \<le> w \<and> w \<le> 86400 then Inr (c, w)
               else Inl (hu ''A forgalomkorl~at ~ert~eke tartom~anyon k~iv^ul van.'')
           | _ \<Rightarrow> Inl BAD_LIMITS)
      | _ \<Rightarrow> Inl BAD_LIMITS)"

fun clean_limits :: "(str \<times> json) list \<Rightarrow> str + (str \<times> json) list" where
  "clean_limits [] = Inr []"
| "clean_limits ((name, pair) # rest) =
     (case limit_pair pair of
        Inl e \<Rightarrow> Inl e
      | Inr (c, w) \<Rightarrow> (case clean_limits rest of Inl e \<Rightarrow> Inl e | Inr clean \<Rightarrow> Inr ((name, JArr [JInt c, JInt w]) # clean)))"

definition validate_limits :: "json \<Rightarrow> str + json" where
  "validate_limits v =
     (case as_object v of
        None \<Rightarrow> Inl BAD_LIMITS
      | Some kvs \<Rightarrow> (case clean_limits kvs of Inl e \<Rightarrow> Inl e | Inr clean \<Rightarrow> Inr (JObj clean)))"

definition is_boolean :: "json \<Rightarrow> bool" where
  "is_boolean v \<longleftrightarrow> (case v of JBool _ \<Rightarrow> True | _ \<Rightarrow> False)"

fun validate_kind :: "kind \<Rightarrow> json \<Rightarrow> str + json" where
  "validate_kind KBool v = (if is_boolean v then Inr v else Inl BAD_VALUE)"
| "validate_kind (KInt lo hi) v =
     (case strict_int v of
        None \<Rightarrow> Inl BAD_VALUE
      | Some n \<Rightarrow> if lo \<le> n \<and> n \<le> hi then Inr (JInt n) else Inl OUT_OF_RANGE)"
| "validate_kind (KFloat lo hi) v =
     (case as_f64 v of
        None \<Rightarrow> Inl BAD_VALUE
      | Some r \<Rightarrow> if lo \<le> r \<and> r \<le> hi then Inr (JFloat (round_ties_even (r * 100) / 100)) else Inl OUT_OF_RANGE)"
| "validate_kind (KChoice choices) v = (if is_boolean v \<or> v \<notin> set choices then Inl BAD_VALUE else Inr v)"
| "validate_kind KLimits v = validate_limits v"
| "validate_kind KJson v = (if as_object v \<noteq> None then Inr v else Inl BAD_VALUE)"

definition validate :: "setting list \<Rightarrow> str \<Rightarrow> json \<Rightarrow> str + json" where
  "validate defs key v =
     (case definition_of defs key of None \<Rightarrow> Inl UNKNOWN_SETTING | Some spec \<Rightarrow> validate_kind (s_kind spec) v)"

section \<open>The rows and the cache\<close>

type_synonym setting_rows = "(str \<times> json option) list"

record settings_store =
  app_rows :: setting_rows
  s_loaded :: bool
  s_values :: "(str \<times> json) list"
  s_meta :: "(str \<times> json) list"

definition invalidate :: "settings_store \<Rightarrow> settings_store" where
  "invalidate s = s\<lparr>s_loaded := False\<rparr>"

text \<open>\<^verbatim>\<open>LIKE 'cfg%'\<close> does not distinguish the case of the letters a to z.\<close>

definition like_cfg :: "str \<Rightarrow> bool" where
  "like_cfg k \<longleftrightarrow> map (\<lambda>c. if 65 \<le> c \<and> c \<le> 90 then c + 32 else c) (take 3 k) = ascii ''cfg''"

definition strip_prefix :: "str \<Rightarrow> str \<Rightarrow> str option" where
  "strip_prefix p k = (if take (length p) k = p then Some (drop (length p) k) else None)"

text \<open>\<^verbatim>\<open>load\<close> in its two halves: the rows are read first, the cache is filled under its lock afterwards.\<close>

definition read_rows :: "settings_store \<Rightarrow> setting_rows" where
  "read_rows s = filter (\<lambda>(k, _). like_cfg k) (app_rows s)"

definition put_row :: "str \<times> json option \<Rightarrow> settings_store \<Rightarrow> settings_store" where
  "put_row row s =
     (case row of
        (_, None) \<Rightarrow> s
      | (k, Some v) \<Rightarrow>
          (case strip_prefix PREFIX k of
             Some name \<Rightarrow> s\<lparr>s_values := AList.update name v (s_values s)\<rparr>
           | None \<Rightarrow> (case strip_prefix META_PREFIX k of Some name \<Rightarrow> s\<lparr>s_meta := AList.update name v (s_meta s)\<rparr> | None \<Rightarrow> s)))"

definition fill_cache :: "setting_rows \<Rightarrow> settings_store \<Rightarrow> settings_store" where
  "fill_cache rows s = (fold put_row rows (s\<lparr>s_values := [], s_meta := []\<rparr>))\<lparr>s_loaded := True\<rparr>"

definition load_settings :: "settings_store \<Rightarrow> settings_store" where
  "load_settings s = (if s_loaded s then s else fill_cache (read_rows s) s)"

definition is_overridden :: "str \<Rightarrow> settings_store \<Rightarrow> bool \<times> settings_store" where
  "is_overridden key s = (let s' = load_settings s in (map_of (s_values s') key \<noteq> None, s'))"

definition get_setting :: "setting list \<Rightarrow> str \<Rightarrow> settings_store \<Rightarrow> json \<times> settings_store" where
  "get_setting defs key s =
     (let s' = load_settings s in (case map_of (s_values s') key of Some v \<Rightarrow> v | None \<Rightarrow> default_of defs key, s'))"

definition setting_bool :: "setting list \<Rightarrow> str \<Rightarrow> settings_store \<Rightarrow> bool \<times> settings_store" where
  "setting_bool defs key s = (case get_setting defs key s of (v, s') \<Rightarrow> (case v of JBool b \<Rightarrow> b | _ \<Rightarrow> False, s'))"

definition get_i64 :: "setting list \<Rightarrow> str \<Rightarrow> settings_store \<Rightarrow> int \<times> settings_store" where
  "get_i64 defs key s = (case get_setting defs key s of (v, s') \<Rightarrow> (case as_i64 v of Some n \<Rightarrow> n | None \<Rightarrow> 0, s'))"

definition get_f64 :: "setting list \<Rightarrow> str \<Rightarrow> settings_store \<Rightarrow> real \<times> settings_store" where
  "get_f64 defs key s = (case get_setting defs key s of (v, s') \<Rightarrow> (case as_f64 v of Some r \<Rightarrow> r | None \<Rightarrow> 0, s'))"

definition get_string :: "setting list \<Rightarrow> str \<Rightarrow> settings_store \<Rightarrow> str \<times> settings_store" where
  "get_string defs key s = (case get_setting defs key s of (v, s') \<Rightarrow> (case as_str v of Some t \<Rightarrow> t | None \<Rightarrow> [], s'))"

text \<open>Writing a value, within the transaction of the caller; \<open>JNull\<close> restores the default.\<close>

definition store_setting :: "setting list \<Rightarrow> str \<Rightarrow> json \<Rightarrow> int option \<Rightarrow> str \<Rightarrow> settings_store \<Rightarrow> str + settings_store" where
  "store_setting defs key v admin stamp s =
     (if definition_of defs key = None then Inl UNKNOWN_SETTING
      else if is_null v then Inr (s\<lparr>app_rows := AList.delete (META_PREFIX @ key) (AList.delete (PREFIX @ key) (app_rows s))\<rparr>)
      else case validate defs key v of
             Inl e \<Rightarrow> Inl e
           | Inr clean \<Rightarrow>
               let meta = JObj [(ascii ''by'', case admin of Some a \<Rightarrow> JInt a | None \<Rightarrow> JNull), (ascii ''at'', JStr stamp)]
               in Inr (s\<lparr>app_rows := AList.update (META_PREFIX @ key) (Some meta) (AList.update (PREFIX @ key) (Some clean) (app_rows s))\<rparr>))"

definition maintenance :: "(str \<Rightarrow> real option) \<Rightarrow> real \<Rightarrow> setting list \<Rightarrow> settings_store \<Rightarrow> json option \<times> settings_store" where
  "maintenance ts now defs s =
     (case get_setting defs MAINTENANCE_KEY s of (v, s') \<Rightarrow>
        let enabled = (case jget v (ascii ''enabled'') of Some e \<Rightarrow> truthy e | None \<Rightarrow> False);
            over = (case jget v (ascii ''until'') \<bind> as_str of
                      Some u \<Rightarrow> u \<noteq> [] \<and> (case ts u of Some t \<Rightarrow> t \<le> now | None \<Rightarrow> False) | None \<Rightarrow> False)
        in (if as_object v = None \<or> \<not> enabled \<or> over then None else Some v, s'))"

definition kind_fields :: "kind \<Rightarrow> (str \<times> json) list" where
  "kind_fields knd =
     (case knd of
        KInt lo hi \<Rightarrow> [(ascii ''min'', JInt lo), (ascii ''max'', JInt hi)]
      | KFloat lo hi \<Rightarrow> [(ascii ''min'', JFloat lo), (ascii ''max'', JFloat hi)]
      | KChoice choices \<Rightarrow> [(ascii ''choices'', JArr choices)]
      | _ \<Rightarrow> [])"

definition describe_item :: "settings_store \<Rightarrow> setting \<Rightarrow> json" where
  "describe_item s spec =
     (let meta = (case map_of (s_meta s) (s_key spec) of Some m \<Rightarrow> m | None \<Rightarrow> JNull)
      in JObj ([(ascii ''key'', JStr (s_key spec)), (ascii ''group'', JStr (s_group spec)), (ascii ''type'', JStr (kind_name (s_kind spec))),
           (ascii ''value'', case map_of (s_values s) (s_key spec) of Some v \<Rightarrow> v | None \<Rightarrow> s_default spec),
           (ascii ''default'', s_default spec), (ascii ''overridden'', JBool (map_of (s_values s) (s_key spec) \<noteq> None)),
           (ascii ''changed_by'', field meta (ascii ''by'')), (ascii ''changed_at'', field meta (ascii ''at''))]
         @ kind_fields (s_kind spec)))"

definition describe_settings :: "setting list \<Rightarrow> str list option \<Rightarrow> settings_store \<Rightarrow> json list \<times> settings_store" where
  "describe_settings defs names s =
     (let s' = load_settings s
      in (map (describe_item s')
            (filter (\<lambda>d. \<not> (s_hidden d \<or> (case names of Some ns \<Rightarrow> s_key d \<notin> set ns | None \<Rightarrow> False))) defs), s'))"

end
