(* ===== verification/SettingsProps.thy ===== *)
theory SettingsProps
  imports Settings Accounts
begin

text \<open>The cache in front of the settings is invisible, and every setting has a value of its kind.\<close>

section \<open>A checked value passes the check again\<close>

fun kind_ok :: "kind \<Rightarrow> bool" where
  "kind_ok (KFloat lo hi) \<longleftrightarrow> (\<exists>a b. lo = real_of_int a / 100 \<and> hi = real_of_int b / 100)"
| "kind_ok _ \<longleftrightarrow> True"

lemma strict_int_id: "strict_int v = Some n \<Longrightarrow> v = JInt n \<and> strict_int (JInt n) = Some n"
proof (cases v)
  case (JInt k)
  assume "strict_int v = Some n"
  then show ?thesis using JInt by (simp split: if_splits)
qed simp_all

lemma limit_pair_id: "limit_pair v = Inr (c, w) \<Longrightarrow> limit_pair (JArr [JInt c, JInt w]) = Inr (c, w)"
  by (auto simp: limit_pair_def split: option.splits list.splits if_splits dest: strict_int_id)

lemma clean_limits_id: "clean_limits kvs = Inr clean \<Longrightarrow> clean_limits clean = Inr clean"
  by (induction kvs arbitrary: clean rule: clean_limits.induct) (auto simp: limit_pair_id split: sum.splits prod.splits)

lemma cents_between:
  assumes "real_of_int a / 100 \<le> r" "r \<le> real_of_int b / 100"
  shows "real_of_int a / 100 \<le> round_ties_even (r * 100) / 100 \<and> round_ties_even (r * 100) / 100 \<le> real_of_int b / 100"
  using round_ties_even_bounds [of a "r * 100" b] assms by (simp add: field_simps)

lemma validate_kind_id: "kind_ok knd \<Longrightarrow> validate_kind knd v = Inr c \<Longrightarrow> validate_kind knd c = Inr c"
proof (cases knd)
  case (KFloat lo hi)
  assume ok: "kind_ok knd" and v: "validate_kind knd v = Inr c"
  then obtain r where r: "lo \<le> r" "r \<le> hi" "c = JFloat (round_ties_even (r * 100) / 100)"
    using KFloat by (auto split: option.splits if_splits)
  obtain a b where ab: "lo = real_of_int a / 100" "hi = real_of_int b / 100" using ok KFloat by auto
  obtain n where "round_ties_even (r * 100) = real_of_int n" using round_ties_even_is_int by blast
  then have "round_ties_even (round_ties_even (r * 100) / 100 * 100) = round_ties_even (r * 100)" by (simp add: round_ties_even_int)
  then show ?thesis using cents_between [of a r b] r ab KFloat by simp
next
  case (KInt lo hi)
  assume "kind_ok knd" "validate_kind knd v = Inr c"
  then obtain n where n: "strict_int v = Some n" "lo \<le> n" "n \<le> hi" "c = JInt n"
    using KInt by (auto simp del: strict_int.simps split: option.splits if_splits)
  then have "strict_int (JInt n) = Some n" using strict_int_id by blast
  then show ?thesis using n KInt by simp
next
  case KLimits
  assume "kind_ok knd" "validate_kind knd v = Inr c"
  then show ?thesis using KLimits clean_limits_id by (auto simp: validate_limits_def split: option.splits sum.splits)
qed (auto split: if_splits)

lemma definition_of_in: "definition_of defs key = Some d \<Longrightarrow> d \<in> set defs"
  unfolding definition_of_def find_Some_iff by (metis nth_mem)

lemma validate_id: "\<forall>d\<in>set defs. kind_ok (s_kind d) \<Longrightarrow> validate defs key v = Inr c \<Longrightarrow> validate defs key c = Inr c"
  using definition_of_in [of defs key] validate_kind_id by (auto simp: validate_def split: option.splits)

lemma definitions_ok:
  assumes "1 \<le> thr" "thr \<le> 50"
  shows "\<forall>d\<in>set (setting_definitions thr). kind_ok (s_kind d) \<and> validate_kind (s_kind d) (s_default d) = Inr (s_default d)"
proof -
  have "kind_ok (KFloat 0 5)" by (auto intro!: exI [of _ "0 :: int"] exI [of _ "500 :: int"])
  moreover have "round_ties_even (100 :: real) = 100" using round_ties_even_int [of 100] by simp
  moreover have "fits_i64 thr" using assms by (simp add: fits_i64_def i64_min_def i64_max_def)
  ultimately show ?thesis
    using assms by (simp add: setting_definitions_def setting_def_def is_boolean_def fits_i64_def i64_min_def i64_max_def validate_limits_def)
qed

section \<open>The rows and the cache\<close>

definition row_value :: "setting_rows \<Rightarrow> str \<Rightarrow> json option" where
  "row_value rows key = (case map_of rows (PREFIX @ key) of Some (Some v) \<Rightarrow> Some v | _ \<Rightarrow> None)"

lemma strip_prefix_append [simp]: "strip_prefix p (p @ key) = Some key"
  by (simp add: strip_prefix_def)

lemma strip_prefix_Some: "strip_prefix p k = Some name \<longleftrightarrow> k = p @ name"
  by (auto simp: strip_prefix_def) (metis append_take_drop_id)

lemma put_row_values:
  "map_of (s_values (put_row (k, v) s)) key = (if k = PREFIX @ key \<and> v \<noteq> None then v else map_of (s_values s) key)"
  by (auto simp: put_row_def update_conv' strip_prefix_Some split: option.splits)

lemma fold_put_row:
  "distinct (map fst rows) \<Longrightarrow> map_of (s_values (fold put_row rows s)) key
     = (case row_value rows key of Some v \<Rightarrow> Some v | None \<Rightarrow> map_of (s_values s) key)"
proof (induction rows arbitrary: s)
  case (Cons row rows)
  obtain k v where row: "row = (k, v)" by (cases row)
  have notin: "map_of rows k = None" using Cons.prems row by (simp add: map_of_eq_None_iff)
  show ?case
    using Cons.IH [of "put_row row s"] Cons.prems notin
    by (cases "k = PREFIX @ key") (auto simp: row row_value_def put_row_values split: option.splits)
qed (simp add: row_value_def)

lemma row_value_read: "row_value (filter (\<lambda>(k, _). like_cfg k) rows) key = row_value rows key"
proof -
  have "like_cfg (PREFIX @ key)" by (simp add: like_cfg_def PREFIX_def ascii_def)
  then have "map_of (filter (\<lambda>(k, _). like_cfg k) rows) (PREFIX @ key) = map_of rows (PREFIX @ key)"
    by (induction rows) auto
  then show ?thesis by (simp add: row_value_def)
qed

lemma fill_cache_values:
  "distinct (map fst rows) \<Longrightarrow> map_of (s_values (fill_cache rows s)) key = row_value rows key"
  by (simp add: fill_cache_def fold_put_row split: option.split)

lemma put_row_rows [simp]: "app_rows (put_row row s) = app_rows s"
  by (auto simp: put_row_def split: option.split prod.split)

lemma fold_put_row_rows [simp]: "app_rows (fold put_row rows s) = app_rows s"
  by (induction rows arbitrary: s) simp_all

lemma load_rows [simp]: "app_rows (load_settings s) = app_rows s"
  by (simp add: load_settings_def fill_cache_def)

section \<open>Runs\<close>

datatype setting_event = StoreSetting str json "int option" str | ReadSetting str

fun setting_step :: "setting list \<Rightarrow> setting_event \<Rightarrow> settings_store \<Rightarrow> settings_store" where
  "setting_step defs (StoreSetting key v admin stamp) s =
     (case store_setting defs key v admin stamp s of Inl _ \<Rightarrow> s | Inr s' \<Rightarrow> invalidate s')"
| "setting_step defs (ReadSetting key) s = snd (get_setting defs key s)"

text \<open>The reference: a map that remembers the last accepted value of every setting.\<close>

fun settle :: "setting list \<Rightarrow> setting_event \<Rightarrow> (str \<Rightarrow> json option) \<Rightarrow> str \<Rightarrow> json option" where
  "settle defs (StoreSetting key v admin stamp) m =
     (if definition_of defs key = None then m
      else if is_null v then m(key := None)
      else case validate defs key v of Inl _ \<Rightarrow> m | Inr clean \<Rightarrow> m(key := Some clean))"
| "settle defs (ReadSetting key) m = m"

definition settings_of :: "setting list \<Rightarrow> setting_rows \<Rightarrow> setting_event list \<Rightarrow> settings_store" where
  "settings_of defs rows evs = fold (setting_step defs) evs \<lparr>app_rows = rows, s_loaded = False, s_values = [], s_meta = []\<rparr>"

definition settled :: "setting list \<Rightarrow> setting_rows \<Rightarrow> setting_event list \<Rightarrow> str \<Rightarrow> json option" where
  "settled defs rows evs = fold (settle defs) evs (row_value rows)"

text \<open>What relates the two.\<close>

definition mirrors :: "(str \<Rightarrow> json option) \<Rightarrow> settings_store \<Rightarrow> bool" where
  "mirrors m s \<longleftrightarrow> distinct (map fst (app_rows s)) \<and> row_value (app_rows s) = m \<and> (s_loaded s \<longrightarrow> map_of (s_values s) = m)"

lemma mirrors_load: "mirrors m s \<Longrightarrow> mirrors m (load_settings s) \<and> map_of (s_values (load_settings s)) = m"
proof -
  assume m: "mirrors m s"
  show ?thesis
  proof (cases "s_loaded s")
    case True
    then show ?thesis using m by (simp add: mirrors_def load_settings_def)
  next
    case False
    have "distinct (map fst (read_rows s))" using m by (simp add: mirrors_def read_rows_def distinct_map_filter)
    then have "map_of (s_values (load_settings s)) key = m key" for key
      using m False by (simp add: load_settings_def fill_cache_values read_rows_def row_value_read mirrors_def)
    then have "map_of (s_values (load_settings s)) = m" by (rule ext)
    then show ?thesis using m by (simp add: mirrors_def)
  qed
qed

lemma meta_key: "PREFIX @ k \<noteq> META_PREFIX @ k'"
  by (simp add: PREFIX_def META_PREFIX_def ascii_def)

lemma mirrors_store:
  assumes "mirrors m s" "store_setting defs key v admin stamp s = Inr s'"
  shows "mirrors (settle defs (StoreSetting key v admin stamp) m) (invalidate s')"
proof -
  have d: "distinct (map fst (app_rows s))" and r: "row_value (app_rows s) = m" using assms(1) by (simp_all add: mirrors_def)
  note conv = row_value_def update_conv' delete_conv' meta_key meta_key [symmetric]
  show ?thesis
  proof (cases "is_null v")
    case True
    then have "definition_of defs key \<noteq> None" "s' = s\<lparr>app_rows := AList.delete (META_PREFIX @ key) (AList.delete (PREFIX @ key) (app_rows s))\<rparr>"
      using assms(2) by (auto simp: store_setting_def split: if_splits)
    then show ?thesis using d r True by (auto simp: mirrors_def invalidate_def conv distinct_delete fun_eq_iff)
  next
    case False
    then obtain clean mt where "definition_of defs key \<noteq> None" "validate defs key v = Inr clean"
      "s' = s\<lparr>app_rows := AList.update (META_PREFIX @ key) (Some mt) (AList.update (PREFIX @ key) (Some clean) (app_rows s))\<rparr>"
      using assms(2) by (auto simp: store_setting_def Let_def split: if_splits sum.splits)
    then show ?thesis using d r False by (auto simp: mirrors_def invalidate_def conv distinct_update fun_eq_iff)
  qed
qed

lemma mirrors_step: "mirrors m s \<Longrightarrow> mirrors (settle defs ev m) (setting_step defs ev s)"
proof (cases ev)
  case (ReadSetting key)
  assume "mirrors m s"
  then show ?thesis using mirrors_load ReadSetting by (simp add: get_setting_def Let_def)
next
  case (StoreSetting key v admin stamp)
  assume m: "mirrors m s"
  show ?thesis
  proof (cases "store_setting defs key v admin stamp s")
    case (Inl e)
    then have "settle defs ev m = m" using StoreSetting by (auto simp: store_setting_def Let_def split: if_splits sum.splits)
    then show ?thesis using m StoreSetting Inl by simp
  next
    case (Inr s')
    then show ?thesis using mirrors_store [OF m Inr] StoreSetting by simp
  qed
qed

lemma mirrors_run: "distinct (map fst rows) \<Longrightarrow> mirrors (settled defs rows evs) (settings_of defs rows evs)"
proof (induction evs rule: rev_induct)
  case Nil
  then show ?case by (simp add: settled_def settings_of_def mirrors_def)
next
  case (snoc ev evs)
  then show ?case using mirrors_step by (simp add: settled_def settings_of_def)
qed

lemma settled_valid:
  assumes "\<forall>d\<in>set defs. kind_ok (s_kind d)" "\<forall>key v. row_value rows key = Some v \<longrightarrow> validate defs key v = Inr v"
  shows "settled defs rows evs key = Some v \<Longrightarrow> validate defs key v = Inr v"
proof (induction evs arbitrary: key v rule: rev_induct)
  case Nil
  then show ?case using assms(2) by (simp add: settled_def)
next
  case (snoc ev evs)
  have s: "settled defs rows (evs @ [ev]) = settle defs ev (settled defs rows evs)" by (simp add: settled_def)
  have p: "settle defs ev (settled defs rows evs) key = Some v" using snoc.prems unfolding s .
  show ?case
    using p snoc.IH [of key v] validate_id [OF assms(1)]
    by (cases ev) (auto split: if_splits sum.splits)
qed



section \<open>A read across a change\<close>

text \<open>
  Reading the rows and filling the cache are not one step: a reader that read the rows before a change and fills the cache
  after its \<open>invalidate\<close> brings the old values back, and marks them as loaded.
\<close>

lemma stale_load_survives:
  assumes "distinct (map fst (app_rows s))" "store_setting defs key v admin stamp s = Inr s'"
  shows "fst (get_setting defs key (fill_cache (read_rows s) (invalidate s')))
    = (case row_value (app_rows s) key of Some old \<Rightarrow> old | None \<Rightarrow> default_of defs key)"
proof -
  have "distinct (map fst (read_rows s))" using assms(1) by (simp add: read_rows_def distinct_map_filter)
  moreover have "load_settings (fill_cache rows t) = fill_cache rows t" for rows t
    by (simp add: load_settings_def fill_cache_def)
  ultimately show ?thesis
    by (simp add: get_setting_def Let_def fill_cache_values read_rows_def row_value_read)
qed

end
