(* ===== verification/UserStore.thy ===== *)
theory UserStore
  imports Accounts AffixLoad "HOL-Library.AList"
begin

text \<open>
  The tables of the accounts (\<^verbatim>\<open>src/src/db/users.rs\<close>): users, e-mail verification, sessions and the log of the logins.
  The SQL is written out over lists of rows; a time stamp is the second it names (nothing when the text is no time), the
  time of a call is its argument \<open>now\<close>. Password hashing is a parameter.
\<close>

section \<open>Tables\<close>

record user_row =
  u_id :: int
  u_email :: str
  u_email_lower :: str
  u_name :: str
  u_hash :: str
  u_games :: "int \<times> int \<times> int"
  u_reconnect :: "str option"
  u_rating :: int
  u_rated :: int
  u_banned_until :: "int option"
  u_ban_reason :: "str option"
  u_muted_until :: "int option"
  u_last_login :: "(int \<times> str option) option"
  u_deleted :: bool

record code_row =
  vc_id :: int
  vc_email :: str
  vc_code :: str
  vc_created :: int
  vc_expires :: "int option"
  vc_attempts :: int
  vc_used :: bool

record session_row =
  ss_id :: int
  ss_user :: int
  ss_token :: str
  ss_expires :: "int option"
  ss_ip :: "str option"
  ss_agent :: "str option"
  ss_seen :: "int option"
  ss_admin_seen :: "int option"
  ss_sudo :: "int option"

record login_event =
  le_user :: "int option"
  le_email :: str
  le_ip :: "str option"
  le_agent :: "str option"
  le_success :: bool
  le_reason :: str

record auth_db =
  users :: "user_row list"
  codes :: "code_row list"
  verified :: "(str \<times> int option) list"
  sessions :: "session_row list"
  logins :: "login_event list"
  next_user :: int
  next_code :: int
  next_session :: int

definition SESSION_MAX_AGE_DAYS :: int where "SESSION_MAX_AGE_DAYS = 30"
definition VERIFICATION_CODE_EXPIRY_MINUTES :: int where "VERIFICATION_CODE_EXPIRY_MINUTES = 10"
definition VERIFICATION_MAX_ATTEMPTS :: int where "VERIFICATION_MAX_ATTEMPTS = 5"
definition EMAIL_VERIFIED_WINDOW_MINUTES :: int where "EMAIL_VERIFIED_WINDOW_MINUTES = 30"
definition SESSION_SEEN_INTERVAL :: int where "SESSION_SEEN_INTERVAL = 300"

text \<open>\<^verbatim>\<open>9999-12-31 23:59:59\<close>.\<close>

definition PERMANENT_UNTIL :: int where "PERMANENT_UNTIL = 253402300799"

section \<open>Times and bans\<close>

definition until_active :: "real \<Rightarrow> int option \<Rightarrow> bool" where
  "until_active now stamp \<longleftrightarrow> (case stamp of Some t \<Rightarrow> now < real_of_int t | None \<Rightarrow> False)"

definition is_expired :: "real \<Rightarrow> int option \<Rightarrow> bool" where
  "is_expired now stamp \<longleftrightarrow> (case stamp of Some t \<Rightarrow> real_of_int t < now | None \<Rightarrow> True)"

definition expiry_after :: "real \<Rightarrow> int \<Rightarrow> int" where
  "expiry_after now minutes = \<lfloor>now + real_of_int (60 * minutes)\<rfloor>"

record ban =
  ban_text :: str
  ban_until :: "int option"
  ban_permanent :: bool

definition ban_from_parts :: "real \<Rightarrow> int option \<Rightarrow> str option \<Rightarrow> ban option" where
  "ban_from_parts now until reason =
     (if \<not> until_active now until then None
      else let permanent = (until = Some PERMANENT_UNTIL)
           in Some \<lparr>ban_text = (case reason of Some r \<Rightarrow> r | None \<Rightarrow> []), ban_until = (if permanent then None else until),
                ban_permanent = permanent\<rparr>)"

definition ban_json :: "(int \<Rightarrow> str) \<Rightarrow> ban \<Rightarrow> json" where
  "ban_json show_ts b =
     JObj [(ascii ''reason'', JStr (ban_text b)), (ascii ''until'', case ban_until b of Some t \<Rightarrow> JStr (show_ts t) | None \<Rightarrow> JNull),
       (ascii ''permanent'', JBool (ban_permanent b))]"

definition user_ban :: "real \<Rightarrow> user_row \<Rightarrow> ban option" where
  "user_ban now u = ban_from_parts now (u_banned_until u) (u_ban_reason u)"

section \<open>Users\<close>

definition email_key :: "str \<Rightarrow> str" where
  "email_key email = trim (to_lowercase email)"

definition get_user_by_email :: "str \<Rightarrow> auth_db \<Rightarrow> user_row option" where
  "get_user_by_email email db = List.find (\<lambda>u. u_email_lower u = email_key email) (users db)"

definition get_user_by_id :: "int \<Rightarrow> auth_db \<Rightarrow> user_row option" where
  "get_user_by_id uid db = List.find (\<lambda>u. u_id u = uid) (users db)"

definition EMAIL_EXISTS :: str where "EMAIL_EXISTS = hu ''Ez az email c~im m~ar regisztr~alva van.''"
definition BAD_LOGIN :: str where "BAD_LOGIN = hu ''Hib~as email c~im vagy jelsz~o.''"

definition create_user :: "(str \<Rightarrow> str) \<Rightarrow> str \<Rightarrow> str \<Rightarrow> str \<Rightarrow> auth_db \<Rightarrow> (str + int) \<times> auth_db" where
  "create_user hash_of email display password db =
     (if get_user_by_email (email_key email) db \<noteq> None \<or> list_ex (\<lambda>u. u_email_lower u = email_key email) (users db) then (Inl EMAIL_EXISTS, db)
      else (Inr (next_user db),
            db\<lparr>users := users db @ [\<lparr>u_id = next_user db, u_email = trim email, u_email_lower = email_key email, u_name = trim display,
                 u_hash = hash_of password, u_games = (0, 0, 0), u_reconnect = None, u_rating = INITIAL_RATING, u_rated = 0,
                 u_banned_until = None, u_ban_reason = None, u_muted_until = None, u_last_login = None, u_deleted = False\<rparr>],
               next_user := next_user db + 1\<rparr>))"

definition verify_password :: "(str \<Rightarrow> str \<Rightarrow> bool) \<Rightarrow> str \<Rightarrow> str \<Rightarrow> auth_db \<Rightarrow> str + user_row" where
  "verify_password checks email password db =
     (case get_user_by_email email db of
        None \<Rightarrow> Inl BAD_LOGIN
      | Some u \<Rightarrow>
          if u_deleted u \<or> u_hash u = [] then Inl BAD_LOGIN
          else if \<not> checks (u_hash u) password then Inl BAD_LOGIN else Inr u)"

definition get_ban :: "real \<Rightarrow> int \<Rightarrow> auth_db \<Rightarrow> ban option" where
  "get_ban now uid db = (if uid = 0 then None else get_user_by_id uid db \<bind> user_ban now)"

definition is_chat_muted :: "real \<Rightarrow> int \<Rightarrow> auth_db \<Rightarrow> bool" where
  "is_chat_muted now uid db \<longleftrightarrow>
     uid \<noteq> 0 \<and> (case get_user_by_id uid db of Some u \<Rightarrow> until_active now (u_muted_until u) | None \<Rightarrow> False)"

definition agent_text :: "str option \<Rightarrow> str option" where
  "agent_text agent = (case map_option (take 300) agent of Some [] \<Rightarrow> None | a \<Rightarrow> a)"

definition upd_user :: "int \<Rightarrow> (user_row \<Rightarrow> user_row) \<Rightarrow> auth_db \<Rightarrow> auth_db" where
  "upd_user uid f db = db\<lparr>users := map (\<lambda>u. if u_id u = uid then f u else u) (users db)\<rparr>"

definition record_login_event :: "real \<Rightarrow> str \<Rightarrow> bool \<Rightarrow> str option \<Rightarrow> str option \<Rightarrow> int option \<Rightarrow> str \<Rightarrow> auth_db \<Rightarrow> auth_db" where
  "record_login_event now email success ip agent uid reason db =
     (let db1 = db\<lparr>logins := logins db @ [\<lparr>le_user = uid, le_email = take 254 email, le_ip = ip, le_agent = agent_text agent,
                le_success = success, le_reason = reason\<rparr>]\<rparr>
      in case (success, uid) of (True, Some u) \<Rightarrow> upd_user u (\<lambda>r. r\<lparr>u_last_login := Some (\<lfloor>now\<rfloor>, ip)\<rparr>) db1 | _ \<Rightarrow> db1)"

section \<open>Verification codes\<close>

definition code_text :: "nat \<Rightarrow> str" where
  "code_text n = (let s = show_nat n in replicate (6 - length s) 48 @ s)"

definition use_code :: "(code_row \<Rightarrow> bool) \<Rightarrow> auth_db \<Rightarrow> auth_db" where
  "use_code P db = db\<lparr>codes := map (\<lambda>r. if P r then r\<lparr>vc_used := True\<rparr> else r) (codes db)\<rparr>"

text \<open>\<open>n\<close> is the number drawn below a million.\<close>

definition create_verification_code :: "real \<Rightarrow> nat \<Rightarrow> str \<Rightarrow> auth_db \<Rightarrow> str \<times> auth_db" where
  "create_verification_code now n email db =
     (let code = code_text n; key = email_key email;
          db1 = use_code (\<lambda>r. vc_email r = key \<and> \<not> vc_used r) db
      in (code, db1\<lparr>codes := codes db1 @ [\<lparr>vc_id = next_code db, vc_email = key, vc_code = code, vc_created = \<lfloor>now\<rfloor>,
               vc_expires = Some (expiry_after now VERIFICATION_CODE_EXPIRY_MINUTES), vc_attempts = 0, vc_used = False\<rparr>],
             next_code := next_code db + 1\<rparr>))"

text \<open>The newest unused code of an address.\<close>

definition newest_code :: "str \<Rightarrow> auth_db \<Rightarrow> code_row option" where
  "newest_code key db =
     (case filter (\<lambda>r. vc_email r = key \<and> \<not> vc_used r) (codes db) of
        [] \<Rightarrow> None
      | r # rs \<Rightarrow> Some (fold (\<lambda>a b. if vc_created b < vc_created a then a else b) rs r))"

definition NO_CODE :: str where "NO_CODE = hu ''Nincs ~erv~enyes verifik~aci~os k~od. K~erj ~ujat.''"
definition CODE_EXPIRED :: str where "CODE_EXPIRED = hu ''A k~od lej~art. K~erj ~ujat.''"
definition TOO_MANY_TRIES :: str where "TOO_MANY_TRIES = hu ''T~ul sok pr~ob~alkoz~as. K~erj ~uj k~odot.''"
definition CODE_ACCEPTED :: str where "CODE_ACCEPTED = hu ''K~od elfogadva.''"

definition wrong_code :: "int \<Rightarrow> str" where
  "wrong_code left = hu ''Hib~as k~od. M~eg '' @ show_int left @ hu '' pr~ob~alkoz~asod van.''"

definition try_code :: "int \<Rightarrow> auth_db \<Rightarrow> nat \<times> auth_db" where
  "try_code cid db =
     (let hit = (\<lambda>r. vc_id r = cid \<and> vc_attempts r < VERIFICATION_MAX_ATTEMPTS)
      in (length (filter hit (codes db)),
          db\<lparr>codes := map (\<lambda>r. if hit r then r\<lparr>vc_attempts := vc_attempts r + 1\<rparr> else r) (codes db)\<rparr>))"

definition verify_code_in :: "real \<Rightarrow> str \<Rightarrow> str \<Rightarrow> auth_db \<Rightarrow> (bool \<times> str) \<times> auth_db" where
  "verify_code_in now email code db =
     (let key = email_key email in
      case newest_code key db of
        None \<Rightarrow> ((False, NO_CODE), db)
      | Some r \<Rightarrow>
          let used = use_code (\<lambda>q. vc_id q = vc_id r) db
          in if is_expired now (vc_expires r) then ((False, CODE_EXPIRED), used)
             else if VERIFICATION_MAX_ATTEMPTS \<le> vc_attempts r then ((False, TOO_MANY_TRIES), used)
             else if vc_code r \<noteq> code
             then (case try_code (vc_id r) db of (updated, db1) \<Rightarrow>
                     if updated = 0 then ((False, TOO_MANY_TRIES), use_code (\<lambda>q. vc_id q = vc_id r) db1)
                     else ((False, wrong_code (VERIFICATION_MAX_ATTEMPTS - vc_attempts r - 1)), db1))
             else ((True, CODE_ACCEPTED),
                   used\<lparr>verified := AList.update key (Some (expiry_after now EMAIL_VERIFIED_WINDOW_MINUTES)) (verified used)\<rparr>))"

definition is_email_verified :: "real \<Rightarrow> str \<Rightarrow> auth_db \<Rightarrow> bool \<times> auth_db" where
  "is_email_verified now email db =
     (case map_of (verified db) (email_key email) of
        None \<Rightarrow> (False, db)
      | Some stamp \<Rightarrow>
          if is_expired now stamp then (False, db\<lparr>verified := AList.delete (email_key email) (verified db)\<rparr>) else (True, db))"

definition clear_email_verification :: "str \<Rightarrow> auth_db \<Rightarrow> auth_db" where
  "clear_email_verification email db = db\<lparr>verified := AList.delete (email_key email) (verified db)\<rparr>"

section \<open>Sessions\<close>

definition create_session :: "real \<Rightarrow> str \<Rightarrow> int \<Rightarrow> str option \<Rightarrow> str option \<Rightarrow> auth_db \<Rightarrow> auth_db" where
  "create_session now token uid ip agent db =
     db\<lparr>sessions := sessions db @ [\<lparr>ss_id = next_session db, ss_user = uid, ss_token = token,
          ss_expires = Some \<lfloor>now + real_of_int (SESSION_MAX_AGE_DAYS * 86400)\<rfloor>, ss_ip = ip, ss_agent = agent_text agent,
          ss_seen = Some \<lfloor>now\<rfloor>, ss_admin_seen = None, ss_sudo = None\<rparr>], next_session := next_session db + 1\<rparr>"

definition upd_sessions :: "(session_row \<Rightarrow> bool) \<Rightarrow> (session_row \<Rightarrow> session_row) \<Rightarrow> auth_db \<Rightarrow> auth_db" where
  "upd_sessions P f db = db\<lparr>sessions := map (\<lambda>r. if P r then f r else r) (sessions db)\<rparr>"

text \<open>The text of \<^verbatim>\<open>last_seen\<close> is at most \<open>SESSION_SEEN_INTERVAL\<close> whole seconds old, or it is written anew.\<close>

definition seen_stale :: "real \<Rightarrow> int option \<Rightarrow> bool" where
  "seen_stale now stamp \<longleftrightarrow> (case stamp of Some t \<Rightarrow> SESSION_SEEN_INTERVAL < trunc (now - real_of_int t) | None \<Rightarrow> True)"

definition validate_session :: "real \<Rightarrow> str option \<Rightarrow> auth_db \<Rightarrow> user_row option \<times> auth_db" where
  "validate_session now token db =
     (case token of
        None \<Rightarrow> (None, db)
      | Some t \<Rightarrow>
          if t = [] then (None, db)
          else case List.find (\<lambda>r. ss_token r = t \<and> get_user_by_id (ss_user r) db \<noteq> None) (sessions db) of
                 None \<Rightarrow> (None, db)
               | Some r \<Rightarrow>
                   if is_expired now (ss_expires r)
                   then (None, db\<lparr>sessions := filter (\<lambda>q. ss_id q \<noteq> ss_id r) (sessions db)\<rparr>)
                   else case get_user_by_id (ss_user r) db of
                          None \<Rightarrow> (None, db)
                        | Some u \<Rightarrow>
                            if u_deleted u \<or> user_ban now u \<noteq> None then (None, db)
                            else (Some u, if seen_stale now (ss_seen r)
                                          then upd_sessions (\<lambda>q. ss_id q = ss_id r) (\<lambda>q. q\<lparr>ss_seen := Some \<lfloor>now\<rfloor>\<rparr>) db else db))"

definition delete_session :: "str option \<Rightarrow> auth_db \<Rightarrow> auth_db" where
  "delete_session token db =
     (case token of
        None \<Rightarrow> db
      | Some t \<Rightarrow> if t = [] then db else db\<lparr>sessions := filter (\<lambda>r. ss_token r \<noteq> t) (sessions db)\<rparr>)"

definition get_admin_session :: "str option \<Rightarrow> auth_db \<Rightarrow> (int option \<times> int option) option" where
  "get_admin_session token db =
     (case token of
        None \<Rightarrow> None
      | Some t \<Rightarrow> if t = [] then None
                  else map_option (\<lambda>r. (ss_admin_seen r, ss_sudo r)) (List.find (\<lambda>r. ss_token r = t) (sessions db)))"

definition touch_admin_session :: "real \<Rightarrow> str \<Rightarrow> auth_db \<Rightarrow> auth_db" where
  "touch_admin_session now token db = upd_sessions (\<lambda>r. ss_token r = token) (\<lambda>r. r\<lparr>ss_admin_seen := Some \<lfloor>now\<rfloor>\<rparr>) db"

definition set_admin_sudo :: "real \<Rightarrow> str \<Rightarrow> int option \<Rightarrow> auth_db \<Rightarrow> auth_db" where
  "set_admin_sudo now token until db =
     upd_sessions (\<lambda>r. ss_token r = token) (\<lambda>r. r\<lparr>ss_sudo := until, ss_admin_seen := Some \<lfloor>now\<rfloor>\<rparr>) db"

text \<open>The tokens drawn are a stream; the loop may draw for ever.\<close>

partial_function (option) free_token :: "auth_db \<Rightarrow> str stream \<Rightarrow> (str \<times> str stream) option" where
  "free_token db draws =
     (if list_ex (\<lambda>u. u_reconnect u = Some (shd draws)) (users db) then free_token db (stl draws) else Some (shd draws, stl draws))"

definition get_or_create_user_reconnect_token :: "int \<Rightarrow> str stream \<Rightarrow> auth_db \<Rightarrow> ((str \<times> auth_db) \<times> str stream) option" where
  "get_or_create_user_reconnect_token uid draws db =
     (case get_user_by_id uid db \<bind> u_reconnect of
        Some (c # cs) \<Rightarrow> Some ((c # cs, db), draws)
      | _ \<Rightarrow> map_option (\<lambda>(t, rest). ((t, upd_user uid (\<lambda>u. u\<lparr>u_reconnect := Some t\<rparr>) db), rest)) (free_token db draws))"

text \<open>The stamps are texts of one length, so that their order is the order of the times.\<close>

definition outdated :: "int \<Rightarrow> int option \<Rightarrow> bool" where
  "outdated now stamp \<longleftrightarrow> (case stamp of Some t \<Rightarrow> t < now | None \<Rightarrow> False)"

definition cleanup_expired :: "real \<Rightarrow> auth_db \<Rightarrow> auth_db" where
  "cleanup_expired now db =
     db\<lparr>sessions := filter (\<lambda>r. \<not> outdated \<lfloor>now\<rfloor> (ss_expires r)) (sessions db),
        codes := filter (\<lambda>r. \<not> outdated \<lfloor>now\<rfloor> (vc_expires r)) (codes db),
        verified := filter (\<lambda>(_, t). \<not> outdated \<lfloor>now\<rfloor> t) (verified db)\<rparr>"

definition is_admin_email :: "str \<Rightarrow> str set \<Rightarrow> bool" where
  "is_admin_email email admins \<longleftrightarrow> admins \<noteq> {} \<and> to_lowercase (trim email) \<in> admins"

end
