(* ===== verification/HttpAuth.thy ===== *)
theory HttpAuth
  imports UserStore ServerInput Moderation HttpWords
begin

text \<open>
  Registration and login over HTTP (\<^verbatim>\<open>src/src/server/http.rs\<close>). The parsed body is an argument (nothing when it is no
  JSON); a response carries what it does to the session cookie. The drawn code, the new session token, the time, the
  hash of a new password and the check of a password are parameters of a request or of the site.
\<close>

section \<open>The site\<close>

record site =
  admin_emails :: "str set"
  mailer_configured :: bool
  site_banned :: "str list"
  site_fold :: "nat \<Rightarrow> str"
  site_alnum :: "nat \<Rightarrow> bool"
  hash_of :: "str \<Rightarrow> str"
  checks :: "str \<Rightarrow> str \<Rightarrow> bool"
  ban_stamp :: "int \<Rightarrow> str"

record portal =
  adb :: auth_db
  gate :: rate_limiter
  registration_open :: bool
  outbox :: "(str \<times> str) list"

datatype cookie = Untouched | SetCookie str | DropCookie

type_synonym web_reply = "response \<times> cookie"

record visitor =
  v_now :: real
  v_ip :: str
  v_agent :: str
  v_token :: "str option"

definition plain :: "response \<Rightarrow> web_reply" where
  "plain r = (r, Untouched)"

definition refusal :: "nat \<Rightarrow> string \<Rightarrow> web_reply" where
  "refusal status message = plain (http_fail status (hu message))"

definition gate_check :: "visitor \<Rightarrow> string \<Rightarrow> portal \<Rightarrow> bool \<times> portal" where
  "gate_check v act s = (case check_ip (v_now v) (v_ip v) (ascii act) (gate s) of (allowed, l) \<Rightarrow> (allowed, s\<lparr>gate := l\<rparr>))"

text \<open>\<^verbatim>\<open>EMAIL_RE\<close>: letters, digits and some signs, one at sign, and a last label of two letters or more.\<close>

definition is_letter :: "nat \<Rightarrow> bool" where
  "is_letter c \<longleftrightarrow> 65 \<le> c \<and> c \<le> 90 \<or> 97 \<le> c \<and> c \<le> 122"

definition local_char :: "nat \<Rightarrow> bool" where
  "local_char c \<longleftrightarrow> is_letter c \<or> is_digit c \<or> c \<in> {46, 95, 37, 43, 45}"

definition domain_char :: "nat \<Rightarrow> bool" where
  "domain_char c \<longleftrightarrow> is_letter c \<or> is_digit c \<or> c \<in> {46, 45}"

definition EMAIL_RE :: "str \<Rightarrow> bool" where
  "EMAIL_RE s \<longleftrightarrow>
     (let front = takeWhile (\<lambda>c. c \<noteq> 64) s; domain = drop (length front + 1) s;
          top = rev (takeWhile (\<lambda>c. c \<noteq> 46) (rev domain)); rest = take (length domain - length top) domain
      in front \<noteq> [] \<and> list_all local_char front \<and> length front < length s \<and> list_all domain_char domain
         \<and> 2 \<le> length top \<and> list_all is_letter top \<and> 2 \<le> length rest)"

definition bad_email :: "str \<Rightarrow> bool" where
  "bad_email email \<longleftrightarrow> \<not> EMAIL_RE email \<or> 254 < length email"

text \<open>A text field of the body, trimmed; a body that is an object with members.\<close>

definition str_field :: "json \<Rightarrow> string \<Rightarrow> str" where
  "str_field data key = (case jget data (ascii key) \<bind> as_str of Some s \<Rightarrow> trim s | None \<Rightarrow> [])"

definition full_object :: "json option \<Rightarrow> json option" where
  "full_object body = (case body of Some (JObj (kv # kvs)) \<Rightarrow> Some (JObj (kv # kvs)) | _ \<Rightarrow> None)"

definition password_field :: "json \<Rightarrow> str" where
  "password_field data = (case jget data (ascii ''password'') \<bind> as_str of Some s \<Rightarrow> s | None \<Rightarrow> [])"

definition with_admin_flag :: "site \<Rightarrow> (str \<times> json) list \<Rightarrow> str \<Rightarrow> json" where
  "with_admin_flag w user email =
     JObj (if is_admin_email email (admin_emails w) then AList.update (ascii ''is_admin'') (JBool True) user else user)"

section \<open>Registration\<close>

definition request_code :: "site \<Rightarrow> visitor \<Rightarrow> nat \<Rightarrow> json option \<Rightarrow> portal \<Rightarrow> web_reply \<times> portal" where
  "request_code w v n body s =
     (case gate_check v ''request_code'' s of (allowed, s1) \<Rightarrow>
        if \<not> allowed then (refusal 429 ''T~ul sok k~er~es. Pr~ob~ald ~ujra 5 perc m~ulva.'', s1)
        else if \<not> registration_open s1 then (refusal 403 ''A regisztr~aci~o jelenleg le van z~arva.'', s1)
        else case body \<bind> (\<lambda>d. jget d (ascii ''email'')) \<bind> as_str of
               None \<Rightarrow> (refusal 400 ''Email c~im megad~asa k^otelez&o.'', s1)
             | Some raw \<Rightarrow>
                 let email = to_lowercase (trim raw)
                 in if bad_email email then (refusal 400 ''~Erv~enytelen email c~im.'', s1)
                    else if get_user_by_email email (adb s1) \<noteq> None then (refusal 409 ''Ez az email c~im m~ar regisztr~alva van.'', s1)
                    else
                      case create_verification_code (v_now v) n email (adb s1) of (code, db) \<Rightarrow>
                        let payload = (if mailer_configured w
                              then [(ascii ''success'', JBool True), (ascii ''message'', JStr (hu ''Verifik~aci~os k~od elk^uldve.''))]
                              else [(ascii ''success'', JBool True), (ascii ''message'', JStr (hu ''Fejleszt&oi m~od: SMTP nincs konfigur~alva.''))]
                                @ (if is_admin_email email (admin_emails w) then [] else [(ascii ''dev_code'', JStr code)]))
                        in (plain (http_ok (JObj payload)), s1\<lparr>adb := db, outbox := outbox s1 @ [(email, code)]\<rparr>))"

definition verify_code :: "visitor \<Rightarrow> json option \<Rightarrow> portal \<Rightarrow> web_reply \<times> portal" where
  "verify_code v body s =
     (case full_object body of
        None \<Rightarrow> (refusal 400 ''~Erv~enytelen k~er~es.'', s)
      | Some data \<Rightarrow>
          let email = to_lowercase (str_field data ''email''); code = str_field data ''code''
          in if email = [] \<or> code = [] then (refusal 400 ''Email ~es k~od megad~asa k^otelez&o.'', s)
             else if length code \<noteq> 6 \<or> \<not> list_all is_digit code then (refusal 400 ''A k~od 6 sz~amjegyb&ol ~all.'', s)
             else case verify_code_in (v_now v) email code (adb s) of ((success, message), db) \<Rightarrow>
               (plain (if success then 200 else 400, JObj [(ascii ''success'', JBool success), (ascii ''message'', JStr message)]), s\<lparr>adb := db\<rparr>))"

text \<open>What is wrong with a registration, in the order of the checks.\<close>

definition registration_error :: "site \<Rightarrow> str \<Rightarrow> str \<Rightarrow> str \<Rightarrow> web_reply option" where
  "registration_error w email password display =
     (if email = [] \<or> password = [] \<or> display = [] then Some (refusal 400 ''Minden mez&o kit^olt~ese k^otelez&o.'')
      else if bad_email email then Some (refusal 400 ''~Erv~enytelen email c~im.'')
      else if length password < 6 then Some (refusal 400 ''A jelsz~o legal~abb 6 karakter legyen.'')
      else if 128 < length password then Some (refusal 400 ''A jelsz~o maximum 128 karakter lehet.'')
      else case sanitize_name_str (site_alnum w) display of
             None \<Rightarrow> Some (refusal 400 ''~Erv~enytelen megjelen~it~esi n~ev (1-20 karakter, bet&uk ~es sz~amok).'')
           | Some n \<Rightarrow> if contains_banned (site_fold w) (site_banned w) n then Some (refusal 400 ''Ez a n~ev nem enged~elyezett.'') else None)"

definition open_session :: "site \<Rightarrow> visitor \<Rightarrow> str \<Rightarrow> str \<Rightarrow> int \<Rightarrow> string \<Rightarrow> auth_db \<Rightarrow> auth_db" where
  "open_session w v token email uid reason db =
     (let db1 = record_login_event (v_now v) email True (Some (v_ip v)) (Some (v_agent v)) (Some uid) (ascii reason)
                  (create_session (v_now v) token uid (Some (v_ip v)) (Some (v_agent v)) db)
      in if is_admin_email email (admin_emails w) then touch_admin_session (v_now v) token db1 else db1)"

definition user_json :: "int \<Rightarrow> str \<Rightarrow> str \<Rightarrow> (str \<times> json) list" where
  "user_json uid email display = [(ascii ''id'', JInt uid), (ascii ''email'', JStr email), (ascii ''display_name'', JStr display)]"

definition register :: "site \<Rightarrow> visitor \<Rightarrow> str \<Rightarrow> json option \<Rightarrow> portal \<Rightarrow> web_reply \<times> portal" where
  "register w v token body s =
     (case gate_check v ''register'' s of (allowed, s1) \<Rightarrow>
        if \<not> allowed then (refusal 429 ''T~ul sok regisztr~aci~o. Pr~ob~ald ~ujra k~es&obb.'', s1)
        else if \<not> registration_open s1 then (refusal 403 ''A regisztr~aci~o jelenleg le van z~arva.'', s1)
        else case full_object body of
               None \<Rightarrow> (refusal 400 ''~Erv~enytelen k~er~es.'', s1)
             | Some data \<Rightarrow>
                 let email = to_lowercase (str_field data ''email''); password = password_field data; display = str_field data ''display_name''
                 in case registration_error w email password display of
                      Some refused \<Rightarrow> (refused, s1)
                    | None \<Rightarrow>
                        if get_user_by_email email (adb s1) \<noteq> None then (refusal 409 ''Ez az email c~im m~ar regisztr~alva van.'', s1)
                        else case is_email_verified (v_now v) email (adb s1) of (ok, db1) \<Rightarrow>
                          if \<not> ok then (refusal 403 ''Az email c~imet el&obb meg kell er&os~iteni a k~oddal.'', s1\<lparr>adb := db1\<rparr>)
                          else
                            let n = the (sanitize_name_str (site_alnum w) display)
                            in case create_user (hash_of w) email n password db1 of
                                 (Inl message, db2) \<Rightarrow> (plain (http_fail 409 message), s1\<lparr>adb := db2\<rparr>)
                               | (Inr uid, db2) \<Rightarrow>
                                   (((http_ok (JObj [(ascii ''success'', JBool True), (ascii ''message'', JStr (hu ''Fi~ok l~etrehozva!'')),
                                        (ascii ''user'', with_admin_flag w (user_json uid email n) email)]), SetCookie token),
                                    s1\<lparr>adb := open_session w v token email uid ''register'' (clear_email_verification email db2)\<rparr>)))"

section \<open>Login\<close>

definition login_request :: "site \<Rightarrow> visitor \<Rightarrow> str \<Rightarrow> json option \<Rightarrow> portal \<Rightarrow> web_reply \<times> portal" where
  "login_request w v token body s =
     (case gate_check v ''login'' s of (allowed, s1) \<Rightarrow>
        if \<not> allowed then (refusal 429 ''T~ul sok bejelentkez~esi k~is~erlet. Pr~ob~ald ~ujra 5 perc m~ulva.'', s1)
        else case full_object body of
               None \<Rightarrow> (refusal 400 ''~Erv~enytelen k~er~es.'', s1)
             | Some data \<Rightarrow>
                 let email = to_lowercase (str_field data ''email''); password = password_field data;
                     failed = (\<lambda>uid reason. s1\<lparr>adb := record_login_event (v_now v) email False (Some (v_ip v)) (Some (v_agent v)) uid (ascii reason) (adb s1)\<rparr>)
                 in if email = [] \<or> password = [] then (refusal 400 ''Email ~es jelsz~o megad~asa k^otelez&o.'', s1)
                    else case verify_password (checks w) email password (adb s1) of
                           Inl message \<Rightarrow> (plain (http_fail 401 message), failed None ''bad_credentials'')
                         | Inr u \<Rightarrow>
                             (case user_ban (v_now v) u of
                                Some b \<Rightarrow>
                                  (plain (403, JObj [(ascii ''success'', JBool False), (ascii ''message'', JStr (hu ''A fi~okod ki van tiltva.'')),
                                      (ascii ''banned'', ban_json (ban_stamp w) b)]), failed (Some (u_id u)) ''banned'')
                              | None \<Rightarrow>
                                  let db1 = record_login_event (v_now v) email True (Some (v_ip v)) (Some (v_agent v)) (Some (u_id u)) []
                                        (create_session (v_now v) token (u_id u) (Some (v_ip v)) (Some (v_agent v)) (adb s1));
                                      db2 = (if is_admin_email (u_email u) (admin_emails w) then touch_admin_session (v_now v) token db1 else db1)
                                  in ((http_ok (JObj [(ascii ''success'', JBool True), (ascii ''message'', JStr (hu ''Sikeres bejelentkez~es!'')),
                                         (ascii ''user'', with_admin_flag w (user_json (u_id u) (u_email u) (u_name u)) (u_email u))]), SetCookie token),
                                      s1\<lparr>adb := db2\<rparr>)))"

definition logout_request :: "visitor \<Rightarrow> portal \<Rightarrow> web_reply \<times> portal" where
  "logout_request v s =
     ((http_ok (JObj [(ascii ''success'', JBool True), (ascii ''message'', JStr (hu ''Kijelentkezve.''))]), DropCookie),
      case v_token v of Some t \<Rightarrow> s\<lparr>adb := delete_session (Some t) (adb s)\<rparr> | None \<Rightarrow> s)"

definition session_user :: "visitor \<Rightarrow> portal \<Rightarrow> user_row option \<times> portal" where
  "session_user v s = (case validate_session (v_now v) (v_token v) (adb s) of (u, db) \<Rightarrow> (u, s\<lparr>adb := db\<rparr>))"

definition me_request :: "site \<Rightarrow> visitor \<Rightarrow> portal \<Rightarrow> web_reply \<times> portal" where
  "me_request w v s =
     (case session_user v s of
        (None, s1) \<Rightarrow> (plain no_session, s1)
      | (Some u, s1) \<Rightarrow>
          (case u_games u of (played, won, points) \<Rightarrow>
             (plain (http_ok (JObj [(ascii ''success'', JBool True), (ascii ''user'',
                with_admin_flag w (user_json (u_id u) (u_email u) (u_name u) @ [(ascii ''games_played'', JInt played),
                  (ascii ''games_won'', JInt won), (ascii ''total_score'', JInt points)]) (u_email u))])), s1)))"

text \<open>The token that proves the user to the socket; its signature is a library call.\<close>

definition socket_token :: "(int \<Rightarrow> str) \<Rightarrow> visitor \<Rightarrow> portal \<Rightarrow> web_reply \<times> portal" where
  "socket_token sign v s =
     (case session_user v s of
        (None, s1) \<Rightarrow> (plain no_session, s1)
      | (Some u, s1) \<Rightarrow> (plain (http_ok (JObj [(ascii ''success'', JBool True), (ascii ''token'', JStr (sign (u_id u)))])), s1))"

text \<open>\<^verbatim>\<open>f64::round\<close> goes away from zero at a half.\<close>

definition round1 :: "real \<Rightarrow> real" where
  "round1 x = (if 0 \<le> x then real_of_int \<lfloor>x * 10 + 0.5\<rfloor> else - real_of_int \<lfloor>- x * 10 + 0.5\<rfloor>) / 10"

definition history_json :: "json \<Rightarrow> json" where
  "history_json h =
     (let change = (case (jget h (ascii ''rating_before'') \<bind> as_i64, jget h (ascii ''rating_after'') \<bind> as_i64) of
                      (Some before, Some after) \<Rightarrow> JInt (after - before) | _ \<Rightarrow> JNull)
      in JObj [(ascii ''game_id'', field h (ascii ''game_id'')), (ascii ''room_name'', field h (ascii ''room_name'')),
           (ascii ''created_at'', field h (ascii ''created_at'')), (ascii ''final_score'', field h (ascii ''final_score'')),
           (ascii ''is_winner'', JBool (truthy (field h (ascii ''is_winner'')))), (ascii ''rating_change'', change),
           (ascii ''opponents'', field h (ascii ''opponents''))])"

text \<open>The badges and the last twenty games are answers of the database.\<close>

definition profile_request :: "visitor \<Rightarrow> json \<Rightarrow> json list \<Rightarrow> portal \<Rightarrow> web_reply \<times> portal" where
  "profile_request v badges games s =
     (case session_user v s of
        (None, s1) \<Rightarrow> (plain no_session, s1)
      | (Some u, s1) \<Rightarrow>
          (case u_games u of (played, won, points) \<Rightarrow>
             (plain (http_ok (JObj [(ascii ''success'', JBool True), (ascii ''badges'', badges),
                (ascii ''stats'', JObj [(ascii ''games_played'', JInt played), (ascii ''games_won'', JInt won),
                   (ascii ''win_rate'', JFloat (if 0 < played then round1 (real_of_int won / real_of_int played * 100) else 0)),
                   (ascii ''avg_score'', JFloat (if 0 < played then round1 (real_of_int points / real_of_int played) else 0)),
                   (ascii ''total_score'', JInt points), (ascii ''rating'', JInt (u_rating u)), (ascii ''rated_games'', JInt (u_rated u))]),
                (ascii ''history'', JArr (map history_json games))])), s1)))"

text \<open>A saved game belongs to a user by the tokens, or by name when one of them is missing.\<close>

definition filled :: "str option \<Rightarrow> str option" where
  "filled t = (case t of Some (c # cs) \<Rightarrow> Some (c # cs) | _ \<Rightarrow> None)"

definition is_saved_game_owner :: "str option \<Rightarrow> str option \<Rightarrow> user_row \<Rightarrow> bool" where
  "is_saved_game_owner game_token game_owner u \<longleftrightarrow>
     (case (filled game_token, filled (u_reconnect u)) of
        (Some a, Some b) \<Rightarrow> a = b
      | _ \<Rightarrow> (case game_owner of Some n \<Rightarrow> n | None \<Rightarrow> []) = u_name u)"

end
