(* ===== verification/AuthProps.thy ===== *)
theory AuthProps
  imports HttpAuth
begin

text \<open>
  Registration proves the address: over every sequence of requests an account is only made for an address whose mailed
  code was entered before, and a code withstands guessing.
\<close>

section \<open>Requests\<close>

datatype auth_event =
    AskCode nat "json option"
  | EnterCode "json option"
  | SignUp str "json option"
  | SignIn str "json option"
  | SignOut
  | AskMe
  | CleanUp

fun auth_answer :: "site \<Rightarrow> visitor \<Rightarrow> auth_event \<Rightarrow> portal \<Rightarrow> web_reply \<times> portal" where
  "auth_answer w v (AskCode n body) s = request_code w v n body s"
| "auth_answer w v (EnterCode body) s = verify_code v body s"
| "auth_answer w v (SignUp token body) s = register w v token body s"
| "auth_answer w v (SignIn token body) s = login_request w v token body s"
| "auth_answer w v SignOut s = logout_request v s"
| "auth_answer w v AskMe s = me_request w v s"
| "auth_answer w v CleanUp s = (plain (http_ok JNull), s\<lparr>adb := cleanup_expired (v_now v) (adb s)\<rparr>)"

type_synonym auth_trace = "(visitor \<times> auth_event \<times> web_reply) list"

definition auth_moves :: "site \<Rightarrow> auth_trace \<times> portal \<Rightarrow> visitor \<times> auth_event \<Rightarrow> auth_trace \<times> portal \<Rightarrow> bool" where
  "auth_moves w st e st' \<longleftrightarrow>
     (case auth_answer w (fst e) (snd e) (snd st) of (r, s') \<Rightarrow> st' = (fst st @ [(fst e, snd e, r)], s'))"

definition reply_status :: "web_reply \<Rightarrow> nat" where
  "reply_status r = fst (fst r)"

text \<open>The address of a request, as the tables know it.\<close>

definition asked_key :: "json option \<Rightarrow> str" where
  "asked_key body = (case body \<bind> (\<lambda>d. jget d (ascii ''email'')) \<bind> as_str of Some raw \<Rightarrow> email_key (to_lowercase (trim raw)) | None \<Rightarrow> [])"

definition body_key :: "json option \<Rightarrow> str" where
  "body_key body = (case body of Some data \<Rightarrow> email_key (to_lowercase (str_field data ''email'')) | None \<Rightarrow> [])"

definition body_code :: "json option \<Rightarrow> str" where
  "body_code body = (case body of Some data \<Rightarrow> str_field data ''code'' | None \<Rightarrow> [])"

text \<open>The code mailed last to every address.\<close>

fun note_sent :: "visitor \<times> auth_event \<times> web_reply \<Rightarrow> (str \<Rightarrow> str option) \<Rightarrow> str \<Rightarrow> str option" where
  "note_sent (v, AskCode n body, r) m = (if reply_status r = 200 then m(asked_key body := Some (code_text n)) else m)"
| "note_sent _ m = m"

definition sent_code :: "auth_trace \<Rightarrow> str \<Rightarrow> str option" where
  "sent_code tr = fold note_sent tr (\<lambda>_. None)"

fun sends :: "str \<Rightarrow> visitor \<times> auth_event \<times> web_reply \<Rightarrow> bool" where
  "sends key (v, AskCode n body, r) \<longleftrightarrow> reply_status r = 200 \<and> asked_key body = key"
| "sends key _ \<longleftrightarrow> False"

fun signs_up :: "str \<Rightarrow> visitor \<times> auth_event \<times> web_reply \<Rightarrow> bool" where
  "signs_up key (v, SignUp token body, r) \<longleftrightarrow> reply_status r = 200 \<and> body_key body = key"
| "signs_up key _ \<longleftrightarrow> False"

text \<open>An answer to a code that was compared with the mailed one; how many there were since the last mail.\<close>

definition says_wrong :: "web_reply \<Rightarrow> bool" where
  "says_wrong r \<longleftrightarrow>
     (case jget (snd (fst r)) (ascii ''message'') of Some (JStr m) \<Rightarrow> take 9 m = hu ''Hib~as k~od'' | _ \<Rightarrow> False)"

fun judged :: "str \<Rightarrow> visitor \<times> auth_event \<times> web_reply \<Rightarrow> bool" where
  "judged key (v, EnterCode body, r) \<longleftrightarrow> body_key body = key \<and> (reply_status r = 200 \<or> says_wrong r)"
| "judged key _ \<longleftrightarrow> False"

definition count_step :: "str \<Rightarrow> visitor \<times> auth_event \<times> web_reply \<Rightarrow> nat \<Rightarrow> nat" where
  "count_step key x n = (if sends key x then 0 else if judged key x then n + 1 else n)"

definition tries_since :: "auth_trace \<Rightarrow> str \<Rightarrow> nat" where
  "tries_since tr key = fold (count_step key) tr 0"

text \<open>The address was proved by the code that was mailed last, and the proof is not used up; it is good until \<open>t\<close>.\<close>

definition proved :: "auth_trace \<Rightarrow> str \<Rightarrow> int \<Rightarrow> bool" where
  "proved tr key t \<longleftrightarrow> (\<exists>tr1 v body r tr2. tr = tr1 @ (v, EnterCode body, r) # tr2 \<and> reply_status r = 200 \<and> body_key body = key
     \<and> sent_code tr1 key = Some (body_code body) \<and> t = expiry_after (v_now v) EMAIL_VERIFIED_WINDOW_MINUTES \<and> list_all (\<lambda>x. \<not> signs_up key x) tr2)"

lemma proved_snoc: "proved tr key t \<Longrightarrow> \<not> signs_up key x \<Longrightarrow> proved (tr @ [x]) key t"
proof -
  assume p: "proved tr key t" and x: "\<not> signs_up key x"
  obtain tr1 v body r tr2 where d: "tr = tr1 @ (v, EnterCode body, r) # tr2" "reply_status r = 200" "body_key body = key"
      "sent_code tr1 key = Some (body_code body)" "t = expiry_after (v_now v) EMAIL_VERIFIED_WINDOW_MINUTES" "list_all (\<lambda>x. \<not> signs_up key x) tr2"
    using p unfolding proved_def by blast
  then have "tr @ [x] = tr1 @ (v, EnterCode body, r) # (tr2 @ [x])" "list_all (\<lambda>x. \<not> signs_up key x) (tr2 @ [x])" using x by simp_all
  then show ?thesis unfolding proved_def using d(2-5) by blast
qed

lemma proved_now:
  assumes "reply_status r = 200" "sent_code tr (body_key body) = Some (body_code body)"
  shows "proved (tr @ [(v, EnterCode body, r)]) (body_key body) (expiry_after (v_now v) EMAIL_VERIFIED_WINDOW_MINUTES)"
  unfolding proved_def using assms by (intro exI [of _ tr] exI [of _ v] exI [of _ body] exI [of _ r] exI [of _ "[]"]) simp

lemma sent_code_snoc: "sent_code (tr @ [x]) = note_sent x (sent_code tr)"
  by (simp add: sent_code_def)

lemma tries_snoc: "tries_since (tr @ [x]) key = count_step key x (tries_since tr key)"
  by (simp add: tries_since_def)

section \<open>The invariant\<close>

text \<open>An unused row of the table holds the code mailed last and has counted every guess since; an address has one at most.\<close>

definition code_fits :: "auth_trace \<Rightarrow> code_row \<Rightarrow> bool" where
  "code_fits tr r \<longleftrightarrow> sent_code tr (vc_email r) = Some (vc_code r) \<and> int (tries_since tr (vc_email r)) \<le> vc_attempts r"

definition unused_of :: "str \<Rightarrow> code_row list \<Rightarrow> code_row list" where
  "unused_of key rows = filter (\<lambda>r. vc_email r = key \<and> \<not> vc_used r) rows"

definition mail_codes_ok :: "auth_trace \<Rightarrow> code_row list \<Rightarrow> bool" where
  "mail_codes_ok tr rows \<longleftrightarrow> (\<forall>r\<in>set rows. \<not> vc_used r \<longrightarrow> code_fits tr r) \<and> (\<forall>key. length (unused_of key rows) \<le> 1)"

definition proofs_ok :: "auth_trace \<Rightarrow> (str \<times> int option) list \<Rightarrow> bool" where
  "proofs_ok tr vs \<longleftrightarrow> (\<forall>key stamp. map_of vs key = Some stamp \<longrightarrow> (\<exists>t. stamp = Some t \<and> proved tr key t))"

definition auth_ok :: "auth_trace \<Rightarrow> portal \<Rightarrow> bool" where
  "auth_ok tr s \<longleftrightarrow> mail_codes_ok tr (codes (adb s)) \<and> proofs_ok tr (verified (adb s)) \<and> distinct (map fst (verified (adb s)))
     \<and> (\<forall>key. int (tries_since tr key) \<le> VERIFICATION_MAX_ATTEMPTS)"

lemma mail_codes_ok_one: "mail_codes_ok tr rows \<Longrightarrow> length (unused_of key rows) \<le> 1"
  by (simp add: mail_codes_ok_def)

lemma mail_codes_ok_fits: "mail_codes_ok tr rows \<Longrightarrow> r \<in> set rows \<Longrightarrow> \<not> vc_used r \<Longrightarrow> code_fits tr r"
  by (simp add: mail_codes_ok_def)

text \<open>Rows that only age: the address and the code stay, used stays used.\<close>

definition aged :: "(code_row \<Rightarrow> code_row) \<Rightarrow> bool" where
  "aged f \<longleftrightarrow> (\<forall>r. vc_email (f r) = vc_email r \<and> vc_code (f r) = vc_code r \<and> (vc_used r \<longrightarrow> vc_used (f r)) \<and> vc_attempts r \<le> vc_attempts (f r))"

lemma filter_map_shrinks: "(\<And>r. P (f r) \<Longrightarrow> P r) \<Longrightarrow> length (filter P (map f rs)) \<le> length (filter P rs)"
  by (induction rs) (auto intro: le_SucI)

lemma unused_map: "aged f \<Longrightarrow> length (unused_of key (map f rows)) \<le> length (unused_of key rows)"
  unfolding unused_of_def by (intro filter_map_shrinks) (auto simp: aged_def)

lemma fits_aged: "aged f \<Longrightarrow> code_fits tr r \<Longrightarrow> code_fits tr (f r)"
proof -
  assume f: "aged f" and ok: "code_fits tr r"
  have "vc_email (f r) = vc_email r" "vc_code (f r) = vc_code r" "vc_attempts r \<le> vc_attempts (f r)" using f by (simp_all add: aged_def)
  then show ?thesis using ok by (simp add: code_fits_def)
qed

lemma mail_codes_ok_aged: "aged f \<Longrightarrow> mail_codes_ok tr rows \<Longrightarrow> mail_codes_ok tr (map f rows)"
proof -
  assume f: "aged f" and ok: "mail_codes_ok tr rows"
  have one: "length (unused_of key (map f rows)) \<le> 1" for key
    using unused_map [OF f, of key rows] ok unfolding mail_codes_ok_def by (meson order_trans)
  have "code_fits tr (f r)" if "r \<in> set rows" "\<not> vc_used (f r)" for r
  proof -
    have "\<not> vc_used r" using f that(2) by (auto simp: aged_def)
    then show ?thesis using ok that(1) fits_aged [OF f] by (simp add: mail_codes_ok_def)
  qed
  then show ?thesis using one unfolding mail_codes_ok_def by simp
qed

lemma mail_codes_ok_filter: "mail_codes_ok tr rows \<Longrightarrow> mail_codes_ok tr (filter P rows)"
proof -
  assume ok: "mail_codes_ok tr rows"
  have "length (unused_of key (filter P rows)) \<le> length (unused_of key rows)" for key
    by (induction rows) (auto simp: unused_of_def intro: le_SucI)
  then have "length (unused_of key (filter P rows)) \<le> 1" for key
    using ok unfolding mail_codes_ok_def by (meson order_trans)
  then show ?thesis using ok unfolding mail_codes_ok_def by simp
qed

lemma mail_codes_ok_cong:
  assumes "\<And>key. sent_code tr' key = sent_code tr key" "\<And>key. tries_since tr' key = tries_since tr key"
  shows "mail_codes_ok tr' rows = mail_codes_ok tr rows"
  using assms by (simp add: mail_codes_ok_def code_fits_def)

lemma aged_simps: "aged (\<lambda>r. if P r then r\<lparr>vc_used := True\<rparr> else r)" "aged (\<lambda>r. if P r then r\<lparr>vc_attempts := vc_attempts r + 1\<rparr> else r)"
  by (simp_all add: aged_def)

lemma mail_codes_ok_use: "mail_codes_ok tr (codes db) \<Longrightarrow> mail_codes_ok tr (codes (use_code P db))"
  by (simp add: use_code_def mail_codes_ok_aged aged_simps)

lemma verified_use [simp]: "verified (use_code P db) = verified db"
  by (simp add: use_code_def)

lemma verified_try [simp]: "verified (snd (try_code cid db)) = verified db"
  by (simp add: try_code_def Let_def)

lemma mail_codes_ok_create:
  assumes "mail_codes_ok tr (codes db)" "\<And>key. sent_code tr' key = (if key = email_key email then Some (code_text n) else sent_code tr key)"
    "\<And>key. tries_since tr' key = (if key = email_key email then 0 else tries_since tr key)"
  shows "mail_codes_ok tr' (codes (snd (create_verification_code now n email db)))"
proof -
  let ?f = "\<lambda>r. if vc_email r = email_key email \<and> \<not> vc_used r then r\<lparr>vc_used := True\<rparr> else r"
  let ?new = "\<lparr>vc_id = next_code db, vc_email = email_key email, vc_code = code_text n, vc_created = \<lfloor>now\<rfloor>,
               vc_expires = Some (expiry_after now VERIFICATION_CODE_EXPIRY_MINUTES), vc_attempts = 0, vc_used = False\<rparr>"
  define old where "old = map ?f (codes db)"
  have ok: "mail_codes_ok tr old" using assms(1) unfolding old_def by (rule mail_codes_ok_aged [OF aged_simps(1)])
  have none: "unused_of (email_key email) old = []" by (auto simp: unused_of_def old_def filter_empty_conv)
  have rows: "codes (snd (create_verification_code now n email db)) = old @ [?new]"
    by (simp add: create_verification_code_def Let_def use_code_def old_def)
  have one: "length (unused_of key (old @ [?new])) \<le> 1" for key
  proof (cases "key = email_key email")
    case True
    then show ?thesis using none by (simp add: unused_of_def)
  next
    case False
    then have "unused_of key (old @ [?new]) = unused_of key old" by (simp add: unused_of_def)
    then show ?thesis using mail_codes_ok_one [OF ok, of key] by (simp only:)
  qed
  have fits: "code_fits tr' r" if "r \<in> set old" "\<not> vc_used r" for r
  proof -
    have "\<forall>r\<in>set old. vc_email r = email_key email \<longrightarrow> vc_used r" using none by (simp add: unused_of_def filter_empty_conv)
    then have "vc_email r \<noteq> email_key email" using that by blast
    then show ?thesis using mail_codes_ok_fits [OF ok that] by (simp add: code_fits_def assms(2,3))
  qed
  have "code_fits tr' ?new" by (simp add: code_fits_def assms(2,3))
  then have "\<forall>r\<in>set (old @ [?new]). \<not> vc_used r \<longrightarrow> code_fits tr' r" using fits by simp
  then show ?thesis unfolding mail_codes_ok_def rows using one by blast
qed

lemma newest_code_in:
  assumes "newest_code key db = Some r"
  shows "r \<in> set (codes db) \<and> vc_email r = key \<and> \<not> vc_used r"
proof -
  have m: "fold (\<lambda>a b. if vc_created b < vc_created a then a else b) rs q \<in> insert q (set rs)" for rs and q :: code_row
  proof (induction rs arbitrary: q)
    case (Cons a rs)
    show ?case using Cons [of "if vc_created q < vc_created a then a else q"] by (auto split: if_splits)
  qed simp
  obtain q rs where q: "filter (\<lambda>r. vc_email r = key \<and> \<not> vc_used r) (codes db) = q # rs"
    using assms by (auto simp: newest_code_def split: list.splits)
  have "r \<in> insert q (set rs)" using assms m [of rs q] by (simp add: newest_code_def q)
  then have "r \<in> set (filter (\<lambda>r. vc_email r = key \<and> \<not> vc_used r) (codes db))" unfolding q by simp
  then show ?thesis by simp
qed

lemma only_code:
  assumes "mail_codes_ok tr rows" "r \<in> set rows" "q \<in> set rows" "\<not> vc_used r" "\<not> vc_used q" "vc_email r = vc_email q"
  shows "r = q"
proof -
  have "r \<in> set (unused_of (vc_email q) rows)" "q \<in> set (unused_of (vc_email q) rows)" using assms by (simp_all add: unused_of_def)
  moreover have "length (unused_of (vc_email q) rows) \<le> 1" using assms(1) by (simp add: mail_codes_ok_def)
  ultimately show ?thesis by (cases "unused_of (vc_email q) rows") auto
qed

section \<open>What the requests keep\<close>

abbreviation code_table :: "portal \<Rightarrow> code_row list" where
  "code_table s \<equiv> codes (adb s)"

abbreviation proof_table :: "portal \<Rightarrow> (str \<times> int option) list" where
  "proof_table s \<equiv> verified (adb s)"

lemma upd_user_tables [simp]: "codes (upd_user uid f db) = codes db" "verified (upd_user uid f db) = verified db"
  by (simp_all add: upd_user_def)

lemma upd_sessions_tables [simp]: "codes (upd_sessions P f db) = codes db" "verified (upd_sessions P f db) = verified db"
  by (simp_all add: upd_sessions_def)

lemma login_event_tables [simp]:
  "codes (record_login_event now email ok ip agent uid reason db) = codes db"
  "verified (record_login_event now email ok ip agent uid reason db) = verified db"
  by (simp_all add: record_login_event_def Let_def split: bool.splits option.splits)

lemma session_tables [simp]:
  "codes (create_session now token uid ip agent db) = codes db" "verified (create_session now token uid ip agent db) = verified db"
  "codes (touch_admin_session now token db) = codes db" "verified (touch_admin_session now token db) = verified db"
  "codes (delete_session t db) = codes db" "verified (delete_session t db) = verified db"
  by (simp_all add: create_session_def touch_admin_session_def delete_session_def split: option.splits)

lemma validate_tables [simp]:
  "codes (snd (validate_session now t db)) = codes db" "verified (snd (validate_session now t db)) = verified db"
  by (simp_all add: validate_session_def split: option.splits)

lemma open_session_tables [simp]:
  "codes (open_session w v token email uid reason db) = codes db" "verified (open_session w v token email uid reason db) = verified db"
  by (simp_all add: open_session_def Let_def)

lemma create_user_tables [simp]:
  "codes (snd (create_user h email n p db)) = codes db" "verified (snd (create_user h email n p db)) = verified db"
  by (simp_all add: create_user_def)

lemma clear_tables [simp]: "codes (clear_email_verification email db) = codes db"
  "verified (clear_email_verification email db) = AList.delete (email_key email) (verified db)"
  by (simp_all add: clear_email_verification_def)

lemma gate_tables: "gate_check v act s = (ok, s') \<Longrightarrow> adb s' = adb s \<and> registration_open s' = registration_open s"
  by (auto simp: gate_check_def split: prod.splits)

lemma login_keeps: "adb (snd (login_request w v token body s)) = db \<Longrightarrow> codes db = code_table s \<and> verified db = proof_table s"
  by (auto simp: login_request_def Let_def gate_check_def split: prod.splits option.splits sum.splits if_splits)

lemma logout_keeps: "code_table (snd (logout_request v s)) = code_table s \<and> proof_table (snd (logout_request v s)) = proof_table s"
  by (simp add: logout_request_def split: option.splits)

lemma session_user_keeps: "session_user v s = (u, s1) \<Longrightarrow> code_table s1 = code_table s \<and> proof_table s1 = proof_table s"
  using validate_tables [of "v_now v" "v_token v" "adb s"]
  by (cases "validate_session (v_now v) (v_token v) (adb s)") (auto simp: session_user_def)

lemma me_keeps: "code_table (snd (me_request w v s)) = code_table s \<and> proof_table (snd (me_request w v s)) = proof_table s"
proof -
  obtain u s1 where u: "session_user v s = (u, s1)" by fastforce
  show ?thesis using session_user_keeps [OF u] by (cases u) (auto simp: me_request_def u split: prod.splits)
qed

lemma refusal_status [simp]: "reply_status (refusal n m) = n" "reply_status (plain (http_fail n m')) = n"
  by (simp_all add: reply_status_def refusal_def plain_def http_fail_def)

lemma registration_error_status: "registration_error w e p d = Some r \<Longrightarrow> reply_status r = 400"
  by (auto simp: registration_error_def split: if_splits option.splits)

text \<open>A registration that is answered with success used up the proof of its address; another one changes nothing but an
  expired proof.\<close>

lemma register_effect:
  assumes "register w v token body s = (r, s')"
  shows "code_table s' = code_table s
    \<and> (reply_status r = 200 \<and> proof_table s' = AList.delete (body_key body) (proof_table s)
         \<and> (\<exists>stamp. map_of (proof_table s) (body_key body) = Some stamp \<and> \<not> is_expired (v_now v) stamp)
       \<or> reply_status r \<noteq> 200 \<and> (proof_table s' = proof_table s \<or> proof_table s' = AList.delete (body_key body) (proof_table s)))"
proof -
  obtain allowed s1 where g: "gate_check v ''register'' s = (allowed, s1)" by fastforce
  have k: "adb s1 = adb s" using gate_tables [OF g] by simp
  consider (early) "adb s' = adb s" "reply_status r \<noteq> 200"
    | (late) data email password display where "full_object body = Some data" "email = to_lowercase (str_field data ''email'')"
        "password = password_field data" "display = str_field data ''display_name''" "registration_error w email password display = None"
        "(case is_email_verified (v_now v) email (adb s1) of (ok, db1) \<Rightarrow>
                          if \<not> ok then (refusal 403 ''Az email c~imet el&obb meg kell er&os~iteni a k~oddal.'', s1\<lparr>adb := db1\<rparr>)
                          else
                            let n = the (sanitize_name_str (site_alnum w) display)
                            in case create_user (hash_of w) email n password db1 of
                                 (Inl message, db2) \<Rightarrow> (plain (http_fail 409 message), s1\<lparr>adb := db2\<rparr>)
                               | (Inr uid, db2) \<Rightarrow>
                                   (((http_ok (JObj [(ascii ''success'', JBool True), (ascii ''message'', JStr (hu ''Fi~ok l~etrehozva!'')),
                                        (ascii ''user'', with_admin_flag w (user_json uid email n) email)]), SetCookie token),
                                    s1\<lparr>adb := open_session w v token email uid ''register'' (clear_email_verification email db2)\<rparr>))) = (r, s')"
    using assms g k
    by (auto simp: register_def Let_def registration_error_status split: if_splits option.splits)
  then show ?thesis
  proof cases
    case early
    then show ?thesis by simp
  next
    case late
    have key: "body_key body = email_key email" using late(1,2) by (auto simp: body_key_def full_object_def split: option.splits json.splits list.splits)
    show ?thesis
    proof (cases "is_email_verified (v_now v) email (adb s1)")
      case (Pair ok db1)
      have db1: "codes db1 = code_table s" "verified db1 = proof_table s \<or> verified db1 = AList.delete (body_key body) (proof_table s)"
        "ok \<longrightarrow> db1 = adb s \<and> (\<exists>stamp. map_of (proof_table s) (body_key body) = Some stamp \<and> \<not> is_expired (v_now v) stamp)"
        using Pair k key by (auto simp: is_email_verified_def split: option.splits if_splits)
      let ?n = "the (sanitize_name_str (site_alnum w) display)"
      show ?thesis
      proof (cases ok)
        case False
        then show ?thesis using late(6) Pair db1 by auto
      next
        case True
        obtain res db2 where c: "create_user (hash_of w) email ?n password db1 = (res, db2)" by fastforce
        have "codes db2 = codes db1" "verified db2 = verified db1" using create_user_tables [of "hash_of w" email ?n password db1] by (simp_all add: c)
        then show ?thesis using late(6) Pair db1 True c key
          by (cases res) (auto simp: Let_def http_ok_def reply_status_def plain_def http_fail_def)
      qed
    qed
  qed
qed

text \<open>A request for a code that is answered with success mailed the code it stored; another one changes nothing.\<close>

lemma request_code_effect:
  assumes "request_code w v n body s = (r, s')"
  shows "reply_status r \<noteq> 200 \<and> adb s' = adb s
    \<or> reply_status r = 200 \<and> (\<exists>email. email_key email = asked_key body \<and> adb s' = snd (create_verification_code (v_now v) n email (adb s)))"
proof -
  obtain allowed s1 where g: "gate_check v ''request_code'' s = (allowed, s1)" by fastforce
  have k: "adb s1 = adb s" using gate_tables [OF g] by simp
  show ?thesis
  proof (cases "body \<bind> (\<lambda>d. jget d (ascii ''email'')) \<bind> as_str")
    case None
    then show ?thesis using assms g k by (auto simp: request_code_def Let_def split: if_splits)
  next
    case (Some raw)
    then have "asked_key body = email_key (to_lowercase (trim raw))" by (simp add: asked_key_def)
    then show ?thesis using assms g k Some
      by (cases "create_verification_code (v_now v) n (to_lowercase (trim raw)) (adb s)")
        (auto simp: request_code_def Let_def http_ok_def reply_status_def plain_def refusal_def http_fail_def split: if_splits)
  qed
qed

text \<open>Entering a code: it is refused unseen, or found wrong and counted, or accepted.\<close>

lemma says_wrong_simps [simp]: "says_wrong (refusal n m) = (take 9 (hu m) = hu ''Hib~as k~od'')"
  "says_wrong (plain (n', JObj [(ascii ''success'', b), (ascii ''message'', JStr t)])) = (take 9 t = hu ''Hib~as k~od'')"
  by (simp_all add: says_wrong_def refusal_def plain_def http_fail_def ascii_def)

lemma messages_apart:
  "take 9 NO_CODE \<noteq> hu ''Hib~as k~od''" "take 9 CODE_EXPIRED \<noteq> hu ''Hib~as k~od''" "take 9 TOO_MANY_TRIES \<noteq> hu ''Hib~as k~od''"
  "take 9 (hu ''~Erv~enytelen k~er~es.'') \<noteq> hu ''Hib~as k~od''" "take 9 (hu ''Email ~es k~od megad~asa k^otelez&o.'') \<noteq> hu ''Hib~as k~od''"
  "take 9 (hu ''A k~od 6 sz~amjegyb&ol ~all.'') \<noteq> hu ''Hib~as k~od''"
  by (simp_all add: NO_CODE_def CODE_EXPIRED_def TOO_MANY_TRIES_def hu.simps accents_def)

definition guess_hit :: "code_row \<Rightarrow> code_row \<Rightarrow> bool" where
  "guess_hit q r \<longleftrightarrow> vc_id r = vc_id q \<and> vc_attempts r < VERIFICATION_MAX_ATTEMPTS"

lemma try_code_hit:
  "try_code (vc_id q) db = (length (filter (guess_hit q) (codes db)),
     db\<lparr>codes := map (\<lambda>r. if guess_hit q r then r\<lparr>vc_attempts := vc_attempts r + 1\<rparr> else r) (codes db)\<rparr>)"
  unfolding try_code_def Let_def guess_hit_def [abs_def] by (rule refl)

lemma verify_code_in_effect:
  assumes "verify_code_in now email code db = ((ok, m), db')"
  shows "(\<not> ok \<and> take 9 m \<noteq> hu ''Hib~as k~od'' \<and> verified db' = verified db \<and> (\<exists>f. aged f \<and> codes db' = map f (codes db)))
    \<or> (\<exists>q. newest_code (email_key email) db = Some q \<and> vc_attempts q < VERIFICATION_MAX_ATTEMPTS
        \<and> (\<not> ok \<and> verified db' = verified db \<and> codes db' = map (\<lambda>r. if guess_hit q r then r\<lparr>vc_attempts := vc_attempts r + 1\<rparr> else r) (codes db)
           \<or> ok \<and> vc_code q = code \<and> codes db' = map (\<lambda>r. if vc_id r = vc_id q then r\<lparr>vc_used := True\<rparr> else r) (codes db)
             \<and> verified db' = AList.update (email_key email) (Some (expiry_after now EMAIL_VERIFIED_WINDOW_MINUTES)) (verified db)))"
proof -
  have idf: "aged (\<lambda>r. r)" "codes db = map (\<lambda>r. r) (codes db)" by (simp_all add: aged_def)
  show ?thesis
  proof (cases "newest_code (email_key email) db")
    case None
    then show ?thesis using assms idf messages_apart(1) by (auto simp: verify_code_in_def Let_def)
  next
    case (Some q)
    let ?u = "\<lambda>r. if vc_id r = vc_id q then r\<lparr>vc_used := True\<rparr> else r"
    have u: "aged ?u" by (rule aged_simps)
    have q: "q \<in> set (codes db)" using newest_code_in [OF Some] by simp
    consider "is_expired now (vc_expires q)" | "\<not> is_expired now (vc_expires q)" "VERIFICATION_MAX_ATTEMPTS \<le> vc_attempts q"
      | "\<not> is_expired now (vc_expires q)" "vc_attempts q < VERIFICATION_MAX_ATTEMPTS" "vc_code q \<noteq> code"
      | "\<not> is_expired now (vc_expires q)" "vc_attempts q < VERIFICATION_MAX_ATTEMPTS" "vc_code q = code" by linarith
    then show ?thesis
    proof cases
      case 1
      then have "\<not> ok" "m = CODE_EXPIRED" "verified db' = verified db" "codes db' = map ?u (codes db)"
        using assms Some by (simp_all add: verify_code_in_def Let_def) (auto simp: use_code_def)
      then show ?thesis using u messages_apart(2) by blast
    next
      case 2
      then have "\<not> ok" "m = TOO_MANY_TRIES" "verified db' = verified db" "codes db' = map ?u (codes db)"
        using assms Some by (simp_all add: verify_code_in_def Let_def) (auto simp: use_code_def)
      then show ?thesis using u messages_apart(3) by blast
    next
      case 3
      have "filter (guess_hit q) (codes db) \<noteq> []" using q 3 by (auto simp: filter_empty_conv guess_hit_def)
      then have "\<not> ok \<and> verified db' = verified db \<and> codes db' = map (\<lambda>r. if guess_hit q r then r\<lparr>vc_attempts := vc_attempts r + 1\<rparr> else r) (codes db)"
        using assms Some 3 by (auto simp: verify_code_in_def try_code_hit Let_def)
      then show ?thesis using 3(2) Some by blast
    next
      case 4
      then have "ok \<and> vc_code q = code \<and> codes db' = map ?u (codes db)
             \<and> verified db' = AList.update (email_key email) (Some (expiry_after now EMAIL_VERIFIED_WINDOW_MINUTES)) (verified db)"
        using assms Some by (auto simp: verify_code_in_def Let_def use_code_def)
      then show ?thesis using 4(2) Some by blast
    qed
  qed
qed

lemma verify_code_effect:
  assumes "verify_code v body s = (r, s')"
  shows "(reply_status r \<noteq> 200 \<and> \<not> says_wrong r \<and> proof_table s' = proof_table s \<and> (\<exists>f. aged f \<and> code_table s' = map f (code_table s)))
    \<or> (\<exists>q. newest_code (body_key body) (adb s) = Some q \<and> vc_attempts q < VERIFICATION_MAX_ATTEMPTS
        \<and> (reply_status r \<noteq> 200 \<and> proof_table s' = proof_table s
             \<and> code_table s' = map (\<lambda>r. if guess_hit q r then r\<lparr>vc_attempts := vc_attempts r + 1\<rparr> else r) (code_table s)
           \<or> reply_status r = 200 \<and> vc_code q = body_code body
             \<and> code_table s' = map (\<lambda>r. if vc_id r = vc_id q then r\<lparr>vc_used := True\<rparr> else r) (code_table s)
             \<and> proof_table s' = AList.update (body_key body) (Some (expiry_after (v_now v) EMAIL_VERIFIED_WINDOW_MINUTES)) (proof_table s)))"
proof -
  have idf: "aged (\<lambda>r. r)" "code_table s = map (\<lambda>r. r) (code_table s)" by (simp_all add: aged_def)
  show ?thesis
  proof (cases "full_object body")
    case None
    then have "reply_status r \<noteq> 200" "\<not> says_wrong r" "s' = s" using assms messages_apart by (auto simp: verify_code_def)
    then show ?thesis using idf by blast
  next
    case (Some data)
    then have body: "body = Some data" by (auto simp: full_object_def split: option.splits json.splits list.splits)
    let ?email = "to_lowercase (str_field data ''email'')" and ?code = "str_field data ''code''"
    have keys: "body_key body = email_key ?email" "body_code body = ?code" by (simp_all add: body body_key_def body_code_def)
    show ?thesis
    proof (cases "?email = [] \<or> ?code = [] \<or> length ?code \<noteq> 6 \<or> \<not> list_all is_digit ?code")
      case True
      then have "reply_status r \<noteq> 200" "\<not> says_wrong r" "s' = s" using assms Some messages_apart
        by (auto simp: verify_code_def Let_def split: if_splits)
      then show ?thesis using idf by blast
    next
      case False
      obtain ok m db where e: "verify_code_in (v_now v) ?email ?code (adb s) = ((ok, m), db)" by (metis prod.exhaust)
      have r: "r = plain (if ok then 200 else 400, JObj [(ascii ''success'', JBool ok), (ascii ''message'', JStr m)])" "adb s' = db"
        using assms Some False e by (auto simp: verify_code_def Let_def)
      have st: "reply_status r = 200 \<longleftrightarrow> ok" by (simp add: r(1) reply_status_def plain_def)
      have wr: "says_wrong r \<longleftrightarrow> take 9 m = hu ''Hib~as k~od''" by (simp add: r(1))
      show ?thesis using verify_code_in_effect [OF e] unfolding st wr r(2) keys .
    qed
  qed
qed

lemma proofs_ok_step:
  assumes "proofs_ok tr vs" "\<And>key stamp. map_of vs' key = Some stamp \<Longrightarrow> map_of vs key = Some stamp \<and> \<not> signs_up key x"
  shows "proofs_ok (tr @ [x]) vs'"
  unfolding proofs_ok_def
proof (intro allI impI)
  fix key stamp assume "map_of vs' key = Some stamp"
  then have "map_of vs key = Some stamp" "\<not> signs_up key x" using assms(2) by simp_all
  then show "\<exists>t. stamp = Some t \<and> proved (tr @ [x]) key t" using assms(1) proved_snoc unfolding proofs_ok_def by blast
qed

lemma mail_codes_ok_silent:
  assumes "mail_codes_ok tr rows" "\<And>m. note_sent x m = m" "\<And>key. \<not> sends key x" "\<And>key. \<not> judged key x"
  shows "mail_codes_ok (tr @ [x]) rows"
  using mail_codes_ok_cong [of "tr @ [x]" tr rows] assms by (simp add: sent_code_snoc tries_snoc count_step_def)

lemma auth_silent:
  assumes "auth_ok tr s" "\<And>m. note_sent x m = m" "\<And>key. \<not> sends key x" "\<And>key. \<not> judged key x"
    "mail_codes_ok tr (code_table s')" "\<And>key stamp. map_of (proof_table s') key = Some stamp \<Longrightarrow> map_of (proof_table s) key = Some stamp \<and> \<not> signs_up key x"
    "distinct (map fst (proof_table s'))"
  shows "auth_ok (tr @ [x]) s'"
proof -
  have "mail_codes_ok (tr @ [x]) (code_table s')" using assms(5,2-4) by (rule mail_codes_ok_silent)
  moreover have "proofs_ok (tr @ [x]) (proof_table s')" using assms(1,6) by (intro proofs_ok_step [of tr "proof_table s"]) (simp_all add: auth_ok_def)
  moreover have "tries_since (tr @ [x]) key = tries_since tr key" for key using assms(3,4) by (simp add: tries_snoc count_step_def)
  ultimately show ?thesis using assms(1,7) unfolding auth_ok_def by simp
qed

lemma auth_keeps:
  assumes "auth_ok tr s" "\<And>m. note_sent x m = m" "\<And>key. \<not> sends key x" "\<And>key. \<not> judged key x" "\<And>key. \<not> signs_up key x"
    "code_table s' = code_table s \<and> proof_table s' = proof_table s"
  shows "auth_ok (tr @ [x]) s'"
  using assms by (intro auth_silent [of tr s]) (simp_all add: auth_ok_def)

lemma auth_ask:
  assumes ok: "auth_ok tr s" and a: "request_code w v n body s = (r, s')"
  shows "auth_ok (tr @ [(v, AskCode n body, r)]) s'"
proof (cases "reply_status r = 200")
  case False
  then have "adb s' = adb s" using request_code_effect [OF a] by simp
  then show ?thesis using ok False by (intro auth_keeps [of tr s]) simp_all
next
  case True
  then obtain email where e: "email_key email = asked_key body" "adb s' = snd (create_verification_code (v_now v) n email (adb s))"
    using request_code_effect [OF a] by auto
  let ?x = "(v, AskCode n body, r)"
  have v: "proof_table s' = proof_table s" by (simp add: e(2) create_verification_code_def Let_def use_code_def)
  have "mail_codes_ok (tr @ [?x]) (code_table s')" unfolding e(2)
    by (rule mail_codes_ok_create [of tr]) (use ok True e(1) in \<open>auto simp: auth_ok_def sent_code_snoc tries_snoc count_step_def\<close>)
  moreover have "proofs_ok (tr @ [?x]) (proof_table s')" using ok by (intro proofs_ok_step [of tr "proof_table s"]) (simp_all add: auth_ok_def v)
  moreover have "int (tries_since (tr @ [?x]) key) \<le> VERIFICATION_MAX_ATTEMPTS" for key
    using ok by (simp add: tries_snoc count_step_def auth_ok_def VERIFICATION_MAX_ATTEMPTS_def)
  ultimately show ?thesis using ok by (simp add: auth_ok_def v)
qed

text \<open>The rows after a guess: the address of the guess has one guess more behind it.\<close>

lemma mail_codes_ok_guess:
  assumes ok: "mail_codes_ok tr rows" and q: "q \<in> set rows" "vc_email q = key" "\<not> vc_used q" and f: "aged f"
    and sent: "\<And>k. sent_code tr' k = sent_code tr k" and tries: "\<And>k. tries_since tr' k = (if k = key then tries_since tr k + 1 else tries_since tr k)"
    and more: "vc_used (f q) \<or> vc_attempts q < vc_attempts (f q)"
  shows "mail_codes_ok tr' (map f rows)"
proof -
  have old: "mail_codes_ok tr (map f rows)" using f ok by (rule mail_codes_ok_aged)
  have "code_fits tr' (f r)" if r: "r \<in> set rows" "\<not> vc_used (f r)" for r
  proof -
    have fr: "vc_email (f r) = vc_email r" "\<not> vc_used r" "code_fits tr (f r)"
      using f r(2) mail_codes_ok_fits [OF old _ r(2)] r(1) by (auto simp: aged_def)
    show ?thesis
    proof (cases "vc_email r = key")
      case False
      then show ?thesis using fr by (simp add: code_fits_def sent tries)
    next
      case True
      then have "r = q" using only_code [OF ok r(1) q(1) fr(2) q(3)] q(2) by simp
      then have "vc_attempts r < vc_attempts (f r)" "code_fits tr r" using more r(2) mail_codes_ok_fits [OF ok q(1) q(3)] by simp_all
      then show ?thesis using fr True by (simp add: code_fits_def sent tries)
    qed
  qed
  then show ?thesis using mail_codes_ok_one [OF old] unfolding mail_codes_ok_def by simp
qed

lemma auth_enter:
  assumes ok: "auth_ok tr s" and a: "verify_code v body s = (r, s')"
  shows "auth_ok (tr @ [(v, EnterCode body, r)]) s'"
proof -
  let ?x = "(v, EnterCode body, r)" and ?key = "body_key body"
  have cok: "mail_codes_ok tr (code_table s)" and pok: "proofs_ok tr (proof_table s)" and dok: "distinct (map fst (proof_table s))"
    and tok: "\<And>key. int (tries_since tr key) \<le> VERIFICATION_MAX_ATTEMPTS" using ok by (simp_all add: auth_ok_def)
  have sent: "sent_code (tr @ [?x]) k = sent_code tr k" for k by (simp add: sent_code_snoc)
  consider (unseen) f where "reply_status r \<noteq> 200" "\<not> says_wrong r" "proof_table s' = proof_table s" "aged f" "code_table s' = map f (code_table s)"
    | (guess) q where "newest_code ?key (adb s) = Some q" "vc_attempts q < VERIFICATION_MAX_ATTEMPTS" "reply_status r \<noteq> 200" "says_wrong r"
        "proof_table s' = proof_table s" "code_table s' = map (\<lambda>r. if guess_hit q r then r\<lparr>vc_attempts := vc_attempts r + 1\<rparr> else r) (code_table s)"
    | (hidden) q where "reply_status r \<noteq> 200" "\<not> says_wrong r"
        "proof_table s' = proof_table s" "code_table s' = map (\<lambda>r. if guess_hit q r then r\<lparr>vc_attempts := vc_attempts r + 1\<rparr> else r) (code_table s)"
    | (good) q where "newest_code ?key (adb s) = Some q" "vc_attempts q < VERIFICATION_MAX_ATTEMPTS" "reply_status r = 200" "vc_code q = body_code body"
        "code_table s' = map (\<lambda>r. if vc_id r = vc_id q then r\<lparr>vc_used := True\<rparr> else r) (code_table s)"
        "proof_table s' = AList.update ?key (Some (expiry_after (v_now v) EMAIL_VERIFIED_WINDOW_MINUTES)) (proof_table s)"
    using verify_code_effect [OF a] by blast
  then show ?thesis
  proof cases
    case unseen
    then show ?thesis using ok mail_codes_ok_aged [OF unseen(4) cok] by (intro auth_silent [of tr s]) (auto simp: auth_ok_def)
  next
    case hidden
    then show ?thesis using ok mail_codes_ok_aged [OF aged_simps(2) cok] by (intro auth_silent [of tr s]) (auto simp: auth_ok_def)
  next
    case guess
    have q: "q \<in> set (code_table s)" "vc_email q = ?key" "\<not> vc_used q" using newest_code_in [OF guess(1)] by simp_all
    have tries: "tries_since (tr @ [?x]) k = (if k = ?key then tries_since tr k + 1 else tries_since tr k)" for k
      using guess(4) by (auto simp: tries_snoc count_step_def)
    have "mail_codes_ok (tr @ [?x]) (code_table s')" unfolding guess(6)
      by (rule mail_codes_ok_guess [OF cok q aged_simps(2) sent tries]) (use guess(2) in \<open>simp add: guess_hit_def\<close>)
    moreover have "proofs_ok (tr @ [?x]) (proof_table s')" using pok guess(5) by (intro proofs_ok_step [of tr "proof_table s"]) simp_all
    moreover have "int (tries_since (tr @ [?x]) k) \<le> VERIFICATION_MAX_ATTEMPTS" for k
      using tok [of k] guess(2) mail_codes_ok_fits [OF cok q(1,3)] q(2) by (simp add: tries code_fits_def)
    ultimately show ?thesis using dok guess(5) by (simp add: auth_ok_def)
  next
    case good
    have q: "q \<in> set (code_table s)" "vc_email q = ?key" "\<not> vc_used q" using newest_code_in [OF good(1)] by simp_all
    have tries: "tries_since (tr @ [?x]) k = (if k = ?key then tries_since tr k + 1 else tries_since tr k)" for k
      using good(3) by (auto simp: tries_snoc count_step_def)
    have "mail_codes_ok (tr @ [?x]) (code_table s')" unfolding good(5)
      by (rule mail_codes_ok_guess [OF cok q aged_simps(1) sent tries]) simp
    moreover have "proofs_ok (tr @ [?x]) (proof_table s')" unfolding proofs_ok_def
    proof (intro allI impI)
      fix key stamp assume m: "map_of (proof_table s') key = Some stamp"
      show "\<exists>t. stamp = Some t \<and> proved (tr @ [?x]) key t"
      proof (cases "key = ?key")
        case True
        then have "stamp = Some (expiry_after (v_now v) EMAIL_VERIFIED_WINDOW_MINUTES)" using m by (simp add: good(6) update_conv)
        moreover have "sent_code tr ?key = Some (body_code body)" using mail_codes_ok_fits [OF cok q(1,3)] q(2) good(4) by (simp add: code_fits_def)
        ultimately show ?thesis using proved_now [OF good(3)] True by blast
      next
        case False
        then have "map_of (proof_table s) key = Some stamp" using m by (simp add: good(6) update_conv)
        then obtain t where "stamp = Some t" "proved tr key t" using pok unfolding proofs_ok_def by blast
        then show ?thesis using proved_snoc [of tr key t ?x] by simp
      qed
    qed
    moreover have "int (tries_since (tr @ [?x]) k) \<le> VERIFICATION_MAX_ATTEMPTS" for k
      using tok [of k] good(2) mail_codes_ok_fits [OF cok q(1,3)] q(2) by (simp add: tries code_fits_def)
    moreover have "distinct (map fst (proof_table s'))" using dok by (simp add: good(6) distinct_update)
    ultimately show ?thesis by (simp add: auth_ok_def)
  qed
qed

lemma map_of_delete: "map_of (AList.delete k vs) key = (if key = k then None else map_of vs key)"
  by (simp add: delete_conv)

lemma auth_signup:
  assumes ok: "auth_ok tr s" and a: "register w v token body s = (r, s')"
  shows "auth_ok (tr @ [(v, SignUp token body, r)]) s'"
proof (rule auth_silent [OF ok])
  show "mail_codes_ok tr (code_table s')" using register_effect [OF a] ok by (simp add: auth_ok_def)
  show "distinct (map fst (proof_table s'))" using register_effect [OF a] ok by (auto simp: auth_ok_def distinct_delete)
  show "map_of (proof_table s) key = Some stamp \<and> \<not> signs_up key (v, SignUp token body, r)" if "map_of (proof_table s') key = Some stamp" for key stamp
    using register_effect [OF a] that by (auto simp: map_of_delete split: if_splits)
qed simp_all

lemma map_of_kept: "distinct (map fst vs) \<Longrightarrow> map_of (filter P vs) key = Some stamp \<Longrightarrow> map_of vs key = Some stamp"
  by (meson distinct_map_filter filter_is_subset map_of_eq_Some_iff map_of_SomeD subsetD)

lemma auth_clean:
  assumes ok: "auth_ok tr s"
  shows "auth_ok (tr @ [(v, CleanUp, r)]) (s\<lparr>adb := cleanup_expired (v_now v) (adb s)\<rparr>)"
proof (rule auth_silent [OF ok])
  show "mail_codes_ok tr (code_table (s\<lparr>adb := cleanup_expired (v_now v) (adb s)\<rparr>))"
    using ok by (simp add: cleanup_expired_def auth_ok_def mail_codes_ok_filter)
  show "distinct (map fst (proof_table (s\<lparr>adb := cleanup_expired (v_now v) (adb s)\<rparr>)))"
    using ok by (simp add: cleanup_expired_def auth_ok_def distinct_map_filter)
  show "map_of (proof_table s) key = Some stamp \<and> \<not> signs_up key (v, CleanUp, r)"
    if "map_of (proof_table (s\<lparr>adb := cleanup_expired (v_now v) (adb s)\<rparr>)) key = Some stamp" for key stamp
    using map_of_kept [of "proof_table s" "\<lambda>(_, t). \<not> outdated \<lfloor>v_now v\<rfloor> t" key stamp] that ok
    by (simp add: cleanup_expired_def auth_ok_def)
qed simp_all

interpretation portal_runs: invariant_system "auth_moves w" "\<lambda>st. auth_ok (fst st) (snd st)" for w
proof
  fix st st' :: "auth_trace \<times> portal" and e
  assume m: "auth_moves w st e st'" and ok: "auth_ok (fst st) (snd st)"
  obtain v ev where e: "e = (v, ev)" by (cases e)
  obtain tr s where st: "st = (tr, s)" by (cases st)
  obtain r s' where a: "auth_answer w v ev s = (r, s')" by fastforce
  have st': "st' = (tr @ [(v, ev, r)], s')" using m by (simp add: auth_moves_def st e a)
  have "auth_ok (tr @ [(v, ev, r)]) s'"
  proof (cases ev)
    case (AskCode n body)
    then show ?thesis using auth_ask [of tr s w v n body r s'] ok a st by simp
  next
    case (EnterCode body)
    then show ?thesis using auth_enter [of tr s v body r s'] ok a st by simp
  next
    case (SignUp token body)
    then show ?thesis using auth_signup [of tr s w v token body r s'] ok a st by simp
  next
    case (SignIn token body)
    then show ?thesis using ok a st login_keeps [of w v token body s] by (intro auth_keeps [of tr s]) simp_all
  next
    case SignOut
    then show ?thesis using ok a st logout_keeps [of v s] by (intro auth_keeps [of tr s]) simp_all
  next
    case AskMe
    then show ?thesis using ok a st me_keeps [of w v s] by (intro auth_keeps [of tr s]) simp_all
  next
    case CleanUp
    then show ?thesis using auth_clean [of tr s v r] ok a st by auto
  qed
  then show "auth_ok (fst st') (snd st')" by (simp add: st')
qed

section \<open>Registration proves the address\<close>

definition fresh_portal :: "portal \<Rightarrow> bool" where
  "fresh_portal s \<longleftrightarrow> codes (adb s) = [] \<and> verified (adb s) = []"

lemma fresh_ok: "fresh_portal s \<Longrightarrow> auth_ok [] s"
  by (simp add: fresh_portal_def auth_ok_def mail_codes_ok_def proofs_ok_def unused_of_def tries_since_def VERIFICATION_MAX_ATTEMPTS_def)

lemma run_ok: "fresh_portal s0 \<Longrightarrow> steps (auth_moves w) ([], s0) es st \<Longrightarrow> auth_ok (fst st) (snd st)"
  using portal_runs.inv_run fresh_ok by (metis fst_conv snd_conv)

lemma sign_up_was_proved:
  assumes "steps (auth_moves w) st0 es st" "st0 = ([], s0)" "fresh_portal s0"
  shows "fst st = tr1 @ (v, SignUp token body, r) # tr2 \<Longrightarrow> reply_status r = 200
    \<Longrightarrow> \<exists>t. proved tr1 (body_key body) t \<and> v_now v \<le> real_of_int t"
  using assms
proof (induction arbitrary: tr2 rule: steps.induct)
  case (run_snoc s0' es st1 e st2)
  obtain v' ev where e: "e = (v', ev)" by (cases e)
  obtain r' s2 where a: "auth_answer w v' ev (snd st1) = (r', s2)" by fastforce
  have st2: "st2 = (fst st1 @ [(v', ev, r')], s2)" using run_snoc.hyps(2) by (simp add: auth_moves_def e a)
  show ?case
  proof (cases tr2 rule: rev_cases)
    case Nil
    then have x: "fst st1 = tr1" "v' = v" "ev = SignUp token body" "r' = r" using run_snoc.prems(1) by (simp_all add: st2)
    have ok: "auth_ok tr1 (snd st1)" using run_ok [OF run_snoc.prems(4), of w es st1] run_snoc.hyps(1) run_snoc.prems(3) x(1) by simp
    obtain stamp where st: "map_of (proof_table (snd st1)) (body_key body) = Some stamp" "\<not> is_expired (v_now v) stamp"
      using register_effect [of w v token body "snd st1" r s2] a x run_snoc.prems(2) by auto
    then obtain t where t: "stamp = Some t" "proved tr1 (body_key body) t" using ok unfolding auth_ok_def proofs_ok_def by blast
    then have "v_now v \<le> real_of_int t" using st(2) by (simp add: is_expired_def)
    then show ?thesis using t(2) by blast
  next
    case (snoc tr3 y)
    then have "fst st1 = tr1 @ (v, SignUp token body, r) # tr3" using run_snoc.prems(1) by (simp add: st2)
    then show ?thesis using run_snoc.IH run_snoc.prems(2-4) by blast
  qed
qed simp

text \<open>
  C26. Registration proves the address. Over every sequence of requests and clean-ups from empty tables, whatever the
  bodies, times and drawn codes are: when a registration succeeds, the code that was mailed last to its address had been
  entered before and accepted, at most thirty minutes earlier, and no registration of the address succeeded in between.
\<close>

theorem registration_needs_the_code:
  assumes "fresh_portal s0" "steps (auth_moves w) ([], s0) es (tr1 @ (v, SignUp token body, r) # tr2, s)" "reply_status r = 200"
  shows "\<exists>before v' body' r' since. tr1 = before @ (v', EnterCode body', r') # since \<and> reply_status r' = 200
    \<and> body_key body' = body_key body \<and> sent_code before (body_key body) = Some (body_code body')
    \<and> v_now v \<le> v_now v' + 30 * 60 \<and> list_all (\<lambda>x. \<not> signs_up (body_key body) x) since"
proof -
  obtain t where p: "proved tr1 (body_key body) t" and t: "v_now v \<le> real_of_int t"
    using sign_up_was_proved [OF assms(2) refl assms(1) _ assms(3), of tr1 v token body tr2] by auto
  obtain before v' body' r' since where d: "tr1 = before @ (v', EnterCode body', r') # since" "reply_status r' = 200"
      "body_key body' = body_key body" "sent_code before (body_key body) = Some (body_code body')"
      "t = expiry_after (v_now v') EMAIL_VERIFIED_WINDOW_MINUTES" "list_all (\<lambda>x. \<not> signs_up (body_key body) x) since"
    using p unfolding proved_def by blast
  have "real_of_int t \<le> v_now v' + 30 * 60" by (simp add: d(5) expiry_after_def EMAIL_VERIFIED_WINDOW_MINUTES_def)
  then show ?thesis using d t by (intro exI [of _ before] exI [of _ v'] exI [of _ body'] exI [of _ r'] exI [of _ since]) simp
qed

text \<open>A run of the requests, and the run of an example: a code is mailed, mistyped, entered, and used to register.\<close>

definition portal_run :: "site \<Rightarrow> (visitor \<times> auth_event) list \<Rightarrow> auth_trace \<times> portal \<Rightarrow> auth_trace \<times> portal" where
  "portal_run w es st = fold (\<lambda>(v, ev) (tr, s). case auth_answer w v ev s of (r, s') \<Rightarrow> (tr @ [(v, ev, r)], s')) es st"

lemma steps_portal_run: "steps (auth_moves w) st es (portal_run w es st)"
proof (induction es rule: rev_induct)
  case Nil
  then show ?case by (simp add: portal_run_def steps.run_nil)
next
  case (snoc e es)
  show ?case using snoc by (rule steps.run_snoc) (simp add: portal_run_def auth_moves_def split: prod.splits)
qed

definition demo_site :: site where
  "demo_site = \<lparr>admin_emails = {}, mailer_configured = False, site_banned = [], site_fold = (\<lambda>c. [c]), site_alnum = (\<lambda>c. True),
     hash_of = (\<lambda>s. s), checks = (\<lambda>h s. h = s), ban_stamp = show_int\<rparr>"

definition demo_portal :: portal where
  "demo_portal = \<lparr>adb = \<lparr>users = [], codes = [], verified = [], sessions = [], logins = [], next_user = 1, next_code = 1, next_session = 1\<rparr>,
     gate = limiter_new [] [], registration_open = True, outbox = []\<rparr>"

definition demo_visitor :: visitor where
  "demo_visitor = \<lparr>v_now = 0, v_ip = [], v_agent = [], v_token = None\<rparr>"

definition demo_body :: "string \<Rightarrow> json option" where
  "demo_body n = Some (JObj [(ascii ''email'', JStr (ascii ''a@b.hu'')), (ascii ''code'', JStr (ascii n)),
     (ascii ''password'', JStr (ascii ''jelszo'')), (ascii ''display_name'', JStr (ascii ''Anna''))])"

definition demo_requests :: "(visitor \<times> auth_event) list" where
  "demo_requests = map (Pair demo_visitor) [AskCode 7 (demo_body []), EnterCode (demo_body ''000008''), EnterCode (demo_body ''000007''),
     SignUp (ascii ''t'') (demo_body [])]"

lemma demo_email: "to_lowercase (ascii ''a@b.hu'') = ascii ''a@b.hu''" "trim (ascii ''a@b.hu'') = ascii ''a@b.hu''"
  by (simp_all add: ascii_def to_lowercase_def lower_char_def trim_def is_whitespace_def)

lemma demo_address: "bad_email (ascii ''a@b.hu'') = False" "email_key (ascii ''a@b.hu'') = ascii ''a@b.hu''"
  by (simp_all add: email_key_def demo_email)
    (simp add: bad_email_def EMAIL_RE_def ascii_def local_char_def domain_char_def is_letter_def is_digit_def Let_def)

lemma demo_codes: "trim (ascii ''000008'') = ascii ''000008''" "trim (ascii ''000007'') = ascii ''000007''" "code_text 7 = ascii ''000007''"
  "list_all is_digit (ascii ''000008'')" "list_all is_digit (ascii ''000007'')"
  by (simp_all add: ascii_def trim_def is_whitespace_def is_digit_def code_text_def show_nat.simps eval_nat_numeral)

lemma demo_name: "trim (ascii ''Anna'') = ascii ''Anna''" "sanitize_name_str (\<lambda>c. True) (ascii ''Anna'') = Some (ascii ''Anna'')"
  "contains_banned (\<lambda>c. [c]) [] (ascii ''Anna'') = False"
  by (simp_all add: contains_banned_def find_banned_def sanitize_name_str_def sanitize_name_def sanitize_text_def name_char_ok_def is_word_char_def
      ascii_def trim_def is_whitespace_def Let_def)

lemmas demo_texts = demo_email demo_address demo_codes demo_name

lemma demo_fields:
  "full_object (demo_body c) = demo_body c"
  "str_field (the (demo_body c)) ''email'' = ascii ''a@b.hu''" "str_field (the (demo_body c)) ''code'' = trim (ascii c)"
  "str_field (the (demo_body c)) ''display_name'' = ascii ''Anna''" "password_field (the (demo_body c)) = ascii ''jelszo''"
  by (simp_all add: demo_body_def full_object_def str_field_def password_field_def demo_texts)

lemma demo_keys: "asked_key (demo_body c) = ascii ''a@b.hu''" "body_key (demo_body c) = ascii ''a@b.hu''" "body_code (demo_body c) = trim (ascii c)"
  by (simp_all add: asked_key_def body_key_def body_code_def demo_body_def str_field_def demo_texts)

definition demo_row :: "int \<Rightarrow> bool \<Rightarrow> code_row" where
  "demo_row n used = \<lparr>vc_id = 1, vc_email = ascii ''a@b.hu'', vc_code = ascii ''000007'', vc_created = 0, vc_expires = Some 600, vc_attempts = n, vc_used = used\<rparr>"

definition demo_state :: "int \<Rightarrow> bool \<Rightarrow> portal" where
  "demo_state n used = demo_portal\<lparr>adb := (adb demo_portal)\<lparr>codes := [demo_row n used], next_code := 2,
     verified := (if used then [(ascii ''a@b.hu'', Some 1800)] else [])\<rparr>, outbox := [(ascii ''a@b.hu'', ascii ''000007'')]\<rparr>"

lemma demo_gate: "gate_check v act (demo_state n u) = (True, demo_state n u)" "gate_check v act demo_portal = (True, demo_portal)"
  by (simp_all add: gate_check_def check_ip_def ip_limit_def limit_in_def demo_state_def demo_portal_def limiter_new_def)

lemmas demo_defs = demo_site_def demo_portal_def demo_state_def demo_row_def demo_visitor_def

lemma demo_ask:
  "reply_status (fst (request_code demo_site demo_visitor 7 (demo_body c) demo_portal)) = 200"
  "snd (request_code demo_site demo_visitor 7 (demo_body c) demo_portal) = demo_state 0 False"
proof -
  have b: "demo_body c \<bind> (\<lambda>d. jget d (ascii ''email'')) \<bind> as_str = Some (ascii ''a@b.hu'')" by (simp add: demo_body_def)
  have c: "create_verification_code 0 7 (ascii ''a@b.hu'') (adb demo_portal) = (ascii ''000007'', adb (demo_state 0 False))"
    by (simp add: create_verification_code_def use_code_def demo_texts demo_defs Let_def expiry_after_def VERIFICATION_CODE_EXPIRY_MINUTES_def)
  have u: "get_user_by_email (ascii ''a@b.hu'') (adb demo_portal) = None" "registration_open demo_portal" "v_now demo_visitor = 0"
    by (simp_all add: get_user_by_email_def demo_defs)
  show "reply_status (fst (request_code demo_site demo_visitor 7 (demo_body c) demo_portal)) = 200"
    unfolding request_code_def b demo_gate by (simp add: demo_texts u c Let_def reply_status_def plain_def http_ok_def)
  show "snd (request_code demo_site demo_visitor 7 (demo_body c) demo_portal) = demo_state 0 False"
    unfolding request_code_def b demo_gate by (simp add: demo_texts u c Let_def) (simp add: demo_defs)
qed

lemma demo_newest: "newest_code (ascii ''a@b.hu'') (adb (demo_state n False)) = Some (demo_row n False)"
  by (simp add: newest_code_def demo_defs)

lemma demo_body_Some: "demo_body c = Some (the (demo_body c))"
  by (simp add: demo_body_def)

lemma demo_miss:
  "reply_status (fst (verify_code demo_visitor (demo_body ''000008'') (demo_state 0 False))) = 400"
  "snd (verify_code demo_visitor (demo_body ''000008'') (demo_state 0 False)) = demo_state 1 False"
proof -
  have n: "ascii ''a@b.hu'' \<noteq> []" "ascii ''000008'' \<noteq> []" "length (ascii ''000008'') = 6" by (simp_all add: ascii_def)
  have v: "verify_code_in 0 (ascii ''a@b.hu'') (ascii ''000008'') (adb (demo_state 0 False)) = ((False, wrong_code 4), adb (demo_state 1 False))"
    by (simp add: verify_code_in_def demo_texts demo_newest Let_def) (simp add: demo_defs is_expired_def VERIFICATION_MAX_ATTEMPTS_def try_code_def Let_def)
  have r: "verify_code demo_visitor (demo_body ''000008'') (demo_state 0 False)
      = (plain (400, JObj [(ascii ''success'', JBool False), (ascii ''message'', JStr (wrong_code 4))]), (demo_state 0 False)\<lparr>adb := adb (demo_state 1 False)\<rparr>)"
    unfolding verify_code_def demo_fields(1) by (subst demo_body_Some) (simp add: demo_fields demo_texts n v Let_def, simp add: demo_visitor_def v)
  show "reply_status (fst (verify_code demo_visitor (demo_body ''000008'') (demo_state 0 False))) = 400" by (simp add: r reply_status_def plain_def)
  show "snd (verify_code demo_visitor (demo_body ''000008'') (demo_state 0 False)) = demo_state 1 False" by (simp add: r) (simp add: demo_defs)
qed

lemma demo_hit:
  "reply_status (fst (verify_code demo_visitor (demo_body ''000007'') (demo_state 1 False))) = 200"
  "snd (verify_code demo_visitor (demo_body ''000007'') (demo_state 1 False)) = demo_state 1 True"
proof -
  have n: "ascii ''a@b.hu'' \<noteq> []" "ascii ''000007'' \<noteq> []" "length (ascii ''000007'') = 6" by (simp_all add: ascii_def)
  have v: "verify_code_in 0 (ascii ''a@b.hu'') (ascii ''000007'') (adb (demo_state 1 False)) = ((True, CODE_ACCEPTED), adb (demo_state 1 True))"
    by (simp add: verify_code_in_def demo_texts demo_newest Let_def)
      (simp add: demo_defs is_expired_def VERIFICATION_MAX_ATTEMPTS_def use_code_def Let_def expiry_after_def EMAIL_VERIFIED_WINDOW_MINUTES_def)
  have r: "verify_code demo_visitor (demo_body ''000007'') (demo_state 1 False)
      = (plain (200, JObj [(ascii ''success'', JBool True), (ascii ''message'', JStr CODE_ACCEPTED)]), (demo_state 1 False)\<lparr>adb := adb (demo_state 1 True)\<rparr>)"
    unfolding verify_code_def demo_fields(1) by (subst demo_body_Some) (simp add: demo_fields demo_texts n v Let_def, simp add: demo_visitor_def v)
  show "reply_status (fst (verify_code demo_visitor (demo_body ''000007'') (demo_state 1 False))) = 200" by (simp add: r reply_status_def plain_def)
  show "snd (verify_code demo_visitor (demo_body ''000007'') (demo_state 1 False)) = demo_state 1 True" by (simp add: r) (simp add: demo_defs)
qed

lemma demo_register: "reply_status (fst (register demo_site demo_visitor t (demo_body c) (demo_state 1 True))) = 200"
proof -
  have n: "ascii ''a@b.hu'' \<noteq> []" "ascii ''jelszo'' \<noteq> []" "ascii ''Anna'' \<noteq> []" "length (ascii ''jelszo'') = 6" by (simp_all add: ascii_def)
  have e: "registration_error demo_site (ascii ''a@b.hu'') (ascii ''jelszo'') (ascii ''Anna'') = None"
    by (simp add: registration_error_def n demo_texts) (simp add: demo_site_def demo_texts)
  have u: "get_user_by_email (ascii ''a@b.hu'') (adb (demo_state 1 True)) = None" "registration_open (demo_state 1 True)"
    "is_email_verified (v_now demo_visitor) (ascii ''a@b.hu'') (adb (demo_state 1 True)) = (True, adb (demo_state 1 True))"
    by (simp_all add: get_user_by_email_def is_email_verified_def demo_texts demo_defs is_expired_def)
  let ?n = "the (sanitize_name_str (site_alnum demo_site) (ascii ''Anna''))"
  have "fst (create_user (hash_of demo_site) (ascii ''a@b.hu'') ?n (ascii ''jelszo'') (adb (demo_state 1 True))) = Inr 1"
    using u(1) by (simp add: create_user_def demo_texts) (simp add: demo_defs)
  then obtain db where c: "create_user (hash_of demo_site) (ascii ''a@b.hu'') ?n (ascii ''jelszo'') (adb (demo_state 1 True)) = (Inr 1, db)"
    by (metis prod.collapse)
  show ?thesis unfolding register_def demo_gate demo_fields(1)
    by (subst demo_body_Some) (simp add: demo_fields demo_texts n e u c Let_def reply_status_def http_ok_def)
qed

theorem registration_needs_the_code_witness:
  "\<exists>before v' body' r' since. take 3 (fst (portal_run demo_site demo_requests ([], demo_portal))) = before @ (v', EnterCode body', r') # since
     \<and> reply_status r' = 200 \<and> sent_code before (ascii ''a@b.hu'') = Some (body_code body')"
proof -
  define r1 r2 r3 r4 where r: "r1 = fst (request_code demo_site demo_visitor 7 (demo_body []) demo_portal)"
    "r2 = fst (verify_code demo_visitor (demo_body ''000008'') (demo_state 0 False))"
    "r3 = fst (verify_code demo_visitor (demo_body ''000007'') (demo_state 1 False))"
    "r4 = fst (register demo_site demo_visitor (ascii ''t'') (demo_body []) (demo_state 1 True))"
  let ?tr1 = "[(demo_visitor, AskCode 7 (demo_body []), r1), (demo_visitor, EnterCode (demo_body ''000008''), r2), (demo_visitor, EnterCode (demo_body ''000007''), r3)]"
  let ?s = "snd (register demo_site demo_visitor (ascii ''t'') (demo_body []) (demo_state 1 True))"
  have run: "portal_run demo_site demo_requests ([], demo_portal) = (?tr1 @ [(demo_visitor, SignUp (ascii ''t'') (demo_body []), r4)], ?s)"
    by (simp add: portal_run_def demo_requests_def case_prod_beta demo_ask(2) demo_miss(2) demo_hit(2) r)
  have steps: "steps (auth_moves demo_site) ([], demo_portal) demo_requests (?tr1 @ (demo_visitor, SignUp (ascii ''t'') (demo_body []), r4) # [], ?s)"
    using steps_portal_run [of demo_site "([], demo_portal)" demo_requests] by (simp add: run)
  have "fresh_portal demo_portal" "reply_status r4 = 200" by (simp_all add: fresh_portal_def demo_portal_def r demo_register)
  from registration_needs_the_code [OF this(1) steps this(2)]
  obtain before v' body' r' since where "?tr1 = before @ (v', EnterCode body', r') # since" "reply_status r' = 200"
      "sent_code before (ascii ''a@b.hu'') = Some (body_code body')" unfolding demo_keys by blast
  moreover have "take 3 (fst (portal_run demo_site demo_requests ([], demo_portal))) = ?tr1" by (simp add: run)
  ultimately show ?thesis by (simp only:) blast
qed

section \<open>A code withstands guessing\<close>

lemma tries_grow: "list_all (\<lambda>x. \<not> sends key x) tr2 \<Longrightarrow> tries_since (tr1 @ tr2) key = tries_since tr1 key + length (filter (judged key) tr2)"
proof (induction tr2 rule: rev_induct)
  case (snoc x tr2)
  then have "tries_since (tr1 @ tr2 @ [x]) key = count_step key x (tries_since tr1 key + length (filter (judged key) tr2))"
    using tries_snoc [of "tr1 @ tr2" x key] by simp
  then show ?case using snoc.prems by (simp add: count_step_def)
qed simp

text \<open>
  C27. A code withstands guessing. As long as no new code is mailed to an address, at most five of the codes entered for it
  are compared with the mailed one (found wrong or accepted), however many are entered and whatever else happens.
\<close>

theorem guesses_are_limited:
  assumes "fresh_portal s0" "steps (auth_moves w) ([], s0) es (tr1 @ tr2, s)" "list_all (\<lambda>x. \<not> sends key x) tr2"
  shows "length (filter (judged key) tr2) \<le> 5"
proof -
  have "int (tries_since (tr1 @ tr2) key) \<le> VERIFICATION_MAX_ATTEMPTS" using run_ok [OF assms(1,2)] by (simp add: auth_ok_def)
  then show ?thesis using tries_grow [OF assms(3), of tr1] by (simp add: VERIFICATION_MAX_ATTEMPTS_def)
qed

text \<open>Ten guesses after one mail.\<close>

definition asked :: "visitor \<times> auth_event \<times> web_reply \<Rightarrow> visitor \<times> auth_event" where
  "asked x = (fst x, fst (snd x))"

lemma run_asked: "map asked (fst (portal_run w es st)) = map asked (fst st) @ es"
proof (induction es rule: rev_induct)
  case Nil
  then show ?case by (simp add: portal_run_def)
next
  case (snoc e es)
  obtain v ev where e: "e = (v, ev)" by (cases e)
  have "fst (portal_run w (es @ [e]) st) = fst (portal_run w es st) @ [(v, ev, fst (auth_answer w v ev (snd (portal_run w es st))))]"
    by (simp add: portal_run_def e case_prod_beta)
  then show ?case using snoc by (simp add: asked_def e)
qed

theorem guesses_are_limited_witness:
  "length (filter (judged (ascii ''a@b.hu'')) (drop 1 (fst (portal_run demo_site
     ((demo_visitor, AskCode 7 (demo_body [])) # replicate 10 (demo_visitor, EnterCode (demo_body ''000008''))) ([], demo_portal))))) \<le> 5"
proof -
  let ?es = "replicate 10 (demo_visitor, EnterCode (demo_body ''000008''))"
  let ?run = "portal_run demo_site ((demo_visitor, AskCode 7 (demo_body [])) # ?es) ([], demo_portal)"
  have "map asked (drop 1 (fst ?run)) = ?es" by (simp add: drop_map [symmetric] run_asked)
  then have "asked ` set (drop 1 (fst ?run)) = set ?es" by (simp only: set_map [symmetric])
  then have ev: "\<forall>x\<in>set (drop 1 (fst ?run)). asked x \<in> set ?es" by blast
  have quiet: "\<not> sends key x" if "asked x \<in> set ?es" for key x
    using that by (cases x) (auto simp: asked_def)
  have "list_all (\<lambda>x. \<not> sends (ascii ''a@b.hu'') x) (drop 1 (fst ?run))"
    unfolding list_all_iff using ev quiet by blast
  moreover have "steps (auth_moves demo_site) ([], demo_portal) ((demo_visitor, AskCode 7 (demo_body [])) # ?es)
      (take 1 (fst ?run) @ drop 1 (fst ?run), snd ?run)" using steps_portal_run by simp
  moreover have "fresh_portal demo_portal" by (simp add: fresh_portal_def demo_portal_def)
  ultimately show ?thesis using guesses_are_limited by blast
qed

end
